(* ===== verification/Prelude.thy ===== *)
theory Prelude
  imports Main "HOL-Library.Word"
begin

text \<open>
  The prelude: names for the machine integers of the C sources, the collections of
  facts the component theories extend, and lemmas on lists, words and bounded searches
  that several components share.
\<close>

unbundle bit_operations_syntax

section \<open>Machine types\<close>

type_synonym u8 = "8 word"
type_synonym u16 = "16 word"
type_synonym u32 = "32 word"
type_synonym u64 = "64 word"

text \<open>
  A C \<open>int\<close> is a 32-bit word too; its signed value is \<^term>\<open>sint\<close>. A flat byte memory
  is a total function on addresses; both WeensyOS kernels run on a 32-bit machine, but
  nothing in the memory routines depends on the width.
\<close>

type_synonym i32 = "32 word"
type_synonym 'a mem = "'a word \<Rightarrow> u8"
type_synonym memory = "32 mem"

named_theorems frame_simps
named_theorems wf_intros

section \<open>Bounded searches\<close>

text \<open>
  \<^verbatim>\<open>for (i = lo; i < hi; i++) if (p(i)) return i;\<close> is a loop of half of the
  components: a scan for the first index of a range that satisfies a test.
\<close>

fun scan :: "(nat \<Rightarrow> bool) \<Rightarrow> nat \<Rightarrow> nat \<Rightarrow> nat option" where
  "scan p i 0 = None"
| "scan p i (Suc n) = (if p i then Some i else scan p (Suc i) n)"

lemma scan_Some_iff:
  "scan p i n = Some k \<longleftrightarrow> i \<le> k \<and> k < i + n \<and> p k \<and> (\<forall>j. i \<le> j \<and> j < k \<longrightarrow> \<not> p j)"
proof (induction p i n rule: scan.induct)
  case (2 p i n)
  show ?case
  proof (cases "p i")
    case True
    then show ?thesis by (auto simp: le_less)
  next
    case False
    have "(\<forall>j. i \<le> j \<and> j < k \<longrightarrow> \<not> p j) \<longleftrightarrow> (\<forall>j. Suc i \<le> j \<and> j < k \<longrightarrow> \<not> p j)"
      using False by (metis Suc_leI Suc_leD le_neq_implies_less)
    moreover have "i \<le> k \<and> p k \<longleftrightarrow> Suc i \<le> k \<and> p k"
      using False by (metis Suc_leI Suc_leD le_neq_implies_less)
    ultimately show ?thesis using False 2 by auto
  qed
qed auto

lemma scan_None_iff: "scan p i n = None \<longleftrightarrow> (\<forall>j. i \<le> j \<and> j < i + n \<longrightarrow> \<not> p j)"
proof (induction p i n rule: scan.induct)
  case (2 p i n)
  then show ?case
    by (auto simp: le_less Suc_le_eq) (metis Suc_leI add_Suc le_eq_less_or_eq)+
qed auto

lemma scan_SomeD:
  assumes "scan p i n = Some k"
  shows "i \<le> k" "k < i + n" "p k" "\<And>j. i \<le> j \<Longrightarrow> j < k \<Longrightarrow> \<not> p j"
  using assms by (auto simp: scan_Some_iff)

lemma scan_cong:
  assumes "\<And>j. i \<le> j \<Longrightarrow> j < i + n \<Longrightarrow> p j = q j"
  shows "scan p i n = scan q i n"
  using assms by (induction n arbitrary: i) auto

section \<open>Updating one entry of a table\<close>

definition upd_nth :: "nat \<Rightarrow> ('a \<Rightarrow> 'a) \<Rightarrow> 'a list \<Rightarrow> 'a list" where
  "upd_nth i f xs = xs[i := f (xs ! i)]"

lemma length_upd_nth [simp]: "length (upd_nth i f xs) = length xs"
  by (simp add: upd_nth_def)

lemma nth_upd_nth:
  "j < length xs \<Longrightarrow> upd_nth i f xs ! j = (if i = j then f (xs ! j) else xs ! j)"
  by (auto simp: upd_nth_def nth_list_update)

lemma nth_upd_nth_same [simp]: "i < length xs \<Longrightarrow> upd_nth i f xs ! i = f (xs ! i)"
  by (simp add: nth_upd_nth)

lemma nth_upd_nth_other [simp]: "i \<noteq> j \<Longrightarrow> upd_nth i f xs ! j = xs ! j"
  by (simp add: upd_nth_def)

section \<open>32-bit words\<close>

lemma unat_u32_less [simp]: "unat (w :: u32) < 4294967296"
  using unsigned_less[of w, where 'a = nat] by simp

lemma unat_u32_le [simp]: "unat (w :: u32) \<le> 4294967296"
  using unat_u32_less[of w] by linarith

lemma unat_le_length [simp]: "unat (w :: 'a::len word) \<le> 2 ^ LENGTH('a)"
  by (rule less_imp_le) (rule unsigned_less)

lemma unat_minus_1 [simp]: "unat (- 1 :: 'a::len word) = 2 ^ LENGTH('a) - 1"
  by (simp add: unsigned_minus_1_eq_mask mask_eq_exp_minus_1)

lemma unat_minus_1_u32 [simp]: "unat (- 1 :: u32) = 4294967295"
  by (simp add: unsigned_minus_1_eq_mask mask_eq_exp_minus_1)

text \<open>The signed value of a 32-bit word through its unsigned one.\<close>

lemma sint_unat32: "sint (i :: i32) = (if unat i < 2147483648 then int (unat i) else int (unat i) - 4294967296)"
proof -
  define n where "n = int (unat i)"
  have n: "0 \<le> n" "n < 4294967296"
    using unat_u32_less[of i] unfolding n_def by linarith+
  have s: "sint i = (n + 2147483648) mod 4294967296 - 2147483648"
    by (simp add: sint_uint signed_take_bit_eq_take_bit_shift take_bit_eq_mod n_def)
  have "sint i = (if n < 2147483648 then n else n - 4294967296)"
  proof (cases "n < 2147483648")
    case False
    have "(n + 2147483648) mod 4294967296 = (n - 2147483648 + 4294967296) mod 4294967296"
      by (simp add: add.commute)
    also have "\<dots> = (n - 2147483648) mod 4294967296" by (rule mod_add_self2)
    also have "\<dots> = n - 2147483648" using False n by (intro mod_pos_pos_trivial) simp_all
    finally show ?thesis using False by (simp add: s)
  qed (use n in \<open>simp add: s\<close>)
  moreover have "n < 2147483648 \<longleftrightarrow> unat i < 2147483648" unfolding n_def by linarith
  ultimately show ?thesis unfolding n_def by simp
qed

lemma sint_nonneg32: "0 \<le> sint (i :: i32) \<longleftrightarrow> unat i < 2147483648"
proof -
  have "int (unat i) < 4294967296" using unat_u32_less[of i] by linarith
  then show ?thesis unfolding sint_unat32 by simp
qed

lemmas unat_u32_arith = unat_sub_if' unat_plus_if' word_less_nat_alt word_le_nat_alt

end
