(* ===== verification/Kernel_Lib.thy ===== *)
theory Kernel_Lib
  imports Prelude
begin

text \<open>
  The memory routines of the WeensyOS kernels (\<^verbatim>\<open>OS/WeensyOS/MemOS/lib.c\<close> and its
  MiniprocOS twin) over a flat byte memory. The address width
  \<^typ>\<open>'a\<close> is a parameter (both kernels have 32 bits); pointer arithmetic wraps around,
  as it does on the machine; a loop that scans for a NUL byte may not return on a memory
  without one, so it is a partial function.
\<close>

section \<open>memcpy, memmove, memset\<close>

fun memcpy_loop :: "'a::len mem \<Rightarrow> 'a word \<Rightarrow> 'a word \<Rightarrow> nat \<Rightarrow> 'a mem" where
  "memcpy_loop m d s 0 = m"
| "memcpy_loop m d s (Suc n) = memcpy_loop (m(d := m s)) (d + 1) (s + 1) n"

definition memcpy :: "'a::len mem \<Rightarrow> 'a word \<Rightarrow> 'a word \<Rightarrow> 'a word \<Rightarrow> 'a mem" where
  "memcpy m dst src n = memcpy_loop m dst src (unat n)"

fun memmove_down :: "'a::len mem \<Rightarrow> 'a word \<Rightarrow> 'a word \<Rightarrow> nat \<Rightarrow> 'a mem" where
  "memmove_down m d s 0 = m"
| "memmove_down m d s (Suc n) =
     memmove_down (m(d - 1 := m (s - 1))) (d - 1) (s - 1) n"

definition memmove :: "'a::len mem \<Rightarrow> 'a word \<Rightarrow> 'a word \<Rightarrow> 'a word \<Rightarrow> 'a mem" where
  "memmove m dst src n =
     (if src < dst \<and> dst < src + n
      then memmove_down m (dst + n) (src + n) (unat n)
      else memcpy_loop m dst src (unat n))"

fun memset_loop :: "'a::len mem \<Rightarrow> 'a word \<Rightarrow> u8 \<Rightarrow> nat \<Rightarrow> 'a mem" where
  "memset_loop m p c 0 = m"
| "memset_loop m p c (Suc n) = memset_loop (m(p := c)) (p + 1) c n"

definition memset :: "'a::len mem \<Rightarrow> 'a word \<Rightarrow> i32 \<Rightarrow> 'a word \<Rightarrow> 'a mem" where
  "memset m v c n = memset_loop m v (ucast c) (unat n)"

text \<open>
  What the copies do, byte by byte. The position of an address inside a range that starts
  at \<open>d\<close> is \<^term>\<open>unat (a - d)\<close>, which is right for ranges that wrap around too. The
  forward copy is right unless the destination starts strictly inside the source range.
\<close>

lemma unat_diff_one:
  "(a :: 'a::len word) \<noteq> d \<Longrightarrow> unat (a - (d + 1)) = unat (a - d) - 1"
proof -
  assume "a \<noteq> d"
  then have "a - d \<noteq> 0" by simp
  then have "unat ((a - d) - 1) = unat (a - d) - 1"
    by (rule unat_minus_one)
  then show ?thesis by (simp add: algebra_simps)
qed

lemma memcpy_loop_eq:
  fixes m :: "'a::len mem"
  assumes "n \<le> 2 ^ LENGTH('a)" "n \<le> unat (d - s) \<or> d = s"
  shows "memcpy_loop m d s n a = (if unat (a - d) < n then m (s + (a - d)) else m a)"
  using assms
proof (induction m d s n rule: memcpy_loop.induct)
  case (2 m d s n)
  have IH: "memcpy_loop (m(d := m s)) (d + 1) (s + 1) n a
      = (if unat (a - (d + 1)) < n then (m(d := m s)) (s + 1 + (a - (d + 1)))
         else (m(d := m s)) a)"
    by (rule "2.IH") (use "2.prems" in auto)
  show ?case
  proof (cases "a = d")
    case True
    have "unat (a - (d + 1)) = 2 ^ LENGTH('a) - 1"
      using True by simp
    with True IH "2.prems" show ?thesis by auto
  next
    case False
    then have pos: "unat (a - d) \<noteq> 0" by (simp add: unat_eq_zero)
    have "s + (a - d) \<noteq> d \<or> n < unat (a - d)"
    proof (rule ccontr)
      assume "\<not> ?thesis"
      then have "a - d = d - s" "unat (a - d) \<le> n" by (auto simp: algebra_simps)
      with 2(3) pos show False by auto
    qed
    moreover have "s + 1 + (a - (d + 1)) = s + (a - d)" by simp
    ultimately show ?thesis
      using False pos IH by (auto simp: unat_diff_one)
  qed
qed simp

lemma memmove_down_eq:
  fixes m :: "'a::len mem"
  assumes "n \<le> 2 ^ LENGTH('a)" "n \<le> unat (s - d) \<or> d = s"
  shows "memmove_down m d s n a = (if unat (d - 1 - a) < n then m (s + (a - d)) else m a)"
  using assms
proof (induction m d s n rule: memmove_down.induct)
  case (2 m d s n)
  have IH: "memmove_down (m(d - 1 := m (s - 1))) (d - 1) (s - 1) n a
      = (if unat (d - 1 - 1 - a) < n then (m(d - 1 := m (s - 1))) (s - 1 + (a - (d - 1)))
         else (m(d - 1 := m (s - 1))) a)"
    by (rule "2.IH") (use "2.prems" in auto)
  show ?case
  proof (cases "a = d - 1")
    case True
    have "unat (d - 1 - 1 - a) = 2 ^ LENGTH('a) - 1"
      using True by simp
    with True IH "2.prems" show ?thesis by auto
  next
    case False
    then have pos: "unat (d - 1 - a) \<noteq> 0"
      by (metis diff_add_cancel diff_zero unat_eq_zero right_minus_eq)
    then have step: "unat (d - 1 - 1 - a) = unat (d - 1 - a) - 1"
      using unat_minus_one[of "d - 1 - a"] by (simp add: algebra_simps unat_eq_zero)
    have "s + (a - d) \<noteq> d - 1 \<or> n < unat (d - 1 - a)"
    proof (rule ccontr)
      assume "\<not> ?thesis"
      then have "s + (a - d) = d - 1" and le: "unat (d - 1 - a) \<le> n" by auto
      then have "s - d = d - 1 - a" by (simp add: algebra_simps)
      with le 2(3) pos show False by auto
    qed
    moreover have "s - 1 + (a - (d - 1)) = s + (a - d)" by simp
    ultimately show ?thesis
      using False pos step IH by auto
  qed
qed simp

lemma memset_loop_eq:
  fixes m :: "'a::len mem"
  assumes "n \<le> 2 ^ LENGTH('a)"
  shows "memset_loop m p c n a = (if unat (a - p) < n then c else m a)"
  using assms
proof (induction m p c n rule: memset_loop.induct)
  case (2 m p c n)
  have IH: "memset_loop (m(p := c)) (p + 1) c n a
      = (if unat (a - (p + 1)) < n then c else (m(p := c)) a)"
    by (rule "2.IH") (use "2.prems" in simp)
  show ?case
  proof (cases "a = p")
    case True
    with IH show ?thesis by simp
  next
    case False
    then have "unat (a - p) \<noteq> 0" by (simp add: unat_eq_zero)
    with False IH show ?thesis by (auto simp: unat_diff_one)
  qed
qed simp

text \<open>
  A byte range \<open>[p, p + n)\<close> that does not wrap past the end of memory, and the facts
  about positions in it.
\<close>

definition in_range :: "'a::len word \<Rightarrow> nat \<Rightarrow> 'a word \<Rightarrow> bool" where
  "in_range p n a \<longleftrightarrow> unat (a - p) < n"

definition no_wrap :: "'a::len word \<Rightarrow> nat \<Rightarrow> bool" where
  "no_wrap p n \<longleftrightarrow> unat p + n < 2 ^ LENGTH('a)"

lemma unat_diff_le: "(s :: 'a::len word) \<le> d \<Longrightarrow> unat (d - s) = unat d - unat s"
  by (simp add: unat_sub)

lemma unat_diff_less: "(d :: 'a::len word) < s \<Longrightarrow> unat (d - s) = 2 ^ LENGTH('a) - (unat s - unat d)"
  by (auto simp: unat_sub_if' word_less_nat_alt)

lemma unat_add_no_wrap: "no_wrap p (unat n) \<Longrightarrow> unat (p + n) = unat p + unat n"
  by (simp add: no_wrap_def unat_word_ariths)

text \<open>The two branches of \<open>memmove\<close> each meet the condition of the copy they choose.\<close>

lemma memmove_spec:
  fixes m :: "'a::len mem"
  assumes "no_wrap src (unat n)" "no_wrap dst (unat n)"
  shows "memmove m dst src n a
      = (if in_range dst (unat n) a then m (src + (a - dst)) else m a)"
proof (cases "src < dst \<and> dst < src + n")
  case True
  then have lt: "unat src < unat dst" "unat dst < unat src + unat n"
    using unat_add_no_wrap[OF assms(1)] by (simp_all add: word_less_nat_alt)
  have "unat (src - dst) = 2 ^ LENGTH('a) - (unat dst - unat src)"
    using True by (simp add: unat_diff_less)
  then have hz: "unat n \<le> unat ((src + n) - (dst + n))"
    using assms lt by (auto simp: no_wrap_def)
  have "unat n \<le> 2 ^ LENGTH('a)" by simp
  then have eq: "memmove m dst src n a
      = (if unat (dst + n - 1 - a) < unat n then m (src + n + (a - (dst + n))) else m a)"
    using True hz by (simp add: memmove_def memmove_down_eq)
  have "unat (dst + n - 1 - a) < unat n \<longleftrightarrow> unat (a - dst) < unat n"
  proof -
    have swap: "dst + n - 1 - a = n - 1 - (a - dst)" by simp
    have "n \<noteq> 0" using True by auto
    then show ?thesis unfolding swap by unat_arith
  qed
  moreover have "src + n + (a - (dst + n)) = src + (a - dst)" by simp
  ultimately show ?thesis using eq by (simp add: in_range_def)
next
  case False
  have "unat n \<le> unat (dst - src) \<or> dst = src"
  proof (cases "src < dst")
    case True
    with False have "src + n \<le> dst" by auto
    then have "unat src + unat n \<le> unat dst"
      using unat_add_no_wrap[OF assms(1)] by (simp add: word_le_nat_alt)
    then have "unat n \<le> unat (dst - src)"
      using True unat_diff_le[of src dst] by simp
    then show ?thesis ..
  next
    case False
    then consider "dst = src" | "dst < src" by fastforce
    then show ?thesis
    proof cases
      case 2
      then have "unat dst < unat src" by (simp add: word_less_nat_alt)
      then show ?thesis
        using assms 2 by (auto simp: unat_diff_less no_wrap_def)
    qed simp
  qed
  moreover have "unat n \<le> 2 ^ LENGTH('a)" by simp
  ultimately show ?thesis
    using False by (auto simp: memmove_def in_range_def memcpy_loop_eq)
qed

section \<open>Strings\<close>

partial_function (option) strlen_loop :: "'a::len mem \<Rightarrow> 'a word \<Rightarrow> 'a word \<Rightarrow> 'a word option" where
  "strlen_loop m s n = (if m s \<noteq> 0 then strlen_loop m (s + 1) (n + 1) else Some n)"

definition strlen :: "'a::len mem \<Rightarrow> 'a word \<Rightarrow> 'a word option" where
  "strlen m s = strlen_loop m s 0"

text \<open>\<open>strnlen\<close> stops at \<open>maxlen\<close>; the counter reaches it because it counts up from 0.\<close>

function strnlen_loop :: "'a::len mem \<Rightarrow> 'a word \<Rightarrow> 'a word \<Rightarrow> 'a word \<Rightarrow> 'a word" where
  "strnlen_loop m s maxlen n =
     (if n \<noteq> maxlen \<and> m s \<noteq> 0 then strnlen_loop m (s + 1) maxlen (n + 1) else n)"
  by pat_completeness auto
termination
proof (relation "measure (\<lambda>(m, s, maxlen, n). unat (maxlen - n))", goal_cases)
  case (2 m s maxlen n)
  then have "maxlen - n \<noteq> 0" by auto
  then show ?case
    using unat_minus_one[of "maxlen - n"] by (simp add: diff_diff_eq unat_gt_0)
qed simp

declare strnlen_loop.simps [simp del]

definition strnlen :: "'a::len mem \<Rightarrow> 'a word \<Rightarrow> 'a word \<Rightarrow> 'a word" where
  "strnlen m s maxlen = strnlen_loop m s maxlen 0"

text \<open>\<^verbatim>\<open>do { *d++ = *src++; } while (d[-1]);\<close>\<close>

partial_function (option) strcpy_loop :: "'a::len mem \<Rightarrow> 'a word \<Rightarrow> 'a word \<Rightarrow> 'a mem option" where
  "strcpy_loop m d s =
     (let m' = m(d := m s) in
      if m' d \<noteq> 0 then strcpy_loop m' (d + 1) (s + 1) else Some m')"

definition strcpy :: "'a::len mem \<Rightarrow> 'a word \<Rightarrow> 'a word \<Rightarrow> 'a mem option" where
  "strcpy m dst src = strcpy_loop m dst src"

partial_function (option) strcmp :: "'a::len mem \<Rightarrow> 'a word \<Rightarrow> 'a word \<Rightarrow> int option" where
  "strcmp m a b =
     (if m a \<noteq> 0 \<and> m b \<noteq> 0 \<and> m a = m b then strcmp m (a + 1) (b + 1)
      else Some (of_bool (m a > m b) - of_bool (m a < m b)))"

text \<open>The result is a pointer or NULL, hence the inner option.\<close>

partial_function (option) strchr :: "'a::len mem \<Rightarrow> 'a word \<Rightarrow> i32 \<Rightarrow> 'a word option option" where
  "strchr m s c =
     (if m s \<noteq> 0 \<and> m s \<noteq> ucast c then strchr m (s + 1) c
      else Some (if m s = ucast c then Some s else None))"

text \<open>A C string in memory: its bytes, none of them NUL, and the terminator.\<close>

fun c_string :: "'a::len mem \<Rightarrow> 'a word \<Rightarrow> u8 list \<Rightarrow> bool" where
  "c_string m s [] \<longleftrightarrow> m s = 0"
| "c_string m s (x # xs) \<longleftrightarrow> x \<noteq> 0 \<and> m s = x \<and> c_string m (s + 1) xs"

lemma strlen_loop_c_string:
  "c_string m s xs \<Longrightarrow> strlen_loop m s n = Some (n + of_nat (length xs))"
proof (induction xs arbitrary: s n)
  case (Cons x xs)
  then show ?case by (subst strlen_loop.simps) (auto simp: algebra_simps)
qed (simp add: strlen_loop.simps)

lemma strlen_c_string: "c_string m s xs \<Longrightarrow> strlen m s = Some (of_nat (length xs))"
  by (simp add: strlen_def strlen_loop_c_string)

lemma strnlen_loop_c_string:
  "c_string m s xs \<Longrightarrow>
     strnlen_loop m s k n = n + of_nat (min (unat (k - n)) (length xs))"
proof (induction xs arbitrary: s n)
  case Nil
  then show ?case by (simp add: strnlen_loop.simps[of m s k n])
next
  case (Cons x xs)
  show ?case
  proof (cases "n = k")
    case True
    then show ?thesis by (simp add: strnlen_loop.simps[of m s k k])
  next
    case False
    then have "k - n \<noteq> 0" by simp
    then have "unat (k - (n + 1)) = unat (k - n) - 1" "0 < unat (k - n)"
      using unat_minus_one[of "k - n"] by (simp_all add: diff_diff_eq unat_gt_0)
    then have "Suc (min (unat (k - (n + 1))) (length xs)) = min (unat (k - n)) (length (x # xs))"
      by auto
    moreover have "strnlen_loop m s k n = n + of_nat (Suc (min (unat (k - (n + 1))) (length xs)))"
      using Cons False by (simp add: strnlen_loop.simps[of m s k n] algebra_simps)
    ultimately show ?thesis by simp
  qed
qed

lemma strnlen_c_string:
  "c_string m s xs \<Longrightarrow> strnlen m s k = of_nat (min (unat k) (length xs))"
  by (simp add: strnlen_def strnlen_loop_c_string)

text \<open>\<open>strcmp\<close> is the sign of the lexicographic order on unsigned bytes.\<close>

fun byte_order :: "u8 list \<Rightarrow> u8 list \<Rightarrow> int" where
  "byte_order [] [] = 0"
| "byte_order [] (y # ys) = - 1"
| "byte_order (x # xs) [] = 1"
| "byte_order (x # xs) (y # ys) =
     (if x < y then - 1 else if y < x then 1 else byte_order xs ys)"

lemma strcmp_c_string:
  "c_string m a xs \<Longrightarrow> c_string m b ys \<Longrightarrow> strcmp m a b = Some (byte_order xs ys)"
proof (induction xs ys arbitrary: a b rule: byte_order.induct)
  case (4 x xs y ys)
  then show ?case
    by (cases x y rule: linorder_cases) (auto simp: strcmp.simps[of m a b])
qed (auto simp: strcmp.simps[of m a b for a b] word_gt_0)

lemma byte_order_0_iff: "byte_order xs ys = 0 \<longleftrightarrow> xs = ys"
  by (induction xs ys rule: byte_order.induct) auto

lemma byte_order_lexordp: "byte_order xs ys < 0 \<longleftrightarrow> ord_class.lexordp xs ys"
  by (induction xs ys rule: byte_order.induct) (auto simp: not_less_iff_gr_or_eq)

lemma strchr_c_string:
  assumes "c_string m s xs" "ucast c \<noteq> (0 :: u8)"
  shows "strchr m s c = Some (map_option (\<lambda>i. s + of_nat i)
           (scan (\<lambda>i. xs ! i = ucast c) 0 (length xs)))"
proof -
  have "strchr m (s + of_nat k) c = Some (map_option (\<lambda>i. s + of_nat i)
           (scan (\<lambda>i. xs ! i = ucast c) k n))"
    if "c_string m (s + of_nat k) (drop k xs)" "k + n = length xs" for k n
    using that
  proof (induction n arbitrary: k)
    case 0
    then show ?case using assms(2) by (simp add: strchr.simps)
  next
    case (Suc n)
    then have "drop k xs = xs ! k # drop (Suc k) xs"
      by (simp add: Cons_nth_drop_Suc)
    with Suc.prems have at: "m (s + of_nat k) = xs ! k" "xs ! k \<noteq> 0"
      and rest: "c_string m (s + of_nat (Suc k)) (drop (Suc k) xs)"
      by (simp_all add: algebra_simps)
    have "strchr m (s + of_nat (Suc k)) c = Some (map_option (\<lambda>i. s + of_nat i)
           (scan (\<lambda>i. xs ! i = ucast c) (Suc k) n))"
      using Suc.IH[of "Suc k"] rest Suc.prems(2) by simp
    with at show ?case
      by (subst strchr.simps) (simp add: algebra_simps)
  qed
  from this[of 0 "length xs"] assms(1) show ?thesis by simp
qed

text \<open>
  \<open>strcpy\<close> copies the bytes and the terminator, as a \<open>memcpy\<close> of one more than the
  length does, unless the destination starts inside the source string.
\<close>

lemma c_string_cong:
  "(\<And>i. i \<le> length xs \<Longrightarrow> m (s + of_nat i) = m' (s + of_nat i)) \<Longrightarrow>
     c_string m s xs = c_string m' s xs"
proof (induction xs arbitrary: s)
  case Nil
  then show ?case by fastforce
next
  case (Cons x xs)
  have "m s = m' s" using Cons.prems[of 0] by simp
  moreover have "c_string m (s + 1) xs = c_string m' (s + 1) xs"
  proof (rule Cons.IH)
    fix i assume "i \<le> length xs"
    then show "m (s + 1 + of_nat i) = m' (s + 1 + of_nat i)"
      using Cons.prems[of "Suc i"] by (simp add: algebra_simps)
  qed
  ultimately show ?case by simp
qed

lemma strcpy_loop_c_string:
  fixes m :: "'a::len mem"
  assumes "c_string m s xs" "length xs < unat (d - s)"
  shows "strcpy_loop m d s = Some (memcpy_loop m d s (Suc (length xs)))"
  using assms
proof (induction xs arbitrary: m d s)
  case Nil
  then show ?case by (simp add: strcpy_loop.simps[of m d s] fun_upd_def)
next
  case (Cons x xs)
  let ?m = "m(d := m s)"
  have "c_string ?m (s + 1) xs = c_string m (s + 1) xs"
  proof (rule c_string_cong)
    fix i assume i: "i \<le> length xs"
    have "s + 1 + of_nat i \<noteq> d"
    proof
      assume "s + 1 + of_nat i = d"
      then have "d - s = of_nat (Suc i)" by (simp add: algebra_simps)
      then have "unat (d - s) = unat (of_nat (Suc i) :: 'a word)" by (rule arg_cong)
      also have "\<dots> \<le> Suc i" by (simp only: unat_of_nat) (rule mod_less_eq_dividend)
      finally show False using Cons.prems(2) i by simp
    qed
    then show "?m (s + 1 + of_nat i) = m (s + 1 + of_nat i)" by simp
  qed
  then have "c_string ?m (s + 1) xs" using Cons.prems(1) by simp
  moreover have "length xs < unat ((d + 1) - (s + 1))" using Cons.prems(2) by simp
  ultimately have "strcpy_loop ?m (d + 1) (s + 1)
      = Some (memcpy_loop ?m (d + 1) (s + 1) (Suc (length xs)))"
    by (rule Cons.IH)
  moreover have "m s \<noteq> 0" using Cons.prems(1) by auto
  ultimately show ?case
    by (subst strcpy_loop.simps, subst memcpy_loop.simps(2)) (simp del: memcpy_loop.simps)
qed

section \<open>rand, srand\<close>

record rand_state =
  rand_seed_set :: bool
  rand_seed :: u32

definition RAND_MAX :: u32 where
  "RAND_MAX = 0x7FFFFFFF"

definition srand :: "u32 \<Rightarrow> rand_state \<Rightarrow> rand_state" where
  "srand seed r = r\<lparr>rand_seed := seed, rand_seed_set := True\<rparr>"

definition rand :: "rand_state \<Rightarrow> i32 \<times> rand_state" where
  "rand r =
     (let r1 = (if \<not> rand_seed_set r then srand 819234718 r else r);
          r2 = r1\<lparr>rand_seed := rand_seed r1 * 1664525 + 1013904223\<rparr>
      in (rand_seed r2 AND RAND_MAX, r2))"

lemma rand_nonneg: "0 \<le> sint (fst (rand r))"
proof -
  have "\<not> bit (x AND RAND_MAX) 31" for x :: u32
    by (simp add: RAND_MAX_def bit_and_iff)
  then show ?thesis
    by (simp add: rand_def Let_def bit_last_iff[symmetric] not_less[symmetric])
qed

section \<open>Properties\<close>

lemma in_range_no_wrap:
  "no_wrap p n \<Longrightarrow> i < n \<Longrightarrow> in_range p n (p + of_nat i)"
  for p :: "'a::len word"
proof -
  assume "no_wrap p n" "i < n"
  then have "i < 2 ^ LENGTH('a)" by (simp add: no_wrap_def)
  then have "unat (of_nat i :: 'a word) = i" by (simp add: unat_of_nat)
  then show ?thesis using \<open>i < n\<close> by (simp add: in_range_def)
qed

text \<open>
  C17: \<open>memmove\<close> is right for overlapping ranges: when neither range runs past the end of
  memory, byte \<open>i\<close> of the destination is byte \<open>i\<close> of the source as it was before the call,
  and no byte outside the destination changes.
\<close>

theorem memmove_overlap:
  fixes m :: "'a::len mem"
  assumes "no_wrap src (unat n)" "no_wrap dst (unat n)"
  shows "(\<forall>i < unat n. memmove m dst src n (dst + of_nat i) = m (src + of_nat i))
    \<and> (\<forall>a. \<not> in_range dst (unat n) a \<longrightarrow> memmove m dst src n a = m a)"
  using assms by (simp add: memmove_spec in_range_no_wrap)

theorem memmove_overlap_witness:
  "memmove (\<lambda>a :: u32. ucast a) 102 100 4 (102 + 3) = 103"
proof -
  have "\<forall>i < unat (4 :: u32). memmove (\<lambda>a :: u32. ucast a) 102 100 4 (102 + of_nat i)
      = ucast (100 + of_nat i :: u32)"
    using memmove_overlap[of "100 :: u32" 4 102 "\<lambda>a. ucast a"] by (simp add: no_wrap_def)
  from this[rule_format, of 3] show ?thesis by simp
qed

text \<open>
  \<open>strcmp\<close> on two C strings returns, and its result is the sign of the lexicographic
  order on unsigned bytes: 0 exactly on equal strings, negative exactly when the first
  string comes first.
\<close>

lemma strcmp_order:
  assumes "c_string m a xs" "c_string m b ys"
  shows "\<exists>r. strcmp m a b = Some r \<and> (r = 0 \<longleftrightarrow> xs = ys)
    \<and> (r < 0 \<longleftrightarrow> ord_class.lexordp xs ys) \<and> - 1 \<le> r \<and> r \<le> 1"
proof -
  have "- 1 \<le> byte_order xs ys \<and> byte_order xs ys \<le> 1"
    by (induction xs ys rule: byte_order.induct) auto
  then show ?thesis
    using strcmp_c_string[OF assms] byte_order_0_iff byte_order_lexordp by blast
qed

lemma strcmp_order_witness:
  "\<exists>r < 0. strcmp (\<lambda>a :: u32. if a = 16 then 97 else if a = 32 then 200 else 0) 16 32 = Some r"
  using strcmp_order[of "\<lambda>a :: u32. if a = 16 then 97 else if a = 32 then 200 else 0" 16 "[97]" 32 "[200]"]
  by auto

text \<open>
  \<open>strcpy\<close> of a C string returns, leaves a copy of the string at the destination, and
  changes no byte outside the copy, unless the destination starts inside the source
  string or its terminator.
\<close>

lemma strcpy_copies:
  fixes m :: "'a::len mem"
  assumes str: "c_string m s xs" and apart: "length xs < unat (d - s)"
    and fits: "length xs < 2 ^ LENGTH('a)"
  shows "\<exists>m'. strcpy m d s = Some m' \<and> c_string m' d xs
    \<and> (\<forall>a. length xs < unat (a - d) \<longrightarrow> m' a = m a)"
proof -
  let ?m' = "memcpy_loop m d s (Suc (length xs))"
  have eq: "?m' a = (if unat (a - d) < Suc (length xs) then m (s + (a - d)) else m a)" for a
    using apart fits by (intro memcpy_loop_eq) auto
  have at: "?m' (d + of_nat i) = m (s + of_nat i)" if "i \<le> length xs" for i
    using that fits by (simp add: eq unat_of_nat del: memcpy_loop.simps)
  have "c_string ?m' d ys = c_string m s ys" if "length ys \<le> length xs" for ys
  proof -
    have "c_string (\<lambda>a. ?m' (d + (a - s))) s ys = c_string m s ys"
      by (rule c_string_cong) (use at that in simp)
    moreover have "c_string (\<lambda>a. g (d + (a - s))) (s + e) zs = c_string g (d + e) zs"
      for g :: "'a mem" and e zs
      by (induction zs arbitrary: e) (simp_all add: add.assoc)
    from this[of ?m' 0 ys] have "c_string (\<lambda>a. ?m' (d + (a - s))) s ys = c_string ?m' d ys" by simp
    ultimately show ?thesis by simp
  qed
  then have "c_string ?m' d xs" using str by simp
  then show ?thesis
    using strcpy_loop_c_string[OF str apart] eq by (auto simp: strcpy_def)
qed

lemma strcpy_copies_witness:
  "\<exists>m'. strcpy (\<lambda>a :: u32. if a = 16 then 97 else 0) 20 16 = Some m' \<and> m' 20 = 97 \<and> m' 21 = 0"
  using strcpy_copies[of "\<lambda>a :: u32. if a = 16 then 97 else 0" 16 "[97]" 20] by fastforce

end
