(* ===== verification/Scheduling.thy ===== *)
theory Scheduling
  imports Prelude
begin

text \<open>
  The two interfaces both WeensyOS kernels rest on. A \<^emph>\<open>round-robin scheduler\<close> walks the
  process table cyclically from the slot after the current one and stops at the first
  runnable slot; with no runnable slot it spins. A \<^emph>\<open>slot search\<close> takes the first free
  slot from 1 on. The kernels provide the operations, the laws are what their clients
  use, and the consequences are proved here once.
\<close>

section \<open>Round-robin scheduling\<close>

locale round_robin =
  fixes runnable :: "'s \<Rightarrow> nat \<Rightarrow> bool"
    and slots :: nat
    and pick :: "'s \<Rightarrow> nat \<Rightarrow> nat option"
  assumes slots_pos: "0 < slots"
    and pick_step: "pick s p =
      (let q = (p + 1) mod slots in if runnable s q then Some q else pick s q)"
    and pick_sound: "pick s p = Some q \<Longrightarrow> runnable s q \<and> q < slots"
begin

text \<open>Skipping \<open>k\<close> slots that are not runnable.\<close>

lemma pick_skip:
  "(\<And>j. 0 < j \<Longrightarrow> j \<le> k \<Longrightarrow> \<not> runnable s ((p + j) mod slots)) \<Longrightarrow>
     pick s p = pick s ((p + k) mod slots) \<or> k = 0"
proof (induction k)
  case (Suc k)
  let ?q = "(p + k) mod slots"
  have next_slot: "(?q + 1) mod slots = (p + Suc k) mod slots"
    by (simp add: mod_Suc_eq)
  have "\<not> runnable s ((p + Suc k) mod slots)" using Suc.prems[of "Suc k"] by simp
  then have "pick s ?q = pick s ((p + Suc k) mod slots)"
    using pick_step[of s ?q] next_slot by (simp add: Let_def)
  moreover have "pick s p = pick s ?q" if "k \<noteq> 0"
    using Suc.IH Suc.prems that by simp
  moreover have "pick s p = pick s ((p + Suc k) mod slots)" if "k = 0"
    using pick_step[of s p] Suc.prems[of 1] that by (simp add: Let_def)
  ultimately show ?case by (cases "k = 0") auto
qed simp

text \<open>The first runnable slot in cyclic order is the one picked.\<close>

lemma pick_first:
  assumes "0 < d" "runnable s ((p + d) mod slots)"
    and "\<And>j. 0 < j \<Longrightarrow> j < d \<Longrightarrow> \<not> runnable s ((p + j) mod slots)"
  shows "pick s p = Some ((p + d) mod slots)"
proof -
  have skip: "pick s p = pick s ((p + (d - 1)) mod slots) \<or> d - 1 = 0"
    using assms(3) by (intro pick_skip) auto
  have "((p + (d - 1)) mod slots + 1) mod slots = (p + d) mod slots"
    using assms(1) by (simp add: mod_Suc_eq)
  then have "pick s ((p + (d - 1)) mod slots) = Some ((p + d) mod slots)"
    using pick_step[of s "(p + (d - 1)) mod slots"] assms(2) by (simp add: Let_def)
  moreover have "pick s p = Some ((p + d) mod slots)" if "d = 1"
    using pick_step[of s p] assms(2) that by (simp add: Let_def)
  ultimately show ?thesis using skip assms(1) by (cases "d = 1") auto
qed

text \<open>No starvation: a runnable slot at distance \<open>d\<close> bounds the distance of the choice.\<close>

lemma first_runnable:
  assumes "0 < d" "runnable s ((p + d) mod slots)"
  shows "\<exists>e. 0 < e \<and> e \<le> d \<and> runnable s ((p + e) mod slots)
    \<and> (\<forall>j. 0 < j \<and> j < e \<longrightarrow> \<not> runnable s ((p + j) mod slots))"
proof -
  define f where "f = (LEAST d. 0 < d \<and> runnable s ((p + d) mod slots))"
  have ex: "\<exists>d. 0 < d \<and> runnable s ((p + d) mod slots)" using assms by blast
  have "0 < f" "runnable s ((p + f) mod slots)" "f \<le> d"
    using LeastI_ex[OF ex] assms by (auto simp: f_def intro: Least_le)
  moreover have "\<not> runnable s ((p + j) mod slots)" if "0 < j" "j < f" for j
    using not_less_Least[of j] that by (auto simp: f_def)
  ultimately show ?thesis by blast
qed

lemma pick_Some_iff: "(\<exists>q. pick s p = Some q) \<longleftrightarrow> (\<exists>q < slots. runnable s q)"
proof
  assume "\<exists>q < slots. runnable s q"
  then obtain q where q: "q < slots" "runnable s q" by blast
  define e where "e = (q + slots - p mod slots) mod slots"
  define d where "d = (if e = 0 then slots else e)"
  have "d mod slots = (q + slots - p mod slots) mod slots"
    by (simp add: d_def e_def)
  then have "(p + d) mod slots = (p + (q + slots - p mod slots)) mod slots"
    by (rule mod_add_cong[OF refl])
  also have "\<dots> = (p mod slots + (q + slots - p mod slots)) mod slots"
    by (simp add: mod_add_left_eq)
  also have "p mod slots + (q + slots - p mod slots) = q + slots"
    using mod_less_divisor[OF slots_pos, of p] by linarith
  also have "(q + slots) mod slots = q" using q(1) by simp
  finally have "runnable s ((p + d) mod slots)" using q by simp
  moreover have "0 < d" using slots_pos by (simp add: d_def)
  ultimately have ex: "\<exists>d. 0 < d \<and> runnable s ((p + d) mod slots)" by blast
  then obtain f where "0 < f" "runnable s ((p + f) mod slots)"
    "\<forall>j. 0 < j \<and> j < f \<longrightarrow> \<not> runnable s ((p + j) mod slots)"
    using first_runnable by blast
  then show "\<exists>q. pick s p = Some q"
    using pick_first by blast
qed (use pick_sound in blast)

end

section \<open>First free slot\<close>

text \<open>
  \<open>find s\<close> is the slot a process-creating call takes. What its callers rely on: the
  slot was free and in the table, slot 0 is never given out, lower slots were taken,
  and the search fails only on a full table.
\<close>

locale slot_search =
  fixes free :: "'s \<Rightarrow> nat \<Rightarrow> bool"
    and slots :: nat
    and find :: "'s \<Rightarrow> nat option"
  assumes find_Some: "find s = Some i \<Longrightarrow>
      0 < i \<and> i < slots \<and> free s i \<and> (\<forall>j. 0 < j \<and> j < i \<longrightarrow> \<not> free s j)"
    and find_None: "find s = None \<Longrightarrow> 0 < i \<Longrightarrow> i < slots \<Longrightarrow> \<not> free s i"
begin

lemma find_total: "(\<exists>i. find s = Some i) \<longleftrightarrow> (\<exists>i. 0 < i \<and> i < slots \<and> free s i)"
  using find_Some find_None by (metis not_None_eq)

lemma find_fresh: "find s = Some i \<Longrightarrow> \<not> free s k \<Longrightarrow> k \<noteq> i"
  using find_Some by blast

end

lemma slot_search_scan:
  "slot_search free slots (\<lambda>s. scan (free s) 1 (slots - 1))"
proof
  fix s i
  assume "scan (free s) 1 (slots - 1) = Some i"
  then show "0 < i \<and> i < slots \<and> free s i \<and> (\<forall>j. 0 < j \<and> j < i \<longrightarrow> \<not> free s j)"
    by (auto simp: scan_Some_iff)
next
  fix s i
  assume "scan (free s) 1 (slots - 1) = None" "0 < i" "i < slots"
  then show "\<not> free s i" by (auto simp: scan_None_iff)
qed

end
