(* ===== verification/X86_Registers.thy ===== *)
theory X86_Registers
  imports Prelude
begin

text \<open>
  The saved register set of a process (\<^verbatim>\<open>registers_t\<close> of MiniprocOS, \<^verbatim>\<open>x86_registers\<close>
  of MemOS: the same fields in the same order), and the 32-bit little-endian accesses the
  kernels make to memory.
\<close>

section \<open>Registers\<close>

record registers =
  reg_edi :: u32
  reg_esi :: u32
  reg_ebp :: u32
  reg_original_esp :: u32
  reg_ebx :: u32
  reg_edx :: u32
  reg_ecx :: u32
  reg_eax :: u32
  reg_es :: u16
  reg_padding1 :: u16
  reg_ds :: u16
  reg_padding2 :: u16
  reg_intno :: u32
  reg_err :: u32
  reg_eip :: u32
  reg_cs :: u16
  reg_padding3 :: u16
  reg_eflags :: u32
  reg_esp :: u32
  reg_ss :: u16
  reg_padding4 :: u16

definition zero_registers :: registers where
  "zero_registers =
     \<lparr>reg_edi = 0, reg_esi = 0, reg_ebp = 0, reg_original_esp = 0, reg_ebx = 0, reg_edx = 0,
      reg_ecx = 0, reg_eax = 0, reg_es = 0, reg_padding1 = 0, reg_ds = 0, reg_padding2 = 0,
      reg_intno = 0, reg_err = 0, reg_eip = 0, reg_cs = 0, reg_padding3 = 0, reg_eflags = 0,
      reg_esp = 0, reg_ss = 0, reg_padding4 = 0\<rparr>"

section \<open>32-bit accesses\<close>

definition load32 :: "memory \<Rightarrow> u32 \<Rightarrow> u32" where
  "load32 m a = ucast (m a) OR push_bit 8 (ucast (m (a + 1)))
     OR push_bit 16 (ucast (m (a + 2))) OR push_bit 24 (ucast (m (a + 3)))"

definition store32 :: "memory \<Rightarrow> u32 \<Rightarrow> u32 \<Rightarrow> memory" where
  "store32 m a v = m(a := ucast v, a + 1 := ucast (drop_bit 8 v),
     a + 2 := ucast (drop_bit 16 v), a + 3 := ucast (drop_bit 24 v))"

lemma load32_cong:
  "m a = m' a \<Longrightarrow> m (a + 1) = m' (a + 1) \<Longrightarrow> m (a + 2) = m' (a + 2) \<Longrightarrow> m (a + 3) = m' (a + 3)
     \<Longrightarrow> load32 m a = load32 m' a"
  by (simp add: load32_def)

lemma load32_bytes:
  "ucast (ucast v :: u8) OR push_bit 8 (ucast (ucast (drop_bit 8 v) :: u8))
     OR push_bit 16 (ucast (ucast (drop_bit 16 v) :: u8))
     OR push_bit 24 (ucast (ucast (drop_bit 24 v) :: u8)) = v" (is "?l = v") for v :: u32
proof (rule bit_word_eqI)
  fix n assume "n < LENGTH(32)"
  then consider "n < 8" | "8 \<le> n" "n < 16" | "16 \<le> n" "n < 24" | "24 \<le> n" "n < 32" by fastforce
  then show "bit ?l n = bit v n"
    by cases (auto simp: bit_simps)
qed

lemma add_neq_add: "(a :: u32) + x \<noteq> a + y \<longleftrightarrow> x \<noteq> y" "a + x \<noteq> a \<longleftrightarrow> x \<noteq> 0" "a \<noteq> a + x \<longleftrightarrow> x \<noteq> 0"
  by auto

lemma load32_store32 [simp]: "load32 (store32 m a v) a = v"
  by (simp add: load32_def store32_def load32_bytes)

text \<open>Four bytes that a store does not reach keep their value.\<close>

lemma store32_other:
  "b \<noteq> a \<Longrightarrow> b \<noteq> a + 1 \<Longrightarrow> b \<noteq> a + 2 \<Longrightarrow> b \<noteq> a + 3 \<Longrightarrow> store32 m a v b = m b"
  by (simp add: store32_def)

end
