(* ===== verification/Miniproc_Kernel.thy ===== *)
theory Miniproc_Kernel
  imports Kernel_Lib Scheduling X86_Registers
begin

text \<open>
  The MiniprocOS kernel (\<^verbatim>\<open>OS/WeensyOS/MiniprocOS\<close>): the process table, the system-call
  handler \<open>interrupt\<close> of \<^verbatim>\<open>kernel.c\<close>, the scheduler, and the boot-time set-up of the
  table. Pointers into \<^verbatim>\<open>proc_array\<close> are indexes. A handler ends in \<open>run\<close>, which
  resumes \<open>current\<close> and never returns, or spins.

  There is no memory protection: the table lies in the memory that the kernel and the processes share,
  somewhere in the part the memory map of \<^verbatim>\<open>kernel.c\<close> gives to the kernel. The model keeps it in a
  record, which is right as long as nobody writes that part. So a write to it by the kernel (the stack
  copy of \<open>fork\<close>, whose addresses come from the stack pointer of the process) is an outcome of
  its own, after which nothing is known, and of the processes it is a condition that they leave it alone.
\<close>

section \<open>Process descriptors\<close>

datatype procstate = P_EMPTY | P_RUNNABLE | P_BLOCKED | P_ZOMBIE

record process_t =
  waitingQ :: "u32 list"
  p_pid :: nat
  p_registers :: registers
  p_state :: procstate
  p_exit_status :: i32

record kernel =
  proc_array :: "process_t list"
  current :: nat
  mem :: memory

text \<open>
  A handler resumes a process (the new \<open>current\<close>), loops without effect, or has written into the
  memory of the kernel.
\<close>

datatype outcome = Resume kernel | Spin | Overwritten

definition NPROCS :: nat where "NPROCS = 16"
definition PROC1_STACK_ADDR :: u32 where "PROC1_STACK_ADDR = 0x280000"
definition PROC_STACK_SIZE :: u32 where "PROC_STACK_SIZE = 0x040000"

abbreviation "INT_SYS_GETPID \<equiv> 48 :: u32"
abbreviation "INT_SYS_FORK \<equiv> 49 :: u32"
abbreviation "INT_SYS_YIELD \<equiv> 50 :: u32"
abbreviation "INT_SYS_EXIT \<equiv> 51 :: u32"
abbreviation "INT_SYS_WAIT \<equiv> 52 :: u32"
abbreviation "INT_SYS_THREAD \<equiv> 53 :: u32"
abbreviation "INT_SYS_KILL \<equiv> 54 :: u32"

abbreviation proc :: "kernel \<Rightarrow> nat \<Rightarrow> process_t" where
  "proc k i \<equiv> proc_array k ! i"

definition upd_proc :: "nat \<Rightarrow> (process_t \<Rightarrow> process_t) \<Rightarrow> kernel \<Rightarrow> kernel" where
  "upd_proc i f k = k\<lparr>proc_array := upd_nth i f (proc_array k)\<rparr>"

definition set_reg :: "(registers \<Rightarrow> registers) \<Rightarrow> process_t \<Rightarrow> process_t" where
  "set_reg f p = p\<lparr>p_registers := f (p_registers p)\<rparr>"

definition set_eax :: "u32 \<Rightarrow> process_t \<Rightarrow> process_t" where
  "set_eax v = set_reg (\<lambda>r. r\<lparr>reg_eax := v\<rparr>)"

text \<open>
  The memory of the kernel: code and data from \<^verbatim>\<open>0x100000\<close> up to the application, and the stack that ends
  at \<open>KERNEL_STACK_TOP\<close>, which is taken to reach down to the cursor position the processes share.
\<close>

definition KERNEL_STACK_TOP :: u32 where "KERNEL_STACK_TOP = 0x80000"

definition kernel_bytes :: "u32 \<Rightarrow> bool" where
  "kernel_bytes a \<longleftrightarrow> 0x60004 \<le> a \<and> a < KERNEL_STACK_TOP \<or> 0x100000 \<le> a \<and> a < 0x200000"

text \<open>Do two ranges of the address space, which wraps, have a byte in common?\<close>

definition ranges_meet :: "u32 \<Rightarrow> u32 \<Rightarrow> u32 \<Rightarrow> u32 \<Rightarrow> bool" where
  "ranges_meet a n b l \<longleftrightarrow> b - a < n \<and> 0 < l \<or> a - b < l \<and> 0 < n"

definition hits_kernel :: "u32 \<Rightarrow> u32 \<Rightarrow> bool" where
  "hits_kernel a n \<longleftrightarrow> ranges_meet a n 0x60004 (KERNEL_STACK_TOP - 0x60004)
     \<or> ranges_meet a n 0x100000 0x100000"

section \<open>Running and scheduling\<close>

definition run :: "nat \<Rightarrow> kernel \<Rightarrow> outcome" where
  "run i k = Resume (k\<lparr>current := i\<rparr>)"

partial_function (option) schedule_loop :: "kernel \<Rightarrow> nat \<Rightarrow> nat option" where
  "schedule_loop k pid =
     (let pid' = (pid + 1) mod NPROCS
      in if p_state (proc k pid') = P_RUNNABLE then Some pid' else schedule_loop k pid')"

definition schedule :: "kernel \<Rightarrow> outcome" where
  "schedule k = (case schedule_loop k (p_pid (proc k (current k))) of
     Some i \<Rightarrow> run i k | None \<Rightarrow> Spin)"

section \<open>Creating processes\<close>

definition find_empty :: "kernel \<Rightarrow> nat option" where
  "find_empty k = scan (\<lambda>i. p_state (proc k i) = P_EMPTY) 1 (NPROCS - 1)"

definition stack_top :: "nat \<Rightarrow> u32" where
  "stack_top pid = PROC1_STACK_ADDR + of_nat pid * PROC_STACK_SIZE"

definition copy_stack :: "nat \<Rightarrow> nat \<Rightarrow> kernel \<Rightarrow> kernel option" where
  "copy_stack dest src k =
     (let src_stack_top = stack_top (p_pid (proc k src));
          src_stack_bottom = reg_esp (p_registers (proc k src));
          dest_stack_top = stack_top (p_pid (proc k dest));
          dest_stack_bottom = dest_stack_top - (src_stack_top - src_stack_bottom);
          k1 = k\<lparr>mem := memcpy (mem k) dest_stack_bottom src_stack_bottom
                          (src_stack_top - src_stack_bottom)\<rparr>
      in if hits_kernel dest_stack_bottom (src_stack_top - src_stack_bottom) then None
         else Some (upd_proc dest (set_reg (\<lambda>r. r\<lparr>reg_esp := dest_stack_bottom\<rparr>)) k1))"

definition do_fork :: "nat \<Rightarrow> kernel \<Rightarrow> (i32 \<times> kernel) option" where
  "do_fork parent k =
     (case find_empty k of
        None \<Rightarrow> Some (- 1, k)
      | Some i \<Rightarrow>
          (let k1 = upd_proc i (\<lambda>p. p\<lparr>waitingQ := replicate NPROCS 0\<rparr>) k;
               k2 = upd_proc i (\<lambda>p. p\<lparr>p_state := P_RUNNABLE\<rparr>) k1;
               k3 = upd_proc i (\<lambda>p. p\<lparr>p_registers := p_registers (proc k2 parent)\<rparr>) k2
           in case copy_stack i parent k3 of None \<Rightarrow> None
              | Some k4 \<Rightarrow> Some (of_nat i, upd_proc i (set_eax 0) k4)))"

definition do_newthread :: "nat \<Rightarrow> u32 \<Rightarrow> kernel \<Rightarrow> i32 \<times> kernel" where
  "do_newthread parent start_function k =
     (case find_empty k of
        None \<Rightarrow> (- 1, k)
      | Some i \<Rightarrow>
          (let k1 = upd_proc i (\<lambda>p. p\<lparr>waitingQ := replicate NPROCS 0\<rparr>) k;
               k2 = upd_proc i (\<lambda>p. p\<lparr>p_state := P_RUNNABLE\<rparr>) k1;
               k3 = upd_proc i (\<lambda>p. p\<lparr>p_registers := p_registers (proc k2 parent)\<rparr>) k2;
               k4 = upd_proc i (set_reg (\<lambda>r. r\<lparr>reg_esp :=
                      PROC1_STACK_ADDR + of_nat i * PROC_STACK_SIZE\<rparr>)) k3;
               k5 = upd_proc i (set_reg (\<lambda>r. r\<lparr>reg_eip := start_function\<rparr>)) k4;
               k6 = upd_proc i (set_eax 0) k5
           in (of_nat i, k6)))"

section \<open>The system calls\<close>

text \<open>
  The loop that \<open>sys_kill\<close> and \<open>sys_exit\<close> share: every slot on the queue of the process
  \<open>q\<close> is made runnable with the exit status of \<open>e\<close>, and \<open>q\<close> is emptied.
\<close>

definition wake_one :: "nat \<Rightarrow> nat \<Rightarrow> nat \<Rightarrow> kernel \<Rightarrow> kernel" where
  "wake_one q e i k =
     (if waitingQ (proc k q) ! i = 0 then k
      else
        (let k1 = upd_proc i (\<lambda>p. p\<lparr>p_state := P_RUNNABLE\<rparr>) k;
             k2 = upd_proc i (set_eax (p_exit_status (proc k1 e))) k1
         in upd_proc q (\<lambda>p. p\<lparr>p_state := P_EMPTY\<rparr>) k2))"

definition wake_waiters :: "nat \<Rightarrow> nat \<Rightarrow> kernel \<Rightarrow> kernel" where
  "wake_waiters q e k = fold (wake_one q e) [1..<NPROCS] k"

definition sys_getpid :: "kernel \<Rightarrow> outcome" where
  "sys_getpid k =
     (let c = current k
      in run c (upd_proc c (set_eax (of_nat (p_pid (proc k c)))) k))"

definition sys_fork :: "kernel \<Rightarrow> outcome" where
  "sys_fork k =
     (let c = current k
      in case do_fork c k of None \<Rightarrow> Overwritten
         | Some (r, k1) \<Rightarrow> run c (upd_proc c (set_eax r) k1))"

definition sys_thread :: "kernel \<Rightarrow> outcome" where
  "sys_thread k =
     (let c = current k; (r, k1) = do_newthread c (reg_eax (p_registers (proc k c))) k
      in run c (upd_proc c (set_eax r) k1))"

definition sys_kill :: "kernel \<Rightarrow> outcome" where
  "sys_kill k =
     (let c = current k;
          killpid = sint (reg_eax (p_registers (proc k c)));
          target = nat killpid
      in if killpid \<le> 0 \<or> killpid \<ge> int NPROCS \<or> target = c
            \<or> p_state (proc k target) = P_EMPTY
         then run c (upd_proc c (set_eax (- 1)) k)
         else if p_state (proc k target) = P_ZOMBIE
         then run c (upd_proc c (set_eax 0) k)
         else
           (let k1 = upd_proc target (\<lambda>p. p\<lparr>p_state := P_ZOMBIE\<rparr>) k;
                k2 = upd_proc target (\<lambda>p. p\<lparr>p_exit_status := - 1\<rparr>) k1
            in run c (wake_waiters c target k2)))"

definition sys_yield :: "kernel \<Rightarrow> outcome" where
  "sys_yield k = schedule k"

definition sys_exit :: "kernel \<Rightarrow> outcome" where
  "sys_exit k =
     (let c = current k;
          k1 = upd_proc c (\<lambda>p. p\<lparr>p_state := P_ZOMBIE\<rparr>) k;
          k2 = upd_proc c (\<lambda>p. p\<lparr>p_exit_status := reg_eax (p_registers p)\<rparr>) k1
      in schedule (wake_waiters c c k2))"

definition sys_wait :: "kernel \<Rightarrow> outcome" where
  "sys_wait k =
     (let c = current k;
          p = sint (reg_eax (p_registers (proc k c)));
          i = nat p
      in schedule
        (if p \<le> 0 \<or> p \<ge> int NPROCS \<or> i = p_pid (proc k c) \<or> p_state (proc k i) = P_EMPTY
         then upd_proc c (set_eax (- 1)) k
         else if p_state (proc k i) = P_ZOMBIE
         then
           (let k1 = upd_proc i (\<lambda>q. q\<lparr>p_state := P_EMPTY\<rparr>) k
            in upd_proc c (set_eax (p_exit_status (proc k1 i))) k1)
         else
           (let k1 = upd_proc i (\<lambda>q. q\<lparr>waitingQ := (waitingQ q)[p_pid (proc k c) := 1]\<rparr>) k
            in upd_proc c (\<lambda>q. q\<lparr>p_state := P_BLOCKED\<rparr>) k1)))"

definition interrupt :: "registers \<Rightarrow> kernel \<Rightarrow> outcome" where
  "interrupt reg k0 =
     (let k = upd_proc (current k0) (\<lambda>p. p\<lparr>p_registers := reg\<rparr>) k0
      in if reg_intno reg = INT_SYS_GETPID then sys_getpid k
         else if reg_intno reg = INT_SYS_FORK then sys_fork k
         else if reg_intno reg = INT_SYS_KILL then sys_kill k
         else if reg_intno reg = INT_SYS_THREAD then sys_thread k
         else if reg_intno reg = INT_SYS_YIELD then sys_yield k
         else if reg_intno reg = INT_SYS_EXIT then sys_exit k
         else if reg_intno reg = INT_SYS_WAIT then sys_wait k
         else Spin)"

section \<open>Boot\<close>

text \<open>
  The part of \<open>start\<close> and \<open>special_registers_init\<close> that builds the process table. The
  memory and the entry point are what \<open>program_loader\<close> leaves.
\<close>

definition empty_process :: "nat \<Rightarrow> process_t" where
  "empty_process i = \<lparr>waitingQ = replicate NPROCS 0, p_pid = i,
     p_registers = zero_registers, p_state = P_EMPTY, p_exit_status = 0\<rparr>"

definition special_registers_init :: "process_t \<Rightarrow> process_t" where
  "special_registers_init p = p\<lparr>p_registers :=
     zero_registers\<lparr>reg_cs := 0x18 OR 3, reg_ds := 0x20 OR 3,
                    reg_es := 0x20 OR 3, reg_ss := 0x20 OR 3\<rparr>\<rparr>"

definition start :: "memory \<Rightarrow> u32 \<Rightarrow> outcome" where
  "start m entry_point =
     (let k0 = \<lparr>proc_array = map empty_process [0..<NPROCS], current = 1, mem = m\<rparr>;
          k1 = upd_proc 1 special_registers_init k0;
          k2 = upd_proc 1 (set_reg (\<lambda>r. r\<lparr>reg_eip := entry_point\<rparr>)) k1;
          k3 = upd_proc 1 (set_reg (\<lambda>r. r\<lparr>reg_esp := PROC1_STACK_ADDR + PROC_STACK_SIZE\<rparr>)) k2;
          k4 = upd_proc 1 (\<lambda>p. p\<lparr>p_state := P_RUNNABLE\<rparr>) k3
      in run 1 k4)"

section \<open>Reading an updated table\<close>

lemma proc_upd_proc [simp]:
  "j < length (proc_array k) \<Longrightarrow>
     proc (upd_proc i f k) j = (if i = j then f (proc k j) else proc k j)"
  by (simp add: upd_proc_def nth_upd_nth)

lemma upd_proc_frame [simp]:
  "length (proc_array (upd_proc i f k)) = length (proc_array k)"
  "current (upd_proc i f k) = current k"
  "mem (upd_proc i f k) = mem k"
  by (simp_all add: upd_proc_def)

lemma proc_mem_update [simp]: "proc (k\<lparr>mem := m\<rparr>) i = proc k i"
  "proc (k\<lparr>current := c\<rparr>) i = proc k i"
  by simp_all

lemma set_reg_fields [simp]:
  "waitingQ (set_reg f p) = waitingQ p" "p_pid (set_reg f p) = p_pid p"
  "p_state (set_reg f p) = p_state p" "p_exit_status (set_reg f p) = p_exit_status p"
  "p_registers (set_reg f p) = f (p_registers p)"
  by (simp_all add: set_reg_def)

lemma set_eax_fields [simp]:
  "waitingQ (set_eax v p) = waitingQ p" "p_pid (set_eax v p) = p_pid p"
  "p_state (set_eax v p) = p_state p" "p_exit_status (set_eax v p) = p_exit_status p"
  "p_registers (set_eax v p) = (p_registers p)\<lparr>reg_eax := v\<rparr>"
  by (simp_all add: set_eax_def)

section \<open>The table invariant\<close>

text \<open>
  What the handlers keep true: the table has its slots, each descriptor carries its own
  index and a queue of the right length, slot 0 stays empty, no process is on its own
  queue and slot 0 on none, and \<open>current\<close> is a slot other than 0.
\<close>

definition wf_proc :: "nat \<Rightarrow> process_t \<Rightarrow> bool" where
  "wf_proc i p \<longleftrightarrow> p_pid p = i \<and> length (waitingQ p) = NPROCS
     \<and> waitingQ p ! 0 = 0 \<and> waitingQ p ! i = 0"

definition wf_kernel :: "kernel \<Rightarrow> bool" where
  "wf_kernel k \<longleftrightarrow> length (proc_array k) = NPROCS
     \<and> list_all2 wf_proc [0..<NPROCS] (proc_array k)
     \<and> p_state (proc k 0) = P_EMPTY \<and> 0 < current k \<and> current k < NPROCS"

lemma wf_kernel_iff:
  "wf_kernel k \<longleftrightarrow> length (proc_array k) = NPROCS \<and> (\<forall>i < NPROCS. wf_proc i (proc k i))
     \<and> p_state (proc k 0) = P_EMPTY \<and> 0 < current k \<and> current k < NPROCS"
  by (auto simp: wf_kernel_def list_all2_conv_all_nth)

lemma wf_kernelD:
  assumes "wf_kernel k"
  shows "length (proc_array k) = NPROCS" "p_state (proc k 0) = P_EMPTY"
    "0 < current k" "current k < NPROCS"
    "i < NPROCS \<Longrightarrow> wf_proc i (proc k i)"
    "i < NPROCS \<Longrightarrow> p_pid (proc k i) = i"
  using assms by (auto simp: wf_kernel_iff wf_proc_def)

lemma wf_upd_proc:
  assumes "wf_kernel k" "wf_proc i (proc k i) \<Longrightarrow> wf_proc i (f (proc k i))"
    "i = 0 \<Longrightarrow> p_state (f (proc k i)) = P_EMPTY" "i < NPROCS"
  shows "wf_kernel (upd_proc i f k)"
  using assms by (auto simp: wf_kernel_iff)

lemma wf_mem [wf_intros]: "wf_kernel k \<Longrightarrow> wf_kernel (k\<lparr>mem := m\<rparr>)"
  by (auto simp: wf_kernel_iff)

lemma wf_current [wf_intros]:
  "wf_kernel k \<Longrightarrow> 0 < i \<Longrightarrow> i < NPROCS \<Longrightarrow> wf_kernel (k\<lparr>current := i\<rparr>)"
  by (auto simp: wf_kernel_iff)

definition wf_outcome :: "outcome \<Rightarrow> bool" where
  "wf_outcome r = (case r of Resume k \<Rightarrow> wf_kernel k | Spin \<Rightarrow> True | Overwritten \<Rightarrow> True)"

lemma wf_run: "wf_kernel k \<Longrightarrow> 0 < i \<Longrightarrow> i < NPROCS \<Longrightarrow> wf_outcome (run i k)"
  by (simp add: wf_outcome_def run_def wf_current)

section \<open>Scheduling\<close>

lemma schedule_loop_sound:
  "schedule_loop k p = Some q \<Longrightarrow> p_state (proc k q) = P_RUNNABLE \<and> q < NPROCS"
proof (rule schedule_loop.raw_induct
    [where P = "\<lambda>k p q. p_state (proc k q) = P_RUNNABLE \<and> q < NPROCS"])
  fix f k p q
  assume IH: "\<And>k p q. f k p = Some q \<Longrightarrow> p_state (proc k q) = P_RUNNABLE \<and> q < NPROCS"
    and eq: "(let pid' = (p + 1) mod NPROCS
      in if p_state (proc k pid') = P_RUNNABLE then Some pid' else f k pid') = Some q"
  show "p_state (proc k q) = P_RUNNABLE \<and> q < NPROCS"
    using eq IH[of k "(p + 1) mod NPROCS" q]
    by (auto simp: Let_def NPROCS_def split: if_splits)
qed

interpretation mini: round_robin
  "\<lambda>k i. p_state (proc k i) = P_RUNNABLE" NPROCS schedule_loop
proof
  show "0 < NPROCS" by (simp add: NPROCS_def)
  show "schedule_loop k p = (let q = (p + 1) mod NPROCS
      in if p_state (proc k q) = P_RUNNABLE then Some q else schedule_loop k q)" for k p
    by (rule schedule_loop.simps)
qed (rule schedule_loop_sound)

interpretation mini_slot: slot_search
  "\<lambda>k i. p_state (proc k i) = P_EMPTY" NPROCS find_empty
proof -
  have "find_empty = (\<lambda>k. scan (\<lambda>i. p_state (proc k i) = P_EMPTY) 1 (NPROCS - 1))"
    by (simp add: fun_eq_iff find_empty_def)
  then show "slot_search (\<lambda>k i. p_state (proc k i) = P_EMPTY) NPROCS find_empty"
    using slot_search_scan[of "\<lambda>k i. p_state (proc k i) = P_EMPTY" NPROCS] by simp
qed

lemma wf_schedule: "wf_kernel k \<Longrightarrow> wf_outcome (schedule k)"
proof (cases "schedule_loop k (p_pid (proc k (current k)))")
  case (Some i)
  assume wf: "wf_kernel k"
  have "p_state (proc k i) = P_RUNNABLE" "i < NPROCS"
    using mini.pick_sound[OF Some] by auto
  moreover have "p_state (proc k 0) = P_EMPTY" using wf by (rule wf_kernelD)
  ultimately have "0 < i" by (cases "i = 0") simp_all
  then show ?thesis
    using wf_run[OF wf _ \<open>i < NPROCS\<close>] by (simp add: schedule_def Some)
qed (simp add: schedule_def wf_outcome_def)

section \<open>Every handler keeps the invariant\<close>

lemma wf_proc_simps [simp]:
  "wf_proc i (set_reg f p) = wf_proc i p" "wf_proc i (set_eax v p) = wf_proc i p"
  "wf_proc i (p\<lparr>p_state := st\<rparr>) = wf_proc i p" "wf_proc i (p\<lparr>p_registers := r\<rparr>) = wf_proc i p"
  "wf_proc i (p\<lparr>p_exit_status := e\<rparr>) = wf_proc i p"
  by (simp_all add: wf_proc_def)

lemma wf_proc_fresh_queue [simp]:
  "0 < NPROCS \<Longrightarrow> i < NPROCS \<Longrightarrow> wf_proc i (p\<lparr>waitingQ := replicate NPROCS 0\<rparr>) = (p_pid p = i)"
  by (auto simp: wf_proc_def)

lemma wf_proc_pid: "wf_proc i p \<Longrightarrow> p_pid p = i"
  by (simp add: wf_proc_def)

lemma NPROCS_pos [simp]: "0 < NPROCS"
  by (simp add: NPROCS_def)

lemma wf_upd_state [wf_intros]:
  "wf_kernel k \<Longrightarrow> 0 < i \<Longrightarrow> i < NPROCS \<Longrightarrow> wf_kernel (upd_proc i (\<lambda>p. p\<lparr>p_state := st\<rparr>) k)"
  by (rule wf_upd_proc) auto

lemma wf_upd_keep [wf_intros]:
  "wf_kernel k \<Longrightarrow> i < NPROCS \<Longrightarrow> wf_kernel (upd_proc i (set_eax v) k)"
  "wf_kernel k \<Longrightarrow> i < NPROCS \<Longrightarrow> wf_kernel (upd_proc i (set_reg g) k)"
  "wf_kernel k \<Longrightarrow> i < NPROCS \<Longrightarrow> wf_kernel (upd_proc i (\<lambda>p. p\<lparr>p_registers := r\<rparr>) k)"
  "wf_kernel k \<Longrightarrow> i < NPROCS \<Longrightarrow> wf_kernel (upd_proc i (\<lambda>p. p\<lparr>p_exit_status := e p\<rparr>) k)"
  by (rule wf_upd_proc; auto simp: wf_kernel_iff)+

lemma wf_upd_queue [wf_intros]:
  "wf_kernel k \<Longrightarrow> 0 < i \<Longrightarrow> i < NPROCS \<Longrightarrow>
     wf_kernel (upd_proc i (\<lambda>p. p\<lparr>waitingQ := replicate NPROCS 0\<rparr>) k)"
  by (rule wf_upd_proc) (auto simp: wf_proc_pid)

lemma wf_wake_one: "wf_kernel k \<Longrightarrow> 0 < q \<Longrightarrow> q < NPROCS \<Longrightarrow> 0 < i \<Longrightarrow> i < NPROCS \<Longrightarrow>
    wf_kernel (wake_one q e i k)"
  by (simp add: wake_one_def Let_def wf_intros)

lemma current_wake_one [simp]: "current (wake_one q e i k) = current k"
  by (simp add: wake_one_def Let_def)

lemma wf_fold_wake:
  "wf_kernel k \<Longrightarrow> 0 < q \<Longrightarrow> q < NPROCS \<Longrightarrow> \<forall>i \<in> set is. 0 < i \<and> i < NPROCS \<Longrightarrow>
     wf_kernel (fold (wake_one q e) is k)"
  by (induction "is" arbitrary: k) (auto intro: wf_wake_one)

lemma wf_wake_waiters [wf_intros]: "wf_kernel k \<Longrightarrow> 0 < q \<Longrightarrow> q < NPROCS \<Longrightarrow>
    wf_kernel (wake_waiters q e k)"
  unfolding wake_waiters_def by (rule wf_fold_wake) auto

lemma current_wake_waiters [simp]: "current (wake_waiters q e k) = current k"
proof -
  have "current (fold (wake_one q e) is k) = current k" for "is"
    by (induction "is" arbitrary: k) auto
  then show ?thesis by (simp add: wake_waiters_def)
qed

lemma wf_copy_stack: "copy_stack d s k = Some k' \<Longrightarrow> wf_kernel k \<Longrightarrow> d < NPROCS \<Longrightarrow> wf_kernel k'"
  by (auto simp: copy_stack_def Let_def wf_intros split: if_splits)

lemma current_copy_stack: "copy_stack d s k = Some k' \<Longrightarrow> current k' = current k"
  by (auto simp: copy_stack_def Let_def split: if_splits)

lemma find_empty_bounds:
  assumes "find_empty k = Some i"
  shows "0 < i" "i < NPROCS" "p_state (proc k i) = P_EMPTY"
  using mini_slot.find_Some[OF assms] by auto

lemma wf_do_fork:
  assumes "wf_kernel k" "do_fork p k = Some (r, k')"
  shows "wf_kernel k' \<and> current k' = current k"
proof (cases "find_empty k")
  case (Some i)
  define k3 where "k3 = upd_proc i (\<lambda>q. q\<lparr>p_registers := p_registers (proc (upd_proc i (\<lambda>p. p\<lparr>p_state := P_RUNNABLE\<rparr>)
      (upd_proc i (\<lambda>p. p\<lparr>waitingQ := replicate NPROCS 0\<rparr>) k)) p)\<rparr>)
    (upd_proc i (\<lambda>p. p\<lparr>p_state := P_RUNNABLE\<rparr>) (upd_proc i (\<lambda>p. p\<lparr>waitingQ := replicate NPROCS 0\<rparr>) k))"
  note i = find_empty_bounds[OF Some]
  have k3: "wf_kernel k3" using assms(1) i unfolding k3_def by (intro wf_intros)
  obtain k4 where k4: "copy_stack i p k3 = Some k4" "k' = upd_proc i (set_eax 0) k4"
    using assms(2) Some by (auto simp: do_fork_def Let_def k3_def split: option.splits)
  have "current k3 = current k" by (simp add: k3_def)
  then show ?thesis
    using k4 wf_copy_stack[OF k4(1) k3 i(2)] current_copy_stack[OF k4(1)] i(2) by (simp add: wf_upd_keep(1))
qed (use assms in \<open>simp add: do_fork_def\<close>)

lemma wf_do_newthread:
  "wf_kernel k \<Longrightarrow> wf_kernel (snd (do_newthread p f k)) \<and> current (snd (do_newthread p f k)) = current k"
  by (auto simp: do_newthread_def Let_def find_empty_bounds wf_intros split: option.split)

lemma wf_sys_wait: "wf_kernel k \<Longrightarrow> wf_outcome (sys_wait k)"
proof -
  assume wf: "wf_kernel k"
  let ?p = "sint (reg_eax (p_registers (proc k (current k))))"
  let ?i = "nat ?p"
  have c: "0 < current k" "current k < NPROCS" "p_pid (proc k (current k)) = current k"
    using wf by (auto simp: wf_kernelD)
  have queue: "wf_kernel (upd_proc ?i (\<lambda>q. q\<lparr>waitingQ := (waitingQ q)[current k := 1]\<rparr>) k)"
    if "0 < ?i" "?i < NPROCS" "?i \<noteq> current k"
    using that c wf by (intro wf_upd_proc) (auto simp: wf_proc_def nth_list_update)
  show ?thesis
    using wf c queue
    by (auto simp: sys_wait_def Let_def intro!: wf_schedule wf_intros)
qed

lemma wf_handlers:
  assumes "wf_kernel k"
  shows "wf_outcome (sys_getpid k)" "wf_outcome (sys_fork k)" "wf_outcome (sys_thread k)"
    "wf_outcome (sys_kill k)" "wf_outcome (sys_yield k)" "wf_outcome (sys_exit k)"
proof -
  have c: "0 < current k" "current k < NPROCS" using assms by (auto simp: wf_kernelD)
  show "wf_outcome (sys_getpid k)"
    using assms c by (simp add: sys_getpid_def Let_def wf_run wf_intros)
  show "wf_outcome (sys_fork k)"
    using wf_do_fork[OF assms, of "current k"] c
    by (auto simp: sys_fork_def Let_def wf_outcome_def[of Overwritten] split: option.split intro!: wf_run wf_intros)
  show "wf_outcome (sys_thread k)"
    using wf_do_newthread[OF assms] c
    by (auto simp: sys_thread_def Let_def split: prod.split intro!: wf_run wf_intros)
      (metis snd_conv)+
  show "wf_outcome (sys_kill k)"
    using assms c by (auto simp: sys_kill_def Let_def intro!: wf_run wf_intros)
  show "wf_outcome (sys_yield k)"
    using assms by (simp add: sys_yield_def wf_schedule)
  show "wf_outcome (sys_exit k)"
    using assms c by (auto simp: sys_exit_def Let_def intro!: wf_schedule wf_intros)
qed

lemma wf_interrupt: "wf_kernel k \<Longrightarrow> wf_outcome (interrupt reg k)"
  unfolding interrupt_def Let_def
  using wf_handlers wf_sys_wait wf_upd_keep(3)[OF _ wf_kernelD(4)]
  by (simp add: wf_outcome_def)

lemma wf_start: "wf_outcome (start m e)"
proof -
  have "wf_kernel \<lparr>proc_array = map empty_process [0..<NPROCS], current = 1, mem = m\<rparr>"
    by (auto simp: wf_kernel_iff wf_proc_def empty_process_def NPROCS_def)
  moreover have "1 < NPROCS" by (simp add: NPROCS_def)
  moreover have "wf_kernel k \<Longrightarrow> wf_kernel (upd_proc 1 special_registers_init k)" for k
    by (rule wf_upd_proc) (auto simp: special_registers_init_def NPROCS_def)
  ultimately show ?thesis
    by (auto simp: start_def Let_def intro!: wf_run wf_intros)
qed

section \<open>What waking the queue does\<close>

definition waits_on :: "kernel \<Rightarrow> nat \<Rightarrow> nat \<Rightarrow> bool" where
  "waits_on k i q \<longleftrightarrow> waitingQ (proc k q) ! i \<noteq> 0"

lemma wake_one_fields:
  assumes "q < length (proc_array k)" "i < length (proc_array k)" "j < length (proc_array k)"
    "e < length (proc_array k)"
  shows "waitingQ (proc (wake_one q e i k) j) = waitingQ (proc k j)"
    "p_exit_status (proc (wake_one q e i k) j) = p_exit_status (proc k j)"
    "p_pid (proc (wake_one q e i k) j) = p_pid (proc k j)"
    "length (proc_array (wake_one q e i k)) = length (proc_array k)"
    "mem (wake_one q e i k) = mem k"
    "p_state (proc (wake_one q e i k) j) =
       (if waits_on k i q then if j = q then P_EMPTY else if i = j then P_RUNNABLE
        else p_state (proc k j) else p_state (proc k j))"
    "p_registers (proc (wake_one q e i k) j) =
       (if waits_on k i q \<and> i = j then (p_registers (proc k j))\<lparr>reg_eax := p_exit_status (proc k e)\<rparr>
        else p_registers (proc k j))"
  using assms by (auto simp: wake_one_def waits_on_def Let_def)

lemma fold_wake_fields:
  assumes "q < length (proc_array k)" "e < length (proc_array k)" "j < length (proc_array k)"
    "\<forall>i \<in> set is. i < length (proc_array k)" "\<not> waits_on k q q"
  shows "waitingQ (proc (fold (wake_one q e) is k) j) = waitingQ (proc k j)
    \<and> p_exit_status (proc (fold (wake_one q e) is k) j) = p_exit_status (proc k j)
    \<and> p_pid (proc (fold (wake_one q e) is k) j) = p_pid (proc k j)
    \<and> mem (fold (wake_one q e) is k) = mem k
    \<and> p_state (proc (fold (wake_one q e) is k) j) =
       (if j = q \<and> (\<exists>i \<in> set is. waits_on k i q) then P_EMPTY
        else if j \<in> set is \<and> waits_on k j q then P_RUNNABLE else p_state (proc k j))
    \<and> p_registers (proc (fold (wake_one q e) is k) j) =
       (if j \<in> set is \<and> waits_on k j q
        then (p_registers (proc k j))\<lparr>reg_eax := p_exit_status (proc k e)\<rparr>
        else p_registers (proc k j))"
  using assms
proof (induction "is" arbitrary: k)
  case (Cons i "is")
  have w: "waits_on (wake_one q e i k) i' q = waits_on k i' q" for i'
    using wake_one_fields(1)[OF Cons.prems(1) _ Cons.prems(1,2)] Cons.prems(4)
    by (simp add: waits_on_def)
  note IH = Cons.IH[of "wake_one q e i k"]
  show ?case
    using IH Cons.prems w wake_one_fields[OF Cons.prems(1) _ Cons.prems(3,2), of i]
      wake_one_fields(2)[OF Cons.prems(1) _ Cons.prems(2,2), of i]
    by (cases "j = i"; cases "j \<in> set is"; cases "waits_on k i q") auto
qed simp

lemmas wake_defs = wake_waiters_def waits_on_def

text \<open>On a well-formed table, in one place for the system calls that wake a queue.\<close>

lemma wake_waiters_fields:
  assumes wf: "wf_kernel k" and "q < NPROCS" "e < NPROCS" "j < NPROCS"
  shows "waitingQ (proc (wake_waiters q e k) j) = waitingQ (proc k j)"
    "p_exit_status (proc (wake_waiters q e k) j) = p_exit_status (proc k j)"
    "p_pid (proc (wake_waiters q e k) j) = p_pid (proc k j)"
    "mem (wake_waiters q e k) = mem k"
    "p_state (proc (wake_waiters q e k) j) =
       (if j = q \<and> (\<exists>i < NPROCS. waits_on k i q) then P_EMPTY
        else if waits_on k j q then P_RUNNABLE else p_state (proc k j))"
    "p_registers (proc (wake_waiters q e k) j) =
       (if waits_on k j q then (p_registers (proc k j))\<lparr>reg_eax := p_exit_status (proc k e)\<rparr>
        else p_registers (proc k j))"
proof -
  have len: "length (proc_array k) = NPROCS" using wf by (rule wf_kernelD)
  have q0: "\<not> waits_on k q q" "\<not> waits_on k 0 q"
    using wf_kernelD(5)[OF wf assms(2)] by (auto simp: waits_on_def wf_proc_def)
  have set: "i \<in> set [1..<NPROCS] \<and> waits_on k i q \<longleftrightarrow> i < NPROCS \<and> waits_on k i q" for i
    using q0(2) by (cases "i = 0") auto
  have ex: "(\<exists>i \<in> set [1..<NPROCS]. waits_on k i q) = (\<exists>i < NPROCS. waits_on k i q)"
    using set by blast
  have sj: "(j \<in> set [1..<NPROCS] \<and> waits_on k j q) = waits_on k j q"
    using set[of j] assms(4) by blast
  have pre: "\<forall>i \<in> set [1..<NPROCS]. i < NPROCS" by simp
  note F = fold_wake_fields[of q k e j "[1..<NPROCS]", unfolded len,
      OF assms(2,3,4) pre q0(1), unfolded ex sj, folded wake_waiters_def]
  then show "waitingQ (proc (wake_waiters q e k) j) = waitingQ (proc k j)"
    "p_exit_status (proc (wake_waiters q e k) j) = p_exit_status (proc k j)"
    "p_pid (proc (wake_waiters q e k) j) = p_pid (proc k j)"
    "mem (wake_waiters q e k) = mem k"
    "p_state (proc (wake_waiters q e k) j) =
       (if j = q \<and> (\<exists>i < NPROCS. waits_on k i q) then P_EMPTY
        else if waits_on k j q then P_RUNNABLE else p_state (proc k j))"
    "p_registers (proc (wake_waiters q e k) j) =
       (if waits_on k j q then (p_registers (proc k j))\<lparr>reg_eax := p_exit_status (proc k e)\<rparr>
        else p_registers (proc k j))"
    by blast+
qed

section \<open>Forking\<close>

lemma stack_top_unat: "i < NPROCS \<Longrightarrow> unat (stack_top i) = 0x280000 + i * 0x40000"
proof -
  assume "i < NPROCS"
  then have i: "i < 16" by (simp add: NPROCS_def)
  have "stack_top i = of_nat (0x280000 + i * 0x40000)"
    by (simp add: stack_top_def PROC1_STACK_ADDR_def PROC_STACK_SIZE_def)
  then show ?thesis using i by (simp add: unat_of_nat del: of_nat_add of_nat_mult)
qed

text \<open>Two stacks are at least a stack apart, also modulo the size of memory.\<close>

lemma stack_top_apart:
  assumes "i < NPROCS" "j < NPROCS" "i \<noteq> j"
  shows "unat PROC_STACK_SIZE \<le> unat (stack_top i - stack_top j)"
proof -
  have "i < 16" "j < 16" using assms by (simp_all add: NPROCS_def)
  then show ?thesis
    using assms(3) by (auto simp: unat_sub_if' stack_top_unat[OF assms(1)]
        stack_top_unat[OF assms(2)] PROC_STACK_SIZE_def)
qed

definition stack_used :: "kernel \<Rightarrow> nat \<Rightarrow> u32" where
  "stack_used k i = stack_top i - reg_esp (p_registers (proc k i))"

text \<open>The table a successful fork leaves, before the parent's return value is set.\<close>

lemma do_fork_table:
  assumes wf: "wf_kernel k" and p: "p < NPROCS" "p_state (proc k p) \<noteq> P_EMPTY"
    and free: "find_empty k = Some i" and ok: "do_fork p k = Some (r, k')"
  defines "shift \<equiv> stack_top i - stack_top p"
  shows "r = of_nat i" "p_state (proc k' i) = P_RUNNABLE"
    "waitingQ (proc k' i) = replicate NPROCS 0"
    "p_registers (proc k' i) = (p_registers (proc k p))
       \<lparr>reg_esp := reg_esp (p_registers (proc k p)) + shift, reg_eax := 0\<rparr>"
    "\<And>j. j < NPROCS \<Longrightarrow> j \<noteq> i \<Longrightarrow> proc k' j = proc k j"
    "mem k' = memcpy (mem k) (stack_top i - stack_used k p) (reg_esp (p_registers (proc k p))) (stack_used k p)"
    "current k' = current k" "length (proc_array k') = NPROCS"
    "\<not> hits_kernel (stack_top i - stack_used k p) (stack_used k p)"
proof -
  have len: "length (proc_array k) = NPROCS" using wf by (rule wf_kernelD)
  note i = find_empty_bounds[OF free]
  have ip: "i \<noteq> p" using i p by auto
  have pid: "p_pid (proc k p) = p" "p_pid (proc k i) = i"
    using wf_kernelD(6)[OF wf] p i by auto
  note d = do_fork_def Let_def copy_stack_def stack_used_def
  show "r = of_nat i" "p_state (proc k' i) = P_RUNNABLE"
    "waitingQ (proc k' i) = replicate NPROCS 0"
    "p_registers (proc k' i) = (p_registers (proc k p))
       \<lparr>reg_esp := reg_esp (p_registers (proc k p)) + shift, reg_eax := 0\<rparr>"
    "\<And>j. j < NPROCS \<Longrightarrow> j \<noteq> i \<Longrightarrow> proc k' j = proc k j"
    "mem k' = memcpy (mem k) (stack_top i - stack_used k p) (reg_esp (p_registers (proc k p))) (stack_used k p)"
    "current k' = current k" "length (proc_array k') = NPROCS"
    "\<not> hits_kernel (stack_top i - stack_used k p) (stack_used k p)"
    using ok free len i p ip pid by (auto simp: d shift_def split: if_splits)
qed

lemma do_fork_None:
  assumes wf: "wf_kernel k" and p: "p < NPROCS" "p_state (proc k p) \<noteq> P_EMPTY" and free: "find_empty k = Some i"
  shows "do_fork p k = None \<longleftrightarrow> hits_kernel (stack_top i - stack_used k p) (stack_used k p)"
proof -
  have len: "length (proc_array k) = NPROCS" using wf by (rule wf_kernelD)
  note i = find_empty_bounds[OF free]
  have ip: "i \<noteq> p" using i p by auto
  have pid: "p_pid (proc k p) = p" "p_pid (proc k i) = i"
    using wf_kernelD(6)[OF wf] p i by auto
  show ?thesis
    using free len i p ip pid by (auto simp: do_fork_def Let_def copy_stack_def stack_used_def)
qed

text \<open>A copy of at most a whole stack stays in the stack of the child.\<close>

lemma stack_copy_misses_kernel:
  assumes "0 < i" "i < NPROCS" "n \<le> PROC_STACK_SIZE"
  shows "\<not> hits_kernel (stack_top i - n) n"
proof -
  define t where "t = stack_top i"
  have "unat t = 0x280000 + i * 0x40000" using assms(2) by (simp add: t_def stack_top_unat)
  then have t: "0x2C0000 \<le> unat t" "unat t < 0x680000" using assms(1,2) by (simp_all add: NPROCS_def)
  have n: "unat n \<le> 0x40000" using assms(3) by (simp add: PROC_STACK_SIZE_def word_le_nat_alt)
  have tn: "unat (t - n) = unat t - unat n" using t n by (simp add: unat_sub word_le_nat_alt)
  show ?thesis
    unfolding t_def[symmetric]
    using t n tn by (auto simp: hits_kernel_def ranges_meet_def KERNEL_STACK_TOP_def word_less_nat_alt unat_sub_if')
qed

text \<open>A copy that misses the memory of the kernel leaves it as it is.\<close>

lemma ranges_meet_byte:
  assumes "\<not> ranges_meet a n b l" "x - b < l"
  shows "\<not> x - a < n"
proof
  assume x: "x - a < n"
  have w: "unat (u - v) = unat u - unat v" if "unat v \<le> unat u" for u v :: u32
    using that by (simp add: unat_sub word_le_nat_alt)
  show False
  proof (cases "unat (x - b) \<le> unat (x - a)")
    case True
    have "unat ((x - a) - (x - b)) < unat n" using w[OF True] x by (simp add: word_less_nat_alt)
    then have "b - a < n" by (simp add: word_less_nat_alt)
    then show False using assms by (auto simp: ranges_meet_def word_less_nat_alt)
  next
    case False
    have "unat ((x - b) - (x - a)) < unat l" using w[of "x - a" "x - b"] False assms(2) by (simp add: word_less_nat_alt)
    then have "a - b < l" by (simp add: word_less_nat_alt)
    then show False using assms x by (auto simp: ranges_meet_def word_less_nat_alt)
  qed
qed

lemma memcpy_loop_outside:
  fixes m :: "'a::len mem"
  shows "n \<le> unat (a - d) \<Longrightarrow> memcpy_loop m d s n a = m a"
proof (induction m d s n rule: memcpy_loop.induct)
  case (2 m d s n)
  then have "a - d \<noteq> 0" by (metis not_less_eq_eq unat_0 zero_le)
  then have "unat (a - d - 1) = unat (a - d) - 1" by (rule unat_minus_one)
  moreover have "a - d - 1 = a - (d + 1)" by simp
  ultimately have "n \<le> unat (a - (d + 1))" using "2.prems" by (metis Suc_le_eq diff_Suc_1 less_eq_Suc_le Suc_diff_1 diff_le_mono)
  then show ?case using "2.IH" \<open>a - d \<noteq> 0\<close> by (simp del: fun_upd_apply) (simp add: fun_upd_other[of a d])
qed simp

lemma memcpy_misses_kernel:
  assumes "\<not> hits_kernel a n" "kernel_bytes x"
  shows "memcpy m a src n x = m x"
proof -
  have "x - 0x60004 < KERNEL_STACK_TOP - 0x60004 \<or> x - 0x100000 < 0x100000"
    using assms(2) by (auto simp: kernel_bytes_def KERNEL_STACK_TOP_def word_less_nat_alt word_le_nat_alt unat_sub_if')
  then have "\<not> x - a < n"
    using assms(1) ranges_meet_byte by (auto simp: hits_kernel_def)
  then show ?thesis by (simp add: memcpy_def memcpy_loop_outside word_less_nat_alt)
qed

text \<open>A fork from a stack of at most the size of a stack always goes through.\<close>

lemma do_fork_fields:
  assumes wf: "wf_kernel k" and p: "p < NPROCS" "p_state (proc k p) \<noteq> P_EMPTY"
    and free: "find_empty k = Some i"
    and fits: "stack_used k p \<le> PROC_STACK_SIZE"
  defines "shift \<equiv> stack_top i - stack_top p"
  obtains k' where "do_fork p k = Some (of_nat i, k')"
    "mem k' = (\<lambda>a. if unat (a - (stack_top i - stack_used k p)) < unat (stack_used k p)
                 then mem k (a - shift) else mem k a)"
proof -
  note i = find_empty_bounds[OF free]
  have ip: "i \<noteq> p" using i p by auto
  have "do_fork p k \<noteq> None"
    using do_fork_None[OF wf p free] stack_copy_misses_kernel[OF i(1,2) fits] by blast
  then obtain r k' where ok: "do_fork p k = Some (r, k')" by auto
  note T = do_fork_table[OF wf p free ok]
  have esp: "stack_top i - stack_used k p = reg_esp (p_registers (proc k p)) + shift"
    by (simp add: stack_used_def shift_def)
  have "unat (stack_used k p) \<le> unat PROC_STACK_SIZE"
    using fits by (simp add: word_le_nat_alt)
  also have "\<dots> \<le> unat shift"
    using stack_top_apart[OF i(2) p(1) ip] by (simp add: shift_def)
  finally have "unat (stack_used k p)
      \<le> unat ((stack_top i - stack_used k p) - reg_esp (p_registers (proc k p)))"
    by (simp add: esp)
  then have "mem k' a = (if unat (a - (stack_top i - stack_used k p)) < unat (stack_used k p)
                 then mem k (a - shift) else mem k a)" for a
    unfolding T(6) memcpy_def
    by (subst memcpy_loop_eq) (simp_all add: esp)
  then show ?thesis using that ok T(1) by blast
qed

lemma do_fork_full: "find_empty k = None \<Longrightarrow> do_fork p k = Some (- 1, k)"
  by (simp add: do_fork_def)

end
