(* ===== verification/Miniproc_Props.thy ===== *)
theory Miniproc_Props
  imports Miniproc_Kernel
begin

text \<open>
  The properties of the MiniprocOS kernel: the table invariant over every reachable state,
  the scheduler, process creation, the wait/exit handshake, and what \<open>sys_kill\<close> does to the
  processes that wait for its target.
\<close>

section \<open>Reachable states\<close>

text \<open>
  The machine boots into \<open>start\<close>; from then on user code changes the memory it shares with the other
  processes as it likes, but for the memory of the kernel, and traps into \<open>interrupt\<close> with registers of
  its choice. The parameter restricts the traps.
\<close>

inductive ksteps :: "(kernel \<Rightarrow> registers \<Rightarrow> bool) \<Rightarrow> kernel \<Rightarrow> kernel \<Rightarrow> bool" for allowed where
  here: "ksteps allowed k k"
| user: "ksteps allowed k k' \<Longrightarrow> (\<And>a. kernel_bytes a \<Longrightarrow> m a = mem k' a) \<Longrightarrow> ksteps allowed k (k'\<lparr>mem := m\<rparr>)"
| trap: "ksteps allowed k k' \<Longrightarrow> allowed k' reg \<Longrightarrow> interrupt reg k' = Resume k'' \<Longrightarrow> ksteps allowed k k''"

abbreviation any_trap :: "kernel \<Rightarrow> registers \<Rightarrow> bool" where "any_trap \<equiv> \<lambda>k reg. True"

lemma wf_ksteps: "ksteps allowed k k' \<Longrightarrow> wf_kernel k \<Longrightarrow> wf_kernel k'"
proof (induction rule: ksteps.induct)
  case (user k k' m)
  then show ?case by (simp add: wf_mem)
next
  case (trap k k' reg k'')
  then show ?case using wf_interrupt[of k' reg] by (simp add: wf_outcome_def)
qed

section \<open>The memory of the kernel\<close>

lemma mem_wake_waiters [simp]: "mem (wake_waiters q e k) = mem k"
proof -
  have "mem (fold (wake_one q e) is k) = mem k" for "is"
    by (induction "is" arbitrary: k) (auto simp: wake_one_def Let_def)
  then show ?thesis by (simp add: wake_waiters_def)
qed

lemma mem_schedule: "schedule k = Resume k' \<Longrightarrow> mem k' = mem k"
  by (auto simp: schedule_def run_def split: option.splits)

lemma mem_do_fork:
  assumes "do_fork p k = Some (r, k')" "kernel_bytes a"
  shows "mem k' a = mem k a"
  using assms
  by (auto simp: do_fork_def Let_def copy_stack_def memcpy_misses_kernel split: option.splits if_splits)

lemma interrupt_keeps_kernel:
  assumes "interrupt reg k = Resume k'" "kernel_bytes a"
  shows "mem k' a = mem k a"
proof -
  let ?k = "upd_proc (current k) (\<lambda>p. p\<lparr>p_registers := reg\<rparr>) k"
  have "sys_getpid ?k = Resume k' \<or> sys_fork ?k = Resume k' \<or> sys_kill ?k = Resume k' \<or> sys_thread ?k = Resume k'
      \<or> sys_yield ?k = Resume k' \<or> sys_exit ?k = Resume k' \<or> sys_wait ?k = Resume k'"
    using assms(1) by (simp add: interrupt_def Let_def split: if_splits)
  then show ?thesis
  proof (elim disjE)
    assume "sys_fork ?k = Resume k'"
    then obtain r k1 where "do_fork (current k) ?k = Some (r, k1)"
        "k' = (upd_proc (current k) (set_eax r) k1)\<lparr>current := current k\<rparr>"
      by (auto simp: sys_fork_def run_def Let_def split: option.splits)
    then show ?thesis using mem_do_fork assms(2) by fastforce
  qed (auto simp: sys_getpid_def sys_kill_def sys_thread_def do_newthread_def sys_yield_def sys_exit_def sys_wait_def
      run_def Let_def split: if_splits option.splits dest!: mem_schedule)
qed

lemma ksteps_keeps_kernel: "ksteps allowed k k' \<Longrightarrow> kernel_bytes a \<Longrightarrow> mem k' a = mem k a"
  by (induction rule: ksteps.induct) (simp_all add: interrupt_keeps_kernel)

text \<open>The one way the kernel itself writes there: a stack pointer that is not in the stack of the process.\<close>

lemma do_fork_overwrites:
  assumes wf: "wf_kernel k" and p: "p < NPROCS" and none: "do_fork p k = None"
  shows "PROC_STACK_SIZE < stack_used k p"
proof -
  have len: "length (proc_array k) = NPROCS" using wf by (rule wf_kernelD)
  obtain i where free: "find_empty k = Some i" using none by (auto simp: do_fork_def split: option.splits)
  note i = find_empty_bounds[OF free]
  have pid: "p_pid (proc k p) = p" "p_pid (proc k i) = i" using wf_kernelD(6)[OF wf] p i by auto
  have "hits_kernel (stack_top i - stack_used k p) (stack_used k p)"
    using none free len i p pid
    by (auto simp: do_fork_def Let_def copy_stack_def stack_used_def split: option.splits if_splits)
  then show ?thesis using stack_copy_misses_kernel[OF i(1,2)] by (meson not_le)
qed

lemma schedule_not_overwritten [simp]: "schedule k \<noteq> Overwritten"
  by (simp add: schedule_def run_def split: option.split)

lemma interrupt_overwrites:
  assumes wf: "wf_kernel k" and o: "interrupt reg k = Overwritten"
  shows "reg_intno reg = INT_SYS_FORK \<and> PROC_STACK_SIZE < stack_top (current k) - reg_esp reg"
proof -
  let ?c = "current k"
  let ?k = "upd_proc ?c (\<lambda>p. p\<lparr>p_registers := reg\<rparr>) k"
  have c: "?c < NPROCS" and len: "length (proc_array k) = NPROCS" using wf by (auto simp: wf_kernelD)
  have f: "reg_intno reg = INT_SYS_FORK \<and> sys_fork ?k = Overwritten"
    using o by (simp add: interrupt_def Let_def sys_getpid_def sys_kill_def sys_thread_def sys_yield_def
        sys_exit_def sys_wait_def run_def split: if_splits prod.splits)
  then have "do_fork ?c ?k = None" by (auto simp: sys_fork_def Let_def run_def split: option.splits)
  moreover have "wf_kernel ?k" using wf c by (intro wf_intros)
  ultimately have "PROC_STACK_SIZE < stack_used ?k ?c" using do_fork_overwrites c by blast
  then show ?thesis using f c len by (simp add: stack_used_def)
qed

text \<open>
  C12: As long as no process writes into the memory of the kernel, and whatever user code puts
  everywhere else and in the registers of its traps, in every state the kernel reaches the
  process table is well formed (sixteen descriptors that carry their own index, waiting queues of the
  right length with no process on its own queue, slot 0 empty, and \<open>current\<close> a slot other than 0), the
  memory of the kernel is as it was after boot, and the only trap by which the kernel itself writes
  into it is a fork with a stack pointer outside the caller's own stack.
\<close>

theorem reachable_wf:
  assumes "start m e = Resume k0" "ksteps any_trap k0 k"
  shows "wf_kernel k \<and> (\<forall>a. kernel_bytes a \<longrightarrow> mem k a = m a)
    \<and> (\<forall>reg. interrupt reg k = Overwritten \<longrightarrow>
         reg_intno reg = INT_SYS_FORK \<and> PROC_STACK_SIZE < stack_top (current k) - reg_esp reg)"
proof -
  have "wf_kernel k" using wf_ksteps[OF assms(2)] wf_start[of m e] assms(1) by (simp add: wf_outcome_def)
  moreover have "mem k0 = m" using assms(1) by (auto simp: start_def Let_def run_def)
  ultimately show ?thesis using ksteps_keeps_kernel[OF assms(2)] interrupt_overwrites by blast
qed

text \<open>The state after boot, and that process 1 can make its first fork overwrite the kernel.\<close>

lemma start_Resume: "\<exists>k. start m e = Resume k \<and> current k = 1 \<and> find_empty k = Some 2 \<and> mem k = m"
  by (simp add: start_def Let_def run_def find_empty_def empty_process_def NPROCS_def upd_proc_def
      special_registers_init_def set_reg_def upd_nth_def numeral_eq_Suc)

theorem reachable_wf_witness:
  "\<exists>k0 k. start (\<lambda>_. 0) 0x200000 = Resume k0 \<and> ksteps any_trap k0 k \<and> wf_kernel k \<and> mem k 0x300000 = 7
     \<and> mem k 0x150000 = 0"
proof -
  obtain k0 where k0: "start (\<lambda>_. 0) 0x200000 = Resume k0" "mem k0 = (\<lambda>_. 0)"
    using start_Resume by metis
  let ?k = "k0\<lparr>mem := (mem k0)(0x300000 := 7)\<rparr>"
  have "ksteps any_trap k0 ?k"
    by (rule ksteps.user[OF ksteps.here]) (auto simp: kernel_bytes_def KERNEL_STACK_TOP_def)
  moreover have "kernel_bytes 0x150000" by (simp add: kernel_bytes_def)
  ultimately show ?thesis using reachable_wf[OF k0(1), of ?k] k0 by fastforce
qed

lemma fork_can_overwrite:
  assumes "start m e = Resume k" "reg_intno reg = INT_SYS_FORK" "reg_esp reg = 0x180000"
  shows "interrupt reg k = Overwritten"
proof -
  let ?k = "upd_proc 1 (\<lambda>p. p\<lparr>p_registers := reg\<rparr>) k"
  have c: "current k = 1" and free: "find_empty k = Some 2" using start_Resume[of m e] assms(1) by auto
  have wf: "wf_kernel k" using wf_start[of m e] assms(1) by (simp add: wf_outcome_def)
  have len: "length (proc_array k) = NPROCS" using wf by (rule wf_kernelD)
  have live: "p_state (proc k 1) = P_RUNNABLE"
    using assms(1) by (auto simp: start_def Let_def run_def NPROCS_def)
  moreover have "find_empty ?k = Some 2"
    using find_empty_bounds(3)[OF free] live len by (simp add: find_empty_def NPROCS_def numeral_eq_Suc)
  moreover have "wf_kernel ?k" using wf c wf_kernelD(4)[OF wf] by (intro wf_intros) auto
  ultimately have "do_fork 1 ?k = None"
    using do_fork_None[of ?k 1 2] len assms(3)
    by (simp add: NPROCS_def stack_used_def stack_top_def PROC1_STACK_ADDR_def PROC_STACK_SIZE_def
        hits_kernel_def ranges_meet_def KERNEL_STACK_TOP_def)
  then show ?thesis using assms(2) c by (simp add: interrupt_def sys_fork_def Let_def)
qed

text \<open>A process table for the witnesses: which slots are in which state.\<close>

definition demo :: "(nat \<Rightarrow> procstate) \<Rightarrow> (nat \<Rightarrow> u32 list) \<Rightarrow> nat \<Rightarrow> kernel" where
  "demo st w c = \<lparr>proc_array = map (\<lambda>i. (empty_process i)
     \<lparr>p_state := st i, waitingQ := w i, p_registers := zero_registers\<lparr>reg_esp := stack_top i - 8\<rparr>\<rparr>)
       [0..<NPROCS], current = c, mem = (\<lambda>a. ucast a)\<rparr>"

lemma wf_demo:
  assumes "st 0 = P_EMPTY" "0 < c" "c < NPROCS"
    "\<forall>i < NPROCS. length (w i) = NPROCS \<and> w i ! 0 = 0 \<and> w i ! i = 0"
  shows "wf_kernel (demo st w c)"
  using assms by (auto simp: wf_kernel_iff demo_def wf_proc_def empty_process_def)

lemma proc_demo: "i < NPROCS \<Longrightarrow> proc (demo st w c) i = (empty_process i)
     \<lparr>p_state := st i, waitingQ := w i, p_registers := zero_registers\<lparr>reg_esp := stack_top i - 8\<rparr>\<rparr>"
  by (simp add: demo_def)

lemma current_demo [simp]: "current (demo st w c) = c"
  by (simp add: demo_def)

abbreviation "no_waiters \<equiv> (\<lambda>i :: nat. replicate NPROCS (0 :: u32))"

section \<open>The scheduler\<close>

text \<open>
  C13: The scheduler is round-robin without starvation. It spins for ever exactly when no
  process is runnable; and if the process \<open>d\<close> slots after the current one is runnable, the
  scheduler resumes a runnable process at most \<open>d\<close> slots away, and none of the slots it
  skipped was runnable.
\<close>

theorem schedule_round_robin:
  assumes "wf_kernel k"
  shows "(schedule k = Spin \<longleftrightarrow> (\<forall>i < NPROCS. p_state (proc k i) \<noteq> P_RUNNABLE))
    \<and> (0 < d \<and> p_state (proc k ((current k + d) mod NPROCS)) = P_RUNNABLE \<longrightarrow>
      (\<exists>e. 0 < e \<and> e \<le> d \<and> p_state (proc k ((current k + e) mod NPROCS)) = P_RUNNABLE
         \<and> (\<forall>j. 0 < j \<and> j < e \<longrightarrow> p_state (proc k ((current k + j) mod NPROCS)) \<noteq> P_RUNNABLE)
         \<and> schedule k = Resume (k\<lparr>current := (current k + e) mod NPROCS\<rparr>)))"
proof (intro conjI impI)
  have pid: "p_pid (proc k (current k)) = current k"
    using wf_kernelD(4,6)[OF assms] by blast
  show "schedule k = Spin \<longleftrightarrow> (\<forall>i < NPROCS. p_state (proc k i) \<noteq> P_RUNNABLE)"
    using mini.pick_Some_iff[of k "current k"]
    by (auto simp: schedule_def pid run_def split: option.split)
  assume "0 < d \<and> p_state (proc k ((current k + d) mod NPROCS)) = P_RUNNABLE"
  then obtain e where e: "0 < e" "e \<le> d" "p_state (proc k ((current k + e) mod NPROCS)) = P_RUNNABLE"
    "\<forall>j. 0 < j \<and> j < e \<longrightarrow> p_state (proc k ((current k + j) mod NPROCS)) \<noteq> P_RUNNABLE"
    using mini.first_runnable[of d k "current k"] by blast
  moreover have "schedule_loop k (current k) = Some ((current k + e) mod NPROCS)"
    using e by (intro mini.pick_first) auto
  ultimately show "\<exists>e. 0 < e \<and> e \<le> d \<and> p_state (proc k ((current k + e) mod NPROCS)) = P_RUNNABLE
         \<and> (\<forall>j. 0 < j \<and> j < e \<longrightarrow> p_state (proc k ((current k + j) mod NPROCS)) \<noteq> P_RUNNABLE)
         \<and> schedule k = Resume (k\<lparr>current := (current k + e) mod NPROCS\<rparr>)"
    by (auto simp: schedule_def pid run_def)
qed

theorem schedule_round_robin_witness:
  "schedule (demo ((\<lambda>_. P_EMPTY)(2 := P_BLOCKED)) no_waiters 2) = Spin
   \<and> (\<exists>e. 0 < e \<and> e \<le> 15 \<and> schedule (demo ((\<lambda>_. P_EMPTY)(1 := P_RUNNABLE)) no_waiters 2)
        = Resume (demo ((\<lambda>_. P_EMPTY)(1 := P_RUNNABLE)) no_waiters 2\<lparr>current := (2 + e) mod NPROCS\<rparr>))"
  using schedule_round_robin[of "demo ((\<lambda>_. P_EMPTY)(2 := P_BLOCKED)) no_waiters 2" 1]
    schedule_round_robin[of "demo ((\<lambda>_. P_EMPTY)(1 := P_RUNNABLE)) no_waiters 2" 15]
  by (auto simp: wf_demo proc_demo NPROCS_def)

section \<open>Creating processes\<close>

text \<open>
  C14: \<open>sys_fork\<close> on a table with a free slot gives the lowest free slot to the child: the
  parent gets the child's pid, the child gets the parent's registers with 0 in \<open>eax\<close> and
  a stack pointer moved to its own stack region, the used part of the parent's stack
  appears byte for byte at the same offset from the child's stack top, no other byte
  of memory changes, and no third process changes. On a full table the parent gets \<open>-1\<close> and
  nothing else changes.
\<close>

theorem sys_fork_spec:
  assumes wf: "wf_kernel k" and live: "p_state (proc k (current k)) \<noteq> P_EMPTY"
    and fits: "stack_used k (current k) \<le> PROC_STACK_SIZE"
  shows "case find_empty k of
      None \<Rightarrow> sys_fork k = Resume (upd_proc (current k) (set_eax (- 1)) k)
    | Some i \<Rightarrow> (\<exists>k'. sys_fork k = Resume k' \<and> current k' = current k
        \<and> (\<forall>j. 0 < j \<and> j < i \<longrightarrow> p_state (proc k j) \<noteq> P_EMPTY)
        \<and> proc k' (current k) = set_eax (of_nat i) (proc k (current k))
        \<and> p_state (proc k' i) = P_RUNNABLE
        \<and> p_registers (proc k' i) = (p_registers (proc k (current k)))
            \<lparr>reg_esp := stack_top i - stack_used k (current k), reg_eax := 0\<rparr>
        \<and> (\<forall>j < NPROCS. j \<noteq> i \<and> j \<noteq> current k \<longrightarrow> proc k' j = proc k j)
        \<and> (\<forall>n. 0 < n \<and> n \<le> stack_used k (current k) \<longrightarrow>
              mem k' (stack_top i - n) = mem k (stack_top (current k) - n))
        \<and> (\<forall>a. unat (stack_used k (current k)) \<le> unat (a - (stack_top i - stack_used k (current k)))
              \<longrightarrow> mem k' a = mem k a))"
proof (cases "find_empty k")
  case None
  then show ?thesis by (simp add: sys_fork_def do_fork_full run_def Let_def upd_proc_def)
next
  case (Some i)
  let ?c = "current k"
  have c: "?c < NPROCS" and len: "length (proc_array k) = NPROCS"
    using wf by (auto simp: wf_kernelD)
  have i: "i \<noteq> ?c" "i < NPROCS" using find_empty_bounds[OF Some] live by auto
  obtain k1 where k1: "do_fork ?c k = Some (of_nat i, k1)"
    and m: "mem k1 = (\<lambda>a. if unat (a - (stack_top i - stack_used k ?c)) < unat (stack_used k ?c)
                 then mem k (a - (stack_top i - stack_top ?c)) else mem k a)"
    using do_fork_fields[OF wf c live Some fits] .
  note F = do_fork_table[OF wf c live Some k1]
  have fork: "sys_fork k = Resume ((upd_proc ?c (set_eax (of_nat i)) k1)\<lparr>current := ?c\<rparr>)"
    by (simp add: sys_fork_def k1 run_def Let_def)
  have copied: "mem k1 (stack_top i - n) = mem k (stack_top ?c - n)"
    if "0 < n" "n \<le> stack_used k ?c" for n
  proof -
    have "unat (stack_top i - n - (stack_top i - stack_used k ?c)) < unat (stack_used k ?c)"
      using that by (simp add: unat_sub word_le_nat_alt word_less_nat_alt)
    then show ?thesis by (simp add: m)
  qed
  have kept: "mem k1 a = mem k a"
    if "unat (stack_used k ?c) \<le> unat (a - (stack_top i - stack_used k ?c))" for a
    using that by (simp add: m)
  have esp: "reg_esp (p_registers (proc k ?c)) + (stack_top i - stack_top ?c)
      = stack_top i - stack_used k ?c"
    by (simp add: stack_used_def)
  show ?thesis
    using Some fork F(2,4,5,8) i c copied kept mini_slot.find_Some[OF Some] by (simp add: esp)
qed

theorem sys_fork_spec_witness:
  "\<exists>k'. sys_fork (demo ((\<lambda>_. P_EMPTY)(1 := P_RUNNABLE)) no_waiters 1) = Resume k'
     \<and> p_state (proc k' 2) = P_RUNNABLE
     \<and> mem k' (stack_top 2 - 1) = mem (demo ((\<lambda>_. P_EMPTY)(1 := P_RUNNABLE)) no_waiters 1) (stack_top 1 - 1)"
proof -
  let ?k = "demo ((\<lambda>_. P_EMPTY)(1 := P_RUNNABLE)) no_waiters 1"
  have wf: "wf_kernel ?k" by (simp add: wf_demo NPROCS_def)
  have live: "p_state (proc ?k (current ?k)) \<noteq> P_EMPTY" by (simp add: proc_demo NPROCS_def)
  have used: "stack_used ?k 1 = 8" by (simp add: stack_used_def proc_demo NPROCS_def)
  have free: "find_empty ?k = Some 2"
    by (simp add: find_empty_def proc_demo NPROCS_def numeral_eq_Suc)
  have fits: "stack_used ?k (current ?k) \<le> PROC_STACK_SIZE"
    using used by (simp add: PROC_STACK_SIZE_def)
  show ?thesis
    using sys_fork_spec[OF wf live fits] used free by auto
qed

text \<open>
  \<open>sys_thread\<close> on a table with a free slot starts a thread in the lowest one: it runs
  at the function passed in \<open>eax\<close> on an empty stack of its own, keeps the caller's other
  registers, and no process but the caller (whose \<open>eax\<close> is the new pid) and the new thread
  changes; memory does not change at all. On a full table the caller gets \<open>-1\<close>.
\<close>

lemma sys_thread_spec:
  assumes wf: "wf_kernel k" and live: "p_state (proc k (current k)) \<noteq> P_EMPTY"
  shows "case find_empty k of
      None \<Rightarrow> sys_thread k = Resume (upd_proc (current k) (set_eax (- 1)) k)
    | Some i \<Rightarrow> (\<exists>k'. sys_thread k = Resume k' \<and> current k' = current k \<and> mem k' = mem k
        \<and> (\<forall>j. 0 < j \<and> j < i \<longrightarrow> p_state (proc k j) \<noteq> P_EMPTY)
        \<and> proc k' (current k) = set_eax (of_nat i) (proc k (current k))
        \<and> p_state (proc k' i) = P_RUNNABLE \<and> waitingQ (proc k' i) = replicate NPROCS 0
        \<and> p_registers (proc k' i) = (p_registers (proc k (current k)))
            \<lparr>reg_esp := stack_top i, reg_eip := reg_eax (p_registers (proc k (current k))),
             reg_eax := 0\<rparr>
        \<and> (\<forall>j < NPROCS. j \<noteq> i \<and> j \<noteq> current k \<longrightarrow> proc k' j = proc k j))"
proof (cases "find_empty k")
  case None
  then show ?thesis
    by (simp add: sys_thread_def do_newthread_def run_def Let_def upd_proc_def)
next
  case (Some i)
  have c: "current k < NPROCS" and len: "length (proc_array k) = NPROCS"
    using wf by (auto simp: wf_kernelD)
  have i: "i \<noteq> current k" "i < NPROCS" using find_empty_bounds[OF Some] live by auto
  show ?thesis
    using Some i c len mini_slot.find_Some[OF Some]
    by (simp add: sys_thread_def do_newthread_def run_def Let_def stack_top_def)
qed

lemma sys_thread_spec_witness:
  "\<exists>k'. sys_thread (demo ((\<lambda>_. P_EMPTY)(1 := P_RUNNABLE)) no_waiters 1) = Resume k'
     \<and> reg_esp (p_registers (proc k' 2)) = stack_top 2"
proof -
  let ?k = "demo ((\<lambda>_. P_EMPTY)(1 := P_RUNNABLE)) no_waiters 1"
  have wf: "wf_kernel ?k" by (simp add: wf_demo NPROCS_def)
  have live: "p_state (proc ?k (current ?k)) \<noteq> P_EMPTY" by (simp add: proc_demo NPROCS_def)
  have free: "find_empty ?k = Some 2"
    by (simp add: find_empty_def proc_demo NPROCS_def numeral_eq_Suc)
  show ?thesis using sys_thread_spec[OF wf live] free by auto
qed

section \<open>Waiting for an exit status\<close>





lemma interrupt_wait:
  assumes "wf_kernel k" "reg_intno reg = INT_SYS_WAIT"
  defines "i \<equiv> nat (sint (reg_eax reg))" and "c \<equiv> current k"
    and "k0 \<equiv> upd_proc (current k) (\<lambda>p. p\<lparr>p_registers := reg\<rparr>) k"
  shows "sint (reg_eax reg) \<le> 0 \<or> sint (reg_eax reg) \<ge> int NPROCS \<or> i = c
      \<or> p_state (proc k i) = P_EMPTY \<Longrightarrow>
      interrupt reg k = schedule (upd_proc c (set_eax (- 1)) k0)"
    "0 < sint (reg_eax reg) \<Longrightarrow> sint (reg_eax reg) < int NPROCS \<Longrightarrow> i \<noteq> c \<Longrightarrow>
      p_state (proc k i) = P_ZOMBIE \<Longrightarrow>
      interrupt reg k = schedule (upd_proc c (set_eax (p_exit_status (proc k i)))
         (upd_proc i (\<lambda>q. q\<lparr>p_state := P_EMPTY\<rparr>) k0))"
  using assms(1,2) wf_kernelD(1,4)[OF assms(1)] wf_kernelD(6)[OF assms(1), of "current k"]
  by (auto simp: interrupt_def sys_wait_def Let_def i_def c_def k0_def)

subsection \<open>What a trap does to the table\<close>

text \<open>
  The traps other than \<open>sys_kill\<close>, by the states, the waiting queues and the registers they leave:
  \<open>leads_to k S W T k'\<close> says that \<open>k'\<close> has the states \<open>S\<close>, the queues \<open>W\<close>, and the registers of \<open>k\<close> but for
  the processes in \<open>T\<close>.
\<close>

definition states :: "kernel \<Rightarrow> nat \<Rightarrow> procstate" where "states k j = p_state (proc k j)"













subsection \<open>The waiting queues\<close>











lemma mem_update_table [simp]: "states (k\<lparr>mem := m\<rparr>) = states k" "waits_on (k\<lparr>mem := m\<rparr>) = waits_on k"
  by (simp_all add: fun_eq_iff states_def waits_on_def)









text \<open>A trap with a system-call number and an argument.\<close>

definition trap_regs :: "u32 \<Rightarrow> u32 \<Rightarrow> registers" where
  "trap_regs n a = zero_registers\<lparr>reg_intno := n, reg_eax := a\<rparr>"

lemma trap_regs [simp]: "reg_intno (trap_regs n a) = n" "reg_eax (trap_regs n a) = a"
  by (simp_all add: trap_regs_def)



text \<open>
  Waiting for a zombie delivers its exit status at once and frees its slot, so that a
  second wait for the same pid is an error: the caller stays runnable with the status in
  \<open>eax\<close>, only its registers and the state of the zombie change, and when the caller (at its
  next turn) waits again it gets \<open>-1\<close> and nothing else changes.
\<close>

lemma wait_reaps_zombie_once:
  assumes wf: "wf_kernel k" and i: "0 < i" "i < NPROCS" "i \<noteq> current k"
    and reg: "reg_intno reg = INT_SYS_WAIT" "sint (reg_eax reg) = int i"
    and zombie: "p_state (proc k i) = P_ZOMBIE"
  shows "\<exists>k'. interrupt reg k = schedule k' \<and> current k' = current k \<and> mem k' = mem k
    \<and> proc k' (current k) = (proc k (current k))\<lparr>p_registers := reg\<lparr>reg_eax := p_exit_status (proc k i)\<rparr>\<rparr>
    \<and> proc k' i = (proc k i)\<lparr>p_state := P_EMPTY\<rparr>
    \<and> (\<forall>j < NPROCS. j \<noteq> i \<and> j \<noteq> current k \<longrightarrow> proc k' j = proc k j)
    \<and> interrupt reg k' = schedule (upd_proc (current k) (\<lambda>p. p\<lparr>p_registers := reg\<lparr>reg_eax := - 1\<rparr>\<rparr>) k')"
proof -
  let ?c = "current k"
  let ?k' = "upd_proc ?c (set_eax (p_exit_status (proc k i)))
      (upd_proc i (\<lambda>q. q\<lparr>p_state := P_EMPTY\<rparr>) (upd_proc ?c (\<lambda>p. p\<lparr>p_registers := reg\<rparr>) k))"
  have c: "0 < ?c" "?c < NPROCS" and len: "length (proc_array k) = NPROCS"
    using wf by (auto simp: wf_kernelD)
  have wf': "wf_kernel ?k'" using wf c i by (intro wf_intros)
  have "interrupt reg k = schedule ?k'"
    using interrupt_wait(2)[OF wf reg(1)] reg(2) i zombie by simp
  moreover have "upd_proc ?c (set_eax (- 1)) (upd_proc ?c (\<lambda>p. p\<lparr>p_registers := reg\<rparr>) ?k')
      = upd_proc ?c (\<lambda>p. p\<lparr>p_registers := reg\<lparr>reg_eax := - 1\<rparr>\<rparr>) ?k'"
    using c len by (simp add: upd_proc_def upd_nth_def set_eax_def set_reg_def)
  then have "interrupt reg ?k' = schedule (upd_proc ?c (\<lambda>p. p\<lparr>p_registers := reg\<lparr>reg_eax := - 1\<rparr>\<rparr>) ?k')"
    using interrupt_wait(1)[OF wf' reg(1)] reg(2) i c len by simp
  ultimately show ?thesis
    by (intro exI[of _ ?k']) (use c len i in \<open>simp add: set_eax_def set_reg_def\<close>)
qed

lemma wait_reaps_zombie_once_witness:
  "\<exists>k'. interrupt (trap_regs INT_SYS_WAIT 2)
        (demo ((\<lambda>_. P_EMPTY)(1 := P_RUNNABLE, 2 := P_ZOMBIE)) no_waiters 1) = schedule k'
     \<and> p_state (proc k' 2) = P_EMPTY \<and> p_state (proc k' 1) = P_RUNNABLE"
proof -
  let ?k = "demo ((\<lambda>_. P_EMPTY)(1 := P_RUNNABLE, 2 := P_ZOMBIE)) no_waiters 1"
  have wf: "wf_kernel ?k" by (simp add: wf_demo NPROCS_def)
  show ?thesis
    using wait_reaps_zombie_once[OF wf, of 2 "trap_regs INT_SYS_WAIT 2"]
    by (auto simp: proc_demo NPROCS_def)
qed

section \<open>Killing\<close>

lemma interrupt_kill:
  assumes wf: "wf_kernel k" and "reg_intno reg = INT_SYS_KILL"
    and t: "sint (reg_eax reg) = int t" "0 < t" "t < NPROCS" "t \<noteq> current k"
    and live: "p_state (proc k t) = P_RUNNABLE \<or> p_state (proc k t) = P_BLOCKED"
  shows "\<exists>k'. interrupt reg k = Resume k' \<and> current k' = current k \<and> mem k' = mem k
    \<and> p_exit_status (proc k' t) = - 1
    \<and> (\<forall>j < NPROCS. waitingQ (proc k' j) = waitingQ (proc k j)
       \<and> p_state (proc k' j) =
          (if j = current k \<and> (\<exists>i < NPROCS. waits_on k i (current k)) then P_EMPTY
           else if waits_on k j (current k) then P_RUNNABLE
           else if j = t then P_ZOMBIE else p_state (proc k j)))"
proof -
  let ?c = "current k"
  let ?k1 = "upd_proc t (\<lambda>p. p\<lparr>p_exit_status := - 1\<rparr>)
      (upd_proc t (\<lambda>p. p\<lparr>p_state := P_ZOMBIE\<rparr>) (upd_proc ?c (\<lambda>p. p\<lparr>p_registers := reg\<rparr>) k))"
  have c: "0 < ?c" "?c < NPROCS" and len: "length (proc_array k) = NPROCS"
    using wf by (auto simp: wf_kernelD)
  have wf1: "wf_kernel ?k1" using wf c t by (intro wf_intros)
  have eq: "interrupt reg k = Resume ((wake_waiters ?c t ?k1)\<lparr>current := ?c\<rparr>)"
    using assms(2) t live len c by (auto simp: interrupt_def sys_kill_def Let_def run_def)
  have w: "waits_on ?k1 i ?c = waits_on k i ?c" for i
    using c len by (simp add: waits_on_def)
  show ?thesis
    by (intro exI conjI, rule eq)
      (use wake_waiters_fields[OF wf1 c(2) t(3)] c len t(3,4) in \<open>auto simp: w\<close>)
qed

text \<open>
  C16: \<open>sys_kill\<close> forgets the processes that wait for its target: the loop after the kill
  walks the waiting queue of the killer, not of the target. When a process \<open>w\<close> is
  blocked in a wait for the target and nobody waits for the killer, the target becomes a
  zombie and \<open>w\<close> stays blocked, on the queue of a process that will never exit.
\<close>

theorem kill_strands_waiter:
  assumes wf: "wf_kernel k" and kill: "reg_intno reg = INT_SYS_KILL" "sint (reg_eax reg) = int t"
      "0 < t" "t < NPROCS" "t \<noteq> current k"
      "p_state (proc k t) = P_RUNNABLE \<or> p_state (proc k t) = P_BLOCKED"
    and waiter: "w < NPROCS" "w \<noteq> t" "waits_on k w t" "p_state (proc k w) = P_BLOCKED"
    and nobody: "\<forall>i < NPROCS. \<not> waits_on k i (current k)"
  shows "\<exists>k'. interrupt reg k = Resume k' \<and> current k' = current k
    \<and> p_state (proc k' t) = P_ZOMBIE \<and> p_state (proc k' w) = P_BLOCKED \<and> waits_on k' w t"
proof -
  obtain k' where k': "interrupt reg k = Resume k'" "current k' = current k"
    and F: "\<forall>j < NPROCS. waitingQ (proc k' j) = waitingQ (proc k j) \<and> p_state (proc k' j) =
          (if j = current k \<and> (\<exists>i < NPROCS. waits_on k i (current k)) then P_EMPTY
           else if waits_on k j (current k) then P_RUNNABLE
           else if j = t then P_ZOMBIE else p_state (proc k j))"
    using interrupt_kill[OF wf kill] by blast
  show ?thesis
    by (intro exI[of _ k']) (use k' F[rule_format, OF kill(4)] F[rule_format, OF waiter(1)] nobody kill waiter
      in \<open>auto simp: waits_on_def\<close>)
qed

definition waiting :: "nat \<Rightarrow> nat \<Rightarrow> nat \<Rightarrow> u32 list" where
  "waiting w t i = (if i = t then (replicate NPROCS 0)[w := 1] else replicate NPROCS 0)"

lemma waits_demo:
  "i < NPROCS \<Longrightarrow> q < NPROCS \<Longrightarrow> w < NPROCS \<Longrightarrow>
     waits_on (demo st (waiting w t) c) i q = (q = t \<and> i = w)"
  by (cases "i = w") (auto simp: waits_on_def proc_demo waiting_def nth_list_update)

theorem kill_strands_waiter_witness:
  "\<exists>k'. interrupt (trap_regs INT_SYS_KILL 2)
        (demo ((\<lambda>_. P_EMPTY)(1 := P_RUNNABLE, 2 := P_RUNNABLE, 3 := P_BLOCKED)) (waiting 3 2) 1)
        = Resume k'
     \<and> p_state (proc k' 2) = P_ZOMBIE \<and> p_state (proc k' 3) = P_BLOCKED"
proof -
  let ?k = "demo ((\<lambda>_. P_EMPTY)(1 := P_RUNNABLE, 2 := P_RUNNABLE, 3 := P_BLOCKED)) (waiting 3 2) 1"
  have wf: "wf_kernel ?k"
    by (rule wf_demo) (auto simp: NPROCS_def waiting_def nth_list_update)
  have l: "1 < NPROCS" "2 < NPROCS" "3 < NPROCS" by (simp_all add: NPROCS_def)
  show ?thesis
    using kill_strands_waiter[OF wf, of "trap_regs INT_SYS_KILL 2" 2 3] l
    by (auto simp: proc_demo waits_demo)
qed

text \<open>
  The same loop goes wrong the other way round: when the target of \<open>sys_kill\<close> waits
  for its killer, the target is runnable after the call instead of dead, and the killer,
  still running, has lost its slot, which the next \<open>fork\<close> may hand out.
\<close>

lemma kill_own_waiter:
  assumes wf: "wf_kernel k" and kill: "reg_intno reg = INT_SYS_KILL" "sint (reg_eax reg) = int t"
      "0 < t" "t < NPROCS" "t \<noteq> current k"
      "p_state (proc k t) = P_RUNNABLE \<or> p_state (proc k t) = P_BLOCKED"
    and waiter: "waits_on k t (current k)"
  shows "\<exists>k'. interrupt reg k = Resume k' \<and> current k' = current k
    \<and> p_state (proc k' t) = P_RUNNABLE \<and> p_state (proc k' (current k)) = P_EMPTY"
proof -
  have c: "current k < NPROCS" using wf by (rule wf_kernelD)
  obtain k' where k': "interrupt reg k = Resume k'" "current k' = current k"
    and F: "\<forall>j < NPROCS. p_state (proc k' j) =
          (if j = current k \<and> (\<exists>i < NPROCS. waits_on k i (current k)) then P_EMPTY
           else if waits_on k j (current k) then P_RUNNABLE
           else if j = t then P_ZOMBIE else p_state (proc k j))"
    using interrupt_kill[OF wf kill] by blast
  show ?thesis
    by (intro exI[of _ k'])
      (use k' F[rule_format, OF kill(4)] F[rule_format, OF c] waiter kill in auto)
qed

lemma kill_own_waiter_witness:
  "\<exists>k'. interrupt (trap_regs INT_SYS_KILL 2)
        (demo ((\<lambda>_. P_EMPTY)(1 := P_RUNNABLE, 2 := P_BLOCKED)) (waiting 2 1) 1) = Resume k'
     \<and> p_state (proc k' 2) = P_RUNNABLE \<and> p_state (proc k' 1) = P_EMPTY"
proof -
  let ?k = "demo ((\<lambda>_. P_EMPTY)(1 := P_RUNNABLE, 2 := P_BLOCKED)) (waiting 2 1) 1"
  have wf: "wf_kernel ?k"
    by (rule wf_demo) (auto simp: NPROCS_def waiting_def nth_list_update)
  have l: "1 < NPROCS" "2 < NPROCS" by (simp_all add: NPROCS_def)
  show ?thesis
    using kill_own_waiter[OF wf, of "trap_regs INT_SYS_KILL 2" 2] l by (auto simp: proc_demo waits_demo)
qed

end
