(* ===== verification/Memos_Paging.thy ===== *)
theory Memos_Paging
  imports Kernel_Lib Scheduling X86_Registers "HOL-Library.Monad_Syntax"
begin

text \<open>
  The paging layer of MemOS (\<^verbatim>\<open>OS/WeensyOS/MemOS/k-hardware.c\<close>, \<^verbatim>\<open>kernel.c\<close>): two-level
  page tables in physical memory, the map and lookup routines, and the physical page
  allocator. The kernel runs on its own page table, which maps \<open>[0, MEMSIZE_PHYSICAL)\<close>
  to itself and nothing else, so a kernel access outside that range is a kernel page
  fault. A fault and a failed \<open>assert\<close> both end in \<open>panic\<close>: operations return
  \<^const>\<open>None\<close> for it.
\<close>

section \<open>Constants and state\<close>

type_synonym i8 = "8 word"

abbreviation "PAGESIZE \<equiv> 4096 :: u32"
abbreviation "PAGETABLE_NENTRIES \<equiv> 1024 :: nat"
abbreviation "MEMSIZE_PHYSICAL \<equiv> 0x200000 :: u32"
abbreviation "MEMSIZE_VIRTUAL \<equiv> 0x300000 :: u32"
abbreviation "PROC_START_ADDR \<equiv> 0x100000 :: u32"
abbreviation "NPAGES \<equiv> 512 :: nat"
abbreviation "PTE_P \<equiv> 1 :: u32"
abbreviation "PTE_W \<equiv> 2 :: u32"
abbreviation "PTE_U \<equiv> 4 :: u32"
abbreviation "PO_FREE \<equiv> 0 :: i8"
abbreviation "PO_RESERVED \<equiv> - 1 :: i8"
abbreviation "PO_KERNEL \<equiv> - 2 :: i8"

definition PAGENUMBER :: "u32 \<Rightarrow> nat" where "PAGENUMBER a = unat (drop_bit 12 a)"
definition PAGEADDRESS :: "nat \<Rightarrow> u32" where "PAGEADDRESS pn = push_bit 12 (of_nat pn)"
definition PAGEOFFSET :: "u32 \<Rightarrow> u32" where "PAGEOFFSET a = a AND 0xFFF"
definition PTE_ADDR :: "u32 \<Rightarrow> u32" where "PTE_ADDR e = e AND NOT 0xFFF"
definition PTE_FLAGS :: "u32 \<Rightarrow> u32" where "PTE_FLAGS e = e AND 0xFFF"
definition L1PAGEINDEX :: "u32 \<Rightarrow> nat" where "L1PAGEINDEX a = unat (drop_bit 22 a)"
definition L2PAGEINDEX :: "u32 \<Rightarrow> nat" where "L2PAGEINDEX a = unat (drop_bit 12 a AND 0x3FF)"

record physical_pageinfo =
  owner :: i8
  refcount :: i8

datatype procstate = P_FREE | P_RUNNABLE | P_BLOCKED | P_BROKEN

record process =
  p_pid :: nat
  p_registers :: registers
  p_state :: procstate
  p_pagetable :: u32

record memos =
  mem :: memory
  pageinfo :: "physical_pageinfo list"
  processes :: "process list"
  current :: nat
  kernel_pagetable :: u32
  ticks :: u32
  last_ticks :: u32
  showing :: nat

abbreviation proc :: "memos \<Rightarrow> nat \<Rightarrow> process" where
  "proc s i \<equiv> processes s ! i"

definition upd_page :: "nat \<Rightarrow> (physical_pageinfo \<Rightarrow> physical_pageinfo) \<Rightarrow> memos \<Rightarrow> memos" where
  "upd_page pn f s = s\<lparr>pageinfo := upd_nth pn f (pageinfo s)\<rparr>"

definition upd_proc :: "nat \<Rightarrow> (process \<Rightarrow> process) \<Rightarrow> memos \<Rightarrow> memos" where
  "upd_proc i f s = s\<lparr>processes := upd_nth i f (processes s)\<rparr>"

definition assert_that :: "bool \<Rightarrow> unit option" where
  "assert_that b = (if b then Some () else None)"

section \<open>Kernel accesses to physical memory\<close>

definition in_physical :: "u32 \<Rightarrow> u32 \<Rightarrow> bool" where
  "in_physical a n \<longleftrightarrow> unat a + unat n \<le> unat MEMSIZE_PHYSICAL"

definition read_entry :: "memory \<Rightarrow> u32 \<Rightarrow> nat \<Rightarrow> u32 option" where
  "read_entry m pt i =
     (if in_physical (pt + 4 * of_nat i) 4 then Some (load32 m (pt + 4 * of_nat i)) else None)"

definition write_entry :: "u32 \<Rightarrow> nat \<Rightarrow> u32 \<Rightarrow> memory \<Rightarrow> memory option" where
  "write_entry pt i v m =
     (if in_physical (pt + 4 * of_nat i) 4 then Some (store32 m (pt + 4 * of_nat i) v) else None)"

definition kernel_memset :: "u32 \<Rightarrow> i32 \<Rightarrow> u32 \<Rightarrow> memory \<Rightarrow> memory option" where
  "kernel_memset v c n m = (if in_physical v n then Some (memset m v c n) else None)"

definition kernel_memcpy :: "u32 \<Rightarrow> u32 \<Rightarrow> u32 \<Rightarrow> memory \<Rightarrow> memory option" where
  "kernel_memcpy dst src n m =
     (if in_physical dst n \<and> in_physical src n then Some (memcpy m dst src n) else None)"

section \<open>virtual_memory_map, virtual_memory_lookup\<close>

text \<open>
  The loop keeps the level-2 table of the last level-1 index it looked up; \<open>c\<close> is
  \<^const>\<open>None\<close> for the initial \<open>l1pageindex = -1\<close>.
\<close>

definition l2_table :: "u32 \<Rightarrow> u32 \<Rightarrow> u32 \<Rightarrow> (nat \<times> u32) option \<Rightarrow> memory \<Rightarrow> (nat \<times> u32) option" where
  "l2_table pt va perm c m =
     (if map_option fst c = Some (L1PAGEINDEX va) then c
      else do {
        l1pte \<leftarrow> read_entry m pt (L1PAGEINDEX va);
        assert_that (l1pte AND PTE_P \<noteq> 0);
        assert_that (PTE_ADDR l1pte < MEMSIZE_VIRTUAL);
        assert_that (perm AND PTE_W \<noteq> 0 \<longrightarrow> l1pte AND PTE_W \<noteq> 0);
        assert_that (perm AND PTE_U \<noteq> 0 \<longrightarrow> l1pte AND PTE_U \<noteq> 0);
        Some (L1PAGEINDEX va, PTE_ADDR l1pte) })"

fun map_loop :: "u32 \<Rightarrow> u32 \<Rightarrow> u32 \<Rightarrow> nat \<Rightarrow> u32 \<Rightarrow> (nat \<times> u32) option \<Rightarrow> memory \<Rightarrow> memory option" where
  "map_loop pt va pa 0 perm c m = Some m"
| "map_loop pt va pa (Suc n) perm c m = do {
     c' \<leftarrow> l2_table pt va perm c m;
     m' \<leftarrow> write_entry (snd c') (L2PAGEINDEX va)
            (if perm AND PTE_P \<noteq> 0 then pa OR perm else perm) m;
     map_loop pt (va + PAGESIZE) (pa + PAGESIZE) n perm (Some c') m' }"

definition virtual_memory_map :: "u32 \<Rightarrow> u32 \<Rightarrow> u32 \<Rightarrow> u32 \<Rightarrow> u32 \<Rightarrow> memory \<Rightarrow> memory option" where
  "virtual_memory_map pagetable va pa sz perm m = do {
     assert_that (PAGEOFFSET va = 0);
     assert_that (PAGEOFFSET sz = 0);
     assert_that (va \<le> va + sz \<or> va + sz = 0);
     assert_that (perm AND PTE_P \<noteq> 0 \<longrightarrow>
       PAGEOFFSET pa = 0 \<and> pa \<le> pa + sz \<and> pa + sz \<le> MEMSIZE_PHYSICAL);
     assert_that (perm < 0x1000);
     assert_that (PAGEOFFSET pagetable = 0);
     map_loop pagetable va pa (PAGENUMBER sz) perm None m }"

record vamapping =
  vm_pn :: int
  vm_pa :: u32
  vm_perm :: u32

definition virtual_memory_lookup :: "u32 \<Rightarrow> u32 \<Rightarrow> memory \<Rightarrow> vamapping option" where
  "virtual_memory_lookup pagetable va m = do {
     pe1 \<leftarrow> read_entry m pagetable (L1PAGEINDEX va);
     pe \<leftarrow> (if pe1 AND PTE_P \<noteq> 0
            then do { e \<leftarrow> read_entry m (PTE_ADDR pe1) (L2PAGEINDEX va);
                      Some (e AND (pe1 OR NOT (PTE_W OR PTE_U))) }
            else Some pe1);
     Some (if pe AND PTE_P \<noteq> 0
           then \<lparr>vm_pn = int (PAGENUMBER pe), vm_pa = PTE_ADDR pe + PAGEOFFSET va,
                 vm_perm = PTE_FLAGS pe\<rparr>
           else \<lparr>vm_pn = - 1, vm_pa = - 1, vm_perm = 0\<rparr>) }"

section \<open>Physical pages\<close>

definition physical_memory_isreserved :: "u32 \<Rightarrow> bool" where
  "physical_memory_isreserved pa \<longleftrightarrow> pa = 0 \<or> (0xA0000 \<le> pa \<and> pa < 0x100000)"

definition find_free_physic_page :: "i8 \<Rightarrow> memos \<Rightarrow> u32 \<times> memos" where
  "find_free_physic_page ow s =
     (case scan (\<lambda>i. owner (pageinfo s ! i) = PO_FREE) 0 NPAGES of
        Some i \<Rightarrow> (PAGEADDRESS i, upd_page i (\<lambda>p. p\<lparr>refcount := 1, owner := ow\<rparr>) s)
      | None \<Rightarrow> (- 1, s))"

definition physical_page_alloc :: "u32 \<Rightarrow> i8 \<Rightarrow> memos \<Rightarrow> i32 \<times> memos" where
  "physical_page_alloc addr ow s =
     (if addr AND 0xFFF \<noteq> 0 \<or> MEMSIZE_PHYSICAL \<le> addr
         \<or> refcount (pageinfo s ! PAGENUMBER addr) \<noteq> 0
      then (- 1, s)
      else (0, upd_page (PAGENUMBER addr) (\<lambda>p. p\<lparr>refcount := 1, owner := ow\<rparr>) s))"

text \<open>
  The page number may come from any page-table entry; an entry beyond the end of
  \<^verbatim>\<open>pageinfo\<close> would make the code read past the array, which is outside the model.
\<close>

definition release_page :: "i8 \<Rightarrow> u32 \<Rightarrow> memos \<Rightarrow> memos option" where
  "release_page ow addr s =
     (let pn = PAGENUMBER addr in
      if NPAGES \<le> pn then None
      else if owner (pageinfo s ! pn) = ow \<and> 0 < sint (refcount (pageinfo s ! pn))
      then let s1 = upd_page pn (\<lambda>p. p\<lparr>refcount := refcount p - 1\<rparr>) s
           in Some (if refcount (pageinfo s1 ! pn) = 0
                    then upd_page pn (\<lambda>p. p\<lparr>owner := PO_FREE\<rparr>) s1 else s1)
      else Some s)"

fun release_entries :: "i8 \<Rightarrow> u32 \<Rightarrow> nat list \<Rightarrow> memos \<Rightarrow> memos option" where
  "release_entries ow pt [] s = Some s"
| "release_entries ow pt (i # is) s = do {
     e \<leftarrow> read_entry (mem s) pt i;
     s' \<leftarrow> release_page ow (PTE_ADDR e) s;
     release_entries ow pt is s' }"

definition release_pagetable :: "i8 \<Rightarrow> u32 \<Rightarrow> memos \<Rightarrow> memos option" where
  "release_pagetable ow pt s = do {
     s' \<leftarrow> release_entries ow pt [PAGENUMBER PROC_START_ADDR..<PAGENUMBER MEMSIZE_VIRTUAL] s;
     release_page ow pt s' }"

definition copy_pagetable :: "u32 \<Rightarrow> i8 \<Rightarrow> memos \<Rightarrow> (u32 \<times> memos) option" where
  "copy_pagetable pagedir ow s =
     (let (newpagedir, s1) = find_free_physic_page ow s in
      if newpagedir = - 1 then Some (- 1, s1)
      else let (newpagetable, s2) = find_free_physic_page ow s1 in
      if newpagetable = - 1 then Some (- 1, s2)
      else do {
        m1 \<leftarrow> kernel_memset newpagedir 0 PAGESIZE (mem s2);
        e \<leftarrow> read_entry m1 pagedir 0;
        m2 \<leftarrow> write_entry newpagedir 0 (newpagetable OR PTE_FLAGS e) m1;
        e' \<leftarrow> read_entry m2 pagedir 0;
        m3 \<leftarrow> kernel_memcpy newpagetable (PTE_ADDR e') PAGESIZE m2;
        Some (newpagedir, s2\<lparr>mem := m3\<rparr>) })"

section \<open>Addresses and pages\<close>

lemma PAGENUMBER_div: "PAGENUMBER a = unat a div 4096"
  by (simp add: PAGENUMBER_def drop_bit_eq_div unat_div)

lemma and_FFF: "unat (a AND 0xFFF :: u32) = unat a mod 4096"
proof -
  have "a AND 0xFFF = take_bit 12 a" by (simp add: take_bit_eq_mask mask_eq_exp_minus_1)
  then show ?thesis by (simp add: take_bit_eq_mod unat_mod)
qed

lemma PAGEOFFSET_mod: "unat (PAGEOFFSET a) = unat a mod 4096"
  by (simp add: PAGEOFFSET_def and_FFF)

lemma PAGEOFFSET_0: "PAGEOFFSET a = 0 \<longleftrightarrow> unat a mod 4096 = 0"
  using PAGEOFFSET_mod[of a] by (metis unat_0 unat_eq_zero)

lemma PTE_ADDR_plus: "PTE_ADDR e + PAGEOFFSET e = e"
proof -
  have "PTE_ADDR e + PAGEOFFSET e = PTE_ADDR e OR PAGEOFFSET e"
    by (rule disjunctive_add) (auto simp: PTE_ADDR_def PAGEOFFSET_def bit_simps)
  also have "\<dots> = e" by (rule bit_word_eqI) (auto simp: PTE_ADDR_def PAGEOFFSET_def bit_simps)
  finally show ?thesis .
qed

lemma PTE_ADDR_unat: "unat (PTE_ADDR e) = unat e - unat e mod 4096"
proof -
  have "PTE_ADDR e = e - PAGEOFFSET e" using PTE_ADDR_plus[of e] by (simp add: algebra_simps)
  moreover have "PAGEOFFSET e \<le> e"
    by (simp add: word_le_nat_alt PAGEOFFSET_mod)
  ultimately show ?thesis by (simp add: unat_sub PAGEOFFSET_mod)
qed

lemma PAGEOFFSET_PTE_ADDR [simp]: "PAGEOFFSET (PTE_ADDR e) = 0"
  by (simp add: PAGEOFFSET_0 PTE_ADDR_unat minus_mod_eq_mult_div)

lemma PAGENUMBER_PTE_ADDR [simp]: "PAGENUMBER (PTE_ADDR e) = PAGENUMBER e"
  by (simp add: PAGENUMBER_div PTE_ADDR_unat minus_mod_eq_mult_div)

lemma PAGEADDRESS_unat: "pn < 1048576 \<Longrightarrow> unat (PAGEADDRESS pn) = pn * 4096"
  by (simp add: PAGEADDRESS_def push_bit_eq_mult unat_word_ariths unat_of_nat)

lemma PAGEADDRESS_inverse [simp]: "pn < 1048576 \<Longrightarrow> PAGENUMBER (PAGEADDRESS pn) = pn"
  by (simp add: PAGENUMBER_div PAGEADDRESS_unat)

lemma PAGEADDRESS_aligned [simp]: "pn < 1048576 \<Longrightarrow> PAGEOFFSET (PAGEADDRESS pn) = 0"
  by (simp add: PAGEOFFSET_0 PAGEADDRESS_unat)

lemma aligned_unat: "PAGEOFFSET a = 0 \<Longrightarrow> unat a = PAGENUMBER a * 4096"
  by (auto simp: PAGEOFFSET_0 PAGENUMBER_div)

lemma aligned_eq_iff: "PAGEOFFSET a = 0 \<Longrightarrow> PAGEOFFSET b = 0 \<Longrightarrow> a = b \<longleftrightarrow> PAGENUMBER a = PAGENUMBER b"
  by (metis aligned_unat word_unat_eq_iff)

lemma PAGENUMBER_less [simp]: "PAGENUMBER a < 1048576"
  unfolding PAGENUMBER_div by (rule less_mult_imp_div_less) simp

lemma aligned_PAGEADDRESS: "PAGEOFFSET a = 0 \<Longrightarrow> PAGEADDRESS (PAGENUMBER a) = a"
  by (simp add: aligned_eq_iff)

lemma page_byte:
  assumes "PAGEOFFSET p = 0" "k < 4096"
  shows "unat (p + of_nat k) = PAGENUMBER p * 4096 + k" "PAGENUMBER (p + of_nat k) = PAGENUMBER p"
proof -
  have "unat p = PAGENUMBER p * 4096" by (rule aligned_unat[OF assms(1)])
  moreover have "PAGENUMBER p * 4096 + k < 4294967296"
    using PAGENUMBER_less[of p] assms(2) by linarith
  ultimately show u: "unat (p + of_nat k) = PAGENUMBER p * 4096 + k"
    using assms(2) by (simp add: unat_word_ariths unat_of_nat)
  then show "PAGENUMBER (p + of_nat k) = PAGENUMBER p" using assms(2) by (simp add: PAGENUMBER_div)
qed

lemma page_diff:
  assumes "PAGEOFFSET p = 0"
  shows "unat (a - p) < 4096 \<longleftrightarrow> PAGENUMBER a = PAGENUMBER p"
proof
  assume "unat (a - p) < 4096"
  then show "PAGENUMBER a = PAGENUMBER p"
    using page_byte(2)[OF assms, of "unat (a - p)"] by simp
next
  assume "PAGENUMBER a = PAGENUMBER p"
  then have "unat a div 4096 = PAGENUMBER p" by (simp add: PAGENUMBER_div)
  then have "unat p \<le> unat a" "unat a < unat p + 4096"
    using aligned_unat[OF assms] div_mult_mod_eq[of "unat a" 4096]
      mod_less_divisor[of 4096 "unat a"] by linarith+
  then show "unat (a - p) < 4096" by (simp add: unat_sub word_le_nat_alt)
qed

section \<open>Page-table entries\<close>

definition pte :: "memory \<Rightarrow> u32 \<Rightarrow> nat \<Rightarrow> u32" where
  "pte m pt i = load32 m (pt + 4 * of_nat i)"

text \<open>Two memories agree outside one page.\<close>

definition agree_except :: "nat \<Rightarrow> memory \<Rightarrow> memory \<Rightarrow> bool" where
  "agree_except pn m m' \<longleftrightarrow> (\<forall>a. PAGENUMBER a \<noteq> pn \<longrightarrow> m' a = m a)"

lemma page_byte_neq:
  assumes "PAGEOFFSET p = 0" "PAGEOFFSET q = 0" "k < 4096" "l < 4096" "p \<noteq> q \<or> k \<noteq> l"
  shows "p + of_nat k \<noteq> q + of_nat l"
proof
  assume eq: "p + of_nat k = q + of_nat l"
  then have "PAGENUMBER (p + of_nat k) = PAGENUMBER (q + of_nat l)" by (rule arg_cong)
  then have "PAGENUMBER p = PAGENUMBER q"
    unfolding page_byte(2)[OF assms(1,3)] page_byte(2)[OF assms(2,4)] .
  then have "p = q" using assms by (simp add: aligned_eq_iff)
  moreover have "unat (p + of_nat k) = unat (q + of_nat l)" using eq by (rule arg_cong)
  then have "k = l"
    unfolding page_byte(1)[OF assms(1,3)] page_byte(1)[OF assms(2,4)] using \<open>p = q\<close> by simp
  ultimately show False using assms(5) by blast
qed

text \<open>The four bytes of an entry.\<close>

lemma entry_byte:
  assumes "b < 4"
  shows "(pt :: u32) + 4 * of_nat i + of_nat b = pt + of_nat (4 * i + b)"
  by simp

lemma entry_page:
  assumes "PAGEOFFSET pt = 0" "i < 1024" "b < 4"
  shows "PAGENUMBER (pt + 4 * of_nat i + of_nat b) = PAGENUMBER pt"
  unfolding entry_byte[OF assms(3)] by (rule page_byte(2)[OF assms(1)]) (use assms in simp)

lemma entry_neq:
  assumes "PAGEOFFSET pt = 0" "PAGEOFFSET pt' = 0" "i < 1024" "j < 1024" "pt \<noteq> pt' \<or> i \<noteq> j"
    "b < 4" "c < 4"
  shows "pt + 4 * of_nat i + of_nat b \<noteq> pt' + 4 * of_nat j + of_nat c"
  unfolding entry_byte[OF assms(6)] entry_byte[OF assms(7)]
proof (rule page_byte_neq[OF assms(1,2)])
  show "pt \<noteq> pt' \<or> 4 * i + b \<noteq> 4 * j + c"
  proof (rule ccontr)
    assume "\<not> ?thesis"
    then have "pt = pt'" "4 * i + b = 4 * j + c" by auto
    then have "(4 * i + b) div 4 = (4 * j + c) div 4" by simp
    then show False using assms(5-7) \<open>pt = pt'\<close> by simp
  qed
qed (use assms in simp_all)

lemma load32_bytes_cong:
  assumes that: "\<And>b. b < 4 \<Longrightarrow> m (a + of_nat b) = m' (a' + of_nat b)"
  shows "load32 m a = load32 m' a'"
  using that[of 0] that[of 1] that[of 2] that[of 3] by (simp add: load32_def)

lemma store32_bytes_other:
  assumes that: "\<And>c. c < 4 \<Longrightarrow> x \<noteq> a + of_nat c"
  shows "store32 m a v x = m x"
  using that[of 0] that[of 1] that[of 2] that[of 3] by (simp add: store32_def)

lemma pte_cong:
  assumes "PAGEOFFSET pt = 0" "i < 1024" "\<And>a. PAGENUMBER a = PAGENUMBER pt \<Longrightarrow> m a = m' a"
  shows "pte m pt i = pte m' pt i"
  unfolding pte_def by (rule load32_bytes_cong) (rule assms(3), rule entry_page[OF assms(1,2)])

lemma pte_agree:
  "agree_except pn m m' \<Longrightarrow> PAGEOFFSET pt = 0 \<Longrightarrow> i < 1024 \<Longrightarrow> PAGENUMBER pt \<noteq> pn \<Longrightarrow>
     pte m' pt i = pte m pt i"
  by (rule pte_cong) (auto simp: agree_except_def)

lemma agree_store:
  assumes "PAGEOFFSET pt = 0" "i < 1024"
  shows "agree_except (PAGENUMBER pt) m (store32 m (pt + 4 * of_nat i) v)"
  using entry_page[OF assms] by (auto simp: agree_except_def intro!: store32_bytes_other)

lemma pte_store:
  assumes "PAGEOFFSET pt = 0" "PAGEOFFSET pt' = 0" "i < 1024" "j < 1024"
  shows "pte (store32 m (pt + 4 * of_nat i) v) pt' j = (if pt = pt' \<and> i = j then v else pte m pt' j)"
proof (cases "pt = pt' \<and> i = j")
  case False
  have "pte (store32 m (pt + 4 * of_nat i) v) pt' j = pte m pt' j"
    unfolding pte_def by (intro load32_bytes_cong store32_bytes_other entry_neq) (use assms False in auto)
  with False show ?thesis by auto
qed (simp add: pte_def)

lemma page_range: "PAGEOFFSET p = 0 \<Longrightarrow> in_physical p PAGESIZE \<longleftrightarrow> PAGENUMBER p < NPAGES"
  by (auto simp: in_physical_def aligned_unat)

lemma entry_range:
  "PAGEOFFSET pt = 0 \<Longrightarrow> i < 1024 \<Longrightarrow> in_physical (pt + 4 * of_nat i) 4 \<longleftrightarrow> PAGENUMBER pt < NPAGES"
  using page_byte(1)[of pt "4 * i"] by (simp add: in_physical_def) linarith

lemma read_entry_eq:
  "PAGEOFFSET pt = 0 \<Longrightarrow> i < 1024 \<Longrightarrow>
     read_entry m pt i = (if PAGENUMBER pt < NPAGES then Some (pte m pt i) else None)"
  by (simp add: read_entry_def entry_range pte_def)

lemma write_entry_eq:
  "PAGEOFFSET pt = 0 \<Longrightarrow> i < 1024 \<Longrightarrow>
     write_entry pt i v m = (if PAGENUMBER pt < NPAGES then Some (store32 m (pt + 4 * of_nat i) v) else None)"
  by (simp add: write_entry_def entry_range)

lemma memset_page:
  assumes "PAGEOFFSET p = 0"
  shows "agree_except (PAGENUMBER p) m (memset m p 0 PAGESIZE)"
    "i < 1024 \<Longrightarrow> pte (memset m p 0 PAGESIZE) p i = 0"
proof -
  have eq: "memset m p 0 PAGESIZE a = (if PAGENUMBER a = PAGENUMBER p then 0 else m a)" for a
    using page_diff[OF assms, of a] by (simp add: memset_def memset_loop_eq del: memset_loop.simps)
  then show "agree_except (PAGENUMBER p) m (memset m p 0 PAGESIZE)" by (simp add: agree_except_def)
  assume "i < 1024"
  then have "pte (memset m p 0 PAGESIZE) p i = load32 (\<lambda>_. 0) (p + 4 * of_nat i)"
    unfolding pte_def by (intro load32_bytes_cong) (simp add: eq entry_page[OF assms])
  then show "pte (memset m p 0 PAGESIZE) p i = 0" by (simp add: load32_def)
qed

lemma memcpy_page:
  assumes "PAGEOFFSET d = 0" "PAGEOFFSET s = 0" "d \<noteq> s"
  shows "agree_except (PAGENUMBER d) m (memcpy m d s PAGESIZE)"
    "i < 1024 \<Longrightarrow> pte (memcpy m d s PAGESIZE) d i = pte m s i"
    "k < 4096 \<Longrightarrow> memcpy m d s PAGESIZE (d + of_nat k) = m (s + of_nat k)"
proof -
  have "\<not> unat (d - s) < 4096"
    using page_diff[OF assms(2), of d] assms by (simp add: aligned_eq_iff)
  then have eq: "memcpy m d s PAGESIZE a = (if PAGENUMBER a = PAGENUMBER d then m (s + (a - d)) else m a)" for a
    using page_diff[OF assms(1), of a] by (simp add: memcpy_def memcpy_loop_eq del: memcpy_loop.simps)
  then show "agree_except (PAGENUMBER d) m (memcpy m d s PAGESIZE)" by (simp add: agree_except_def)
  show byte: "memcpy m d s PAGESIZE (d + of_nat k) = m (s + of_nat k)" if "k < 4096" for k
    using that by (simp add: eq page_byte(2)[OF assms(1)])
  assume i: "i < 1024"
  show "pte (memcpy m d s PAGESIZE) d i = pte m s i"
    unfolding pte_def
  proof (rule load32_bytes_cong)
    fix b :: nat assume b: "b < 4"
    show "memcpy m d s PAGESIZE (d + 4 * of_nat i + of_nat b) = m (s + 4 * of_nat i + of_nat b)"
      unfolding entry_byte[OF b] by (rule byte) (use b i in simp)
  qed
qed

section \<open>Mapping and looking up\<close>

text \<open>
  All virtual addresses of the system lie in the first 4 MB, which one level-2 table
  covers: the table behind entry 0 of the level-1 table.
\<close>

lemma L1_index: "PAGENUMBER va < 1024 \<Longrightarrow> L1PAGEINDEX va = 0"
proof -
  assume "PAGENUMBER va < 1024"
  then have "unat va div 4096 < 1024" by (simp add: PAGENUMBER_div)
  then have "unat va < 1024 * 4096" by (simp add: div_less_iff_less_mult)
  then show ?thesis by (simp add: L1PAGEINDEX_def drop_bit_eq_div unat_div)
qed

lemma L2_index: "PAGENUMBER va < 1024 \<Longrightarrow> L2PAGEINDEX va = PAGENUMBER va"
proof -
  assume "PAGENUMBER va < 1024"
  moreover have "drop_bit 12 va AND 0x3FF = take_bit 10 (drop_bit 12 va)"
    by (simp add: take_bit_eq_mask mask_eq_exp_minus_1)
  then have "L2PAGEINDEX va = PAGENUMBER va mod 1024"
    by (simp only: L2PAGEINDEX_def PAGENUMBER_def unsigned_take_bit_eq) (simp add: take_bit_eq_mod)
  ultimately show ?thesis by simp
qed

lemma assert_that_bind [simp]: "Option.bind (assert_that b) f = (if b then f () else None)"
  by (simp add: assert_that_def)

text \<open>The checks on the level-1 entry that allow a mapping with \<open>perm\<close>.\<close>

definition l1_allows :: "u32 \<Rightarrow> u32 \<Rightarrow> bool" where
  "l1_allows e perm \<longleftrightarrow> e AND PTE_P \<noteq> 0 \<and> PTE_ADDR e < MEMSIZE_VIRTUAL
     \<and> (perm AND PTE_W \<noteq> 0 \<longrightarrow> e AND PTE_W \<noteq> 0) \<and> (perm AND PTE_U \<noteq> 0 \<longrightarrow> e AND PTE_U \<noteq> 0)"

definition new_entry :: "u32 \<Rightarrow> u32 \<Rightarrow> nat \<Rightarrow> u32" where
  "new_entry pa perm k = (if perm AND PTE_P \<noteq> 0 then (pa + of_nat k * PAGESIZE) OR perm else perm)"

lemma new_entry_Suc: "new_entry (pa + PAGESIZE) perm k = new_entry pa perm (Suc k)"
  by (simp add: new_entry_def algebra_simps)

lemma PAGENUMBER_next:
  assumes "PAGENUMBER va = v" "PAGEOFFSET va = 0" "v < 1024"
  shows "PAGENUMBER (va + PAGESIZE) = Suc v \<and> PAGEOFFSET (va + PAGESIZE) = 0"
proof -
  have "unat va = v * 4096" using aligned_unat[OF assms(2)] assms(1) by simp
  then have "unat (va + PAGESIZE) = Suc v * 4096"
    using assms(3) by (simp add: unat_word_ariths)
  then show ?thesis by (simp add: PAGENUMBER_div PAGEOFFSET_0)
qed

lemma l2_table_first:
  assumes "PAGEOFFSET pt = 0" "PAGENUMBER pt < NPAGES" "PAGENUMBER va < 1024"
    "l1_allows (pte m pt 0) perm" "c = None \<or> c = Some (0, PTE_ADDR (pte m pt 0))"
  shows "l2_table pt va perm c m = Some (0, PTE_ADDR (pte m pt 0))"
  using assms read_entry_eq[OF assms(1), of 0 m]
  by (auto simp: l2_table_def L1_index l1_allows_def)

lemma map_loop_eq:
  assumes "PAGEOFFSET pt = 0" "PAGENUMBER pt < NPAGES" "l1_allows (pte m pt 0) perm"
    "PAGENUMBER (pte m pt 0) < NPAGES" "PAGENUMBER (pte m pt 0) \<noteq> PAGENUMBER pt"
    "c = None \<or> c = Some (0, PTE_ADDR (pte m pt 0))"
    "PAGEOFFSET va = 0" "PAGENUMBER va = v" "v + n \<le> 1024"
  shows "\<exists>m'. map_loop pt va pa n perm c m = Some m'
    \<and> agree_except (PAGENUMBER (pte m pt 0)) m m'
    \<and> (\<forall>j < 1024. pte m' (PTE_ADDR (pte m pt 0)) j =
          (if v \<le> j \<and> j < v + n then new_entry pa perm (j - v) else pte m (PTE_ADDR (pte m pt 0)) j))"
  using assms
proof (induction n arbitrary: va pa v c m)
  case 0
  then show ?case by (auto simp: agree_except_def)
next
  case (Suc n)
  let ?e = "pte m pt 0"
  let ?l2 = "PTE_ADDR ?e"
  let ?v = "if perm AND PTE_P \<noteq> 0 then pa OR perm else perm"
  let ?m1 = "store32 m (?l2 + 4 * of_nat v) ?v"
  have v: "v < 1024" using Suc.prems by simp
  have "?l2 \<noteq> pt" using Suc.prems(5) PAGENUMBER_PTE_ADDR[of ?e] by metis
  then have e1: "pte ?m1 pt 0 = ?e"
    using Suc.prems(1) v by (subst pte_store) simp_all
  have ag: "agree_except (PAGENUMBER ?e) m ?m1"
    using agree_store[of ?l2 v m ?v] v by simp
  note nxt = PAGENUMBER_next[OF Suc.prems(8,7) v]
  obtain m' where m': "map_loop pt (va + PAGESIZE) (pa + PAGESIZE) n perm (Some (0, ?l2)) ?m1 = Some m'"
    "agree_except (PAGENUMBER ?e) ?m1 m'"
    "\<forall>j < 1024. pte m' ?l2 j = (if Suc v \<le> j \<and> j < Suc v + n
       then new_entry (pa + PAGESIZE) perm (j - Suc v) else pte ?m1 ?l2 j)"
    using Suc.IH[of ?m1 "Some (0, ?l2)" "va + PAGESIZE" "Suc v" "pa + PAGESIZE"] Suc.prems nxt
    unfolding e1 by auto
  have "map_loop pt va pa (Suc n) perm c m = Some m'"
    using l2_table_first[OF Suc.prems(1,2) _ Suc.prems(3,6), of va] v Suc.prems(4,8) m'(1)
    by (simp add: L2_index write_entry_eq)
  moreover have "agree_except (PAGENUMBER ?e) m m'"
    using ag m'(2) by (simp add: agree_except_def)
  moreover have "pte m' ?l2 j =
      (if v \<le> j \<and> j < v + Suc n then new_entry pa perm (j - v) else pte m ?l2 j)" if "j < 1024" for j
  proof -
    consider "j = v" | "Suc v \<le> j" "j < Suc v + n" | "j < v \<or> v + Suc n \<le> j" by linarith
    then show ?thesis
      using m'(3) that v
      by cases (auto simp: pte_store new_entry_Suc Suc_diff_Suc new_entry_def[of pa perm 0] not_less)
  qed
  ultimately show ?case by blast
qed

lemma entry_parts:
  assumes "PAGEOFFSET p = 0" "f < 0x1000"
  shows "PTE_ADDR (p OR f) = p" "PTE_FLAGS (p OR f) = f" "PAGENUMBER (p OR f) = PAGENUMBER p"
    "p OR f = p + f"
proof -
  have f: "f AND 0xFFF = f"
  proof (rule word_unat_eq_iff[THEN iffD2])
    have "unat f < 4096" using assms(2) by (simp add: word_less_nat_alt)
    then show "unat (f AND 0xFFF) = unat f" by (simp only: and_FFF mod_less)
  qed
  have p: "p AND 0xFFF = 0" using assms(1) by (simp add: PAGEOFFSET_def)
  have "p AND f = p AND (f AND 0xFFF)" by (simp only: f)
  also have "\<dots> = (p AND 0xFFF) AND f" by (simp only: and.assoc and.commute and.left_commute)
  finally have "p AND f = 0" by (simp add: p)
  then show plus: "p OR f = p + f" using word_plus_and_or[of p f] by simp
  have flags: "(p OR f) AND 0xFFF = f" using f p by (simp add: word_ao_dist)
  then show "PTE_FLAGS (p OR f) = f" by (simp add: PTE_FLAGS_def)
  show "PTE_ADDR (p OR f) = p"
    using PTE_ADDR_plus[of "p OR f"] flags plus by (simp add: PAGEOFFSET_def)
  then show "PAGENUMBER (p OR f) = PAGENUMBER p" by (metis PAGENUMBER_PTE_ADDR)
qed

text \<open>A level-1 entry that withholds nothing leaves the level-2 permissions as they are.\<close>

definition full_access :: "u32 \<Rightarrow> bool" where
  "full_access e \<longleftrightarrow> e AND 7 = 7"

lemma full_accessD:
  assumes "full_access e"
  shows "e AND 1 = 1" "e AND 2 = 2" "e AND 4 = 4" "e OR - 7 = - 1"
proof -
  have sub: "e AND x = x" if "7 AND x = x" for x
    using assms that by (metis and.assoc full_access_def)
  show "e AND 1 = 1" "e AND 2 = 2" "e AND 4 = 4" by (rule sub, simp)+
  have "e AND 6 = 6" by (rule sub) simp
  moreover have "e OR (e AND 6) = e" by (rule bit_word_eqI) (auto simp: bit_simps)
  ultimately have "e OR 6 = e" by simp
  then have "e OR NOT 6 = e OR (6 OR NOT 6)" by (simp only: or.assoc[symmetric])
  then show "e OR - 7 = - 1" by simp
qed

text \<open>
  What a page table looks like to the two routines: a page-aligned level-1 table whose
  entry 0 names a level-2 table in another physical page, with all permissions, and whose
  other entries are not present.
\<close>

definition wf_table :: "u32 \<Rightarrow> memory \<Rightarrow> bool" where
  "wf_table pt m \<longleftrightarrow> PAGEOFFSET pt = 0 \<and> PAGENUMBER pt < NPAGES \<and> full_access (pte m pt 0)
     \<and> PAGENUMBER (pte m pt 0) < NPAGES \<and> PAGENUMBER (pte m pt 0) \<noteq> PAGENUMBER pt
     \<and> (\<forall>i. 0 < i \<and> i < 1024 \<longrightarrow> pte m pt i AND PTE_P = 0)"

definition l2_of :: "memory \<Rightarrow> u32 \<Rightarrow> u32" where
  "l2_of m pt = PTE_ADDR (pte m pt 0)"

definition vam_of :: "u32 \<Rightarrow> u32 \<Rightarrow> vamapping" where
  "vam_of e va = (if e AND PTE_P \<noteq> 0
     then \<lparr>vm_pn = int (PAGENUMBER e), vm_pa = PTE_ADDR e + PAGEOFFSET va, vm_perm = PTE_FLAGS e\<rparr>
     else \<lparr>vm_pn = - 1, vm_pa = - 1, vm_perm = 0\<rparr>)"

lemma l2_of_aligned [simp]: "PAGEOFFSET (l2_of m pt) = 0" "PAGENUMBER (l2_of m pt) = PAGENUMBER (pte m pt 0)"
  by (simp_all add: l2_of_def)

lemma wf_table_allows:
  "wf_table pt m \<Longrightarrow> l1_allows (pte m pt 0) perm"
proof -
  assume wf: "wf_table pt m"
  have "unat (PTE_ADDR (pte m pt 0)) = PAGENUMBER (pte m pt 0) * 4096"
    using aligned_unat[of "PTE_ADDR (pte m pt 0)"] by simp
  then have "PTE_ADDR (pte m pt 0) < MEMSIZE_VIRTUAL"
    using wf by (simp add: wf_table_def word_less_nat_alt)
  then show ?thesis
    using wf full_accessD[of "pte m pt 0"] by (simp add: l1_allows_def wf_table_def)
qed

lemma lookup_eq:
  assumes "wf_table pt m" "PAGENUMBER va < 1024"
  shows "virtual_memory_lookup pt va m = Some (vam_of (pte m (l2_of m pt) (PAGENUMBER va)) va)"
proof -
  have full: "full_access (pte m pt 0)" using assms(1) by (simp add: wf_table_def)
  have "read_entry m pt 0 = Some (pte m pt 0)"
    using assms(1) by (simp add: read_entry_eq wf_table_def)
  moreover have "read_entry m (l2_of m pt) (PAGENUMBER va) = Some (pte m (l2_of m pt) (PAGENUMBER va))"
    using assms by (simp add: read_entry_eq wf_table_def)
  ultimately show ?thesis
    using full_accessD(1)[OF full] assms(2)
    by (simp add: virtual_memory_lookup_def L1_index L2_index full_accessD(4)[OF full] l2_of_def[symmetric] vam_of_def)
qed

lemma map_eq:
  assumes wf: "wf_table pt m" and va: "PAGEOFFSET va = 0" "PAGENUMBER va + n \<le> 1024"
    and pa: "perm AND PTE_P \<noteq> 0 \<Longrightarrow> PAGEOFFSET pa = 0 \<and> PAGENUMBER pa + n \<le> NPAGES"
    and perm: "perm < 0x1000"
  shows "\<exists>m'. virtual_memory_map pt va pa (of_nat n * PAGESIZE) perm m = Some m'
    \<and> agree_except (PAGENUMBER (pte m pt 0)) m m'
    \<and> (\<forall>j < 1024. pte m' (l2_of m pt) j = (if PAGENUMBER va \<le> j \<and> j < PAGENUMBER va + n
          then new_entry pa perm (j - PAGENUMBER va) else pte m (l2_of m pt) j))"
proof -
  have n: "n \<le> 1024" using va(2) by simp
  have sz: "unat (of_nat n * PAGESIZE :: u32) = n * 4096"
    using n by (simp add: unat_word_ariths unat_of_nat)
  have uva: "unat va = PAGENUMBER va * 4096" by (rule aligned_unat[OF va(1)])
  have "unat (va + of_nat n * PAGESIZE) = (PAGENUMBER va + n) * 4096"
    using va(2) by (simp add: unat_word_ariths(1) sz uva)
  then have a1: "va \<le> va + of_nat n * PAGESIZE"
    by (simp add: word_le_nat_alt uva)
  have a2: "PAGEOFFSET pa = 0 \<and> pa \<le> pa + of_nat n * PAGESIZE \<and> pa + of_nat n * PAGESIZE \<le> MEMSIZE_PHYSICAL"
    if "perm AND PTE_P \<noteq> 0"
  proof -
    have upa: "unat pa = PAGENUMBER pa * 4096" using pa[OF that] aligned_unat by blast
    have "unat (pa + of_nat n * PAGESIZE) = (PAGENUMBER pa + n) * 4096"
      using pa[OF that] by (simp add: unat_word_ariths(1) sz upa)
    then show ?thesis
      using pa[OF that] by (simp add: word_le_nat_alt upa)
  qed
  have a3: "PAGEOFFSET (of_nat n * PAGESIZE) = 0" "PAGENUMBER (of_nat n * PAGESIZE) = n"
    by (simp_all add: PAGEOFFSET_0 PAGENUMBER_div sz)
  show ?thesis
    using map_loop_eq[of pt m perm None va "PAGENUMBER va" n pa] wf va a1 a2 a3 perm wf_table_allows[OF wf, of perm]
    by (auto simp: virtual_memory_map_def wf_table_def l2_of_def)
qed

text \<open>A table reads the same in a memory with the same bytes in its two pages.\<close>

lemma tables_cong:
  assumes wf: "wf_table pt m"
    and eq: "\<And>a. PAGENUMBER a = PAGENUMBER pt \<or> PAGENUMBER a = PAGENUMBER (l2_of m pt) \<Longrightarrow> m' a = m a"
  shows "wf_table pt m'" "l2_of m' pt = l2_of m pt" "i < 1024 \<Longrightarrow> pte m' (l2_of m pt) i = pte m (l2_of m pt) i"
proof -
  have e: "pte m' pt j = pte m pt j" if "j < 1024" for j
    by (rule pte_cong) (use wf eq that in \<open>auto simp: wf_table_def\<close>)
  then show "l2_of m' pt = l2_of m pt" "wf_table pt m'" using wf by (simp_all add: l2_of_def wf_table_def)
  show "i < 1024 \<Longrightarrow> pte m' (l2_of m pt) i = pte m (l2_of m pt) i"
    by (rule pte_cong) (use eq in auto)
qed

lemma wf_table_frame:
  assumes "wf_table pt m" "agree_except (PAGENUMBER (pte m pt 0)) m m'"
  shows "wf_table pt m'" "pte m' pt 0 = pte m pt 0" "l2_of m' pt = l2_of m pt"
proof -
  have e: "pte m' pt j = pte m pt j" if "j < 1024" for j
    by (rule pte_agree[OF assms(2)]) (use assms(1) that in \<open>simp_all add: wf_table_def\<close>)
  then show "pte m' pt 0 = pte m pt 0" by simp
  show "wf_table pt m'" "l2_of m' pt = l2_of m pt"
    using assms(1) by (simp_all add: wf_table_def l2_of_def e)
qed

text \<open>No address above 4 MB is mapped.\<close>

lemma lookup_high:
  assumes "wf_table pt m" "\<not> PAGENUMBER va < 1024"
  shows "virtual_memory_lookup pt va m = Some \<lparr>vm_pn = - 1, vm_pa = - 1, vm_perm = 0\<rparr>"
proof -
  have "1024 * 4096 \<le> unat va"
    using assms(2) by (simp add: PAGENUMBER_div not_less less_eq_div_iff_mult_less_eq)
  moreover have "unat va div 4194304 < 1024" by (rule less_mult_imp_div_less) simp
  ultimately have "0 < L1PAGEINDEX va" "L1PAGEINDEX va < 1024"
    by (simp_all add: L1PAGEINDEX_def drop_bit_eq_div unat_div div_greater_zero_iff)
  then show ?thesis
    using assms(1) by (simp add: virtual_memory_lookup_def wf_table_def read_entry_eq)
qed

lemma page_offset:
  assumes p: "PAGEOFFSET p = 0" and k: "PAGENUMBER p + k < 1024" and x: "x < PAGESIZE"
  shows "PAGENUMBER (p + of_nat k * PAGESIZE + x) = PAGENUMBER p + k"
    "PAGEOFFSET (p + of_nat k * PAGESIZE + x) = x" "PAGEOFFSET (p + of_nat k * PAGESIZE) = 0"
    "PAGENUMBER (p + of_nat k * PAGESIZE) = PAGENUMBER p + k"
proof -
  have "unat (p + of_nat k * PAGESIZE) = (PAGENUMBER p + k) * 4096"
    using k aligned_unat[OF p] by (simp add: unat_word_ariths unat_of_nat)
  then show b: "PAGEOFFSET (p + of_nat k * PAGESIZE) = 0" "PAGENUMBER (p + of_nat k * PAGESIZE) = PAGENUMBER p + k"
    by (simp_all add: PAGEOFFSET_0 PAGENUMBER_div)
  have x4: "unat x < 4096" using x by (simp add: word_less_nat_alt)
  note pb = page_byte[OF b(1) x4]
  show "PAGENUMBER (p + of_nat k * PAGESIZE + x) = PAGENUMBER p + k" using pb(2) b(2) by simp
  show "PAGEOFFSET (p + of_nat k * PAGESIZE + x) = x"
    using pb(1) x4 by (intro word_unat_eq_iff[THEN iffD2]) (simp add: PAGEOFFSET_mod)
qed

text \<open>
  C6: A successful \<open>virtual_memory_map\<close> is what \<open>virtual_memory_lookup\<close> reads back: inside
  the mapped range every virtual address resolves to the physical address at the same
  distance with exactly the requested permissions; every other address resolves as
  before. The call succeeds on every well-formed table and in-range aligned request.
\<close>

theorem map_then_lookup:
  assumes wf: "wf_table pt m" and va: "PAGEOFFSET va = 0" "PAGENUMBER va + n \<le> 1024"
    and pa: "PAGEOFFSET pa = 0" "PAGENUMBER pa + n \<le> NPAGES"
    and perm: "perm AND PTE_P = PTE_P" "perm < 0x1000"
  shows "\<exists>m'. virtual_memory_map pt va pa (of_nat n * PAGESIZE) perm m = Some m'
    \<and> (\<forall>k x. k < n \<and> x < PAGESIZE \<longrightarrow>
         virtual_memory_lookup pt (va + of_nat k * PAGESIZE + x) m'
          = Some \<lparr>vm_pn = int (PAGENUMBER pa + k), vm_pa = pa + of_nat k * PAGESIZE + x, vm_perm = perm\<rparr>)
    \<and> (\<forall>v. PAGENUMBER v < 1024 \<and> \<not> (PAGENUMBER va \<le> PAGENUMBER v \<and> PAGENUMBER v < PAGENUMBER va + n) \<longrightarrow>
         virtual_memory_lookup pt v m' = virtual_memory_lookup pt v m)"
proof -
  obtain m' where m': "virtual_memory_map pt va pa (of_nat n * PAGESIZE) perm m = Some m'"
    "agree_except (PAGENUMBER (pte m pt 0)) m m'"
    "\<forall>j < 1024. pte m' (l2_of m pt) j = (if PAGENUMBER va \<le> j \<and> j < PAGENUMBER va + n
          then new_entry pa perm (j - PAGENUMBER va) else pte m (l2_of m pt) j)"
    using map_eq[OF wf va _ perm(2), of pa] pa by blast
  note fr = wf_table_frame[OF wf m'(2)]
  have inside: "virtual_memory_lookup pt (va + of_nat k * PAGESIZE + x) m'
      = Some \<lparr>vm_pn = int (PAGENUMBER pa + k), vm_pa = pa + of_nat k * PAGESIZE + x, vm_perm = perm\<rparr>"
    if k: "k < n" and x: "x < PAGESIZE" for k x
  proof -
    have kv: "PAGENUMBER va + k < 1024" and kp: "PAGENUMBER pa + k < 1024" using k va pa by auto
    note v = page_offset[OF va(1) kv x] and p = page_offset[OF pa(1) kp x]
    note parts = entry_parts[OF p(3) perm(2)]
    have "pte m' (l2_of m pt) (PAGENUMBER va + k) = (pa + of_nat k * PAGESIZE) OR perm"
      using m'(3) kv k perm(1) by (simp add: new_entry_def)
    moreover have "((pa + of_nat k * PAGESIZE) OR perm) AND PTE_P \<noteq> 0"
      using perm(1) by (metis and_zero_eq bit.conj_disj_distrib2 or_eq_0_iff zero_neq_one)
    ultimately show ?thesis
      using lookup_eq[OF fr(1), of "va + of_nat k * PAGESIZE + x"] v kv parts p
      by (simp add: fr vam_of_def)
  qed
  have outside: "virtual_memory_lookup pt v m' = virtual_memory_lookup pt v m"
    if "PAGENUMBER v < 1024" "\<not> (PAGENUMBER va \<le> PAGENUMBER v \<and> PAGENUMBER v < PAGENUMBER va + n)" for v
    using that m'(3) lookup_eq[OF fr(1) that(1)] lookup_eq[OF wf that(1)] by (auto simp: fr)
  show ?thesis using m'(1) inside outside by blast
qed

lemma wf_table_example: "wf_table 0x1000 (store32 (\<lambda>_. 0) 0x1000 0x2007)"
proof -
  let ?m = "store32 (\<lambda>_. 0) 0x1000 0x2007"
  have e: "pte ?m 0x1000 i = (if i = 0 then 0x2007 else 0)" if "i < 1024" for i
    using pte_store[of "0x1000" "0x1000" 0 i "\<lambda>_. 0" "0x2007"] that
    by (simp add: PAGEOFFSET_def) (simp add: pte_def load32_def)
  then have "pte ?m 0x1000 0 = 0x2007" by simp
  then show ?thesis using e
    by (simp add: wf_table_def PAGEOFFSET_def PAGENUMBER_div full_access_def)
qed

theorem map_then_lookup_witness:
  "\<exists>m'. virtual_memory_map 0x1000 0x100000 0x4000 (of_nat 2 * PAGESIZE) 7 (store32 (\<lambda>_. 0) 0x1000 0x2007) = Some m'
     \<and> virtual_memory_lookup 0x1000 (0x100000 + of_nat 1 * PAGESIZE + 5) m'
       = Some \<lparr>vm_pn = 5, vm_pa = 0x5005, vm_perm = 7\<rparr>"
proof -
  have h: "PAGEOFFSET 0x100000 = 0" "PAGENUMBER 0x100000 + 2 \<le> 1024" "PAGEOFFSET 0x4000 = 0"
      "PAGENUMBER 0x4000 + 2 \<le> NPAGES" "(7 :: u32) AND PTE_P = PTE_P" "(7 :: u32) < 0x1000"
    by (simp_all add: PAGEOFFSET_def PAGENUMBER_div)
  obtain m' where m': "virtual_memory_map 0x1000 0x100000 0x4000 (of_nat 2 * PAGESIZE) 7
        (store32 (\<lambda>_. 0) 0x1000 0x2007) = Some m'"
    "\<forall>k x. k < 2 \<and> x < PAGESIZE \<longrightarrow>
         virtual_memory_lookup 0x1000 (0x100000 + of_nat k * PAGESIZE + x) m'
          = Some \<lparr>vm_pn = int (PAGENUMBER 0x4000 + k), vm_pa = 0x4000 + of_nat k * PAGESIZE + x, vm_perm = 7\<rparr>"
    using map_then_lookup[OF wf_table_example h] by blast
  show ?thesis
    using m'(1) m'(2)[rule_format, of 1 5] by (auto simp: PAGENUMBER_div)
qed

section \<open>The page allocator\<close>

text \<open>
  What the callers of an allocator rely on: it hands out a page nobody owns, marks it
  with the owner given, changes the owner of no other page, and fails only when no page
  is free. Pages that somebody owns are therefore never handed out twice.
\<close>

locale page_allocator =
  fixes alloc :: "'o \<Rightarrow> 's \<Rightarrow> 'p \<times> 's"
    and owner_of :: "'s \<Rightarrow> nat \<Rightarrow> 'o"
    and free :: "'o"
    and pages :: nat
    and page_no :: "'p \<Rightarrow> nat"
    and none :: "'p"
    and ok :: "'s \<Rightarrow> bool"
  assumes alloc_Some: "ok s \<Longrightarrow> alloc ow s = (p, s') \<Longrightarrow> p \<noteq> none \<Longrightarrow>
      page_no p < pages \<and> owner_of s (page_no p) = free \<and> owner_of s' (page_no p) = ow
        \<and> (\<forall>j. j \<noteq> page_no p \<longrightarrow> owner_of s' j = owner_of s j)"
    and alloc_None: "ok s \<Longrightarrow> alloc ow s = (none, s') \<Longrightarrow> s' = s \<and> (\<forall>j < pages. owner_of s j \<noteq> free)"
    and alloc_ok: "ok s \<Longrightarrow> alloc ow s = (p, s') \<Longrightarrow> ok s'"
begin

lemma alloc_keeps_owned:
  "ok s \<Longrightarrow> alloc ow s = (p, s') \<Longrightarrow> owner_of s j \<noteq> free \<Longrightarrow> owner_of s' j = owner_of s j"
  using alloc_Some[of s ow p s'] alloc_None[of s ow s'] by (cases "p = none") metis+

lemma alloc_distinct:
  assumes "ok s" "alloc ow s = (p, s')" "alloc ow' s' = (q, s'')" "ow \<noteq> free" "p \<noteq> none" "q \<noteq> none"
  shows "page_no p \<noteq> page_no q" "owner_of s'' (page_no p) = ow" "owner_of s'' (page_no q) = ow'"
    "owner_of s (page_no p) = free" "owner_of s (page_no q) = free"
proof -
  note A = alloc_Some[OF assms(1,2,5)]
  note B = alloc_Some[OF alloc_ok[OF assms(1,2)] assms(3,6)]
  show "page_no p \<noteq> page_no q" using A B assms(4) by metis
  then show "owner_of s'' (page_no p) = ow" "owner_of s'' (page_no q) = ow'"
    "owner_of s (page_no p) = free" "owner_of s (page_no q) = free"
    using A B by metis+
qed

end

lemma PAGEADDRESS_neq: "i < NPAGES \<Longrightarrow> PAGEADDRESS i \<noteq> - 1"
proof
  assume "i < NPAGES" "PAGEADDRESS i = - 1"
  then have "unat (- 1 :: u32) = i * 4096" using PAGEADDRESS_unat[of i] by simp
  then show False using \<open>i < NPAGES\<close> by simp
qed

lemma upd_page_fields [simp]:
  "length (pageinfo (upd_page i f s)) = length (pageinfo s)"
  "mem (upd_page i f s) = mem s" "processes (upd_page i f s) = processes s"
  "current (upd_page i f s) = current s" "kernel_pagetable (upd_page i f s) = kernel_pagetable s"
  "last_ticks (upd_page i f s) = last_ticks s" "showing (upd_page i f s) = showing s"
  "ticks (upd_page i f s) = ticks s"
  by (simp_all add: upd_page_def)

lemma nth_upd_page [simp]:
  "j < length (pageinfo s) \<Longrightarrow>
     pageinfo (upd_page i f s) ! j = (if i = j then f (pageinfo s ! j) else pageinfo s ! j)"
  by (simp add: upd_page_def nth_upd_nth)

lemma find_free_cases:
  obtains i where "scan (\<lambda>i. owner (pageinfo s ! i) = PO_FREE) 0 NPAGES = Some i" "i < NPAGES"
      "owner (pageinfo s ! i) = PO_FREE"
      "find_free_physic_page ow s = (PAGEADDRESS i, upd_page i (\<lambda>p. p\<lparr>refcount := 1, owner := ow\<rparr>) s)"
  | "find_free_physic_page ow s = (- 1, s)" "\<forall>j < NPAGES. owner (pageinfo s ! j) \<noteq> PO_FREE"
  by (cases "scan (\<lambda>i. owner (pageinfo s ! i) = PO_FREE) 0 NPAGES")
    (auto simp: find_free_physic_page_def scan_None_iff scan_Some_iff)

interpretation pages: page_allocator find_free_physic_page "\<lambda>s j. owner (pageinfo s ! j)" PO_FREE NPAGES
  PAGENUMBER "- 1" "\<lambda>s. length (pageinfo s) = NPAGES"
proof
  fix s s' :: memos and ow p
  assume ok: "length (pageinfo s) = NPAGES" and eq: "find_free_physic_page ow s = (p, s')"
  show "length (pageinfo s') = NPAGES"
    by (rule find_free_cases[of s ow]) (use ok eq in auto)
  assume ne: "p \<noteq> - 1"
  obtain i where i: "i < NPAGES" "owner (pageinfo s ! i) = PO_FREE" "p = PAGEADDRESS i"
      "s' = upd_page i (\<lambda>p. p\<lparr>refcount := 1, owner := ow\<rparr>) s"
    by (rule find_free_cases[of s ow]) (use eq ne in auto)
  have "owner (pageinfo s' ! j) = owner (pageinfo s ! j)" if "j \<noteq> i" for j
    using that by (simp add: i(4) upd_page_def)
  then show "PAGENUMBER p < NPAGES \<and> owner (pageinfo s ! PAGENUMBER p) = PO_FREE
      \<and> owner (pageinfo s' ! PAGENUMBER p) = ow
      \<and> (\<forall>j. j \<noteq> PAGENUMBER p \<longrightarrow> owner (pageinfo s' ! j) = owner (pageinfo s ! j))"
    using i ok by simp
next
  fix s s' :: memos and ow
  assume "find_free_physic_page ow s = (- 1, s')"
  then show "s' = s \<and> (\<forall>j < NPAGES. owner (pageinfo s ! j) \<noteq> PO_FREE)"
    by (rule_tac find_free_cases[of s ow]) (use PAGEADDRESS_neq in auto)
qed

text \<open>An allocation touches the page table of pages only.\<close>

lemma find_free_frame:
  assumes "find_free_physic_page ow s = (p, s')"
  shows "mem s' = mem s" "processes s' = processes s" "current s' = current s"
    "kernel_pagetable s' = kernel_pagetable s" "ticks s' = ticks s"
    "p \<noteq> - 1 \<Longrightarrow> PAGEOFFSET p = 0" "p \<noteq> - 1 \<Longrightarrow> PAGENUMBER p < NPAGES"
  by (rule find_free_cases[of s ow]; use assms in auto)+

end
