(* ===== verification/Memos_Kernel.thy ===== *)
theory Memos_Kernel
  imports Memos_Paging
begin

text \<open>
  The MemOS kernel (\<^verbatim>\<open>OS/WeensyOS/MemOS/kernel.c\<close>): \<open>fork\<close>, the exception handler with
  its system calls, the scheduler, the self-check \<open>virtual_memory_check\<close> and the memory
  display. Addresses the linker fixes are the fields of a \<open>layout\<close>. The handler ends by
  resuming a process, by spinning in the scheduler, or in \<open>panic\<close>. The keyboard
  is taken to be silent: \<open>check_keyboard\<close> has no effect then.
\<close>

record layout =
  default_int_handler :: u32
  virtual_memory_map_addr :: u32

datatype outcome = Resume memos | Spin | Panic

abbreviation "NPROC \<equiv> 16 :: nat"
abbreviation "HZ \<equiv> 100 :: u32"
abbreviation "INT_TIMER \<equiv> 32 :: u32"
abbreviation "INT_PAGEFAULT \<equiv> 14 :: u32"
abbreviation "INT_SYS_PANIC \<equiv> 48 :: u32"
abbreviation "INT_SYS_GETPID \<equiv> 49 :: u32"
abbreviation "INT_SYS_YIELD \<equiv> 50 :: u32"
abbreviation "INT_SYS_PAGE_ALLOC \<equiv> 51 :: u32"
abbreviation "INT_SYS_FORK \<equiv> 52 :: u32"
abbreviation "INT_SYS_EXIT \<equiv> 53 :: u32"
abbreviation "PFERR_USER \<equiv> 4 :: u32"

definition set_eax :: "u32 \<Rightarrow> process \<Rightarrow> process" where
  "set_eax v p = p\<lparr>p_registers := (p_registers p)\<lparr>reg_eax := v\<rparr>\<rparr>"

section \<open>Running and scheduling\<close>

definition set_pagetable :: "layout \<Rightarrow> u32 \<Rightarrow> memos \<Rightarrow> unit option" where
  "set_pagetable L pt s = do {
     assert_that (PAGEOFFSET pt = 0);
     v1 \<leftarrow> virtual_memory_lookup pt (default_int_handler L) (mem s);
     assert_that (vm_pa v1 = default_int_handler L);
     v2 \<leftarrow> virtual_memory_lookup (kernel_pagetable s) pt (mem s);
     assert_that (vm_pa v2 = pt);
     v3 \<leftarrow> virtual_memory_lookup pt (kernel_pagetable s) (mem s);
     assert_that (vm_pa v3 = kernel_pagetable s);
     v4 \<leftarrow> virtual_memory_lookup pt (virtual_memory_map_addr L) (mem s);
     assert_that (vm_pa v4 = virtual_memory_map_addr L) }"

definition run :: "layout \<Rightarrow> nat \<Rightarrow> memos \<Rightarrow> outcome" where
  "run L i s =
     (if p_state (proc s i) = P_RUNNABLE \<and> set_pagetable L (p_pagetable (proc s i)) s \<noteq> None
      then Resume (s\<lparr>current := i\<rparr>) else Panic)"

partial_function (option) schedule_loop :: "memos \<Rightarrow> nat \<Rightarrow> nat option" where
  "schedule_loop s pid =
     (let pid' = (pid + 1) mod NPROC
      in if p_state (proc s pid') = P_RUNNABLE then Some pid' else schedule_loop s pid')"

definition schedule :: "layout \<Rightarrow> memos \<Rightarrow> outcome" where
  "schedule L s = (case schedule_loop s (p_pid (proc s (current s))) of
     Some i \<Rightarrow> run L i s | None \<Rightarrow> Spin)"

section \<open>fork\<close>

text \<open>\<open>n\<close> is the number of pages left in \<^verbatim>\<open>for (va = va_begin; va < va_end; va += PAGESIZE)\<close>.\<close>

fun copy_pages :: "nat \<Rightarrow> nat \<Rightarrow> u32 \<Rightarrow> nat \<Rightarrow> memos \<Rightarrow> (i32 \<times> memos) option" where
  "copy_pages newpid oldpid va 0 s = Some (1, s)"
| "copy_pages newpid oldpid va (Suc n) s = do {
     vam \<leftarrow> virtual_memory_lookup (p_pagetable (proc s oldpid)) va (mem s);
     if vm_perm vam AND (PTE_P OR PTE_W OR PTE_U) \<noteq> PTE_P OR PTE_W OR PTE_U then
       if vm_perm vam AND (PTE_P OR PTE_U) = PTE_P OR PTE_U then
         if int NPAGES \<le> vm_pn vam then None
         else copy_pages newpid oldpid (va + PAGESIZE) n
                (upd_page (nat (vm_pn vam)) (\<lambda>p. p\<lparr>refcount := refcount p + 1\<rparr>) s)
       else copy_pages newpid oldpid (va + PAGESIZE) n s
     else
       let (newpage, s1) = find_free_physic_page (of_nat newpid) s in
       if newpage = - 1 then Some (- 1, s1)
       else do {
         m1 \<leftarrow> virtual_memory_map (p_pagetable (proc s1 newpid)) va newpage PAGESIZE (vm_perm vam) (mem s1);
         m2 \<leftarrow> kernel_memcpy newpage (vm_pa vam) PAGESIZE m1;
         copy_pages newpid oldpid (va + PAGESIZE) n (s1\<lparr>mem := m2\<rparr>) } }"

definition copy_writable_page :: "u32 \<Rightarrow> u32 \<Rightarrow> nat \<Rightarrow> nat \<Rightarrow> memos \<Rightarrow> (i32 \<times> memos) option" where
  "copy_writable_page va_begin va_end newpid oldpid s =
     copy_pages newpid oldpid va_begin (unat ((va_end - va_begin) div PAGESIZE)) s"

definition release_process :: "nat \<Rightarrow> u32 \<Rightarrow> memos \<Rightarrow> memos option" where
  "release_process pid pt s = do {
     e \<leftarrow> read_entry (mem s) pt 0;
     s1 \<leftarrow> release_pagetable (of_nat pid) (PTE_ADDR e) s;
     release_page (of_nat pid) pt s1 }"

definition find_free_proc :: "memos \<Rightarrow> nat option" where
  "find_free_proc s = scan (\<lambda>i. p_state (proc s i) = P_FREE) 1 (NPROC - 1)"

definition fork :: "memos \<Rightarrow> (i32 \<times> memos) option" where
  "fork s = (case find_free_proc s of
      None \<Rightarrow> Some (- 1, s)
    | Some pid \<Rightarrow> do {
        (pt, s1) \<leftarrow> copy_pagetable (p_pagetable (proc s (current s))) (of_nat pid) s;
        let s2 = upd_proc pid (\<lambda>p. p\<lparr>p_pagetable := pt\<rparr>) s1;
        if pt = - 1 then do {
          s3 \<leftarrow> release_process pid pt s2;
          Some (- 1, s3) }
        else do {
          (r, s3) \<leftarrow> copy_writable_page PROC_START_ADDR MEMSIZE_VIRTUAL pid
                       (p_pid (proc s2 (current s2))) s2;
          if r = - 1 then do {
            s4 \<leftarrow> release_process pid (p_pagetable (proc s3 pid)) s3;
            Some (- 1, s4) }
          else
            Some (of_nat pid,
              upd_proc pid (\<lambda>p. p\<lparr>p_state := P_RUNNABLE\<rparr>)
                (upd_proc pid (set_eax 0)
                  (upd_proc pid (\<lambda>p. p\<lparr>p_registers := p_registers (proc s3 (current s3))\<rparr>) s3))) } })"

section \<open>virtual_memory_check\<close>

definition check_pagetable :: "u32 \<Rightarrow> i8 \<Rightarrow> int \<Rightarrow> memos \<Rightarrow> bool" where
  "check_pagetable pt ow rc s \<longleftrightarrow>
     PTE_ADDR pt = pt \<and> PAGENUMBER pt < NPAGES
     \<and> owner (pageinfo s ! PAGENUMBER pt) = ow \<and> sint (refcount (pageinfo s ! PAGENUMBER pt)) = rc
     \<and> list_all (\<lambda>pn. let e = pte (mem s) pt pn in e AND PTE_P \<noteq> 0 \<longrightarrow>
          PAGENUMBER e < NPAGES \<and> owner (pageinfo s ! PAGENUMBER e) = ow
            \<and> refcount (pageinfo s ! PAGENUMBER e) = 1) [0..<PAGETABLE_NENTRIES]"

definition expected_kernel_refcount :: "memos \<Rightarrow> int" where
  "expected_kernel_refcount s = 1 + int (length (filter (\<lambda>pid.
     p_state (proc s pid) \<noteq> P_FREE \<and> p_pagetable (proc s pid) = kernel_pagetable s) [0..<NPROC]))"

definition virtual_memory_check :: "memos \<Rightarrow> bool" where
  "virtual_memory_check s \<longleftrightarrow> p_state (proc s 0) = P_FREE
     \<and> check_pagetable (kernel_pagetable s) PO_KERNEL (expected_kernel_refcount s) s
     \<and> list_all (\<lambda>pid. p_state (proc s pid) = P_FREE
          \<or> (if p_pagetable (proc s pid) = kernel_pagetable s
             then check_pagetable (kernel_pagetable s) PO_KERNEL (expected_kernel_refcount s) s
             else check_pagetable (p_pagetable (proc s pid)) (of_nat pid) 1 s)) [0..<NPROC]
     \<and> list_all (\<lambda>pn. 0 < sint (refcount (pageinfo s ! pn)) \<and> 0 \<le> sint (owner (pageinfo s ! pn)) \<longrightarrow>
          p_state (proc s (nat (sint (owner (pageinfo s ! pn))))) \<noteq> P_FREE) [0..<NPAGES]"

section \<open>The memory display\<close>

definition memstate_colors :: "u16 list" where
  "memstate_colors = [0x0D4B, 0x0752, 0x072E, 0x0C31, 0x0A32, 0x0933, 0x0E34, 0x0F35,
     0x0C36, 0x0A37, 0x0938, 0x0E39, 0x0F41, 0x0C42, 0x0A43, 0x0944, 0x0E45, 0x0F46]"

definition page_color :: "physical_pageinfo \<Rightarrow> u16" where
  "page_color p =
     (let ow = (if refcount p = 0 then 0 else sint (owner p))
      in memstate_colors ! nat (ow + 2))"

definition shared_color :: "physical_pageinfo \<Rightarrow> u16 \<Rightarrow> u16" where
  "shared_color p color = (if 1 < sint (refcount p) then color AND 0x77FF else color)"

definition memshow_physical :: "memos \<Rightarrow> u16 list" where
  "memshow_physical s =
     map (\<lambda>pn. shared_color (pageinfo s ! pn) (page_color (pageinfo s ! pn))) [0..<NPAGES]"

definition virtual_color :: "vamapping \<Rightarrow> memos \<Rightarrow> u16 option" where
  "virtual_color vam s =
     (if vm_pn vam < 0 then Some 0x20
      else do {
        assert_that (vm_pa vam < MEMSIZE_PHYSICAL);
        let p = pageinfo s ! nat (vm_pn vam);
        let color = page_color p;
        let color = (if vm_perm vam AND PTE_U \<noteq> 0
          then push_bit 4 (color AND 0x0F00) OR drop_bit 4 (color AND 0xF000) OR (color AND 0x00FF)
          else color);
        Some (shared_color p color) })"

fun virtual_colors :: "u32 \<Rightarrow> nat list \<Rightarrow> memos \<Rightarrow> u16 list option" where
  "virtual_colors pt [] s = Some []"
| "virtual_colors pt (pn # pns) s = do {
     vam \<leftarrow> virtual_memory_lookup pt (PAGEADDRESS pn) (mem s);
     c \<leftarrow> virtual_color vam s;
     cs \<leftarrow> virtual_colors pt pns s;
     Some (c # cs) }"

definition memshow_virtual :: "u32 \<Rightarrow> memos \<Rightarrow> u16 list option" where
  "memshow_virtual pt s = do {
     assert_that (pt = PTE_ADDR pt);
     virtual_colors pt [0..<PAGENUMBER MEMSIZE_VIRTUAL] s }"

text \<open>The loop that skips dead processes; it stops by itself past \<open>2 * NPROC\<close>.\<close>

function skip_free :: "memos \<Rightarrow> nat \<Rightarrow> nat" where
  "skip_free s n = (if n \<le> 2 * NPROC \<and> p_state (proc s (n mod NPROC)) = P_FREE
     then skip_free s (n + 1) else n)"
  by pat_completeness auto
termination by (relation "measure (\<lambda>(s, n). 33 - n)") auto

declare skip_free.simps [simp del]

definition memshow_virtual_animate :: "memos \<Rightarrow> memos option" where
  "memshow_virtual_animate s =
     (let s1 = (if last_ticks s = 0 \<or> HZ div 2 \<le> ticks s - last_ticks s
                then s\<lparr>last_ticks := ticks s, showing := showing s + 1\<rparr> else s);
          s2 = s1\<lparr>showing := skip_free s1 (showing s1) mod NPROC\<rparr>
      in if p_state (proc s2 (showing s2)) \<noteq> P_FREE
         then do { _ \<leftarrow> memshow_virtual (p_pagetable (proc s2 (showing s2))) s2; Some s2 }
         else Some s2)"

section \<open>The exception handler\<close>

definition sys_exit :: "layout \<Rightarrow> memos \<Rightarrow> outcome" where
  "sys_exit L s =
     (let c = current s; s1 = upd_proc c (\<lambda>p. p\<lparr>p_state := P_BLOCKED\<rparr>) s in
      case release_process (p_pid (proc s1 c)) (p_pagetable (proc s1 c)) s1 of
        None \<Rightarrow> Panic
      | Some s2 \<Rightarrow> schedule L (upd_proc c (\<lambda>p. p\<lparr>p_state := P_FREE\<rparr>) s2))"

definition sys_page_alloc :: "memos \<Rightarrow> memos option" where
  "sys_page_alloc s =
     (let c = current s; addr = reg_eax (p_registers (proc s c)) in
      if addr < PROC_START_ADDR \<or> MEMSIZE_VIRTUAL - PAGESIZE \<le> addr
      then Some (upd_proc c (set_eax (- 1)) s)
      else let (freepage, s1) = find_free_physic_page (of_nat (p_pid (proc s c))) s in
        if freepage = - 1 then Some (upd_proc c (set_eax (- 1)) s1)
        else do {
          m \<leftarrow> virtual_memory_map (p_pagetable (proc s1 c)) addr freepage PAGESIZE
                 (PTE_P OR PTE_W OR PTE_U) (mem s1);
          Some (upd_proc c (set_eax 1) (s1\<lparr>mem := m\<rparr>)) })"

definition sys_fork :: "memos \<Rightarrow> memos option" where
  "sys_fork s = do {
     (r, s1) \<leftarrow> fork s;
     Some (upd_proc (current s1) (set_eax r) s1) }"

definition resume :: "layout \<Rightarrow> memos option \<Rightarrow> outcome" where
  "resume L r = (case r of None \<Rightarrow> Panic
     | Some s \<Rightarrow> if p_state (proc s (current s)) = P_RUNNABLE then run L (current s) s else schedule L s)"

definition handle :: "layout \<Rightarrow> registers \<Rightarrow> memos \<Rightarrow> outcome" where
  "handle L reg s =
     (let c = current s; n = reg_intno reg in
      if n = INT_SYS_PANIC then Panic
      else if n = INT_SYS_GETPID then resume L (Some (upd_proc c (set_eax (of_nat (p_pid (proc s c)))) s))
      else if n = INT_SYS_YIELD then schedule L s
      else if n = INT_SYS_EXIT then sys_exit L s
      else if n = INT_SYS_PAGE_ALLOC then resume L (sys_page_alloc s)
      else if n = INT_SYS_FORK then resume L (sys_fork s)
      else if n = INT_TIMER then schedule L (s\<lparr>ticks := ticks s + 1\<rparr>)
      else if n = INT_PAGEFAULT then
        if reg_err reg AND PFERR_USER = 0 then Panic
        else resume L (Some (upd_proc c (\<lambda>p. p\<lparr>p_state := P_BROKEN\<rparr>) s))
      else Panic)"

definition exception :: "layout \<Rightarrow> registers \<Rightarrow> memos \<Rightarrow> outcome" where
  "exception L reg s0 =
     (let s = upd_proc (current s0) (\<lambda>p. p\<lparr>p_registers := reg\<rparr>) s0 in
      if set_pagetable L (kernel_pagetable s) s = None then Panic
      else if reg_intno reg \<noteq> INT_PAGEFAULT \<or> reg_err reg AND PFERR_USER \<noteq> 0
      then if \<not> virtual_memory_check s then Panic
           else case memshow_virtual_animate s of None \<Rightarrow> Panic | Some s1 \<Rightarrow> handle L reg s1
      else handle L reg s)"

end
