(* ===== verification/Memos_Isolation.thy ===== *)
theory Memos_Isolation
  imports Memos_Kernel
begin

text \<open>
  Memory isolation in MemOS: the invariant that every page a process can write belongs to
  that process alone, and its preservation by every trap and by user code. A page's
  \<open>owner\<close> is the reason the argument works: whatever the kernel does on behalf of one
  process leaves alone what another process owns.
\<close>

section \<open>The invariant\<close>

abbreviation owner_at :: "memos \<Rightarrow> nat \<Rightarrow> i8" where
  "owner_at s j \<equiv> owner (pageinfo s ! j)"

abbreviation l2 :: "memos \<Rightarrow> nat \<Rightarrow> u32" where
  "l2 s p \<equiv> l2_of (mem s) (p_pagetable (proc s p))"

abbreviation entry_of :: "memos \<Rightarrow> nat \<Rightarrow> nat \<Rightarrow> u32" where
  "entry_of s p i \<equiv> pte (mem s) (l2 s p) i"

definition user_writable :: "u32 \<Rightarrow> bool" where
  "user_writable e \<longleftrightarrow> e AND 7 = 7"

abbreviation "CONSOLE_PAGE \<equiv> 184 :: nat"

text \<open>
  The entries \<open>I\<close> of the level-2 table of \<open>p\<close>: user-writable are only the console page
  and, in the process part of the address space, distinct pages that \<open>p\<close> owns and that
  hold neither of its page tables.
\<close>

definition entries_ok :: "memos \<Rightarrow> nat \<Rightarrow> nat set \<Rightarrow> bool" where
  "entries_ok s p I \<longleftrightarrow>
     (\<forall>i \<in> I. i < 1024 \<and> user_writable (entry_of s p i) \<longrightarrow>
        (i = CONSOLE_PAGE \<and> PAGENUMBER (entry_of s p i) = CONSOLE_PAGE)
        \<or> (256 \<le> i \<and> i < 768 \<and> PAGENUMBER (entry_of s p i) < NPAGES
            \<and> owner_at s (PAGENUMBER (entry_of s p i)) = of_nat p
            \<and> PAGENUMBER (entry_of s p i) \<noteq> PAGENUMBER (p_pagetable (proc s p))
            \<and> PAGENUMBER (entry_of s p i) \<noteq> PAGENUMBER (l2 s p)))"

definition tables_ok :: "memos \<Rightarrow> nat \<Rightarrow> bool" where
  "tables_ok s p \<longleftrightarrow> wf_table (p_pagetable (proc s p)) (mem s)
     \<and> owner_at s (PAGENUMBER (p_pagetable (proc s p))) = of_nat p
     \<and> owner_at s (PAGENUMBER (l2 s p)) = of_nat p"

definition entries_distinct :: "memos \<Rightarrow> nat \<Rightarrow> nat set \<Rightarrow> bool" where
  "entries_distinct s p I \<longleftrightarrow>
     (\<forall>i \<in> I. \<forall>j \<in> I. 256 \<le> i \<and> i < 768 \<and> 256 \<le> j \<and> j < 768 \<and> i \<noteq> j
        \<and> user_writable (entry_of s p i) \<and> user_writable (entry_of s p j) \<longrightarrow>
        PAGENUMBER (entry_of s p i) \<noteq> PAGENUMBER (entry_of s p j))"

definition space_ok :: "memos \<Rightarrow> nat \<Rightarrow> nat set \<Rightarrow> bool" where
  "space_ok s p I \<longleftrightarrow> tables_ok s p \<and> entries_ok s p I \<and> entries_distinct s p I"

definition live :: "memos \<Rightarrow> nat \<Rightarrow> bool" where
  "live s p \<longleftrightarrow> 0 < p \<and> p < NPROC \<and> p_state (proc s p) \<noteq> P_FREE"

definition wf_base :: "memos \<Rightarrow> bool" where
  "wf_base s \<longleftrightarrow> length (pageinfo s) = NPAGES \<and> length (processes s) = NPROC
     \<and> (\<forall>i < NPROC. p_pid (proc s i) = i) \<and> p_state (proc s 0) = P_FREE
     \<and> 0 < current s \<and> current s < NPROC \<and> owner_at s CONSOLE_PAGE = PO_RESERVED"

definition wf_memos :: "memos \<Rightarrow> bool" where
  "wf_memos s \<longleftrightarrow> wf_base s \<and> (\<forall>p. live s p \<longrightarrow> space_ok s p UNIV)"

definition wf_outcome :: "outcome \<Rightarrow> bool" where
  "wf_outcome r = (case r of Resume s \<Rightarrow> wf_memos s \<and> live s (current s) | _ \<Rightarrow> True)"

section \<open>What an operation leaves alone\<close>

text \<open>Everything the process \<open>p\<close> owns is as it was.\<close>

definition keeps :: "nat \<Rightarrow> memos \<Rightarrow> memos \<Rightarrow> bool" where
  "keeps p s s' \<longleftrightarrow> p_pagetable (proc s' p) = p_pagetable (proc s p)
     \<and> (\<forall>j < NPAGES. owner_at s j = of_nat p \<longrightarrow> owner_at s' j = of_nat p
         \<and> (\<forall>a. PAGENUMBER a = j \<longrightarrow> mem s' a = mem s a))"

lemma keeps_refl [simp]: "keeps p s s"
  by (simp add: keeps_def)

lemma keeps_trans: "keeps p s s' \<Longrightarrow> keeps p s' s'' \<Longrightarrow> keeps p s s''"
  by (simp add: keeps_def)

lemma wf_tableD:
  assumes "wf_table pt m"
  shows "PAGEOFFSET pt = 0" "PAGENUMBER pt < NPAGES" "full_access (pte m pt 0)"
    "PAGENUMBER (l2_of m pt) < NPAGES" "PAGENUMBER (l2_of m pt) \<noteq> PAGENUMBER pt"
  using assms by (auto simp: wf_table_def)

lemma space_ok_cong:
  assumes "space_ok s p I"
    and pt: "p_pagetable (proc s' p) = p_pagetable (proc s p)"
    and own: "\<And>j. j < NPAGES \<Longrightarrow> owner_at s j = of_nat p \<Longrightarrow> owner_at s' j = of_nat p"
    and mem: "\<And>a. PAGENUMBER a = PAGENUMBER (p_pagetable (proc s p)) \<or> PAGENUMBER a = PAGENUMBER (l2 s p)
       \<Longrightarrow> mem s' a = mem s a"
  shows "space_ok s' p I"
proof -
  have wf: "wf_table (p_pagetable (proc s p)) (mem s)"
    using assms(1) by (simp add: space_ok_def tables_ok_def)
  note T = tables_cong[OF wf mem] and D = wf_tableD[OF wf]
  have l2: "l2 s' p = l2 s p" using T(2) pt by simp
  have ent: "entry_of s' p i = entry_of s p i" if "i < 1024" for i
    using T(3)[OF _ that] l2 pt by simp
  have "tables_ok s' p"
    using assms(1) T(1) D own pt l2 by (auto simp: space_ok_def tables_ok_def)
  moreover have "entries_ok s' p I"
    using assms(1) own ent pt l2 unfolding space_ok_def entries_ok_def by fastforce
  moreover have "entries_distinct s' p I"
    using assms(1) ent unfolding space_ok_def entries_distinct_def by fastforce
  ultimately show ?thesis by (simp add: space_ok_def)
qed

lemma space_ok_keeps:
  assumes "space_ok s p I" "keeps p s s'"
  shows "space_ok s' p I"
  using assms(1)
proof (rule space_ok_cong)
  fix a assume "PAGENUMBER a = PAGENUMBER (p_pagetable (proc s p)) \<or> PAGENUMBER a = PAGENUMBER (l2 s p)"
  then show "mem s' a = mem s a"
    using assms wf_tableD[of "p_pagetable (proc s p)" "mem s"]
    by (auto simp: keeps_def space_ok_def tables_ok_def)
qed (use assms(2) in \<open>auto simp: keeps_def\<close>)

lemma pid_inj:
  assumes pq: "p < 128" "q < 128"
  shows "(of_nat p :: i8) = of_nat q \<longleftrightarrow> p = q"
proof
  assume "(of_nat p :: i8) = of_nat q"
  then have "unat (of_nat p :: i8) = unat (of_nat q :: i8)" by simp
  then show "p = q" using pq by (simp add: unat_of_nat)
qed simp

section \<open>Releasing pages\<close>

text \<open>The operation of process \<open>q\<close> touches the page table of pages only, and there only pages of \<open>q\<close>.\<close>

definition pages_of :: "nat \<Rightarrow> memos \<Rightarrow> memos \<Rightarrow> bool" where
  "pages_of q s s' \<longleftrightarrow> mem s' = mem s \<and> processes s' = processes s \<and> current s' = current s
     \<and> kernel_pagetable s' = kernel_pagetable s \<and> length (pageinfo s') = length (pageinfo s)
     \<and> (length (pageinfo s) = NPAGES \<longrightarrow> (\<forall>j < NPAGES. owner_at s j \<noteq> of_nat q \<longrightarrow> owner_at s' j = owner_at s j))"

lemma pages_of_refl [simp]: "pages_of q s s"
  by (simp add: pages_of_def)

lemma pages_of_trans: "pages_of q s s' \<Longrightarrow> pages_of q s' s'' \<Longrightarrow> pages_of q s s''"
  by (simp add: pages_of_def)

lemma pages_of_keeps:
  "pages_of q s s' \<Longrightarrow> length (pageinfo s) = NPAGES \<Longrightarrow> p \<noteq> q \<Longrightarrow> p < NPROC \<Longrightarrow> q < NPROC \<Longrightarrow> keeps p s s'"
  by (auto simp: pages_of_def keeps_def pid_inj)

lemma release_page_pages: "release_page (of_nat q) a s = Some s' \<Longrightarrow> pages_of q s s'"
  by (auto simp: release_page_def pages_of_def Let_def split: if_splits)

lemma release_entries_pages:
  "release_entries (of_nat q) pt is s = Some s' \<Longrightarrow> pages_of q s s'"
proof (induction "of_nat q :: i8" pt "is" s rule: release_entries.induct)
  case (2 pt i "is" s)
  then show ?case
    by (auto simp: bind_eq_Some_conv intro: pages_of_trans release_page_pages)
qed simp

lemma release_process_pages: "release_process q pt s = Some s' \<Longrightarrow> pages_of q s s'"
  by (auto simp: release_process_def release_pagetable_def bind_eq_Some_conv
      dest!: release_page_pages release_entries_pages intro: pages_of_trans)

section \<open>Allocating and mapping\<close>

lemma alloc_keeps:
  assumes "find_free_physic_page ow s = (a, s')" "length (pageinfo s) = NPAGES" "0 < p" "p < NPROC"
  shows "keeps p s s'"
proof -
  have "(of_nat p :: i8) \<noteq> PO_FREE" using pid_inj[of p 0] assms by simp
  then show ?thesis
    using pages.alloc_keeps_owned[OF assms(2,1)] find_free_frame[OF assms(1)]
    by (auto simp: keeps_def)
qed

lemma map_page:
  assumes "wf_table pt m" "virtual_memory_map pt va pa PAGESIZE perm m = Some m'"
    "PAGENUMBER va < 1024" "perm AND PTE_P \<noteq> 0"
  shows "PAGEOFFSET va = 0" "perm < 0x1000" "PAGEOFFSET pa = 0" "PAGENUMBER pa < NPAGES"
    "agree_except (PAGENUMBER (l2_of m pt)) m m'"
    "j < 1024 \<Longrightarrow> pte m' (l2_of m pt) j = (if j = PAGENUMBER va then pa OR perm else pte m (l2_of m pt) j)"
proof -
  show va: "PAGEOFFSET va = 0" and perm: "perm < 0x1000" and pa: "PAGEOFFSET pa = 0"
    using assms(2,4) by (auto simp: virtual_memory_map_def split: if_splits)
  have "pa \<le> pa + PAGESIZE" "pa + PAGESIZE \<le> MEMSIZE_PHYSICAL"
    using assms(2,4) by (auto simp: virtual_memory_map_def split: if_splits)
  then have "unat pa + 4096 \<le> 2097152"
    by (simp add: word_le_nat_alt unat_plus_if' split: if_splits)
  then show pn: "PAGENUMBER pa < NPAGES" using aligned_unat[OF pa] by simp
  obtain m'' where m'': "virtual_memory_map pt va pa (of_nat 1 * PAGESIZE) perm m = Some m''"
    "agree_except (PAGENUMBER (pte m pt 0)) m m''"
    "\<forall>j < 1024. pte m'' (l2_of m pt) j = (if PAGENUMBER va \<le> j \<and> j < PAGENUMBER va + 1
          then new_entry pa perm (j - PAGENUMBER va) else pte m (l2_of m pt) j)"
    using map_eq[OF assms(1) va, of 1 perm pa] assms(3) pa pn perm by auto
  then have "m'' = m'" using assms(2) by simp
  with m'' show "agree_except (PAGENUMBER (l2_of m pt)) m m'"
    "j < 1024 \<Longrightarrow> pte m' (l2_of m pt) j = (if j = PAGENUMBER va then pa OR perm else pte m (l2_of m pt) j)"
    using assms(4) by (auto simp: new_entry_def)
qed

lemma mem_keeps:
  assumes "agree_except pn (mem s) m" "owner_at s pn \<noteq> of_nat p"
  shows "keeps p s (s\<lparr>mem := m\<rparr>)"
  using assms by (auto simp: keeps_def agree_except_def)

text \<open>
  A process gets a fresh page and maps it: what \<open>sys_page_alloc\<close> does for its caller and
  \<open>fork\<close> for the child. Nobody else's pages are touched.
\<close>

lemma map_fresh:
  assumes len: "length (pageinfo s) = NPAGES" and q: "0 < q" "q < NPROC"
    and ok: "space_ok s q I"
    and alloc: "find_free_physic_page (of_nat q) s = (a, s1)" "a \<noteq> - 1"
    and map: "virtual_memory_map (p_pagetable (proc s1 q)) va a PAGESIZE perm (mem s1) = Some m"
    and va: "256 \<le> PAGENUMBER va" "PAGENUMBER va < 768" and perm: "perm AND PTE_P \<noteq> 0"
  shows "space_ok (s1\<lparr>mem := m\<rparr>) q (insert (PAGENUMBER va) I)"
    "\<And>p. 0 < p \<Longrightarrow> p < NPROC \<Longrightarrow> p \<noteq> q \<Longrightarrow> keeps p s (s1\<lparr>mem := m\<rparr>)"
    "\<And>i. i < 1024 \<Longrightarrow> i \<noteq> PAGENUMBER va \<Longrightarrow> entry_of (s1\<lparr>mem := m\<rparr>) q i = entry_of s q i"
    "owner_at (s1\<lparr>mem := m\<rparr>) (PAGENUMBER a) = of_nat q" "owner_at s (PAGENUMBER a) = PO_FREE"
    "PAGENUMBER a \<noteq> PAGENUMBER (p_pagetable (proc (s1\<lparr>mem := m\<rparr>) q))"
    "PAGENUMBER a \<noteq> PAGENUMBER (l2 (s1\<lparr>mem := m\<rparr>) q)"
    "entry_of (s1\<lparr>mem := m\<rparr>) q (PAGENUMBER va) = a OR perm"
    "l2 (s1\<lparr>mem := m\<rparr>) q = l2 s q"
    "\<And>x. PAGENUMBER x \<noteq> PAGENUMBER (l2 s q) \<Longrightarrow> m x = mem s x"
proof -
  let ?s2 = "s1\<lparr>mem := m\<rparr>" and ?v = "PAGENUMBER va"
  note fr = find_free_frame[OF alloc(1)] and al = pages.alloc_Some[OF len alloc]
  have free: "(of_nat q :: i8) \<noteq> PO_FREE" using pid_inj[of q 0] q by simp
  have wf: "wf_table (p_pagetable (proc s q)) (mem s)"
    and own: "owner_at s (PAGENUMBER (p_pagetable (proc s q))) = of_nat q" "owner_at s (PAGENUMBER (l2 s q)) = of_nat q"
    using ok by (simp_all add: space_ok_def tables_ok_def)
  have map': "virtual_memory_map (p_pagetable (proc s q)) va a PAGESIZE perm (mem s) = Some m"
    using map fr by simp
  have v4: "?v < 1024" using va by simp
  note M = map_page[OF wf map' v4 perm]
  have agr: "agree_except (PAGENUMBER (pte (mem s) (p_pagetable (proc s q)) 0)) (mem s) m"
    using M(5) by simp
  note T = wf_table_frame[OF wf agr]
  define s2 where "s2 = ?s2"
  have s2: "mem s2 = m" "proc s2 q = proc s q" "pageinfo s2 = pageinfo s1" by (simp_all add: s2_def fr)
  have a_page: "PAGENUMBER (a OR perm) = PAGENUMBER a" by (rule entry_parts[OF M(3,2)])
  have ent: "entry_of s2 q i = (if i = ?v then a OR perm else entry_of s q i)" if "i < 1024" for i
    using M(6)[OF that] by (simp only: s2 T(3))
  then show "\<And>i. i < 1024 \<Longrightarrow> i \<noteq> ?v \<Longrightarrow> entry_of ?s2 q i = entry_of s q i" by (simp add: s2_def)
  show "owner_at ?s2 (PAGENUMBER a) = of_nat q" "owner_at s (PAGENUMBER a) = PO_FREE" using al by simp_all
  have own_s1: "owner_at s1 j = (if j = PAGENUMBER a then of_nat q else owner_at s j)" for j
    using al by simp
  have fresh: "PAGENUMBER a \<noteq> j" if "owner_at s j = of_nat q" for j
    using al free that by auto
  have tab: "tables_ok s2 q"
    using T(1) own fresh by (simp add: tables_ok_def s2 T(3) own_s1)
  have l2_page: "PAGENUMBER (l2 s2 q) = PAGENUMBER (l2 s q)" "PAGENUMBER (p_pagetable (proc s2 q)) = PAGENUMBER (p_pagetable (proc s q))"
    by (simp_all only: s2 T(3))
  show "PAGENUMBER a \<noteq> PAGENUMBER (p_pagetable (proc ?s2 q))" "PAGENUMBER a \<noteq> PAGENUMBER (l2 ?s2 q)"
    using fresh[OF own(1)] fresh[OF own(2)] l2_page unfolding s2_def by metis+
  have new: "i = ?v \<or> i \<noteq> ?v \<and> i \<in> I \<and> entry_of s2 q i = entry_of s q i"
    if "i \<in> insert ?v I" "i < 1024" for i
    using that ent by auto
  show "entry_of ?s2 q ?v = a OR perm" using ent[OF v4] by (simp add: s2_def)
  show "l2 ?s2 q = l2 s q" unfolding s2_def[symmetric] by (simp only: s2 T(3))
  show "\<And>x. PAGENUMBER x \<noteq> PAGENUMBER (l2 s q) \<Longrightarrow> m x = mem s x"
    using M(5) by (simp add: agree_except_def)
  have at_v: "PAGENUMBER (entry_of s2 q ?v) = PAGENUMBER a" using ent[OF v4] a_page by simp
  have ents: "entries_ok s2 q (insert ?v I)"
    unfolding entries_ok_def
  proof (intro ballI impI, elim conjE)
    fix i assume i: "i \<in> insert ?v I" "i < 1024" and uw: "user_writable (entry_of s2 q i)"
    show "i = CONSOLE_PAGE \<and> PAGENUMBER (entry_of s2 q i) = CONSOLE_PAGE \<or> 256 \<le> i \<and> i < 768
      \<and> PAGENUMBER (entry_of s2 q i) < NPAGES \<and> owner_at s2 (PAGENUMBER (entry_of s2 q i)) = of_nat q
      \<and> PAGENUMBER (entry_of s2 q i) \<noteq> PAGENUMBER (p_pagetable (proc s2 q))
      \<and> PAGENUMBER (entry_of s2 q i) \<noteq> PAGENUMBER (l2 s2 q)"
    proof (cases "i = ?v")
      case True
      then show ?thesis
        unfolding l2_page True at_v s2(3) own_s1 using va al fresh[OF own(1)] fresh[OF own(2)] by simp
    next
      case False
      then show ?thesis
        using new[OF i] ok i(2) uw unfolding l2_page space_ok_def entries_ok_def
        by (simp only: s2(3) own_s1) auto
    qed
  qed
  have old_page: "PAGENUMBER (entry_of s q i) \<noteq> PAGENUMBER a"
    if "i \<in> I" "256 \<le> i" "i < 768" "user_writable (entry_of s q i)" for i
    using ok that fresh[of "PAGENUMBER (entry_of s q i)"]
    unfolding space_ok_def entries_ok_def by fastforce
  have dist: "entries_distinct s2 q (insert ?v I)"
    unfolding entries_distinct_def
  proof (intro ballI impI, elim conjE)
    fix i j assume i: "i \<in> insert ?v I" "256 \<le> i" "i < 768" and j: "j \<in> insert ?v I" "256 \<le> j" "j < 768"
      and ne: "i \<noteq> j" and uw: "user_writable (entry_of s2 q i)" "user_writable (entry_of s2 q j)"
    have "i < 1024" "j < 1024" using i j by simp_all
    then show "PAGENUMBER (entry_of s2 q i) \<noteq> PAGENUMBER (entry_of s2 q j)"
      using new[OF i(1)] new[OF j(1)] old_page[of i] old_page[of j] at_v ok i j ne uw
      unfolding space_ok_def entries_distinct_def by metis
  qed
  show "space_ok ?s2 q (insert ?v I)"
    using tab ents dist unfolding s2_def by (simp only: space_ok_def)
  show "keeps p s ?s2" if p: "0 < p" "p < NPROC" "p \<noteq> q" for p
  proof (rule keeps_trans)
    show "keeps p s s1" by (rule alloc_keeps[OF alloc(1) len p(1,2)])
    have "owner_at s1 (PAGENUMBER (l2 s q)) = of_nat q"
      using own(2) own_s1[of "PAGENUMBER (l2 s q)"] fresh by simp
    then show "keeps p s1 ?s2"
      using M(5) fr pid_inj[of q p] p q by (intro mem_keeps) auto
  qed
qed

section \<open>Copying page tables\<close>

lemma full_access_flags: "full_access (PTE_FLAGS x) = full_access x"
  by (simp add: full_access_def PTE_FLAGS_def and.assoc)

lemma flags_less: "PTE_FLAGS x < 0x1000"
proof -
  have "unat (PTE_FLAGS x) < 4096" unfolding PTE_FLAGS_def and_FFF by simp
  then show ?thesis by (simp add: word_less_nat_alt)
qed

lemma agree_trans:
  "agree_except p m m' \<Longrightarrow> agree_except q m' m'' \<Longrightarrow> PAGENUMBER a \<noteq> p \<Longrightarrow> PAGENUMBER a \<noteq> q \<Longrightarrow> m'' a = m a"
  by (simp add: agree_except_def)

text \<open>The memory a table copy leaves: both new pages filled, nothing else written.\<close>

lemma copy_tables_mem:
  assumes wf: "wf_table pd m" and a: "PAGEOFFSET a = 0" "PAGENUMBER a < NPAGES"
    and b: "PAGEOFFSET b = 0" "PAGENUMBER b < NPAGES" and ne: "PAGENUMBER a \<noteq> PAGENUMBER b"
    and fresh: "PAGENUMBER pd \<notin> {PAGENUMBER a, PAGENUMBER b}" "PAGENUMBER (l2_of m pd) \<notin> {PAGENUMBER a, PAGENUMBER b}"
  defines "m1 \<equiv> memset m a 0 PAGESIZE"
  defines "m2 \<equiv> store32 m1 (a + 4 * of_nat 0) (b OR PTE_FLAGS (pte m1 pd 0))"
  defines "m3 \<equiv> memcpy m2 b (PTE_ADDR (pte m2 pd 0)) PAGESIZE"
  shows "wf_table a m3" "l2_of m3 a = b" "i < 1024 \<Longrightarrow> pte m3 b i = pte m (l2_of m pd) i"
    "\<And>x. PAGENUMBER x \<noteq> PAGENUMBER a \<Longrightarrow> PAGENUMBER x \<noteq> PAGENUMBER b \<Longrightarrow> m3 x = m x"
proof -
  note D = wf_tableD[OF wf]
  have ag1: "agree_except (PAGENUMBER a) m m1" unfolding m1_def by (rule memset_page[OF a(1)])
  have ag2: "agree_except (PAGENUMBER a) m1 m2" unfolding m2_def by (rule agree_store[OF a(1)]) simp
  have e1: "pte m1 pd 0 = pte m pd 0" using pte_agree[OF ag1 D(1), of 0] fresh by auto
  have e2: "pte m2 pd 0 = pte m pd 0" using pte_agree[OF ag2 D(1), of 0] fresh e1 by auto
  have src: "PTE_ADDR (pte m2 pd 0) = l2_of m pd" by (simp add: e2 l2_of_def)
  have "b \<noteq> l2_of m pd" using fresh by auto
  then have ag3: "agree_except (PAGENUMBER b) m2 m3" and copy: "i < 1024 \<Longrightarrow> pte m3 b i = pte m2 (l2_of m pd) i" for i
    unfolding m3_def src using memcpy_page(1,2)[OF b(1) l2_of_aligned(1)[of m pd], where m = m2] by simp_all
  show "pte m3 b i = pte m (l2_of m pd) i" if "i < 1024"
    using copy[OF that] pte_agree[OF ag2 l2_of_aligned(1)[of m pd] that]
      pte_agree[OF ag1 l2_of_aligned(1)[of m pd] that] fresh by auto
  have "pte m3 a 0 = pte m2 a 0" using pte_agree[OF ag3 a(1), of 0] ne by simp
  also have "\<dots> = b OR PTE_FLAGS (pte m pd 0)"
    unfolding m2_def by (subst pte_store[OF a(1) a(1)]) (simp_all add: e1)
  finally have e3: "pte m3 a 0 = b OR PTE_FLAGS (pte m pd 0)" .
  note parts = entry_parts[OF b(1) flags_less, of "pte m pd 0"]
  show "l2_of m3 a = b" by (simp only: l2_of_def e3 parts(1))
  have "pte m3 a i = 0" if "0 < i" "i < 1024" for i
  proof -
    have "pte m3 a i = pte m2 a i" using pte_agree[OF ag3 a(1) that(2)] ne by simp
    also have "\<dots> = pte m1 a i" unfolding m2_def using that by (subst pte_store[OF a(1) a(1)]) simp_all
    also have "\<dots> = 0" unfolding m1_def by (rule memset_page(2)[OF a(1) that(2)])
    finally show ?thesis .
  qed
  moreover have "full_access (b OR PTE_FLAGS (pte m pd 0))"
    using D(3) full_access_flags parts(2) by metis
  ultimately show "wf_table a m3" using a b ne unfolding wf_table_def e3 parts(3) by simp
  show "\<And>x. PAGENUMBER x \<noteq> PAGENUMBER a \<Longrightarrow> PAGENUMBER x \<noteq> PAGENUMBER b \<Longrightarrow> m3 x = m x"
    using ag1 ag2 ag3 by (simp add: agree_except_def)
qed

text \<open>The result of a table copy for process \<open>q\<close>, as far as \<open>fork\<close> uses it.\<close>

definition copied_from :: "memos \<Rightarrow> nat \<Rightarrow> nat \<Rightarrow> u32 \<Rightarrow> memos \<Rightarrow> bool" where
  "copied_from s c q pt s' \<longleftrightarrow> length (pageinfo s') = NPAGES \<and> processes s' = processes s
     \<and> current s' = current s
     \<and> (\<forall>j. owner_at s j \<noteq> PO_FREE \<longrightarrow> owner_at s' j = owner_at s j)
     \<and> (\<forall>x. owner_at s (PAGENUMBER x) \<noteq> PO_FREE \<longrightarrow> mem s' x = mem s x)
     \<and> (pt \<noteq> - 1 \<longrightarrow> wf_table pt (mem s') \<and> owner_at s' (PAGENUMBER pt) = of_nat q
       \<and> owner_at s' (PAGENUMBER (l2_of (mem s') pt)) = of_nat q
       \<and> (\<forall>i < 1024. pte (mem s') (l2_of (mem s') pt) i = entry_of s c i))"

lemma copy_pagetable_spec:
  assumes len: "length (pageinfo s) = NPAGES" and q: "0 < q" "q < NPROC"
    and c: "tables_ok s c" "0 < c" "c < NPROC"
    and eq: "copy_pagetable (p_pagetable (proc s c)) (of_nat q) s = Some (pt, s')"
  shows "copied_from s c q pt s'"
proof -
  let ?pd = "p_pagetable (proc s c)"
  obtain a s1 where A: "find_free_physic_page (of_nat q) s = (a, s1)" by force
  obtain b s2 where B: "find_free_physic_page (of_nat q) s1 = (b, s2)" by force
  have free: "(of_nat q :: i8) \<noteq> PO_FREE" "(of_nat c :: i8) \<noteq> PO_FREE"
    using pid_inj[of _ 0] q c by simp_all
  note fA = find_free_frame[OF A] and fB = find_free_frame[OF B]
  have len1: "length (pageinfo s1) = NPAGES" by (rule pages.alloc_ok[OF len A])
  have len2: "length (pageinfo s2) = NPAGES" by (rule pages.alloc_ok[OF len1 B])
  have kA: "owner_at s1 j = owner_at s j" if "owner_at s j \<noteq> PO_FREE" for j
    by (rule pages.alloc_keeps_owned[OF len A that])
  have kB: "owner_at s2 j = owner_at s j" if "owner_at s j \<noteq> PO_FREE" for j
    using pages.alloc_keeps_owned[OF len1 B, of j] kA[OF that] that by simp
  consider (fail1) "pt = - 1" "s' = s1" | (fail2) "pt = - 1" "s' = s2"
    | (success) "a \<noteq> - 1" "b \<noteq> - 1"
    using eq by (auto simp: copy_pagetable_def A B split: if_splits)
  then show ?thesis
  proof cases
    case success
    note dist = pages.alloc_distinct[OF len A B free(1) success]
    have al: "PAGEOFFSET a = 0" "PAGENUMBER a < NPAGES" "PAGEOFFSET b = 0" "PAGENUMBER b < NPAGES"
      using fA(6,7) fB(6,7) success by auto
    have wf: "wf_table ?pd (mem s)" and own: "owner_at s (PAGENUMBER ?pd) = of_nat c"
      "owner_at s (PAGENUMBER (l2 s c)) = of_nat c"
      using c(1) by (simp_all add: tables_ok_def)
    have fresh: "PAGENUMBER ?pd \<notin> {PAGENUMBER a, PAGENUMBER b}"
      "PAGENUMBER (l2 s c) \<notin> {PAGENUMBER a, PAGENUMBER b}"
      using own dist(4,5) free(2) by auto
    note C = copy_tables_mem[OF wf al dist(1) fresh]
    define m1 where "m1 = memset (mem s) a 0 PAGESIZE"
    define m2 where "m2 = store32 m1 (a + 4 * of_nat 0) (b OR PTE_FLAGS (pte m1 ?pd 0))"
    define m3 where "m3 = memcpy m2 b (PTE_ADDR (pte m2 ?pd 0)) PAGESIZE"
    have "pt = a \<and> s' = s2\<lparr>mem := m3\<rparr>"
      using eq success fA(1) fB(1) al wf_tableD(1,2)[OF wf]
      by (auto simp: copy_pagetable_def A B kernel_memset_def kernel_memcpy_def bind_eq_Some_conv
          page_range read_entry_eq write_entry_eq m1_def m2_def m3_def split: if_splits)
    moreover note C' = C[folded m1_def, folded m2_def, folded m3_def]
    moreover have "m3 x = mem s x" if "owner_at s (PAGENUMBER x) \<noteq> PO_FREE" for x
      by (rule C'(4)) (use that dist(4,5) in auto)
    ultimately show ?thesis
      using len2 kB dist(2,3) fA(2,3) fB(2,3) by (simp add: copied_from_def)
  qed (use len1 len2 kA kB fA(1-3) fB(1-3) in \<open>auto simp: copied_from_def\<close>)
qed

section \<open>Copying the address space\<close>

lemma keeps_entries:
  assumes "tables_ok s p" "keeps p s s'"
  shows "tables_ok s' p" "i < 1024 \<Longrightarrow> entry_of s' p i = entry_of s p i"
proof -
  have wf: "wf_table (p_pagetable (proc s p)) (mem s)" using assms(1) by (simp add: tables_ok_def)
  note D = wf_tableD[OF wf]
  have m: "mem s' a = mem s a"
    if "PAGENUMBER a = PAGENUMBER (p_pagetable (proc s p)) \<or> PAGENUMBER a = PAGENUMBER (l2 s p)" for a
    using assms that D by (auto simp: keeps_def tables_ok_def)
  have pt: "p_pagetable (proc s' p) = p_pagetable (proc s p)" using assms(2) by (simp add: keeps_def)
  note T = tables_cong[OF wf, of "mem s'", OF m]
  show "i < 1024 \<Longrightarrow> entry_of s' p i = entry_of s p i" using T(2,3) pt by simp
  show "tables_ok s' p"
    using assms T(1,2) D unfolding tables_ok_def keeps_def by auto
qed

lemma user_writable_flags: "user_writable e \<longleftrightarrow> vm_perm (vam_of e va) AND 7 = 7"
proof -
  have f: "PTE_FLAGS e AND 7 = e AND 7" by (simp add: PTE_FLAGS_def and.assoc)
  have "e AND 7 = 7 \<Longrightarrow> e AND 1 = 1"
    using full_accessD(1) by (simp add: full_access_def)
  then show ?thesis by (auto simp: vam_of_def user_writable_def f)
qed

lemma space_ok_insert:
  assumes "space_ok s p I" "\<not> user_writable (entry_of s p v)"
  shows "space_ok s p (insert v I)"
  using assms by (auto simp: space_ok_def entries_ok_def entries_distinct_def)

text \<open>The state of the loop at page \<open>v\<close>: below it the child has its own space, above it the parent's.\<close>

definition forking :: "nat \<Rightarrow> nat \<Rightarrow> nat \<Rightarrow> memos \<Rightarrow> bool" where
  "forking q c v s \<longleftrightarrow> length (pageinfo s) = NPAGES \<and> 0 < q \<and> q < NPROC \<and> 0 < c \<and> c < NPROC \<and> c \<noteq> q
     \<and> tables_ok s c \<and> space_ok s q ({i. i < v} \<union> {i. 768 \<le> i})
     \<and> (\<forall>i. v \<le> i \<and> i < 768 \<longrightarrow> entry_of s q i = entry_of s c i)"

lemma range_insert: "v < 768 \<Longrightarrow> insert v ({i. i < v} \<union> {i. 768 \<le> i}) = {i. i < Suc v} \<union> {i. 768 \<le> i}"
  by auto

lemma forking_skip:
  assumes "forking q c v s" "v < 768" "\<not> user_writable (entry_of s c v)"
  shows "forking q c (Suc v) s"
proof -
  have "space_ok s q (insert v ({i. i < v} \<union> {i. 768 \<le> i}))"
    using assms by (intro space_ok_insert) (auto simp: forking_def)
  then show ?thesis
    using assms unfolding range_insert[OF assms(2)] forking_def by auto
qed

lemma forking_keeps:
  assumes "forking q c v s" "keeps q s s'" "keeps c s s'" "length (pageinfo s') = NPAGES"
  shows "forking q c v s'"
proof -
  have q: "tables_ok s q" using assms(1) by (simp add: forking_def space_ok_def)
  have c: "tables_ok s c" using assms(1) by (simp add: forking_def)
  show ?thesis
    using assms keeps_entries[OF q assms(2)] keeps_entries[OF c assms(3)] space_ok_keeps[OF _ assms(2)]
    by (auto simp: forking_def)
qed

lemma forking_copy:
  assumes inv: "forking q c v s" and v: "256 \<le> v" "v < 768" and va: "PAGENUMBER va = v"
    and alloc: "find_free_physic_page (of_nat q) s = (a, s1)" "a \<noteq> - 1"
    and map: "virtual_memory_map (p_pagetable (proc s1 q)) va a PAGESIZE perm (mem s1) = Some m1"
    and perm: "perm AND PTE_P \<noteq> 0" and copy: "kernel_memcpy a src PAGESIZE m1 = Some m2"
    and src: "PAGEOFFSET src = 0" "PAGENUMBER src \<noteq> PAGENUMBER a"
  shows "forking q c (Suc v) (s1\<lparr>mem := m2\<rparr>)"
    "\<And>p. 0 < p \<Longrightarrow> p < NPROC \<Longrightarrow> p \<noteq> q \<Longrightarrow> keeps p s (s1\<lparr>mem := m2\<rparr>)"
proof -
  have F: "length (pageinfo s) = NPAGES" "0 < q" "q < NPROC" "0 < c" "c < NPROC" "c \<noteq> q" "tables_ok s c"
    "space_ok s q ({i. i < v} \<union> {i. 768 \<le> i})" "\<And>i. v \<le> i \<Longrightarrow> i < 768 \<Longrightarrow> entry_of s q i = entry_of s c i"
    using inv by (auto simp: forking_def)
  note fr = find_free_frame[OF alloc(1)]
  note M = map_fresh[OF F(1-3,8) alloc map _ _ perm, unfolded va, OF v, unfolded range_insert[OF v(2)]]
  let ?s2 = "s1\<lparr>mem := m1\<rparr>" and ?s3 = "s1\<lparr>mem := m2\<rparr>"
  have a: "PAGEOFFSET a = 0" using fr(6) alloc(2) by simp
  have "a \<noteq> src" using src(2) by auto
  then have agr: "agree_except (PAGENUMBER a) m1 m2"
    using copy memcpy_page(1)[OF a src(1)] by (auto simp: kernel_memcpy_def split: if_splits)
  have k3: "keeps p ?s2 ?s3" if "p < NPROC" "p \<noteq> q" for p
    using mem_keeps[of "PAGENUMBER a" ?s2 m2 p] agr M(4) pid_inj[of q p] that F(3) by simp
  show keep: "keeps p s ?s3" if "0 < p" "p < NPROC" "p \<noteq> q" for p
    using keeps_trans[OF M(2)[OF that] k3[OF that(2,3)]] .
  have bytes: "mem ?s3 x = mem ?s2 x"
    if "PAGENUMBER x = PAGENUMBER (p_pagetable (proc ?s2 q)) \<or> PAGENUMBER x = PAGENUMBER (l2 ?s2 q)" for x
    using that agr M(6,7) by (auto simp: agree_except_def)
  have sp: "space_ok ?s3 q ({i. i < Suc v} \<union> {i. 768 \<le> i})"
    by (rule space_ok_cong[OF M(1) _ _ bytes]) simp_all
  have wf2: "wf_table (p_pagetable (proc ?s2 q)) (mem ?s2)"
    using M(1) by (simp add: space_ok_def tables_ok_def)
  have ent: "entry_of ?s3 q i = entry_of s q i" if "i < 1024" "i \<noteq> v" for i
    using tables_cong(2,3)[OF wf2 bytes] M(3)[OF that] that(1) by simp
  note C = keeps_entries[OF F(7) keep[OF F(4,5,6)]]
  have len: "length (pageinfo ?s3) = NPAGES"
    using pages.alloc_ok[OF F(1) alloc(1)] by simp
  show "forking q c (Suc v) ?s3"
    unfolding forking_def using F(2-6) len C(1) sp ent C(2) F(9) by auto
qed

definition others_kept :: "nat \<Rightarrow> memos \<Rightarrow> memos \<Rightarrow> bool" where
  "others_kept q s s' \<longleftrightarrow> (\<forall>p. 0 < p \<and> p < NPROC \<and> p \<noteq> q \<longrightarrow> keeps p s s')
     \<and> (length (pageinfo s) = NPAGES \<longrightarrow> length (pageinfo s') = NPAGES)
     \<and> processes s' = processes s \<and> current s' = current s
     \<and> (owner_at s CONSOLE_PAGE = PO_RESERVED \<longrightarrow> owner_at s' CONSOLE_PAGE = PO_RESERVED)"

lemma others_kept_refl [simp]: "others_kept q s s"
  by (simp add: others_kept_def)

lemma others_kept_trans: "others_kept q s s' \<Longrightarrow> others_kept q s' s'' \<Longrightarrow> others_kept q s s''"
  by (auto simp: others_kept_def intro: keeps_trans)

lemma alloc_console:
  assumes "find_free_physic_page ow s = (a, s')" "length (pageinfo s) = NPAGES"
    "owner_at s CONSOLE_PAGE = PO_RESERVED"
  shows "owner_at s' CONSOLE_PAGE = PO_RESERVED"
  using pages.alloc_keeps_owned[OF assms(2,1), of CONSOLE_PAGE] assms(3) by simp

lemma alloc_others:
  assumes "find_free_physic_page ow s = (a, s')" "length (pageinfo s) = NPAGES"
  shows "others_kept q s s'"
  using alloc_keeps[OF assms] alloc_console[OF assms] find_free_frame[OF assms(1)]
    pages.alloc_ok[OF assms(2,1)]
  by (simp add: others_kept_def)

lemma pages_of_others:
  assumes "pages_of q s s'" "length (pageinfo s) = NPAGES" "q < NPROC"
  shows "others_kept q s s'"
proof -
  have "PO_RESERVED \<noteq> of_nat q"
  proof
    assume "PO_RESERVED = of_nat q"
    then have "unat (- 1 :: i8) = unat (of_nat q :: i8)" by simp
    then show False using assms(3) by (simp add: unat_of_nat)
  qed
  then show ?thesis
    using assms pages_of_keeps[OF assms(1,2)] by (auto simp: others_kept_def pages_of_def)
qed

text \<open>Sharing a read-only page only counts one more reference to it.\<close>

lemma refcount_keeps:
  "keeps p s (upd_page i (\<lambda>x. x\<lparr>refcount := f x\<rparr>) s)" "owner_at (upd_page i (\<lambda>x. x\<lparr>refcount := f x\<rparr>) s) j = owner_at s j"
proof -
  show own: "owner_at (upd_page i (\<lambda>x. x\<lparr>refcount := f x\<rparr>) s) j = owner_at s j" for j
    by (cases "i < length (pageinfo s)") (auto simp: upd_page_def upd_nth_def nth_list_update list_update_beyond)
  show "keeps p s (upd_page i (\<lambda>x. x\<lparr>refcount := f x\<rparr>) s)" by (simp add: keeps_def own)
qed

lemma space_ok_entry:
  assumes "space_ok s p I" "i \<in> I" "256 \<le> i" "i < 768" "user_writable (entry_of s p i)"
  shows "PAGENUMBER (entry_of s p i) < NPAGES" "owner_at s (PAGENUMBER (entry_of s p i)) = of_nat p"
proof -
  have "i < 1024" "i \<noteq> CONSOLE_PAGE" using assms(3,4) by simp_all
  then show "PAGENUMBER (entry_of s p i) < NPAGES" "owner_at s (PAGENUMBER (entry_of s p i)) = of_nat p"
    using assms unfolding space_ok_def entries_ok_def by blast+
qed

lemma copy_pages_spec:
  "copy_pages q c va n s = Some (r, s') \<Longrightarrow> forking q c v s \<Longrightarrow> space_ok s c UNIV \<Longrightarrow> 256 \<le> v \<Longrightarrow>
   v + n = 768 \<Longrightarrow> PAGEOFFSET va = 0 \<Longrightarrow> PAGENUMBER va = v \<Longrightarrow>
     others_kept q s s' \<and> (r \<noteq> - 1 \<longrightarrow> space_ok s' q UNIV)"
proof (induction q c va n s arbitrary: v rule: copy_pages.induct)
  case (1 q c va s)
  then have "{i. i < v} \<union> {i. 768 \<le> i} = UNIV" by auto
  then show ?case using 1 by (simp add: forking_def)
next
  case (2 q c va n s)
  have v: "v < 768" "v < 1024" using "2.prems" by simp_all
  note nxt = PAGENUMBER_next[OF "2.prems"(7,6) v(2)]
  have F: "length (pageinfo s) = NPAGES" "tables_ok s c" "0 < c" "c < NPROC" "c \<noteq> q" "0 < q" "q < NPROC"
    using "2.prems"(2) by (simp_all add: forking_def)
  let ?e = "entry_of s c v"
  have vam: "virtual_memory_lookup (p_pagetable (proc s c)) va (mem s) = Some (vam_of ?e va)"
    using lookup_eq[of _ "mem s" va] F(2) "2.prems"(7) v by (simp add: tables_ok_def)
  note uw = user_writable_flags[of ?e va]
  show ?case
  proof (cases "user_writable ?e")
    case False
    note skip = forking_skip[OF "2.prems"(2) v(1) False]
    show ?thesis
    proof (cases "vm_perm (vam_of ?e va) AND 5 = 5")
      case True
      let ?s1 = "upd_page (nat (vm_pn (vam_of ?e va))) (\<lambda>p. p\<lparr>refcount := refcount p + 1\<rparr>) s"
      have rest: "copy_pages q c (va + PAGESIZE) n ?s1 = Some (r, s')" and pn: "\<not> int NPAGES \<le> vm_pn (vam_of ?e va)"
        using "2.prems"(1) vam uw False True by (auto split: if_splits)
      have "others_kept q s ?s1" using refcount_keeps by (simp add: others_kept_def)
      moreover have "forking q c (Suc v) ?s1" "space_ok ?s1 c UNIV"
        using forking_keeps[OF skip] space_ok_keeps[OF "2.prems"(3)] refcount_keeps(1) F(1) by auto
      then have "others_kept q ?s1 s' \<and> (r \<noteq> - 1 \<longrightarrow> space_ok s' q UNIV)"
        using "2.IH"(1)[OF vam _ _ _ rest, where v = "Suc v"] uw False True nxt "2.prems"(4,5) pn
        by simp
      ultimately show ?thesis using others_kept_trans by blast
    next
      case noread: False
      have rest: "copy_pages q c (va + PAGESIZE) n s = Some (r, s')"
        using "2.prems"(1) vam uw False noread by (auto split: if_splits)
      then show ?thesis
        using "2.IH"(2)[OF vam _ _ rest skip "2.prems"(3)] uw False noread nxt "2.prems"(4,5) by simp
    qed
  next
    case True
    then have w: "vm_perm (vam_of ?e va) AND 7 = 7" using uw by simp
    obtain a s1 where al: "find_free_physic_page (of_nat q) s = (a, s1)" by force
    note oa = alloc_others[OF al F(1), of q]
    show ?thesis
    proof (cases "a = - 1")
      case True
      then show ?thesis using "2.prems"(1) vam w al oa by simp
    next
      case False
      then obtain m1 m2 where m: "virtual_memory_map (p_pagetable (proc s1 q)) va a PAGESIZE (vm_perm (vam_of ?e va)) (mem s1) = Some m1"
        "kernel_memcpy a (vm_pa (vam_of ?e va)) PAGESIZE m1 = Some m2"
        and rest: "copy_pages q c (va + PAGESIZE) n (s1\<lparr>mem := m2\<rparr>) = Some (r, s')"
        using "2.prems"(1) vam w al by (auto simp: bind_eq_Some_conv)
      have p1: "vm_perm (vam_of ?e va) AND PTE_P \<noteq> 0"
        using full_accessD(1)[of "vm_perm (vam_of ?e va)"] w by (simp add: full_access_def)
      then have pa: "vm_pa (vam_of ?e va) = PTE_ADDR ?e"
        using "2.prems"(6) by (auto simp: vam_of_def split: if_splits)
      have "PAGENUMBER ?e < NPAGES \<and> owner_at s (PAGENUMBER ?e) = of_nat c"
        using space_ok_entry[OF "2.prems"(3) UNIV_I "2.prems"(4) v(1) True] by blast
      moreover have "owner_at s (PAGENUMBER a) = PO_FREE"
        using pages.alloc_Some[OF F(1) al False] by blast
      ultimately have src: "PAGENUMBER (vm_pa (vam_of ?e va)) \<noteq> PAGENUMBER a"
        using pid_inj[of c 0] F(3,4) pa by auto
      note C = forking_copy[OF "2.prems"(2,4) v(1) "2.prems"(7) al False m(1) p1 m(2) _ src, unfolded pa, simplified]
      have "others_kept q s (s1\<lparr>mem := m2\<rparr>)"
        using C(2) oa by (simp add: others_kept_def)
      moreover have "space_ok (s1\<lparr>mem := m2\<rparr>) c UNIV"
        using space_ok_keeps[OF "2.prems"(3) C(2)] F by simp
      then have "others_kept q (s1\<lparr>mem := m2\<rparr>) s' \<and> (r \<noteq> - 1 \<longrightarrow> space_ok s' q UNIV)"
        using "2.IH"(3)[OF vam _ al[symmetric] refl False m rest C(1)] w nxt "2.prems"(4,5) by simp
      ultimately show ?thesis using others_kept_trans by blast
    qed
  qed
qed

section \<open>Process updates\<close>

lemma memos_upd_proc [simp]:
  "pageinfo (upd_proc i f s) = pageinfo s" "mem (upd_proc i f s) = mem s"
  "current (upd_proc i f s) = current s" "kernel_pagetable (upd_proc i f s) = kernel_pagetable s"
  "length (processes (upd_proc i f s)) = length (processes s)"
  "j < length (processes s) \<Longrightarrow> proc (upd_proc i f s) j = (if i = j then f (proc s j) else proc s j)"
  by (simp_all add: upd_proc_def nth_upd_nth)

lemma memos_set_eax [simp]:
  "p_pid (set_eax v p) = p_pid p" "p_pagetable (set_eax v p) = p_pagetable p"
  "p_state (set_eax v p) = p_state p"
  by (simp_all add: set_eax_def)

lemma wf_baseD:
  assumes "wf_base s"
  shows "length (pageinfo s) = NPAGES" "length (processes s) = NPROC" "i < NPROC \<Longrightarrow> p_pid (proc s i) = i"
    "p_state (proc s 0) = P_FREE" "0 < current s" "current s < NPROC" "owner_at s CONSOLE_PAGE = PO_RESERVED"
  using assms by (auto simp: wf_base_def)

lemma wf_base_upd:
  "wf_base s \<Longrightarrow> (\<And>x. p_pid (f x) = p_pid x) \<Longrightarrow> 0 < i \<Longrightarrow> wf_base (upd_proc i f s)"
  by (auto simp: wf_base_def)

lemma wf_base_others: "wf_base s \<Longrightarrow> others_kept q s s' \<Longrightarrow> wf_base s'"
  by (simp add: wf_base_def others_kept_def)

lemma live_upd:
  "wf_base s \<Longrightarrow> live (upd_proc i f s) p \<longleftrightarrow>
     (if i = p then 0 < p \<and> p < NPROC \<and> p_state (f (proc s p)) \<noteq> P_FREE else live s p)"
  by (auto simp: live_def wf_base_def)

lemma keeps_upd:
  "wf_base s \<Longrightarrow> p < NPROC \<Longrightarrow> i \<noteq> p \<or> p_pagetable (f (proc s p)) = p_pagetable (proc s p) \<Longrightarrow>
     keeps p s (upd_proc i f s)"
  by (auto simp: keeps_def wf_base_def)

text \<open>Changing a live process without touching its page table, or killing a process.\<close>

lemma wf_memos_upd:
  assumes wf: "wf_memos s" and i: "0 < i" "i < NPROC"
    and f: "\<And>x. p_pid (f x) = p_pid x" "\<And>x. p_pagetable (f x) = p_pagetable x"
    and st: "live s i \<or> p_state (f (proc s i)) = P_FREE"
  shows "wf_memos (upd_proc i f s)"
proof -
  have base: "wf_base s" using wf by (simp add: wf_memos_def)
  have "space_ok (upd_proc i f s) p UNIV" if "live (upd_proc i f s) p" for p
  proof (rule space_ok_keeps)
    show "space_ok s p UNIV"
      using that wf st unfolding wf_memos_def live_upd[OF base] by (auto split: if_splits)
    show "keeps p s (upd_proc i f s)"
      using that base f(2) by (intro keeps_upd) (auto simp: live_def)
  qed
  then show ?thesis using wf_base_upd[OF base f(1) i(1)] by (simp add: wf_memos_def)
qed

text \<open>A step on behalf of \<open>q\<close>: everybody else's space is fine because it is as before.\<close>

lemma wf_memos_others:
  assumes wf: "wf_memos s" and k: "others_kept q s s'" and q: "live s q \<Longrightarrow> space_ok s' q UNIV"
  shows "wf_memos s'"
proof -
  have base: "wf_base s" using wf by (simp add: wf_memos_def)
  have "space_ok s' p UNIV" if "live s' p" for p
  proof -
    have "live s p" using that k by (simp add: live_def others_kept_def)
    then show ?thesis
      using wf q k space_ok_keeps[of s p UNIV s'] by (cases "p = q") (auto simp: wf_memos_def others_kept_def live_def)
  qed
  then show ?thesis using wf_base_others[OF base k] by (simp add: wf_memos_def)
qed

section \<open>The system calls\<close>

lemma copied_others:
  assumes "copied_from s c q pt s'" "length (pageinfo s) = NPAGES"
  shows "others_kept q s s'"
proof -
  have "keeps p s s'" if "0 < p" "p < NPROC" for p
    using assms pid_inj[of p 0] that by (auto simp: copied_from_def keeps_def)
  then show ?thesis using assms by (auto simp: others_kept_def copied_from_def)
qed

lemma read_entry_fails: "read_entry m (- 1) 0 = None"
  by (simp add: read_entry_def in_physical_def)

lemma forking_start:
  assumes wf: "wf_memos s" and c: "live s c" and q: "0 < q" "q < NPROC" "p_state (proc s q) = P_FREE"
    and cp: "copied_from s c q pt s1" "pt \<noteq> - 1"
  defines "s2 \<equiv> upd_proc q (\<lambda>p. p\<lparr>p_pagetable := pt\<rparr>) s1"
  shows "forking q c 256 s2" "space_ok s2 c UNIV"
proof -
  have base: "wf_base s" and ok: "space_ok s c UNIV" and cb: "0 < c" "c < NPROC" and ne: "c \<noteq> q"
    using wf c q(3) by (auto simp: wf_memos_def live_def)
  have len: "length (pageinfo s) = NPAGES" "length (processes s) = NPROC" using base by (auto simp: wf_base_def)
  note others = copied_others[OF cp(1) len(1)]
  have base1: "wf_base s1" by (rule wf_base_others[OF base others])
  have k1: "keeps c s s1" using others cb ne by (simp add: others_kept_def)
  have k2: "keeps c s s2" unfolding s2_def
    by (rule keeps_trans[OF k1]) (use keeps_upd[OF base1 cb(2)] ne in auto)
  show sc: "space_ok s2 c UNIV" by (rule space_ok_keeps[OF ok k2])
  have t: "tables_ok s c" using ok by (simp add: space_ok_def)
  note E = keeps_entries[OF t k2]
  have q2: "p_pagetable (proc s2 q) = pt" "mem s2 = mem s1" "pageinfo s2 = pageinfo s1"
    using base1 q(2) by (simp_all add: s2_def wf_base_def)
  have tq: "tables_ok s2 q" using cp by (simp add: tables_ok_def q2 copied_from_def)
  have ent: "entry_of s2 q i = entry_of s2 c i" if "i < 1024" for i
    using cp E(2)[OF that] that by (simp add: q2 copied_from_def)
  have cons: "i = CONSOLE_PAGE \<and> PAGENUMBER (entry_of s2 c i) = CONSOLE_PAGE"
    if "i < 256 \<or> 768 \<le> i" "i < 1024" "user_writable (entry_of s2 c i)" for i
    using sc that unfolding space_ok_def entries_ok_def by fastforce
  have "entries_ok s2 q ({i. i < 256} \<union> {i. 768 \<le> i})"
    using cons by (auto simp: entries_ok_def ent)
  moreover have "entries_distinct s2 q ({i. i < 256} \<union> {i. 768 \<le> i})"
    by (auto simp: entries_distinct_def)
  ultimately show "forking q c 256 s2"
    using tq ent E(1) cb q ne cp by (simp add: forking_def space_ok_def q2 copied_from_def)
qed

text \<open>How a \<open>fork\<close> that does not panic went: there was no slot, or the copy loop ran.\<close>

definition fork_child :: "nat \<Rightarrow> memos \<Rightarrow> memos" where
  "fork_child q s = upd_proc q (\<lambda>p. p\<lparr>p_state := P_RUNNABLE\<rparr>) (upd_proc q (set_eax 0)
     (upd_proc q (\<lambda>p. p\<lparr>p_registers := p_registers (proc s (current s))\<rparr>) s))"

definition fork_start :: "memos \<Rightarrow> nat \<Rightarrow> memos \<Rightarrow> bool" where
  "fork_start s q s2 \<longleftrightarrow> wf_base s2 \<and> current s2 = current s \<and> forking q (current s) 256 s2
     \<and> space_ok s2 (current s) UNIV
     \<and> (\<forall>p. 0 < p \<and> p < NPROC \<and> p \<noteq> q \<longrightarrow> keeps p s s2 \<and> proc s2 p = proc s p)
     \<and> p_state (proc s2 q) = P_FREE"

lemma fork_started:
  assumes wf: "wf_memos s" and c: "live s (current s)"
    and q: "0 < q" "q < NPROC" "p_state (proc s q) = P_FREE"
    and cp: "copied_from s (current s) q pt s1" "pt \<noteq> - 1"
  shows "fork_start s q (upd_proc q (\<lambda>p. p\<lparr>p_pagetable := pt\<rparr>) s1)"
proof -
  let ?s2 = "upd_proc q (\<lambda>p. p\<lparr>p_pagetable := pt\<rparr>) s1"
  have base: "wf_base s" using wf by (simp add: wf_memos_def)
  note O1 = copied_others[OF cp(1) wf_baseD(1)[OF base]]
  have base1: "wf_base s1" by (rule wf_base_others[OF base O1])
  have base2: "wf_base ?s2" by (rule wf_base_upd[OF base1]) (use q in auto)
  have "keeps p s ?s2 \<and> proc ?s2 p = proc s p" if p: "0 < p" "p < NPROC" "p \<noteq> q" for p
  proof
    have "keeps p s s1" using p O1 by (simp add: others_kept_def)
    moreover have "keeps p s1 ?s2" by (rule keeps_upd[OF base1 p(2)]) (use p in simp)
    ultimately show "keeps p s ?s2" by (rule keeps_trans)
    show "proc ?s2 p = proc s p" using p O1 wf_baseD(2)[OF base1] by (simp add: others_kept_def)
  qed
  then show ?thesis
    using forking_start[OF wf c q cp] base2 O1 q wf_baseD(2)[OF base1]
    by (simp add: fork_start_def others_kept_def)
qed

lemma fork_cases:
  assumes wf: "wf_memos s" and c: "live s (current s)" and eq: "fork s = Some (r, s')"
  obtains (full) "find_free_proc s = None" "r = - 1" "s' = s"
  | (gave_up) q s2 s3 where "find_free_proc s = Some q" "fork_start s q s2"
      "copy_pages q (current s) PROC_START_ADDR 512 s2 = Some (- 1, s3)"
      "release_process q (p_pagetable (proc s3 q)) s3 = Some s'" "r = - 1"
  | (forked) q s2 r3 s3 where "find_free_proc s = Some q" "fork_start s q s2"
      "copy_pages q (current s) PROC_START_ADDR 512 s2 = Some (r3, s3)" "r3 \<noteq> - 1"
      "s' = fork_child q s3" "r = of_nat q"
proof (cases "find_free_proc s")
  case None
  show thesis by (rule full) (use None eq in \<open>simp_all add: fork_def\<close>)
next
  case (Some q)
  let ?c = "current s"
  have q: "0 < q" "q < NPROC" "p_state (proc s q) = P_FREE"
    using Some by (auto simp: find_free_proc_def scan_Some_iff)
  have base: "wf_base s" and tab: "tables_ok s ?c" and cb: "0 < ?c" "?c < NPROC" and ne: "?c \<noteq> q"
    using wf c q(3) by (auto simp: wf_memos_def live_def space_ok_def)
  obtain pt s1 where cp: "copy_pagetable (p_pagetable (proc s ?c)) (of_nat q) s = Some (pt, s1)"
    using eq Some by (auto simp: fork_def bind_eq_Some_conv)
  note C = copy_pagetable_spec[OF wf_baseD(1)[OF base] q(1,2) tab cb cp]
  have pt: "pt \<noteq> - 1"
    using eq Some cp read_entry_fails by (auto simp: fork_def release_process_def)
  define s2 where "s2 = upd_proc q (\<lambda>p. p\<lparr>p_pagetable := pt\<rparr>) s1"
  have start: "fork_start s q s2" unfolding s2_def by (rule fork_started[OF wf c q C pt])
  then have cur: "current s1 = ?c" "p_pid (proc s2 ?c) = ?c"
    using wf_baseD(3)[OF _ cb(2)] by (auto simp: fork_start_def s2_def)
  have "Option.bind (copy_pages q ?c PROC_START_ADDR 512 s2) (\<lambda>(r3, s3). if r3 = - 1
      then Option.bind (release_process q (p_pagetable (proc s3 q)) s3) (\<lambda>s4. Some (- 1, s4))
      else Some (of_nat q, fork_child q s3)) = Some (r, s')"
    using eq Some cp pt unfolding fork_def copy_writable_page_def fork_child_def
    by (simp add: Let_def s2_def[symmetric] cur)
  then obtain r3 s3 where cpy: "copy_pages q ?c PROC_START_ADDR 512 s2 = Some (r3, s3)"
    and rest: "(if r3 = - 1 then Option.bind (release_process q (p_pagetable (proc s3 q)) s3) (\<lambda>s4. Some (- 1, s4))
      else Some (of_nat q, fork_child q s3)) = Some (r, s')"
    by (cases "copy_pages q ?c PROC_START_ADDR 512 s2") auto
  show thesis
  proof (cases "r3 = - 1")
    case True
    show thesis
      by (rule gave_up[OF Some start]) (use True cpy rest in \<open>auto simp: bind_eq_Some_conv\<close>)
  next
    case False
    show thesis by (rule forked[OF Some start cpy False]) (use False rest in simp_all)
  qed
qed

lemma start_va: "PAGEOFFSET PROC_START_ADDR = 0" "PAGENUMBER PROC_START_ADDR = 256"
  by (simp_all add: PAGEOFFSET_def PAGENUMBER_div)

text \<open>The loop changes nothing for anybody but the child.\<close>

lemma fork_loop:
  assumes "fork_start s q s2" "copy_pages q (current s) PROC_START_ADDR 512 s2 = Some (r3, s3)" "q < NPROC"
  shows "wf_base s3" "current s3 = current s" "processes s3 = processes s2" "r3 \<noteq> - 1 \<Longrightarrow> space_ok s3 q UNIV"
    "\<And>p. 0 < p \<Longrightarrow> p < NPROC \<Longrightarrow> p \<noteq> q \<Longrightarrow> keeps p s s3 \<and> proc s3 p = proc s p"
proof -
  have P: "others_kept q s2 s3" "r3 \<noteq> - 1 \<longrightarrow> space_ok s3 q UNIV"
    using copy_pages_spec[OF assms(2) _ _ _ _ start_va] assms(1) by (auto simp: fork_start_def)
  show "wf_base s3" using wf_base_others[OF _ P(1)] assms(1) by (simp add: fork_start_def)
  show pr: "current s3 = current s" "processes s3 = processes s2"
    using P(1) assms(1) by (simp_all add: others_kept_def fork_start_def)
  show "r3 \<noteq> - 1 \<Longrightarrow> space_ok s3 q UNIV" using P(2) by blast
  fix p assume p: "0 < p" "p < NPROC" "p \<noteq> q"
  then have "keeps p s s2" "keeps p s2 s3" "proc s2 p = proc s p"
    using P(1) assms(1) by (simp_all add: others_kept_def fork_start_def)
  then show "keeps p s s3 \<and> proc s3 p = proc s p" using keeps_trans pr(2) by metis
qed

lemma fork_child_fields:
  assumes "wf_base s" "q < NPROC" "0 < q"
  shows "wf_base (fork_child q s)" "mem (fork_child q s) = mem s" "pageinfo (fork_child q s) = pageinfo s"
    "current (fork_child q s) = current s"
    "\<And>p. p < NPROC \<Longrightarrow> p \<noteq> q \<Longrightarrow> proc (fork_child q s) p = proc s p"
    "proc (fork_child q s) q = (proc s q)\<lparr>p_registers := (p_registers (proc s (current s)))\<lparr>reg_eax := 0\<rparr>,
       p_state := P_RUNNABLE\<rparr>"
  unfolding fork_child_def using assms wf_baseD(2)[OF assms(1)]
  by (auto intro!: wf_base_upd simp: set_eax_def)

lemma fork_wf:
  assumes wf: "wf_memos s" and c: "live s (current s)" and eq: "fork s = Some (r, s')"
  shows "wf_memos s' \<and> current s' = current s \<and> p_state (proc s' (current s)) = p_state (proc s (current s))"
  using wf c eq
proof (cases rule: fork_cases)
  case (gave_up q s2 s3)
  have q: "0 < q" "q < NPROC" "p_state (proc s q) = P_FREE"
    using gave_up(1) by (auto simp: find_free_proc_def scan_Some_iff)
  have cb: "0 < current s" "current s < NPROC" "current s \<noteq> q" using c q(3) by (auto simp: live_def)
  note L = fork_loop[OF gave_up(2,3) q(2)]
  have rel: "pages_of q s3 s'" by (rule release_process_pages[OF gave_up(4)])
  have O4: "others_kept q s3 s'" by (rule pages_of_others[OF rel wf_baseD(1)[OF L(1)] q(2)])
  have pr: "processes s' = processes s3" using rel by (simp add: pages_of_def)
  have "space_ok s' p UNIV" if "live s' p" for p
  proof -
    have p: "0 < p" "p < NPROC" using that by (auto simp: live_def)
    have pq: "p \<noteq> q" using that gave_up(2) pr L(3) by (auto simp: live_def fork_start_def)
    then have "live s p" using that L(5)[OF p] pr by (simp add: live_def)
    moreover have "keeps p s s'" using L(5)[OF p pq] O4 p pq keeps_trans by (auto simp: others_kept_def)
    ultimately show ?thesis using wf space_ok_keeps by (auto simp: wf_memos_def)
  qed
  then show ?thesis
    using wf_base_others[OF L(1) O4] rel L(2) L(5)[OF cb] pr by (simp add: wf_memos_def pages_of_def)
next
  case (forked q s2 r3 s3)
  have q: "0 < q" "q < NPROC" "p_state (proc s q) = P_FREE"
    using forked(1) by (auto simp: find_free_proc_def scan_Some_iff)
  have cb: "0 < current s" "current s < NPROC" "current s \<noteq> q" using c q(3) by (auto simp: live_def)
  note L = fork_loop[OF forked(2,3) q(2)]
  note C = fork_child_fields[OF L(1) q(2,1)]
  have "space_ok s' p UNIV" if l: "live s' p" for p
  proof (cases "p = q")
    case True
    show ?thesis
      by (rule space_ok_cong[OF L(4)[OF forked(4), folded True]]) (simp_all add: forked(5) C True)
  next
    case ne: False
    have p: "0 < p" "p < NPROC" using l by (auto simp: live_def)
    have "live s p" using l C(5)[OF p(2) ne] L(5)[OF p ne] by (simp add: live_def forked(5))
    then have "space_ok s3 p UNIV" using wf L(5)[OF p ne] space_ok_keeps by (auto simp: wf_memos_def)
    then show ?thesis by (rule space_ok_cong) (simp_all add: forked(5) C(2,3) C(5)[OF p(2) ne])
  qed
  then show ?thesis
    using C(1,4) L(2) C(5)[OF cb(2,3)] L(5)[OF cb] by (simp add: wf_memos_def forked(5))
qed (use wf in simp)

lemma live_cong: "processes s' = processes s \<Longrightarrow> live s' p = live s p"
  by (simp add: live_def)

lemma page_alloc_wf:
  assumes wf: "wf_memos s" and c: "live s (current s)" and eq: "sys_page_alloc s = Some s'"
  shows "wf_memos s' \<and> current s' = current s \<and> p_state (proc s' (current s)) = p_state (proc s (current s))"
proof -
  let ?c = "current s" and ?addr = "reg_eax (p_registers (proc s (current s)))"
  have base: "wf_base s" and sc: "space_ok s ?c UNIV" and cb: "0 < ?c" "?c < NPROC"
    using wf c by (auto simp: wf_memos_def live_def)
  note B = wf_baseD[OF base]
  obtain a s1 where al: "find_free_physic_page (of_nat ?c) s = (a, s1)" by force
  note fr = find_free_frame[OF al] and O1 = alloc_others[OF al B(1), of ?c]
  consider (fail) "\<exists>v t. s' = upd_proc ?c (set_eax v) t \<and> (t = s \<or> a = - 1 \<and> t = s1)"
    | (success) m where "a \<noteq> - 1" "s' = upd_proc ?c (set_eax 1) (s1\<lparr>mem := m\<rparr>)"
      "PROC_START_ADDR \<le> ?addr" "?addr < MEMSIZE_VIRTUAL - PAGESIZE"
      "virtual_memory_map (p_pagetable (proc s1 ?c)) ?addr a PAGESIZE 7 (mem s1) = Some m"
    using eq al B(3)[OF cb(2)]
    by (auto simp: sys_page_alloc_def Let_def bind_eq_Some_conv not_less split: if_splits)
  then show ?thesis
  proof cases
    case fail
    then obtain v t where s': "s' = upd_proc ?c (set_eax v) t" and t: "t = s \<or> a = - 1 \<and> t = s1" by blast
    have "wf_memos t" "processes t = processes s" "current t = ?c"
      using t wf al fr pages.alloc_None[OF B(1), of "of_nat ?c" s1] by auto
    moreover from this have "live t ?c" using c live_cong[of t s] by simp
    ultimately show ?thesis
      using wf_memos_upd[of t ?c "set_eax v"] cb B(2) by (auto simp: s')
  next
    case success
    have lt: "256 \<le> PAGENUMBER ?addr" "PAGENUMBER ?addr < 768"
    proof -
      have "1048576 \<le> unat ?addr" "unat ?addr < 768 * 4096"
        using success(3,4) by (simp_all add: word_le_nat_alt word_less_nat_alt)
      then show "256 \<le> PAGENUMBER ?addr" "PAGENUMBER ?addr < 768"
        using div_le_mono[of 1048576 "unat ?addr" 4096] less_mult_imp_div_less
        by (simp_all add: PAGENUMBER_div)
    qed
    note M = map_fresh[OF B(1) cb sc al success(1,5) lt]
    let ?s2 = "s1\<lparr>mem := m\<rparr>"
    have O2: "others_kept ?c s ?s2" using O1 M(2) by (simp add: others_kept_def)
    have "wf_memos ?s2" using M(1) by (intro wf_memos_others[OF wf O2]) simp
    moreover have "live ?s2 ?c" using c fr live_cong[of ?s2 s] by simp
    ultimately show ?thesis
      using wf_memos_upd[of ?s2 ?c "set_eax 1"] cb B(2) fr by (auto simp: success(2))
  qed
qed

lemma wf_memos_fields:
  "wf_memos (s\<lparr>ticks := x\<rparr>) = wf_memos s" "wf_memos (s\<lparr>last_ticks := y\<rparr>) = wf_memos s"
  "wf_memos (s\<lparr>last_ticks := y, showing := z\<rparr>) = wf_memos s" "wf_memos (s\<lparr>showing := z\<rparr>) = wf_memos s"
  by (simp_all add: wf_memos_def wf_base_def live_def space_ok_def tables_ok_def entries_ok_def entries_distinct_def)

lemma wf_memos_current: "wf_memos s \<Longrightarrow> 0 < i \<Longrightarrow> i < NPROC \<Longrightarrow> wf_memos (s\<lparr>current := i\<rparr>)"
  by (simp add: wf_memos_def wf_base_def live_def space_ok_def tables_ok_def entries_ok_def entries_distinct_def)

lemma memos_run_wf:
  assumes "wf_memos s" "i < NPROC"
  shows "wf_outcome (run L i s)"
proof (cases "p_state (proc s i) = P_RUNNABLE")
  case True
  then have "0 < i" using assms(1) by (cases "i = 0") (auto simp: wf_memos_def wf_base_def)
  then show ?thesis
    using wf_memos_current[OF assms(1)] assms(2) True by (auto simp: run_def wf_outcome_def live_def)
qed (simp add: run_def wf_outcome_def)

lemma memos_schedule_sound:
  "schedule_loop s p = Some q \<Longrightarrow> p_state (proc s q) = P_RUNNABLE \<and> q < NPROC"
proof (rule schedule_loop.raw_induct
    [where P = "\<lambda>s p q. p_state (proc s q) = P_RUNNABLE \<and> q < NPROC"])
  fix f s p q
  assume IH: "\<And>s p q. f s p = Some q \<Longrightarrow> p_state (proc s q) = P_RUNNABLE \<and> q < NPROC"
    and eq: "(let pid' = (p + 1) mod NPROC
      in if p_state (proc s pid') = P_RUNNABLE then Some pid' else f s pid') = Some q"
  show "p_state (proc s q) = P_RUNNABLE \<and> q < NPROC"
    using eq IH[of s "(p + 1) mod NPROC" q] by (auto simp: Let_def split: if_splits)
qed

interpretation memos_rr: round_robin "\<lambda>s i. p_state (proc s i) = P_RUNNABLE" NPROC schedule_loop
proof
  show "schedule_loop s p = (let q = (p + 1) mod NPROC
      in if p_state (proc s q) = P_RUNNABLE then Some q else schedule_loop s q)" for s p
    by (rule schedule_loop.simps)
qed (simp, rule memos_schedule_sound)

interpretation memos_slot: slot_search "\<lambda>s i. p_state (proc s i) = P_FREE" NPROC find_free_proc
proof -
  have "find_free_proc = (\<lambda>s. scan (\<lambda>i. p_state (proc s i) = P_FREE) 1 (NPROC - 1))"
    by (simp add: fun_eq_iff find_free_proc_def)
  then show "slot_search (\<lambda>s i. p_state (proc s i) = P_FREE) NPROC find_free_proc"
    using slot_search_scan[of "\<lambda>s i. p_state (proc s i) = P_FREE" NPROC] by simp
qed

lemma memos_schedule_wf: "wf_memos s \<Longrightarrow> wf_outcome (schedule L s)"
  using memos_rr.pick_sound memos_run_wf
  by (fastforce simp: schedule_def wf_outcome_def split: option.split)

lemma sys_exit_wf:
  assumes wf: "wf_memos s" and c: "live s (current s)"
  shows "wf_outcome (sys_exit L s)"
proof -
  let ?c = "current s"
  let ?s1 = "upd_proc ?c (\<lambda>p. p\<lparr>p_state := P_BLOCKED\<rparr>) s"
  have base: "wf_base s" and cb: "0 < ?c" "?c < NPROC" using wf c by (auto simp: wf_memos_def live_def)
  have wf1: "wf_memos ?s1" using c cb by (intro wf_memos_upd[OF wf]) auto
  have base1: "wf_base ?s1" using wf1 by (simp add: wf_memos_def)
  have pid: "p_pid (proc ?s1 ?c) = ?c" by (rule wf_baseD(3)[OF base1 cb(2)])
  show ?thesis
  proof (cases "release_process ?c (p_pagetable (proc ?s1 ?c)) ?s1")
    case None
    then show ?thesis by (simp only: sys_exit_def Let_def pid) (simp add: wf_outcome_def)
  next
    case (Some s2)
    let ?s3 = "upd_proc ?c (\<lambda>p. p\<lparr>p_state := P_FREE\<rparr>) s2"
    have rel: "pages_of ?c ?s1 s2" by (rule release_process_pages[OF Some])
    have O: "others_kept ?c ?s1 s2" by (rule pages_of_others[OF rel wf_baseD(1)[OF base1] cb(2)])
    have base2: "wf_base s2" by (rule wf_base_others[OF base1 O])
    have "space_ok ?s3 p UNIV" if l: "live ?s3 p" for p
    proof -
      have p: "p \<noteq> ?c" "live s2 p" "0 < p" "p < NPROC"
        using l unfolding live_upd[OF base2] by (auto simp: live_def split: if_splits)
      then have "space_ok ?s1 p UNIV" using wf1 O by (auto simp: wf_memos_def live_def others_kept_def)
      moreover have "keeps p ?s1 s2" using O p by (simp add: others_kept_def)
      moreover have "keeps p s2 ?s3" using keeps_upd[OF base2 p(4)] p(1) by simp
      ultimately show ?thesis using space_ok_keeps keeps_trans by blast
    qed
    then have "wf_memos ?s3"
      using wf_base_upd[OF base2, of "\<lambda>p. p\<lparr>p_state := P_FREE\<rparr>" ?c] cb by (simp add: wf_memos_def)
    then have "wf_outcome (schedule L ?s3)" by (rule memos_schedule_wf)
    then show ?thesis using Some by (simp only: sys_exit_def Let_def pid) simp
  qed
qed

lemma resume_wf:
  assumes "\<And>s. r = Some s \<Longrightarrow> wf_memos s"
  shows "wf_outcome (resume L r)"
  using assms memos_run_wf memos_schedule_wf
  by (auto simp: resume_def wf_outcome_def wf_memos_def wf_base_def split: option.split)

lemma handle_wf:
  assumes wf: "wf_memos s" and c: "live s (current s)"
  shows "wf_outcome (handle L reg s)"
proof -
  have cb: "0 < current s" "current s < NPROC" using c by (auto simp: live_def)
  have upd: "wf_memos (upd_proc (current s) f s)"
    if "\<And>x. p_pid (f x) = p_pid x" "\<And>x. p_pagetable (f x) = p_pagetable x" for f
    using that c by (intro wf_memos_upd[OF wf cb]) auto
  have fork: "wf_memos t" if e: "sys_fork s = Some t" for t
  proof -
    obtain r s1 where f: "fork s = Some (r, s1)" and t: "t = upd_proc (current s1) (set_eax r) s1"
      using e by (auto simp: sys_fork_def bind_eq_Some_conv)
    note W = fork_wf[OF wf c f]
    then have "live s1 (current s1)" using c by (simp add: live_def)
    then show ?thesis unfolding t using W cb by (intro wf_memos_upd) auto
  qed
  show ?thesis
    unfolding handle_def Let_def
    using upd fork page_alloc_wf[OF wf c] sys_exit_wf[OF wf c]
      memos_schedule_wf[OF wf] memos_schedule_wf[of "s\<lparr>ticks := ticks s + 1\<rparr>"] wf
    by (auto simp: wf_memos_fields wf_outcome_def[of Panic] intro!: resume_wf)
qed

lemma animate_wf:
  assumes "memshow_virtual_animate s = Some s'"
  shows "wf_memos s' = wf_memos s" "processes s' = processes s" "current s' = current s"
  using assms
  by (auto simp: memshow_virtual_animate_def Let_def wf_memos_fields bind_eq_Some_conv split: if_splits)

theorem exception_wf:
  assumes wf: "wf_memos s" and c: "live s (current s)"
  shows "wf_outcome (exception L reg s)"
proof -
  let ?s = "upd_proc (current s) (\<lambda>p. p\<lparr>p_registers := reg\<rparr>) s"
  have base: "wf_base s" and cb: "0 < current s" "current s < NPROC"
    using wf c by (auto simp: wf_memos_def live_def)
  have wf1: "wf_memos ?s" using c by (intro wf_memos_upd[OF wf cb]) auto
  have c1: "live ?s (current ?s)" using c unfolding live_upd[OF base] by (auto simp: live_def)
  have "wf_outcome (handle L reg s1)" if "memshow_virtual_animate ?s = Some s1" for s1
    using animate_wf[OF that] wf1 c1 live_cong[OF animate_wf(2)[OF that]] by (intro handle_wf) simp_all
  then show ?thesis
    using handle_wf[OF wf1 c1] unfolding exception_def Let_def
    by (simp add: wf_outcome_def[of Panic] split: option.split)
qed

end
