(* ===== verification/Memos_Props.thy ===== *)
theory Memos_Props
  imports Memos_Isolation
begin

text \<open>
  The properties of MemOS: isolation of the processes' memory, what \<open>fork\<close> gives the
  child, and the ways user code can stop the kernel or leak its memory.
\<close>

section \<open>What the copy loop of fork leaves in the child\<close>

text \<open>
  Page \<open>i\<close> of the child is a private copy of the parent's page where the parent may write,
  and the very same entry elsewhere.
\<close>

definition page_copied :: "nat \<Rightarrow> nat \<Rightarrow> nat \<Rightarrow> memos \<Rightarrow> bool" where
  "page_copied q c i s \<longleftrightarrow>
     (if user_writable (entry_of s c i)
      then PTE_FLAGS (entry_of s q i) = PTE_FLAGS (entry_of s c i)
        \<and> PAGENUMBER (entry_of s q i) < NPAGES
        \<and> owner_at s (PAGENUMBER (entry_of s q i)) = of_nat q
        \<and> PAGENUMBER (entry_of s q i) \<noteq> PAGENUMBER (l2 s q)
        \<and> (\<forall>k < 4096. mem s (PTE_ADDR (entry_of s q i) + of_nat k) = mem s (PTE_ADDR (entry_of s c i) + of_nat k))
      else entry_of s q i = entry_of s c i)"

lemma page_copied_keep:
  assumes pc: "page_copied q c i s" and i: "256 \<le> i" "i < 768"
    and sc: "space_ok s c UNIV" and kc: "keeps c s s'"
    and eq: "entry_of s' q i = entry_of s q i" "l2 s' q = l2 s q"
    and own: "\<And>j. j < NPAGES \<Longrightarrow> owner_at s j = of_nat q \<Longrightarrow> owner_at s' j = of_nat q"
    and bytes: "\<And>x. PAGENUMBER x < NPAGES \<Longrightarrow> owner_at s (PAGENUMBER x) = of_nat q \<Longrightarrow>
        PAGENUMBER x \<noteq> PAGENUMBER (l2 s q) \<Longrightarrow> mem s' x = mem s x"
  shows "page_copied q c i s'"
proof -
  have t: "tables_ok s c" using sc by (simp add: space_ok_def)
  have ec: "entry_of s' c i = entry_of s c i" using keeps_entries(2)[OF t kc] i by simp
  show ?thesis
  proof (cases "user_writable (entry_of s c i)")
    case False
    then show ?thesis using pc unfolding page_copied_def ec eq(1) by simp
  next
    case True
    let ?p = "PTE_ADDR (entry_of s q i)" and ?c = "PTE_ADDR (entry_of s c i)"
    have P: "PTE_FLAGS (entry_of s q i) = PTE_FLAGS (entry_of s c i)"
        "PAGENUMBER (entry_of s q i) < NPAGES" "owner_at s (PAGENUMBER (entry_of s q i)) = of_nat q"
        "PAGENUMBER (entry_of s q i) \<noteq> PAGENUMBER (l2 s q)"
        "\<And>k. k < 4096 \<Longrightarrow> mem s (?p + of_nat k) = mem s (?c + of_nat k)"
      using pc True unfolding page_copied_def by simp_all
    note par = space_ok_entry[OF sc UNIV_I i True]
    have "mem s' (?p + of_nat k) = mem s' (?c + of_nat k)" if k: "k < 4096" for k
    proof -
      have "PAGENUMBER (?p + of_nat k) = PAGENUMBER (entry_of s q i)"
        "PAGENUMBER (?c + of_nat k) = PAGENUMBER (entry_of s c i)"
        using page_byte(2)[OF PAGEOFFSET_PTE_ADDR k] by (simp_all only: PAGENUMBER_PTE_ADDR)
      then show ?thesis
        using bytes[of "?p + of_nat k"] P(2-4) P(5)[OF k] kc par by (simp add: keeps_def)
    qed
    then show ?thesis
      using P own[OF P(2,3)] True unfolding page_copied_def ec eq(1) unfolding eq(2) by simp
  qed
qed

lemma page_copied_step:
  assumes inv: "forking q c v s" and sc: "space_ok s c UNIV" and v: "256 \<le> v" "v < 768" and va: "PAGENUMBER va = v"
    and alloc: "find_free_physic_page (of_nat q) s = (a, s1)" "a \<noteq> - 1"
    and map: "virtual_memory_map (p_pagetable (proc s1 q)) va a PAGESIZE (PTE_FLAGS (entry_of s c v)) (mem s1) = Some m1"
    and copy: "kernel_memcpy a (PTE_ADDR (entry_of s c v)) PAGESIZE m1 = Some m2"
    and uw: "user_writable (entry_of s c v)"
    and prev: "\<forall>i. 256 \<le> i \<and> i < v \<longrightarrow> page_copied q c i s"
  shows "\<forall>i. 256 \<le> i \<and> i < Suc v \<longrightarrow> page_copied q c i (s1\<lparr>mem := m2\<rparr>)"
proof -
  let ?s2 = "s1\<lparr>mem := m1\<rparr>" and ?s3 = "s1\<lparr>mem := m2\<rparr>" and ?e = "entry_of s c v"
  have F: "length (pageinfo s) = NPAGES" "0 < q" "q < NPROC" "0 < c" "c < NPROC" "c \<noteq> q"
    "space_ok s q ({i. i < v} \<union> {i. 768 \<le> i})"
    using inv by (auto simp: forking_def)
  have full: "PTE_FLAGS ?e AND 7 = 7"
    using uw by (simp add: user_writable_def PTE_FLAGS_def and.assoc)
  then have perm: "PTE_FLAGS ?e AND PTE_P \<noteq> 0"
    using full_accessD(1)[of "PTE_FLAGS ?e"] by (simp add: full_access_def)
  note fr = find_free_frame[OF alloc(1)] and al = pages.alloc_Some[OF F(1) alloc]
  note M = map_fresh[OF F(1-3,7) alloc map _ _ perm, unfolded va, OF v]
  have free: "(of_nat q :: i8) \<noteq> PO_FREE" "(of_nat c :: i8) \<noteq> PO_FREE" using pid_inj[of _ 0] F by simp_all
  note par = space_ok_entry[OF sc UNIV_I v uw]
  have a: "PAGEOFFSET a = 0" using fr(6) alloc(2) by simp
  have src: "PAGENUMBER (PTE_ADDR ?e) \<noteq> PAGENUMBER a" using par al free(2) by auto
  then have "a \<noteq> PTE_ADDR ?e" by blast
  then have m2: "agree_except (PAGENUMBER a) m1 m2"
    "\<And>k. k < 4096 \<Longrightarrow> m2 (a + of_nat k) = m1 (PTE_ADDR ?e + of_nat k)"
    using copy memcpy_page(1,3)[OF a PAGEOFFSET_PTE_ADDR] by (auto simp: kernel_memcpy_def split: if_splits)
  have bytes2: "mem ?s3 x = mem ?s2 x"
    if "PAGENUMBER x = PAGENUMBER (p_pagetable (proc ?s2 q)) \<or> PAGENUMBER x = PAGENUMBER (l2 ?s2 q)" for x
    using that m2(1) M(6,7) by (auto simp: agree_except_def)
  have wf2: "wf_table (p_pagetable (proc ?s2 q)) (mem ?s2)"
    using M(1) by (simp add: space_ok_def tables_ok_def)
  note T = tables_cong[OF wf2 bytes2]
  have l2': "l2 ?s3 q = l2 s q" using T(2) M(9) by simp
  have ent: "entry_of ?s3 q i = entry_of ?s2 q i" if "i < 1024" for i
    using T(3)[OF _ that] T(2) by simp
  have own: "owner_at ?s3 j = (if j = PAGENUMBER a then of_nat q else owner_at s j)" for j using al by simp
  have bytes: "m2 x = mem s x" if "PAGENUMBER x \<noteq> PAGENUMBER (l2 s q)" "owner_at s (PAGENUMBER x) \<noteq> PO_FREE" for x
  proof -
    have "PAGENUMBER x \<noteq> PAGENUMBER a" using that(2) al by metis
    then show ?thesis using m2(1) M(10)[OF that(1)] by (simp add: agree_except_def)
  qed
  have kc: "keeps c s ?s3"
    using forking_copy(2)[OF inv v va alloc map perm copy PAGEOFFSET_PTE_ADDR src F(4,5,6)] .
  have old: "page_copied q c i ?s3" if i: "256 \<le> i" "i < v" for i
  proof (rule page_copied_keep[OF _ i(1) _ sc kc])
    show "page_copied q c i s" using prev i by blast
    show "i < 768" using i v by simp
    show "entry_of ?s3 q i = entry_of s q i" using ent[of i] M(3)[of i] i v by simp
    show "l2 ?s3 q = l2 s q" by (rule l2')
  qed (use own al free bytes in auto)
  have new: "page_copied q c v ?s3"
  proof -
    have ec: "entry_of ?s3 c v = ?e"
      using keeps_entries(2)[OF _ kc, of v] sc v by (simp add: space_ok_def)
    have eq: "entry_of ?s3 q v = a OR PTE_FLAGS ?e" using ent[of v] M(8) v by simp
    note parts = entry_parts[OF a flags_less, of ?e]
    have "m2 (a + of_nat k) = m2 (PTE_ADDR ?e + of_nat k)" if k: "k < 4096" for k
    proof -
      have "PAGENUMBER (PTE_ADDR ?e + of_nat k) = PAGENUMBER ?e"
        using page_byte(2)[OF PAGEOFFSET_PTE_ADDR k] by (simp only: PAGENUMBER_PTE_ADDR)
      then have "m2 (PTE_ADDR ?e + of_nat k) = m1 (PTE_ADDR ?e + of_nat k)"
        using m2(1) src by (simp add: agree_except_def)
      then show ?thesis using m2(2)[OF k] by simp
    qed
    then show ?thesis
      unfolding page_copied_def ec eq parts(1,2,3) unfolding l2'
      using uw al fr(7) alloc(2) own M(7)[unfolded M(9)] by simp
  qed
  show ?thesis using old new less_Suc_eq by auto
qed

lemma refcount_frame:
  "mem (upd_page i f s) = mem s" "proc (upd_page i f s) p = proc s p"
  by simp_all

lemma copy_pages_content:
  "copy_pages q c va n s = Some (r, s') \<Longrightarrow> forking q c v s \<Longrightarrow> space_ok s c UNIV \<Longrightarrow> 256 \<le> v \<Longrightarrow>
   v + n = 768 \<Longrightarrow> PAGEOFFSET va = 0 \<Longrightarrow> PAGENUMBER va = v \<Longrightarrow> r \<noteq> - 1 \<Longrightarrow>
   \<forall>i. 256 \<le> i \<and> i < v \<longrightarrow> page_copied q c i s \<Longrightarrow>
     \<forall>i. 256 \<le> i \<and> i < 768 \<longrightarrow> page_copied q c i s'"
proof (induction q c va n s arbitrary: v rule: copy_pages.induct)
  case (1 q c va s)
  then show ?case by simp
next
  case (2 q c va n s)
  have v: "v < 768" "v < 1024" using "2.prems" by simp_all
  note nxt = PAGENUMBER_next[OF "2.prems"(7,6) v(2)]
  have F: "length (pageinfo s) = NPAGES" "tables_ok s c" "0 < c" "c < NPROC" "c \<noteq> q" "0 < q" "q < NPROC"
    "entry_of s q v = entry_of s c v"
    using "2.prems"(2) v by (simp_all add: forking_def)
  let ?e = "entry_of s c v"
  have vam: "virtual_memory_lookup (p_pagetable (proc s c)) va (mem s) = Some (vam_of ?e va)"
    using lookup_eq[of _ "mem s" va] F(2) "2.prems"(7) v by (simp add: tables_ok_def)
  note uw = user_writable_flags[of ?e va]
  show ?case
  proof (cases "user_writable ?e")
    case False
    note skip = forking_skip[OF "2.prems"(2) v(1) False]
    have pc: "\<forall>i. 256 \<le> i \<and> i < Suc v \<longrightarrow> page_copied q c i s"
      using "2.prems"(9) False F(8) by (auto simp: less_Suc_eq page_copied_def)
    show ?thesis
    proof (cases "vm_perm (vam_of ?e va) AND 5 = 5")
      case True
      let ?s1 = "upd_page (nat (vm_pn (vam_of ?e va))) (\<lambda>p. p\<lparr>refcount := refcount p + 1\<rparr>) s"
      have rest: "copy_pages q c (va + PAGESIZE) n ?s1 = Some (r, s')" and pn: "\<not> int NPAGES \<le> vm_pn (vam_of ?e va)"
        using "2.prems"(1) vam uw False True by (auto split: if_splits)
      have f1: "forking q c (Suc v) ?s1" "space_ok ?s1 c UNIV"
        using forking_keeps[OF skip] space_ok_keeps[OF "2.prems"(3)] refcount_keeps(1) F(1) by auto
      have pc1: "\<forall>i. 256 \<le> i \<and> i < Suc v \<longrightarrow> page_copied q c i ?s1"
        using pc unfolding page_copied_def refcount_frame refcount_keeps(2) .
      show ?thesis
        using "2.IH"(1)[OF vam _ _ _ rest f1 _ _ _ _ "2.prems"(8) pc1] uw False True nxt "2.prems"(4,5) pn by simp
    next
      case noread: False
      have rest: "copy_pages q c (va + PAGESIZE) n s = Some (r, s')"
        using "2.prems"(1) vam uw False noread by (auto split: if_splits)
      then show ?thesis
        using "2.IH"(2)[OF vam _ _ rest skip "2.prems"(3) _ _ _ _ "2.prems"(8) pc] uw False noread nxt "2.prems"(4,5) by simp
    qed
  next
    case True
    then have w: "vm_perm (vam_of ?e va) AND 7 = 7" using uw by simp
    obtain a s1 where al: "find_free_physic_page (of_nat q) s = (a, s1)" by force
    have ne: "a \<noteq> - 1" using "2.prems"(1,8) vam w al by auto
    then obtain m1 m2 where m: "virtual_memory_map (p_pagetable (proc s1 q)) va a PAGESIZE (vm_perm (vam_of ?e va)) (mem s1) = Some m1"
      "kernel_memcpy a (vm_pa (vam_of ?e va)) PAGESIZE m1 = Some m2"
      and rest: "copy_pages q c (va + PAGESIZE) n (s1\<lparr>mem := m2\<rparr>) = Some (r, s')"
      using "2.prems"(1) vam w al by (auto simp: bind_eq_Some_conv)
    have p1: "vm_perm (vam_of ?e va) AND PTE_P \<noteq> 0"
      using full_accessD(1)[of "vm_perm (vam_of ?e va)"] w by (simp add: full_access_def)
    then have pa: "vm_pa (vam_of ?e va) = PTE_ADDR ?e" "vm_perm (vam_of ?e va) = PTE_FLAGS ?e"
      using "2.prems"(6) by (auto simp: vam_of_def split: if_splits)
    have free: "owner_at s (PAGENUMBER a) = PO_FREE"
      using pages.alloc_Some[OF F(1) al ne] by blast
    have src: "PAGENUMBER (PTE_ADDR ?e) \<noteq> PAGENUMBER a"
      using space_ok_entry(2)[OF "2.prems"(3) UNIV_I "2.prems"(4) v(1) True] free pid_inj[of c 0] F(3,4) by auto
    note C = forking_copy[OF "2.prems"(2,4) v(1) "2.prems"(7) al ne m(1) p1 m(2)[unfolded pa] PAGEOFFSET_PTE_ADDR src]
    have sc: "space_ok (s1\<lparr>mem := m2\<rparr>) c UNIV"
      using space_ok_keeps[OF "2.prems"(3) C(2)] F by simp
    have pc: "\<forall>i. 256 \<le> i \<and> i < Suc v \<longrightarrow> page_copied q c i (s1\<lparr>mem := m2\<rparr>)"
      using page_copied_step[OF "2.prems"(2,3,4) v(1) "2.prems"(7) al ne m[unfolded pa] True "2.prems"(9)] .
    show ?thesis
      using "2.IH"(3)[OF vam _ al[symmetric] refl ne m rest C(1) sc _ _ _ _ "2.prems"(8) pc] w nxt "2.prems"(4,5) by simp
  qed
qed

section \<open>Isolation\<close>

text \<open>
  User code may change what its page table lets it write, and trap with registers of its
  choice; nothing else happens outside the kernel.
\<close>

definition may_write :: "memos \<Rightarrow> nat \<Rightarrow> nat \<Rightarrow> bool" where
  "may_write s p pn \<longleftrightarrow> (\<exists>va vam. virtual_memory_lookup (p_pagetable (proc s p)) va (mem s) = Some vam
     \<and> vm_perm vam AND 7 = 7 \<and> vm_pn vam = int pn)"

inductive memos_reach :: "layout \<Rightarrow> memos \<Rightarrow> memos \<Rightarrow> bool" for L s0 where
  start: "memos_reach L s0 s0"
| user: "memos_reach L s0 s \<Longrightarrow> (\<And>a. m a \<noteq> mem s a \<Longrightarrow> may_write s (current s) (PAGENUMBER a)) \<Longrightarrow>
     memos_reach L s0 (s\<lparr>mem := m\<rparr>)"
| trap: "memos_reach L s0 s \<Longrightarrow> exception L reg s = Resume s' \<Longrightarrow> memos_reach L s0 s'"

lemma may_write_entry:
  assumes "wf_table (p_pagetable (proc s p)) (mem s)"
  shows "may_write s p pn \<longleftrightarrow> (\<exists>i < 1024. user_writable (entry_of s p i) \<and> PAGENUMBER (entry_of s p i) = pn)"
proof
  assume "may_write s p pn"
  then obtain va vam where l: "virtual_memory_lookup (p_pagetable (proc s p)) va (mem s) = Some vam"
    "vm_perm vam AND 7 = 7" "vm_pn vam = int pn" by (auto simp: may_write_def)
  have v: "PAGENUMBER va < 1024"
    using lookup_high[OF assms, of va] l(1,3) by (cases "PAGENUMBER va < 1024") auto
  then have vam: "vam = vam_of (entry_of s p (PAGENUMBER va)) va" using lookup_eq[OF assms v] l(1) by simp
  then have "user_writable (entry_of s p (PAGENUMBER va))" using l(2) user_writable_flags by simp
  moreover have "PAGENUMBER (entry_of s p (PAGENUMBER va)) = pn"
    using l(3) unfolding vam vam_of_def by (simp split: if_splits)
  ultimately show "\<exists>i < 1024. user_writable (entry_of s p i) \<and> PAGENUMBER (entry_of s p i) = pn" using v by blast
next
  assume "\<exists>i < 1024. user_writable (entry_of s p i) \<and> PAGENUMBER (entry_of s p i) = pn"
  then obtain i where i: "i < 1024" "user_writable (entry_of s p i)" "PAGENUMBER (entry_of s p i) = pn" by blast
  have pn: "PAGENUMBER (PAGEADDRESS i) = i" using i(1) by simp
  have lk: "virtual_memory_lookup (p_pagetable (proc s p)) (PAGEADDRESS i) (mem s) = Some (vam_of (entry_of s p i) (PAGEADDRESS i))"
    using lookup_eq[OF assms, of "PAGEADDRESS i"] i(1) pn by simp
  have w: "vm_perm (vam_of (entry_of s p i) (PAGEADDRESS i)) AND 7 = 7" using i(2) user_writable_flags by blast
  then have "vm_pn (vam_of (entry_of s p i) (PAGEADDRESS i)) = int pn"
    using i(3) by (auto simp: vam_of_def split: if_splits)
  then show "may_write s p pn" using lk w by (auto simp: may_write_def)
qed

lemma live_table: "wf_memos s \<Longrightarrow> live s p \<Longrightarrow> wf_table (p_pagetable (proc s p)) (mem s)"
  by (simp add: wf_memos_def space_ok_def tables_ok_def)

text \<open>What a live process may write: the console, and pages of its own that hold no page table of it.\<close>

lemma may_write_own:
  assumes "wf_memos s" "live s p" "may_write s p pn"
  shows "pn = CONSOLE_PAGE \<or> pn < NPAGES \<and> owner_at s pn = of_nat p
    \<and> pn \<noteq> PAGENUMBER (p_pagetable (proc s p)) \<and> pn \<noteq> PAGENUMBER (l2 s p)"
proof -
  obtain i where i: "i < 1024" "user_writable (entry_of s p i)" "PAGENUMBER (entry_of s p i) = pn"
    using assms(3) may_write_entry[OF live_table[OF assms(1,2)]] by blast
  have "entries_ok s p UNIV" using assms by (simp add: wf_memos_def space_ok_def)
  from this[unfolded entries_ok_def, rule_format, of i] i(1,2) show ?thesis
    unfolding i(3) by auto
qed

lemma user_wf:
  assumes wf: "wf_memos s" and c: "live s (current s)"
    and w: "\<And>a. m a \<noteq> mem s a \<Longrightarrow> may_write s (current s) (PAGENUMBER a)"
  shows "wf_memos (s\<lparr>mem := m\<rparr>)"
proof -
  let ?c = "current s"
  have base: "wf_base s" using wf by (simp add: wf_memos_def)
  have cb: "?c < NPROC" using c by (simp add: live_def)
  have "space_ok (s\<lparr>mem := m\<rparr>) p UNIV" if "live (s\<lparr>mem := m\<rparr>) p" for p
  proof -
    have l: "live s p" using that by (simp add: live_def)
    then have ok: "space_ok s p UNIV" and pb: "0 < p" "p < NPROC" using wf by (auto simp: wf_memos_def live_def)
    then have T: "tables_ok s p" by (simp add: space_ok_def)
    note D = wf_tableD[OF live_table[OF wf l]]
    have res: "PO_RESERVED \<noteq> of_nat p"
    proof
      assume "PO_RESERVED = of_nat p"
      then have "unat (- 1 :: i8) = unat (of_nat p :: i8)" by simp
      then show False using pb by (simp add: unat_of_nat)
    qed
    have "m a = mem s a"
      if a: "PAGENUMBER a = PAGENUMBER (p_pagetable (proc s p)) \<or> PAGENUMBER a = PAGENUMBER (l2 s p)" for a
    proof (rule ccontr)
      assume "m a \<noteq> mem s a"
      from may_write_own[OF wf c w[OF this]] have "PAGENUMBER a = CONSOLE_PAGE \<or> owner_at s (PAGENUMBER a) = of_nat ?c
        \<and> PAGENUMBER a \<noteq> PAGENUMBER (p_pagetable (proc s ?c)) \<and> PAGENUMBER a \<noteq> PAGENUMBER (l2 s ?c)" by blast
      moreover have own: "owner_at s (PAGENUMBER a) = of_nat p" using a T by (auto simp: tables_ok_def)
      moreover have "PAGENUMBER a \<noteq> CONSOLE_PAGE" using own res wf_baseD(7)[OF base] by auto
      ultimately have "?c = p" "PAGENUMBER a \<noteq> PAGENUMBER (p_pagetable (proc s p)) \<and> PAGENUMBER a \<noteq> PAGENUMBER (l2 s p)"
        using pid_inj[of ?c p] pb cb by auto
      then show False using a by blast
    qed
    then show ?thesis by (intro space_ok_cong[OF ok]) simp_all
  qed
  then show ?thesis using base by (simp add: wf_memos_def wf_base_def)
qed

lemma reach_wf: "memos_reach L s0 s \<Longrightarrow> wf_memos s0 \<Longrightarrow> live s0 (current s0) \<Longrightarrow> wf_memos s \<and> live s (current s)"
proof (induction rule: memos_reach.induct)
  case (user s m)
  have "wf_memos s" "live s (current s)" using user.IH user.prems by blast+
  then show ?case using user_wf[OF _ _ user.hyps(2)] by (simp add: live_def)
next
  case (trap s reg s')
  then show ?case using exception_wf[of s L reg] by (simp add: wf_outcome_def)
qed simp

text \<open>
  C1: Memory isolation. From a well-formed state on, whatever the processes write through
  their page tables and whatever system calls they make, two live processes never share a
  physical page both can write, except the console; no process can ever write a page that
  holds a page table of a live process; and none can write a page the kernel or nobody
  owns.
\<close>

theorem memory_isolation:
  assumes reach: "memos_reach L s0 s" and start: "wf_memos s0" "live s0 (current s0)"
    and p: "live s p" and w: "may_write s p pn" and ne: "pn \<noteq> CONSOLE_PAGE"
  shows "(\<forall>q. live s q \<and> q \<noteq> p \<longrightarrow> \<not> may_write s q pn)
    \<and> (\<forall>q. live s q \<longrightarrow> pn \<noteq> PAGENUMBER (p_pagetable (proc s q)) \<and> pn \<noteq> PAGENUMBER (l2 s q))
    \<and> owner_at s pn \<noteq> PO_KERNEL \<and> owner_at s pn \<noteq> PO_FREE \<and> owner_at s pn \<noteq> PO_RESERVED"
proof -
  have wf: "wf_memos s" using reach_wf[OF reach start] by blast
  have own: "owner_at s pn = of_nat p" "pn \<noteq> PAGENUMBER (p_pagetable (proc s p))" "pn \<noteq> PAGENUMBER (l2 s p)"
    using may_write_own[OF wf p w] ne by auto
  have pb: "0 < p" "p < NPROC" using p by (auto simp: live_def)
  have inj: "owner_at s pn \<noteq> of_nat q" if "live s q" "q \<noteq> p" for q
    using that own(1) pid_inj[of p q] pb by (simp add: live_def)
  have "unat (of_nat p :: i8) = p" using pb by (simp add: unat_of_nat)
  then have "(of_nat p :: i8) \<noteq> PO_KERNEL" "(of_nat p :: i8) \<noteq> PO_FREE" "(of_nat p :: i8) \<noteq> PO_RESERVED"
    using pb by auto
  moreover have "\<not> may_write s q pn" if "live s q" "q \<noteq> p" for q
    using may_write_own[OF wf that(1)] inj[OF that] ne by blast
  moreover have "pn \<noteq> PAGENUMBER (p_pagetable (proc s q)) \<and> pn \<noteq> PAGENUMBER (l2 s q)" if "live s q" for q
  proof (cases "q = p")
    case False
    have "tables_ok s q" using wf that by (simp add: wf_memos_def space_ok_def)
    then show ?thesis using inj[OF that False] by (auto simp: tables_ok_def)
  qed (use own in simp)
  ultimately show ?thesis using own(1) by simp
qed

text \<open>
  A state for the witnesses: process 1 with its tables in pages 1 and 2 and one writable
  page, page 3, at the start of its address space; the owners of the other pages are a
  parameter.
\<close>

definition demo_mem :: memory where
  "demo_mem = store32 (store32 (\<lambda>_. 0) (0x1000 + 4 * of_nat 0) 0x2007) (0x2000 + 4 * of_nat 256) 0x3007"

definition memos_demo :: "(nat \<Rightarrow> i8) \<Rightarrow> memos" where
  "memos_demo own = \<lparr>mem = demo_mem,
     pageinfo = map (\<lambda>i. \<lparr>owner = own i, refcount = 1\<rparr>) [0..<NPAGES],
     processes = map (\<lambda>i. \<lparr>p_pid = i, p_registers = zero_registers,
       p_state = (if i = 1 then P_RUNNABLE else P_FREE), p_pagetable = (if i = 1 then 0x1000 else 0)\<rparr>) [0..<NPROC],
     current = 1, kernel_pagetable = 0x40000, ticks = 0, last_ticks = 0, showing = 1\<rparr>"

lemma demo_entries:
  "i < 1024 \<Longrightarrow> pte demo_mem 0x1000 i = (if i = 0 then 0x2007 else 0)"
  "i < 1024 \<Longrightarrow> pte demo_mem 0x2000 i = (if i = 256 then 0x3007 else 0)"
proof -
  have al: "PAGEOFFSET 0x1000 = 0" "PAGEOFFSET 0x2000 = 0" by (simp_all add: PAGEOFFSET_def)
  have z: "pte (\<lambda>_. 0) p i = 0" for p by (simp add: pte_def load32_def)
  assume i: "i < 1024"
  show "pte demo_mem 0x1000 i = (if i = 0 then 0x2007 else 0)"
    unfolding demo_mem_def
    by (subst pte_store[OF al(2,1) _ i]) (simp, subst pte_store[OF al(1,1) _ i], simp_all add: z)
  show "pte demo_mem 0x2000 i = (if i = 256 then 0x3007 else 0)"
    unfolding demo_mem_def
    by (subst pte_store[OF al(2,2) _ i]) (simp, subst pte_store[OF al(1,2) _ i], simp_all add: z)
qed

lemma demo_fields [simp]:
  "mem (memos_demo own) = demo_mem" "current (memos_demo own) = 1"
  "length (pageinfo (memos_demo own)) = NPAGES" "length (processes (memos_demo own)) = NPROC"
  "j < NPAGES \<Longrightarrow> pageinfo (memos_demo own) ! j = \<lparr>owner = own j, refcount = 1\<rparr>"
  "p < NPROC \<Longrightarrow> proc (memos_demo own) p = \<lparr>p_pid = p, p_registers = zero_registers,
       p_state = (if p = 1 then P_RUNNABLE else P_FREE), p_pagetable = (if p = 1 then 0x1000 else 0)\<rparr>"
  by (simp_all add: memos_demo_def)

lemma demo_live: "live (memos_demo own) p \<longleftrightarrow> p = 1"
  by (auto simp: live_def split: if_splits)

lemma demo_l2: "l2_of demo_mem 0x1000 = 0x2000"
  by (simp add: l2_of_def demo_entries PTE_ADDR_def)

lemma demo_table: "wf_table 0x1000 demo_mem"
  by (simp add: wf_table_def demo_entries PAGEOFFSET_def PAGENUMBER_div full_access_def)

lemma demo_wf:
  assumes "own 1 = 1" "own 2 = 1" "own 3 = 1" "own CONSOLE_PAGE = PO_RESERVED"
  shows "wf_memos (memos_demo own)"
proof -
  have pn: "PAGENUMBER 0x1000 = 1" "PAGENUMBER 0x2000 = 2" "PAGENUMBER 0x2007 = 2" "PAGENUMBER 0x3007 = 3"
    by (simp_all add: PAGENUMBER_div)
  have e: "entry_of (memos_demo own) 1 i = (if i = 256 then 0x3007 else 0)" if "i < 1024" for i
    using that by (simp add: demo_l2 demo_entries)
  have "tables_ok (memos_demo own) 1"
    using assms demo_table by (simp add: tables_ok_def demo_l2 demo_entries pn)
  moreover have "entries_ok (memos_demo own) 1 UNIV"
    using assms by (auto simp: entries_ok_def e user_writable_def pn demo_l2 demo_entries split: if_splits)
  moreover have "entries_distinct (memos_demo own) 1 UNIV"
    by (auto simp: entries_distinct_def demo_l2 demo_entries user_writable_def split: if_splits)
  ultimately show ?thesis
    using assms by (simp add: wf_memos_def wf_base_def demo_live space_ok_def)
qed

abbreviation demo_own :: "nat \<Rightarrow> i8" where
  "demo_own \<equiv> (\<lambda>_. 0)(1 := 1, 2 := 1, 3 := 1, CONSOLE_PAGE := PO_RESERVED)"

lemma demo_writes: "may_write (memos_demo own) 1 3"
proof -
  have "pte demo_mem 0x2000 256 = 0x3007" by (simp add: demo_entries)
  then have "user_writable (entry_of (memos_demo own) 1 256) \<and> PAGENUMBER (entry_of (memos_demo own) 1 256) = 3"
    by (simp add: demo_l2 user_writable_def PAGENUMBER_div)
  then show ?thesis
    using may_write_entry[of "memos_demo own" 1 3] demo_table by auto
qed

theorem memory_isolation_witness:
  "may_write (memos_demo demo_own) 1 3 \<and> PAGENUMBER (p_pagetable (proc (memos_demo demo_own) 1)) \<noteq> 3"
proof -
  have wf: "wf_memos (memos_demo demo_own)" by (rule demo_wf) simp_all
  have l: "live (memos_demo demo_own) 1" by (simp add: demo_live)
  then have l': "live (memos_demo demo_own) (current (memos_demo demo_own))" by simp
  show ?thesis
    using memory_isolation[OF memos_reach.start wf l' l demo_writes] demo_writes l by auto
qed

section \<open>fork\<close>

text \<open>
  C3: A \<open>fork\<close> that returns a pid gives the child, in the lowest free slot, the parent's
  registers with 0 in \<open>eax\<close> and the parent's address space: at every address of the process
  part, where the parent may write the child has a page of its own with the same
  permissions and the same bytes, and elsewhere the very same mapping. Every other
  process keeps its page table, its pages and every byte in them.
\<close>

theorem fork_copies:
  assumes wf: "wf_memos s" and c: "live s (current s)" and eq: "fork s = Some (r, s')" and r: "r \<noteq> - 1"
  shows "\<exists>q. r = of_nat q \<and> 0 < q \<and> q < NPROC \<and> p_state (proc s q) = P_FREE
    \<and> (\<forall>j. 0 < j \<and> j < q \<longrightarrow> p_state (proc s j) \<noteq> P_FREE)
    \<and> p_state (proc s' q) = P_RUNNABLE
    \<and> p_registers (proc s' q) = (p_registers (proc s (current s)))\<lparr>reg_eax := 0\<rparr>
    \<and> (\<forall>va. 256 \<le> PAGENUMBER va \<and> PAGENUMBER va < 768 \<longrightarrow>
        (\<exists>vp vq. virtual_memory_lookup (p_pagetable (proc s (current s))) va (mem s') = Some vp
           \<and> virtual_memory_lookup (p_pagetable (proc s' q)) va (mem s') = Some vq
           \<and> (if vm_perm vp AND 7 = 7
              then vm_perm vq = vm_perm vp \<and> vm_pn vq \<noteq> vm_pn vp \<and> mem s' (vm_pa vq) = mem s' (vm_pa vp)
              else vq = vp)))
    \<and> (\<forall>p. live s p \<longrightarrow> p_pagetable (proc s' p) = p_pagetable (proc s p)
        \<and> (\<forall>a. PAGENUMBER a < NPAGES \<and> owner_at s (PAGENUMBER a) = of_nat p \<longrightarrow>
             owner_at s' (PAGENUMBER a) = of_nat p \<and> mem s' a = mem s a))"
  using wf c eq
proof (cases rule: fork_cases)
  case (forked q s2 r3 s3)
  let ?c = "current s"
  note Q = memos_slot.find_Some[OF forked(1)]
  then have q: "0 < q" "q < NPROC" "p_state (proc s q) = P_FREE" by blast+
  have cb: "0 < ?c" "?c < NPROC" "?c \<noteq> q" using c q(3) by (auto simp: live_def)
  note L = fork_loop[OF forked(2,3) q(2)]
  note C = fork_child_fields[OF L(1) q(2,1)]
  have st: "forking q ?c 256 s2" "space_ok s2 ?c UNIV" using forked(2) by (simp_all add: fork_start_def)
  have none: "\<forall>i. 256 \<le> i \<and> i < 256 \<longrightarrow> page_copied q ?c i s2" by (auto dest: leD)
  have pc: "page_copied q ?c i s3" if "256 \<le> i" "i < 768" for i
    using copy_pages_content[OF forked(3) st _ _ start_va forked(4) none] that by simp
  have sc3: "space_ok s3 ?c UNIV"
    using wf c L(5)[OF cb] space_ok_keeps by (auto simp: wf_memos_def)
  have T: "wf_table (p_pagetable (proc s3 ?c)) (mem s3)" "wf_table (p_pagetable (proc s3 q)) (mem s3)"
    using sc3 L(4)[OF forked(4)] by (simp_all add: space_ok_def tables_ok_def)
  have pt: "p_pagetable (proc s3 ?c) = p_pagetable (proc s ?c)" using L(5)[OF cb] by simp
  have view: "\<exists>vp vq. virtual_memory_lookup (p_pagetable (proc s ?c)) va (mem s') = Some vp
           \<and> virtual_memory_lookup (p_pagetable (proc s' q)) va (mem s') = Some vq
           \<and> (if vm_perm vp AND 7 = 7
              then vm_perm vq = vm_perm vp \<and> vm_pn vq \<noteq> vm_pn vp \<and> mem s' (vm_pa vq) = mem s' (vm_pa vp)
              else vq = vp)"
    if va: "256 \<le> PAGENUMBER va" "PAGENUMBER va < 768" for va
  proof -
    let ?e = "entry_of s3 ?c (PAGENUMBER va)" and ?e' = "entry_of s3 q (PAGENUMBER va)"
    have v4: "PAGENUMBER va < 1024" using va by simp
    have lk: "virtual_memory_lookup (p_pagetable (proc s ?c)) va (mem s') = Some (vam_of ?e va)"
        "virtual_memory_lookup (p_pagetable (proc s' q)) va (mem s') = Some (vam_of ?e' va)"
      using lookup_eq[OF T(1) v4] lookup_eq[OF T(2) v4] pt by (simp_all add: forked(5) C)
    have "if vm_perm (vam_of ?e va) AND 7 = 7
        then vm_perm (vam_of ?e' va) = vm_perm (vam_of ?e va) \<and> vm_pn (vam_of ?e' va) \<noteq> vm_pn (vam_of ?e va)
          \<and> mem s' (vm_pa (vam_of ?e' va)) = mem s' (vm_pa (vam_of ?e va))
        else vam_of ?e' va = vam_of ?e va"
    proof (cases "user_writable ?e")
      case False
      then have "?e' = ?e" using pc[OF va] unfolding page_copied_def by simp
      then show ?thesis using False user_writable_flags by metis
    next
      case True
      note P = pc[OF va, unfolded page_copied_def if_P[OF True]]
      have f: "PTE_FLAGS e AND 7 = e AND 7" for e by (simp add: PTE_FLAGS_def and.assoc)
      have uw': "user_writable ?e'" using P True f[of ?e] f[of ?e'] by (simp add: user_writable_def)
      then have p1: "?e AND PTE_P \<noteq> 0" "?e' AND PTE_P \<noteq> 0"
        using full_accessD(1) True by (simp_all add: user_writable_def full_access_def)
      have pn: "PAGENUMBER ?e' \<noteq> PAGENUMBER ?e"
        using P space_ok_entry(2)[OF sc3 UNIV_I va True] pid_inj[of q ?c] cb q by auto
      have off: "unat (PAGEOFFSET va) < 4096" by (simp add: PAGEOFFSET_mod)
      have "mem s3 (PTE_ADDR ?e' + of_nat (unat (PAGEOFFSET va))) = mem s3 (PTE_ADDR ?e + of_nat (unat (PAGEOFFSET va)))"
        using P off by blast
      then have "mem s3 (PTE_ADDR ?e' + PAGEOFFSET va) = mem s3 (PTE_ADDR ?e + PAGEOFFSET va)" by simp
      then show ?thesis
        using P p1 pn True by (simp add: vam_of_def forked(5) C f user_writable_def)
    qed
    then show ?thesis using lk by blast
  qed
  have others: "p_pagetable (proc s' p) = p_pagetable (proc s p)
        \<and> (\<forall>a. PAGENUMBER a < NPAGES \<and> owner_at s (PAGENUMBER a) = of_nat p \<longrightarrow>
             owner_at s' (PAGENUMBER a) = of_nat p \<and> mem s' a = mem s a)" if "live s p" for p
  proof -
    have p: "0 < p" "p < NPROC" "p \<noteq> q" using that q by (auto simp: live_def)
    then show ?thesis using L(5)[OF p] by (auto simp: forked(5) C keeps_def)
  qed
  have "p_registers (proc s3 ?c) = p_registers (proc s ?c)" using L(5)[OF cb] by simp
  then have fields: "p_state (proc s' q) = P_RUNNABLE"
      "p_registers (proc s' q) = (p_registers (proc s ?c))\<lparr>reg_eax := 0\<rparr>"
    unfolding forked(5) C(6) L(2) by simp_all
  show ?thesis using forked(6) q Q fields view others by blast
qed (use r in simp_all)

text \<open>When there is memory enough.\<close>

definition free_pages :: "memos \<Rightarrow> nat" where
  "free_pages s = card {j. j < NPAGES \<and> owner_at s j = PO_FREE}"

definition writable_from :: "memos \<Rightarrow> nat \<Rightarrow> nat \<Rightarrow> nat" where
  "writable_from s c v = card {i. v \<le> i \<and> i < 768 \<and> user_writable (entry_of s c i)}"

lemma alloc_total:
  assumes len: "length (pageinfo s) = NPAGES" and f: "0 < free_pages s" and ow: "ow \<noteq> PO_FREE"
  shows "\<exists>a s'. find_free_physic_page ow s = (a, s') \<and> a \<noteq> - 1 \<and> free_pages s' = free_pages s - 1"
proof -
  obtain a s' where al: "find_free_physic_page ow s = (a, s')" by force
  have ne: "a \<noteq> - 1"
  proof
    assume "a = - 1"
    then have "{j. j < NPAGES \<and> owner_at s j = PO_FREE} = {}" using pages.alloc_None[OF len] al by auto
    then show False using f unfolding free_pages_def by (simp only: card.empty)
  qed
  note A = pages.alloc_Some[OF len al ne]
  have "{j. j < NPAGES \<and> owner_at s' j = PO_FREE} = {j. j < NPAGES \<and> owner_at s j = PO_FREE} - {PAGENUMBER a}"
  proof (rule set_eqI)
    show "x \<in> {j. j < NPAGES \<and> owner_at s' j = PO_FREE}
        \<longleftrightarrow> x \<in> {j. j < NPAGES \<and> owner_at s j = PO_FREE} - {PAGENUMBER a}" for x
      by (cases "x = PAGENUMBER a") (use A ow in auto)
  qed
  then show ?thesis using al ne A by (auto simp: free_pages_def card_Diff_singleton)
qed

lemma copy_pagetable_total:
  assumes len: "length (pageinfo s) = NPAGES" and f: "2 \<le> free_pages s" and q: "0 < q" "q < NPROC"
    and c: "tables_ok s c" "0 < c" "c < NPROC"
  shows "\<exists>pt s'. copy_pagetable (p_pagetable (proc s c)) (of_nat q) s = Some (pt, s') \<and> pt \<noteq> - 1
    \<and> free_pages s' = free_pages s - 2"
proof -
  have qf: "(of_nat q :: i8) \<noteq> PO_FREE" using pid_inj[of q 0] q by simp
  obtain a s1 where A: "find_free_physic_page (of_nat q) s = (a, s1)" "a \<noteq> - 1" "free_pages s1 = free_pages s - 1"
    using alloc_total[OF len _ qf] f by auto
  have len1: "length (pageinfo s1) = NPAGES" by (rule pages.alloc_ok[OF len A(1)])
  obtain b s2 where B: "find_free_physic_page (of_nat q) s1 = (b, s2)" "b \<noteq> - 1" "free_pages s2 = free_pages s1 - 1"
    using alloc_total[OF len1 _ qf] f A(3) by auto
  let ?pd = "p_pagetable (proc s c)"
  have al: "PAGEOFFSET a = 0" "PAGENUMBER a < NPAGES" "PAGEOFFSET b = 0" "PAGENUMBER b < NPAGES"
    using find_free_frame(6,7)[OF A(1) A(2)] find_free_frame(6,7)[OF B(1) B(2)] by auto
  have wf: "wf_table ?pd (mem s)" and own: "owner_at s (PAGENUMBER ?pd) = of_nat c"
    using c(1) by (simp_all add: tables_ok_def)
  note D = wf_tableD[OF wf]
  have ne: "PAGENUMBER ?pd \<noteq> PAGENUMBER a"
    using own pages.alloc_Some[OF len A(1,2)] pid_inj[of c 0] c(2,3) by auto
  define m1 where "m1 = memset (mem s) a 0 PAGESIZE"
  define m2 where "m2 = store32 m1 (a + 4 * of_nat 0) (b OR PTE_FLAGS (pte m1 ?pd 0))"
  have "pte m2 ?pd 0 = pte m1 ?pd 0" unfolding m2_def
    using ne by (subst pte_store[OF al(1) D(1)]) auto
  also have "\<dots> = pte (mem s) ?pd 0"
    unfolding m1_def using ne by (intro pte_agree[OF memset_page(1)[OF al(1)] D(1)]) simp_all
  finally have l2p: "PAGENUMBER (PTE_ADDR (pte m2 ?pd 0)) < NPAGES" using D(4) by simp
  have "copy_pagetable ?pd (of_nat q) s
      = Some (a, s2\<lparr>mem := memcpy m2 b (PTE_ADDR (pte m2 ?pd 0)) PAGESIZE\<rparr>)"
    using A(1,2) B(1,2) al D(1,2) l2p find_free_frame(1)[OF A(1)] find_free_frame(1)[OF B(1)]
    by (simp add: copy_pagetable_def kernel_memset_def kernel_memcpy_def page_range read_entry_eq
        write_entry_eq m1_def m2_def)
  moreover have "free_pages (s2\<lparr>mem := m\<rparr>) = free_pages s - 2" for m
    using A(3) B(3) by (simp add: free_pages_def)
  ultimately show ?thesis using A(2) by blast
qed

lemma writable_from_step:
  assumes "v < 768"
  shows "writable_from s c v = (if user_writable (entry_of s c v) then Suc (writable_from s c (Suc v))
    else writable_from s c (Suc v))"
proof -
  have "{i. v \<le> i \<and> i < 768 \<and> user_writable (entry_of s c i)}
      = (if user_writable (entry_of s c v) then insert v {i. Suc v \<le> i \<and> i < 768 \<and> user_writable (entry_of s c i)}
         else {i. Suc v \<le> i \<and> i < 768 \<and> user_writable (entry_of s c i)})"
    using assms by (auto simp: le_less Suc_le_eq)
  then show ?thesis by (auto simp: writable_from_def)
qed

definition shares_ok :: "memos \<Rightarrow> nat \<Rightarrow> bool" where
  "shares_ok s c \<longleftrightarrow> (\<forall>i. 256 \<le> i \<and> i < 768 \<and> entry_of s c i AND 1 \<noteq> 0 \<longrightarrow> PAGENUMBER (entry_of s c i) < NPAGES)"

lemma keeps_counts:
  assumes "tables_ok s c" "keeps c s s'"
  shows "writable_from s' c v = writable_from s c v" "shares_ok s' c = shares_ok s c"
proof -
  have e: "entry_of s' c i = entry_of s c i" if "i < 768" for i
    using keeps_entries(2)[OF assms, of i] that by simp
  then show "writable_from s' c v = writable_from s c v"
    unfolding writable_from_def by (intro arg_cong[of _ _ card]) auto
  show "shares_ok s' c = shares_ok s c" unfolding shares_ok_def using e by auto
qed

lemma copy_pages_total:
  "forking q c v s \<Longrightarrow> space_ok s c UNIV \<Longrightarrow> 256 \<le> v \<Longrightarrow> v + n = 768 \<Longrightarrow> PAGEOFFSET va = 0 \<Longrightarrow>
   PAGENUMBER va = v \<Longrightarrow> shares_ok s c \<Longrightarrow> writable_from s c v \<le> free_pages s \<Longrightarrow>
     \<exists>s'. copy_pages q c va n s = Some (1, s')"
proof (induction n arbitrary: v va s)
  case (Suc n)
  have v: "v < 768" "v < 1024" using Suc.prems by simp_all
  note nxt = PAGENUMBER_next[OF Suc.prems(6,5) v(2)]
  have F: "length (pageinfo s) = NPAGES" "tables_ok s c" "0 < c" "c < NPROC" "c \<noteq> q" "0 < q" "q < NPROC"
    using Suc.prems(1) by (simp_all add: forking_def)
  let ?e = "entry_of s c v" and ?vam = "vam_of (entry_of s c v) va"
  have vam: "virtual_memory_lookup (p_pagetable (proc s c)) va (mem s) = Some ?vam"
    using lookup_eq[of _ "mem s" va] F(2) Suc.prems(6) v by (simp add: tables_ok_def)
  note uw = user_writable_flags[of ?e va]
  show ?case
  proof (cases "user_writable ?e")
    case False
    note skip = forking_skip[OF Suc.prems(1) v(1) False]
    have cnt: "writable_from s c (Suc v) \<le> free_pages s"
      using Suc.prems(8) writable_from_step[OF v(1), of s c] False by simp
    let ?s1 = "upd_page (nat (vm_pn ?vam)) (\<lambda>p. p\<lparr>refcount := refcount p + 1\<rparr>) s"
    have "\<exists>s'. copy_pages q c (va + PAGESIZE) n s = Some (1, s')"
      using Suc.IH[OF skip Suc.prems(2)] Suc.prems(3,4,7) nxt cnt by simp
    moreover have "\<exists>s'. copy_pages q c (va + PAGESIZE) n ?s1 = Some (1, s')"
    proof (rule Suc.IH)
      show "forking q c (Suc v) ?s1" "space_ok ?s1 c UNIV"
        using forking_keeps[OF skip] space_ok_keeps[OF Suc.prems(2)] refcount_keeps(1) F(1) by auto
      show "shares_ok ?s1 c" "writable_from ?s1 c (Suc v) \<le> free_pages ?s1"
        using keeps_counts[OF F(2) refcount_keeps(1)] Suc.prems(7) cnt refcount_keeps(2)
        by (simp_all add: free_pages_def)
    qed (use Suc.prems nxt in simp_all)
    moreover have "\<not> 512 \<le> vm_pn ?vam"
      using Suc.prems(3,7) v(1) by (auto simp: shares_ok_def vam_of_def not_le)
    ultimately show ?thesis using vam uw False by simp
  next
    case True
    then have w: "vm_perm ?vam AND 7 = 7" using uw by simp
    have p1: "vm_perm ?vam AND PTE_P \<noteq> 0"
      using full_accessD(1)[of "vm_perm ?vam"] w by (simp add: full_access_def)
    then have pa: "vm_pa ?vam = PTE_ADDR ?e" "vm_perm ?vam = PTE_FLAGS ?e"
      using Suc.prems(5) by (auto simp: vam_of_def split: if_splits)
    have qf: "(of_nat q :: i8) \<noteq> PO_FREE" using pid_inj[of q 0] F by simp
    have cnt: "writable_from s c (Suc v) < free_pages s"
      using Suc.prems(8) writable_from_step[OF v(1), of s c] True by simp
    obtain a s1 where al: "find_free_physic_page (of_nat q) s = (a, s1)" "a \<noteq> - 1" "free_pages s1 = free_pages s - 1"
      using alloc_total[OF F(1) _ qf] cnt by auto
    note fr = find_free_frame[OF al(1)]
    have wfq: "wf_table (p_pagetable (proc s1 q)) (mem s1)"
      using Suc.prems(1) fr(1,2) by (simp add: forking_def space_ok_def tables_ok_def)
    obtain m1 where m1: "virtual_memory_map (p_pagetable (proc s1 q)) va a PAGESIZE (vm_perm ?vam) (mem s1) = Some m1"
      using map_eq[OF wfq Suc.prems(5), of 1 "vm_perm ?vam" a] fr(6,7) al(2) Suc.prems(6) v flags_less pa(2)
      by auto
    note par = space_ok_entry[OF Suc.prems(2) UNIV_I Suc.prems(3) v(1) True]
    have cp: "kernel_memcpy a (vm_pa ?vam) PAGESIZE m1 = Some (memcpy m1 a (vm_pa ?vam) PAGESIZE)"
      using fr(6,7) al(2) par(1) by (simp add: kernel_memcpy_def page_range pa)
    have src: "PAGENUMBER (PTE_ADDR ?e) \<noteq> PAGENUMBER a"
      using par(2) pages.alloc_Some[OF F(1) al(1,2)] pid_inj[of c 0] F(3,4) by auto
    note C = forking_copy[OF Suc.prems(1,3) v(1) Suc.prems(6) al(1,2) m1 p1 cp[unfolded pa] PAGEOFFSET_PTE_ADDR src]
    let ?s2 = "s1\<lparr>mem := memcpy m1 a (PTE_ADDR ?e) PAGESIZE\<rparr>"
    have kc: "keeps c s ?s2" using C(2) F by simp
    have "\<exists>s'. copy_pages q c (va + PAGESIZE) n ?s2 = Some (1, s')"
    proof (rule Suc.IH[OF C(1) space_ok_keeps[OF Suc.prems(2) kc]])
      show "shares_ok ?s2 c" "writable_from ?s2 c (Suc v) \<le> free_pages ?s2"
        using keeps_counts[OF F(2) kc] Suc.prems(7) cnt al(3) by (simp_all add: free_pages_def)
    qed (use Suc.prems nxt in simp_all)
    then show ?thesis using vam w al(1,2) m1 cp pa by simp
  qed
qed simp

lemma fork_total:
  assumes wf: "wf_memos s" and c: "live s (current s)"
    and slot: "0 < i" "i < NPROC" "p_state (proc s i) = P_FREE"
    and mem: "2 + writable_from s (current s) 256 \<le> free_pages s"
    and shares: "shares_ok s (current s)"
  shows "\<exists>q s'. fork s = Some (of_nat q, s') \<and> 0 < q \<and> q < NPROC"
proof -
  let ?c = "current s"
  obtain q where fq: "find_free_proc s = Some q" using memos_slot.find_total[of s] slot by blast
  then have q: "0 < q" "q < NPROC" "p_state (proc s q) = P_FREE" using memos_slot.find_Some[OF fq] by auto
  have base: "wf_base s" and tab: "tables_ok s ?c" and cb: "0 < ?c" "?c < NPROC" and ne: "?c \<noteq> q"
    using wf c q(3) by (auto simp: wf_memos_def live_def space_ok_def)
  note B = wf_baseD[OF base]
  obtain pt s1 where cp: "copy_pagetable (p_pagetable (proc s ?c)) (of_nat q) s = Some (pt, s1)" "pt \<noteq> - 1"
      "free_pages s1 = free_pages s - 2"
    using copy_pagetable_total[OF B(1) _ q(1,2) tab cb] mem by auto
  note C = copy_pagetable_spec[OF B(1) q(1,2) tab cb cp(1)]
  define s2 where "s2 = upd_proc q (\<lambda>p. p\<lparr>p_pagetable := pt\<rparr>) s1"
  have st: "fork_start s q s2" unfolding s2_def by (rule fork_started[OF wf c q C cp(2)])
  then have k: "keeps ?c s s2" "forking q ?c 256 s2" "space_ok s2 ?c UNIV" "p_pid (proc s2 ?c) = ?c" "current s1 = ?c"
    using cb ne B(3) by (auto simp: fork_start_def s2_def)
  have "free_pages s2 = free_pages s1" by (simp add: s2_def free_pages_def)
  then have "writable_from s2 ?c 256 \<le> free_pages s2" "shares_ok s2 ?c"
    using keeps_counts[OF tab k(1)] mem cp(3) shares by simp_all
  then obtain s3 where "copy_pages q ?c PROC_START_ADDR 512 s2 = Some (1, s3)"
    using copy_pages_total[OF k(2,3) _ _ start_va, of 512] by auto
  then have "fork s = Some (of_nat q, fork_child q s3)"
    using fq cp(1,2) unfolding fork_def copy_writable_page_def fork_child_def
    by (simp add: Let_def s2_def[symmetric] k)
  then show ?thesis using q by blast
qed

lemma demo_counts: "writable_from (memos_demo own) 1 256 = 1" "shares_ok (memos_demo own) 1"
  "own 0 = 0 \<Longrightarrow> own 4 = 0 \<Longrightarrow> own 5 = 0 \<Longrightarrow> 3 \<le> free_pages (memos_demo own)"
proof -
  have e: "entry_of (memos_demo own) 1 i = (if i = 256 then 0x3007 else 0)" if "i < 1024" for i
    using that by (simp add: demo_l2 demo_entries)
  have "{i. 256 \<le> i \<and> i < 768 \<and> user_writable (entry_of (memos_demo own) 1 i)} = {256}"
    by (auto simp: e[simplified] demo_l2 demo_entries user_writable_def split: if_splits)
  then show "writable_from (memos_demo own) 1 256 = 1" by (simp add: writable_from_def)
  show "shares_ok (memos_demo own) 1"
    by (auto simp: shares_ok_def demo_l2 demo_entries PAGENUMBER_div split: if_splits)
  assume "own 0 = 0" "own 4 = 0" "own 5 = 0"
  then have "{0, 4, 5} \<subseteq> {j. j < NPAGES \<and> owner_at (memos_demo own) j = PO_FREE}" by auto
  then have "card {0 :: nat, 4, 5} \<le> free_pages (memos_demo own)"
    unfolding free_pages_def by (rule card_mono[rotated]) simp
  then show "3 \<le> free_pages (memos_demo own)" by simp
qed

lemma demo_fork_room:
  "wf_memos (memos_demo demo_own)" "live (memos_demo demo_own) (current (memos_demo demo_own))"
  "2 + writable_from (memos_demo demo_own) (current (memos_demo demo_own)) 256 \<le> free_pages (memos_demo demo_own)"
  "shares_ok (memos_demo demo_own) (current (memos_demo demo_own))"
  using demo_counts(1,2)[of demo_own] demo_counts(3)[of demo_own]
  by (simp_all add: demo_wf demo_live)

lemma demo_forks: "\<exists>r s'. fork (memos_demo demo_own) = Some (r, s') \<and> r \<noteq> - 1"
proof -
  obtain q s' where q: "fork (memos_demo demo_own) = Some (of_nat q, s')" "q < NPROC"
    using fork_total[OF demo_fork_room(1,2) _ _ _ demo_fork_room(3,4), of 2] by auto
  have "(of_nat q :: u32) \<noteq> - 1"
  proof
    assume "(of_nat q :: u32) = - 1"
    then have "unat (of_nat q :: u32) = unat (- 1 :: u32)" by simp
    then show False using q(2) by (simp add: unat_of_nat)
  qed
  then show ?thesis using q(1) by blast
qed

text \<open>
  C4: \<open>fork\<close> succeeds whenever it can: with a free slot, and as many free pages as the
  child needs (two page tables and a page for every page the parent can write), it
  returns the pid of the child, in particular it neither fails nor panics.
\<close>

theorem fork_succeeds:
  assumes wf: "wf_memos s" and c: "live s (current s)"
    and slot: "0 < i" "i < NPROC" "p_state (proc s i) = P_FREE"
    and mem: "2 + writable_from s (current s) 256 \<le> free_pages s"
    and shares: "shares_ok s (current s)"
  shows "\<exists>q s'. fork s = Some (of_nat q, s') \<and> 0 < q \<and> q < NPROC"
  using assms by (rule fork_total)

theorem fork_succeeds_witness:
  "\<exists>q s'. fork (memos_demo demo_own) = Some (of_nat q, s') \<and> 0 < q \<and> q < NPROC"
  using fork_succeeds[OF demo_fork_room(1,2) _ _ _ demo_fork_room(3,4), of 2] by simp

theorem fork_copies_witness:
  "\<exists>s'. fork (memos_demo demo_own) = Some (2, s') \<and> p_state (proc s' 2) = P_RUNNABLE"
proof -
  obtain r s' where f: "fork (memos_demo demo_own) = Some (r, s')" "r \<noteq> - 1" using demo_forks by blast
  obtain q where q: "r = of_nat q" "0 < q" "p_state (proc (memos_demo demo_own) q) = P_FREE" "q < NPROC"
      "\<forall>j. 0 < j \<and> j < q \<longrightarrow> p_state (proc (memos_demo demo_own) j) \<noteq> P_FREE" "p_state (proc s' q) = P_RUNNABLE"
    using fork_copies[OF demo_fork_room(1,2) f] by blast
  have "\<not> 2 < q" using q(5)[rule_format, of 2] by auto
  moreover have "q \<noteq> 1" using q(3) by auto
  ultimately have "q = 2" using q(2) by simp
  then show ?thesis using f q by auto
qed

section \<open>Ways to stop the kernel, and a leak\<close>

lemma exception_panics:
  assumes "\<And>s1 :: memos. processes s1 = processes (upd_proc (current s) (\<lambda>p. p\<lparr>p_registers := reg\<rparr>) s) \<Longrightarrow>
      pageinfo s1 = pageinfo s \<Longrightarrow> mem s1 = mem s \<Longrightarrow> current s1 = current s \<Longrightarrow> handle L reg s1 = Panic"
  shows "exception L reg s = Panic"
proof -
  let ?s = "upd_proc (current s) (\<lambda>p. p\<lparr>p_registers := reg\<rparr>) s"
  have "handle L reg s1 = Panic" if "memshow_virtual_animate ?s = Some s1" for s1
    using that by (intro assms) (auto simp: memshow_virtual_animate_def Let_def bind_eq_Some_conv split: if_splits)
  moreover have "handle L reg ?s = Panic" by (rule assms) simp_all
  ultimately show ?thesis by (auto simp: exception_def Let_def split: option.split)
qed

text \<open>
  C7: The failure path of \<open>fork\<close> is broken: when there is a free slot but fewer than two free
  pages, \<open>copy_pagetable\<close> returns \<open>-1\<close>, the clean-up dereferences that \<open>-1\<close> as a
  page table, and the kernel panics instead of returning \<open>-1\<close> to the process.
\<close>

theorem fork_without_memory_panics:
  assumes wf: "wf_memos s" and slot: "0 < i" "i < NPROC" "p_state (proc s i) = P_FREE" "i \<noteq> current s"
    and few: "free_pages s < 2" and reg: "reg_intno reg = INT_SYS_FORK"
  shows "exception L reg s = Panic"
proof (rule exception_panics)
  fix s1 :: memos assume s1: "processes s1 = processes (upd_proc (current s) (\<lambda>p. p\<lparr>p_registers := reg\<rparr>) s)"
    "pageinfo s1 = pageinfo s" "mem s1 = mem s" "current s1 = current s"
  have B: "length (pageinfo s) = NPAGES" "length (processes s) = NPROC" "current s < NPROC"
    using wf by (auto simp: wf_memos_def wf_base_def)
  have len: "length (pageinfo s1) = NPAGES" and fp: "free_pages s1 = free_pages s"
    using B s1(2) by (simp_all add: free_pages_def)
  have "p_state (proc s1 i) = P_FREE" using slot B by (simp add: s1(1))
  then obtain q where q: "find_free_proc s1 = Some q" "0 < q" "q < NPROC"
    using memos_slot.find_total[of s1] memos_slot.find_Some[of s1] slot by blast
  have qf: "(of_nat q :: i8) \<noteq> PO_FREE" using pid_inj[of q 0] q by simp
  obtain a s2 where A: "find_free_physic_page (of_nat q) s1 = (a, s2)" by force
  obtain b s3 where B2: "find_free_physic_page (of_nat q) s2 = (b, s3)" by force
  have fail: "a = - 1 \<or> b = - 1"
  proof (rule ccontr)
    assume "\<not> ?thesis"
    then have ne: "a \<noteq> - 1" "b \<noteq> - 1" by auto
    note D = pages.alloc_distinct[OF len A B2 qf ne]
    have "PAGENUMBER a < NPAGES" "PAGENUMBER b < NPAGES"
      using find_free_frame(7)[OF A ne(1)] find_free_frame(7)[OF B2 ne(2)] by auto
    then have "{PAGENUMBER a, PAGENUMBER b} \<subseteq> {j. j < NPAGES \<and> owner_at s1 j = PO_FREE}" using D by auto
    then have "card {PAGENUMBER a, PAGENUMBER b} \<le> free_pages s1"
      unfolding free_pages_def by (rule card_mono[rotated]) simp
    then show False using D(1) few fp by simp
  qed
  obtain s4 where "copy_pagetable (p_pagetable (proc s1 (current s1))) (of_nat q) s1 = Some (- 1, s4)"
    using fail by (cases "a = - 1") (auto simp: copy_pagetable_def A B2)
  then have "fork s1 = None"
    using q(1) read_entry_fails by (simp add: fork_def Let_def release_process_def)
  then show "handle L reg s1 = Panic" using reg by (simp add: handle_def Let_def sys_fork_def resume_def)
qed

theorem fork_without_memory_panics_witness:
  "\<forall>L. exception L (zero_registers\<lparr>reg_intno := INT_SYS_FORK\<rparr>)
     (memos_demo ((\<lambda>_. PO_KERNEL)(1 := 1, 2 := 1, 3 := 1, CONSOLE_PAGE := PO_RESERVED))) = Panic"
proof (rule allI, rule fork_without_memory_panics[where i = 2])
  let ?own = "(\<lambda>_. PO_KERNEL)(1 := 1, 2 := 1, 3 := 1, CONSOLE_PAGE := PO_RESERVED)"
  show "wf_memos (memos_demo ?own)" by (rule demo_wf) simp_all
  have "{j. j < NPAGES \<and> owner_at (memos_demo ?own) j = PO_FREE} = {}" by (auto split: if_splits)
  then show "free_pages (memos_demo ?own) < 2" by (simp only: free_pages_def card.empty)
qed simp_all

text \<open>
  A process can stop the machine: \<open>sys_page_alloc\<close> with an address in its range that is
  not page aligned reaches the alignment \<open>assert\<close> of \<open>virtual_memory_map\<close> as soon as a
  free page is found, and the kernel panics.
\<close>

lemma page_alloc_unaligned_panics:
  assumes wf: "wf_memos s" and mem: "0 < free_pages s"
    and reg: "reg_intno reg = INT_SYS_PAGE_ALLOC" "PROC_START_ADDR \<le> reg_eax reg"
      "reg_eax reg < MEMSIZE_VIRTUAL - PAGESIZE" "PAGEOFFSET (reg_eax reg) \<noteq> 0"
  shows "exception L reg s = Panic"
proof (rule exception_panics)
  fix s1 :: memos assume s1: "processes s1 = processes (upd_proc (current s) (\<lambda>p. p\<lparr>p_registers := reg\<rparr>) s)"
    "pageinfo s1 = pageinfo s" "mem s1 = mem s" "current s1 = current s"
  have B: "length (pageinfo s) = NPAGES" "length (processes s) = NPROC" "0 < current s" "current s < NPROC"
      "p_pid (proc s (current s)) = current s"
    using wf by (auto simp: wf_memos_def wf_base_def)
  have r1: "p_registers (proc s1 (current s1)) = reg" "p_pid (proc s1 (current s1)) = current s"
    using B by (simp_all add: s1(1,4))
  have "0 < free_pages s1" using mem s1(2) by (simp add: free_pages_def)
  moreover have "(of_nat (current s) :: i8) \<noteq> PO_FREE" using pid_inj[of "current s" 0] B by simp
  ultimately obtain a s2 where "find_free_physic_page (of_nat (current s)) s1 = (a, s2)" "a \<noteq> - 1"
    using alloc_total[of s1] B(1) s1(2) by metis
  then have "sys_page_alloc s1 = None"
    using reg r1 by (simp add: sys_page_alloc_def Let_def virtual_memory_map_def not_less[symmetric])
  then show "handle L reg s1 = Panic" using reg by (simp add: handle_def Let_def resume_def)
qed

lemma page_alloc_unaligned_panics_witness:
  "\<forall>L. exception L (zero_registers\<lparr>reg_intno := INT_SYS_PAGE_ALLOC, reg_eax := 0x100001\<rparr>) (memos_demo demo_own) = Panic"
  using demo_counts(3)[of demo_own]
  by (intro allI page_alloc_unaligned_panics demo_fork_room) (simp_all add: PAGEOFFSET_def)

text \<open>The user-accessible mappings of a page, for writing or not.\<close>

definition user_maps :: "memos \<Rightarrow> nat \<Rightarrow> u32 \<Rightarrow> nat \<Rightarrow> bool" where
  "user_maps s p va pn \<longleftrightarrow> (\<exists>vam. virtual_memory_lookup (p_pagetable (proc s p)) va (mem s) = Some vam
     \<and> vm_perm vam AND 5 = 5 \<and> vm_pn vam = int pn)"

lemma user_flags: "vm_perm (vam_of e va) AND 5 = 5 \<and> vm_pn (vam_of e va) = int pn \<longleftrightarrow> e AND 5 = 5 \<and> PAGENUMBER e = pn"
proof -
  have f: "PTE_FLAGS e AND 5 = e AND 5" by (simp add: PTE_FLAGS_def and.assoc)
  have "(e AND 5) AND 1 = e AND 1" by (simp add: and.assoc)
  then have "e AND 5 = 5 \<Longrightarrow> e AND 1 = 1" by (simp flip: \<open>(e AND 5) AND 1 = e AND 1\<close>)
  then show ?thesis by (auto simp: vam_of_def f)
qed

lemma user_maps_entry:
  assumes "wf_table (p_pagetable (proc s p)) (mem s)"
  shows "user_maps s p va pn \<longleftrightarrow> PAGENUMBER va < 1024 \<and> entry_of s p (PAGENUMBER va) AND 5 = 5
    \<and> PAGENUMBER (entry_of s p (PAGENUMBER va)) = pn"
proof (cases "PAGENUMBER va < 1024")
  case True
  then show ?thesis using lookup_eq[OF assms True] user_flags by (simp add: user_maps_def)
next
  case False
  then show ?thesis using lookup_high[OF assms, of va] by (auto simp: user_maps_def)
qed

text \<open>
  C8: \<open>sys_page_alloc\<close> on a page the process has already mapped leaks the old page: after the
  call the page still belongs to the process, with the reference count it had, but no process can write
  it any more, and its only user-accessible mappings are those it had before at other addresses or in
  other processes. If the replaced mapping was its only one, no user program can reach it.
\<close>

theorem page_alloc_remap_leaks:
  assumes wf: "wf_memos s" and c: "live s (current s)"
    and addr: "reg_eax (p_registers (proc s (current s))) = PAGEADDRESS i" "256 \<le> i" "i < 767"
    and old: "user_writable (entry_of s (current s) i)" "pn = PAGENUMBER (entry_of s (current s) i)"
    and mem: "0 < free_pages s"
  shows "\<exists>s'. sys_page_alloc s = Some s' \<and> reg_eax (p_registers (proc s' (current s))) = 1
    \<and> may_write s (current s) pn \<and> (\<forall>q. live s' q \<longrightarrow> \<not> may_write s' q pn)
    \<and> (\<forall>q va. live s' q \<and> user_maps s' q va pn \<longrightarrow>
          live s q \<and> user_maps s q va pn \<and> (q, PAGENUMBER va) \<noteq> (current s, i))
    \<and> owner_at s' pn = of_nat (current s) \<and> refcount (pageinfo s' ! pn) = refcount (pageinfo s ! pn)"
proof -
  let ?c = "current s" and ?va = "PAGEADDRESS i"
  have base: "wf_base s" and sc: "space_ok s ?c UNIV" and cb: "0 < ?c" "?c < NPROC"
    using wf c by (auto simp: wf_memos_def live_def)
  note B = wf_baseD[OF base]
  have qf: "(of_nat ?c :: i8) \<noteq> PO_FREE" using pid_inj[of ?c 0] cb by simp
  obtain a s1 where al: "find_free_physic_page (of_nat ?c) s = (a, s1)" "a \<noteq> - 1"
    using alloc_total[OF B(1) mem qf] by blast
  note fr = find_free_frame[OF al(1)]
  have va: "PAGEOFFSET ?va = 0" "PAGENUMBER ?va = i" using addr by simp_all
  have wf1: "wf_table (p_pagetable (proc s1 ?c)) (mem s1)"
    using sc fr by (simp add: space_ok_def tables_ok_def)
  obtain m where m: "virtual_memory_map (p_pagetable (proc s1 ?c)) ?va a PAGESIZE 7 (mem s1) = Some m"
    using map_eq[OF wf1 va(1), of 1 7 a] fr(6,7) al(2) va addr by auto
  have v: "256 \<le> PAGENUMBER ?va" "PAGENUMBER ?va < 768" using va addr by simp_all
  have seven: "(7 :: u32) AND PTE_P \<noteq> 0" by simp
  note M = map_fresh[OF B(1) cb sc al m v seven, unfolded va(2)]
  let ?s2 = "s1\<lparr>mem := m\<rparr>"
  let ?s' = "upd_proc ?c (set_eax 1) ?s2"
  have bounds: "\<not> ?va < PROC_START_ADDR" "\<not> MEMSIZE_VIRTUAL - PAGESIZE \<le> ?va"
    using addr PAGEADDRESS_unat[of i] by (simp_all add: word_less_nat_alt word_le_nat_alt)
  have call: "sys_page_alloc s = Some ?s'"
    using al m bounds B(3)[OF cb(2)] by (simp add: sys_page_alloc_def Let_def addr(1))
  note par = space_ok_entry[OF sc UNIV_I addr(2) _ old(1), folded old(2)]
  have pn: "pn < NPAGES" "owner_at s pn = of_nat ?c" using par addr(3) by simp_all
  have "pn \<noteq> PAGENUMBER a" using M(5) pn(2) qf by auto
  have info: "pageinfo s1 ! pn = pageinfo s ! pn"
    by (rule find_free_cases[of s "of_nat ?c"]) (use al pn(1) B(1) \<open>pn \<noteq> PAGENUMBER a\<close> in auto)
  have T2: "wf_table (p_pagetable (proc ?s2 ?c)) (mem ?s2)" using M(1) by (simp add: space_ok_def tables_ok_def)
  have proc': "p_pagetable (proc ?s' ?c) = p_pagetable (proc ?s2 ?c)" "mem ?s' = mem ?s2"
    using cb B(2) fr by simp_all
  have e: "entry_of ?s' ?c j = (if j = i then a OR 7 else entry_of s ?c j)" if "j < 1024" for j
    using M(3)[OF that] M(8) unfolding proc' by simp
  have a7: "PAGENUMBER (a OR 7) = PAGENUMBER a" by (rule entry_parts) (use fr(6) al(2) in simp_all)
  have "\<not> may_write ?s' ?c pn"
  proof
    assume "may_write ?s' ?c pn"
    then obtain j where j: "j < 1024" "user_writable (entry_of ?s' ?c j)" "PAGENUMBER (entry_of ?s' ?c j) = pn"
      using may_write_entry[of ?s' ?c pn] T2 unfolding proc' by blast
    show False
    proof (cases "j = i")
      case True
      then show False using j e[OF j(1)] a7 \<open>pn \<noteq> PAGENUMBER a\<close> by simp
    next
      case False
      then have ej: "user_writable (entry_of s ?c j)" "PAGENUMBER (entry_of s ?c j) = pn" using j e[OF j(1)] by simp_all
      have "pn \<noteq> CONSOLE_PAGE"
      proof
        assume "pn = CONSOLE_PAGE"
        then have "unat (- 1 :: i8) = unat (of_nat ?c :: i8)" using pn(2) B(7) by simp
        then show False using cb by (simp add: unat_of_nat)
      qed
      then have "256 \<le> j \<and> j < 768"
        using sc ej j(1) unfolding space_ok_def entries_ok_def by auto
      then show False
        using sc ej old False addr unfolding space_ok_def entries_distinct_def by auto
    qed
  qed
  note unwritten = this
  have console: "pn \<noteq> CONSOLE_PAGE"
  proof
    assume "pn = CONSOLE_PAGE"
    then have "unat (- 1 :: i8) = unat (of_nat ?c :: i8)" using pn(2) B(7) by simp
    then show False using cb by (simp add: unat_of_nat)
  qed
  have wf': "wf_memos ?s'" using page_alloc_wf[OF wf c call] by blast
  have own': "owner_at ?s' pn = of_nat ?c" using pn(2) info by simp
  have other: "live s q \<and> keeps q s ?s'" if "live ?s' q" "q \<noteq> ?c" for q
    using that M(2)[of q] cb B(2) fr by (auto simp: live_def keeps_def)
  have "\<not> may_write ?s' q pn" if q: "live ?s' q" for q
  proof (cases "q = ?c")
    case False
    have "q < NPROC" using q by (simp add: live_def)
    then have "owner_at ?s' pn \<noteq> of_nat q" using pid_inj[of q ?c] cb False unfolding own' by simp
    then show ?thesis using may_write_own[OF wf' q, of pn] console by blast
  qed (use unwritten in simp)
  moreover have "live s q \<and> user_maps s q va pn \<and> (q, PAGENUMBER va) \<noteq> (?c, i)"
    if q: "live ?s' q" and u: "user_maps ?s' q va pn" for q va
  proof -
    note E = u[unfolded user_maps_entry[OF live_table[OF wf' q]]]
    show ?thesis
    proof (cases "q = ?c")
      case True
      have "PAGENUMBER va \<noteq> i" using E e[of i] a7 \<open>pn \<noteq> PAGENUMBER a\<close> True addr by auto
      then show ?thesis using E e[of "PAGENUMBER va"] True c user_maps_entry[OF live_table[OF wf c]] by auto
    next
      case False
      note K = other[OF q False]
      have T: "tables_ok s q" using wf K by (simp add: wf_memos_def space_ok_def)
      then show ?thesis
        using E False K keeps_entries(2)[OF T conjunct2[OF K]] user_maps_entry[OF live_table[OF wf conjunct1[OF K]]] by auto
    qed
  qed
  moreover have "may_write s ?c pn"
    unfolding may_write_entry[OF live_table[OF wf c]] using old addr(2,3) by (intro exI[of _ i]) simp
  ultimately show ?thesis
    using call pn info cb B(2) fr by (auto simp: set_eax_def)
qed

theorem page_alloc_remap_leaks_witness:
  "\<exists>s'. sys_page_alloc (upd_proc 1 (set_eax (PAGEADDRESS 256)) (memos_demo demo_own)) = Some s'
     \<and> owner_at s' 3 = 1 \<and> (\<forall>q. live s' q \<longrightarrow> \<not> may_write s' q 3)
     \<and> (\<forall>q va. live s' q \<longrightarrow> \<not> user_maps s' q va 3)"
proof -
  let ?s = "upd_proc 1 (set_eax (PAGEADDRESS 256)) (memos_demo demo_own)"
  have wf: "wf_memos ?s" using demo_live by (intro wf_memos_upd demo_fork_room) simp_all
  have c: "live ?s (current ?s)"
    using demo_fork_room(1,2) live_upd[of "memos_demo demo_own"] by (simp add: wf_memos_def live_def)
  have e: "user_writable (entry_of ?s (current ?s) 256)" "PAGENUMBER (entry_of ?s (current ?s) 256) = 3"
    by (simp_all add: demo_l2 demo_entries user_writable_def PAGENUMBER_div)
  have eax: "reg_eax (p_registers (proc ?s (current ?s))) = PAGEADDRESS 256" by (simp add: set_eax_def)
  have "free_pages ?s = free_pages (memos_demo demo_own)" by (simp add: free_pages_def)
  then have free: "0 < free_pages ?s" using demo_counts(3)[of demo_own] by simp
  obtain s' where s': "sys_page_alloc ?s = Some s'" "owner_at s' 3 = 1" "\<forall>q. live s' q \<longrightarrow> \<not> may_write s' q 3"
      "\<forall>q va. live s' q \<and> user_maps s' q va 3 \<longrightarrow> live ?s q \<and> user_maps ?s q va 3
        \<and> (q, PAGENUMBER va) \<noteq> (current ?s, 256)"
    using page_alloc_remap_leaks[OF wf c eax _ _ e(1) e(2)[symmetric] free] by auto
  have "\<not> user_maps s' q va 3" if "live s' q" for q va
  proof
    assume "user_maps s' q va 3"
    then have q: "live ?s q" "user_maps ?s q va 3" "(q, PAGENUMBER va) \<noteq> (current ?s, 256)" using s'(4) that by blast+
    have "q = 1" using q(1) demo_live[of demo_own q] by (auto simp: live_def split: if_splits)
    then show False
      using q(2,3) user_maps_entry[OF live_table[OF wf q(1)]] by (auto simp: demo_l2 demo_entries)
  qed
  then show ?thesis using s' by blast
qed

end
