(* ===== verification/Memos_Boot.thy ===== *)
theory Memos_Boot
  imports Memos_Isolation
begin

text \<open>
  Booting MemOS: \<^verbatim>\<open>kernel\<close> and \<^verbatim>\<open>process_setup\<close> of \<^verbatim>\<open>kernel.c\<close>, \<^verbatim>\<open>virtual_memory_init\<close> and
  \<^verbatim>\<open>process_init\<close> of \<^verbatim>\<open>k-hardware.c\<close>, and the program loader \<^verbatim>\<open>k-loader.c\<close>. The program images
  are bytes of memory, linked into the kernel; only their addresses and those of the kernel's own
  tables are fixed by the linker (\<open>boot_layout\<close>). The loader switches to the page table of the
  process it loads and nobody switches back, so the later steps run on the table of the process
  set up last: \<open>cr3\<close> is the table in use, and an access that it does not allow is a page fault in
  the kernel, which panics (\<^const>\<open>None\<close>). The kernel's code and static data lie below 1 MB, where all
  these tables agree.
\<close>

record boot_layout =
  handlers :: layout
  kernel_pagetable_memory :: u32
  kernel_level2_pagetable :: u32
  kernel_end :: u32
  ramimages :: "u32 list"

section \<open>ELF images in memory\<close>

definition load16 :: "memory \<Rightarrow> u32 \<Rightarrow> u16" where
  "load16 m a = ucast (m a) OR push_bit 8 (ucast (m (a + 1)))"

definition store16 :: "memory \<Rightarrow> u32 \<Rightarrow> u16 \<Rightarrow> memory" where
  "store16 m a v = m(a := ucast v, a + 1 := ucast (drop_bit 8 v))"

abbreviation "ELF_MAGIC \<equiv> 0x464C457F :: u32"
abbreviation "ELF_PTYPE_LOAD \<equiv> 1 :: u32"
abbreviation "ELF_PFLAG_WRITE \<equiv> 2 :: u32"

definition e_magic :: "memory \<Rightarrow> u32 \<Rightarrow> u32" where "e_magic m eh = load32 m eh"
definition e_entry :: "memory \<Rightarrow> u32 \<Rightarrow> u32" where "e_entry m eh = load32 m (eh + 24)"
definition e_phoff :: "memory \<Rightarrow> u32 \<Rightarrow> u32" where "e_phoff m eh = load32 m (eh + 28)"
definition e_phnum :: "memory \<Rightarrow> u32 \<Rightarrow> nat" where "e_phnum m eh = unat (load16 m (eh + 44))"

record elf_program =
  p_type :: u32
  p_offset :: u32
  p_va :: u32
  p_pa :: u32
  p_filesz :: u32
  p_memsz :: u32
  p_flags :: u32
  p_align :: u32

definition elf_program_at :: "memory \<Rightarrow> u32 \<Rightarrow> elf_program" where
  "elf_program_at m a =
     \<lparr>p_type = load32 m a, p_offset = load32 m (a + 4), p_va = load32 m (a + 8), p_pa = load32 m (a + 12),
      p_filesz = load32 m (a + 16), p_memsz = load32 m (a + 20), p_flags = load32 m (a + 24),
      p_align = load32 m (a + 28)\<rparr>"

section \<open>Accesses of the kernel through the page table in use\<close>

text \<open>
  All mappings the kernel uses are identities; \<open>mapped\<close> asks for that too, so that an access can be
  made at its virtual address.
\<close>

definition mapped :: "u32 \<Rightarrow> u32 \<Rightarrow> memory \<Rightarrow> nat \<Rightarrow> bool" where
  "mapped cr3 perm m pn = (case virtual_memory_lookup cr3 (PAGEADDRESS pn) m of
     Some v \<Rightarrow> vm_pa v = PAGEADDRESS pn \<and> vm_perm v AND perm = perm
   | None \<Rightarrow> False)"

definition accessible :: "u32 \<Rightarrow> u32 \<Rightarrow> u32 \<Rightarrow> u32 \<Rightarrow> memory \<Rightarrow> bool" where
  "accessible cr3 perm a n m \<longleftrightarrow> n = 0
     \<or> list_all (mapped cr3 perm m) [unat a div 4096..<(unat a + unat n + 4095) div 4096]"

abbreviation "KERNEL_READ \<equiv> 1 :: u32"
abbreviation "KERNEL_WRITE \<equiv> 3 :: u32"

text \<open>\<^verbatim>\<open>virtual_memory_map\<close> reads the level-1 table and writes the level-2 table.\<close>

definition map_through :: "u32 \<Rightarrow> u32 \<Rightarrow> u32 \<Rightarrow> u32 \<Rightarrow> u32 \<Rightarrow> u32 \<Rightarrow> memory \<Rightarrow> memory option" where
  "map_through cr3 pagetable va pa sz perm m = do {
     e \<leftarrow> read_entry m pagetable (L1PAGEINDEX va);
     assert_that (accessible cr3 KERNEL_READ pagetable PAGESIZE m);
     assert_that (accessible cr3 KERNEL_WRITE (PTE_ADDR e) PAGESIZE m);
     virtual_memory_map pagetable va pa sz perm m }"

section \<open>The loader\<close>

text \<open>
  \<open>n\<close> is the number of pages left in \<^verbatim>\<open>for (page_va = va; page_va < end_mem; page_va += PAGESIZE)\<close>. A
  range that reaches the end of the address space never ends the loop by its test, but the
  allocation fails at \<^const>\<open>MEMSIZE_PHYSICAL\<close> before that.
\<close>

definition pages_between :: "u32 \<Rightarrow> u32 \<Rightarrow> nat" where
  "pages_between va end_mem = (unat end_mem - unat va + 4095) div 4096"

fun load_pages :: "u32 \<Rightarrow> nat \<Rightarrow> u32 \<Rightarrow> nat \<Rightarrow> memos \<Rightarrow> (i32 \<times> memos) option" where
  "load_pages cr3 pid va 0 s = Some (0, s)"
| "load_pages cr3 pid va (Suc n) s =
     (let (r, s1) = physical_page_alloc va (of_nat (p_pid (proc s pid))) s in
      if sint r < 0 then Some (- 1, s1)
      else do {
        m \<leftarrow> map_through cr3 (p_pagetable (proc s1 pid)) va va PAGESIZE (PTE_P OR PTE_U OR PTE_W) (mem s1);
        load_pages cr3 pid (va + PAGESIZE) n (s1\<lparr>mem := m\<rparr>) })"

fun protect_pages :: "u32 \<Rightarrow> u32 \<Rightarrow> nat \<Rightarrow> u32 \<Rightarrow> memory \<Rightarrow> memory option" where
  "protect_pages pt va 0 perm m = Some m"
| "protect_pages pt va (Suc n) perm m = do {
     m' \<leftarrow> map_through pt pt va va PAGESIZE perm m;
     protect_pages pt (va + PAGESIZE) n perm m' }"

text \<open>The result is the return value, the page table in use and the state.\<close>

definition program_load_segment :: "u32 \<Rightarrow> nat \<Rightarrow> elf_program \<Rightarrow> u32 \<Rightarrow> memos \<Rightarrow> (i32 \<times> u32 \<times> memos) option" where
  "program_load_segment cr3 pid ph src s =
     (let end_file = p_va ph + p_filesz ph; end_mem = p_va ph + p_memsz ph;
          va = p_va ph AND NOT (PAGESIZE - 1); n = pages_between va end_mem in
      do {
        (r, s1) \<leftarrow> load_pages cr3 pid va n s;
        if sint r < 0 then Some (- 1, cr3, s1)
        else let pt = p_pagetable (proc s1 pid) in do {
          assert_that (accessible pt KERNEL_READ src (end_file - va) (mem s1));
          assert_that (accessible pt KERNEL_WRITE va (end_file - va) (mem s1));
          let m1 = memcpy (mem s1) va src (end_file - va);
          assert_that (accessible pt KERNEL_WRITE end_file (end_mem - end_file) m1);
          let m2 = memset m1 end_file 0 (end_mem - end_file);
          let perm = (if p_flags ph AND ELF_PFLAG_WRITE = 0 then PTE_P OR PTE_U else PTE_P OR PTE_U OR PTE_W);
          m3 \<leftarrow> protect_pages pt va n perm m2;
          Some (0, pt, s1\<lparr>mem := m3\<rparr>) } })"

lemma e_phnum_less: "i < e_phnum m eh \<Longrightarrow> i < 65536"
proof -
  have "unat (load16 m (eh + 44)) < 2 ^ LENGTH(16)" by (rule unsigned_less)
  then show "i < e_phnum m eh \<Longrightarrow> i < 65536" by (simp add: e_phnum_def)
qed

text \<open>
  \<^verbatim>\<open>for (i = 0; i < eh->e_phnum; ++i)\<close>: the headers are read from memory in every round, as a bad
  image could be overwritten by its own segments.
\<close>

function load_headers :: "u32 \<Rightarrow> nat \<Rightarrow> u32 \<Rightarrow> u32 \<Rightarrow> nat \<Rightarrow> memos \<Rightarrow> (i32 \<times> u32 \<times> memos) option" where
  "load_headers cr3 pid eh ph i s =
     (if i < e_phnum (mem s) eh
      then let p = elf_program_at (mem s) (ph + 32 * of_nat i) in
           if p_type p = ELF_PTYPE_LOAD
           then case program_load_segment cr3 pid p (eh + p_offset p) s of
                  None \<Rightarrow> None
                | Some (r, cr3', s') \<Rightarrow>
                    if sint r < 0 then Some (- 1, cr3', s') else load_headers cr3' pid eh ph (i + 1) s'
           else load_headers cr3 pid eh ph (i + 1) s
      else Some (0, cr3, s))"
  by pat_completeness auto
termination
  by (relation "measure (\<lambda>(cr3, pid, eh, ph, i, s). 65536 - i)")
    (auto dest!: e_phnum_less)

declare load_headers.simps [simp del]

definition program_load :: "boot_layout \<Rightarrow> u32 \<Rightarrow> nat \<Rightarrow> nat \<Rightarrow> memos \<Rightarrow> (i32 \<times> u32 \<times> memos) option" where
  "program_load B cr3 pid program_id s = do {
     assert_that (program_id < length (ramimages B));
     let eh = ramimages B ! program_id;
     assert_that (e_magic (mem s) eh = ELF_MAGIC);
     (r, cr3', s') \<leftarrow> load_headers cr3 pid eh (eh + e_phoff (mem s) eh) 0 s;
     if sint r < 0 then Some (- 1, cr3', s')
     else Some (0, cr3', upd_proc pid
            (\<lambda>p. p\<lparr>p_registers := (p_registers p)\<lparr>reg_eip := e_entry (mem s') eh\<rparr>\<rparr>) s') }"

section \<open>Setting up a process\<close>

abbreviation "SEGSEL_APP_CODE \<equiv> 0x18 :: u16"
abbreviation "SEGSEL_APP_DATA \<equiv> 0x20 :: u16"
abbreviation "EFLAGS_IF \<equiv> 0x200 :: u32"
abbreviation "EFLAGS_IOPL_3 \<equiv> 0x3000 :: u32"
abbreviation "PROCINIT_ALLOW_PROGRAMMED_IO \<equiv> 1 :: u32"
abbreviation "PROCINIT_DISABLE_INTERRUPTS \<equiv> 2 :: u32"

definition init_eflags :: "u32 \<Rightarrow> u32" where
  "init_eflags flags =
     (let e1 = (if flags AND PROCINIT_ALLOW_PROGRAMMED_IO \<noteq> 0 then EFLAGS_IF OR EFLAGS_IOPL_3 else EFLAGS_IF)
      in if flags AND PROCINIT_DISABLE_INTERRUPTS \<noteq> 0 then e1 AND NOT EFLAGS_IF else e1)"

definition process_init :: "u32 \<Rightarrow> process \<Rightarrow> process" where
  "process_init flags p = p\<lparr>p_registers := zero_registers
     \<lparr>reg_cs := SEGSEL_APP_CODE OR 3, reg_ds := SEGSEL_APP_DATA OR 3, reg_es := SEGSEL_APP_DATA OR 3,
      reg_ss := SEGSEL_APP_DATA OR 3, reg_eflags := init_eflags flags\<rparr>\<rparr>"

text \<open>
  \<^verbatim>\<open>copy_pagetable\<close> writes the two new tables through the table in use; a copy that failed leaves
  the null-like pointer \<open>- 1\<close>, whose entry 0 is read at an unmapped address.
\<close>

definition process_setup :: "boot_layout \<Rightarrow> u32 \<Rightarrow> nat \<Rightarrow> nat \<Rightarrow> memos \<Rightarrow> (u32 \<times> memos) option" where
  "process_setup B cr3 pid program_number s = do {
     let s1 = upd_proc pid (process_init 0) s;
     (pt, s2) \<leftarrow> copy_pagetable (kernel_pagetable s1) (of_nat pid) s1;
     let s3 = upd_proc pid (\<lambda>p. p\<lparr>p_pagetable := pt\<rparr>) s2;
     e \<leftarrow> read_entry (mem s3) pt 0;
     assert_that (accessible cr3 KERNEL_WRITE pt PAGESIZE (mem s3));
     assert_that (accessible cr3 KERNEL_WRITE (PTE_ADDR e) PAGESIZE (mem s3));
     m \<leftarrow> kernel_memset (PTE_ADDR e + 4 * of_nat (PAGENUMBER PROC_START_ADDR)) 0
           (PAGESIZE - 4 * of_nat (PAGENUMBER PROC_START_ADDR)) (mem s3);
     (r, cr3', s4) \<leftarrow> program_load B cr3 pid program_number (s3\<lparr>mem := m\<rparr>);
     assert_that (0 \<le> sint r);
     let s5 = upd_proc pid (\<lambda>p. p\<lparr>p_registers := (p_registers p)\<lparr>reg_esp := MEMSIZE_VIRTUAL\<rparr>\<rparr>) s4;
     let (newpage, s6) = find_free_physic_page (of_nat pid) s5;
     assert_that (newpage \<noteq> - 1);
     m' \<leftarrow> map_through cr3' (p_pagetable (proc s6 pid)) (reg_esp (p_registers (proc s6 pid)) - PAGESIZE)
            newpage PAGESIZE (PTE_P OR PTE_W OR PTE_U) (mem s6);
     Some (cr3', upd_proc pid (\<lambda>p. p\<lparr>p_state := P_RUNNABLE\<rparr>) (s6\<lparr>mem := m'\<rparr>)) }"

section \<open>The kernel's entry point\<close>

definition virtual_memory_init :: "boot_layout \<Rightarrow> memos \<Rightarrow> memos option" where
  "virtual_memory_init B s = do {
     m1 \<leftarrow> kernel_memset (kernel_pagetable_memory B) 0 PAGESIZE (mem s);
     m2 \<leftarrow> write_entry (kernel_pagetable_memory B) 0
            (kernel_level2_pagetable B OR PTE_P OR PTE_W OR PTE_U) m1;
     m3 \<leftarrow> virtual_memory_map (kernel_pagetable_memory B) 0 0 MEMSIZE_PHYSICAL (PTE_P OR PTE_W OR PTE_U) m2;
     Some (s\<lparr>mem := m3, kernel_pagetable := kernel_pagetable_memory B\<rparr>) }"

abbreviation "KERNEL_START_ADDR \<equiv> 0x40000 :: u32"
abbreviation "KERNEL_STACK_TOP \<equiv> 0x80000 :: u32"

definition initial_owner :: "u32 \<Rightarrow> u32 \<Rightarrow> i8" where
  "initial_owner kend addr =
     (if physical_memory_isreserved addr then PO_RESERVED
      else if KERNEL_START_ADDR \<le> addr \<and> addr < kend \<or> addr = KERNEL_STACK_TOP - PAGESIZE then PO_KERNEL
      else PO_FREE)"

definition pageinfo_init :: "u32 \<Rightarrow> memos \<Rightarrow> memos" where
  "pageinfo_init kend s = s\<lparr>pageinfo := map (\<lambda>pn. let ow = initial_owner kend (PAGEADDRESS pn)
     in \<lparr>owner = ow, refcount = (if ow \<noteq> PO_FREE then 1 else 0)\<rparr>) [0..<NPAGES]\<rparr>"

fun clear_cells :: "u32 \<Rightarrow> nat \<Rightarrow> memory \<Rightarrow> memory" where
  "clear_cells a 0 m = m"
| "clear_cells a (Suc n) m = clear_cells (a + 2) n (store16 m a 0x0720)"

definition console_clear :: "memory \<Rightarrow> memory" where
  "console_clear m = store32 (clear_cells 0xB8000 (25 * 80) m) 0xB8FFC 0"

definition processes_init :: "memos \<Rightarrow> memos" where
  "processes_init s = s\<lparr>processes := map (\<lambda>i. \<lparr>p_pid = i, p_registers = zero_registers, p_state = P_FREE,
     p_pagetable = 0\<rparr>) [0..<NPROC]\<rparr>"

fun setup_all :: "boot_layout \<Rightarrow> u32 \<Rightarrow> (nat \<times> nat) list \<Rightarrow> memos \<Rightarrow> (u32 \<times> memos) option" where
  "setup_all B cr3 [] s = Some (cr3, s)"
| "setup_all B cr3 ((pid, program) # ps) s = do {
     (cr3', s') \<leftarrow> process_setup B cr3 pid program s;
     setup_all B cr3' ps s' }"

definition first_programs :: "string option \<Rightarrow> (nat \<times> nat) list" where
  "first_programs command =
     (if command = Some ''fork'' then [(1, 4)]
      else if command = Some ''forkexit'' then [(1, 5)]
      else [(1, 0), (2, 1), (3, 2), (4, 3)])"

definition boot_kernel :: "boot_layout \<Rightarrow> string option \<Rightarrow> memos \<Rightarrow> (u32 \<times> memos) option" where
  "boot_kernel B command s = do {
     s1 \<leftarrow> virtual_memory_init B s;
     let s2 = pageinfo_init (kernel_end B) s1;
     let s3 = processes_init (s2\<lparr>mem := console_clear (mem s2)\<rparr>);
     let kpt = kernel_pagetable s3;
     m4 \<leftarrow> map_through kpt kpt 0 0 PROC_START_ADDR (PTE_P OR PTE_W) (mem s3);
     m5 \<leftarrow> map_through kpt kpt 0xB8000 0xB8000 PAGESIZE (PTE_P OR PTE_W OR PTE_U) m4;
     setup_all B kpt (first_programs command) (s3\<lparr>mem := m5\<rparr>) }"

text \<open>\<^verbatim>\<open>run\<close> looks its arguments up in the tables of process 1 while the last table loaded is in use.\<close>

definition kernel :: "boot_layout \<Rightarrow> string option \<Rightarrow> memos \<Rightarrow> outcome" where
  "kernel B command s = (case boot_kernel B command s of
     None \<Rightarrow> Panic
   | Some (cr3, s') \<Rightarrow>
       (let pt = p_pagetable (proc s' 1) in
        if accessible cr3 KERNEL_READ pt PAGESIZE (mem s')
           \<and> accessible cr3 KERNEL_READ (PTE_ADDR (pte (mem s') pt 0)) PAGESIZE (mem s')
        then run (handlers B) 1 s' else Panic))"

end
