(* ===== verification/Memos_Boot_Tables.thy ===== *)
theory Memos_Boot_Tables
  imports Memos_Boot
begin

text \<open>
  What the steps of the boot do to page tables, entry by entry, and to the page descriptors. The
  tables are followed exactly: \<open>table_is\<close> names every entry, and \<open>page_step\<close> the pages a step takes and
  the pages it writes.
\<close>

section \<open>Tables\<close>

definition table_is :: "memory \<Rightarrow> u32 \<Rightarrow> u32 \<Rightarrow> (nat \<Rightarrow> u32) \<Rightarrow> bool" where
  "table_is m pt lt E \<longleftrightarrow> wf_table pt m \<and> l2_of m pt = lt \<and> (\<forall>i < 1024. pte m lt i = E i)"

text \<open>The part below 1 MB, which all tables share: the console for everybody, the rest for the kernel.\<close>

definition kernel_entry :: "nat \<Rightarrow> u32" where
  "kernel_entry i = PAGEADDRESS i OR (if i = CONSOLE_PAGE then 7 else 3)"

definition shares_kernel :: "(nat \<Rightarrow> u32) \<Rightarrow> bool" where
  "shares_kernel E \<longleftrightarrow> (\<forall>i < 256. E i = kernel_entry i)"

text \<open>A table in use: its two pages are below 1 MB, so the kernel can write them.\<close>

definition usable :: "memory \<Rightarrow> u32 \<Rightarrow> u32 \<Rightarrow> (nat \<Rightarrow> u32) \<Rightarrow> bool" where
  "usable m pt lt E \<longleftrightarrow> table_is m pt lt E \<and> shares_kernel E \<and> PAGENUMBER pt < 256 \<and> PAGENUMBER lt < 256"

lemma table_isD:
  assumes "table_is m pt lt E"
  shows "wf_table pt m" "l2_of m pt = lt" "i < 1024 \<Longrightarrow> pte m lt i = E i" "PAGEOFFSET pt = 0" "PAGEOFFSET lt = 0"
    "PAGENUMBER pt < NPAGES" "PAGENUMBER lt < NPAGES" "PAGENUMBER pt \<noteq> PAGENUMBER lt"
  using assms wf_tableD[of pt m] l2_of_aligned(1)[of m pt] unfolding table_is_def by metis+

lemma table_is_frame:
  assumes "table_is m pt lt E"
    and "\<And>x. PAGENUMBER x = PAGENUMBER pt \<or> PAGENUMBER x = PAGENUMBER lt \<Longrightarrow> m' x = m x"
  shows "table_is m' pt lt E"
proof -
  note D = table_isD[OF assms(1)]
  note T = tables_cong[OF D(1), of m', unfolded D(2), OF assms(2)]
  show ?thesis using T D(3) by (simp add: table_is_def)
qed

lemma usable_frame:
  assumes "usable m pt lt E"
    and "\<And>x. PAGENUMBER x = PAGENUMBER pt \<or> PAGENUMBER x = PAGENUMBER lt \<Longrightarrow> m' x = m x"
  shows "usable m' pt lt E"
  using assms table_is_frame[of m pt lt E m'] by (auto simp: usable_def)

lemma table_lookup:
  assumes "table_is m pt lt E" "PAGENUMBER va < 1024"
  shows "virtual_memory_lookup pt va m = Some (vam_of (E (PAGENUMBER va)) va)"
  using lookup_eq[of pt m va] table_isD[OF assms(1)] assms(2) by simp

text \<open>An entry that maps page \<open>i\<close> to itself.\<close>

lemma identity_entry:
  assumes "i < 1024" "f < 0x1000" "f AND 1 = 1" "PAGENUMBER va = i"
  shows "vam_of (PAGEADDRESS i OR f) va = \<lparr>vm_pn = int i, vm_pa = PAGEADDRESS i + PAGEOFFSET va, vm_perm = f\<rparr>"
    "PAGENUMBER (PAGEADDRESS i OR f) = i" "(PAGEADDRESS i OR f) AND 7 = f AND 7"
proof -
  have al: "PAGEOFFSET (PAGEADDRESS i) = 0" using assms(1) by simp
  note parts = entry_parts[OF al assms(2)]
  show pn: "PAGENUMBER (PAGEADDRESS i OR f) = i" using parts(3) assms(1) by simp
  have low: "x AND y = PTE_FLAGS x AND y" if "0xFFF AND y = y" for x y
    using that by (simp add: PTE_FLAGS_def and.assoc)
  show "(PAGEADDRESS i OR f) AND 7 = f AND 7"
    using low[of 7 "PAGEADDRESS i OR f"] parts(2) by simp
  have "(PAGEADDRESS i OR f) AND 1 = 1"
    using low[of 1 "PAGEADDRESS i OR f"] parts(2) assms(3) by simp
  then show "vam_of (PAGEADDRESS i OR f) va = \<lparr>vm_pn = int i, vm_pa = PAGEADDRESS i + PAGEOFFSET va, vm_perm = f\<rparr>"
    using pn parts(1,2) by (simp add: vam_of_def)
qed

lemma identity_mapped:
  assumes "table_is m pt lt E" "i < 1024" "E i = PAGEADDRESS i OR f" "f < 0x1000" "f AND 1 = 1" "f AND perm = perm"
  shows "mapped pt perm m i"
proof -
  have pn: "PAGENUMBER (PAGEADDRESS i) = i" "PAGEOFFSET (PAGEADDRESS i) = 0" using assms(2) by simp_all
  note I = identity_entry(1)[OF assms(2,4,5) pn(1)]
  show ?thesis
    using table_lookup[OF assms(1), of "PAGEADDRESS i"] assms(2,3,6) pn I by (simp add: mapped_def)
qed

text \<open>The kernel reads and writes everything below 1 MB through a table that maps it there.\<close>

definition kernel_sees :: "(nat \<Rightarrow> u32) \<Rightarrow> bool" where
  "kernel_sees E \<longleftrightarrow> (\<forall>i < 256. E i = PAGEADDRESS i OR 7 \<or> E i = PAGEADDRESS i OR 3)"

lemma shares_kernel_sees: "shares_kernel E \<Longrightarrow> kernel_sees E"
  by (simp add: shares_kernel_def kernel_sees_def kernel_entry_def)

lemma low_mapped:
  assumes "table_is m pt lt E" "kernel_sees E" "i < 256" "perm = 1 \<or> perm = 3"
  shows "mapped pt perm m i"
proof -
  consider "E i = PAGEADDRESS i OR 7" | "E i = PAGEADDRESS i OR 3"
    using assms(2,3) by (auto simp: kernel_sees_def)
  then show ?thesis
    by cases (use assms identity_mapped[OF assms(1), of i] in auto)
qed

lemma accessible_pages:
  assumes "\<And>i. unat a div 4096 \<le> i \<Longrightarrow> i * 4096 < unat a + unat n \<Longrightarrow> mapped cr3 perm m i"
  shows "accessible cr3 perm a n m"
proof -
  have "i * 4096 < x" if "i < (x + 4095) div 4096" for i x :: nat
    using that by (simp add: less_eq_div_iff_mult_less_eq Suc_le_eq[symmetric])
  then show ?thesis using assms by (auto simp: accessible_def list_all_iff)
qed

lemma low_accessible:
  assumes "table_is m pt lt E" "kernel_sees E" "unat a + unat n \<le> 0x100000" "perm = 1 \<or> perm = 3"
  shows "accessible pt perm a n m"
  by (rule accessible_pages) (use low_mapped[OF assms(1,2) _ assms(4)] assms(3) in auto)

lemma low_page:
  assumes "table_is m pt lt E" "kernel_sees E" "PAGEOFFSET a = 0" "PAGENUMBER a < 256" "perm = 1 \<or> perm = 3"
  shows "accessible pt perm a PAGESIZE m"
  by (rule low_accessible[OF assms(1,2) _ assms(5)]) (use aligned_unat[OF assms(3)] assms(4) in simp)

lemma map_through_low:
  assumes "table_is m cr3 lt3 E3" "kernel_sees E3" "table_is m pt lt E" "PAGENUMBER pt < 256" "PAGENUMBER lt < 256"
    "PAGENUMBER va < 1024"
  shows "map_through cr3 pt va pa sz perm m = virtual_memory_map pt va pa sz perm m"
proof -
  note D = table_isD[OF assms(3)]
  have "read_entry m pt 0 = Some (pte m pt 0)" using D(4,6) by (simp add: read_entry_eq)
  moreover have "PTE_ADDR (pte m pt 0) = lt" using D(2) by (simp add: l2_of_def)
  ultimately show ?thesis
    using low_page[OF assms(1,2) D(4) assms(4), of 1] low_page[OF assms(1,2) D(5) assms(5), of 3]
    by (simp add: map_through_def L1_index[OF assms(6)])
qed

lemma usable_sees: "usable m pt lt E \<Longrightarrow> table_is m pt lt E \<and> kernel_sees E"
  by (simp add: usable_def shares_kernel_sees)

lemma usable_accessible:
  "usable m pt lt E \<Longrightarrow> unat a + unat n \<le> 0x100000 \<Longrightarrow> perm = 1 \<or> perm = 3 \<Longrightarrow> accessible pt perm a n m"
  using low_accessible usable_sees by blast

lemma usable_page:
  "usable m pt lt E \<Longrightarrow> PAGEOFFSET a = 0 \<Longrightarrow> PAGENUMBER a < 256 \<Longrightarrow> perm = 1 \<or> perm = 3 \<Longrightarrow>
     accessible pt perm a PAGESIZE m"
  using low_page usable_sees by blast

lemma map_through_eq:
  assumes "usable m cr3 lt3 E3" "usable m pt lt E" "PAGENUMBER va < 1024"
  shows "map_through cr3 pt va pa sz perm m = virtual_memory_map pt va pa sz perm m"
  by (rule map_through_low) (use assms usable_sees[OF assms(1)] in \<open>auto simp: usable_def\<close>)

text \<open>Mapping a range of pages.\<close>

lemma map_range:
  assumes t: "table_is m pt lt E" and va: "PAGEOFFSET va = 0" "PAGENUMBER va + n \<le> 1024"
    and pa: "PAGEOFFSET pa = 0" "PAGENUMBER pa + n \<le> NPAGES" and perm: "perm < 0x1000" "perm AND 1 = 1"
  shows "\<exists>m'. virtual_memory_map pt va pa (of_nat n * PAGESIZE) perm m = Some m' \<and> agree_except (PAGENUMBER lt) m m'
    \<and> table_is m' pt lt (\<lambda>i. if PAGENUMBER va \<le> i \<and> i < PAGENUMBER va + n
         then (pa + of_nat (i - PAGENUMBER va) * PAGESIZE) OR perm else E i)"
proof -
  note D = table_isD[OF t]
  have l: "PAGENUMBER (pte m pt 0) = PAGENUMBER lt" using D(2) l2_of_aligned(2)[of m pt] by simp
  obtain m' where m': "virtual_memory_map pt va pa (of_nat n * PAGESIZE) perm m = Some m'"
    "agree_except (PAGENUMBER lt) m m'"
    "\<forall>j < 1024. pte m' lt j = (if PAGENUMBER va \<le> j \<and> j < PAGENUMBER va + n
          then new_entry pa perm (j - PAGENUMBER va) else pte m lt j)"
    using map_eq[OF D(1) va _ perm(1), of pa] pa D(2) l by auto
  have "agree_except (PAGENUMBER (pte m pt 0)) m m'" using m'(2) l by simp
  note F = wf_table_frame[OF D(1) this]
  have "table_is m' pt lt (\<lambda>i. if PAGENUMBER va \<le> i \<and> i < PAGENUMBER va + n
         then (pa + of_nat (i - PAGENUMBER va) * PAGESIZE) OR perm else E i)"
    using F D(2,3) m'(3) perm(2) by (auto simp: table_is_def new_entry_def)
  then show ?thesis using m'(1,2) by blast
qed

lemma PAGEADDRESS_PAGENUMBER: "PAGEOFFSET a = 0 \<Longrightarrow> PAGEADDRESS (PAGENUMBER a) = a"
  by (simp add: aligned_eq_iff)

text \<open>One page onto itself.\<close>

lemma map_self:
  assumes t: "table_is m pt lt E" and i: "i < NPAGES" and perm: "perm < 0x1000" "perm AND 1 = 1"
  shows "\<exists>m'. virtual_memory_map pt (PAGEADDRESS i) (PAGEADDRESS i) PAGESIZE perm m = Some m'
    \<and> agree_except (PAGENUMBER lt) m m' \<and> table_is m' pt lt (E(i := PAGEADDRESS i OR perm))"
proof -
  have "\<exists>m'. virtual_memory_map pt (PAGEADDRESS i) (PAGEADDRESS i) (of_nat 1 * PAGESIZE) perm m = Some m'
    \<and> agree_except (PAGENUMBER lt) m m'
    \<and> table_is m' pt lt (\<lambda>k. if PAGENUMBER (PAGEADDRESS i) \<le> k \<and> k < PAGENUMBER (PAGEADDRESS i) + 1
         then (PAGEADDRESS i + of_nat (k - PAGENUMBER (PAGEADDRESS i)) * PAGESIZE) OR perm else E k)"
    by (rule map_range[OF t]) (use i perm in simp_all)
  moreover have "(\<lambda>k. if PAGENUMBER (PAGEADDRESS i) \<le> k \<and> k < PAGENUMBER (PAGEADDRESS i) + 1
         then (PAGEADDRESS i + of_nat (k - PAGENUMBER (PAGEADDRESS i)) * PAGESIZE) OR perm else E k)
      = E(i := PAGEADDRESS i OR perm)"
    using i by (auto simp: fun_eq_iff)
  ultimately show ?thesis by simp
qed

end
