(* ===== verification/Memos_Boot_Load.thy ===== *)
theory Memos_Boot_Load
  imports Memos_Boot_Tables
begin

text \<open>
  Loading a program: what \<^verbatim>\<open>program_load_segment\<close> and \<^verbatim>\<open>program_load\<close> do to the process's table, to
  the page descriptors and to memory, for images whose segments lie on free pages.
\<close>

section \<open>Steps that take and write pages\<close>

text \<open>For process \<open>q\<close>: the pages \<open>P\<close> become its own, and only the pages \<open>W\<close> are written.\<close>

definition page_step :: "nat \<Rightarrow> nat set \<Rightarrow> nat set \<Rightarrow> memos \<Rightarrow> memos \<Rightarrow> bool" where
  "page_step q P W s s' \<longleftrightarrow> length (pageinfo s') = length (pageinfo s) \<and> kernel_pagetable s' = kernel_pagetable s
     \<and> (\<forall>j < NPAGES. pageinfo s' ! j = (if j \<in> P then \<lparr>owner = of_nat q, refcount = 1\<rparr> else pageinfo s ! j))
     \<and> (\<forall>x. PAGENUMBER x \<notin> W \<longrightarrow> mem s' x = mem s x)"

definition counted :: "memos \<Rightarrow> bool" where
  "counted s \<longleftrightarrow> length (pageinfo s) = NPAGES
     \<and> (\<forall>j < NPAGES. refcount (pageinfo s ! j) = 0 \<longleftrightarrow> owner_at s j = PO_FREE)"

lemma page_step_refl: "page_step q {} W s s"
  by (simp add: page_step_def)

lemma page_step_trans: "page_step q P W s s' \<Longrightarrow> page_step q P' W' s' s'' \<Longrightarrow> page_step q (P \<union> P') (W \<union> W') s s''"
  by (simp add: page_step_def)

lemma page_step_mono: "page_step q P W s s' \<Longrightarrow> W \<subseteq> W' \<Longrightarrow> page_step q P W' s s'"
  by (auto simp: page_step_def)

lemma page_step_mem: "(\<And>x. PAGENUMBER x \<notin> W \<Longrightarrow> m x = mem s x) \<Longrightarrow> page_step q {} W s (s\<lparr>mem := m\<rparr>)"
  by (simp add: page_step_def)

lemma pid_not_free: "0 < q \<Longrightarrow> q < NPROC \<Longrightarrow> (of_nat q :: i8) \<noteq> PO_FREE"
  using pid_inj[of q 0] by simp

lemma page_step_counted:
  assumes "page_step q P W s s'" "counted s" "0 < q" "q < NPROC"
  shows "counted s'"
  using assms pid_not_free[OF assms(3,4)] by (auto simp: page_step_def counted_def)

lemma page_step_owner:
  "page_step q P W s s' \<Longrightarrow> j < NPAGES \<Longrightarrow> owner_at s' j = (if j \<in> P then of_nat q else owner_at s j)"
  by (simp add: page_step_def)

text \<open>Taking one page.\<close>

lemma page_step_take:
  assumes "counted s" "i < NPAGES"
  shows "page_step q {i} {} s (upd_page i (\<lambda>p. p\<lparr>refcount := 1, owner := of_nat q\<rparr>) s)"
  using assms by (auto simp: page_step_def counted_def)

lemma page_alloc_free:
  assumes "counted s" "i < NPAGES" "owner_at s i = PO_FREE"
  shows "physical_page_alloc (PAGEADDRESS i) ow s = (0, upd_page i (\<lambda>p. p\<lparr>refcount := 1, owner := ow\<rparr>) s)"
proof -
  have "PAGEADDRESS i AND 0xFFF = 0"
    using PAGEADDRESS_aligned[of i] assms(2) by (simp add: PAGEOFFSET_def)
  moreover have "\<not> MEMSIZE_PHYSICAL \<le> PAGEADDRESS i"
    using PAGEADDRESS_unat[of i] assms(2) by (simp add: word_le_nat_alt)
  ultimately show ?thesis using assms by (simp add: physical_page_alloc_def counted_def)
qed

section \<open>The page loops\<close>

lemma PAGEADDRESS_Suc: "PAGEADDRESS i + PAGESIZE = PAGEADDRESS (Suc i)"
  by (simp add: PAGEADDRESS_def push_bit_eq_mult algebra_simps)

text \<open>A range of pages mapped to itself.\<close>

definition with_range :: "nat \<Rightarrow> nat \<Rightarrow> u32 \<Rightarrow> (nat \<Rightarrow> u32) \<Rightarrow> nat \<Rightarrow> u32" where
  "with_range v n f E i = (if v \<le> i \<and> i < v + n then PAGEADDRESS i OR f else E i)"

lemma with_range_0: "with_range v 0 f E = E"
  by (auto simp: with_range_def fun_eq_iff)

lemma with_range_Suc: "with_range (Suc v) n f (E(v := PAGEADDRESS v OR f)) = with_range v (Suc n) f E"
  by (auto simp: with_range_def fun_eq_iff)

lemma shares_kernel_range: "shares_kernel E \<Longrightarrow> 256 \<le> v \<Longrightarrow> shares_kernel (with_range v n f E)"
  by (simp add: shares_kernel_def with_range_def)

lemma shares_kernel_upd: "shares_kernel E \<Longrightarrow> 256 \<le> v \<Longrightarrow> shares_kernel (E(v := e))"
  by (simp add: shares_kernel_def)

text \<open>The table in use is the one being changed, or not on the page that changes.\<close>

definition in_use :: "memory \<Rightarrow> u32 \<Rightarrow> u32 \<Rightarrow> u32 \<Rightarrow> bool" where
  "in_use m cr3 pt lt \<longleftrightarrow> (\<exists>lt3 E3. usable m cr3 lt3 E3
     \<and> (cr3 = pt \<or> PAGENUMBER lt \<notin> {PAGENUMBER cr3, PAGENUMBER lt3}))"

lemma in_use_step:
  assumes "in_use m cr3 pt lt" "usable m' pt lt E'" "agree_except (PAGENUMBER lt) m m'"
  shows "in_use m' cr3 pt lt"
proof -
  obtain lt3 E3 where u: "usable m cr3 lt3 E3" and d: "cr3 = pt \<or> PAGENUMBER lt \<notin> {PAGENUMBER cr3, PAGENUMBER lt3}"
    using assms(1) by (auto simp: in_use_def)
  show ?thesis
  proof (cases "cr3 = pt")
    case False
    have "usable m' cr3 lt3 E3"
      by (rule usable_frame[OF u]) (use assms(3) d False in \<open>auto simp: agree_except_def\<close>)
    then show ?thesis using d False by (auto simp: in_use_def)
  qed (use assms(2) in \<open>auto simp: in_use_def\<close>)
qed

lemma in_use_map:
  assumes "in_use m cr3 pt lt" "usable m pt lt E" "PAGENUMBER va < 1024"
  shows "map_through cr3 pt va pa sz perm m = virtual_memory_map pt va pa sz perm m"
  using assms map_through_eq[OF _ assms(2,3)] by (auto simp: in_use_def)

lemma load_pages_ok:
  assumes "counted s" "0 < q" "q < NPROC" "p_pid (proc s q) = q" "p_pagetable (proc s q) = pt"
    "usable (mem s) pt lt E" "in_use (mem s) cr3 pt lt" "256 \<le> v" "v + n \<le> NPAGES"
    "\<And>i. v \<le> i \<Longrightarrow> i < v + n \<Longrightarrow> owner_at s i = PO_FREE"
  shows "\<exists>s'. load_pages cr3 q (PAGEADDRESS v) n s = Some (0, s') \<and> page_step q {v..<v + n} {PAGENUMBER lt} s s'
    \<and> processes s' = processes s \<and> usable (mem s') pt lt (with_range v n 7 E)"
  using assms
proof (induction n arbitrary: s v E)
  case 0
  then show ?case by (auto simp: with_range_0 intro: page_step_refl)
next
  case (Suc n)
  have v: "v < NPAGES" using Suc.prems(9) by simp
  let ?s1 = "upd_page v (\<lambda>p. p\<lparr>refcount := 1, owner := of_nat q\<rparr>) s"
  have al: "physical_page_alloc (PAGEADDRESS v) (of_nat (p_pid (proc s q))) s = (0, ?s1)"
    unfolding Suc.prems(4) using Suc.prems(10)[of v] by (intro page_alloc_free[OF Suc.prems(1) v]) simp
  have t: "table_is (mem s) pt lt E" using Suc.prems(6) by (simp add: usable_def)
  obtain m where m: "virtual_memory_map pt (PAGEADDRESS v) (PAGEADDRESS v) PAGESIZE 7 (mem s) = Some m"
    "agree_except (PAGENUMBER lt) (mem s) m" "table_is m pt lt (E(v := PAGEADDRESS v OR 7))"
    using map_self[OF t v, of 7] by auto
  let ?s2 = "?s1\<lparr>mem := m\<rparr>"
  have mt: "map_through cr3 pt (PAGEADDRESS v) (PAGEADDRESS v) PAGESIZE 7 (mem s) = Some m"
    using in_use_map[OF Suc.prems(7,6)] v m(1) by simp
  have u: "usable (mem ?s2) pt lt (E(v := PAGEADDRESS v OR 7))"
    using m(3) Suc.prems(6) shares_kernel_upd[OF _ Suc.prems(8)] by (simp add: usable_def)
  have g: "page_step q {v} {PAGENUMBER lt} s ?s2"
    using page_step_take[OF Suc.prems(1) v, of q] m(2) by (simp add: page_step_def agree_except_def)
  have "\<exists>s'. load_pages cr3 q (PAGEADDRESS (Suc v)) n ?s2 = Some (0, s')
    \<and> page_step q {Suc v..<Suc v + n} {PAGENUMBER lt} ?s2 s' \<and> processes s' = processes ?s2
    \<and> usable (mem s') pt lt (with_range (Suc v) n 7 (E(v := PAGEADDRESS v OR 7)))"
  proof (rule Suc.IH)
    show "counted ?s2" by (rule page_step_counted[OF g Suc.prems(1-3)])
    show "in_use (mem ?s2) cr3 pt lt" using in_use_step[OF Suc.prems(7) u] m(2) by simp
    show "owner_at ?s2 i = PO_FREE" if "Suc v \<le> i" "i < Suc v + n" for i
      using page_step_owner[OF g, of i] Suc.prems(9) Suc.prems(10)[of i] that by simp
    show "usable (mem ?s2) pt lt (E(v := PAGEADDRESS v OR 7))" by (rule u)
  qed (use Suc.prems in simp_all)
  then obtain s' where s': "load_pages cr3 q (PAGEADDRESS (Suc v)) n ?s2 = Some (0, s')"
    "page_step q {Suc v..<Suc v + n} {PAGENUMBER lt} ?s2 s'" "processes s' = processes ?s2"
    "usable (mem s') pt lt (with_range (Suc v) n 7 (E(v := PAGEADDRESS v OR 7)))" by blast
  have "{v} \<union> {Suc v..<Suc v + n} = {v..<v + Suc n}" by auto
  then have "page_step q {v..<v + Suc n} {PAGENUMBER lt} s s'"
    using page_step_trans[OF g s'(2)] by simp
  moreover have "load_pages cr3 q (PAGEADDRESS v) (Suc n) s = Some (0, s')"
    using al mt s'(1) Suc.prems(5) by (simp add: PAGEADDRESS_Suc)
  ultimately show ?case using s'(3,4) unfolding with_range_Suc by auto
qed

lemma protect_pages_ok:
  assumes "usable m pt lt E" "256 \<le> v" "v + n \<le> NPAGES" "f < 0x1000" "f AND 1 = 1"
  shows "\<exists>m'. protect_pages pt (PAGEADDRESS v) n f m = Some m' \<and> agree_except (PAGENUMBER lt) m m'
    \<and> usable m' pt lt (with_range v n f E)"
  using assms
proof (induction n arbitrary: m v E)
  case 0
  then show ?case by (simp add: with_range_0 agree_except_def)
next
  case (Suc n)
  have v: "v < NPAGES" using Suc.prems(3) by simp
  have t: "table_is m pt lt E" using Suc.prems(1) by (simp add: usable_def)
  obtain m1 where m1: "virtual_memory_map pt (PAGEADDRESS v) (PAGEADDRESS v) PAGESIZE f m = Some m1"
    "agree_except (PAGENUMBER lt) m m1" "table_is m1 pt lt (E(v := PAGEADDRESS v OR f))"
    using map_self[OF t v Suc.prems(4,5)] by auto
  have mt: "map_through pt pt (PAGEADDRESS v) (PAGEADDRESS v) PAGESIZE f m = Some m1"
    using map_through_eq[OF Suc.prems(1,1)] v m1(1) by simp
  have u: "usable m1 pt lt (E(v := PAGEADDRESS v OR f))"
    using m1(3) Suc.prems(1) shares_kernel_upd[OF _ Suc.prems(2)] by (simp add: usable_def)
  obtain m' where m': "protect_pages pt (PAGEADDRESS (Suc v)) n f m1 = Some m'" "agree_except (PAGENUMBER lt) m1 m'"
    "usable m' pt lt (with_range (Suc v) n f (E(v := PAGEADDRESS v OR f)))"
    using Suc.IH[OF u, of "Suc v"] Suc.prems by (auto simp del: fun_upd_apply)
  show ?case
    using mt m' m1(2) unfolding with_range_Suc by (simp add: PAGEADDRESS_Suc agree_except_def)
qed

section \<open>Segments\<close>

definition segment_pages :: "elf_program \<Rightarrow> nat list" where
  "segment_pages ph = [PAGENUMBER (p_va ph)..<(unat (p_va ph) + unat (p_memsz ph) + 4095) div 4096]"

definition segment_perm :: "elf_program \<Rightarrow> u32" where
  "segment_perm ph = (if p_flags ph AND ELF_PFLAG_WRITE = 0 then 5 else 7)"

text \<open>A segment that fits: in the process part of physical memory, with its file part inside.\<close>

definition segment_fits :: "elf_program \<Rightarrow> bool" where
  "segment_fits ph \<longleftrightarrow> 0x100000 \<le> unat (p_va ph) \<and> unat (p_va ph) + unat (p_memsz ph) \<le> 0x200000
     \<and> p_filesz ph \<le> p_memsz ph"

lemma offset_range:
  fixes a b :: u32
  assumes "unat (a - b) < n" "unat b + n \<le> 4294967296"
  shows "unat b \<le> unat a" "unat a < unat b + n" "unat (a - b) = unat a - unat b"
proof -
  have "unat a = unat (b + (a - b))" by simp
  also have "\<dots> = unat b + unat (a - b)" using assms by (simp only: unat_word_ariths(1)) simp
  finally show "unat b \<le> unat a" "unat a < unat b + n" "unat (a - b) = unat a - unat b" using assms(1) by simp_all
qed

lemma segment_arith:
  assumes "segment_fits ph"
  defines "va \<equiv> p_va ph AND NOT (PAGESIZE - 1)"
  defines "v \<equiv> PAGENUMBER (p_va ph)"
  shows "va = PAGEADDRESS v" "256 \<le> v" "unat va = v * 4096" "unat va \<le> unat (p_va ph)"
    "unat (p_va ph) = unat va + unat (PAGEOFFSET (p_va ph))"
    "unat (p_va ph + p_filesz ph) = unat (p_va ph) + unat (p_filesz ph)"
    "unat (p_va ph + p_memsz ph) = unat (p_va ph) + unat (p_memsz ph)"
    "v + pages_between va (p_va ph + p_memsz ph) \<le> NPAGES"
    "set (segment_pages ph) = {v..<v + pages_between va (p_va ph + p_memsz ph)}"
    "unat (p_filesz ph) \<le> unat (p_memsz ph)"
proof -
  have va: "va = PTE_ADDR (p_va ph)" by (simp add: va_def PTE_ADDR_def)
  then have al: "PAGEOFFSET va = 0" "PAGENUMBER va = v" by (simp_all add: v_def)
  show "va = PAGEADDRESS v" using PAGEADDRESS_PAGENUMBER[OF al(1)] al(2) by simp
  show uva: "unat va = v * 4096" using aligned_unat[OF al(1)] al(2) by simp
  show le: "unat va \<le> unat (p_va ph)" "unat (p_va ph) = unat va + unat (PAGEOFFSET (p_va ph))"
    by (simp_all add: va PTE_ADDR_unat PAGEOFFSET_mod)
  show v: "256 \<le> v" using assms(1) by (simp add: segment_fits_def v_def PAGENUMBER_div less_eq_div_iff_mult_less_eq)
  show fm: "unat (p_filesz ph) \<le> unat (p_memsz ph)" using assms(1) by (simp add: segment_fits_def word_le_nat_alt)
  show f: "unat (p_va ph + p_filesz ph) = unat (p_va ph) + unat (p_filesz ph)"
    and mm: "unat (p_va ph + p_memsz ph) = unat (p_va ph) + unat (p_memsz ph)"
    using assms(1) fm by (simp_all only: segment_fits_def unat_word_ariths(1)) simp_all
  have pb: "pages_between va (p_va ph + p_memsz ph) = (unat (p_va ph) + unat (p_memsz ph) + 4095) div 4096 - v"
    unfolding pages_between_def mm using le(1) uva by simp
  have le2: "v \<le> (unat (p_va ph) + unat (p_memsz ph) + 4095) div 4096"
    unfolding v_def PAGENUMBER_div by (rule div_le_mono) simp
  show "v + pages_between va (p_va ph + p_memsz ph) \<le> NPAGES"
    using le2 div_le_mono[of "unat (p_va ph) + unat (p_memsz ph) + 4095" 2101247 4096] assms(1)
    by (simp add: pb segment_fits_def)
  show "set (segment_pages ph) = {v..<v + pages_between va (p_va ph + p_memsz ph)}"
    using le2 by (simp add: segment_pages_def v_def[symmetric] pb)
qed

lemma with_range_twice: "with_range v n f (with_range v n g E) = with_range v n f E"
  by (auto simp: with_range_def fun_eq_iff)

lemma range_mapped:
  assumes "usable m pt lt (with_range v n 7 E)" "v * 4096 \<le> unat a" "unat a + unat k \<le> (v + n) * 4096" "v + n \<le> NPAGES"
  shows "accessible pt KERNEL_WRITE a k m"
proof (rule accessible_pages)
  fix i assume i: "unat a div 4096 \<le> i" "i * 4096 < unat a + unat k"
  have "v \<le> unat a div 4096" using assms(2) by (simp add: less_eq_div_iff_mult_less_eq)
  then have "v \<le> i" using i(1) by linarith
  moreover have "i * 4096 < (v + n) * 4096" using i(2) assms(3) by linarith
  then have "i < v + n" by simp
  ultimately show "mapped pt KERNEL_WRITE m i"
    using assms(1,4) identity_mapped[of m pt lt "with_range v n 7 E" i 7 3] by (simp add: usable_def with_range_def)
qed

text \<open>
  The bytes of a loaded segment: the file's, then zeros. The copy goes to the start of the page, so in a
  segment that is not page-aligned the bytes are off by the offset of \<open>p_va\<close> in its page.
\<close>

definition segment_loaded :: "elf_program \<Rightarrow> u32 \<Rightarrow> memory \<Rightarrow> memory \<Rightarrow> bool" where
  "segment_loaded ph src m0 m \<longleftrightarrow>
     (\<forall>k < unat (p_filesz ph). m (p_va ph + of_nat k) = m0 (src + PAGEOFFSET (p_va ph) + of_nat k))
     \<and> (\<forall>k. unat (p_filesz ph) \<le> k \<and> k < unat (p_memsz ph) \<longrightarrow> m (p_va ph + of_nat k) = 0)"

lemma segment_bytes:
  fixes ph :: elf_program and src :: u32 and m :: memory
  assumes fit: "segment_fits ph" and src: "unat src + unat (p_filesz ph) + unat (PAGEOFFSET (p_va ph)) \<le> 0x100000"
  defines "va \<equiv> p_va ph AND NOT (PAGESIZE - 1)"
  defines "end_file \<equiv> p_va ph + p_filesz ph"
  defines "m1 \<equiv> memcpy m va src (end_file - va)"
  defines "m2 \<equiv> memset m1 end_file 0 (p_va ph + p_memsz ph - end_file)"
  shows "segment_loaded ph src m m2"
    "\<And>x. PAGENUMBER x \<notin> set (segment_pages ph) \<Longrightarrow> m1 x = m x"
    "\<And>x. PAGENUMBER x \<notin> set (segment_pages ph) \<Longrightarrow> m2 x = m x"
    "unat (end_file - va) = unat (p_filesz ph) + unat (PAGEOFFSET (p_va ph))"
    "unat (p_va ph + p_memsz ph - end_file) = unat (p_memsz ph) - unat (p_filesz ph)"
proof -
  note A = segment_arith[OF fit, folded va_def]
  have ef: "unat end_file = unat (p_va ph) + unat (p_filesz ph)" using A(6) by (simp add: end_file_def)
  show c: "unat (end_file - va) = unat (p_filesz ph) + unat (PAGEOFFSET (p_va ph))"
    using A(4,5) ef by (simp add: unat_sub word_le_nat_alt)
  show z: "unat (p_va ph + p_memsz ph - end_file) = unat (p_memsz ph) - unat (p_filesz ph)"
    using A(7,10) ef by (simp add: unat_sub word_le_nat_alt)
  have lim: "unat (p_va ph) + unat (p_memsz ph) \<le> 2097152" "unat src \<le> unat va"
    using fit src A(2,3) by (simp_all add: segment_fits_def)
  have dist: "unat (end_file - va) \<le> unat (va - src)"
    using lim(2) src A(2,3) c by (simp add: unat_sub word_le_nat_alt)
  have m1: "m1 a = (if unat (a - va) < unat (end_file - va) then m (src + (a - va)) else m a)" for a
    unfolding m1_def memcpy_def by (rule memcpy_loop_eq) (use dist in simp_all)
  have m2: "m2 a = (if unat (a - end_file) < unat (p_memsz ph) - unat (p_filesz ph) then 0 else m1 a)" for a
    unfolding m2_def memset_def z by (subst memset_loop_eq) (use A(10) lim(1) in simp_all)
  have in_pages: "PAGENUMBER a \<in> set (segment_pages ph)"
    if "unat va \<le> unat a" "unat a < unat (p_va ph) + unat (p_memsz ph)" for a
  proof -
    have "PAGENUMBER (p_va ph) \<le> unat a div 4096"
      using that(1) A(3) by (simp add: less_eq_div_iff_mult_less_eq)
    moreover have "unat a div 4096 < (unat (p_va ph) + unat (p_memsz ph) + 4095) div 4096"
    proof -
      have "unat a div 4096 + 1 = (unat a + 4096) div 4096" by simp
      also have "\<dots> \<le> (unat (p_va ph) + unat (p_memsz ph) + 4095) div 4096"
        by (rule div_le_mono) (use that(2) in simp)
      finally show ?thesis by simp
    qed
    ultimately show ?thesis by (simp add: segment_pages_def PAGENUMBER_div)
  qed
  show out: "m1 x = m x" if x: "PAGENUMBER x \<notin> set (segment_pages ph)" for x
    using offset_range(1,2)[of x va "unat (end_file - va)"] in_pages[of x] x A(5,10) lim(1) c by (auto simp: m1)
  show "m2 x = m x" if x: "PAGENUMBER x \<notin> set (segment_pages ph)" for x
  proof -
    have "\<not> unat (x - end_file) < unat (p_memsz ph) - unat (p_filesz ph)"
      using offset_range(1,2)[of x end_file "unat (p_memsz ph) - unat (p_filesz ph)"] in_pages[of x] x ef A(4,10) lim(1)
      by auto
    then show ?thesis using out[OF x] by (simp add: m2)
  qed
  have pos: "unat (p_va ph + of_nat k) = unat (p_va ph) + k" if "k < unat (p_memsz ph)" for k
    using that lim(1) by (simp add: unat_word_ariths(1) unat_of_nat)
  have data: "m2 (p_va ph + of_nat k) = m (src + PAGEOFFSET (p_va ph) + of_nat k)" if k: "k < unat (p_filesz ph)" for k
  proof -
    have "va + PAGEOFFSET (p_va ph) = p_va ph" using PTE_ADDR_plus[of "p_va ph"] by (simp add: va_def PTE_ADDR_def)
    then have d: "p_va ph + of_nat k - va = PAGEOFFSET (p_va ph) + of_nat k" by (simp add: algebra_simps)
    have u: "unat (p_va ph + of_nat k - va) = k + unat (PAGEOFFSET (p_va ph))"
      using pos[of k] k A(4,5,10) by (simp add: unat_sub word_le_nat_alt)
    have "\<not> unat (p_va ph + of_nat k - end_file) < unat (p_memsz ph) - unat (p_filesz ph)"
      using offset_range(1)[of "p_va ph + of_nat k" end_file "unat (p_memsz ph) - unat (p_filesz ph)"] pos[of k] k ef A(10) lim(1)
      by auto
    then show ?thesis using k c u by (simp add: m2 m1 d add.assoc)
  qed
  have zero: "m2 (p_va ph + of_nat k) = 0" if k: "unat (p_filesz ph) \<le> k" "k < unat (p_memsz ph)" for k
  proof -
    have "unat (p_va ph + of_nat k - end_file) = k - unat (p_filesz ph)"
      using pos[OF k(2)] ef k(1) by (simp add: unat_sub word_le_nat_alt)
    then show ?thesis using diff_less_mono[OF k(2,1)] by (simp add: m2)
  qed
  show "segment_loaded ph src m m2" using data zero by (auto simp: segment_loaded_def)
qed

lemma segment_loaded_cong:
  assumes l: "segment_loaded ph src m0 m" and fit: "segment_fits ph"
    and m: "\<And>x. 256 \<le> PAGENUMBER x \<Longrightarrow> PAGENUMBER x \<in> set (segment_pages ph) \<Longrightarrow> m' x = m x"
    and m0: "\<And>k. k < unat (p_filesz ph) + unat (PAGEOFFSET (p_va ph)) \<Longrightarrow> m0 (src + of_nat k) = m0' (src + of_nat k)"
  shows "segment_loaded ph src m0' m'"
proof -
  note A = segment_arith[OF fit]
  have "m' (p_va ph + of_nat k) = m (p_va ph + of_nat k)" if k: "k < unat (p_memsz ph)" for k
  proof -
    have u: "unat (p_va ph + of_nat k) = unat (p_va ph) + k"
      using k fit by (simp add: segment_fits_def unat_word_ariths(1) unat_of_nat)
    have "PAGENUMBER (p_va ph) \<le> PAGENUMBER (p_va ph + of_nat k)"
      unfolding PAGENUMBER_div u by (rule div_le_mono) simp
    moreover have "(unat (p_va ph) + k) div 4096 + 1 \<le> (unat (p_va ph) + unat (p_memsz ph) + 4095) div 4096"
      using div_le_mono[of "unat (p_va ph) + k + 4096" "unat (p_va ph) + unat (p_memsz ph) + 4095" 4096] k by simp
    ultimately show ?thesis using A(2) by (intro m) (auto simp: segment_pages_def PAGENUMBER_div u)
  qed
  moreover have "m0 (src + PAGEOFFSET (p_va ph) + of_nat k) = m0' (src + PAGEOFFSET (p_va ph) + of_nat k)"
    if "k < unat (p_filesz ph)" for k
    using m0[of "k + unat (PAGEOFFSET (p_va ph))"] that by (simp add: algebra_simps)
  ultimately show ?thesis using l A(10) by (auto simp: segment_loaded_def)
qed

text \<open>One segment: its pages are taken, mapped with its permissions and filled.\<close>

definition with_segment :: "elf_program \<Rightarrow> (nat \<Rightarrow> u32) \<Rightarrow> nat \<Rightarrow> u32" where
  "with_segment ph E i = (if i \<in> set (segment_pages ph) then PAGEADDRESS i OR segment_perm ph else E i)"

lemma program_load_segment_ok:
  assumes c: "counted s" and q: "0 < q" "q < NPROC" "p_pid (proc s q) = q" "p_pagetable (proc s q) = pt"
    and u: "usable (mem s) pt lt E" and cr3: "in_use (mem s) cr3 pt lt"
    and fit: "segment_fits ph" and free: "\<And>i. i \<in> set (segment_pages ph) \<Longrightarrow> owner_at s i = PO_FREE"
    and src: "unat src + unat (p_filesz ph) + unat (PAGEOFFSET (p_va ph)) \<le> 0x100000"
      "\<And>k. k < unat (p_filesz ph) + unat (PAGEOFFSET (p_va ph)) \<Longrightarrow> PAGENUMBER (src + of_nat k) \<noteq> PAGENUMBER lt"
  shows "\<exists>s'. program_load_segment cr3 q ph src s = Some (0, pt, s')
    \<and> page_step q (set (segment_pages ph)) (insert (PAGENUMBER lt) (set (segment_pages ph))) s s'
    \<and> processes s' = processes s \<and> usable (mem s') pt lt (with_segment ph E) \<and> segment_loaded ph src (mem s) (mem s')"
proof -
  let ?va = "p_va ph AND NOT (PAGESIZE - 1)" and ?ef = "p_va ph + p_filesz ph" and ?em = "p_va ph + p_memsz ph"
  note A = segment_arith[OF fit]
  define v where "v = PAGENUMBER (p_va ph)"
  define n where "n = pages_between ?va ?em"
  have A': "?va = PAGEADDRESS v" "256 \<le> v" "v + n \<le> NPAGES" "set (segment_pages ph) = {v..<v + n}"
    using A(1,2,8,9) by (simp_all add: v_def n_def)
  obtain s1 where s1: "load_pages cr3 q ?va n s = Some (0, s1)" "page_step q {v..<v + n} {PAGENUMBER lt} s s1"
    "processes s1 = processes s" "usable (mem s1) pt lt (with_range v n 7 E)"
    using load_pages_ok[OF c q u cr3 A'(2,3)] free A'(1,4) by auto
  define m2 where "m2 = memset (memcpy (mem s1) ?va src (?ef - ?va)) ?ef 0 (?em - ?ef)"
  note B = segment_bytes(1-3)[OF fit src(1), where m = "mem s1", folded m2_def] segment_bytes(4,5)[OF fit src(1)]
  have low: "PAGENUMBER pt < 256" "PAGENUMBER lt < 256" using u by (simp_all add: usable_def)
  have step: "usable m pt lt (with_range v n 7 E)"
    if "\<And>x. PAGENUMBER x \<notin> set (segment_pages ph) \<Longrightarrow> m x = mem s1 x" for m
    by (rule usable_frame[OF s1(4)]) (use that A'(2,4) low in auto)
  have "unat (p_va ph + p_filesz ph) + unat (?em - ?ef) \<le> (v + n) * 4096"
  proof -
    have "unat ?em \<le> unat ?va + n * 4096" unfolding n_def pages_between_def using A(4,7) by simp
    then show ?thesis using A(3,6,7,10) B(5) by (simp add: v_def algebra_simps)
  qed
  then have fits: "unat ?va + unat (?ef - ?va) \<le> (v + n) * 4096" "unat ?ef + unat (?em - ?ef) \<le> (v + n) * 4096"
    using A(3,5,6) B(4,5) by (simp_all add: v_def)
  have a1: "accessible pt KERNEL_READ src (?ef - ?va) (mem s1)"
    by (rule usable_accessible[OF s1(4)]) (use src(1) B(4) in simp_all)
  have a2: "accessible pt KERNEL_WRITE ?va (?ef - ?va) (mem s1)"
    by (rule range_mapped[OF s1(4) _ fits(1) A'(3)]) (use A(3) in \<open>simp add: v_def\<close>)
  have u1: "usable (memcpy (mem s1) ?va src (?ef - ?va)) pt lt (with_range v n 7 E)"
    by (rule step[OF B(2)])
  have a3: "accessible pt KERNEL_WRITE ?ef (?em - ?ef) (memcpy (mem s1) ?va src (?ef - ?va))"
    by (rule range_mapped[OF u1 _ fits(2) A'(3)]) (use A(3,4,6) in \<open>simp add: v_def\<close>)
  have f: "segment_perm ph < 0x1000" "segment_perm ph AND 1 = 1" by (simp_all add: segment_perm_def)
  obtain m3 where m3: "protect_pages pt ?va n (segment_perm ph) m2 = Some m3" "agree_except (PAGENUMBER lt) m2 m3"
    "usable m3 pt lt (with_range v n (segment_perm ph) E)"
    using protect_pages_ok[OF step[OF B(3)] A'(2,3) f] unfolding with_range_twice A'(1) by blast
  have perm: "(if p_flags ph AND ELF_PFLAG_WRITE = 0 then PTE_P OR PTE_U else PTE_P OR PTE_U OR PTE_W) = segment_perm ph"
    by (simp add: segment_perm_def)
  have "program_load_segment cr3 q ph src s = Some (0, pt, s1\<lparr>mem := m3\<rparr>)"
    unfolding program_load_segment_def Let_def perm n_def[symmetric] s1(1)
    using a1 a2 a3 m3(1) q(4) s1(3) by (simp add: m2_def)
  moreover have "page_step q (set (segment_pages ph)) (insert (PAGENUMBER lt) (set (segment_pages ph))) s (s1\<lparr>mem := m3\<rparr>)"
    using s1(2) m3(2) B(3) A'(4) by (auto simp: page_step_def agree_except_def)
  moreover have "segment_loaded ph src (mem s) m3"
  proof (rule segment_loaded_cong[OF B(1) fit])
    show "m3 x = m2 x" if "256 \<le> PAGENUMBER x" for x
      using that m3(2) low(2) by (auto simp: agree_except_def)
    show "mem s1 (src + of_nat k) = mem s (src + of_nat k)" if "k < unat (p_filesz ph) + unat (PAGEOFFSET (p_va ph))" for k
      using s1(2) src(2)[OF that] by (auto simp: page_step_def)
  qed
  moreover have "with_range v n (segment_perm ph) E = with_segment ph E"
    using A'(4) by (auto simp: with_range_def with_segment_def fun_eq_iff)
  ultimately show ?thesis using s1(3) m3(3) by auto
qed

section \<open>Images\<close>

text \<open>An image inside the kernel's data, whose pages \<open>K\<close> nobody writes.\<close>

definition bytes_in :: "nat set \<Rightarrow> u32 \<Rightarrow> nat \<Rightarrow> bool" where
  "bytes_in K a n \<longleftrightarrow> (\<forall>k < n. PAGENUMBER (a + of_nat k) \<in> K)"

definition header_at :: "memory \<Rightarrow> u32 \<Rightarrow> nat \<Rightarrow> elf_program" where
  "header_at m eh i = elf_program_at m (eh + e_phoff m eh + 32 * of_nat i)"

definition segments_from :: "memory \<Rightarrow> u32 \<Rightarrow> nat \<Rightarrow> elf_program list" where
  "segments_from m eh i = filter (\<lambda>ph. p_type ph = ELF_PTYPE_LOAD) (map (header_at m eh) [i..<e_phnum m eh])"

definition segment_ok :: "nat set \<Rightarrow> u32 \<Rightarrow> elf_program \<Rightarrow> bool" where
  "segment_ok K eh ph \<longleftrightarrow> segment_fits ph
     \<and> unat (eh + p_offset ph) + unat (p_filesz ph) + unat (PAGEOFFSET (p_va ph)) \<le> 0x100000
     \<and> bytes_in K (eh + p_offset ph) (unat (p_filesz ph) + unat (PAGEOFFSET (p_va ph)))"

definition image_ok :: "nat set \<Rightarrow> memory \<Rightarrow> u32 \<Rightarrow> bool" where
  "image_ok K m eh \<longleftrightarrow> e_magic m eh = ELF_MAGIC \<and> bytes_in K eh 46
     \<and> (\<forall>i < e_phnum m eh. bytes_in K (eh + e_phoff m eh + 32 * of_nat i) 32)
     \<and> (\<forall>ph \<in> set (segments_from m eh 0). segment_ok K eh ph)"

definition agrees_on :: "nat set \<Rightarrow> memory \<Rightarrow> memory \<Rightarrow> bool" where
  "agrees_on K m m' \<longleftrightarrow> (\<forall>x. PAGENUMBER x \<in> K \<longrightarrow> m' x = m x)"

lemma page_step_agrees:
  "page_step q P W s s' \<Longrightarrow> agrees_on K m0 (mem s) \<Longrightarrow> K \<inter> W = {} \<Longrightarrow> agrees_on K m0 (mem s')"
  unfolding agrees_on_def page_step_def by (metis disjoint_iff)

lemma load32_in:
  assumes "agrees_on K m m'" "bytes_in K a n" "d + 4 \<le> n"
  shows "load32 m' (a + of_nat d) = load32 m (a + of_nat d)"
proof (rule load32_bytes_cong)
  fix b :: nat assume "b < 4"
  then have "PAGENUMBER (a + of_nat (d + b)) \<in> K" using assms(2,3) by (simp add: bytes_in_def del: of_nat_add)
  then show "m' (a + of_nat d + of_nat b) = m (a + of_nat d + of_nat b)"
    using assms(1) by (simp add: agrees_on_def add.assoc)
qed

lemma header_fields_in:
  assumes "agrees_on K m m'" "bytes_in K eh 46"
  shows "e_magic m' eh = e_magic m eh" "e_entry m' eh = e_entry m eh" "e_phoff m' eh = e_phoff m eh"
    "e_phnum m' eh = e_phnum m eh"
proof -
  note L = load32_in[OF assms]
  show "e_magic m' eh = e_magic m eh" "e_entry m' eh = e_entry m eh" "e_phoff m' eh = e_phoff m eh"
    using L[of 0] L[of 24] L[of 28] by (simp_all add: e_magic_def e_entry_def e_phoff_def)
  have "PAGENUMBER (eh + of_nat 44) \<in> K" "PAGENUMBER (eh + of_nat 45) \<in> K"
    using assms(2)[unfolded bytes_in_def, rule_format, of 44] assms(2)[unfolded bytes_in_def, rule_format, of 45]
    by simp_all
  then show "e_phnum m' eh = e_phnum m eh"
    using assms(1) by (simp add: e_phnum_def load16_def agrees_on_def add.assoc)
qed

lemma program_header_in:
  assumes "agrees_on K m m'" "bytes_in K a 32"
  shows "elf_program_at m' a = elf_program_at m a"
  using load32_in[OF assms, of 0] load32_in[OF assms, of 4] load32_in[OF assms, of 8] load32_in[OF assms, of 12]
    load32_in[OF assms, of 16] load32_in[OF assms, of 20] load32_in[OF assms, of 24] load32_in[OF assms, of 28]
  by (simp add: elf_program_at_def)

lemma segments_from_step:
  "i < e_phnum m eh \<Longrightarrow> segments_from m eh i =
     (if p_type (header_at m eh i) = ELF_PTYPE_LOAD then [header_at m eh i] else []) @ segments_from m eh (Suc i)"
  by (simp add: segments_from_def upt_conv_Cons)

lemma segments_from_end: "e_phnum m eh \<le> i \<Longrightarrow> segments_from m eh i = []"
  by (simp add: segments_from_def)

lemma segments_from_subset: "set (segments_from m eh i) \<subseteq> set (segments_from m eh 0)"
  by (auto simp: segments_from_def)

lemma segment_pages_high: "segment_fits ph \<Longrightarrow> i \<in> set (segment_pages ph) \<Longrightarrow> 256 \<le> i \<and> i < NPAGES"
  using segment_arith(2,8,9)[of ph] by auto

text \<open>
  The loop over the headers, from header \<open>i\<close> on: \<open>L\<close> is what it loads, and the table in use afterwards
  is one the kernel can go on with.
\<close>

definition all_pages :: "elf_program list \<Rightarrow> nat list" where
  "all_pages L = concat (map segment_pages L)"

definition loads_into :: "nat \<Rightarrow> u32 \<Rightarrow> u32 \<Rightarrow> elf_program list \<Rightarrow> u32 \<Rightarrow> memory \<Rightarrow> (nat \<Rightarrow> u32) \<Rightarrow> memos \<Rightarrow> memos \<Rightarrow> bool" where
  "loads_into q pt lt L eh m0 E s s' \<longleftrightarrow>
     page_step q (set (all_pages L)) (insert (PAGENUMBER lt) (set (all_pages L))) s s'
     \<and> processes s' = processes s \<and> usable (mem s') pt lt (fold with_segment L E)
     \<and> (\<forall>ph \<in> set L. segment_loaded ph (eh + p_offset ph) m0 (mem s'))"

lemma image_pages_high:
  assumes "image_ok K m eh" "j \<in> set (all_pages (segments_from m eh i))"
  shows "256 \<le> j" "j < NPAGES"
proof -
  obtain ph where ph: "ph \<in> set (segments_from m eh i)" "j \<in> set (segment_pages ph)"
    using assms(2) by (auto simp: all_pages_def)
  then have "segment_fits ph"
    using assms(1) segments_from_subset[of m eh i] by (auto simp: image_ok_def segment_ok_def)
  then show "256 \<le> j" "j < NPAGES" using segment_pages_high[OF _ ph(2)] by simp_all
qed

lemma loads_into_Cons:
  assumes g: "page_step q (set (segment_pages p)) (insert (PAGENUMBER lt) (set (segment_pages p))) s s1"
    and pr: "processes s1 = processes s" and l: "segment_loaded p (eh + p_offset p) m0 (mem s1)"
    and fit: "segment_fits p" and lt: "PAGENUMBER lt < 256"
    and dist: "set (segment_pages p) \<inter> set (all_pages L) = {}"
    and rest: "loads_into q pt lt L eh m0 (with_segment p E) s1 s'"
  shows "loads_into q pt lt (p # L) eh m0 E s s'"
proof -
  have R: "page_step q (set (all_pages L)) (insert (PAGENUMBER lt) (set (all_pages L))) s1 s'"
    using rest by (simp add: loads_into_def)
  have "segment_loaded p (eh + p_offset p) m0 (mem s')"
  proof (rule segment_loaded_cong[OF l fit])
    show "mem s' x = mem s1 x" if "256 \<le> PAGENUMBER x" "PAGENUMBER x \<in> set (segment_pages p)" for x
    proof -
      have "PAGENUMBER x \<notin> insert (PAGENUMBER lt) (set (all_pages L))" using that lt dist by auto
      then show ?thesis using R unfolding page_step_def by blast
    qed
  qed simp
  moreover have "page_step q (set (all_pages (p # L))) (insert (PAGENUMBER lt) (set (all_pages (p # L)))) s s'"
    using page_step_trans[OF g R] by (simp add: all_pages_def Un_commute)
  ultimately show ?thesis using rest pr by (simp add: loads_into_def)
qed

lemma load_headers_ok:
  assumes "counted s" "0 < q" "q < NPROC" "p_pid (proc s q) = q" "p_pagetable (proc s q) = pt"
    "usable (mem s) pt lt E" "in_use (mem s) cr3 pt lt" "image_ok K m0 eh" "agrees_on K m0 (mem s)"
    "PAGENUMBER lt \<notin> K" "\<And>j. j \<in> K \<Longrightarrow> j < 256"
    "distinct (all_pages (segments_from m0 eh i))"
    "\<And>j. j \<in> set (all_pages (segments_from m0 eh i)) \<Longrightarrow> owner_at s j = PO_FREE"
  shows "\<exists>cr3' s'. load_headers cr3 q eh (eh + e_phoff m0 eh) i s = Some (0, cr3', s')
    \<and> in_use (mem s') cr3' pt lt \<and> cr3' \<in> {cr3, pt} \<and> loads_into q pt lt (segments_from m0 eh i) eh m0 E s s'"
  using assms
proof (induction "e_phnum m0 eh - i" arbitrary: i s cr3 E)
  case 0
  have img: "bytes_in K eh 46" using "0.prems"(8) by (simp add: image_ok_def)
  have stop: "e_phnum m0 eh \<le> i" using "0.hyps" by simp
  have "load_headers cr3 q eh (eh + e_phoff m0 eh) i s = Some (0, cr3, s)"
    using stop header_fields_in(4)[OF "0.prems"(9) img] by (subst load_headers.simps) simp
  then show ?case
    using "0.prems"(6,7) by (auto simp: segments_from_end[OF stop] loads_into_def all_pages_def intro: page_step_refl)
next
  case (Suc d)
  let ?p = "header_at m0 eh i" and ?ph = "eh + e_phoff m0 eh"
  have i: "i < e_phnum m0 eh" using Suc.hyps(2) by simp
  have img: "bytes_in K eh 46" "bytes_in K (?ph + 32 * of_nat i) 32" using Suc.prems(8) i by (simp_all add: image_ok_def)
  have num: "i < e_phnum (mem s) eh" using header_fields_in(4)[OF Suc.prems(9) img(1)] i by simp
  have hd: "elf_program_at (mem s) (?ph + 32 * of_nat i) = ?p"
    using program_header_in[OF Suc.prems(9) img(2)] by (simp add: header_at_def)
  note step = segments_from_step[OF i]
  show ?case
  proof (cases "p_type ?p = ELF_PTYPE_LOAD")
    case False
    have "load_headers cr3 q eh ?ph i s = load_headers cr3 q eh ?ph (Suc i) s"
      using num False by (subst load_headers.simps) (simp add: hd)
    moreover have "segments_from m0 eh i = segments_from m0 eh (Suc i)" using step False by simp
    ultimately show ?thesis using Suc.hyps(1)[of "Suc i" s E cr3] Suc.hyps(2) Suc.prems by simp
  next
    case True
    let ?L = "segments_from m0 eh (Suc i)"
    have L: "segments_from m0 eh i = ?p # ?L" using step True by simp
    have ok: "segment_ok K eh ?p"
      using Suc.prems(8) segments_from_subset[of m0 eh i] L by (auto simp: image_ok_def)
    then have fit: "segment_fits ?p" by (simp add: segment_ok_def)
    note high = segment_pages_high[OF fit]
    have "\<exists>s'. program_load_segment cr3 q ?p (eh + p_offset ?p) s = Some (0, pt, s')
      \<and> page_step q (set (segment_pages ?p)) (insert (PAGENUMBER lt) (set (segment_pages ?p))) s s'
      \<and> processes s' = processes s \<and> usable (mem s') pt lt (with_segment ?p E)
      \<and> segment_loaded ?p (eh + p_offset ?p) (mem s) (mem s')"
      using Suc.prems(10,13) ok by (intro program_load_segment_ok[OF Suc.prems(1-7) fit])
        (auto simp: L all_pages_def segment_ok_def bytes_in_def)
    then obtain s1 where s1: "program_load_segment cr3 q ?p (eh + p_offset ?p) s = Some (0, pt, s1)"
      "page_step q (set (segment_pages ?p)) (insert (PAGENUMBER lt) (set (segment_pages ?p))) s s1"
      "processes s1 = processes s" "usable (mem s1) pt lt (with_segment ?p E)"
      "segment_loaded ?p (eh + p_offset ?p) (mem s) (mem s1)" by blast
    have "K \<inter> insert (PAGENUMBER lt) (set (segment_pages ?p)) = {}"
      using Suc.prems(10) Suc.prems(11) high by fastforce
    then have ag1: "agrees_on K m0 (mem s1)" by (rule page_step_agrees[OF s1(2) Suc.prems(9)])
    have dist: "set (segment_pages ?p) \<inter> set (all_pages ?L) = {}" "distinct (all_pages ?L)"
      using Suc.prems(12) by (simp_all add: L all_pages_def)
    have "\<exists>cr3' s'. load_headers pt q eh ?ph (Suc i) s1 = Some (0, cr3', s')
      \<and> in_use (mem s') cr3' pt lt \<and> cr3' \<in> {pt, pt} \<and> loads_into q pt lt ?L eh m0 (with_segment ?p E) s1 s'"
    proof (rule Suc.hyps(1))
      show "counted s1" by (rule page_step_counted[OF s1(2) Suc.prems(1-3)])
      show "in_use (mem s1) pt pt lt" using s1(4) by (auto simp: in_use_def)
      show "owner_at s1 j = PO_FREE" if "j \<in> set (all_pages ?L)" for j
      proof -
        have "j < NPAGES" using image_pages_high[OF Suc.prems(8) that] by simp
        moreover have "j \<notin> set (segment_pages ?p)" "j \<in> set (all_pages (segments_from m0 eh i))"
          using dist(1) that by (auto simp: L all_pages_def)
        ultimately show ?thesis using page_step_owner[OF s1(2), of j] Suc.prems(13)[of j] by simp
      qed
    qed (use Suc.hyps(2) Suc.prems s1 ag1 dist in simp_all)
    then obtain cr3' s' where s': "load_headers pt q eh ?ph (Suc i) s1 = Some (0, cr3', s')"
      "in_use (mem s') cr3' pt lt" "cr3' = pt" "loads_into q pt lt ?L eh m0 (with_segment ?p E) s1 s'" by blast
    have "load_headers cr3 q eh ?ph i s = Some (0, cr3', s')"
      using num True s1(1) s'(1) by (subst load_headers.simps) (simp add: hd)
    moreover have "loads_into q pt lt (segments_from m0 eh i) eh m0 E s s'"
      unfolding L
    proof (rule loads_into_Cons[OF s1(2,3) _ fit _ dist(1) s'(4)])
      show "segment_loaded ?p (eh + p_offset ?p) m0 (mem s1)"
        by (rule segment_loaded_cong[OF s1(5) fit])
          (use Suc.prems(9) ok in \<open>auto simp: agrees_on_def segment_ok_def bytes_in_def\<close>)
      show "PAGENUMBER lt < 256" using Suc.prems(6) by (simp add: usable_def)
    qed
    ultimately show ?thesis using s'(2,3) by blast
  qed
qed

end
