(* ===== verification/Memos_Boot_Setup.thy ===== *)
theory Memos_Boot_Setup
  imports Memos_Boot_Load
begin

text \<open>
  Setting up one process after the other: the table copied from the kernel's, the image loaded, the
  stack page, and the invariant of the loop over the processes. The allocator hands out the lowest
  free page, so process \<open>p\<close> gets the pages \<open>3p - 2\<close>, \<open>3p - 1\<close> (its tables) and \<open>3p\<close> (its stack).
\<close>

section \<open>The new table\<close>

definition first_free :: "memos \<Rightarrow> nat \<Rightarrow> bool" where
  "first_free s i \<longleftrightarrow> i < NPAGES \<and> owner_at s i = PO_FREE \<and> (\<forall>j < i. owner_at s j \<noteq> PO_FREE)"

lemma find_first_free:
  assumes "first_free s i"
  shows "find_free_physic_page ow s = (PAGEADDRESS i, upd_page i (\<lambda>p. p\<lparr>refcount := 1, owner := ow\<rparr>) s)"
proof -
  have "scan (\<lambda>i. owner_at s i = PO_FREE) 0 NPAGES = Some i"
    using assms by (simp add: scan_Some_iff first_free_def)
  then show ?thesis by (simp add: find_free_physic_page_def)
qed

lemma take_first_free:
  assumes "counted s" "first_free s i" "0 < q" "q < NPROC"
  defines "s' \<equiv> upd_page i (\<lambda>p. p\<lparr>refcount := 1, owner := of_nat q\<rparr>) s"
  shows "find_free_physic_page (of_nat q) s = (PAGEADDRESS i, s')" "page_step q {i} {} s s'" "counted s'"
    "Suc i < NPAGES \<Longrightarrow> owner_at s (Suc i) = PO_FREE \<Longrightarrow> first_free s' (Suc i)"
proof -
  have i: "i < NPAGES" using assms(2) by (simp add: first_free_def)
  show "find_free_physic_page (of_nat q) s = (PAGEADDRESS i, s')"
    unfolding s'_def by (rule find_first_free[OF assms(2)])
  show g: "page_step q {i} {} s s'" unfolding s'_def by (rule page_step_take[OF assms(1) i])
  show "counted s'" by (rule page_step_counted[OF g assms(1,3,4)])
  show "first_free s' (Suc i)" if "Suc i < NPAGES" "owner_at s (Suc i) = PO_FREE"
    using that assms(2) page_step_owner[OF g] pid_not_free[OF assms(3,4)]
    by (auto simp: first_free_def less_Suc_eq)
qed

lemma copy_table_ok:
  assumes c: "counted s" and q: "0 < q" "q < NPROC" and a: "first_free s a" "Suc a < NPAGES" "owner_at s (Suc a) = PO_FREE"
    and t: "table_is (mem s) pd pl E" and ne: "PAGENUMBER pd \<notin> {a, Suc a}" "PAGENUMBER pl \<notin> {a, Suc a}"
  shows "\<exists>s'. copy_pagetable pd (of_nat q) s = Some (PAGEADDRESS a, s') \<and> page_step q {a, Suc a} {a, Suc a} s s'
    \<and> processes s' = processes s \<and> table_is (mem s') (PAGEADDRESS a) (PAGEADDRESS (Suc a)) E"
proof -
  define s1 where "s1 = upd_page a (\<lambda>p. p\<lparr>refcount := 1, owner := of_nat q\<rparr>) s"
  define s2 where "s2 = upd_page (Suc a) (\<lambda>p. p\<lparr>refcount := 1, owner := of_nat q\<rparr>) s1"
  let ?a = "PAGEADDRESS a" and ?b = "PAGEADDRESS (Suc a)"
  note A = take_first_free[OF c a(1) q, folded s1_def]
  note B = take_first_free[OF A(3) A(4)[OF a(2,3)] q, folded s2_def]
  have al: "PAGEOFFSET ?a = 0" "PAGENUMBER ?a = a" "PAGEOFFSET ?b = 0" "PAGENUMBER ?b = Suc a"
    using a(2) by simp_all
  have neg: "?a \<noteq> - 1" "?b \<noteq> - 1" using PAGEADDRESS_neq a(2) by simp_all
  note D = table_isD[OF t]
  define m1 where "m1 = memset (mem s) ?a 0 PAGESIZE"
  define m2 where "m2 = store32 m1 (?a + 4 * of_nat 0) (?b OR PTE_FLAGS (pte m1 pd 0))"
  define m3 where "m3 = memcpy m2 ?b (PTE_ADDR (pte m2 pd 0)) PAGESIZE"
  have "PAGENUMBER pd \<notin> {PAGENUMBER ?a, PAGENUMBER ?b}" "PAGENUMBER (l2_of (mem s) pd) \<notin> {PAGENUMBER ?a, PAGENUMBER ?b}"
    using ne unfolding al(2,4) D(2) by simp_all
  then have C: "wf_table ?a m3" "l2_of m3 ?a = ?b" "i < 1024 \<Longrightarrow> pte m3 ?b i = pte (mem s) (l2_of (mem s) pd) i"
      "\<And>x. PAGENUMBER x \<noteq> PAGENUMBER ?a \<Longrightarrow> PAGENUMBER x \<noteq> PAGENUMBER ?b \<Longrightarrow> m3 x = mem s x" for i
    using copy_tables_mem[OF D(1) al(1) _ al(3), folded m1_def, folded m2_def, folded m3_def] al a(2) by simp_all
  have s2: "mem s2 = mem s" "processes s2 = processes s" by (simp_all add: s2_def s1_def)
  have src: "PAGENUMBER (PTE_ADDR (pte m2 pd 0)) < NPAGES"
  proof -
    have "agree_except (PAGENUMBER ?a) (mem s) m1" unfolding m1_def by (rule memset_page[OF al(1)])
    moreover have "agree_except (PAGENUMBER ?a) m1 m2" unfolding m2_def by (rule agree_store[OF al(1)]) simp
    ultimately have "pte m2 pd 0 = pte (mem s) pd 0"
      using pte_agree[OF _ D(4), of _ _ _ 0] ne(1) al(2) by simp
    then show ?thesis using D(7) D(2) l2_of_aligned(2)[of "mem s" pd] by simp
  qed
  have "copy_pagetable pd (of_nat q) s = Some (?a, s2\<lparr>mem := m3\<rparr>)"
    using A(1) B(1) neg al a(2) D(4,6) src s2(1)
    by (simp add: copy_pagetable_def kernel_memset_def kernel_memcpy_def page_range read_entry_eq write_entry_eq
        m1_def m2_def m3_def)
  moreover have "page_step q {a, Suc a} {a, Suc a} s (s2\<lparr>mem := m3\<rparr>)"
    using page_step_trans[OF A(2) B(2)] C(4) al(2,4) s2(1) by (simp add: page_step_def)
  moreover have "table_is m3 ?a ?b E" using C(1-3) D(2,3) by (simp add: table_is_def)
  ultimately show ?thesis using s2(2) by auto
qed

text \<open>Clearing the part of the table from 1 MB on.\<close>

lemma clear_upper:
  assumes t: "table_is m pt lt E"
  shows "\<exists>m'. kernel_memset (lt + 4 * of_nat (PAGENUMBER PROC_START_ADDR)) 0
      (PAGESIZE - 4 * of_nat (PAGENUMBER PROC_START_ADDR)) m = Some m'
    \<and> agree_except (PAGENUMBER lt) m m' \<and> table_is m' pt lt (\<lambda>i. if i < 256 then E i else 0)"
proof -
  note D = table_isD[OF t]
  have at: "unat (lt + 0x400) = PAGENUMBER lt * 4096 + 1024" using page_byte(1)[OF D(5), of 1024] by simp
  define m' where "m' = memset m (lt + 0x400) 0 0xC00"
  have bytes: "m' a = (if PAGENUMBER a = PAGENUMBER lt \<and> 1024 \<le> unat (PAGEOFFSET a) then 0 else m a)" for a
  proof -
    have eq: "m' a = (if unat (a - (lt + 0x400)) < 3072 then 0 else m a)"
      by (simp add: m'_def memset_def memset_loop_eq)
    have "unat (a - (lt + 0x400)) < 3072 \<longleftrightarrow> PAGENUMBER a = PAGENUMBER lt \<and> 1024 \<le> unat (PAGEOFFSET a)"
    proof
      assume l: "unat (a - (lt + 0x400)) < 3072"
      have "unat (lt + 0x400) + 3072 \<le> 4294967296" using at D(7) by simp
      note R = offset_range(1,2)[OF l this]
      have "unat a div 4096 = PAGENUMBER lt"
        by (rule div_nat_eqI) (use R at in simp_all)
      moreover have "unat a mod 4096 = unat a - unat a div 4096 * 4096" by (simp add: modulo_nat_def)
      ultimately show "PAGENUMBER a = PAGENUMBER lt \<and> 1024 \<le> unat (PAGEOFFSET a)"
        using R at unfolding PAGENUMBER_div PAGEOFFSET_mod by linarith
    next
      assume r: "PAGENUMBER a = PAGENUMBER lt \<and> 1024 \<le> unat (PAGEOFFSET a)"
      have "unat a = PAGENUMBER lt * 4096 + unat a mod 4096"
        using r by (metis PAGENUMBER_div div_mult_mod_eq)
      then show "unat (a - (lt + 0x400)) < 3072"
        using r at by (simp add: unat_sub word_le_nat_alt PAGEOFFSET_mod)
    qed
    then show ?thesis by (simp add: eq)
  qed
  have ag: "agree_except (PAGENUMBER lt) m m'" by (simp add: agree_except_def bytes)
  have off: "unat (PAGEOFFSET (lt + 4 * of_nat i + of_nat b)) = 4 * i + b" if "i < 1024" "b < 4" for i b
    unfolding entry_byte[OF that(2)] PAGEOFFSET_mod using page_byte(1)[OF D(5), of "4 * i + b"] that by simp
  have ent: "pte m' lt i = (if i < 256 then pte m lt i else 0)" if i: "i < 1024" for i
  proof (cases "i < 256")
    case True
    have "pte m' lt i = pte m lt i"
      unfolding pte_def by (rule load32_bytes_cong) (use True off[OF i] in \<open>simp add: bytes\<close>)
    then show ?thesis using True by simp
  next
    case False
    have "pte m' lt i = load32 (\<lambda>_. 0) (lt + 4 * of_nat i)"
      unfolding pte_def by (rule load32_bytes_cong) (use False off[OF i] entry_page[OF D(5) i] in \<open>simp add: bytes\<close>)
    then show ?thesis using False by (simp add: load32_def)
  qed
  have l: "PAGENUMBER (pte m pt 0) = PAGENUMBER lt" using D(2) l2_of_aligned(2)[of m pt] by simp
  note F = wf_table_frame[OF D(1) ag[folded l]]
  have "table_is m' pt lt (\<lambda>i. if i < 256 then E i else 0)"
    using F D(2,3) ent by (simp add: table_is_def)
  moreover have "kernel_memset (lt + 4 * of_nat (PAGENUMBER PROC_START_ADDR)) 0
      (PAGESIZE - 4 * of_nat (PAGENUMBER PROC_START_ADDR)) m = Some m'"
    using at D(7) by (simp add: kernel_memset_def in_physical_def m'_def PAGENUMBER_div)
  ultimately show ?thesis using ag by blast
qed

section \<open>One process\<close>

lemma upd_proc_pages [simp]:
  "counted (upd_proc i f s) = counted s" "first_free (upd_proc i f s) a = first_free s a"
  "page_step q P W (upd_proc i f s) s' = page_step q P W s s'" "page_step q P W s (upd_proc i f s') = page_step q P W s s'"
  by (simp_all add: counted_def first_free_def page_step_def)

lemma program_load_ok:
  assumes c: "counted s" and q: "0 < q" "q < NPROC" "p_pid (proc s q) = q" "p_pagetable (proc s q) = pt"
    and u: "usable (mem s) pt lt E" "in_use (mem s) cr3 pt lt"
    and img: "program < length (ramimages B)" "image_ok K m0 (ramimages B ! program)"
    and K: "agrees_on K m0 (mem s)" "PAGENUMBER lt \<notin> K" "\<And>j. j \<in> K \<Longrightarrow> j < 256"
    and pages: "distinct (all_pages (segments_from m0 (ramimages B ! program) 0))"
      "\<And>j. j \<in> set (all_pages (segments_from m0 (ramimages B ! program) 0)) \<Longrightarrow> owner_at s j = PO_FREE"
  defines "eh \<equiv> ramimages B ! program"
  defines "L \<equiv> segments_from m0 eh 0"
  shows "\<exists>cr3' s'. program_load B cr3 q program s = Some (0, cr3', upd_proc q
      (\<lambda>p. p\<lparr>p_registers := (p_registers p)\<lparr>reg_eip := e_entry m0 eh\<rparr>\<rparr>) s')
    \<and> in_use (mem s') cr3' pt lt \<and> cr3' \<in> {cr3, pt} \<and> loads_into q pt lt L eh m0 E s s'"
proof -
  have hdr: "bytes_in K eh 46" "e_magic m0 eh = ELF_MAGIC" using img(2) by (simp_all add: image_ok_def eh_def)
  note H = header_fields_in[OF K(1) hdr(1)]
  obtain cr3' s' where L: "load_headers cr3 q eh (eh + e_phoff m0 eh) 0 s = Some (0, cr3', s')"
    "in_use (mem s') cr3' pt lt" "cr3' \<in> {cr3, pt}" "loads_into q pt lt L eh m0 E s s'"
    using load_headers_ok[OF c q u img(2) K pages] unfolding eh_def[symmetric] L_def[symmetric] by blast
  have "K \<inter> insert (PAGENUMBER lt) (set (all_pages L)) = {}"
    using K(2,3) image_pages_high(1)[OF img(2)] unfolding L_def eh_def by fastforce
  moreover have "page_step q (set (all_pages L)) (insert (PAGENUMBER lt) (set (all_pages L))) s s'"
    using L(4) by (simp add: loads_into_def)
  ultimately have "agrees_on K m0 (mem s')" using page_step_agrees[OF _ K(1)] by blast
  then have "e_entry (mem s') eh = e_entry m0 eh" by (rule header_fields_in(2)[OF _ hdr(1)])
  then have "program_load B cr3 q program s = Some (0, cr3', upd_proc q
      (\<lambda>p. p\<lparr>p_registers := (p_registers p)\<lparr>reg_eip := e_entry m0 eh\<rparr>\<rparr>) s')"
    using img(1) H hdr(2) L(1) by (simp add: program_load_def eh_def[symmetric] Let_def)
  then show ?thesis using L(2-4) by blast
qed

definition started_process :: "nat \<Rightarrow> u32 \<Rightarrow> u32 \<Rightarrow> process" where
  "started_process pid pt entry =
     \<lparr>p_pid = pid, p_registers = zero_registers\<lparr>reg_cs := 0x1B, reg_ds := 0x23, reg_es := 0x23, reg_ss := 0x23,
        reg_eflags := EFLAGS_IF, reg_eip := entry, reg_esp := MEMSIZE_VIRTUAL\<rparr>,
      p_state = P_RUNNABLE, p_pagetable = pt\<rparr>"

text \<open>The table of a process that has been set up: the kernel's part, its segments, the stack page.\<close>

definition bare_table :: "nat \<Rightarrow> u32" where
  "bare_table i = (if i < 256 then kernel_entry i else 0)"

definition process_table :: "elf_program list \<Rightarrow> u32 \<Rightarrow> nat \<Rightarrow> u32" where
  "process_table L stack = (fold with_segment L bare_table)(767 := stack OR 7)"

text \<open>The table in use and its pages, which are not free.\<close>

definition held :: "memos \<Rightarrow> u32 \<Rightarrow> bool" where
  "held s cr3 \<longleftrightarrow> (\<exists>lt3 E3. usable (mem s) cr3 lt3 E3
     \<and> owner_at s (PAGENUMBER cr3) \<noteq> PO_FREE \<and> owner_at s (PAGENUMBER lt3) \<noteq> PO_FREE)"

lemma page_step_held:
  assumes h: "held s cr3" and g: "page_step q P W s s'" and q: "0 < q" "q < NPROC" "length (pageinfo s) = NPAGES"
    and W: "\<And>j. j \<in> W \<Longrightarrow> owner_at s j = PO_FREE"
  shows "held s' cr3"
proof -
  obtain lt3 E3 where u: "usable (mem s) cr3 lt3 E3" and o: "owner_at s (PAGENUMBER cr3) \<noteq> PO_FREE" "owner_at s (PAGENUMBER lt3) \<noteq> PO_FREE"
    using h by (auto simp: held_def)
  have "PAGENUMBER cr3 \<notin> W" "PAGENUMBER lt3 \<notin> W" using W o by blast+
  then have "usable (mem s') cr3 lt3 E3"
    using g by (intro usable_frame[OF u]) (auto simp: page_step_def)
  moreover have "owner_at s' (PAGENUMBER x) \<noteq> PO_FREE" if "owner_at s (PAGENUMBER x) \<noteq> PO_FREE" "PAGENUMBER x < 256" for x
    using page_step_owner[OF g, of "PAGENUMBER x"] that pid_not_free[OF q(1,2)] by simp
  ultimately show ?thesis using u o by (auto simp: held_def usable_def)
qed

text \<open>The stack page: \<open>sp\<close> is the top of the address space.\<close>

lemma map_stack:
  assumes u: "usable m pt lt E" "in_use m cr3 pt lt" and b: "b < NPAGES"
  shows "\<exists>m'. map_through cr3 pt (MEMSIZE_VIRTUAL - PAGESIZE) (PAGEADDRESS b) PAGESIZE 7 m = Some m'
    \<and> agree_except (PAGENUMBER lt) m m' \<and> usable m' pt lt (E(767 := PAGEADDRESS b OR 7))"
proof -
  have va: "PAGEOFFSET (0x2FF000 :: u32) = 0" "PAGENUMBER (0x2FF000 :: u32) = 767"
    by (simp_all add: PAGEOFFSET_def PAGENUMBER_div)
  have t: "table_is m pt lt E" using u(1) by (simp add: usable_def)
  have "\<exists>m'. virtual_memory_map pt 0x2FF000 (PAGEADDRESS b) (of_nat 1 * PAGESIZE) 7 m = Some m'
    \<and> agree_except (PAGENUMBER lt) m m'
    \<and> table_is m' pt lt (\<lambda>i. if PAGENUMBER (0x2FF000 :: u32) \<le> i \<and> i < PAGENUMBER (0x2FF000 :: u32) + 1
         then (PAGEADDRESS b + of_nat (i - PAGENUMBER (0x2FF000 :: u32)) * PAGESIZE) OR 7 else E i)"
    by (rule map_range[OF t]) (use b va in simp_all)
  moreover have "(\<lambda>i. if PAGENUMBER (0x2FF000 :: u32) \<le> i \<and> i < PAGENUMBER (0x2FF000 :: u32) + 1
         then (PAGEADDRESS b + of_nat (i - PAGENUMBER (0x2FF000 :: u32)) * PAGESIZE) OR 7 else E i)
      = E(767 := PAGEADDRESS b OR 7)"
    unfolding va by (auto simp: fun_eq_iff)
  ultimately obtain m' where m': "virtual_memory_map pt 0x2FF000 (PAGEADDRESS b) PAGESIZE 7 m = Some m'"
    "agree_except (PAGENUMBER lt) m m'" "table_is m' pt lt (E(767 := PAGEADDRESS b OR 7))" by auto
  moreover have "map_through cr3 pt 0x2FF000 (PAGEADDRESS b) PAGESIZE 7 m = Some m'"
    using in_use_map[OF u(2,1), of "0x2FF000"] m'(1) va by simp
  ultimately show ?thesis using u(1) shares_kernel_upd[of E 767] by (simp add: usable_def)
qed

lemma process_setup_ok:
  assumes c: "counted s" and q: "0 < q" "q < NPROC" "p_pid (proc s q) = q" "length (processes s) = NPROC"
    and a: "first_free s a" "a + 2 < 64" "owner_at s (a + 1) = PO_FREE" "owner_at s (a + 2) = PO_FREE"
    and k: "usable (mem s) (kernel_pagetable s) kl Ek" "owner_at s (PAGENUMBER (kernel_pagetable s)) \<noteq> PO_FREE"
      "owner_at s (PAGENUMBER kl) \<noteq> PO_FREE" and cr3: "held s cr3"
    and img: "program < length (ramimages B)" "image_ok K m0 (ramimages B ! program)"
    and K: "agrees_on K m0 (mem s)" "\<And>j. j \<in> K \<Longrightarrow> j < 256 \<and> owner_at s j \<noteq> PO_FREE"
  defines "eh \<equiv> ramimages B ! program"
  defines "L \<equiv> segments_from m0 eh 0"
  assumes pages: "distinct (all_pages L)" "\<And>j. j \<in> set (all_pages L) \<Longrightarrow> owner_at s j = PO_FREE"
  shows "\<exists>cr3' s'. process_setup B cr3 q program s = Some (cr3', s') \<and> held s' cr3'
    \<and> page_step q ({a, a + 1, a + 2} \<union> set (all_pages L)) ({a, a + 1} \<union> set (all_pages L)) s s'
    \<and> processes s' = (processes s)[q := started_process q (PAGEADDRESS a) (e_entry m0 eh)]
    \<and> usable (mem s') (PAGEADDRESS a) (PAGEADDRESS (a + 1)) (process_table L (PAGEADDRESS (a + 2)))
    \<and> (\<forall>ph \<in> set L. segment_loaded ph (eh + p_offset ph) m0 (mem s'))"
proof -
  let ?pt = "PAGEADDRESS a" and ?lt = "PAGEADDRESS (Suc a)" and ?P = "set (all_pages L)"
  let ?s1 = "upd_proc q (process_init 0) s"
  have high: "256 \<le> j" "j < NPAGES" if "j \<in> ?P" for j
    using image_pages_high[OF img(2), of j 0] that by (simp_all add: L_def eh_def)
  have pn: "PAGENUMBER ?pt = a" "PAGENUMBER ?lt = Suc a" using a(2) by simp_all
  have fa: "owner_at s a = PO_FREE" "owner_at s (Suc a) = PO_FREE" using a(1,3) by (simp_all add: first_free_def)
  have kt: "table_is (mem ?s1) (kernel_pagetable s) kl Ek" "PAGENUMBER (kernel_pagetable s) \<notin> {a, Suc a}" "PAGENUMBER kl \<notin> {a, Suc a}"
    using k fa by (auto simp: usable_def)
  obtain s2 where s2: "copy_pagetable (kernel_pagetable s) (of_nat q) ?s1 = Some (?pt, s2)" "page_step q {a, Suc a} {a, Suc a} s s2"
    "processes s2 = processes ?s1" "table_is (mem s2) ?pt ?lt Ek"
    using copy_table_ok[OF _ q(1,2) _ _ _ kt] c a by auto
  note D = table_isD[OF s2(4)]
  have h2: "held s2 cr3" by (rule page_step_held[OF cr3 s2(2) q(1,2)]) (use c fa in \<open>auto simp: counted_def\<close>)
  then have acc: "accessible cr3 KERNEL_WRITE ?pt PAGESIZE (mem s2)" "accessible cr3 KERNEL_WRITE ?lt PAGESIZE (mem s2)"
    using usable_page[OF _ D(4)] usable_page[OF _ D(5)] a(2) pn by (auto simp: held_def)
  have e: "read_entry (mem s2) ?pt 0 = Some (pte (mem s2) ?pt 0)" "PTE_ADDR (pte (mem s2) ?pt 0) = ?lt"
    using D(2,4,6) by (simp_all add: read_entry_eq l2_of_def)
  obtain m where m: "kernel_memset (?lt + 4 * of_nat (PAGENUMBER PROC_START_ADDR)) 0
      (PAGESIZE - 4 * of_nat (PAGENUMBER PROC_START_ADDR)) (mem s2) = Some m"
    "agree_except (PAGENUMBER ?lt) (mem s2) m" "table_is m ?pt ?lt (\<lambda>i. if i < 256 then Ek i else 0)"
    using clear_upper[OF s2(4)] by blast
  have "(\<lambda>i. if i < 256 then Ek i else 0) = bare_table"
    using k(1) by (auto simp: bare_table_def usable_def shares_kernel_def fun_eq_iff)
  then have u: "usable m ?pt ?lt bare_table"
    using m(3) a(2) pn by (simp add: usable_def shares_kernel_def bare_table_def)
  let ?s3 = "(upd_proc q (\<lambda>p. p\<lparr>p_pagetable := ?pt\<rparr>) s2)\<lparr>mem := m\<rparr>"
  have g3: "page_step q {a, Suc a} {a, Suc a} s ?s3" using s2(2) m(2) pn by (auto simp: page_step_def agree_except_def)
  have h3: "held ?s3 cr3" by (rule page_step_held[OF cr3 g3 q(1,2)]) (use c fa in \<open>auto simp: counted_def\<close>)
  have p3: "p_pid (proc ?s3 q) = q" "p_pagetable (proc ?s3 q) = ?pt"
    using s2(3) q by (simp_all add: process_init_def)
  have c3: "counted ?s3" by (rule page_step_counted[OF g3 c q(1,2)])
  have iu: "in_use (mem ?s3) cr3 ?pt ?lt"
  proof -
    obtain lt3 E3 where u3: "usable (mem s) cr3 lt3 E3"
      and o: "owner_at s (PAGENUMBER cr3) \<noteq> PO_FREE" "owner_at s (PAGENUMBER lt3) \<noteq> PO_FREE"
      using cr3 by (auto simp: held_def)
    have n3: "PAGENUMBER cr3 \<notin> {a, Suc a}" "PAGENUMBER lt3 \<notin> {a, Suc a}" using o fa by auto
    have "usable (mem ?s3) cr3 lt3 E3" by (rule usable_frame[OF u3]) (use g3 n3 in \<open>auto simp: page_step_def\<close>)
    then show ?thesis using n3 pn unfolding in_use_def by auto
  qed
  have K3: "agrees_on K m0 (mem ?s3)" "PAGENUMBER ?lt \<notin> K"
    using page_step_agrees[OF g3 K(1)] K(2) fa pn by auto
  have Kb: "j < 256" if "j \<in> K" for j using K(2)[OF that] by blast
  have u': "usable (mem ?s3) ?pt ?lt bare_table" using u by simp
  have free3: "owner_at ?s3 j = PO_FREE" if "j \<in> ?P" for j
  proof -
    have "j \<notin> {a, Suc a}" "j < NPAGES" using high[OF that] a(2) by auto
    then show ?thesis using page_step_owner[OF g3, of j] pages(2)[OF that] by simp
  qed
  obtain cr3' s4 where s4: "program_load B cr3 q program ?s3 = Some (0, cr3', upd_proc q
      (\<lambda>p. p\<lparr>p_registers := (p_registers p)\<lparr>reg_eip := e_entry m0 eh\<rparr>\<rparr>) s4)"
    "in_use (mem s4) cr3' ?pt ?lt" "cr3' \<in> {cr3, ?pt}" "loads_into q ?pt ?lt L eh m0 bare_table ?s3 s4"
    using program_load_ok[OF c3 q(1,2) p3 u' iu img K3 Kb pages(1)[unfolded L_def eh_def] free3[unfolded L_def eh_def]]
    unfolding L_def eh_def by blast
  have g4: "page_step q ?P (insert (Suc a) ?P) ?s3 s4" and pr4: "processes s4 = processes ?s3"
    and u4: "usable (mem s4) ?pt ?lt (fold with_segment L bare_table)"
    and l4: "\<forall>ph \<in> set L. segment_loaded ph (eh + p_offset ph) m0 (mem s4)"
    using s4(4) pn by (simp_all add: loads_into_def)
  note g34 = page_step_trans[OF g3 g4]
  have c4: "counted s4" by (rule page_step_counted[OF g4 c3 q(1,2)])
  have f4: "first_free s4 (a + 2)"
  proof -
    have "owner_at s4 j \<noteq> PO_FREE" if "j < a + 2" for j
      using that page_step_owner[OF g34, of j] a(1,2) pid_not_free[OF q(1,2)]
      by (cases "j < a") (auto simp: first_free_def)
    moreover have "a + 2 \<notin> ?P" using high[of "a + 2"] a(2) by auto
    then have "owner_at s4 (a + 2) = PO_FREE" using page_step_owner[OF g34, of "a + 2"] a(2,4) by simp
    ultimately show ?thesis using a(2) by (simp add: first_free_def)
  qed
  define F where "F = (\<lambda>p. p\<lparr>p_registers := (p_registers p)\<lparr>reg_esp := MEMSIZE_VIRTUAL\<rparr>\<rparr>)
    \<circ> (\<lambda>p :: process. p\<lparr>p_registers := (p_registers p)\<lparr>reg_eip := e_entry m0 eh\<rparr>\<rparr>)"
  let ?s5 = "upd_proc q F s4"
  have f5: "first_free ?s5 (a + 2)" "counted ?s5" using f4 c4 by simp_all
  define s6 where "s6 = upd_page (a + 2) (\<lambda>p. p\<lparr>refcount := 1, owner := of_nat q\<rparr>) ?s5"
  note T = take_first_free[OF f5(2,1) q(1,2), folded s6_def]
  have m6: "mem s6 = mem s4" "processes s6 = upd_nth q F (processes s4)" by (simp_all add: s6_def upd_proc_def)
  obtain m7 where m7: "map_through cr3' ?pt (MEMSIZE_VIRTUAL - PAGESIZE) (PAGEADDRESS (a + 2)) PAGESIZE 7 (mem s6) = Some m7"
    "agree_except (PAGENUMBER ?lt) (mem s4) m7" "usable m7 ?pt ?lt (process_table L (PAGEADDRESS (a + 2)))"
    using map_stack[OF u4 s4(2), of "a + 2"] a(2) m6(1) by (auto simp: process_table_def)
  let ?s8 = "upd_proc q (\<lambda>p. p\<lparr>p_state := P_RUNNABLE\<rparr>) (s6\<lparr>mem := m7\<rparr>)"
  have pr5: "processes ?s5 = upd_nth q F (processes ?s3)" by (simp add: upd_proc_def pr4)
  have two: "upd_proc q (\<lambda>p. p\<lparr>p_registers := (p_registers p)\<lparr>reg_esp := MEMSIZE_VIRTUAL\<rparr>\<rparr>)
      (upd_proc q (\<lambda>p. p\<lparr>p_registers := (p_registers p)\<lparr>reg_eip := e_entry m0 eh\<rparr>\<rparr>) s4) = ?s5"
    using q(2,4) pr4 s2(3) by (simp add: upd_proc_def upd_nth_def F_def)
  have p6: "p_pagetable (proc s6 q) = ?pt" "reg_esp (p_registers (proc s6 q)) = MEMSIZE_VIRTUAL"
    using q(2,4) p3 pr4 s2(3) by (simp_all add: m6(2) F_def)
  have run: "process_setup B cr3 q program s = Some (cr3', ?s8)"
    using s2(1) e acc m(1) s4(1) T(1) m7(1) p6 two PAGEADDRESS_neq[of "a + 2"] a(2)
    by (simp add: process_setup_def Let_def)
  have "page_step q {} {Suc a} s6 ?s8" using m7(2) m6(1) pn by (simp add: page_step_def agree_except_def)
  then have g48: "page_step q {a + 2} {Suc a} s4 ?s8" using page_step_trans[OF T(2)] by fastforce
  have "page_step q (({a, Suc a} \<union> ?P) \<union> {a + 2}) (({a, Suc a} \<union> insert (Suc a) ?P) \<union> {Suc a}) s ?s8"
    by (rule page_step_trans[OF g34 g48])
  moreover have "({a, Suc a} \<union> ?P) \<union> {a + 2} = {a, a + 1, a + 2} \<union> ?P"
    "({a, Suc a} \<union> insert (Suc a) ?P) \<union> {Suc a} = {a, a + 1} \<union> ?P" by auto
  ultimately have g8: "page_step q ({a, a + 1, a + 2} \<union> ?P) ({a, a + 1} \<union> ?P) s ?s8" by simp
  have "held ?s8 cr3'"
  proof (cases "cr3' = ?pt")
    case True
    have "owner_at ?s8 a \<noteq> PO_FREE" "owner_at ?s8 (Suc a) \<noteq> PO_FREE"
      using page_step_owner[OF g8, of a] page_step_owner[OF g8, of "Suc a"] a(2) pid_not_free[OF q(1,2)] by simp_all
    then show ?thesis using m7(3) True pn unfolding held_def by fastforce
  next
    case False
    then have "cr3' = cr3" using s4(3) by simp
    then show ?thesis
      using page_step_held[OF cr3 g8 q(1,2)] c fa pages(2) by (auto simp: counted_def)
  qed
  moreover have "processes ?s8 = (processes s)[q := started_process q ?pt (e_entry m0 eh)]"
    using q pr4 s2(3)
    by (cases "proc s q")
      (simp add: m6(2) F_def upd_proc_def upd_nth_def process_init_def init_eflags_def started_process_def)
  moreover have "segment_loaded ph (eh + p_offset ph) m0 m7" if "ph \<in> set L" for ph
  proof (rule segment_loaded_cong)
    show "segment_loaded ph (eh + p_offset ph) m0 (mem s4)" using l4 that by blast
    show "segment_fits ph" using img(2) that by (auto simp: image_ok_def segment_ok_def L_def eh_def)
    show "m7 x = mem s4 x" if "256 \<le> PAGENUMBER x" for x
      using m7(2) that pn a(2) by (auto simp: agree_except_def)
  qed simp
  ultimately show ?thesis using run g8 m7(3) by auto
qed

section \<open>All processes\<close>

abbreviation program_segments :: "boot_layout \<Rightarrow> memory \<Rightarrow> nat \<Rightarrow> elf_program list" where
  "program_segments B m0 program \<equiv> segments_from m0 (ramimages B ! program) 0"

abbreviation program_pages :: "boot_layout \<Rightarrow> memory \<Rightarrow> nat \<Rightarrow> nat list" where
  "program_pages B m0 program \<equiv> all_pages (program_segments B m0 program)"

definition set_up :: "boot_layout \<Rightarrow> memory \<Rightarrow> memos \<Rightarrow> nat \<Rightarrow> nat \<Rightarrow> bool" where
  "set_up B m0 s p program \<longleftrightarrow>
     proc s p = started_process p (PAGEADDRESS (3 * p - 2)) (e_entry m0 (ramimages B ! program))
     \<and> usable (mem s) (PAGEADDRESS (3 * p - 2)) (PAGEADDRESS (3 * p - 1))
         (process_table (program_segments B m0 program) (PAGEADDRESS (3 * p)))
     \<and> (\<forall>j \<in> {3 * p - 2, 3 * p - 1, 3 * p} \<union> set (program_pages B m0 program). owner_at s j = of_nat p)
     \<and> (\<forall>ph \<in> set (program_segments B m0 program).
          segment_loaded ph ((ramimages B ! program) + p_offset ph) m0 (mem s))"

definition boot_inv :: "boot_layout \<Rightarrow> nat set \<Rightarrow> memory \<Rightarrow> (nat \<times> nat) list \<Rightarrow> u32 \<Rightarrow> memos \<Rightarrow> bool" where
  "boot_inv B K m0 ps cr3 s \<longleftrightarrow> counted s \<and> length (processes s) = NPROC \<and> (\<forall>i < NPROC. p_pid (proc s i) = i)
     \<and> (\<forall>i < NPROC. i \<notin> fst ` set ps \<longrightarrow> p_state (proc s i) = P_FREE)
     \<and> held s cr3 \<and> held s (kernel_pagetable s) \<and> agrees_on K m0 (mem s)
     \<and> (\<forall>j \<in> K. j < 256 \<and> owner_at s j \<noteq> PO_FREE) \<and> owner_at s CONSOLE_PAGE = PO_RESERVED
     \<and> (\<forall>j < 64. owner_at s j = PO_FREE \<longleftrightarrow> 3 * length ps < j)
     \<and> (\<forall>j < NPAGES. 256 \<le> j \<and> owner_at s j \<noteq> PO_FREE \<longrightarrow>
          (\<exists>x \<in> set ps. j \<in> set (program_pages B m0 (snd x))))
     \<and> (\<forall>(p, program) \<in> set ps. set_up B m0 s p program)"

lemma set_up_grows:
  assumes u: "set_up B m0 s p program" and img: "image_ok K m0 (ramimages B ! program)"
    and p: "0 < p" "p < NPROC" and g: "page_step q P W s s'"
    and new: "\<And>j. j \<in> P \<union> W \<Longrightarrow> owner_at s j = PO_FREE" and pr: "proc s' p = proc s p"
  shows "set_up B m0 s' p program"
proof -
  let ?J = "{3 * p - 2, 3 * p - 1, 3 * p} \<union> set (program_pages B m0 program)"
  have own: "owner_at s j = of_nat p" if "j \<in> ?J" for j using u that unfolding set_up_def by blast
  have J: "j < NPAGES" "j \<notin> P \<union> W" if "j \<in> ?J" for j
  proof -
    show "j < NPAGES" using that p image_pages_high(2)[OF img] by auto
    show "j \<notin> P \<union> W" using own[OF that] new[of j] pid_not_free[OF p] by auto
  qed
  have mem: "mem s' x = mem s x" if "PAGENUMBER x \<in> ?J" for x
    using g J(2)[OF that] by (auto simp: page_step_def)
  have pn: "PAGENUMBER (PAGEADDRESS (3 * p - 2)) = 3 * p - 2" "PAGENUMBER (PAGEADDRESS (3 * p - 1)) = 3 * p - 1"
    using p by simp_all
  have "owner_at s' j = of_nat p" if "j \<in> ?J" for j
    using page_step_owner[OF g J(1)[OF that]] J(2)[OF that] own[OF that] by simp
  moreover have "usable (mem s') (PAGEADDRESS (3 * p - 2)) (PAGEADDRESS (3 * p - 1))
         (process_table (program_segments B m0 program) (PAGEADDRESS (3 * p)))"
  proof (rule usable_frame)
    show "usable (mem s) (PAGEADDRESS (3 * p - 2)) (PAGEADDRESS (3 * p - 1))
         (process_table (program_segments B m0 program) (PAGEADDRESS (3 * p)))"
      using u by (simp only: set_up_def)
    show "mem s' x = mem s x"
      if "PAGENUMBER x = PAGENUMBER (PAGEADDRESS (3 * p - 2)) \<or> PAGENUMBER x = PAGENUMBER (PAGEADDRESS (3 * p - 1))" for x
      using that mem[of x] unfolding pn by blast
  qed
  moreover have "segment_loaded ph ((ramimages B ! program) + p_offset ph) m0 (mem s')"
    if ph: "ph \<in> set (program_segments B m0 program)" for ph
  proof (rule segment_loaded_cong)
    show "segment_loaded ph ((ramimages B ! program) + p_offset ph) m0 (mem s)"
      using u ph by (simp add: set_up_def)
    show "segment_fits ph" using img ph by (simp add: image_ok_def segment_ok_def)
    show "mem s' x = mem s x" if "PAGENUMBER x \<in> set (segment_pages ph)" for x
      by (rule mem) (use that ph in \<open>auto simp: all_pages_def\<close>)
  qed simp
  ultimately show ?thesis using u pr unfolding set_up_def by simp
qed

lemma setup_step:
  assumes inv: "boot_inv B K m0 ps cr3 s" and q: "q = Suc (length ps)" "q < NPROC" "map fst ps = [1..<Suc (length ps)]"
    and imgs: "\<And>x. x \<in> set (ps @ [(q, program)]) \<Longrightarrow> image_ok K m0 (ramimages B ! snd x)"
      "program < length (ramimages B)"
    and pages: "distinct (program_pages B m0 program)"
      "\<And>x. x \<in> set ps \<Longrightarrow> set (program_pages B m0 (snd x)) \<inter> set (program_pages B m0 program) = {}"
  shows "\<exists>cr3' s'. process_setup B cr3 q program s = Some (cr3', s') \<and> boot_inv B K m0 (ps @ [(q, program)]) cr3' s'"
proof -
  let ?a = "3 * q - 2" and ?P = "set (program_pages B m0 program)"
  have c: "counted s" and len: "length (processes s) = NPROC" and pid: "\<forall>i < NPROC. p_pid (proc s i) = i"
    and st: "\<forall>i < NPROC. i \<notin> fst ` set ps \<longrightarrow> p_state (proc s i) = P_FREE"
    and h: "held s cr3" "held s (kernel_pagetable s)" and ag: "agrees_on K m0 (mem s)"
    and K: "\<forall>j \<in> K. j < 256 \<and> owner_at s j \<noteq> PO_FREE" and con: "owner_at s CONSOLE_PAGE = PO_RESERVED"
    and low: "\<forall>j < 64. owner_at s j = PO_FREE \<longleftrightarrow> 3 * length ps < j"
    and up: "\<forall>j < NPAGES. 256 \<le> j \<and> owner_at s j \<noteq> PO_FREE \<longrightarrow> (\<exists>x \<in> set ps. j \<in> set (program_pages B m0 (snd x)))"
    and su: "\<forall>(p, program) \<in> set ps. set_up B m0 s p program"
    using inv unfolding boot_inv_def by blast+
  have img: "image_ok K m0 (ramimages B ! program)" using imgs(1)[of "(q, program)"] by simp
  have a: "first_free s ?a" "?a + 2 < 64" "owner_at s (?a + 1) = PO_FREE" "owner_at s (?a + 2) = PO_FREE"
    using low q(1,2) by (auto simp: first_free_def)
  have pf: "owner_at s j = PO_FREE" if "j \<in> ?P" for j
    using up image_pages_high[OF img that] pages(2) that by blast
  obtain kl Ek where k: "usable (mem s) (kernel_pagetable s) kl Ek" "owner_at s (PAGENUMBER (kernel_pagetable s)) \<noteq> PO_FREE"
      "owner_at s (PAGENUMBER kl) \<noteq> PO_FREE"
    using h(2) by (auto simp: held_def)
  have q0: "0 < q" using q(1) by simp
  obtain cr3' s' where S: "process_setup B cr3 q program s = Some (cr3', s')" "held s' cr3'"
    "page_step q ({?a, ?a + 1, ?a + 2} \<union> ?P) ({?a, ?a + 1} \<union> ?P) s s'"
    "processes s' = (processes s)[q := started_process q (PAGEADDRESS ?a) (e_entry m0 (ramimages B ! program))]"
    "usable (mem s') (PAGEADDRESS ?a) (PAGEADDRESS (?a + 1)) (process_table (program_segments B m0 program) (PAGEADDRESS (?a + 2)))"
    "\<forall>ph \<in> set (program_segments B m0 program). segment_loaded ph (ramimages B ! program + p_offset ph) m0 (mem s')"
    using process_setup_ok[OF c q0 q(2) _ len a k h(1) imgs(2) img ag _ pages(1) pf] pid q(2) K by auto
  have a3: "?a + 1 = 3 * q - 1" "?a + 2 = 3 * q" using q0 by simp_all
  have new: "owner_at s j = PO_FREE" if "j \<in> ({?a, ?a + 1, ?a + 2} \<union> ?P) \<union> ({?a, ?a + 1} \<union> ?P)" for j
    using that a pf by (auto simp: first_free_def)
  have own: "owner_at s' j = (if j \<in> {?a, ?a + 1, ?a + 2} \<union> ?P then of_nat q else owner_at s j)" if "j < NPAGES" for j
    by (rule page_step_owner[OF S(3) that])
  have fst_ps: "fst ` set ps = {1..<q}" using arg_cong[OF q(3), of set] q(1) by (simp del: upt_Suc)
  have "counted s'" by (rule page_step_counted[OF S(3) c q0 q(2)])
  moreover have "held s' (kernel_pagetable s')"
  proof -
    have "kernel_pagetable s' = kernel_pagetable s" using S(3) by (simp add: page_step_def)
    moreover have "held s' (kernel_pagetable s)"
      by (rule page_step_held[OF h(2) S(3) q0 q(2)]) (use c new in \<open>auto simp: counted_def\<close>)
    ultimately show ?thesis by simp
  qed
  moreover have "agrees_on K m0 (mem s')"
    by (rule page_step_agrees[OF S(3) ag]) (use K new in blast)
  moreover have "j < 256 \<and> owner_at s' j \<noteq> PO_FREE" if "j \<in> K" for j
  proof -
    have j: "j < 256" "owner_at s j \<noteq> PO_FREE" using K that by blast+
    then show ?thesis using own[of j] pid_not_free[OF q0 q(2)] by simp
  qed
  moreover have "owner_at s' CONSOLE_PAGE = PO_RESERVED"
    using own[of CONSOLE_PAGE] con new[of CONSOLE_PAGE] by auto
  moreover have "owner_at s' j = PO_FREE \<longleftrightarrow> 3 * length (ps @ [(q, program)]) < j" if "j < 64" for j
  proof -
    have "j \<notin> ?P" using image_pages_high(1)[OF img, of j 0] that by auto
    then show ?thesis using own[of j] low that q(1) pid_not_free[OF q0 q(2)] by auto
  qed
  moreover have "\<exists>x \<in> set (ps @ [(q, program)]). j \<in> set (program_pages B m0 (snd x))"
    if "j < NPAGES" "256 \<le> j" "owner_at s' j \<noteq> PO_FREE" for j
    using own[OF that(1)] up that a(2) by (cases "j \<in> ?P") auto
  moreover have "set_up B m0 s' p pr" if "(p, pr) \<in> set (ps @ [(q, program)])" for p pr
  proof (cases "(p, pr) \<in> set ps")
    case True
    then have "p \<in> fst ` set ps" by force
    then have p: "0 < p" "p < q" by (simp_all add: fst_ps)
    have im: "image_ok K m0 (ramimages B ! pr)" using imgs(1)[of "(p, pr)"] True by simp
    have sp: "set_up B m0 s p pr" using su True by blast
    show ?thesis
      by (rule set_up_grows[OF sp im p(1) _ S(3) new]) (use p q(2) S(4) in simp_all)
  next
    case False
    then have "p = q" "pr = program" using that by simp_all
    then show ?thesis
      using S(4-6) own a(2) len q(2) image_pages_high(2)[OF img] unfolding set_up_def a3 by auto
  qed
  moreover have "p_pid (proc s' i) = i" "i \<notin> fst ` set (ps @ [(q, program)]) \<Longrightarrow> p_state (proc s' i) = P_FREE"
    if "i < NPROC" for i
    using that S(4) len pid st q(2) by (auto simp: nth_list_update started_process_def)
  moreover have "length (processes s') = NPROC" using S(4) len by simp
  ultimately have "boot_inv B K m0 (ps @ [(q, program)]) cr3' s'"
    using S(2) unfolding boot_inv_def by blast
  then show ?thesis using S(1) by blast
qed

lemma setup_all_ok:
  assumes "boot_inv B K m0 ps cr3 s" "length (ps @ qs) < NPROC" "map fst (ps @ qs) = [1..<Suc (length (ps @ qs))]"
    "\<And>x. x \<in> set (ps @ qs) \<Longrightarrow> image_ok K m0 (ramimages B ! snd x) \<and> snd x < length (ramimages B)"
    "distinct (concat (map (\<lambda>x. program_pages B m0 (snd x)) (ps @ qs)))"
  shows "\<exists>cr3' s'. setup_all B cr3 qs s = Some (cr3', s') \<and> boot_inv B K m0 (ps @ qs) cr3' s'"
  using assms
proof (induction qs arbitrary: ps cr3 s)
  case (Cons x qs)
  obtain q program where x: "x = (q, program)" by force
  have "map fst (ps @ x # qs) ! length ps = q"
    using nth_append_length[of "map fst ps" q "map fst qs"] by (simp add: x)
  then have q: "q = Suc (length ps)" using Cons.prems(3) by (simp del: upt_Suc)
  have "map fst ps = take (length ps) (map fst (ps @ x # qs))" by simp
  also have "\<dots> = [1..<Suc (length ps)]" unfolding Cons.prems(3) by (subst take_upt) simp_all
  finally have f: "map fst ps = [1..<Suc (length ps)]" .
  have "\<exists>cr3' s'. process_setup B cr3 q program s = Some (cr3', s') \<and> boot_inv B K m0 (ps @ [(q, program)]) cr3' s'"
  proof (rule setup_step[OF Cons.prems(1) q _ f])
    show "q < NPROC" using Cons.prems(2) q by simp
    show "image_ok K m0 (ramimages B ! snd y)" if "y \<in> set (ps @ [(q, program)])" for y
      using Cons.prems(4)[of y] that x by auto
    show "program < length (ramimages B)" using Cons.prems(4)[of x] x by simp
    show "distinct (program_pages B m0 program)" using Cons.prems(5) by (simp add: x)
    show "set (program_pages B m0 (snd y)) \<inter> set (program_pages B m0 program) = {}" if "y \<in> set ps" for y
      using Cons.prems(5) that by (auto simp: x)
  qed
  then obtain cr3' s' where S: "process_setup B cr3 q program s = Some (cr3', s')" "boot_inv B K m0 (ps @ [x]) cr3' s'"
    by (auto simp: x)
  show ?case using Cons.IH[OF S(2)] Cons.prems S(1) by (simp add: x)
qed auto

end
