(* ===== verification/Memos_Boot_Props.thy ===== *)
theory Memos_Boot_Props
  imports Memos_Boot_Setup Memos_Props
begin

text \<open>
  Booting MemOS: the kernel's own table, the page descriptors and the process table it starts with,
  and the two properties of the boot. It ends in process 1 with the invariant that memory isolation
  rests on, and every process finds its program in memory.
\<close>

section \<open>The layout the linker gives\<close>

definition kernel_data_pages :: "boot_layout \<Rightarrow> nat set" where
  "kernel_data_pages B = {64..<(unat (kernel_end B) + 4095) div 4096}
     - {PAGENUMBER (kernel_pagetable_memory B), PAGENUMBER (kernel_level2_pagetable B)}"

definition kernel_address :: "boot_layout \<Rightarrow> u32 \<Rightarrow> bool" where
  "kernel_address B a \<longleftrightarrow> 0x40000 \<le> unat a \<and> unat a < unat (kernel_end B)"

definition layout_ok :: "boot_layout \<Rightarrow> bool" where
  "layout_ok B \<longleftrightarrow> kernel_end B \<le> 0xA0000 \<and> length (ramimages B) = 6
     \<and> PAGEOFFSET (kernel_pagetable_memory B) = 0 \<and> PAGEOFFSET (kernel_level2_pagetable B) = 0
     \<and> kernel_pagetable_memory B \<noteq> kernel_level2_pagetable B
     \<and> kernel_address B (kernel_pagetable_memory B) \<and> kernel_address B (kernel_level2_pagetable B)
     \<and> kernel_address B (default_int_handler (handlers B)) \<and> kernel_address B (virtual_memory_map_addr (handlers B))"

text \<open>The images the command selects are sound, and their segments are on different pages.\<close>

definition images_ok :: "boot_layout \<Rightarrow> string option \<Rightarrow> memory \<Rightarrow> bool" where
  "images_ok B command m \<longleftrightarrow>
     (\<forall>x \<in> set (first_programs command). image_ok (kernel_data_pages B) m (ramimages B ! snd x))
     \<and> distinct (concat (map (\<lambda>x. program_pages B m (snd x)) (first_programs command)))"

section \<open>The state before the first process\<close>

lemma kernel_address_page:
  assumes "layout_ok B" "kernel_address B a"
  shows "64 \<le> PAGENUMBER a" "PAGENUMBER a < 160"
proof -
  have "unat a < 160 * 4096" using assms by (simp add: layout_ok_def kernel_address_def word_le_nat_alt)
  then show "PAGENUMBER a < 160" unfolding PAGENUMBER_div by (rule less_mult_imp_div_less)
  show "64 \<le> PAGENUMBER a"
    using assms(2) by (simp add: kernel_address_def PAGENUMBER_div less_eq_div_iff_mult_less_eq)
qed

lemma initial_owner_page:
  assumes "j < NPAGES"
  shows "initial_owner kend (PAGEADDRESS j) =
    (if j = 0 \<or> 160 \<le> j \<and> j < 256 then PO_RESERVED
     else if 64 \<le> j \<and> j * 4096 < unat kend \<or> j = 127 then PO_KERNEL else PO_FREE)"
proof -
  have u: "unat (PAGEADDRESS j) = j * 4096" using assms by (simp add: PAGEADDRESS_unat)
  have "PAGEADDRESS j = 0 \<longleftrightarrow> j = 0" using u by (simp add: word_unat_eq_iff)
  moreover have "PAGEADDRESS j = KERNEL_STACK_TOP - PAGESIZE \<longleftrightarrow> j = 127" using u by (simp add: word_unat_eq_iff)
  moreover have "PAGEADDRESS 127 = 0x7F000" by (simp add: PAGEADDRESS_def push_bit_eq_mult)
  ultimately show ?thesis
    unfolding initial_owner_def physical_memory_isreserved_def
    by (simp add: word_le_nat_alt word_less_nat_alt u)
qed

lemma pageinfo_init_page:
  assumes "j < NPAGES"
  shows "pageinfo (pageinfo_init kend s) ! j =
    (let ow = initial_owner kend (PAGEADDRESS j) in \<lparr>owner = ow, refcount = (if ow \<noteq> PO_FREE then 1 else 0)\<rparr>)"
  using assms by (simp add: pageinfo_init_def)

lemma clear_cells_frame:
  "unat a + 2 * n \<le> 4294967296 \<Longrightarrow> unat x < unat a \<or> unat a + 2 * n \<le> unat x \<Longrightarrow> clear_cells a n m x = m x"
proof (induction a n m rule: clear_cells.induct)
  case (2 a n m)
  have "unat (a + 1) = unat a + 1" using "2.prems"(1) by (simp add: unat_word_ariths)
  then have off: "x \<noteq> a" "x \<noteq> a + 1" using "2.prems"(2) by auto
  show ?case
  proof (cases n)
    case 0
    then show ?thesis using off by (simp add: store16_def)
  next
    case (Suc k)
    have "unat (a + 2) = unat a + 2" using "2.prems"(1) Suc by (simp add: unat_word_ariths)
    then have "clear_cells (a + 2) n (store16 m a 0x0720) x = store16 m a 0x0720 x"
      using "2.prems" by (intro "2.IH") auto
    then show ?thesis using off by (simp add: store16_def)
  qed
qed simp

lemma console_clear_frame: "agree_except CONSOLE_PAGE m (console_clear m)"
proof -
  have "console_clear m x = m x" if ne: "PAGENUMBER x \<noteq> CONSOLE_PAGE" for x
  proof -
    have r: "unat x < 753664 \<or> 757760 \<le> unat x"
    proof (rule ccontr)
      assume "\<not> ?thesis"
      then have "unat x div 4096 = 184" by (intro div_nat_eqI) simp_all
      then show False using ne by (simp add: PAGENUMBER_div)
    qed
    then have "clear_cells 0xB8000 (25 * 80) m x = m x" by (intro clear_cells_frame) auto
    moreover have "x \<noteq> 0xB8FFC \<and> x \<noteq> 0xB8FFC + 1 \<and> x \<noteq> 0xB8FFC + 2 \<and> x \<noteq> 0xB8FFC + 3" using r by auto
    then have "store32 m' 0xB8FFC 0 x = m' x" for m' by (intro store32_other) simp_all
    ultimately show ?thesis by (simp only: console_clear_def)
  qed
  then show ?thesis by (simp add: agree_except_def)
qed

text \<open>The first table: physical memory mapped to itself.\<close>

lemma virtual_memory_init_ok:
  assumes "layout_ok B"
  shows "\<exists>m E. virtual_memory_init B s = Some (s\<lparr>mem := m, kernel_pagetable := kernel_pagetable_memory B\<rparr>)
    \<and> table_is m (kernel_pagetable_memory B) (kernel_level2_pagetable B) E
    \<and> (\<forall>i < 256. E i = PAGEADDRESS i OR 7) \<and> agrees_on (kernel_data_pages B) (mem s) m"
proof -
  let ?k = "kernel_pagetable_memory B" and ?l = "kernel_level2_pagetable B"
  have al: "PAGEOFFSET ?k = 0" "PAGEOFFSET ?l = 0" "?k \<noteq> ?l" and ad: "kernel_address B ?k" "kernel_address B ?l"
    using assms by (simp_all add: layout_ok_def)
  have pn: "PAGENUMBER ?k < NPAGES" "PAGENUMBER ?l < NPAGES" "PAGENUMBER ?k \<noteq> PAGENUMBER ?l"
    using kernel_address_page[OF assms ad(1)] kernel_address_page[OF assms ad(2)] al by (auto simp: aligned_eq_iff)
  define m1 where "m1 = memset (mem s) ?k 0 PAGESIZE"
  define m2 where "m2 = store32 m1 (?k + 4 * of_nat 0) (?l OR 7)"
  have ag1: "agree_except (PAGENUMBER ?k) (mem s) m1" unfolding m1_def by (rule memset_page[OF al(1)])
  have ag2: "agree_except (PAGENUMBER ?k) m1 m2" unfolding m2_def by (rule agree_store[OF al(1)]) simp
  have e: "pte m2 ?k i = (if i = 0 then ?l OR 7 else 0)" if "i < 1024" for i
    unfolding m2_def using pte_store[OF al(1) al(1) _ that, of 0] memset_page(2)[OF al(1) that]
    by (auto simp: m1_def)
  note parts = entry_parts[OF al(2), of 7]
  have full: "full_access (?l OR 7)"
  proof -
    have "?l AND 7 = (?l AND 0xFFF) AND 7" by (simp add: and.assoc)
    then have "?l AND 7 = 0" using al(2) by (simp add: PAGEOFFSET_def)
    then show ?thesis by (simp add: full_access_def word_ao_dist)
  qed
  have t2: "table_is m2 ?k ?l (pte m2 ?l)"
    using al pn e parts full by (simp add: table_is_def wf_table_def l2_of_def)
  have z: "PAGEOFFSET (0 :: u32) = 0" "PAGENUMBER (0 :: u32) = 0" by (simp_all add: PAGEOFFSET_def PAGENUMBER_div)
  obtain m3 where m3: "virtual_memory_map ?k 0 0 (of_nat 512 * PAGESIZE) 7 m2 = Some m3" "agree_except (PAGENUMBER ?l) m2 m3"
    "table_is m3 ?k ?l (\<lambda>i. if PAGENUMBER (0 :: u32) \<le> i \<and> i < PAGENUMBER (0 :: u32) + 512
         then (0 + of_nat (i - PAGENUMBER (0 :: u32)) * PAGESIZE) OR 7 else pte m2 ?l i)"
    using map_range[OF t2 z(1), of 512 0 7] z by auto
  have "virtual_memory_init B s = Some (s\<lparr>mem := m3, kernel_pagetable := ?k\<rparr>)"
    using m3(1) al pn
    by (simp add: virtual_memory_init_def kernel_memset_def page_range write_entry_eq m1_def[symmetric] or.assoc)
      (simp add: m2_def)
  moreover have "agrees_on (kernel_data_pages B) (mem s) m3"
    using ag1 ag2 m3(2) by (auto simp: agrees_on_def kernel_data_pages_def agree_except_def)
  moreover have "(of_nat i * PAGESIZE) = PAGEADDRESS i" for i
    by (simp add: PAGEADDRESS_def push_bit_eq_mult)
  ultimately show ?thesis using m3(3) z by fastforce
qed

text \<open>The state in which the first process is set up.\<close>

lemma kernel_page_owner:
  assumes "layout_ok B" "64 \<le> j" "j * 4096 < unat (kernel_end B)"
  shows "initial_owner (kernel_end B) (PAGEADDRESS j) = PO_KERNEL" "j < 160"
proof -
  have "j * 4096 < 160 * 4096" using assms(1,3) by (simp add: layout_ok_def word_le_nat_alt)
  then show j: "j < 160" by simp
  then show "initial_owner (kernel_end B) (PAGEADDRESS j) = PO_KERNEL"
    using assms(2,3) by (simp add: initial_owner_page)
qed

lemma kernel_mappings_ok:
  assumes B: "layout_ok B" and t: "table_is m kpt kl E" and E: "\<forall>i < 256. E i = PAGEADDRESS i OR 7"
    and pn: "PAGENUMBER kpt < 256" "PAGENUMBER kl < 256"
  shows "\<exists>m4 m5 E5. map_through kpt kpt 0 0 PROC_START_ADDR 3 m = Some m4
    \<and> map_through kpt kpt 0xB8000 0xB8000 PAGESIZE 7 m4 = Some m5 \<and> usable m5 kpt kl E5
    \<and> agree_except (PAGENUMBER kl) m m5"
proof -
  have z: "PAGEOFFSET (0 :: u32) = 0" "PAGENUMBER (0 :: u32) = 0" by (simp_all add: PAGEOFFSET_def PAGENUMBER_div)
  obtain m4 where m4: "virtual_memory_map kpt 0 0 (of_nat 256 * PAGESIZE) 3 m = Some m4" "agree_except (PAGENUMBER kl) m m4"
    "table_is m4 kpt kl (\<lambda>i. if PAGENUMBER (0 :: u32) \<le> i \<and> i < PAGENUMBER (0 :: u32) + 256
         then (0 + of_nat (i - PAGENUMBER (0 :: u32)) * PAGESIZE) OR 3 else E i)"
    using map_range[OF t z(1), of 256 0 3] z by auto
  have "kernel_sees E" using E by (simp add: kernel_sees_def)
  then have mt4: "map_through kpt kpt 0 0 PROC_START_ADDR 3 m = Some m4"
    using map_through_low[OF t _ t pn, of 0] m4(1) z by simp
  define E4 where "E4 = (\<lambda>i. if i < 256 then PAGEADDRESS i OR 3 else E i)"
  have "(of_nat i * PAGESIZE) = PAGEADDRESS i" for i
    by (simp add: PAGEADDRESS_def push_bit_eq_mult)
  then have t4: "table_is m4 kpt kl E4" using m4(3) z by (simp add: E4_def cong: if_cong)
  have con: "PAGEADDRESS 184 = 0xB8000" by (simp add: PAGEADDRESS_def push_bit_eq_mult)
  obtain m5 where m5: "virtual_memory_map kpt 0xB8000 0xB8000 PAGESIZE 7 m4 = Some m5" "agree_except (PAGENUMBER kl) m4 m5"
    "table_is m5 kpt kl (E4(184 := PAGEADDRESS 184 OR 7))"
    using map_self[OF t4, of 184 7] con by auto
  have "kernel_sees E4" by (simp add: kernel_sees_def E4_def)
  then have mt5: "map_through kpt kpt 0xB8000 0xB8000 PAGESIZE 7 m4 = Some m5"
    using map_through_low[OF t4 _ t4 pn, of "0xB8000"] m5(1) by (simp add: PAGENUMBER_div)
  have "shares_kernel (E4(184 := PAGEADDRESS 184 OR 7))"
    by (simp add: shares_kernel_def E4_def kernel_entry_def)
  then have "usable m5 kpt kl (E4(184 := PAGEADDRESS 184 OR 7))" using m5(3) pn by (simp add: usable_def)
  moreover have "agree_except (PAGENUMBER kl) m m5" using m4(2) m5(2) by (simp add: agree_except_def)
  ultimately show ?thesis using mt4 mt5 by blast
qed

lemma boot_start:
  assumes B: "layout_ok B"
  shows "\<exists>s. boot_kernel B command s0 = setup_all B (kernel_pagetable_memory B) (first_programs command) s
    \<and> boot_inv B (kernel_data_pages B) (mem s0) [] (kernel_pagetable_memory B) s"
proof -
  let ?k = "kernel_pagetable_memory B" and ?l = "kernel_level2_pagetable B" and ?K = "kernel_data_pages B"
  have ad: "kernel_address B ?k" "kernel_address B ?l" and al: "PAGEOFFSET ?k = 0" "PAGEOFFSET ?l = 0"
    using B by (simp_all add: layout_ok_def)
  note pk = kernel_address_page[OF B ad(1)] and pl = kernel_address_page[OF B ad(2)]
  have lt: "PAGENUMBER ?k * 4096 < unat (kernel_end B)" "PAGENUMBER ?l * 4096 < unat (kernel_end B)"
    using ad aligned_unat[OF al(1)] aligned_unat[OF al(2)] by (simp_all add: kernel_address_def)
  obtain m E where V: "virtual_memory_init B s0 = Some (s0\<lparr>mem := m, kernel_pagetable := ?k\<rparr>)"
    "table_is m ?k ?l E" "\<forall>i < 256. E i = PAGEADDRESS i OR 7" "agrees_on ?K (mem s0) m"
    using virtual_memory_init_ok[OF B] by blast
  define s3 where "s3 = processes_init ((pageinfo_init (kernel_end B) (s0\<lparr>mem := m, kernel_pagetable := ?k\<rparr>))\<lparr>mem := console_clear m\<rparr>)"
  have m3: "mem s3 = console_clear m" "kernel_pagetable s3 = ?k" by (simp_all add: s3_def processes_init_def pageinfo_init_def)
  have t3: "table_is (console_clear m) ?k ?l E"
    by (rule table_is_frame[OF V(2)]) (use console_clear_frame[of m] pk pl in \<open>auto simp: agree_except_def\<close>)
  obtain m4 m5 E5 where M: "map_through ?k ?k 0 0 PROC_START_ADDR 3 (console_clear m) = Some m4"
    "map_through ?k ?k 0xB8000 0xB8000 PAGESIZE 7 m4 = Some m5" "usable m5 ?k ?l E5"
    "agree_except (PAGENUMBER ?l) (console_clear m) m5"
    using kernel_mappings_ok[OF B t3 V(3)] pk pl by auto
  let ?s = "s3\<lparr>mem := m5\<rparr>"
  have run: "boot_kernel B command s0 = setup_all B ?k (first_programs command) ?s"
    unfolding boot_kernel_def V(1) using M(1,2) by (simp add: Let_def s3_def[symmetric] m3 pageinfo_init_def)
      (simp add: s3_def processes_init_def pageinfo_init_def Let_def)
  have pg: "pageinfo ?s ! j = (let ow = initial_owner (kernel_end B) (PAGEADDRESS j)
      in \<lparr>owner = ow, refcount = (if ow \<noteq> PO_FREE then 1 else 0)\<rparr>)" if "j < NPAGES" for j
    using pageinfo_init_page[OF that] by (simp add: s3_def processes_init_def)
  have own: "owner_at ?s j = initial_owner (kernel_end B) (PAGEADDRESS j)" if "j < NPAGES" for j
    using pg[OF that] by (simp add: Let_def)
  have len: "length (pageinfo ?s) = NPAGES" by (simp add: s3_def processes_init_def pageinfo_init_def)
  have "counted ?s" using pg len by (simp add: counted_def Let_def)
  moreover have h: "held ?s ?k"
    using M(3) own pk pl kernel_page_owner(1)[OF B pk(1) lt(1)] kernel_page_owner(1)[OF B pl(1) lt(2)]
    unfolding held_def by (intro exI[of _ ?l] exI[of _ E5]) simp
  moreover have "agrees_on ?K (mem s0) m5"
  proof -
    have "PAGENUMBER x \<noteq> CONSOLE_PAGE" "PAGENUMBER x \<noteq> PAGENUMBER ?l" if "PAGENUMBER x \<in> ?K" for x
      using that B by (auto simp: kernel_data_pages_def layout_ok_def word_le_nat_alt)
    then show ?thesis
      using V(4) console_clear_frame[of m] M(4) by (simp add: agrees_on_def agree_except_def)
  qed
  moreover have "j < 256 \<and> owner_at ?s j \<noteq> PO_FREE" if "j \<in> ?K" for j
  proof -
    have j: "64 \<le> j" "j * 4096 < unat (kernel_end B)"
      using that by (auto simp: kernel_data_pages_def less_eq_div_iff_mult_less_eq Suc_le_eq[symmetric])
    show ?thesis using kernel_page_owner[OF B j] own[of j] by simp
  qed
  moreover have "owner_at ?s CONSOLE_PAGE = PO_RESERVED" using own[of CONSOLE_PAGE] by (simp add: initial_owner_page)
  moreover have "owner_at ?s j = PO_FREE \<longleftrightarrow> 3 * length [] < j" if "j < 64" for j
    using own[of j] that by (simp add: initial_owner_page)
  moreover have "owner_at ?s j = PO_FREE" if "j < NPAGES" "256 \<le> j" for j
  proof -
    have "\<not> j * 4096 < unat (kernel_end B)" using that B by (auto simp: layout_ok_def word_le_nat_alt)
    then show ?thesis using own[of j] that by (simp add: initial_owner_page)
  qed
  moreover have "length (processes ?s) = NPROC" "\<forall>i < NPROC. p_pid (proc ?s i) = i \<and> p_state (proc ?s i) = P_FREE"
    by (simp_all add: s3_def processes_init_def del: upt_Suc)
  ultimately have "boot_inv B ?K (mem s0) [] ?k ?s"
    unfolding boot_inv_def using m3 by (simp add: s3_def)
  then show ?thesis using run by blast
qed

section \<open>The processes that were set up\<close>

lemma with_segment_at:
  "i \<in> set (segment_pages ph) \<Longrightarrow> with_segment ph E i = PAGEADDRESS i OR segment_perm ph"
  "i \<notin> set (segment_pages ph) \<Longrightarrow> with_segment ph E i = E i"
  by (simp_all add: with_segment_def)

lemma fold_segments:
  "fold with_segment L E i = E i
   \<or> (\<exists>ph \<in> set L. i \<in> set (segment_pages ph) \<and> fold with_segment L E i = PAGEADDRESS i OR segment_perm ph)"
proof (induction L arbitrary: E)
  case (Cons p L)
  show ?case
    using Cons.IH[of "with_segment p E"] with_segment_at[of i p E]
    by (cases "i \<in> set (segment_pages p)") auto
qed simp

lemma fold_segments_out: "i \<notin> set (all_pages L) \<Longrightarrow> fold with_segment L E i = E i"
  by (induction L arbitrary: E) (simp_all add: with_segment_at(2) all_pages_def)

lemma fold_segments_in:
  "distinct (all_pages L) \<Longrightarrow> ph \<in> set L \<Longrightarrow> i \<in> set (segment_pages ph) \<Longrightarrow>
     fold with_segment L E i = PAGEADDRESS i OR segment_perm ph"
proof (induction L arbitrary: E)
  case (Cons p L)
  show ?case
  proof (cases "ph \<in> set L")
    case False
    then have ph: "ph = p" using Cons.prems(2) by simp
    then have "i \<notin> set (all_pages L)" using Cons.prems(1,3) by (auto simp: all_pages_def)
    then show ?thesis using fold_segments_out[of i L "with_segment p E"] ph Cons.prems(3) by (simp add: with_segment_at(1))
  qed (use Cons in \<open>simp add: all_pages_def\<close>)
qed simp

lemma segment_perm_cases: "segment_perm ph = 5 \<or> segment_perm ph = 7"
  by (simp add: segment_perm_def)

lemma set_up_space:
  assumes u: "set_up B m0 s p program" and img: "image_ok K m0 (ramimages B ! program)" and p: "0 < p" "p < NPROC"
  shows "space_ok s p UNIV"
proof -
  let ?a = "3 * p - 2" and ?L = "program_segments B m0 program"
  let ?E = "process_table ?L (PAGEADDRESS (3 * p))"
  have pt: "p_pagetable (proc s p) = PAGEADDRESS ?a" using u by (simp add: set_up_def started_process_def)
  have t: "table_is (mem s) (PAGEADDRESS ?a) (PAGEADDRESS (3 * p - 1)) ?E"
    using u unfolding set_up_def usable_def by blast
  note D = table_isD[OF t]
  have own: "owner_at s j = of_nat p" if "j \<in> {?a, 3 * p - 1, 3 * p} \<union> set (all_pages ?L)" for j
    using u that unfolding set_up_def by blast
  have pn: "PAGENUMBER (p_pagetable (proc s p)) = ?a" "PAGENUMBER (l2 s p) = 3 * p - 1"
    using p unfolding pt D(2) by simp_all
  have ent: "entry_of s p i = ?E i" if "i < 1024" for i using D(3)[OF that] unfolding pt D(2) .
  have tab: "tables_ok s p" using D(1) own pn by (simp add: tables_ok_def pt)
  have user: "i = CONSOLE_PAGE \<and> PAGENUMBER (?E i) = CONSOLE_PAGE \<or> i = 767 \<and> PAGENUMBER (?E i) = 3 * p
      \<or> i \<in> set (all_pages ?L) \<and> PAGENUMBER (?E i) = i"
    if i: "i < 1024" and uw: "user_writable (?E i)" for i
  proof (cases "i = 767")
    case True
    then show ?thesis using identity_entry(2)[of "3 * p" 7 "PAGEADDRESS (3 * p)"] p by (simp add: process_table_def)
  next
    case False
    then have E: "?E i = fold with_segment ?L bare_table i" by (simp add: process_table_def)
    from fold_segments[of ?L bare_table i] show ?thesis
    proof
      assume b: "fold with_segment ?L bare_table i = bare_table i"
      have con: "i = CONSOLE_PAGE"
      proof (rule ccontr)
        assume "i \<noteq> CONSOLE_PAGE"
        then show False using uw identity_entry(3)[of i 3 "PAGEADDRESS i"] i
          by (auto simp: E b bare_table_def kernel_entry_def user_writable_def split: if_splits)
      qed
      have "?E i = PAGEADDRESS CONSOLE_PAGE OR 7"
        unfolding E b by (simp add: con bare_table_def kernel_entry_def)
      then have "PAGENUMBER (?E i) = CONSOLE_PAGE"
        using identity_entry(2)[of CONSOLE_PAGE 7 "PAGEADDRESS CONSOLE_PAGE"] by simp
      then show ?thesis using con by blast
    next
      assume "\<exists>ph \<in> set ?L. i \<in> set (segment_pages ph) \<and> fold with_segment ?L bare_table i = PAGEADDRESS i OR segment_perm ph"
      then obtain ph where ph: "ph \<in> set ?L" "i \<in> set (segment_pages ph)" "?E i = PAGEADDRESS i OR segment_perm ph"
        using E by auto
      have "PAGENUMBER (?E i) = i"
        using identity_entry(2)[of i "segment_perm ph" "PAGEADDRESS i"] i segment_perm_cases[of ph] ph(3) by auto
      then show ?thesis using ph by (auto simp: all_pages_def)
    qed
  qed
  have high: "256 \<le> i" "i < NPAGES" if "i \<in> set (all_pages ?L)" for i
    using image_pages_high[OF img that] by simp_all
  have "entries_ok s p UNIV"
    unfolding entries_ok_def
  proof (intro ballI impI, elim conjE)
    fix i assume i: "i < 1024" and uw: "user_writable (entry_of s p i)"
    from user[OF i uw[unfolded ent[OF i]]]
    show "i = CONSOLE_PAGE \<and> PAGENUMBER (entry_of s p i) = CONSOLE_PAGE \<or> 256 \<le> i \<and> i < 768
      \<and> PAGENUMBER (entry_of s p i) < NPAGES \<and> owner_at s (PAGENUMBER (entry_of s p i)) = of_nat p
      \<and> PAGENUMBER (entry_of s p i) \<noteq> PAGENUMBER (p_pagetable (proc s p))
      \<and> PAGENUMBER (entry_of s p i) \<noteq> PAGENUMBER (l2 s p)"
      unfolding ent[OF i] pn using own[of "3 * p"] own[of i] high[of i] p by auto
  qed
  moreover have "entries_distinct s p UNIV"
    unfolding entries_distinct_def
  proof (intro ballI impI, elim conjE)
    fix i j assume i: "256 \<le> i" "i < 768" and j: "256 \<le> j" "j < 768" and ne: "i \<noteq> j"
      and uw: "user_writable (entry_of s p i)" "user_writable (entry_of s p j)"
    have b: "i < 1024" "j < 1024" using i j by simp_all
    show "PAGENUMBER (entry_of s p i) \<noteq> PAGENUMBER (entry_of s p j)"
      using user[OF b(1) uw(1)[unfolded ent[OF b(1)]]] user[OF b(2) uw(2)[unfolded ent[OF b(2)]]] high[of i] high[of j] i j ne p
      unfolding ent[OF b(1)] ent[OF b(2)] by auto
  qed
  ultimately show ?thesis using tab by (simp add: space_ok_def)
qed

lemma low_lookup:
  assumes u: "usable m pt lt E" and a: "PAGENUMBER a < 256"
  shows "\<exists>v. virtual_memory_lookup pt a m = Some v \<and> vm_pa v = a"
proof -
  have E: "E (PAGENUMBER a) = kernel_entry (PAGENUMBER a)"
    using u a by (simp add: usable_def shares_kernel_def)
  have "PAGEADDRESS (PAGENUMBER a) + PAGEOFFSET a = a"
    using PTE_ADDR_plus[of a] PAGEADDRESS_PAGENUMBER[of "PTE_ADDR a"] by simp
  moreover have "vm_pa (vam_of (kernel_entry (PAGENUMBER a)) a) = PAGEADDRESS (PAGENUMBER a) + PAGEOFFSET a"
    using identity_entry(1)[of "PAGENUMBER a" 3 a] identity_entry(1)[of "PAGENUMBER a" 7 a] a
    by (auto simp: kernel_entry_def)
  ultimately show ?thesis
    using table_lookup[of m pt lt E a] u a E by (auto simp: usable_def)
qed

text \<open>The whole boot: it ends in process 1 with every selected process set up.\<close>

lemma first_programs_pids:
  "map fst (first_programs command) = [1..<Suc (length (first_programs command))]"
  "length (first_programs command) < NPROC" "0 < length (first_programs command)"
  "x \<in> set (first_programs command) \<Longrightarrow> snd x < 6"
  by (auto simp: first_programs_def upt_rec split: if_splits)

lemma kernel_boots:
  assumes B: "layout_ok B" and imgs: "images_ok B command (mem s0)"
  shows "\<exists>cr3 s. kernel B command s0 = Resume (s\<lparr>current := 1\<rparr>)
    \<and> boot_inv B (kernel_data_pages B) (mem s0) (first_programs command) cr3 s"
proof -
  let ?ps = "first_programs command" and ?K = "kernel_data_pages B"
  note F = first_programs_pids(1-3)[of command] first_programs_pids(4)[of _ command]
  obtain s1 where s1: "boot_kernel B command s0 = setup_all B (kernel_pagetable_memory B) ?ps s1"
    "boot_inv B ?K (mem s0) [] (kernel_pagetable_memory B) s1"
    using boot_start[OF B] by blast
  have "\<exists>cr3 s. setup_all B (kernel_pagetable_memory B) ?ps s1 = Some (cr3, s) \<and> boot_inv B ?K (mem s0) ([] @ ?ps) cr3 s"
    by (rule setup_all_ok[OF s1(2)]) (use F imgs B in \<open>auto simp: images_ok_def layout_ok_def simp del: upt_Suc\<close>)
  then obtain cr3 s where s: "boot_kernel B command s0 = Some (cr3, s)" "boot_inv B ?K (mem s0) ?ps cr3 s"
    using s1(1) by auto
  have one: "\<exists>program. (1, program) \<in> set ?ps" by (auto simp: first_programs_def)
  then obtain program where su: "set_up B (mem s0) s 1 program" using s(2) unfolding boot_inv_def by blast
  let ?pt = "PAGEADDRESS 1" and ?lt = "PAGEADDRESS 2"
  obtain E where u: "usable (mem s) ?pt ?lt E" using su by (auto simp: set_up_def)
  have pr: "p_pagetable (proc s 1) = ?pt" "p_state (proc s 1) = P_RUNNABLE"
    using su by (simp_all add: set_up_def started_process_def)
  obtain kl Ek where k: "usable (mem s) (kernel_pagetable s) kl Ek" using s(2) by (auto simp: boot_inv_def held_def)
  obtain lt3 E3 where c: "usable (mem s) cr3 lt3 E3" using s(2) by (auto simp: boot_inv_def held_def)
  have pn: "PAGEOFFSET ?pt = 0" "PAGENUMBER ?pt = 1" "PAGEOFFSET ?lt = 0" "PAGENUMBER ?lt = 2" by simp_all
  have l2: "PTE_ADDR (pte (mem s) ?pt 0) = ?lt" using table_isD(2)[of "mem s" ?pt ?lt E] u by (simp add: usable_def l2_of_def)
  have acc: "accessible cr3 KERNEL_READ ?pt PAGESIZE (mem s)" "accessible cr3 KERNEL_READ ?lt PAGESIZE (mem s)"
    using usable_page[OF c pn(1)] usable_page[OF c pn(3)] pn by simp_all
  have hb: "PAGENUMBER (default_int_handler (handlers B)) < 256" "PAGENUMBER (virtual_memory_map_addr (handlers B)) < 256"
    using kernel_address_page(2)[OF B, THEN less_trans[of _ 160 256]] B by (simp_all add: layout_ok_def)
  have kb: "PAGENUMBER (kernel_pagetable s) < 256" using k by (simp add: usable_def)
  have "set_pagetable (handlers B) ?pt s = Some ()"
    using low_lookup[OF u hb(1)] low_lookup[OF k, where a = ?pt] low_lookup[OF u kb] low_lookup[OF u hb(2)] pn
    by (auto simp: set_pagetable_def assert_that_def)
  then have "run (handlers B) 1 s = Resume (s\<lparr>current := 1\<rparr>)" using pr by (simp add: run_def)
  then have "kernel B command s0 = Resume (s\<lparr>current := 1\<rparr>)"
    using s(1) acc l2 pr(1) by (simp add: kernel_def)
  then show ?thesis using s(2) by blast
qed

lemma boot_inv_wf:
  assumes inv: "boot_inv B K m0 ps cr3 s" and ps: "map fst ps = [1..<Suc (length ps)]" "length ps < NPROC" "0 < length ps"
    and imgs: "\<And>x. x \<in> set ps \<Longrightarrow> image_ok K m0 (ramimages B ! snd x)"
  shows "wf_memos (s\<lparr>current := 1\<rparr>)" "live (s\<lparr>current := 1\<rparr>) p \<longleftrightarrow> p \<in> {1..length ps}"
proof -
  have fst_ps: "fst ` set ps = {1..<Suc (length ps)}" using arg_cong[OF ps(1), of set] by (simp del: upt_Suc)
  have su: "\<exists>program. (p, program) \<in> set ps \<and> set_up B m0 s p program \<and> 0 < p \<and> p < NPROC"
    if p: "p \<in> {1..length ps}" for p
  proof -
    have "p \<in> fst ` set ps" using p fst_ps by simp
    then obtain program where "(p, program) \<in> set ps" by force
    then show ?thesis using inv p ps(2) unfolding boot_inv_def by force
  qed
  have state: "p_state (proc s p) \<noteq> P_FREE \<longleftrightarrow> p \<in> {1..length ps}" if "p < NPROC" for p
  proof (cases "p \<in> {1..length ps}")
    case True
    then show ?thesis using su[OF True] by (auto simp: set_up_def started_process_def)
  next
    case False
    then have "p \<notin> fst ` set ps" using fst_ps by auto
    then show ?thesis using inv that False by (auto simp: boot_inv_def)
  qed
  show l: "live (s\<lparr>current := 1\<rparr>) p \<longleftrightarrow> p \<in> {1..length ps}" for p
    using state[of p] ps(2) by (auto simp: live_def)
  have "wf_base (s\<lparr>current := 1\<rparr>)"
    using inv state[of 0] by (auto simp: wf_base_def boot_inv_def counted_def)
  moreover have "space_ok (s\<lparr>current := 1\<rparr>) p UNIV" if pid: "p \<in> {1..length ps}" for p
  proof -
    obtain program where p: "(p, program) \<in> set ps" "set_up B m0 s p program" "0 < p" "p < NPROC"
      using su[OF pid] by blast
    have "space_ok s p UNIV" by (rule set_up_space[OF p(2) _ p(3,4)]) (use imgs[OF p(1)] in simp)
    then show ?thesis by (rule space_ok_cong) simp_all
  qed
  ultimately show "wf_memos (s\<lparr>current := 1\<rparr>)" using l by (simp add: wf_memos_def)
qed

lemma set_up_lookups:
  assumes u: "set_up B m0 s p program" and img: "image_ok K m0 (ramimages B ! program)" and p: "0 < p" "p < NPROC"
    and d: "distinct (program_pages B m0 program)" and x: "x < PAGESIZE"
  shows "ph \<in> set (program_segments B m0 program) \<Longrightarrow> i \<in> set (segment_pages ph) \<Longrightarrow>
      virtual_memory_lookup (p_pagetable (proc s p)) (PAGEADDRESS i + x) (mem s)
       = Some \<lparr>vm_pn = int i, vm_pa = PAGEADDRESS i + x, vm_perm = segment_perm ph\<rparr>"
    "virtual_memory_lookup (p_pagetable (proc s p)) (MEMSIZE_VIRTUAL - PAGESIZE + x) (mem s)
       = Some \<lparr>vm_pn = int (3 * p), vm_pa = PAGEADDRESS (3 * p) + x, vm_perm = 7\<rparr>"
proof -
  let ?L = "program_segments B m0 program"
  have t: "table_is (mem s) (p_pagetable (proc s p)) (PAGEADDRESS (3 * p - 1)) (process_table ?L (PAGEADDRESS (3 * p)))"
    using u by (simp add: set_up_def started_process_def usable_def)
  have u4: "unat x < 4096" using x by (simp add: word_less_nat_alt)
  have off: "PAGENUMBER (PAGEADDRESS j + x) = j" "PAGEOFFSET (PAGEADDRESS j + x) = x" if "j < 1024" for j
    using page_offset(1,2)[of "PAGEADDRESS j" 0 x] that x by simp_all
  have stk: "MEMSIZE_VIRTUAL - PAGESIZE = PAGEADDRESS 767" by (simp add: PAGEADDRESS_def push_bit_eq_mult)
  have al: "PAGEOFFSET (PAGEADDRESS (3 * p)) = 0" using p by simp
  note parts = entry_parts[OF al, of 7]
  have "(PAGEADDRESS (3 * p) OR 7) AND 1 = 1"
  proof -
    have "(PAGEADDRESS (3 * p) OR 7) AND 7 = 7" using identity_entry(3)[of "3 * p" 7 "PAGEADDRESS (3 * p)"] p by simp
    then show ?thesis using full_accessD(1)[of "PAGEADDRESS (3 * p) OR 7"] by (simp add: full_access_def)
  qed
  then have "vam_of (PAGEADDRESS (3 * p) OR 7) (PAGEADDRESS 767 + x)
      = \<lparr>vm_pn = int (3 * p), vm_pa = PAGEADDRESS (3 * p) + x, vm_perm = 7\<rparr>"
    using parts off(2)[of 767] p by (simp add: vam_of_def)
  then show "virtual_memory_lookup (p_pagetable (proc s p)) (MEMSIZE_VIRTUAL - PAGESIZE + x) (mem s)
       = Some \<lparr>vm_pn = int (3 * p), vm_pa = PAGEADDRESS (3 * p) + x, vm_perm = 7\<rparr>"
    unfolding stk using table_lookup[OF t, of "PAGEADDRESS 767 + x"] off[of 767] by (simp add: process_table_def)
  assume ph: "ph \<in> set ?L" and i: "i \<in> set (segment_pages ph)"
  have "i \<in> set (all_pages ?L)" using ph i by (auto simp: all_pages_def)
  then have hi: "256 \<le> i" "i < NPAGES" using image_pages_high[OF img] by simp_all
  have "process_table ?L (PAGEADDRESS (3 * p)) i = PAGEADDRESS i OR segment_perm ph"
    using fold_segments_in[OF d ph i] hi by (simp add: process_table_def)
  moreover have "vam_of (PAGEADDRESS i OR segment_perm ph) (PAGEADDRESS i + x)
      = \<lparr>vm_pn = int i, vm_pa = PAGEADDRESS i + x, vm_perm = segment_perm ph\<rparr>"
    using identity_entry(1)[of i "segment_perm ph" "PAGEADDRESS i + x"] off[of i] hi segment_perm_cases[of ph] by auto
  ultimately show "virtual_memory_lookup (p_pagetable (proc s p)) (PAGEADDRESS i + x) (mem s)
       = Some \<lparr>vm_pn = int i, vm_pa = PAGEADDRESS i + x, vm_perm = segment_perm ph\<rparr>"
    using table_lookup[OF t, of "PAGEADDRESS i + x"] off[of i] hi by simp
qed

text \<open>
  For the witnesses: a kernel whose tables are at \<open>0x50000\<close> and whose images are all one small image at
  \<open>0x52000\<close>, with a read-only segment of four bytes and four zeros.
\<close>

definition demo_layout :: boot_layout where
  "demo_layout = \<lparr>handlers = \<lparr>default_int_handler = 0x40010, virtual_memory_map_addr = 0x40020\<rparr>,
     kernel_pagetable_memory = 0x50000, kernel_level2_pagetable = 0x51000, kernel_end = 0x60000,
     ramimages = [0x52000, 0x52000, 0x52000, 0x52000, 0x52000, 0x52000]\<rparr>"

definition demo_image :: memory where
  "demo_image = (\<lambda>_. 0)(0x52000 := 0x7F, 0x52001 := 0x45, 0x52002 := 0x4C, 0x52003 := 0x46,
     0x5201A := 0x10, 0x5201C := 52, 0x5202C := 1,
     0x52034 := 1, 0x52039 := 1, 0x5203E := 0x10, 0x52044 := 4, 0x52048 := 8, 0x5204C := 5,
     0x52100 := 0xDE, 0x52101 := 0xAD, 0x52102 := 0xBE, 0x52103 := 0xEF)"

definition demo_segment :: elf_program where
  "demo_segment = \<lparr>p_type = 1, p_offset = 0x100, p_va = 0x100000, p_pa = 0, p_filesz = 4, p_memsz = 8,
     p_flags = 5, p_align = 0\<rparr>"

definition demo_start :: memos where
  "demo_start = \<lparr>mem = demo_image, pageinfo = [], processes = [], current = 0, kernel_pagetable = 0, ticks = 0,
     last_ticks = 0, showing = 1\<rparr>"

lemma demo_start_mem [simp]: "mem demo_start = demo_image"
  by (simp add: demo_start_def)

lemma demo_image_fields:
  "e_magic demo_image 0x52000 = ELF_MAGIC" "e_entry demo_image 0x52000 = 0x100000"
  "e_phoff demo_image 0x52000 = 52" "e_phnum demo_image 0x52000 = 1"
  "header_at demo_image 0x52000 0 = demo_segment"
  by (simp_all add: e_magic_def e_entry_def e_phoff_def e_phnum_def load32_def load16_def demo_image_def
      header_at_def elf_program_at_def demo_segment_def)

lemma demo_segments: "segments_from demo_image 0x52000 0 = [demo_segment]"
  by (simp add: segments_from_def demo_image_fields) (simp add: demo_segment_def)

lemma demo_bytes_in: "x + n \<le> 4096 \<Longrightarrow> bytes_in (kernel_data_pages demo_layout) (0x52000 + of_nat x) n"
proof -
  have al: "PAGEOFFSET (0x52000 :: u32) = 0" "PAGENUMBER (0x52000 :: u32) = 0x52" by (simp_all add: PAGEOFFSET_def PAGENUMBER_div)
  have "0x52 \<in> kernel_data_pages demo_layout" by (simp add: kernel_data_pages_def demo_layout_def PAGENUMBER_div)
  then show "x + n \<le> 4096 \<Longrightarrow> bytes_in (kernel_data_pages demo_layout) (0x52000 + of_nat x) n"
    using page_byte(2)[OF al(1)] al(2) by (simp add: bytes_in_def add.assoc flip: of_nat_add)
qed

lemma demo_boot_ok: "layout_ok demo_layout" "images_ok demo_layout (Some ''fork'') demo_image"
proof -
  show "layout_ok demo_layout"
    by (simp add: layout_ok_def demo_layout_def kernel_address_def PAGEOFFSET_def)
  have "segment_ok (kernel_data_pages demo_layout) 0x52000 demo_segment"
    using demo_bytes_in[of 256 4]
    by (simp add: segment_ok_def segment_fits_def demo_segment_def PAGEOFFSET_def)
  then have "image_ok (kernel_data_pages demo_layout) demo_image 0x52000"
    using demo_bytes_in[of 0 46] demo_bytes_in[of 52 32]
    by (simp add: image_ok_def demo_image_fields demo_segments)
  then show "images_ok demo_layout (Some ''fork'') demo_image"
    by (simp add: images_ok_def first_programs_def) (simp add: demo_layout_def demo_segments all_pages_def segment_pages_def)
qed

section \<open>The properties of the boot\<close>

text \<open>
  C2: With sound program images the kernel boots: it ends by running process 1, exactly the selected
  processes are alive, and the page-table invariant holds in the state it hands over and in every state
  the system reaches from there, whatever the processes do.
\<close>

theorem boot_isolates:
  assumes "layout_ok B" "images_ok B command (mem s0)"
  shows "\<exists>s. kernel B command s0 = Resume s \<and> current s = 1
    \<and> (\<forall>p. live s p \<longleftrightarrow> p \<in> {1..length (first_programs command)})
    \<and> wf_memos s \<and> (\<forall>s'. memos_reach (handlers B) s s' \<longrightarrow> wf_memos s')"
proof -
  note F = first_programs_pids(1-3)[of command]
  obtain cr3 s where s: "kernel B command s0 = Resume (s\<lparr>current := 1\<rparr>)"
    "boot_inv B (kernel_data_pages B) (mem s0) (first_programs command) cr3 s"
    using kernel_boots[OF assms] by blast
  have img: "image_ok (kernel_data_pages B) (mem s0) (ramimages B ! snd x)" if "x \<in> set (first_programs command)" for x
    using assms(2) that by (simp add: images_ok_def)
  have W: "wf_memos (s\<lparr>current := 1\<rparr>)" "live (s\<lparr>current := 1\<rparr>) p \<longleftrightarrow> p \<in> {1..length (first_programs command)}" for p
    by (rule boot_inv_wf[OF s(2) F(1-3)], erule img)+
  have "1 \<in> {1..length (first_programs command)}" using F(3) by (simp add: Suc_le_eq)
  then have "live (s\<lparr>current := 1\<rparr>) 1" by (rule W(2)[THEN iffD2])
  then have "live (s\<lparr>current := 1\<rparr>) (current (s\<lparr>current := 1\<rparr>))" by simp
  then have "wf_memos s'" if "memos_reach (handlers B) (s\<lparr>current := 1\<rparr>) s'" for s'
    using reach_wf[OF that W(1)] by blast
  then show ?thesis
    using s(1) W(1) W(2) by (intro exI[of _ "s\<lparr>current := 1\<rparr>"] conjI allI impI) simp_all
qed

theorem boot_isolates_witness:
  "\<exists>s. kernel demo_layout (Some ''fork'') demo_start = Resume s \<and> wf_memos s \<and> live s 1 \<and> \<not> live s 2"
  using boot_isolates[OF demo_boot_ok(1), of "Some ''fork''" "demo_start"] demo_boot_ok(2)
  by (auto simp: first_programs_def)

text \<open>
  C5: After the boot every selected process starts at the entry point of its image with its stack pointer
  at the top of its address space; each segment is mapped with its permissions; a segment whose address
  is page-aligned holds the bytes of the file at their addresses, any other segment, because the copy goes
  to the rounded address, at each address the byte of the file that is further on by the offset of the
  segment in its page; behind the data are zeros; and the stack page is writable.
\<close>

theorem boot_loads_programs:
  assumes "layout_ok B" "images_ok B command (mem s0)" "(p, program) \<in> set (first_programs command)"
  shows "\<exists>s. kernel B command s0 = Resume s \<and> p_state (proc s p) = P_RUNNABLE
    \<and> reg_eip (p_registers (proc s p)) = e_entry (mem s0) (ramimages B ! program)
    \<and> reg_esp (p_registers (proc s p)) = MEMSIZE_VIRTUAL \<and> reg_eflags (p_registers (proc s p)) = EFLAGS_IF
    \<and> (\<forall>ph \<in> set (program_segments B (mem s0) program).
         (PAGEOFFSET (p_va ph) = 0 \<longrightarrow> (\<forall>k < unat (p_filesz ph).
              mem s (p_va ph + of_nat k) = mem s0 (ramimages B ! program + p_offset ph + of_nat k)))
         \<and> segment_loaded ph (ramimages B ! program + p_offset ph) (mem s0) (mem s)
         \<and> (\<forall>i \<in> set (segment_pages ph). \<forall>x < PAGESIZE.
              virtual_memory_lookup (p_pagetable (proc s p)) (PAGEADDRESS i + x) (mem s)
               = Some \<lparr>vm_pn = int i, vm_pa = PAGEADDRESS i + x, vm_perm = segment_perm ph\<rparr>))
    \<and> (\<forall>x < PAGESIZE. virtual_memory_lookup (p_pagetable (proc s p)) (MEMSIZE_VIRTUAL - PAGESIZE + x) (mem s)
         = Some \<lparr>vm_pn = int (3 * p), vm_pa = PAGEADDRESS (3 * p) + x, vm_perm = 7\<rparr>)"
proof -
  obtain cr3 s where s: "kernel B command s0 = Resume (s\<lparr>current := 1\<rparr>)"
    "boot_inv B (kernel_data_pages B) (mem s0) (first_programs command) cr3 s"
    using kernel_boots[OF assms(1,2)] by blast
  have su: "set_up B (mem s0) s p program" using s(2) assms(3) unfolding boot_inv_def by blast
  have p: "0 < p" "p < NPROC" using assms(3) by (auto simp: first_programs_def split: if_splits)
  have img: "image_ok (kernel_data_pages B) (mem s0) (ramimages B ! program)"
    using assms(2,3) by (auto simp: images_ok_def)
  have d: "distinct (program_pages B (mem s0) program)"
    using assms(2,3) by (auto simp: images_ok_def distinct_concat_iff)
  note L = set_up_lookups[OF su img p d]
  have pr: "proc s p = started_process p (PAGEADDRESS (3 * p - 2)) (e_entry (mem s0) (ramimages B ! program))"
    "\<forall>ph \<in> set (program_segments B (mem s0) program). segment_loaded ph (ramimages B ! program + p_offset ph) (mem s0) (mem s)"
    using su unfolding set_up_def by blast+
  show ?thesis
    by (intro exI[of _ "s\<lparr>current := 1\<rparr>"] conjI ballI allI impI)
      (use s(1) L pr in \<open>simp_all add: started_process_def segment_loaded_def\<close>)
qed

theorem boot_loads_programs_witness:
  "\<exists>s. kernel demo_layout (Some ''fork'') demo_start = Resume s
     \<and> reg_eip (p_registers (proc s 1)) = 0x100000 \<and> mem s 0x100003 = 0xEF \<and> mem s 0x100007 = 0
     \<and> virtual_memory_lookup (p_pagetable (proc s 1)) 0x100003 (mem s) = Some \<lparr>vm_pn = 256, vm_pa = 0x100003, vm_perm = 5\<rparr>"
proof -
  let ?s0 = "demo_start"
  have img: "ramimages demo_layout ! 4 = 0x52000" by (simp add: demo_layout_def)
  have i: "images_ok demo_layout (Some ''fork'') (mem ?s0)" "(1, 4) \<in> set (first_programs (Some ''fork''))"
    using demo_boot_ok(2) by (simp_all add: first_programs_def)
  obtain s where s: "kernel demo_layout (Some ''fork'') ?s0 = Resume s"
    "reg_eip (p_registers (proc s 1)) = 0x100000"
    "segment_loaded demo_segment (0x52000 + p_offset demo_segment) demo_image (mem s)"
    "\<forall>i \<in> set (segment_pages demo_segment). \<forall>x < PAGESIZE.
       virtual_memory_lookup (p_pagetable (proc s 1)) (PAGEADDRESS i + x) (mem s)
        = Some \<lparr>vm_pn = int i, vm_pa = PAGEADDRESS i + x, vm_perm = segment_perm demo_segment\<rparr>"
    using boot_loads_programs[OF demo_boot_ok(1) i] by (auto simp: img demo_segments demo_image_fields)
  have "256 \<in> set (segment_pages demo_segment)" "PAGEADDRESS 256 = 0x100000" "segment_perm demo_segment = 5"
    by (simp_all add: segment_pages_def demo_segment_def PAGENUMBER_div PAGEADDRESS_def push_bit_eq_mult segment_perm_def)
  then have "virtual_memory_lookup (p_pagetable (proc s 1)) 0x100003 (mem s) = Some \<lparr>vm_pn = 256, vm_pa = 0x100003, vm_perm = 5\<rparr>"
    using s(4)[rule_format, of 256 3] by simp
  moreover have "mem s 0x100003 = 0xEF" "mem s 0x100007 = 0"
    using s(3) unfolding segment_loaded_def demo_segment_def
    by (auto simp: PAGEOFFSET_def demo_image_def dest: spec[of _ 3] spec[of _ 7])
  ultimately show ?thesis using s(1,2) by blast
qed

end
