(* ===== verification/Memos_Keyboard.thy ===== *)
theory Memos_Keyboard
  imports Prelude
begin

text \<open>
  The keyboard driver of MemOS (\<^verbatim>\<open>keyboard_readc\<close> and \<^verbatim>\<open>check_keyboard\<close> of \<^verbatim>\<open>k-hardware.c\<close>): a state machine
  over the bytes of the keyboard port. A byte is \<^const>\<open>None\<close> when the status register reports that there
  is none. Characters are their codes, as in \<^verbatim>\<open>keymap\<close>.
\<close>

section \<open>The tables\<close>

abbreviation "MOD_SHIFT \<equiv> 1 :: u8"
abbreviation "MOD_CONTROL \<equiv> 2 :: u8"
abbreviation "MOD_CAPSLOCK \<equiv> 8 :: u8"
abbreviation "KEY_SHIFT \<equiv> 250 :: nat"
abbreviation "KEY_CAPSLOCK \<equiv> 253 :: nat"
abbreviation "CKEY cn \<equiv> 0x80 + cn :: nat"

definition keymap :: "nat list" where
  "keymap =
    [0, 27, 128, 129, 130, 131, 132, 133, 134, 135, 136, 137, 138, 139, 8, 9,
     113, 119, 101, 114, 116, 121, 117, 105, 111, 112, 140, 141, 142, 251, 97, 115,
     100, 102, 103, 104, 106, 107, 108, 143, 144, 145, 250, 146, 122, 120, 99, 118,
     98, 110, 109, 147, 148, 149, 250, 42, 252, 32, 253, 0, 0, 0, 0, 0,
     0, 0, 0, 0, 0, 254, 255, 55, 56, 57, 45, 52, 53, 54, 43, 49,
     50, 51, 48, 46, 0, 0, 0, 0, 0, 0, 0, 0, 0, 0, 0, 0,
     0, 0, 0, 0, 0, 0, 0, 0, 0, 0, 0, 0, 0, 0, 0, 0,
     0, 0, 0, 0, 0, 0, 0, 0, 0, 0, 0, 0, 0, 0, 0, 0,
     0, 0, 0, 0, 0, 0, 0, 0, 0, 0, 0, 0, 0, 0, 0, 0,
     0, 0, 0, 0, 0, 0, 0, 0, 0, 0, 0, 0, 142, 251, 0, 0,
     0, 0, 0, 0, 0, 0, 0, 0, 0, 0, 0, 0, 0, 0, 0, 0,
     0, 0, 0, 0, 0, 47, 0, 0, 252, 0, 0, 0, 0, 0, 0, 0,
     0, 0, 0, 0, 0, 0, 0, 196, 192, 198, 0, 195, 0, 193, 0, 197,
     194, 199, 200, 201, 0, 0, 0, 0, 0, 0, 0, 0, 0, 0, 0, 0,
     0, 0, 0, 0, 0, 0, 0, 0, 0, 0, 0, 0, 0, 0, 0, 0,
     0, 0, 0, 0, 0, 0, 0, 0, 0, 0, 0, 0, 0, 0, 0, 0]"

definition complex_keymap :: "nat list list" where
  "complex_keymap =
    [[49, 33, 0, 0],
     [50, 64, 0, 0],
     [51, 35, 0, 0],
     [52, 36, 0, 0],
     [53, 37, 0, 0],
     [54, 94, 0, 30],
     [55, 38, 0, 0],
     [56, 42, 0, 0],
     [57, 40, 0, 0],
     [48, 41, 0, 0],
     [45, 95, 0, 31],
     [61, 43, 0, 0],
     [91, 123, 27, 0],
     [93, 125, 29, 0],
     [10, 10, 13, 13],
     [59, 58, 0, 0],
     [39, 34, 0, 0],
     [96, 126, 0, 0],
     [92, 124, 28, 0],
     [44, 60, 0, 0],
     [46, 62, 0, 0],
     [47, 63, 0, 0]]"

section \<open>The driver\<close>

record keyboard =
  modifiers :: u8
  last_escape :: u8

definition keyboard_readc :: "u8 option \<Rightarrow> keyboard \<Rightarrow> int \<times> keyboard" where
  "keyboard_readc input k0 =
     (case input of None \<Rightarrow> (- 1, k0)
      | Some byte \<Rightarrow>
         (let escape = last_escape k0; k = k0\<lparr>last_escape := 0\<rparr> in
          if byte = 0xE0 then (0, k\<lparr>last_escape := 0x80\<rparr>)
          else if byte AND 0x80 \<noteq> 0 then
            (let ch = keymap ! unat ((byte AND 0x7F) OR escape)
             in (0, if KEY_SHIFT \<le> ch \<and> ch < KEY_CAPSLOCK
                    then k\<lparr>modifiers := modifiers k AND NOT (push_bit (ch - KEY_SHIFT) 1)\<rparr> else k))
          else
            (let ch = keymap ! unat (byte OR escape)
             in if 97 \<le> ch \<and> ch \<le> 122 then
                  (if modifiers k AND MOD_CONTROL \<noteq> 0 then (int ch - 0x60, k)
                   else if (modifiers k AND MOD_SHIFT = 0) \<noteq> (modifiers k AND MOD_CAPSLOCK = 0) then (int ch - 0x20, k)
                   else (int ch, k))
                else if KEY_CAPSLOCK \<le> ch then (0, k\<lparr>modifiers := modifiers k XOR push_bit (ch - KEY_SHIFT) 1\<rparr>)
                else if KEY_SHIFT \<le> ch then (0, k\<lparr>modifiers := modifiers k OR push_bit (ch - KEY_SHIFT) 1\<rparr>)
                else if CKEY 0 \<le> ch \<and> ch \<le> CKEY 21 then
                  (int (complex_keymap ! (ch - CKEY 0) ! unat (modifiers k AND 3)), k)
                else if ch < 0x80 \<and> modifiers k AND MOD_CONTROL \<noteq> 0 then (0, k)
                else (int ch, k))))"

datatype key_event = Nothing | Soft_reboot string | Power_off

definition check_keyboard :: "u8 option \<Rightarrow> keyboard \<Rightarrow> key_event \<times> keyboard" where
  "check_keyboard input k0 =
     (case keyboard_readc input k0 of (c, k) \<Rightarrow>
        (if c = 97 then Soft_reboot ''allocator'' else if c = 101 then Soft_reboot ''forkexit''
         else if c = 102 then Soft_reboot ''fork''
         else if c = 3 \<or> c = 113 then Power_off else Nothing, k))"

text \<open>Reading a sequence of bytes; a reader skips the zeros, which stand for no key press.\<close>

fun read_all :: "u8 list \<Rightarrow> keyboard \<Rightarrow> int list \<times> keyboard" where
  "read_all [] k = ([], k)"
| "read_all (b # bs) k =
     (case keyboard_readc (Some b) k of (c, k1) \<Rightarrow>
       (case read_all bs k1 of (cs, k2) \<Rightarrow> (if c = 0 then cs else c # cs, k2)))"

section \<open>Typing a text\<close>

abbreviation idle :: keyboard where
  "idle \<equiv> \<lparr>modifiers = 0, last_escape = 0\<rparr>"

text \<open>The bytes of a key that is pressed and released, with the left shift key held for \<open>sh\<close>.\<close>

definition stroke :: "bool \<Rightarrow> u8 \<Rightarrow> u8 list" where
  "stroke sh code = (if sh then [0x2A] else []) @ [code, code OR 0x80] @ (if sh then [0xAA] else [])"

definition types_to :: "nat \<Rightarrow> nat \<Rightarrow> bool \<Rightarrow> bool" where
  "types_to c code sh =
     (let k = keymap ! code
      in if CKEY 0 \<le> k \<and> k \<le> CKEY 21 then complex_keymap ! (k - CKEY 0) ! of_bool sh = c
         else if 97 \<le> k \<and> k \<le> 122 then c = (if sh then k - 32 else k)
         else k = c \<and> \<not> sh)"

text \<open>The key of a character, looked for without and then with the shift key.\<close>

definition key_for :: "nat \<Rightarrow> (bool \<times> u8) option" where
  "key_for c =
     (case scan (\<lambda>i. types_to c i False) 1 57 of Some i \<Rightarrow> Some (False, of_nat i)
      | None \<Rightarrow> map_option (\<lambda>i. (True, of_nat i)) (scan (\<lambda>i. types_to c i True) 1 57))"

definition typed_keys :: "nat list \<Rightarrow> u8 list" where
  "typed_keys cs = concat (map (\<lambda>c. case key_for c of Some (sh, code) \<Rightarrow> stroke sh code | None \<Rightarrow> []) cs)"

lemma code_bytes:
  "list_all (\<lambda>i. (of_nat i :: u8) \<noteq> 0xE0 \<and> (of_nat i :: u8) AND 0x80 = 0 \<and> unat (of_nat i :: u8) = i
     \<and> (of_nat i OR 0x80 :: u8) \<noteq> 0xE0 \<and> (of_nat i OR 0x80 :: u8) AND 0x80 \<noteq> 0
     \<and> unat ((of_nat i OR 0x80 :: u8) AND 0x7F) = i) [0..<58]"
  by code_simp

lemma shift_bytes:
  "keyboard_readc (Some 0x2A) idle = (0, \<lparr>modifiers = 1, last_escape = 0\<rparr>)"
  "keyboard_readc (Some 0xAA) \<lparr>modifiers = 1, last_escape = 0\<rparr> = (0, idle)"
  by code_simp+

text \<open>Pressing and releasing a key that is not a modifier, without or with the shift bit.\<close>

lemma press_release:
  assumes i: "i < 58" and m: "m = of_bool sh" and c: "types_to c i sh" "0 < c" "c < 128"
  shows "keyboard_readc (Some (of_nat i)) \<lparr>modifiers = m, last_escape = 0\<rparr> = (int c, \<lparr>modifiers = m, last_escape = 0\<rparr>)"
    and "keyboard_readc (Some (of_nat i OR 0x80)) \<lparr>modifiers = m, last_escape = 0\<rparr> = (0, \<lparr>modifiers = m, last_escape = 0\<rparr>)"
proof -
  have b: "(of_nat i :: u8) \<noteq> 0xE0" "(of_nat i :: u8) AND 0x80 = 0" "unat (of_nat i :: u8) = i"
    "(of_nat i OR 0x80 :: u8) \<noteq> 0xE0" "(of_nat i OR 0x80 :: u8) AND 0x80 \<noteq> 0"
    "unat ((of_nat i OR 0x80 :: u8) AND 0x7F) = i"
    using code_bytes i by (auto simp: list_all_iff)
  have bits: "(of_bool sh :: u8) AND 2 = 0" "((of_bool sh :: u8) AND 1 = 0) = (\<not> sh)" "(of_bool sh :: u8) AND 8 = 0"
    "unat ((of_bool sh :: u8) AND 3) = of_bool sh"
    by (cases sh; simp)+
  show "keyboard_readc (Some (of_nat i)) \<lparr>modifiers = m, last_escape = 0\<rparr> = (int c, \<lparr>modifiers = m, last_escape = 0\<rparr>)"
    using c b bits by (auto simp: keyboard_readc_def types_to_def Let_def m of_nat_diff split: if_splits)
  show "keyboard_readc (Some (of_nat i OR 0x80)) \<lparr>modifiers = m, last_escape = 0\<rparr> = (0, \<lparr>modifiers = m, last_escape = 0\<rparr>)"
    using c b by (auto simp: keyboard_readc_def types_to_def Let_def split: if_splits)
qed

lemma stroke_reads:
  assumes "i < 58" "types_to c i sh" "0 < c" "c < 128"
  shows "read_all (stroke sh (of_nat i)) idle = ([int c], idle)"
proof (cases sh)
  case True
  then show ?thesis using press_release[OF assms(1) refl assms(2-4)] assms(3) shift_bytes by (simp add: stroke_def)
next
  case False
  then show ?thesis using press_release[OF assms(1) refl assms(2-4)] assms(3) by (simp add: stroke_def)
qed

text \<open>Every printable character has a key.\<close>

lemma some_keys:
  "list_all2 (\<lambda>c (i, sh). types_to c i sh \<and> 1 \<le> i \<and> i < 58) (10 # [32..<127])
    [(28, False), (57, False), (2, True), (40, True), (4, True), (5, True), (6, True), (8, True), (40, False), (10, True), (11, True), (55, False),
     (13, True), (51, False), (12, False), (52, False), (53, False), (11, False), (2, False), (3, False), (4, False), (5, False), (6, False), (7, False),
     (8, False), (9, False), (10, False), (39, True), (39, False), (51, True), (13, False), (52, True), (53, True), (3, True), (30, True), (48, True),
     (46, True), (32, True), (18, True), (33, True), (34, True), (35, True), (23, True), (36, True), (37, True), (38, True), (50, True), (49, True),
     (24, True), (25, True), (16, True), (19, True), (31, True), (20, True), (22, True), (47, True), (17, True), (45, True), (21, True), (44, True),
     (26, False), (43, False), (27, False), (7, True), (12, True), (41, False), (30, False), (48, False), (46, False), (32, False), (18, False), (33, False),
     (34, False), (35, False), (23, False), (36, False), (37, False), (38, False), (50, False), (49, False), (24, False), (25, False), (16, False), (19, False),
     (31, False), (20, False), (22, False), (47, False), (17, False), (45, False), (21, False), (44, False), (26, True), (43, True), (27, True), (41, True)]"
  by code_simp

lemma list_all2_ex: "list_all2 P xs ys \<Longrightarrow> x \<in> set xs \<Longrightarrow> \<exists>y. P x y"
  by (induction rule: list_all2_induct) auto

lemma key_for_reads:
  assumes "c = 10 \<or> 32 \<le> c \<and> c < 127"
  shows "\<exists>sh code. key_for c = Some (sh, code) \<and> read_all (stroke sh code) idle = ([int c], idle)"
proof -
  have "c \<in> set (10 # [32..<127])"
    using assms by (simp only: list.set(2) set_upt insert_iff atLeastLessThan_iff)
  from list_all2_ex[OF some_keys this] obtain i sh where i: "types_to c i sh" "1 \<le> i" "i < 58" by auto
  have c: "0 < c" "c < 128" using assms by auto
  show ?thesis
  proof (cases "scan (\<lambda>i. types_to c i False) 1 57")
    case (Some j)
    note j = scan_SomeD(2,3)[OF Some]
    then have "key_for c = Some (False, of_nat j)" using Some by (simp add: key_for_def)
    then show ?thesis using stroke_reads[of j c False] j c by auto
  next
    case None
    then have "\<not> types_to c i False" using i by (auto simp: scan_None_iff)
    then have "types_to c i True" using i(1) by (cases sh) auto
    then have "scan (\<lambda>i. types_to c i True) 1 57 \<noteq> None" using i by (auto simp: scan_None_iff)
    then obtain j where s: "scan (\<lambda>i. types_to c i True) 1 57 = Some j" by auto
    note j = scan_SomeD(2,3)[OF s]
    then have "key_for c = Some (True, of_nat j)" using None s by (simp add: key_for_def)
    then show ?thesis using stroke_reads[of j c True] j c by auto
  qed
qed

lemma read_all_append:
  "read_all (as @ bs) k = (case read_all as k of (cs, k1) \<Rightarrow> case read_all bs k1 of (ds, k2) \<Rightarrow> (cs @ ds, k2))"
  by (induction as arbitrary: k) (auto split: prod.splits)

text \<open>Every text of printable characters and newlines can be typed, and is read back.\<close>

lemma typed_text_read_back:
  assumes "\<forall>c \<in> set cs. c = 10 \<or> 32 \<le> c \<and> c < 127"
  shows "read_all (typed_keys cs) idle = (map int cs, idle)"
  using assms
proof (induction cs)
  case (Cons c cs)
  from key_for_reads[of c] Cons show ?case by (auto simp: typed_keys_def read_all_append)
qed (simp add: typed_keys_def)

text \<open>Both shift keys share a bit: releasing one of them ends the shift of the other.\<close>

lemma second_shift_lost: "fst (read_all [0x2A, 0x36, 0xAA, 0x1E] idle) = [97]"
  by code_simp

end
