(* ===== verification/Miniproc_Loader.thy ===== *)
theory Miniproc_Loader
  imports Memos_Boot
begin

text \<open>
  The program loader of MiniprocOS (\<^verbatim>\<open>OS/WeensyOS/MiniprocOS/k-loader.c\<close>). The ELF structures are those of
  MemOS; there is no virtual memory, so every access is to the flat memory. The images are given by the
  addresses of their first bytes, and \<^const>\<open>None\<close> is \<^verbatim>\<open>loader_panic\<close>, which never returns.
\<close>

section \<open>The loader\<close>

lemma unat_suc_below: "(a :: u32) < b \<Longrightarrow> unat (a + 1) = Suc (unat a)"
proof -
  assume "a < b"
  moreover from this have "a \<noteq> - 1" using word_n1_ge[of b] by auto
  ultimately have "1 + a \<noteq> 0" by (metis add.commute add_eq_0_iff)
  then show ?thesis using unatSuc[of a] by (simp add: add.commute)
qed

text \<open>\<^verbatim>\<open>while (end_va < memsz) *((uint8_t * ) end_va++) = 0;\<close>\<close>

function clear_bss :: "u32 \<Rightarrow> u32 \<Rightarrow> memory \<Rightarrow> memory" where
  "clear_bss end_va memsz m = (if end_va < memsz then clear_bss (end_va + 1) memsz (m(end_va := 0)) else m)"
  by pat_completeness auto
termination
proof (relation "measure (\<lambda>(end_va, memsz, m). unat memsz - unat end_va)", goal_cases)
  case (2 end_va memsz m)
  then show ?case using unat_suc_below[of end_va memsz] by (simp add: word_less_nat_alt del: unat_1)
qed simp

declare clear_bss.simps [simp del]

definition copyseg :: "u32 \<Rightarrow> u32 \<Rightarrow> u32 \<Rightarrow> u32 \<Rightarrow> memory \<Rightarrow> memory" where
  "copyseg dst src filesz memsz0 m =
     (let end_va = dst + filesz; memsz = memsz0 + dst; va = dst AND NOT (PAGESIZE - 1)
      in clear_bss end_va memsz (memcpy m va src (end_va - va)))"

text \<open>\<open>n\<close> headers are left; they are read from memory as they are in each round.\<close>

fun load_segments :: "u32 \<Rightarrow> u32 \<Rightarrow> nat \<Rightarrow> memory \<Rightarrow> memory" where
  "load_segments elf_header ph 0 m = m"
| "load_segments elf_header ph (Suc n) m =
     (let p = elf_program_at m ph;
          m' = (if p_type p = ELF_PTYPE_LOAD then copyseg (p_va p) (elf_header + p_offset p) (p_filesz p) (p_memsz p) m
                else m)
      in load_segments elf_header (ph + 32) n m')"

text \<open>\<^verbatim>\<open>ph < eph\<close> is false from the start if the table of headers reaches the end of the address space.\<close>

definition miniproc_program_loader :: "u32 list \<Rightarrow> i32 \<Rightarrow> memory \<Rightarrow> (u32 \<times> memory) option" where
  "miniproc_program_loader images program_id m =
     (if program_id <s 0 \<or> of_nat (length images) \<le>s program_id then None
      else let elf_header = images ! unat program_id in
        if e_magic m elf_header \<noteq> ELF_MAGIC then None
        else let ph = elf_header + e_phoff m elf_header; eph = ph + 32 * of_nat (e_phnum m elf_header);
                 m' = load_segments elf_header ph (if ph < eph then e_phnum m elf_header else 0) m
             in Some (e_entry m' elf_header, m'))"

section \<open>One segment\<close>

lemma clear_bss_apply:
  "clear_bss a b m x = (if a \<le> x \<and> x < b then 0 else m x)"
proof (induction a b m rule: clear_bss.induct)
  case (1 a b m)
  show ?case
  proof (cases "a < b")
    case True
    show ?thesis using 1 True unat_suc_below[OF True]
      by (subst clear_bss.simps) (auto simp: word_le_nat_alt word_less_nat_alt Suc_le_eq fun_upd_def word_unat_eq_iff)
  next
    case False
    then show ?thesis by (subst clear_bss.simps) auto
  qed
qed

text \<open>
  The data go to the rounded address, from the unrounded start of the source: a segment that does not
  begin at a page boundary is placed too low, by its offset in the page.
\<close>

lemma copyseg_apply:
  assumes "va = dst AND NOT (PAGESIZE - 1)" "n = unat (dst + filesz - va)" "n \<le> unat (va - src)"
  shows "copyseg dst src filesz memsz m a =
    (if dst + filesz \<le> a \<and> a < memsz + dst then 0 else if unat (a - va) < n then m (src + (a - va)) else m a)"
proof -
  have "n \<le> 2 ^ LENGTH(32)" using assms(2) unat_u32_less[of "dst + filesz - va"] by simp
  then show ?thesis
    using assms by (simp add: copyseg_def Let_def clear_bss_apply memcpy_def memcpy_loop_eq)
qed

lemma first_byte_misplaced:
  assumes "dst AND NOT (PAGESIZE - 1) = va" "unat (dst + filesz - va) \<le> unat (va - src)"
    and "unat (dst - va) < unat (dst + filesz - va)" "dst < dst + filesz"
  shows "copyseg dst src filesz memsz m dst = m (src + (dst - va))"
  using copyseg_apply[of va dst _ filesz src memsz m dst] assms(1-3) assms(4)[unfolded not_le[symmetric]] by (simp only: simp_thms if_False if_True refl)

lemma first_byte_misplaced_here: "copyseg 0x100010 0x5000 4 8 m 0x100010 = m 0x5010"
  by (subst first_byte_misplaced[where va = "0x100000"]) simp_all

end
