(* ===== verification/Macro_Numbers.thy ===== *)
theory Macro_Numbers
  imports Prelude "HOL-Library.Monad_Syntax"
begin

text \<open>
  Arithmetic of the preprocessor (\<^verbatim>\<open>C/NumberSystemMacro.c\<close>). A macro name pasted together with a number is a
  row of a table; \<^const>\<open>None\<close> stands for a name without a definition, which is left in the text. Arguments are
  expanded before they are substituted, except where they are pasted.
\<close>

definition table_row :: "nat list \<Rightarrow> nat \<Rightarrow> nat option" where
  "table_row t n = (if n < length t then Some (t ! n) else None)"

definition CY_BOOL :: "nat \<Rightarrow> nat option" where
  "CY_BOOL c = table_row [0, 1, 1, 1, 1, 1, 1, 1] c"

definition CY_INC :: "nat \<Rightarrow> nat option" where
  "CY_INC n = table_row [1, 2, 3, 4, 5, 6, 7] n"

definition CY_DEC :: "nat \<Rightarrow> nat option" where
  "CY_DEC n = table_row [0, 0, 1, 2, 3, 4, 5] n"

text \<open>\<^verbatim>\<open>CY_IF0\<close> and \<^verbatim>\<open>CY_IF1\<close>.\<close>

definition CY_IF :: "nat \<Rightarrow> 'a \<Rightarrow> 'a \<Rightarrow> 'a option" where
  "CY_IF c x y = (if c = 0 then Some y else if c = 1 then Some x else None)"

definition CY_IF_C_X_Y :: "nat \<Rightarrow> 'a \<Rightarrow> 'a \<Rightarrow> 'a option" where
  "CY_IF_C_X_Y c x y = do { b \<leftarrow> CY_BOOL c; CY_IF b x y }"

text \<open>\<^verbatim>\<open>CY_ADDn(m, n)\<close> for \<open>n\<close> from 0 to 4: each hands over to the one before with \<open>m\<close> increased.\<close>

fun CY_ADD_n :: "nat \<Rightarrow> nat \<Rightarrow> nat option" where
  "CY_ADD_n 0 m = Some m"
| "CY_ADD_n (Suc n) m = (if n < 4 then do { m' \<leftarrow> CY_INC m; CY_ADD_n n m' } else None)"

definition CY_ADD :: "nat \<Rightarrow> nat \<Rightarrow> nat option" where
  "CY_ADD m n = do { m' \<leftarrow> CY_INC m; n' \<leftarrow> CY_DEC n; CY_ADD_n n' m' }"

lemma CY_IF_spec: "c \<le> 7 \<Longrightarrow> CY_IF_C_X_Y c x y = Some (if c \<noteq> 0 then x else y)"
  by (auto simp: CY_IF_C_X_Y_def CY_BOOL_def CY_IF_def table_row_def less_Suc_eq_le le_Suc_eq numeral_eq_Suc)

lemma CY_INC_eq: "CY_INC n = (if n \<le> 6 then Some (n + 1) else None)"
  by (auto simp: CY_INC_def table_row_def le_Suc_eq numeral_eq_Suc)

lemma CY_DEC_eq: "CY_DEC n = (if n \<le> 6 then Some (n - 1) else None)"
  by (auto simp: CY_DEC_def table_row_def le_Suc_eq numeral_eq_Suc)

lemma CY_ADD_n_eq: "m \<le> 7 \<Longrightarrow> CY_ADD_n n m = (if n \<le> 4 \<and> m + n \<le> 7 then Some (m + n) else None)"
  by (induction n arbitrary: m) (auto simp: CY_INC_eq)

text \<open>
  The sum is right from 1 on, as long as it is at most 7 and the second number at most 5; adding 0 adds 1,
  because 0 decreased is 0 again.
\<close>

lemma CY_ADD_spec:
  assumes "m \<le> 6" "n \<le> 6"
  shows "CY_ADD m n = (if n = 0 then Some (m + 1) else if n \<le> 5 \<and> m + n \<le> 7 then Some (m + n) else None)"
  using assms by (auto simp: CY_ADD_def CY_INC_eq CY_DEC_eq CY_ADD_n_eq)

lemma printed_sum: "CY_ADD 3 2 = Some 5"
  by (simp add: CY_ADD_spec)

end
