(* ===== verification/C_Strings.thy ===== *)
theory C_Strings
  imports Prelude
begin

text \<open>
  The pieces of the C library the user-level programs use on strings. A C string is a
  HOL string without the terminating NUL; a pointer into it is the suffix it points to.
\<close>

section \<open>printf of integers\<close>

definition digit :: "nat \<Rightarrow> char" where "digit n = char_of (48 + n)"

fun dec_nat :: "nat \<Rightarrow> string" where
  "dec_nat n = (if n < 10 then [digit n] else dec_nat (n div 10) @ [digit (n mod 10)])"

declare dec_nat.simps [simp del]

text \<open>\<^verbatim>\<open>%d\<close>.\<close>

definition dec :: "int \<Rightarrow> string" where
  "dec i = (if i < 0 then ''-'' @ dec_nat (nat (- i)) else dec_nat (nat i))"

section \<open>atoi\<close>

definition is_digit :: "char \<Rightarrow> bool" where
  "is_digit c \<longleftrightarrow> 48 \<le> (of_char c :: nat) \<and> (of_char c :: nat) \<le> 57"

definition is_space :: "char \<Rightarrow> bool" where
  "is_space c \<longleftrightarrow> c = CHR '' '' \<or> (9 \<le> (of_char c :: nat) \<and> (of_char c :: nat) \<le> 13)"

definition digits_val :: "string \<Rightarrow> int" where
  "digits_val ds = foldl (\<lambda>n c. 10 * n + (int (of_char c) - 48)) 0 ds"

text \<open>
  \<^verbatim>\<open>atoi\<close> skips blanks, takes an optional sign and the longest run of digits. The standard
  leaves a value outside \<^verbatim>\<open>int\<close> undefined; the model returns the mathematical value.
\<close>

definition atoi :: "string \<Rightarrow> int" where
  "atoi s = (let t = dropWhile is_space s in
     case t of [] \<Rightarrow> 0
     | c # u \<Rightarrow> if c = CHR ''-'' then - digits_val (takeWhile is_digit u)
                else if c = CHR ''+'' then digits_val (takeWhile is_digit u)
                else digits_val (takeWhile is_digit t))"

lemma of_char_digit: "n < 10 \<Longrightarrow> of_char (digit n) = 48 + n"
  by (simp add: digit_def)

lemma is_digit_digit [simp]: "n < 10 \<Longrightarrow> is_digit (digit n)"
  by (simp add: is_digit_def of_char_digit)

lemma digits_val_snoc [simp]:
  "digits_val (ds @ [c]) = 10 * digits_val ds + (int (of_char c) - 48)"
  by (simp add: digits_val_def)

lemma dec_nat_digits: "list_all is_digit (dec_nat n)"
  by (induction n rule: dec_nat.induct) (subst dec_nat.simps, simp)

lemma dec_nat_val: "digits_val (dec_nat n) = int n"
proof (induction n rule: dec_nat.induct)
  case (1 n)
  show ?case
  proof (cases "n < 10")
    case True
    then show ?thesis by (subst dec_nat.simps) (simp add: digits_val_def of_char_digit)
  next
    case False
    have "int n = int (10 * (n div 10) + n mod 10)" by simp
    then have "10 * int (n div 10) + int (n mod 10) = int n" by linarith
    then show ?thesis using 1 False by (subst dec_nat.simps) (simp add: of_char_digit)
  qed
qed

lemma dec_nat_not_Nil [simp]: "dec_nat n \<noteq> []"
  by (subst dec_nat.simps) simp

lemma is_digit_facts: "is_digit c \<Longrightarrow> \<not> is_space c \<and> c \<noteq> CHR ''-'' \<and> c \<noteq> CHR ''+''"
  by (auto simp: is_digit_def is_space_def)

lemma takeWhile_digits: "list_all is_digit ds \<Longrightarrow> takeWhile is_digit ds = ds"
  by (simp add: list_all_iff takeWhile_eq_all_conv)

text \<open>Reading back what \<^verbatim>\<open>%d\<close> printed.\<close>

lemma atoi_dec_nat: "atoi (dec_nat n) = int n"
proof -
  obtain c u where cu: "dec_nat n = c # u" by (cases "dec_nat n") auto
  have d: "list_all is_digit (c # u)" using dec_nat_digits[of n] by (simp add: cu)
  then have "takeWhile is_digit (c # u) = c # u" by (rule takeWhile_digits)
  moreover have "dropWhile is_space (c # u) = c # u" using d by (simp add: is_digit_facts)
  ultimately show ?thesis
    using d dec_nat_val[of n] is_digit_facts[of c] by (simp add: atoi_def cu takeWhile_digits)
qed

lemma atoi_dec: "atoi (dec i) = i"
proof (cases "i < 0")
  case True
  then show ?thesis
    by (simp add: dec_def atoi_def is_space_def dec_nat_val takeWhile_digits[OF dec_nat_digits])
next
  case False
  then show ?thesis by (simp add: dec_def atoi_dec_nat)
qed

section \<open>sscanf and fscanf of words\<close>

text \<open>\<^verbatim>\<open>%s\<close>: the next word, or \<open>None\<close> at the end of the input.\<close>

definition scan_word :: "string \<Rightarrow> (string \<times> string) option" where
  "scan_word s = (let t = dropWhile is_space s in
     if t = [] then None
     else Some (takeWhile (\<lambda>c. \<not> is_space c) t, dropWhile (\<lambda>c. \<not> is_space c) t))"

end
