(* ===== verification/Kernel_Printf.thy ===== *)
theory Kernel_Printf
  imports C_Strings Kernel_Lib
begin

text \<open>
  Formatted output in the two WeensyOS kernels (\<^verbatim>\<open>OS/WeensyOS/MemOS/lib.c\<close> and
  \<^verbatim>\<open>OS/WeensyOS/MiniprocOS/lib.c\<close>). The loop over the format, the flags, the width and the precision
  are the same code in both; the conversion of one field differs and is the parameter \<open>field\<close> of the
  loop. \<open>putc\<close> is the callback that prints one character. The arguments are a list of what the caller
  passed; taking one of the wrong kind, or one too many, is undefined in C and \<^const>\<open>None\<close> here.
\<close>

section \<open>The parts of a conversion\<close>

datatype arg = Arg_int u32 | Arg_str string

abbreviation "FLAG_ALT \<equiv> 1 :: u32"
abbreviation "FLAG_ZERO \<equiv> 2 :: u32"
abbreviation "FLAG_LEFTJUSTIFY \<equiv> 4 :: u32"
abbreviation "FLAG_SPACEPOSITIVE \<equiv> 8 :: u32"
abbreviation "FLAG_PLUSPOSITIVE \<equiv> 16 :: u32"
abbreviation "FLAG_NUMERIC \<equiv> 32 :: u32"
abbreviation "FLAG_SIGNED \<equiv> 64 :: u32"
abbreviation "FLAG_NEGATIVE \<equiv> 128 :: u32"
abbreviation "FLAG_ALT2 \<equiv> 256 :: u32"

text \<open>The flag characters, in the order of \<^verbatim>\<open>flag_chars\<close>.\<close>

definition flag_index :: "char \<Rightarrow> nat option" where
  "flag_index c = scan (\<lambda>i. ''#0- +'' ! i = c) 0 5"

fun parse_flags :: "u32 \<Rightarrow> string \<Rightarrow> u32 \<times> string" where
  "parse_flags flags [] = (flags, [])"
| "parse_flags flags (c # f) = (case flag_index c of
     Some i \<Rightarrow> parse_flags (flags OR push_bit i 1) f
   | None \<Rightarrow> (flags, c # f))"

text \<open>A number that does not fit in an \<^verbatim>\<open>int\<close> is undefined in C; the word wraps.\<close>

fun parse_number :: "i32 \<Rightarrow> string \<Rightarrow> i32 \<times> string" where
  "parse_number n [] = (n, [])"
| "parse_number n (c # f) = (if is_digit c then parse_number (10 * n + of_nat (of_char c) - 48) f else (n, c # f))"

fun next_int :: "arg list \<Rightarrow> (u32 \<times> arg list) option" where
  "next_int (Arg_int x # args) = Some (x, args)"
| "next_int _ = None"

fun next_str :: "arg list \<Rightarrow> (string \<times> arg list) option" where
  "next_str (Arg_str s # args) = Some (s, args)"
| "next_str _ = None"

fun parse_width :: "string \<Rightarrow> arg list \<Rightarrow> (i32 \<times> string \<times> arg list) option" where
  "parse_width [] args = Some (- 1, [], args)"
| "parse_width (c # f) args =
     (if is_digit c \<and> c \<noteq> CHR ''0'' then (let (n, f') = parse_number 0 (c # f) in Some (n, f', args))
      else if c = CHR ''*'' then map_option (\<lambda>(n, args'). (n, f, args')) (next_int args)
      else Some (- 1, c # f, args))"

fun precision_value :: "string \<Rightarrow> arg list \<Rightarrow> (i32 \<times> string \<times> arg list) option" where
  "precision_value [] args = Some (- 1, [], args)"
| "precision_value (c # f) args =
     (if is_digit c then (let (n, f') = parse_number 0 (c # f) in Some (n, f', args))
      else if c = CHR ''*'' then map_option (\<lambda>(n, args'). (n, f, args')) (next_int args)
      else Some (- 1, c # f, args))"

fun parse_precision :: "string \<Rightarrow> arg list \<Rightarrow> (i32 \<times> string \<times> arg list) option" where
  "parse_precision [] args = Some (- 1, [], args)"
| "parse_precision (c # f) args =
     (if c = CHR ''.''
      then map_option (\<lambda>(n, rest). (if n <s 0 then 0 else n, rest)) (precision_value f args)
      else Some (- 1, c # f, args))"

lemma parse_flags_length: "parse_flags flags f = (fl, f') \<Longrightarrow> length f' \<le> length f"
  by (induction flags f rule: parse_flags.induct) (auto split: option.splits)

lemma parse_number_length: "parse_number n f = (k, f') \<Longrightarrow> length f' \<le> length f"
  by (induction n f rule: parse_number.induct) (auto split: if_splits)

lemma parse_width_length: "parse_width f args = Some (w, f', args') \<Longrightarrow> length f' \<le> length f"
  by (cases f) (auto split: if_splits prod.splits dest!: parse_number_length simp del: parse_number.simps)

lemma parse_precision_length: "parse_precision f args = Some (p, f', args') \<Longrightarrow> length f' \<le> length f"
proof -
  have "precision_value f args = Some (p, f', args') \<Longrightarrow> length f' \<le> length f" for f p f' and args args' :: "arg list"
    by (cases f) (auto split: if_splits prod.splits dest!: parse_number_length simp del: parse_number.simps)
  then show "parse_precision f args = Some (p, f', args') \<Longrightarrow> length f' \<le> length f"
    by (cases f) (fastforce split: if_splits)+
qed

section \<open>The loop over the format\<close>

text \<open>
  \<open>field flags width precision color f args\<close> converts one field; \<open>f\<close> starts with the conversion character,
  or is empty when the format ends there. It returns the text, the color from then on and the
  arguments left.
\<close>

type_synonym field = "u32 \<Rightarrow> i32 \<Rightarrow> i32 \<Rightarrow> i32 \<Rightarrow> string \<Rightarrow> arg list \<Rightarrow> (string \<times> i32 \<times> arg list) option"

function vprintf_loop :: "field \<Rightarrow> (char \<Rightarrow> i32 \<Rightarrow> 's \<Rightarrow> 's) \<Rightarrow> i32 \<Rightarrow> string \<Rightarrow> arg list \<Rightarrow> 's \<Rightarrow> 's option" where
  "vprintf_loop field putc color [] args s = Some s"
| "vprintf_loop field putc color (c # f) args s =
     (if c \<noteq> CHR ''%'' then vprintf_loop field putc color f args (putc c color s)
      else case parse_flags 0 f of (flags, f1) \<Rightarrow>
        (case parse_width f1 args of None \<Rightarrow> None | Some (width, f2, args2) \<Rightarrow>
        (case parse_precision f2 args2 of None \<Rightarrow> None | Some (precision, f3, args3) \<Rightarrow>
        (case field flags width precision color f3 args3 of None \<Rightarrow> None | Some (out, color', args4) \<Rightarrow>
           vprintf_loop field putc color' (tl f3) args4 (fold (\<lambda>x. putc x color) out s)))))"
  by pat_completeness auto
termination
  by (relation "measure (\<lambda>(field, putc, color, f, args, s). length f)")
    (auto dest!: parse_flags_length[OF sym] parse_width_length parse_precision_length)

declare vprintf_loop.simps(2) [simp del]

section \<open>Numbers\<close>

definition upper_digits :: string where "upper_digits = ''0123456789ABCDEF''"
definition lower_digits :: string where "lower_digits = ''0123456789abcdef''"

text \<open>
  The loop divides until nothing is left, for a base of at least 2; the kernels use 10 and 16. \<open>acc\<close> is
  the text from \<^verbatim>\<open>numbuf_end\<close> on.
\<close>

function digits_loop :: "string \<Rightarrow> nat \<Rightarrow> u32 \<Rightarrow> string \<Rightarrow> string" where
  "digits_loop digits base val acc =
     (let acc' = digits ! (unat val mod base) # acc; val' = val div of_nat base
      in if 2 \<le> base \<and> base \<le> 16 \<and> val' \<noteq> 0 then digits_loop digits base val' acc' else acc')"
  by pat_completeness auto
termination
proof (relation "measure (\<lambda>(digits, base, val, acc). unat val)")
  fix digits acc acc' :: string and base and val val' :: u32
  assume "val' = val div of_nat base" and b: "2 \<le> base \<and> base \<le> 16 \<and> val' \<noteq> 0"
  then have v: "unat val' = unat val div base" by (simp add: unat_div unat_of_nat)
  have "unat val' \<noteq> 0" using b by (simp add: unat_eq_zero)
  then have "0 < unat val" using v by (cases "unat val") auto
  then have "unat val' < unat val" using b by (simp add: v)
  then show "((digits, base, val', acc'), (digits, base, val, acc)) \<in> measure (\<lambda>(digits, base, val, acc). unat val)"
    by simp
qed simp

declare digits_loop.simps [simp del]

section \<open>printer_vprintf of MemOS\<close>

definition fill_numbuf :: "u32 \<Rightarrow> int \<Rightarrow> string" where
  "fill_numbuf val base =
     (if base < 0 then digits_loop lower_digits (nat (- base)) val [] else digits_loop upper_digits (nat base) val [])"

record conversion =
  cv_flags :: u32
  cv_base :: int
  cv_num :: u32
  cv_data :: string
  cv_color :: "i32 option"
  cv_args :: "arg list"

text \<open>\<^verbatim>\<open>numbuf[0] = x; numbuf[1] = 0\<close>: a string of one character, or of none for the NUL.\<close>

definition char_data :: "u32 \<Rightarrow> string" where
  "char_data x = (if take_bit 8 x = 0 then [] else [char_of (unat x)])"

definition conversion_of :: "u32 \<Rightarrow> string \<Rightarrow> arg list \<Rightarrow> conversion option" where
  "conversion_of flags f args =
     (let cv = \<lparr>cv_flags = flags, cv_base = 10, cv_num = 0, cv_data = [], cv_color = None, cv_args = args\<rparr>;
          unsigned = (\<lambda>base fl. map_option (\<lambda>(x, args').
             cv\<lparr>cv_flags := flags OR fl, cv_base := base, cv_num := x, cv_args := args'\<rparr>) (next_int args))
      in case f of
        [] \<Rightarrow> Some (cv\<lparr>cv_data := ''%''\<rparr>)
      | c # _ \<Rightarrow>
         (if c = CHR ''d'' then map_option (\<lambda>(x, args').
            (let negative = (if x <s 0 then FLAG_NEGATIVE else 0)
             in cv\<lparr>cv_flags := flags OR FLAG_NUMERIC OR FLAG_SIGNED OR negative,
                  cv_num := (if negative \<noteq> 0 then - x else x), cv_args := args'\<rparr>)) (next_int args)
          else if c = CHR ''u'' then unsigned 10 FLAG_NUMERIC
          else if c = CHR ''x'' then unsigned (- 16) FLAG_NUMERIC
          else if c = CHR ''X'' then unsigned 16 FLAG_NUMERIC
          else if c = CHR ''p'' then unsigned (- 16) (FLAG_ALT OR FLAG_ALT2 OR FLAG_NUMERIC)
          else if c = CHR ''s'' then map_option (\<lambda>(s, args'). cv\<lparr>cv_data := s, cv_args := args'\<rparr>) (next_str args)
          else if c = CHR ''C'' then map_option (\<lambda>(x, args'). cv\<lparr>cv_color := Some x, cv_args := args'\<rparr>) (next_int args)
          else if c = CHR ''c'' then map_option (\<lambda>(x, args'). cv\<lparr>cv_data := char_data x, cv_args := args'\<rparr>) (next_int args)
          else Some (cv\<lparr>cv_data := [c]\<rparr>)))"

definition prefix_of :: "u32 \<Rightarrow> int \<Rightarrow> u32 \<Rightarrow> string" where
  "prefix_of flags base num =
     (if flags AND FLAG_NUMERIC \<noteq> 0 \<and> flags AND FLAG_SIGNED \<noteq> 0
      then (if flags AND FLAG_NEGATIVE \<noteq> 0 then ''-''
            else if flags AND FLAG_PLUSPOSITIVE \<noteq> 0 then ''+''
            else if flags AND FLAG_SPACEPOSITIVE \<noteq> 0 then '' '' else [])
      else if flags AND FLAG_NUMERIC \<noteq> 0 \<and> flags AND FLAG_ALT \<noteq> 0 \<and> (base = 16 \<or> base = - 16)
              \<and> (num \<noteq> 0 \<or> flags AND FLAG_ALT2 \<noteq> 0)
      then (if base = - 16 then ''0x'' else ''0X'') else [])"

text \<open>How often a loop \<^verbatim>\<open>for (; n > 0; --n)\<close> runs.\<close>

definition times :: "i32 \<Rightarrow> nat" where
  "times n = nat (sint n)"

text \<open>
  The text of a field: blanks unless left-justified, prefix, zeros, data, and the blanks that are left.
  The first loop leaves \<open>width\<close> at most 0 when it runs.
\<close>

definition lay_out :: "bool \<Rightarrow> i32 \<Rightarrow> string \<Rightarrow> i32 \<Rightarrow> i32 \<Rightarrow> string \<Rightarrow> string" where
  "lay_out left width prefix zeros len data =
     (if left then [] else replicate (times width) CHR '' '') @ prefix @ replicate (times zeros) CHR ''0''
     @ take (times len) data @ (if left then replicate (times width) CHR '' '' else [])"

definition strnlen_of :: "string \<Rightarrow> i32 \<Rightarrow> i32" where
  "strnlen_of s n = of_nat (min (length s) (unat n))"

text \<open>In \<^verbatim>\<open>len + strlen(prefix) < width\<close> the comparison is unsigned.\<close>

definition memos_field :: field where
  "memos_field flags0 width precision color f args =
     (case conversion_of flags0 f args of
        None \<Rightarrow> None
      | Some cv \<Rightarrow>
         (case cv_color cv of
            Some color' \<Rightarrow> Some ([], color', cv_args cv)
          | None \<Rightarrow>
             (let flags = cv_flags cv; numeric = (flags AND FLAG_NUMERIC \<noteq> 0);
                  data = (if numeric then fill_numbuf (cv_num cv) (cv_base cv) else cv_data cv);
                  prefix = prefix_of flags (cv_base cv) (cv_num cv); plen = of_nat (length prefix) :: i32;
                  len = (if 0 \<le>s precision \<and> \<not> numeric then strnlen_of data precision else of_nat (length data));
                  zeros = (if numeric \<and> 0 \<le>s precision then (if len <s precision then precision - len else 0)
                           else if numeric \<and> flags AND FLAG_ZERO \<noteq> 0 \<and> flags AND FLAG_LEFTJUSTIFY = 0
                                   \<and> len + plen < width
                           then width - len - plen else 0)
              in Some (lay_out (flags AND FLAG_LEFTJUSTIFY \<noteq> 0) (width - (len + zeros + plen)) prefix zeros len data,
                       color, cv_args cv))))"

definition printer_vprintf :: "(char \<Rightarrow> i32 \<Rightarrow> 's \<Rightarrow> 's) \<Rightarrow> i32 \<Rightarrow> string \<Rightarrow> arg list \<Rightarrow> 's \<Rightarrow> 's option" where
  "printer_vprintf putc color format args s = vprintf_loop memos_field putc color format args s"

section \<open>console_vprintf of MiniprocOS\<close>

text \<open>One function does the work of \<^const>\<open>conversion_of\<close> and \<^const>\<open>memos_field\<close>, with other flags.\<close>

definition miniproc_fill_numbuf :: "u32 \<Rightarrow> nat \<Rightarrow> string \<Rightarrow> i32 \<Rightarrow> string" where
  "miniproc_fill_numbuf val base digits precision =
     (if precision \<noteq> 0 \<or> val \<noteq> 0 then digits_loop digits base val [] else [])"

datatype converted =
    Set_color i32 "arg list"
  | Plain string "arg list"
  | Number string bool "arg list"

definition miniproc_conversion :: "i32 \<Rightarrow> string \<Rightarrow> arg list \<Rightarrow> converted option" where
  "miniproc_conversion precision f args =
     (let unsigned = (\<lambda>base digits. map_option (\<lambda>(x, args').
            Number (miniproc_fill_numbuf x base digits precision) False args') (next_int args))
      in case f of
        [] \<Rightarrow> Some (Plain ''%'' args)
      | c # _ \<Rightarrow>
         (if c = CHR ''d'' then map_option (\<lambda>(x, args').
            Number (miniproc_fill_numbuf (if 0 <s x then x else - x) 10 upper_digits precision) (x <s 0) args')
            (next_int args)
          else if c = CHR ''u'' then unsigned 10 upper_digits
          else if c = CHR ''x'' then unsigned 16 lower_digits
          else if c = CHR ''X'' then unsigned 16 upper_digits
          else if c = CHR ''s'' then map_option (\<lambda>(s, args'). Plain s args') (next_str args)
          else if c = CHR ''C'' then map_option (\<lambda>(x, args'). Set_color x args') (next_int args)
          else if c = CHR ''c'' then map_option (\<lambda>(x, args'). Plain (char_data x) args') (next_int args)
          else Some (Plain [c] args)))"

definition sign_of :: "u32 \<Rightarrow> bool \<Rightarrow> string" where
  "sign_of flags negative =
     (if negative then ''-''
      else if flags AND FLAG_PLUSPOSITIVE \<noteq> 0 then ''+''
      else if flags AND FLAG_SPACEPOSITIVE \<noteq> 0 then '' '' else [])"

definition miniproc_layout :: "u32 \<Rightarrow> i32 \<Rightarrow> i32 \<Rightarrow> bool \<Rightarrow> bool \<Rightarrow> string \<Rightarrow> string" where
  "miniproc_layout flags width precision numeric negative data =
     (let len = (if 0 \<le>s precision then strnlen_of data precision else of_nat (length data));
          sign = sign_of flags (numeric \<and> negative); slen = of_nat (length sign) :: i32;
          zeros = (if numeric \<and> len <s precision then precision - len
                   else if flags AND (FLAG_ZERO OR FLAG_LEFTJUSTIFY) = FLAG_ZERO \<and> numeric \<and> precision <s 0
                           \<and> len + slen <s width
                   then width - len - slen else 0)
      in lay_out (flags AND FLAG_LEFTJUSTIFY \<noteq> 0) (width - (len + zeros + slen)) sign zeros len data)"

definition miniproc_field :: field where
  "miniproc_field flags width precision color f args =
     map_option (\<lambda>cv. case cv of
         Set_color color' args' \<Rightarrow> ([], color', args')
       | Plain data args' \<Rightarrow> (miniproc_layout flags width precision False False data, color, args')
       | Number data negative args' \<Rightarrow> (miniproc_layout flags width precision True negative data, color, args'))
       (miniproc_conversion precision f args)"

section \<open>The console\<close>

text \<open>
  \<^verbatim>\<open>console\<close> is an array of 80 by 25 cells; a cell holds a character and its color. The cursor is the
  number of cells from its beginning; printing may leave it one past the last cell.
\<close>

abbreviation "CONSOLE_CELLS \<equiv> 2000 :: nat"

record screen =
  cells :: "u16 list"
  cursor :: nat

definition put_cell :: "char \<Rightarrow> i32 \<Rightarrow> screen \<Rightarrow> screen" where
  "put_cell c color s =
     s\<lparr>cells := (cells s)[cursor s := ucast (of_nat (of_char c) OR color)], cursor := cursor s + 1\<rparr>"

definition console_putc :: "char \<Rightarrow> i32 \<Rightarrow> screen \<Rightarrow> screen" where
  "console_putc c color s =
     (let s' = (if CONSOLE_CELLS \<le> cursor s then s\<lparr>cursor := 0\<rparr> else s)
      in if of_char c = (10 :: nat) then (put_cell CHR '' '' color ^^ (80 - cursor s' mod 80)) s'
         else put_cell c color s')"

definition console_vprintf :: "i32 \<Rightarrow> i32 \<Rightarrow> string \<Rightarrow> arg list \<Rightarrow> u16 list \<Rightarrow> (u16 list \<times> nat) option" where
  "console_vprintf cpos color format args cs =
     (let start = (if cpos <s 0 \<or> of_nat CONSOLE_CELLS \<le>s cpos then 0 else unat cpos)
      in map_option (\<lambda>s. (cells s, cursor s)) (printer_vprintf console_putc color format args \<lparr>cells = cs, cursor = start\<rparr>))"

text \<open>MiniprocOS takes and returns a pointer to a cell and checks it in \<^const>\<open>console_putc\<close> only.\<close>

definition miniproc_console_vprintf :: "nat \<Rightarrow> i32 \<Rightarrow> string \<Rightarrow> arg list \<Rightarrow> u16 list \<Rightarrow> (u16 list \<times> nat) option" where
  "miniproc_console_vprintf start color format args cs =
     map_option (\<lambda>s. (cells s, cursor s))
       (vprintf_loop miniproc_field console_putc color format args \<lparr>cells = cs, cursor = start\<rparr>)"

section \<open>Strings\<close>

record string_printer =
  sp_mem :: memory
  sp_s :: u32

definition string_putc :: "u32 \<Rightarrow> char \<Rightarrow> i32 \<Rightarrow> string_printer \<Rightarrow> string_printer" where
  "string_putc stop c color sp =
     (if sp_s sp < stop
      then sp\<lparr>sp_mem := (sp_mem sp)(sp_s sp := of_char c), sp_s := sp_s sp + 1\<rparr> else sp)"

definition vsnprintf :: "u32 \<Rightarrow> u32 \<Rightarrow> string \<Rightarrow> arg list \<Rightarrow> memory \<Rightarrow> (i32 \<times> memory) option" where
  "vsnprintf s sz format args m =
     (if sz = 0 then Some (0, m)
      else map_option (\<lambda>sp. (sp_s sp - s, (sp_mem sp)(sp_s sp := 0)))
             (printer_vprintf (string_putc (s + sz - 1)) 0 format args \<lparr>sp_mem = m, sp_s = s\<rparr>))"

section \<open>The panic of a process\<close>

text \<open>
  \<^verbatim>\<open>panic\<close> of \<^verbatim>\<open>process.c\<close> up to its call of \<^verbatim>\<open>console_printf\<close>, with \<^verbatim>\<open>buf\<close> an array of 160 bytes.
\<close>

definition store_bytes :: "u32 \<Rightarrow> string \<Rightarrow> memory \<Rightarrow> memory" where
  "store_bytes p cs m = fst (fold (\<lambda>c (m, p). (m(p := of_char c), p + 1)) cs (m, p))"

definition panic_buffer :: "u32 \<Rightarrow> string \<Rightarrow> arg list \<Rightarrow> memory \<Rightarrow> memory option" where
  "panic_buffer buf format args m =
     map_option (\<lambda>(n, m'). (let len = n + 7 in
         if 0 <s len \<and> m' (buf + len - 1) \<noteq> 10
         then store_bytes (buf + len - (if len = 160 - 1 then 1 else 0)) [CHR 0x0A, CHR 0x00] m' else m'))
       (vsnprintf (buf + 7) (160 - 7) format args (store_bytes buf ''PANIC: '' m))"

text \<open>The bytes of \<^verbatim>\<open>buf\<close> up to its NUL are the argument of \<^verbatim>\<open>console_printf\<close>.\<close>

definition string_at :: "u32 \<Rightarrow> memory \<Rightarrow> string option" where
  "string_at p m = map_option (\<lambda>n. map (\<lambda>i. char_of (unat (m (p + of_nat i)))) [0..<unat n]) (strlen m p)"

definition CPOS :: "nat \<Rightarrow> nat \<Rightarrow> i32" where
  "CPOS row col = of_nat (row * 80 + col)"

definition panic_print :: "u32 \<Rightarrow> string \<Rightarrow> arg list \<Rightarrow> memory \<Rightarrow> u16 list \<Rightarrow> (u16 list \<times> nat) option" where
  "panic_print buf format args m cs =
     (case panic_buffer buf format args m of None \<Rightarrow> None
      | Some m' \<Rightarrow> (case string_at buf m' of None \<Rightarrow> None
         | Some s \<Rightarrow> console_vprintf (CPOS 23 0) 0xC000 ''%s'' [Arg_str s] cs))"

definition assert_fail :: "string \<Rightarrow> i32 \<Rightarrow> string \<Rightarrow> u16 list \<Rightarrow> (u16 list \<times> nat) option" where
  "assert_fail file_name line msg cs =
     console_vprintf (CPOS 23 0) 0xC000 (''PANIC: %s:%d: assertion '' @ [CHR 0x27] @ ''%s'' @ [CHR 0x27] @ '' failed'' @ [CHR 0x0A])
       [Arg_str file_name, Arg_int line, Arg_str msg] cs"

section \<open>app_printf\<close>

definition app_color :: "i32 \<Rightarrow> i32" where
  "app_color colorid =
     (if colorid <s 0 then 0x0700 else push_bit 8 ([0x0E, 0x0F, 0x0C, 0x0A, 0x09] ! (unat colorid mod 5)))"

text \<open>The cursor is the global \<^verbatim>\<open>cursorpos\<close>.\<close>

definition app_printf :: "i32 \<Rightarrow> string \<Rightarrow> arg list \<Rightarrow> i32 \<times> u16 list \<Rightarrow> (i32 \<times> u16 list) option" where
  "app_printf colorid format args st =
     map_option (\<lambda>(cs, n). (of_nat n, cs)) (console_vprintf (fst st) (app_color colorid) format args (snd st))"

end
