(* ===== verification/Kernel_Printf_Text.thy ===== *)
theory Kernel_Printf_Text
  imports Kernel_Printf
begin

text \<open>
  The text a format stands for, apart from where it is printed: every printer receives the characters
  of \<open>formatted\<close> in order, so that what holds of one call of \<open>putc\<close> carries over to a format. Then the
  decimal conversions of both kernels.
\<close>

section \<open>One text for all printers\<close>

definition formatted :: "field \<Rightarrow> i32 \<Rightarrow> string \<Rightarrow> arg list \<Rightarrow> (char \<times> i32) list option" where
  "formatted field color f args = vprintf_loop field (\<lambda>c k cs. cs @ [(c, k)]) color f args []"

lemma fold_snoc: "fold (\<lambda>x cs. cs @ [(x, k)]) out cs = cs @ map (\<lambda>x. (x, k)) out"
  by (induction out arbitrary: cs) auto

lemma fold_colored: "fold (\<lambda>(x, k). putc x k) (map (\<lambda>x. (x, k)) out) s = fold (\<lambda>x. putc x k) out s"
  by (induction out arbitrary: s) auto

lemma fold_pairs: "fold (\<lambda>(x, k) cs. cs @ [(x, k)]) cs' cs = cs @ cs'"
  by (induction cs' arbitrary: cs) auto

lemma vprintf_loop_fold:
  "vprintf_loop field putc color f args (fold (\<lambda>(x, k). putc x k) cs s)
     = map_option (\<lambda>cs'. fold (\<lambda>(x, k). putc x k) cs' s) (vprintf_loop field (\<lambda>c k cs. cs @ [(c, k)]) color f args cs)"
proof (induction field "\<lambda>c k cs. cs @ [(c, k)] :: (char \<times> i32) list" color f args cs rule: vprintf_loop.induct)
  case (2 field color c f args cs)
  show ?case
  proof (cases "c = CHR ''%''")
    case False
    then show ?thesis using 2(1) by (simp add: vprintf_loop.simps(2))
  next
    case True
    then show ?thesis using 2(2)
      by (auto simp: vprintf_loop.simps(2) fold_snoc fold_colored split: prod.splits option.splits)
  qed
qed simp

lemma vprintf_loop_formatted:
  "vprintf_loop field putc color f args s
     = map_option (\<lambda>cs. fold (\<lambda>(x, k). putc x k) cs s) (formatted field color f args)"
  using vprintf_loop_fold[of field putc color f args "[]" s] by (simp add: formatted_def)

lemma formatted_Nil [simp]: "formatted field color [] args = Some []"
  by (simp add: formatted_def)

lemma formatted_char:
  "c \<noteq> CHR ''%'' \<Longrightarrow> formatted field color (c # f) args = map_option ((#) (c, color)) (formatted field color f args)"
  using vprintf_loop_formatted[of field "\<lambda>c k cs. cs @ [(c, k)]" color f args "[(c, color)]"]
  by (simp add: formatted_def vprintf_loop.simps(2) fold_pairs)

lemma formatted_field:
  assumes "parse_flags 0 f = (flags, f1)" "parse_width f1 args = Some (width, f2, args2)"
    "parse_precision f2 args2 = Some (precision, c # f', args3)"
    "field flags width precision color (c # f') args3 = Some (out, color', args4)"
  shows "formatted field color (CHR ''%'' # f) args
    = map_option ((@) (map (\<lambda>x. (x, color)) out)) (formatted field color' f' args4)"
  using assms vprintf_loop_formatted[of field "\<lambda>c k cs. cs @ [(c, k)]" color' f' args4 "map (\<lambda>x. (x, color)) out"]
  by (simp add: formatted_def vprintf_loop.simps(2) fold_snoc fold_pairs)

text \<open>The interface of a printer: one call of \<open>putc\<close> keeps what must hold of its state.\<close>

locale printer =
  fixes putc :: "char \<Rightarrow> i32 \<Rightarrow> 's \<Rightarrow> 's" and inv :: "'s \<Rightarrow> bool"
  assumes putc_inv: "inv s \<Longrightarrow> inv (putc c color s)"
begin

lemma fold_inv: "inv s \<Longrightarrow> inv (fold (\<lambda>(x, k). putc x k) cs s)"
  by (induction cs arbitrary: s) (auto intro: putc_inv)

lemma vprintf_inv: "inv s \<Longrightarrow> vprintf_loop field putc color f args s = Some s' \<Longrightarrow> inv s'"
  by (auto simp: vprintf_loop_formatted intro: fold_inv)

end

section \<open>Decimal numbers\<close>

lemma less_10_cases: "(n :: nat) < 10 \<Longrightarrow> n \<in> {0, 1, 2, 3, 4, 5, 6, 7, 8, 9}"
  by auto

lemma upper_digits_digit: "n < 10 \<Longrightarrow> upper_digits ! n = digit n"
  by (drule less_10_cases) (auto simp: upper_digits_def digit_def char_of_def bit_iff_odd nth_Cons')

lemma digits_loop_dec: "digits_loop upper_digits 10 val acc = dec_nat (unat val) @ acc"
proof (induction "unat val" arbitrary: val acc rule: less_induct)
  case less
  have v: "unat (val div 10) = unat val div 10" by (simp add: unat_div)
  show ?case
  proof (cases "val div 10 = 0")
    case True
    then have "unat val < 10" using v by simp
    then show ?thesis using True by (subst digits_loop.simps, subst dec_nat.simps) (simp add: upper_digits_digit)
  next
    case False
    then have "unat val div 10 \<noteq> 0" using v by (metis unat_eq_zero)
    then have "10 \<le> unat val" by (meson div_less not_less)
    then show ?thesis using False less[of "val div 10" "digit (unat val mod 10) # acc"] v
      by (subst digits_loop.simps, subst dec_nat.simps) (simp add: upper_digits_digit)
  qed
qed

text \<open>\<open>padded\<close> is what a decimal field should look like: at least \<open>width\<close> characters, filled up on one side.\<close>

definition padded :: "bool \<Rightarrow> bool \<Rightarrow> nat \<Rightarrow> string \<Rightarrow> string \<Rightarrow> string" where
  "padded left zero width sign digits =
     (let n = width - (length sign + length digits)
      in if left then sign @ digits @ replicate n CHR '' ''
         else if zero then sign @ replicate n CHR ''0'' @ digits
         else replicate n CHR '' '' @ sign @ digits)"

definition minus_sign :: "u32 \<Rightarrow> string" where
  "minus_sign x = (if x <s 0 then ''-'' else [])"

definition magnitude :: "u32 \<Rightarrow> nat" where
  "magnitude x = nat \<bar>sint x\<bar>"

lemma dec_sign: "dec (sint x) = minus_sign x @ dec_nat (magnitude x)"
  by (auto simp: dec_def minus_sign_def magnitude_def word_sless_alt)

lemma unat_uminus_32: "unat (- x :: u32) = (if x = 0 then 0 else 4294967296 - unat x)"
proof -
  have "x = 0 \<longleftrightarrow> unat x = 0" by (simp add: unat_eq_zero)
  moreover have "unat (0 - x) = (if unat x = 0 then 0 else 4294967296 - unat x)"
    unfolding unat_sub_if' by simp
  ultimately show ?thesis by simp
qed

lemma two_readings:
  obtains n where "unat (x :: i32) = n" "n < 4294967296"
    "sint x = (if n < 2147483648 then int n else int n - 4294967296)"
  using unat_u32_less[of x] sint_unat32[of x] by blast

lemma unat_magnitude:
  "x <s 0 \<Longrightarrow> unat (- x) = magnitude x" "\<not> x <s 0 \<Longrightarrow> unat x = magnitude x"
proof -
  obtain n where n: "unat x = n" "n < 4294967296"
    "sint x = (if n < 2147483648 then int n else int n - 4294967296)" by (rule two_readings)
  have "x = 0 \<longleftrightarrow> n = 0" using n(1) by (simp add: unat_eq_zero[symmetric])
  then show "x <s 0 \<Longrightarrow> unat (- x) = magnitude x" "\<not> x <s 0 \<Longrightarrow> unat x = magnitude x"
    using n unfolding word_sless_alt magnitude_def unat_uminus_32 by (auto split: if_splits)
qed

lemma length_dec_nat: "n < 10 ^ Suc k \<Longrightarrow> length (dec_nat n) \<le> Suc k"
proof (induction k arbitrary: n)
  case (Suc k)
  have "n div 10 < 10 ^ Suc k" using Suc.prems by (simp add: less_mult_imp_div_less)
  then show ?case using Suc.IH by (subst dec_nat.simps) auto
qed (subst dec_nat.simps, simp)

lemma length_magnitude: "length (dec_nat (magnitude x)) \<le> 10"
proof -
  have "magnitude x < 10 ^ Suc 9" 
  proof -
    obtain n where "n < 4294967296" "sint x = (if n < 2147483648 then int n else int n - 4294967296)"
      by (rule two_readings)
    then show ?thesis by (simp add: magnitude_def nat_less_iff)
  qed
  then show ?thesis using length_dec_nat[of "magnitude x" 9] by simp
qed

lemma length_minus_sign: "length (minus_sign x) \<le> 1"
  by (simp add: minus_sign_def)

lemma sint_minus_small:
  assumes "- 1 \<le> sint w" "k \<le> 11"
  shows "sint (w - of_nat k :: i32) = sint w - int k"
proof -
  have k: "unat (of_nat k :: i32) = k" using assms(2) by (simp add: unat_of_nat)
  obtain n where n: "unat w = n" "n < 4294967296"
    "sint w = (if n < 2147483648 then int n else int n - 4294967296)" by (rule two_readings)
  obtain m where m: "unat (w - of_nat k) = m"
    "sint (w - of_nat k) = (if m < 2147483648 then int m else int m - 4294967296)" by (rule two_readings)
  have "m = (if k \<le> n then n - k else 4294967296 + n - k)"
    using m(1) unfolding unat_sub_if' k n(1) by (cases "k \<le> n") auto
  then show ?thesis using assms n m(2) by (auto split: if_splits)
qed

lemma times_minus: "- 1 \<le> sint w \<Longrightarrow> k \<le> 11 \<Longrightarrow> times (w - of_nat k) = nat (sint w) - k"
  by (auto simp: times_def sint_minus_small)

lemma times_of_nat: "k \<le> 11 \<Longrightarrow> times (of_nat k) = k"
  by (simp add: times_def sint_unat32 unat_of_nat)

lemma times_minus_sum:
  assumes "- 1 \<le> sint w" "a \<le> 10" "b \<le> 1"
  shows "times (w - (of_nat a + of_nat b)) = nat (sint w) - (b + a)"
    and "times (w - of_nat a - of_nat b) = nat (sint w) - (b + a)"
  using times_minus[of w "b + a"] assms by (simp_all add: diff_diff_eq add.commute)

lemma lay_out_blanks:
  assumes "- 1 \<le> sint w" "length sign \<le> 1" "length digits \<le> 10"
  shows "lay_out left (w - (of_nat (length digits) + 0 + of_nat (length sign))) sign 0 (of_nat (length digits)) digits
    = padded left False (nat (sint w)) sign digits"
  using assms times_of_nat[of 0] by (simp add: lay_out_def padded_def Let_def times_minus_sum times_of_nat)

lemma lay_out_zeros:
  assumes "0 \<le> sint w" "length sign \<le> 1" "length digits \<le> 10"
  shows "lay_out False (w - (of_nat (length digits) + (w - of_nat (length digits) - of_nat (length sign)) + of_nat (length sign)))
      sign (w - of_nat (length digits) - of_nat (length sign)) (of_nat (length digits)) digits
    = padded False True (nat (sint w)) sign digits"
  using assms times_of_nat[of 0] by (simp add: lay_out_def padded_def Let_def times_minus_sum times_of_nat)

end
