(* ===== verification/Kernel_Printf_Props.thy ===== *)
theory Kernel_Printf_Props
  imports Kernel_Printf_Text
begin

text \<open>
  What the formatted output of the kernels prints: the decimal conversions, the buffer of
  \<^verbatim>\<open>vsnprintf\<close>, the cells of the console, and the panic message of a process.
\<close>

section \<open>Decimal fields\<close>

lemma fill_numbuf_10: "fill_numbuf val 10 = dec_nat (unat val)"
  by (simp add: fill_numbuf_def digits_loop_dec)

lemma prefix_of_d:
  assumes "flags \<in> {0, FLAG_LEFTJUSTIFY, FLAG_ZERO}"
  shows "prefix_of (flags OR (FLAG_NUMERIC OR (FLAG_SIGNED OR (if x <s 0 then FLAG_NEGATIVE else 0)))) 10 v = minus_sign x"
proof -
  consider "flags = 0" | "flags = FLAG_LEFTJUSTIFY" | "flags = FLAG_ZERO" using assms by blast
  then show ?thesis
    by cases (cases "x <s 0"; simp add: prefix_of_def minus_sign_def)+
qed

lemma numeric_d:
  assumes "flags \<in> {0, FLAG_LEFTJUSTIFY, FLAG_ZERO}"
  shows "((flags OR (FLAG_NUMERIC OR (FLAG_SIGNED OR (if b then FLAG_NEGATIVE else 0)))) AND FLAG_NUMERIC \<noteq> 0)
      \<and> ((flags OR (FLAG_NUMERIC OR (FLAG_SIGNED OR (if b then FLAG_NEGATIVE else 0)))) AND FLAG_LEFTJUSTIFY \<noteq> 0
          \<longleftrightarrow> flags = FLAG_LEFTJUSTIFY)
      \<and> ((flags OR (FLAG_NUMERIC OR (FLAG_SIGNED OR (if b then FLAG_NEGATIVE else 0)))) AND FLAG_ZERO \<noteq> 0
          \<longleftrightarrow> flags = FLAG_ZERO)"
proof -
  consider "flags = 0" | "flags = FLAG_LEFTJUSTIFY" | "flags = FLAG_ZERO" using assms by blast
  then show ?thesis by cases (cases b; simp)+
qed

lemma padded_full:
  "width \<le> length sign + length digits \<Longrightarrow> padded False True width sign digits = padded False False width sign digits"
  by (simp add: padded_def)

lemma not_less_width:
  assumes "\<not> of_nat a + of_nat b < (w :: i32)" "a \<le> 10" "b \<le> 1" "0 \<le> sint w"
  shows "nat (sint w) \<le> b + a"
proof -
  have "unat (of_nat (a + b) :: i32) = a + b" using assms(2,3) by (simp add: unat_of_nat del: of_nat_add)
  moreover have "unat w \<le> unat (of_nat (a + b) :: i32)" using assms(1) by (simp add: not_less word_le_nat_alt)
  moreover have "sint w = int (unat w)" using assms(4) sint_nonneg32[of w] sint_unat32[of w] by presburger
  ultimately show ?thesis by simp
qed

lemma not_sless_width:
  assumes "\<not> of_nat a + of_nat b <s (w :: i32)" "a \<le> 10" "b \<le> 1"
  shows "nat (sint w) \<le> b + a"
proof -
  have "unat (of_nat (a + b) :: i32) = a + b" using assms(2,3) by (simp add: unat_of_nat del: of_nat_add)
  then have "sint (of_nat (a + b) :: i32) = int (a + b)" using assms(2,3) sint_unat32[of "of_nat (a + b)"] by simp
  then show ?thesis using assms(1) by (simp add: word_sless_alt)
qed

lemma negative_precision: "\<not> 0 \<le>s (- 1 :: i32)" "(- 1 :: i32) <s 0" "\<not> 0 <s (- 1 :: i32)"
  by (simp_all add: word_sle_eq word_sless_alt)

text \<open>The layout both kernels compute, \<open>room\<close> being their test for zeros.\<close>

lemma lay_out_padded:
  assumes fl: "flags \<in> {0, FLAG_LEFTJUSTIFY} \<and> - 1 \<le> sint w \<or> flags = FLAG_ZERO \<and> 0 \<le> sint w"
    and small: "length sign \<le> 1" "length digits \<le> 10"
    and room: "\<not> room \<Longrightarrow> 0 \<le> sint w \<Longrightarrow> nat (sint w) \<le> length sign + length digits"
    and zeros: "zeros = (if flags = FLAG_ZERO \<and> room then w - of_nat (length digits) - of_nat (length sign) else 0)"
  shows "lay_out (flags = FLAG_LEFTJUSTIFY) (w - (of_nat (length digits) + zeros + of_nat (length sign)))
      sign zeros (of_nat (length digits)) digits
    = padded (flags = FLAG_LEFTJUSTIFY) (flags = FLAG_ZERO) (nat (sint w)) sign digits"
proof (cases "flags = FLAG_ZERO \<and> room")
  case True
  then show ?thesis using assms lay_out_zeros[of w sign digits] by auto
next
  case False
  then have "padded (flags = FLAG_LEFTJUSTIFY) (flags = FLAG_ZERO) (nat (sint w)) sign digits
      = padded (flags = FLAG_LEFTJUSTIFY) False (nat (sint w)) sign digits"
    using assms by (auto simp: padded_full)
  moreover have "- 1 \<le> sint w" using fl by auto
  ultimately show ?thesis using False lay_out_blanks[of w sign digits "flags = FLAG_LEFTJUSTIFY"] small zeros
    by auto
qed

lemma conversion_of_d:
  "conversion_of flags (CHR ''d'' # f) (Arg_int x # args) = Some
      \<lparr>cv_flags = flags OR (FLAG_NUMERIC OR (FLAG_SIGNED OR (if x <s 0 then FLAG_NEGATIVE else 0))), cv_base = 10,
       cv_num = (if x <s 0 then - x else x), cv_data = [], cv_color = None, cv_args = args\<rparr>"
  by (simp add: conversion_of_def Let_def)

lemma fill_numbuf_d: "fill_numbuf (if x <s 0 then - x else x) 10 = dec_nat (magnitude x)"
  using unat_magnitude[of x] by (auto simp: fill_numbuf_10)

lemma memos_field_d:
  assumes "flags \<in> {0, FLAG_LEFTJUSTIFY} \<and> - 1 \<le> sint w \<or> flags = FLAG_ZERO \<and> 0 \<le> sint w"
  shows "memos_field flags w (- 1) color (CHR ''d'' # f) (Arg_int x # args)
    = Some (padded (flags = FLAG_LEFTJUSTIFY) (flags = FLAG_ZERO) (nat (sint w)) (minus_sign x) (dec_nat (magnitude x)),
        color, args)"
proof -
  have fl: "flags \<in> {0, FLAG_LEFTJUSTIFY, FLAG_ZERO}" using assms by blast
  note facts = prefix_of_d[OF fl] numeric_d[OF fl]
  let ?sign = "minus_sign x" and ?digits = "dec_nat (magnitude x)"
  have small: "length ?sign \<le> 1" "length ?digits \<le> 10" by (rule length_minus_sign length_magnitude)+
  have "memos_field flags w (- 1) color (CHR ''d'' # f) (Arg_int x # args)
    = Some (lay_out (flags = FLAG_LEFTJUSTIFY) (w - (of_nat (length ?digits) +
          (if flags = FLAG_ZERO \<and> of_nat (length ?digits) + of_nat (length ?sign) < w
            then w - of_nat (length ?digits) - of_nat (length ?sign) else 0) + of_nat (length ?sign))) ?sign
        (if flags = FLAG_ZERO \<and> of_nat (length ?digits) + of_nat (length ?sign) < w
          then w - of_nat (length ?digits) - of_nat (length ?sign) else 0) (of_nat (length ?digits)) ?digits, color, args)"
    unfolding memos_field_def conversion_of_d Let_def option.case conversion.simps facts fill_numbuf_d
    by (simp add: facts negative_precision)
  then show ?thesis
    using not_less_width[of "length ?digits" "length ?sign" w] small
    by (subst lay_out_padded[symmetric, OF assms small _ refl]) auto
qed

lemma sign_of_d:
  assumes "flags \<in> {0, FLAG_LEFTJUSTIFY, FLAG_ZERO}"
  shows "sign_of flags (x <s 0) = minus_sign x"
    and "flags AND FLAG_LEFTJUSTIFY \<noteq> 0 \<longleftrightarrow> flags = FLAG_LEFTJUSTIFY"
    and "flags AND (FLAG_ZERO OR FLAG_LEFTJUSTIFY) = FLAG_ZERO \<longleftrightarrow> flags = FLAG_ZERO"
proof -
  consider "flags = 0" | "flags = FLAG_LEFTJUSTIFY" | "flags = FLAG_ZERO" using assms by blast
  then show "sign_of flags (x <s 0) = minus_sign x"
    "flags AND FLAG_LEFTJUSTIFY \<noteq> 0 \<longleftrightarrow> flags = FLAG_LEFTJUSTIFY"
    "flags AND (FLAG_ZERO OR FLAG_LEFTJUSTIFY) = FLAG_ZERO \<longleftrightarrow> flags = FLAG_ZERO"
    by (cases; simp add: sign_of_def minus_sign_def)+
qed

lemma miniproc_layout_d:
  assumes "flags \<in> {0, FLAG_LEFTJUSTIFY} \<and> - 1 \<le> sint w \<or> flags = FLAG_ZERO \<and> 0 \<le> sint w"
    and "length digits \<le> 10"
  shows "miniproc_layout flags w (- 1) True (x <s 0) digits
    = padded (flags = FLAG_LEFTJUSTIFY) (flags = FLAG_ZERO) (nat (sint w)) (minus_sign x) digits"
proof -
  have fl: "flags \<in> {0, FLAG_LEFTJUSTIFY, FLAG_ZERO}" using assms by blast
  have "\<not> of_nat (length digits) <s (- 1 :: i32)"
    using assms(2) by (simp add: word_sless_alt sint_unat32 unat_of_nat)
  then have "miniproc_layout flags w (- 1) True (x <s 0) digits
    = lay_out (flags = FLAG_LEFTJUSTIFY) (w - (of_nat (length digits) +
          (if flags = FLAG_ZERO \<and> of_nat (length digits) + of_nat (length (minus_sign x)) <s w
            then w - of_nat (length digits) - of_nat (length (minus_sign x)) else 0) + of_nat (length (minus_sign x))))
        (minus_sign x)
        (if flags = FLAG_ZERO \<and> of_nat (length digits) + of_nat (length (minus_sign x)) <s w
          then w - of_nat (length digits) - of_nat (length (minus_sign x)) else 0) (of_nat (length digits)) digits"
    unfolding miniproc_layout_def Let_def simp_thms sign_of_d[OF fl] by (simp add: negative_precision)
  then show ?thesis
    using not_sless_width[of "length digits" "length (minus_sign x)" w] assms(2) length_minus_sign[of x]
    by (subst lay_out_padded[symmetric, OF assms(1) length_minus_sign assms(2) _ refl]) auto
qed

lemma unat_abs_branch: "unat (if 0 <s x then x else - x) = magnitude x"
proof (cases "x = 0")
  case False
  then have "unat x \<noteq> 0" by (simp add: unat_eq_zero)
  then have "sint x \<noteq> 0" by (rule_tac two_readings[of x]) (auto split: if_splits)
  then have "0 <s x \<longleftrightarrow> \<not> x <s 0" by (auto simp: word_sless_alt)
  then show ?thesis using unat_magnitude[of x] by auto
qed (simp add: magnitude_def)

lemma miniproc_field_d:
  assumes "flags \<in> {0, FLAG_LEFTJUSTIFY} \<and> - 1 \<le> sint w \<or> flags = FLAG_ZERO \<and> 0 \<le> sint w"
  shows "miniproc_field flags w (- 1) color (CHR ''d'' # f) (Arg_int x # args)
    = Some (padded (flags = FLAG_LEFTJUSTIFY) (flags = FLAG_ZERO) (nat (sint w)) (minus_sign x) (dec_nat (magnitude x)),
        color, args)"
proof -
  have "miniproc_fill_numbuf (if 0 <s x then x else - x) 10 upper_digits (- 1) = dec_nat (magnitude x)"
    by (simp add: miniproc_fill_numbuf_def digits_loop_dec unat_abs_branch)
  then show ?thesis
    using miniproc_layout_d[OF assms length_magnitude] by (simp add: miniproc_field_def miniproc_conversion_def)
qed

lemmas field_d = memos_field_d miniproc_field_d

text \<open>The characters of a text, without their colors.\<close>

definition text_of :: "field \<Rightarrow> string \<Rightarrow> arg list \<Rightarrow> string option" where
  "text_of field format args = map_option (map fst) (formatted field 0 format args)"

lemma text_of_Nil [simp]: "text_of field [] args = Some []"
  by (simp add: text_of_def)

lemma text_of_char: "c \<noteq> CHR ''%'' \<Longrightarrow> text_of field (c # f) args = map_option ((#) c) (text_of field f args)"
  by (simp add: text_of_def formatted_char option.map_comp comp_def)

lemma text_of_d:
  assumes "parse_flags 0 f = (flags, f1)" "parse_width f1 args = Some (w, ''d'', Arg_int x # args')"
    and fl: "flags \<in> {0, FLAG_LEFTJUSTIFY} \<and> - 1 \<le> sint w \<or> flags = FLAG_ZERO \<and> 0 \<le> sint w"
    and "field = memos_field \<or> field = miniproc_field"
  shows "text_of field (CHR ''%'' # f) args
    = Some (padded (flags = FLAG_LEFTJUSTIFY) (flags = FLAG_ZERO) (nat (sint w)) (minus_sign x) (dec_nat (magnitude x)))"
proof -
  have "parse_precision ''d'' (Arg_int x # args') = Some (- 1, ''d'', Arg_int x # args')" by simp
  then show ?thesis
    using formatted_field[where field = field and c = "CHR ''d''", OF assms(1,2)] field_d[OF fl] assms(4)
    by (auto simp: text_of_def comp_def)
qed

lemma takeWhile_blanks: "takeWhile is_digit (replicate m CHR '' '') = []"
  by (cases m) (simp_all add: is_digit_def)

lemma is_space_blank: "is_space CHR '' ''"
  by (simp add: is_space_def)

lemma atoi_signed:
  assumes ds: "list_all is_digit ds" "ds \<noteq> []"
  shows "atoi (replicate n CHR '' '' @ minus_sign x @ ds @ replicate m CHR '' '')
    = (if x <s 0 then - digits_val ds else digits_val ds)"
proof -
  have blanks: "dropWhile is_space (replicate n CHR '' '' @ s) = dropWhile is_space s" for s
    by (rule dropWhile_append2) (simp add: is_space_blank)
  have t: "takeWhile is_digit (ds @ replicate m CHR '' '') = ds"
    using ds(1) by (simp only: takeWhile_append2 list_all_iff takeWhile_blanks append_Nil2)
  obtain c u where cu: "ds = c # u" using ds(2) by (cases ds) auto
  have c: "\<not> is_space c" "c \<noteq> CHR ''-''" "c \<noteq> CHR ''+''" using ds(1) is_digit_facts[of c] by (auto simp: cu)
  show ?thesis
  proof (cases "x <s 0")
    case True
    have "\<not> is_space CHR ''-''" by (simp add: is_space_def)
    then show ?thesis using True t by (simp add: atoi_def blanks minus_sign_def)
  next
    case False
    then show ?thesis using t c by (simp add: atoi_def blanks minus_sign_def cu)
  qed
qed

lemma digits_val_zeros: "digits_val (replicate n CHR ''0'' @ ds) = digits_val ds"
  by (induction n) (simp_all add: digits_val_def)

lemma atoi_padded:
  "atoi (padded left zero width (minus_sign x) (dec_nat (magnitude x))) = sint x"
proof -
  have d: "list_all is_digit (replicate n CHR ''0'' @ dec_nat (magnitude x))" for n
    using dec_nat_digits[of "magnitude x"] by (simp add: list_all_append) (simp add: list_all_iff is_digit_def)
  have v: "sint x = (if x <s 0 then - digits_val (dec_nat (magnitude x)) else digits_val (dec_nat (magnitude x)))"
    by (auto simp: dec_nat_val magnitude_def word_sless_alt)
  show ?thesis
    using atoi_signed[OF d[of "width - (length (minus_sign x) + length (dec_nat (magnitude x)))"], of 0 x 0]
      atoi_signed[OF d[of 0], of 0 x] atoi_signed[OF d[of 0], of _ x 0]
    by (simp add: padded_def Let_def digits_val_zeros v)
qed

lemma length_padded:
  "length (padded left zero width sign digits) = max width (length (sign @ digits))"
  by (auto simp: padded_def Let_def)

lemma flag_index_values:
  "flag_index CHR ''-'' = Some 2" "flag_index CHR ''0'' = Some 1"
  "flag_index CHR ''*'' = None" "flag_index CHR ''d'' = None"
  by (simp_all add: flag_index_def numeral_eq_Suc)

text \<open>
  C18: in both kernels \<^verbatim>\<open>%d\<close> prints the number, and a field of width \<open>w\<close>, right- or left-justified or filled
  with zeros, has \<open>w\<close> characters or as many as the number needs, and \<^verbatim>\<open>atoi\<close> reads the number back.
\<close>

theorem decimals_read_back:
  assumes "field = memos_field \<or> field = miniproc_field" "0 \<le> sint w" "format \<in> {''%*d'', ''%-*d'', ''%0*d''}"
  shows "text_of field ''%d'' [Arg_int x] = Some (dec (sint x))
    \<and> (\<exists>t. text_of field format [Arg_int w, Arg_int x] = Some t \<and> atoi t = sint x
        \<and> length t = max (nat (sint w)) (length (dec (sint x))))"
proof -
  have "text_of field ''%d'' [Arg_int x] = Some (dec (sint x))"
    using text_of_d[OF _ _ _ assms(1), of "''d''" 0 "''d''" _ "- 1" x "[]"]
    by (simp add: flag_index_values padded_def dec_sign is_digit_def)
  moreover have "\<exists>left zero. text_of field format [Arg_int w, Arg_int x]
      = Some (padded left zero (nat (sint w)) (minus_sign x) (dec_nat (magnitude x)))"
    using assms(2,3)  text_of_d[OF _ _ _ assms(1), of "''*d''" 0 "''*d''" "[Arg_int w, Arg_int x]" w x "[]"]
      text_of_d[OF _ _ _ assms(1), of "''-*d''" FLAG_LEFTJUSTIFY "''*d''" "[Arg_int w, Arg_int x]" w x "[]"]
      text_of_d[OF _ _ _ assms(1), of "''0*d''" FLAG_ZERO "''*d''" "[Arg_int w, Arg_int x]" w x "[]"]
    by (auto simp: flag_index_values is_digit_def)
  ultimately show ?thesis by (auto simp: atoi_padded length_padded dec_sign)
qed

section \<open>A precision for a number\<close>

lemma parse_precision_d:
  "parse_flags 0 ''.*d'' = (0, ''.*d'')" "parse_width ''.*d'' args = Some (- 1, ''.*d'', args)"
  "0 \<le> sint p \<Longrightarrow> parse_precision ''.*d'' (Arg_int p # args) = Some (p, ''d'', args)"
  by (simp_all add: flag_index_def numeral_eq_Suc is_digit_def word_sless_alt)

lemma small_word:
  assumes "k \<le> 11"
  shows "unat (of_nat k :: i32) = k" "sint (of_nat k :: i32) = int k"
  using assms by (simp_all add: unat_of_nat sint_unat32)

lemma miniproc_layout_cut:
  assumes "k \<le> 10" "strnlen_of digits (of_nat k) = of_nat k"
  shows "miniproc_layout 0 (- 1) (of_nat k) True (x <s 0) digits = minus_sign x @ take k digits"
proof -
  have "0 \<le>s (of_nat k :: i32)" "\<not> (of_nat k :: i32) <s of_nat k" "\<not> (of_nat k :: i32) <s 0"
    using assms(1) by (simp_all add: word_sle_eq word_sless_alt small_word)
  moreover have "sign_of 0 (x <s 0) = minus_sign x" by (rule sign_of_d) simp
  moreover have "times (- 1 - (of_nat k + of_nat (length (minus_sign x)))) = 0"
    using times_minus_sum(1)[of "- 1" k "length (minus_sign x)"] length_minus_sign[of x] assms(1) by simp
  ultimately show ?thesis
    using assms times_of_nat[of k] times_of_nat[of 0] by (simp add: miniproc_layout_def lay_out_def Let_def)
qed

lemma miniproc_field_cut:
  assumes k: "k < length (dec_nat (magnitude x))"
  shows "miniproc_field 0 (- 1) (of_nat k) color ''d'' (Arg_int x # args)
    = Some (minus_sign x @ take k (dec_nat (magnitude x)), color, args)"
proof -
  let ?digits = "miniproc_fill_numbuf (if 0 <s x then x else - x) 10 upper_digits (of_nat k)"
  have k11: "k \<le> 10" using k length_magnitude[of x] by linarith
  have z: "of_nat k = (0 :: i32) \<longleftrightarrow> k = 0" using small_word(1)[of k] k11 by (auto simp: unat_eq_zero[symmetric])
  have digits: "take k ?digits = take k (dec_nat (magnitude x)) \<and> (k \<noteq> 0 \<longrightarrow> length ?digits = length (dec_nat (magnitude x)))"
    using k z by (cases "of_nat k = (0 :: i32) \<and> (if 0 <s x then x else - x) = 0")
      (auto simp: miniproc_fill_numbuf_def digits_loop_dec unat_abs_branch z)
  have "strnlen_of ?digits (of_nat k) = of_nat k"
    using digits k k11 by (cases "k = 0") (simp_all add: strnlen_of_def small_word)
  then show ?thesis
    using digits miniproc_layout_cut[OF k11]
    by (simp add: miniproc_field_def miniproc_conversion_def del: if_split)
qed

lemma memos_field_precision:
  assumes k: "k < length (dec_nat (magnitude x))"
  shows "memos_field 0 (- 1) (of_nat k) color ''d'' (Arg_int x # args) = Some (dec (sint x), color, args)"
proof -
  let ?digits = "dec_nat (magnitude x)"
  have l: "length ?digits \<le> 11" using length_magnitude[of x] by simp
  have "0 \<le>s (of_nat k :: i32)" "\<not> (of_nat (length ?digits) :: i32) <s of_nat k"
    using k l by (simp_all add: word_sle_eq word_sless_alt small_word)
  then have "memos_field 0 (- 1) (of_nat k) color ''d'' (Arg_int x # args)
    = Some (lay_out False (- 1 - (of_nat (length ?digits) + 0 + of_nat (length (minus_sign x)))) (minus_sign x) 0
        (of_nat (length ?digits)) ?digits, color, args)"
    using prefix_of_d[of 0] numeric_d[of 0]
    unfolding memos_field_def conversion_of_d Let_def option.case conversion.simps fill_numbuf_d by simp
  also have "lay_out False (- 1 - (of_nat (length ?digits) + 0 + of_nat (length (minus_sign x)))) (minus_sign x) 0
      (of_nat (length ?digits)) ?digits = dec (sint x)"
    by (subst lay_out_blanks) (simp_all add: length_minus_sign length_magnitude padded_def dec_sign
        del: One_nat_def)
  finally show ?thesis .
qed

text \<open>
  C19: with a precision smaller than the number of digits \<^verbatim>\<open>console_printf\<close> of MiniprocOS prints the
  first digits only; MemOS prints the number.
\<close>

theorem precision_cuts_number:
  assumes "p < length (dec \<bar>sint x\<bar>)"
  shows "text_of miniproc_field ''%.*d'' [Arg_int (of_nat p), Arg_int x]
      = Some ((if sint x < 0 then ''-'' else []) @ take p (dec \<bar>sint x\<bar>))
    \<and> text_of memos_field ''%.*d'' [Arg_int (of_nat p), Arg_int x] = Some (dec (sint x))"
proof -
  have d: "dec \<bar>sint x\<bar> = dec_nat (magnitude x)" by (simp add: dec_def magnitude_def)
  then have p: "p < length (dec_nat (magnitude x))" "0 \<le> sint (of_nat p :: i32)"
    using assms length_magnitude[of x] by (simp_all add: small_word)
  note parse = parse_precision_d(1) parse_precision_d(2) parse_precision_d(3)[OF p(2)]
  have "formatted field 0 ''%.*d'' [Arg_int (of_nat p), Arg_int x]
      = Some (map (\<lambda>x. (x, 0)) out)"
    if "field 0 (- 1) (of_nat p) 0 ''d'' [Arg_int x] = Some (out, 0, [])" for field :: field and out
    using formatted_field[where field = field and c = "CHR ''d''", OF parse that] by simp
  then show ?thesis
    using miniproc_field_cut[OF p(1)] memos_field_precision[OF p(1)]
    by (simp add: text_of_def comp_def d minus_sign_def word_sless_alt)
qed

lemma digit_values:
  "digit 0 = CHR ''0''" "digit 1 = CHR ''1''" "digit (Suc 0) = CHR ''1''" "digit 2 = CHR ''2''" "digit 3 = CHR ''3''"
  "digit 4 = CHR ''4''" "digit 5 = CHR ''5''" "digit 6 = CHR ''6''" "digit 7 = CHR ''7''" "digit 8 = CHR ''8''"
  "digit 9 = CHR ''9''"
  by (simp_all add: upper_digits_digit[symmetric] upper_digits_def)

theorem precision_cuts_number_witness:
  "text_of miniproc_field ''%.*d'' [Arg_int (of_nat 2), Arg_int 12345] = Some ''12''"
proof -
  have "sint (12345 :: i32) = 12345" by simp
  moreover have "dec 12345 = ''12345''"
    by (simp add: dec_def dec_nat.simps[of 12345] dec_nat.simps[of 1234] dec_nat.simps[of 123] dec_nat.simps[of 12]
        dec_nat.simps[of "Suc 0"] digit_values)
  ultimately show ?thesis using precision_cuts_number[of 2 12345] by simp
qed

theorem decimals_read_back_witness:
  "\<exists>t. text_of memos_field ''%0*d'' [Arg_int 20, Arg_int (- 2147483648)] = Some t \<and> length t = 20 \<and> atoi t = - 2147483648"
proof -
  have "dec (- 2147483648) = ''-2147483648''"
    by (simp add: dec_def dec_nat.simps[of 2147483648] dec_nat.simps[of 214748364] dec_nat.simps[of 21474836]
        dec_nat.simps[of 2147483] dec_nat.simps[of 214748] dec_nat.simps[of 21474] dec_nat.simps[of 2147]
        dec_nat.simps[of 214] dec_nat.simps[of 21] dec_nat.simps[of 2] digit_values)
  moreover have "sint (- 2147483648 :: i32) = - 2147483648" "sint (20 :: i32) = 20" by simp_all
  ultimately show ?thesis using decimals_read_back[of memos_field 20 "''%0*d''" "- 2147483648"] by auto
qed

section \<open>The buffer of vsnprintf\<close>

lemma store_bytes_Nil [simp]: "store_bytes p [] m = m"
  by (simp add: store_bytes_def)

lemma store_bytes_Cons: "store_bytes p (c # cs) m = store_bytes (p + 1) cs (m(p := of_char c))"
  by (simp add: store_bytes_def)

lemma store_bytes_append: "store_bytes p (cs @ ds) m = store_bytes (p + of_nat (length cs)) ds (store_bytes p cs m)"
  by (induction cs arbitrary: p m) (simp_all add: store_bytes_Cons add.assoc)

lemma store_bytes_apply:
  "length cs \<le> 2 ^ 32 \<Longrightarrow>
     store_bytes p cs m a = (if unat (a - p) < length cs then of_char (cs ! unat (a - p)) else m a)"
proof (induction cs arbitrary: p m)
  case (Cons c cs)
  show ?case
  proof (cases "a = p")
    case True
    have "\<not> unat (- 1 :: u32) < length cs" using Cons.prems by simp
    then show ?thesis using True Cons by (simp add: store_bytes_Cons)
  next
    case False
    have "unat (a - (p + 1)) = unat (a - p) - 1" "unat (a - p) \<noteq> 0"
      using False unat_diff_one[of a p] by (auto simp: unat_eq_zero)
    then show ?thesis using False Cons by (auto simp: store_bytes_Cons nth_Cons')
  qed
qed simp

lemma store_bytes_at:
  assumes "i < length cs" "length cs \<le> 2 ^ 32"
  shows "store_bytes p cs m (p + of_nat i) = of_char (cs ! i)"
proof -
  have "unat (p + of_nat i - p) = i" using assms by (simp add: unat_of_nat)
  then show ?thesis using assms by (simp add: store_bytes_apply)
qed

lemma fold_string_putc:
  assumes "unat s + n < 2 ^ 32"
  shows "fold (\<lambda>(x, k). string_putc (s + of_nat n) x k) cs \<lparr>sp_mem = m, sp_s = s\<rparr>
    = \<lparr>sp_mem = store_bytes s (take n (map fst cs)) m, sp_s = s + of_nat (min (length cs) n)\<rparr>"
  using assms
proof (induction cs arbitrary: s n m)
  case (Cons xk cs)
  obtain x k where xk: "xk = (x, k)" by fastforce
  show ?case
  proof (cases n)
    case 0
    have full: "fold (\<lambda>(x, k). string_putc s x k) cs \<lparr>sp_mem = m, sp_s = s\<rparr> = \<lparr>sp_mem = m, sp_s = s\<rparr>" for cs
      by (induction cs) (auto simp: string_putc_def)
    then show ?thesis using 0 full[of "xk # cs"] by simp
  next
    case (Suc n')
    have "unat (s + of_nat n) = unat s + n" using Cons.prems by (simp add: unat_plus_if' unat_of_nat)
    then have "s < s + of_nat n" using Suc by (simp add: word_less_nat_alt)
    moreover have "unat (s + 1) + n' < 2 ^ 32" using Cons.prems Suc by (simp add: unat_plus_if')
    moreover have "s + of_nat n = s + 1 + of_nat n'" using Suc by simp
    ultimately show ?thesis using Cons.IH[of "s + 1" n' "m(s := of_char x)"] Suc
      by (simp add: xk string_putc_def store_bytes_Cons add.assoc del: fun_upd_apply)
  qed
qed simp

lemma vsnprintf_stores:
  assumes t: "text_of memos_field format args = Some t" and "0 < sz" "unat s + unat sz \<le> 2 ^ 32"
    and k: "k = min (length t) (unat sz - 1)"
  shows "vsnprintf s sz format args m = Some (of_nat k, store_bytes s (take k t @ [CHR 0x00]) m)"
proof -
  obtain cs where cs: "formatted memos_field 0 format args = Some cs" "t = map fst cs"
    using t by (auto simp: text_of_def)
  have "1 \<le> unat sz" using assms(2) by (simp add: word_less_nat_alt)
  then have stop: "s + sz - 1 = s + of_nat (unat sz - 1)" by (simp add: of_nat_diff)
  moreover have "unat s + (unat sz - 1) < 2 ^ 32" using assms(2,3) by (simp add: word_less_nat_alt)
  moreover have tk: "take (unat sz - 1) (map fst cs) = take k t" "min (length cs) (unat sz - 1) = k" "length (take k t) = k"
    by (auto simp: k cs(2) min_def)
  moreover have "sz \<noteq> 0" using assms(2) by auto
  ultimately have "vsnprintf s sz format args m
      = Some (of_nat k, (store_bytes s (take k t) m)(s + of_nat k := 0))"
    using fold_string_putc[of s "unat sz - 1" cs m]
    unfolding vsnprintf_def printer_vprintf_def vprintf_loop_formatted cs(1) stop
    by (simp del: fun_upd_apply One_nat_def)
  then show ?thesis by (simp add: store_bytes_append store_bytes_Cons tk(3) del: fun_upd_apply length_take)
qed

lemma vsnprintf_truncates:
  assumes "text_of memos_field format args = Some t" "0 < sz" "unat s + unat sz \<le> 2 ^ 32"
  shows "\<exists>m'. vsnprintf s sz format args m = Some (of_nat (min (length t) (unat sz - 1)), m')
    \<and> (\<forall>i < min (length t) (unat sz - 1). m' (s + of_nat i) = of_char (t ! i))
    \<and> m' (s + of_nat (min (length t) (unat sz - 1))) = 0
    \<and> (\<forall>a. \<not> in_range s (unat sz) a \<longrightarrow> m' a = m a)"
proof -
  define k where "k = min (length t) (unat sz - 1)"
  have sz: "1 \<le> unat sz" using assms(2) by (simp add: word_less_nat_alt)
  have l: "length (take k t @ [CHR 0x00]) = Suc k" "Suc k \<le> unat sz" using sz by (auto simp: k_def)
  have "length (take k t @ [CHR 0x00]) \<le> 4294967296" using l unat_u32_le[of sz] by linarith
  then have l32: "length (take k t @ [CHR 0x00]) \<le> 2 ^ 32" by simp
  have "store_bytes s (take k t @ [CHR 0x00]) m (s + of_nat i) = of_char ((take k t @ [CHR 0x00]) ! i)" if "i \<le> k" for i
    using that l(1) by (intro store_bytes_at l32) simp
  moreover have "store_bytes s (take k t @ [CHR 0x00]) m a = m a" if "\<not> in_range s (unat sz) a" for a
    using store_bytes_apply[OF l32, of s m a] that l by (simp add: in_range_def)
  moreover have "(take k t @ [CHR 0x00]) ! i = t ! i" if "i < k" for i
    using that by (simp add: k_def nth_append)
  moreover have "(take k t @ [CHR 0x00]) ! k = CHR 0x00" by (simp add: k_def nth_append)
  ultimately show ?thesis
    using vsnprintf_stores[OF assms k_def, of m] unfolding k_def[symmetric]
    by (intro exI[of _ "store_bytes s (take k t @ [CHR 0x00]) m"]) auto
qed

lemma vsnprintf_truncates_witness:
  "\<exists>m'. vsnprintf 100 4 ''panic'' [] (\<lambda>a. 7) = Some (3, m') \<and> m' 102 = of_char CHR ''n'' \<and> m' 103 = 0 \<and> m' 104 = 7"
proof -
  have "text_of memos_field ''panic'' [] = Some ''panic''" by (simp add: text_of_char)
  then obtain m' where m': "vsnprintf 100 4 ''panic'' [] (\<lambda>a. 7) = Some (3, m')"
    "\<forall>i < 3. m' (100 + of_nat i) = of_char (''panic'' ! i)" "m' 103 = 0" "\<forall>a. \<not> in_range 100 4 a \<longrightarrow> m' a = 7"
    using vsnprintf_truncates[of "''panic''" "[]" "''panic''" 4 100 "\<lambda>a. 7"] by auto
  have "m' 102 = of_char CHR ''n''" using m'(2)[rule_format, of 2] by simp
  moreover have "m' 104 = 7" using m'(4) by (simp add: in_range_def)
  ultimately show ?thesis using m'(1,3) by auto
qed

section \<open>The panic message\<close>

definition panic_text :: "string \<Rightarrow> string" where
  "panic_text t =
     (let u = ''PANIC: '' @ take 152 t
      in if last u = CHR 0x0A then u else if 152 \<le> length t then butlast u @ [CHR 0x0A] else u @ [CHR 0x0A])"

lemma store_bytes_over:
  "store_bytes (p + of_nat (length u)) (d # ds) (store_bytes p (u @ [c]) m) = store_bytes p (u @ d # ds) m"
  by (simp add: store_bytes_append store_bytes_Cons)

lemma store_bytes_over2:
  "store_bytes (p + of_nat (length u)) [d, e] (store_bytes p (u @ [c, c']) m) = store_bytes p (u @ [d, e]) m"
  by (simp add: store_bytes_append store_bytes_Cons fun_upd_twist)

lemma newline_byte: "of_char c = (10 :: u8) \<longleftrightarrow> c = CHR 0x0A"
proof -
  have n: "(of_char c :: nat) < 256" by simp
  have "(of_nat (of_char c) :: u8) = of_char c" by (rule of_nat_of_char)
  then have "unat (of_char c :: u8) = (of_char c :: nat)"
    using n unat_of_nat[of "of_char c", where 'a = 8] by simp
  moreover have "of_char c = (10 :: u8) \<longleftrightarrow> unat (of_char c :: u8) = unat (10 :: u8)"
    by (simp only: word_unat_eq_iff)
  moreover have "unat (10 :: u8) = of_char CHR 0x0A" by simp
  ultimately show ?thesis by (simp only: of_char_eq_iff)
qed

lemma panic_buffer_text:
  assumes t: "text_of memos_field format args = Some t" and buf: "unat buf + 160 \<le> 2 ^ 32"
  shows "panic_buffer buf format args m = Some (store_bytes buf (panic_text t @ [CHR 0x00]) m)"
proof -
  define u where "u = ''PANIC: '' @ take 152 t"
  define k where "k = min (length t) (unat (153 :: u32) - 1)"
  have k: "k \<le> 152" "length u = 7 + k" by (auto simp: k_def u_def)
  have "unat (buf + 7) = unat buf + 7" using buf by (simp add: unat_plus_if')
  then have v: "vsnprintf (buf + 7) (160 - 7) format args (store_bytes buf ''PANIC: '' m)
      = Some (of_nat k, store_bytes (buf + 7) (take k t @ [CHR 0x00]) (store_bytes buf ''PANIC: '' m))"
    using buf vsnprintf_stores[OF t _ _ k_def, of "buf + 7"] by simp
  have u: "store_bytes (buf + 7) (take k t @ [CHR 0x00]) (store_bytes buf ''PANIC: '' m) = store_bytes buf (u @ [CHR 0x00]) m"
  proof -
    have "u @ [CHR 0x00] = ''PANIC: '' @ take k t @ [CHR 0x00]" by (simp add: u_def k_def min_def)
    moreover have "(of_nat (length ''PANIC: '') :: u32) = 7" by simp
    ultimately show ?thesis by (simp only: store_bytes_append)
  qed
  have nz: "u = butlast u @ [last u]" "length u = Suc (length (butlast u))" using k(2) by (cases u rule: rev_cases; simp)+
  have n: "unat (of_nat (length u) :: i32) = length u"
  proof -
    have "length u < 2 ^ 32" using k by simp
    then show ?thesis by (simp add: unat_of_nat)
  qed
  have "k = min (length t) 152" by (simp add: k_def)
  then have "length u = 159 \<longleftrightarrow> 152 \<le> length t" using k(2) by auto
  moreover have "unat (160 - 1 :: i32) = 159" by simp
  ultimately have len: "(of_nat k + 7 :: i32) = of_nat (length u)" "0 <s (of_nat (length u) :: i32)"
    "(of_nat (length u) :: i32) = 160 - 1 \<longleftrightarrow> 152 \<le> length t"
    using k n sint_unat32[of "of_nat (length u)"] word_unat_eq_iff[of "of_nat (length u) :: i32" "160 - 1"]
    by (simp_all add: word_sless_alt add.commute)
  have before: "buf + of_nat (length u) - 1 = buf + of_nat (length (butlast u))" using nz(2) by simp
  have lst: "store_bytes buf (u @ [CHR 0x00]) m (buf + of_nat (length u) - 1) = of_char (last u)"
  proof -
    have "(u @ [CHR 0x00]) ! length (butlast u) = last u"
      by (metis nz(1) append.assoc append_Cons nth_append_length)
    moreover have "length (butlast u) < length (u @ [CHR 0x00])" "length (u @ [CHR 0x00]) \<le> 2 ^ 32"
      using k by simp_all
    ultimately show ?thesis unfolding before by (simp only: store_bytes_at)
  qed
  have "panic_buffer buf format args m = Some (if of_char (last u) \<noteq> (10 :: u8)
      then store_bytes (buf + of_nat (length u) - (if 152 \<le> length t then 1 else 0)) [CHR 0x0A, CHR 0x00] (store_bytes buf (u @ [CHR 0x00]) m)
      else store_bytes buf (u @ [CHR 0x00]) m)"
    unfolding panic_buffer_def v option.map prod.case u Let_def len(1) lst len(3) using len(2) by simp
  moreover have "of_char (last u) = (10 :: u8) \<longleftrightarrow> last u = CHR 0x0A" by (rule newline_byte)
  moreover have "store_bytes (buf + of_nat (length u)) [CHR 0x0A, CHR 0x00] (store_bytes buf (u @ [CHR 0x00]) m)
      = store_bytes buf (u @ [CHR 0x0A, CHR 0x00]) m" by (rule store_bytes_over)
  moreover have "store_bytes (buf + of_nat (length u) - 1) [CHR 0x0A, CHR 0x00] (store_bytes buf (u @ [CHR 0x00]) m)
      = store_bytes buf (butlast u @ [CHR 0x0A, CHR 0x00]) m"
    using store_bytes_over2[of buf "butlast u" "CHR 0x0A" "CHR 0x00" "last u" "CHR 0x00" m] nz(1)
    unfolding before by (metis append.assoc append_Cons append_Nil)
  moreover have "panic_text t = (if last u = CHR 0x0A then u else if 152 \<le> length t then butlast u @ [CHR 0x0A] else u @ [CHR 0x0A])"
    unfolding panic_text_def u_def Let_def ..
  ultimately show ?thesis by simp
qed

text \<open>
  C20: for every format the panic message of a process, cut off where the buffer ends, is closed by a
  newline and a NUL within the 160 bytes of the buffer, and nothing else in memory changes.
\<close>

theorem panic_stays_in_buffer:
  assumes "text_of memos_field format args = Some t" "unat buf + 160 \<le> 2 ^ 32"
  shows "\<exists>m'. panic_buffer buf format args m = Some m'
    \<and> length (panic_text t) < 160 \<and> last (panic_text t) = CHR 0x0A
    \<and> (\<forall>i < length (panic_text t). m' (buf + of_nat i) = of_char (panic_text t ! i))
    \<and> m' (buf + of_nat (length (panic_text t))) = 0
    \<and> (\<forall>a. \<not> in_range buf 160 a \<longrightarrow> m' a = m a)"
proof -
  have len: "length (panic_text t) < 160" by (auto simp: panic_text_def Let_def)
  then have l: "length (panic_text t @ [CHR 0x00]) \<le> 160" by simp
  then have l32: "length (panic_text t @ [CHR 0x00]) \<le> 2 ^ 32" by simp
  note stored = store_bytes_at[OF _ l32, of _ buf m]
  have "\<forall>i < length (panic_text t). store_bytes buf (panic_text t @ [CHR 0x00]) m (buf + of_nat i) = of_char (panic_text t ! i)"
    using stored by (auto simp: nth_append)
  moreover have "store_bytes buf (panic_text t @ [CHR 0x00]) m (buf + of_nat (length (panic_text t))) = 0"
    using stored[of "length (panic_text t)"] by simp
  moreover have "\<not> in_range buf 160 a \<longrightarrow> store_bytes buf (panic_text t @ [CHR 0x00]) m a = m a" for a
    using store_bytes_apply[OF l32, of buf m a] l by (simp add: in_range_def)
  moreover have "last (panic_text t) = CHR 0x0A" by (simp add: panic_text_def Let_def)
  ultimately show ?thesis using panic_buffer_text[OF assms, of m] len by blast
qed

theorem panic_stays_in_buffer_witness:
  "\<exists>m'. panic_buffer 0x1000 ''boom'' [] (\<lambda>a. 7) = Some m' \<and> m' 0x100B = 10 \<and> m' 0x100C = 0 \<and> m' 0x10A0 = 7"
proof -
  have t: "text_of memos_field ''boom'' [] = Some ''boom''" by (simp add: text_of_char)
  have p: "panic_text ''boom'' = ''PANIC: boom'' @ [CHR 0x0A]" by (simp add: panic_text_def)
  obtain m' where m': "panic_buffer 0x1000 ''boom'' [] (\<lambda>a. 7) = Some m'"
    "\<forall>i < 12. m' (0x1000 + of_nat i) = of_char ((''PANIC: boom'' @ [CHR 0x0A]) ! i)" "m' 0x100C = 0"
    "\<forall>a. \<not> in_range 0x1000 160 a \<longrightarrow> m' a = 7"
    using panic_stays_in_buffer[where format = "''boom''" and args = "[]" and t = "''boom''" and buf = "0x1000" and m = "\<lambda>a. 7", OF t] by (auto simp: p)
  have "m' 0x100B = 10" using m'(2)[rule_format, of 11] by simp
  moreover have "m' 0x10A0 = 7" using m'(4) by (simp add: in_range_def)
  ultimately show ?thesis using m'(1,3) by auto
qed

end
