(* ===== verification/Kernel_Console.thy ===== *)
theory Kernel_Console
  imports Kernel_Printf_Props
begin

text \<open>
  What printing leaves on the console of the kernels. The cells are written as a ring: a character takes
  one cell, a newline blanks the rest of its row, and the cell after the last one is the first.
\<close>

definition cell :: "char \<Rightarrow> i32 \<Rightarrow> u16" where
  "cell c color = ucast (of_nat (of_char c) OR color)"

definition cells_of :: "nat \<Rightarrow> char \<Rightarrow> i32 \<Rightarrow> u16 list" where
  "cells_of pos c color = (if c = CHR 0x0A then replicate (80 - pos mod 80) (cell CHR '' '' color) else [cell c color])"

fun expand :: "nat \<Rightarrow> (char \<times> i32) list \<Rightarrow> u16 list" where
  "expand pos [] = []"
| "expand pos ((c, color) # cs) = cells_of pos c color @ expand (pos + length (cells_of pos c color)) cs"

fun ring_write :: "nat \<Rightarrow> 'a list \<Rightarrow> 'a list \<Rightarrow> 'a list" where
  "ring_write pos [] cs = cs"
| "ring_write pos (e # es) cs = ring_write (pos + 1) es (cs[pos mod CONSOLE_CELLS := e])"

definition ring_end :: "nat \<Rightarrow> 'a list \<Rightarrow> nat" where
  "ring_end pos es = (if es = [] then pos else (pos + length es - 1) mod CONSOLE_CELLS + 1)"

lemma ring_write_append: "ring_write pos (es @ fs) cs = ring_write (pos + length es) fs (ring_write pos es cs)"
  by (induction es arbitrary: pos cs) auto

lemma length_ring_write [simp]: "length (ring_write pos es cs) = length cs"
  by (induction es arbitrary: pos cs) auto

lemma ring_write_cong:
  "pos mod CONSOLE_CELLS = pos' mod CONSOLE_CELLS \<Longrightarrow> ring_write pos es cs = ring_write pos' es cs"
proof (induction es arbitrary: pos pos' cs)
  case (Cons e es)
  have "(pos + 1) mod CONSOLE_CELLS = (pos' + 1) mod CONSOLE_CELLS"
    using Cons.prems by (metis mod_add_left_eq)
  from Cons.IH[OF this] show ?case using Cons.prems by simp
qed simp

lemma cells_of_not_Nil [simp]: "cells_of pos c color \<noteq> []"
proof -
  have "pos mod 80 < 80" by simp
  then show ?thesis by (simp add: cells_of_def not_le)
qed

lemma newline_char: "of_char c = (10 :: nat) \<longleftrightarrow> c = CHR 0x0A"
  using of_char_eq_iff[of c "CHR 0x0A", where 'a = nat] by simp

lemma put_cell_times:
  assumes "cursor s + n \<le> CONSOLE_CELLS"
  shows "(put_cell c color ^^ n) s
    = s\<lparr>cells := ring_write (cursor s) (replicate n (cell c color)) (cells s), cursor := cursor s + n\<rparr>"
  using assms
proof (induction n arbitrary: s)
  case (Suc n)
  have "cursor (put_cell c color s) = cursor s + 1"
    "cells (put_cell c color s) = (cells s)[cursor s mod CONSOLE_CELLS := cell c color]"
    using Suc.prems by (simp_all add: put_cell_def cell_def)
  then have "(put_cell c color ^^ n) (put_cell c color s) = (put_cell c color s)
      \<lparr>cells := ring_write (cursor s) (replicate (Suc n) (cell c color)) (cells s), cursor := cursor s + Suc n\<rparr>"
    using Suc.IH[of "put_cell c color s"] Suc.prems by simp
  moreover have "put_cell c color s\<lparr>cells := cs, cursor := k\<rparr> = s\<lparr>cells := cs, cursor := k\<rparr>" for cs k
    by (simp add: put_cell_def)
  ultimately show ?case by (simp add: funpow_Suc_right del: funpow.simps)
qed simp

lemma ring_end_same:
  assumes "q = pos mod CONSOLE_CELLS" "es \<noteq> []" "q + length es \<le> CONSOLE_CELLS"
  shows "ring_end pos es = q + length es"
proof -
  have "(pos + length es - 1) mod CONSOLE_CELLS = (q + (length es - 1)) mod CONSOLE_CELLS"
    using assms(2) by (cases es) (simp_all add: assms(1) mod_add_left_eq)
  also have "\<dots> = q + length es - 1" using assms(2,3) by (simp add: Suc_le_eq)
  finally show ?thesis using assms(2) by (simp add: ring_end_def)
qed

lemma console_putc_ring:
  assumes "cursor s mod CONSOLE_CELLS = pos mod CONSOLE_CELLS" "cursor s \<le> CONSOLE_CELLS"
  shows "console_putc c color s
    = s\<lparr>cells := ring_write pos (cells_of pos c color) (cells s), cursor := ring_end pos (cells_of pos c color)\<rparr>"
proof -
  define q where "q = (if CONSOLE_CELLS \<le> cursor s then 0 else cursor s)"
  have q: "q = pos mod CONSOLE_CELLS" "q < CONSOLE_CELLS" using assms by (auto simp: q_def)
  have "pos mod CONSOLE_CELLS mod 80 = pos mod 80" by (rule mod_mod_cancel) simp
  then have row: "cells_of pos c color = cells_of q c color" by (simp add: cells_of_def q(1))
  have fits: "q + length (cells_of q c color) \<le> CONSOLE_CELLS"
  proof -
    have "q div 80 < 25" using q(2) by (simp add: less_mult_imp_div_less)
    then have "q + (80 - q mod 80) \<le> 2000" using div_mult_mod_eq[of q 80] by arith
    then show ?thesis using q(2) by (simp add: cells_of_def)
  qed
  have "(if CONSOLE_CELLS \<le> cursor s then s\<lparr>cursor := 0\<rparr> else s) = s\<lparr>cursor := q\<rparr>" by (simp add: q_def)
  then have "console_putc c color s = (if c = CHR 0x0A then (put_cell CHR '' '' color ^^ (80 - q mod 80)) (s\<lparr>cursor := q\<rparr>)
      else put_cell c color (s\<lparr>cursor := q\<rparr>))"
    unfolding console_putc_def Let_def newline_char by simp
  also have "\<dots> = s\<lparr>cells := ring_write q (cells_of q c color) (cells s), cursor := q + length (cells_of q c color)\<rparr>"
  proof (cases "c = CHR 0x0A")
    case True
    then show ?thesis using fits by (simp add: cells_of_def put_cell_times)
  next
    case False
    then show ?thesis using q(2) by (simp add: cells_of_def put_cell_def cell_def)
  qed
  moreover have "ring_write q es (cells s) = ring_write pos es (cells s)" for es
    by (rule ring_write_cong) (simp add: q(1))
  ultimately show ?thesis
    using ring_end_same[OF q(1) cells_of_not_Nil fits] unfolding row by simp
qed

lemma ring_end_bounds: "ring_end pos es \<le> CONSOLE_CELLS" if "pos \<le> CONSOLE_CELLS"
  using that by (simp add: ring_end_def Suc_le_eq)

lemma ring_end_mod: "ring_end pos es mod CONSOLE_CELLS = (pos + length es) mod CONSOLE_CELLS"
proof (cases es)
  case (Cons e fs)
  have "((pos + length fs) mod CONSOLE_CELLS + 1) mod CONSOLE_CELLS = (pos + length fs + 1) mod CONSOLE_CELLS"
    by (rule mod_add_left_eq)
  then show ?thesis by (simp add: Cons ring_end_def)
qed (simp add: ring_end_def)

lemma ring_end_append:
  "fs \<noteq> [] \<Longrightarrow> ring_end (pos + length es) fs = ring_end pos (es @ fs)"
  by (simp add: ring_end_def add.assoc)

lemma fold_console_putc:
  assumes "cursor s mod CONSOLE_CELLS = pos mod CONSOLE_CELLS" "cursor s \<le> CONSOLE_CELLS"
  shows "fold (\<lambda>(x, k). console_putc x k) cs s
    = s\<lparr>cells := ring_write pos (expand pos cs) (cells s),
        cursor := (if cs = [] then cursor s else ring_end pos (expand pos cs))\<rparr>"
  using assms
proof (induction cs arbitrary: s pos)
  case (Cons xk cs)
  obtain x k where xk: "xk = (x, k)" by fastforce
  let ?es = "cells_of pos x k"
  let ?s = "s\<lparr>cells := ring_write pos ?es (cells s), cursor := ring_end pos ?es\<rparr>"
  have end_mod: "cursor ?s mod CONSOLE_CELLS = (pos + length ?es) mod CONSOLE_CELLS"
    by (simp add: ring_end_mod)
  have end_le: "cursor ?s \<le> CONSOLE_CELLS" by (simp add: ring_end_def Suc_le_eq)
  have "cs \<noteq> [] \<Longrightarrow> expand (pos + length ?es) cs \<noteq> []" by (cases cs) auto
  then show ?case
    using Cons.IH[OF end_mod end_le] console_putc_ring[OF Cons.prems, of x k]
    by (auto simp: xk ring_write_append ring_end_append)
qed simp

interpretation screen: printer console_putc "\<lambda>s. length (cells s) = CONSOLE_CELLS \<and> cursor s \<le> CONSOLE_CELLS"
  by unfold_locales (auto simp: console_putc_ring[OF refl] ring_end_def Suc_le_eq)

text \<open>A text that fits on the rest of the screen and has no newline takes the cells from the cursor on.\<close>

lemma expand_plain: "CHR 0x0A \<notin> fst ` set cs \<Longrightarrow> expand pos cs = map (\<lambda>(c, k). cell c k) cs"
  by (induction pos cs rule: expand.induct) (auto simp: cells_of_def)

text \<open>
  C21: from every cursor position a format fills the cells of the console in a ring: one cell for a
  character, the rest of the row for a newline, and the first cell after the last; the cursor that is returned
  is behind the last cell written, and no format moves it out of the console.
\<close>

theorem console_is_a_ring:
  assumes "formatted memos_field color format args = Some t" "length cs = CONSOLE_CELLS"
    and start: "start = (if sint cpos < 0 \<or> 2000 \<le> sint cpos then 0 else unat cpos)"
  shows "console_vprintf cpos color format args cs
      = Some (ring_write start (expand start t) cs, if t = [] then start else ring_end start (expand start t))
    \<and> (\<forall>cs' n. console_vprintf cpos color format args cs = Some (cs', n) \<longrightarrow> length cs' = CONSOLE_CELLS \<and> n \<le> CONSOLE_CELLS)"
proof -
  have le: "start < CONSOLE_CELLS"
  proof -
    obtain n where "unat cpos = n" "sint cpos = (if n < 2147483648 then int n else int n - 4294967296)" "n < 4294967296"
      by (rule two_readings)
    then show ?thesis unfolding start by (auto split: if_splits)
  qed
  have c: "(if cpos <s 0 \<or> of_nat CONSOLE_CELLS \<le>s cpos then 0 else unat cpos) = start"
    by (simp add: start word_sless_alt word_sle_eq)
  have v: "console_vprintf cpos color format args cs = map_option (\<lambda>s. (cells s, cursor s))
      (vprintf_loop memos_field console_putc color format args \<lparr>cells = cs, cursor = start\<rparr>)"
    unfolding console_vprintf_def printer_vprintf_def c Let_def ..
  moreover have "length cs' = CONSOLE_CELLS \<and> n \<le> CONSOLE_CELLS"
    if "console_vprintf cpos color format args cs = Some (cs', n)" for cs' n
    using screen.vprintf_inv[of "\<lparr>cells = cs, cursor = start\<rparr>" memos_field color format args] le assms(2) that v by auto
  ultimately show ?thesis
    using fold_console_putc[of "\<lparr>cells = cs, cursor = start\<rparr>" start t] le assms(1)
    by (simp add: vprintf_loop_formatted)
qed

theorem console_is_a_ring_witness:
  "console_vprintf 1999 0x0700 ''ab'' [] (replicate 2000 0)
     = Some ((replicate 2000 0)[1999 := 0x0761, 0 := 0x0762], 1)"
proof -
  have t: "formatted memos_field 0x0700 ''ab'' [] = Some [(CHR ''a'', 0x0700), (CHR ''b'', 0x0700)]"
    by (simp add: formatted_char)
  have start: "1999 = (if sint (1999 :: i32) < 0 \<or> 2000 \<le> sint (1999 :: i32) then 0 else unat (1999 :: i32))"
    by simp
  have e: "expand 1999 [(CHR ''a'', 0x0700), (CHR ''b'', 0x0700)] = [0x0761, 0x0762]"
    by (subst expand_plain) (simp_all add: cell_def)
  have printed: "console_vprintf 1999 0x0700 ''ab'' [] cs = Some (cs[1999 := 0x0761, 0 := 0x0762], 1)" if "length cs = 2000" for cs
    using conjunct1[OF console_is_a_ring[OF t that start]] unfolding e by (simp add: ring_end_def)
  show ?thesis by (intro printed length_replicate)
qed

end
