(* ===== verification/Bits.thy ===== *)
theory Bits
  imports Prelude "HOL-Library.Signed_Division"
begin

text \<open>
  The bit puzzles (\<^verbatim>\<open>C/CSAPPLab/bits/bits.c\<close>; \<^verbatim>\<open>C/CSAPPLab/pointer/bits.c\<close> is the same file)
  and their reference versions (\<^verbatim>\<open>tests.c\<close>). A C \<^verbatim>\<open>int\<close> is a 32-bit word; as the rules of the
  file say, arithmetic wraps and \<^verbatim>\<open>>>\<close> on \<^verbatim>\<open>int\<close> is arithmetic. A shift by 32 or more is
  undefined in C: \<open>shl\<close> and \<open>asr\<close> are only meant for amounts below 32.
\<close>

section \<open>C operators\<close>

definition shl :: "i32 \<Rightarrow> i32 \<Rightarrow> i32" where "shl x n = push_bit (unat n) x"
definition asr :: "i32 \<Rightarrow> i32 \<Rightarrow> i32" where "asr x n = signed_drop_bit (unat n) x"
definition lsr :: "u32 \<Rightarrow> u32 \<Rightarrow> u32" where "lsr x n = drop_bit (unat n) x"
definition lnot :: "i32 \<Rightarrow> i32" where "lnot x = of_bool (x = 0)"

section \<open>The solutions\<close>

definition bitAnd :: "i32 \<Rightarrow> i32 \<Rightarrow> i32" where
  "bitAnd x y = NOT (NOT x OR NOT y)"

definition bitXor :: "i32 \<Rightarrow> i32 \<Rightarrow> i32" where
  "bitXor x y = NOT (NOT (NOT x AND y) AND NOT (x AND NOT y))"

definition thirdBits :: i32 where
  "thirdBits = (let word = 1; word = word OR shl word 3; word = word OR shl word 6;
     word = word OR shl word 12; word = word OR shl word 24 in word)"

definition fitsBits :: "i32 \<Rightarrow> i32 \<Rightarrow> i32" where
  "fitsBits x n = (let isPositive = lnot (asr x 31); shift = n + NOT 0
     in (isPositive AND lnot (asr x shift)) OR (lnot isPositive AND lnot (asr (NOT x) shift)))"

definition sign :: "i32 \<Rightarrow> i32" where
  "sign x = asr x 31 OR lnot (lnot x)"

definition getByte :: "i32 \<Rightarrow> i32 \<Rightarrow> i32" where
  "getByte x n = asr x (shl n 3) AND 0xFF"

definition logicalShift :: "i32 \<Rightarrow> i32 \<Rightarrow> i32" where
  "logicalShift x n = (let mask = NOT (shl (asr (shl 1 31) n) 1) in mask AND asr x n)"

definition addOK :: "i32 \<Rightarrow> i32 \<Rightarrow> i32" where
  "addOK x y = (let is_x_Positive = lnot (asr x 31); is_y_Positive = lnot (asr y 31);
     is_xy_diff_sign = is_x_Positive XOR is_y_Positive; result = x + y;
     is_r_Positive = lnot (asr result 31);
     is_xr_same_sign = lnot (is_x_Positive XOR is_r_Positive)
     in is_xy_diff_sign OR (lnot is_xy_diff_sign AND is_xr_same_sign))"

definition bang :: "i32 \<Rightarrow> i32" where
  "bang x = (let x = x OR asr x 16; x = x OR asr x 8; x = x OR asr x 4; x = x OR asr x 2;
     x = x OR asr x 1 in (x AND 1) XOR 1)"

definition conditional :: "i32 \<Rightarrow> i32 \<Rightarrow> i32 \<Rightarrow> i32" where
  "conditional x y z = (let mask = asr (shl (lnot (lnot x)) 31) 31
     in (mask AND y) OR (NOT mask AND z))"

definition isPower2 :: "i32 \<Rightarrow> i32" where
  "isPower2 x = (let notZero = lnot (lnot x)
     in notZero AND (lnot (asr x 31) AND lnot (x AND (x + NOT 0))))"

definition tmin :: i32 where "tmin = shl 1 31"

definition isPositive :: "i32 \<Rightarrow> i32" where
  "isPositive x = (let notZero = lnot (lnot x) in asr (shl notZero 31) 31 AND lnot (asr x 31))"

definition negate :: "i32 \<Rightarrow> i32" where "negate x = NOT x + 1"

definition float_neg :: "u32 \<Rightarrow> u32" where
  "float_neg uf = (let tmp = uf AND NOT (shl 1 31)
     in if tmp > shl 0xFF 23 then uf else uf XOR shl 1 31)"

text \<open>The normalisation loop shifts until the top bit is set.\<close>

partial_function (option) normalize :: "u32 \<Rightarrow> u32 \<Rightarrow> (u32 \<times> u32) option" where
  "normalize abs_x leftshift =
     (if abs_x AND shl 1 31 \<noteq> 0 then Some (abs_x, leftshift)
      else normalize (shl abs_x 1) (leftshift + 1))"

definition float_i2f :: "i32 \<Rightarrow> u32 option" where
  "float_i2f x =
     (let bias = shl 1 (8 - 1) - 1 in
      if x = 0 then Some 0
      else let sign = x AND shl 1 31; abs_x = (if x <s 0 then - x else x) in
        case normalize abs_x 1 of None \<Rightarrow> None
        | Some (abs_x, leftshift) \<Rightarrow>
            (let abs_x = shl abs_x 1;
                 round = (if abs_x AND 0x1FF > 0x100 then 1
                          else if abs_x AND 0x3FF = 0x300 then 1 else 0);
                 true_exp = 32 - leftshift
             in Some ((sign OR shl (bias + true_exp) 23 OR lsr abs_x 9) + round)))"

definition float_twice :: "u32 \<Rightarrow> u32" where
  "float_twice uf =
     (let sign = uf AND shl 1 31; exp_mask = asr (shl 1 31) 8 AND NOT (shl 1 31);
          e = uf AND exp_mask
      in if e = 0 then shl uf 1 OR sign
         else if e \<noteq> exp_mask then uf + shl 1 (32 - 1 - 8) else uf)"

definition isLessOrEqual :: "i32 \<Rightarrow> i32 \<Rightarrow> i32" where
  "isLessOrEqual x y = (let is_x_Negative = lnot (lnot (asr x 31)); is_y_Negative = lnot (lnot (asr y 31));
     is_xy_diff_sign = is_x_Negative XOR is_y_Negative
     in (is_xy_diff_sign AND is_x_Negative) OR (lnot is_xy_diff_sign AND asr (x + NOT y) 31))"

definition divpwr2 :: "i32 \<Rightarrow> i32 \<Rightarrow> i32" where
  "divpwr2 x n = (let isNegative = asr x 31; bias = isNegative AND (shl 1 n + NOT 0)
     in asr (x + bias) n)"

definition ilog2 :: "i32 \<Rightarrow> i32" where
  "ilog2 x =
     (let not_all_bit_0 = lnot (lnot (asr x 16)); shift1 = shl not_all_bit_0 4; x = asr x shift1;
          not_all_bit_0 = lnot (lnot (asr x 8)); shift2 = shl not_all_bit_0 3; x = asr x shift2;
          not_all_bit_0 = lnot (lnot (asr x 4)); shift3 = shl not_all_bit_0 2; x = asr x shift3;
          not_all_bit_0 = lnot (lnot (asr x 2)); shift4 = shl not_all_bit_0 1; x = asr x shift4;
          not_all_bit_0 = lnot (lnot (asr x 1)); shift5 = not_all_bit_0
      in shift1 + shift2 + shift3 + shift4 + shift5)"

definition bitCount :: "i32 \<Rightarrow> i32" where
  "bitCount x =
     (let mask = 0x11; mask = mask OR shl mask 8; mask = mask OR shl mask 16;
          result = x AND mask; result = result + (asr x 1 AND mask);
          result = result + (asr x 2 AND mask); result = result + (asr x 3 AND mask);
          mask = 0x0F; mask = mask OR shl mask 8; mask = mask OR shl mask 16;
          result1 = result AND mask; result1 = result1 + (asr result 4 AND mask);
          mask = 0xFF; mask = mask OR shl mask 16;
          result2 = result1 AND mask; result2 = result2 + (asr result1 8 AND mask);
          mask = 0xFF;
          result3 = result2 AND mask; result3 = result3 + (asr result2 16 AND mask)
      in result3)"

section \<open>The references\<close>

definition of_test :: "bool \<Rightarrow> i32" where "of_test b = of_bool b"

definition test_bitAnd :: "i32 \<Rightarrow> i32 \<Rightarrow> i32" where "test_bitAnd x y = x AND y"
definition test_bitXor :: "i32 \<Rightarrow> i32 \<Rightarrow> i32" where "test_bitXor x y = x XOR y"

definition test_thirdBits :: i32 where
  "test_thirdBits = fold (\<lambda>i result. result OR push_bit i 1) [0, 3, 6, 9, 12, 15, 18, 21, 24, 27, 30] 0"

definition test_fitsBits :: "i32 \<Rightarrow> i32 \<Rightarrow> i32" where
  "test_fitsBits x n = (let TMin_n = - shl 1 (n - 1); TMax_n = shl 1 (n - 1) - 1
     in of_test (TMin_n \<le>s x \<and> x \<le>s TMax_n))"

definition test_sign :: "i32 \<Rightarrow> i32" where
  "test_sign x = (if x = 0 then 0 else if x <s 0 then - 1 else 1)"

definition test_getByte :: "i32 \<Rightarrow> i32 \<Rightarrow> i32" where
  "test_getByte x n =
     (let byte :: u8 = (if n = 0 then ucast x else if n = 1 then ucast (asr x 8)
        else if n = 2 then ucast (asr x 16) else ucast (asr x 24)) in ucast byte)"

definition test_logicalShift :: "i32 \<Rightarrow> i32 \<Rightarrow> i32" where
  "test_logicalShift x n = lsr x n"

definition test_addOK :: "i32 \<Rightarrow> i32 \<Rightarrow> i32" where
  "test_addOK x y = (let lsum = sint x + sint y in of_test (lsum = sint (word_of_int lsum :: i32)))"

definition test_bang :: "i32 \<Rightarrow> i32" where "test_bang x = lnot x"

definition test_conditional :: "i32 \<Rightarrow> i32 \<Rightarrow> i32 \<Rightarrow> i32" where
  "test_conditional x y z = (if x \<noteq> 0 then y else z)"

definition test_isPower2 :: "i32 \<Rightarrow> i32" where
  "test_isPower2 x = of_test (list_ex (\<lambda>i. x = push_bit i 1) [0..<31])"

definition test_tmin :: i32 where "test_tmin = 0x80000000"

definition test_bitCount :: "i32 \<Rightarrow> i32" where
  "test_bitCount x = fold (\<lambda>i result. result + (signed_drop_bit i x AND 1)) [0..<32] 0"

definition test_divpwr2 :: "i32 \<Rightarrow> i32 \<Rightarrow> i32" where
  "test_divpwr2 x n = (let p2n = shl 1 n in word_of_int (sint x sdiv sint p2n))"

definition test_negate :: "i32 \<Rightarrow> i32" where "test_negate x = - x"

definition test_isPositive :: "i32 \<Rightarrow> i32" where "test_isPositive x = of_test (0 <s x)"

definition test_isLessOrEqual :: "i32 \<Rightarrow> i32 \<Rightarrow> i32" where "test_isLessOrEqual x y = of_test (x \<le>s y)"

partial_function (option) ilog2_loop :: "i32 \<Rightarrow> i32 \<Rightarrow> i32 \<Rightarrow> i32 option" where
  "ilog2_loop x result m =
     (if x AND m = 0 then ilog2_loop x (result - 1) (shl 1 (result - 1)) else Some result)"

definition test_ilog2 :: "i32 \<Rightarrow> i32 option" where
  "test_ilog2 x = ilog2_loop x 31 (shl 1 31)"

end
