(* ===== verification/Bits_Ref.thy ===== *)
theory Bits_Ref
  imports Bits
begin

text \<open>
  The integer puzzles agree with the reference versions of \<^verbatim>\<open>tests.c\<close>: bitwise ones by comparing
  bits, arithmetic ones through the signed value, \<^verbatim>\<open>ilog2\<close> through the position of the highest bit
  and \<^verbatim>\<open>bitCount\<close> through the digits of its partial sums.
\<close>

section \<open>Shifts\<close>

lemma bit_shl: "bit (shl x k) i \<longleftrightarrow> unat k \<le> i \<and> i < 32 \<and> bit x (i - unat k)"
  by (auto simp: shl_def bit_push_bit_iff)

lemma bit_asr: "bit (asr x k) i \<longleftrightarrow> i < 32 \<and> bit x (if 32 - unat k \<le> i then 31 else unat k + i)"
  by (auto simp: asr_def bit_signed_drop_bit_iff dest: bit_imp_le_length)

lemma bit_lsr: "bit (lsr x k) i \<longleftrightarrow> i < 32 \<and> bit x (unat k + i)"
  by (auto simp: lsr_def bit_drop_bit_eq dest: bit_imp_le_length)

lemma sint32: "- 2147483648 \<le> sint (x :: i32)" "sint (x :: i32) < 2147483648"
  using sint_greater_eq[of x] sint_less[of x] by simp_all

lemma sint_asr: "sint (asr x n) = sint x div 2 ^ unat n"
  by (simp add: asr_def sint_signed_drop_bit_eq drop_bit_eq_div)

lemma sint_eqI: "sint x = sint y \<Longrightarrow> x = y"
  by (rule signed_word_eqI)

lemma sint_eq_0 [simp]: "sint (x :: i32) = 0 \<longleftrightarrow> x = 0"
  by (metis sint_0 sint_eqI)

lemma asr_31: "asr x 31 = (if sint x < 0 then - 1 else 0)"
proof (rule sint_eqI)
  show "sint (asr x 31) = sint (if sint x < 0 then - 1 else 0 :: i32)"
    using sint32[of x] by (auto simp: sint_asr zdiv_eq_0_iff)
qed

lemma tmin_eq: "shl 1 31 = 0x80000000" by code_simp
lemma sint_tmin: "sint (0x80000000 :: i32) = - 2147483648" by code_simp
lemma unat_small: "unat (31 :: i32) = 31" "unat (1 :: i32) = 1" by code_simp+

lemma shl_bool_31: "asr (shl (of_bool b) 31) 31 = (if b then - 1 else 0)"
proof -
  have "asr (shl 1 31) 31 = - 1" "asr (shl 0 31) 31 = 0" by code_simp+
  then show ?thesis by (cases b) simp_all
qed

lemma lnot_simps [simp]: "lnot 0 = 1" "x \<noteq> 0 \<Longrightarrow> lnot x = 0" "lnot (lnot x) = of_bool (x \<noteq> 0)"
  "lnot (of_bool b) = of_bool (\<not> b)"
  by (auto simp: lnot_def)

lemma lnot_asr_31: "lnot (asr x 31) = of_bool (0 \<le> sint x)"
  by (simp add: asr_31 lnot_def)

lemma lnot_lnot_asr_31: "(asr x 31 \<noteq> 0) = (sint x < 0)"
  by (simp add: asr_31)

lemma bitAnd_ok: "bitAnd x y = test_bitAnd x y" by (simp add: bitAnd_def test_bitAnd_def)
lemma bitXor_ok: "bitXor x y = test_bitXor x y"
  by (auto simp: bitXor_def test_bitXor_def intro!: bit_word_eqI simp: bit_simps)
lemma thirdBits_ok: "thirdBits = test_thirdBits" by code_simp
lemma sign_ok: "sign x = test_sign x"
  by (auto simp: sign_def test_sign_def asr_31 word_sless_alt)
lemma small_cases: "n < 4 \<Longrightarrow> n = 0 \<or> n = 1 \<or> n = 2 \<or> n = (3 :: i32)"
proof -
  assume "n < 4"
  then have "unat n < 4" by (simp add: word_less_nat_alt)
  then have "unat n \<in> {0, 1, 2, 3}" by auto
  moreover have "n = of_nat k" if "unat n = k" for k using that by auto
  from this[of 0] this[of 1] this[of 2] this[of 3] have "unat n = 0 \<longrightarrow> n = 0" "unat n = 1 \<longrightarrow> n = 1"
    "unat n = 2 \<longrightarrow> n = 2" "unat n = 3 \<longrightarrow> n = 3" by simp_all
  ultimately show ?thesis by blast
qed

lemma byte_mask: "ucast (ucast y :: u8) = (y AND 0xFF :: i32)"
proof -
  have "ucast (ucast y :: u8) = (take_bit 8 y :: i32)"
    by (rule bit_word_eqI) (auto simp: bit_simps)
  moreover have "(0xFF :: i32) = mask 8" by code_simp
  ultimately show ?thesis by (simp only: take_bit_eq_mask)
qed

lemma getByte_ok: "n < 4 \<Longrightarrow> getByte x n = test_getByte x n"
proof -
  have sh: "shl 0 3 = 0" "shl 1 3 = 8" "shl 2 3 = 16" "shl 3 3 = 24" by code_simp+
  have a0: "asr x 0 = x" by (simp add: asr_def)
  assume "n < 4"
  from small_cases[OF this] show ?thesis
    by (elim disjE) (simp_all add: getByte_def test_getByte_def sh a0 byte_mask)
qed

lemma logicalShift_ok: "n < 32 \<Longrightarrow> logicalShift x n = test_logicalShift x n"
  unfolding logicalShift_def test_logicalShift_def Let_def
  by (rule bit_word_eqI) (auto simp: bit_simps bit_shl bit_asr bit_lsr unat_small bit_1_iff word_less_nat_alt dest: bit_imp_le_length)
lemma sint_of_int32: "sint (word_of_int k :: i32) = (k + 2147483648) mod 4294967296 - 2147483648"
  by (simp add: sint_sbintrunc' signed_take_bit_eq_take_bit_shift take_bit_eq_mod)

lemma sint_add32: "sint (x + y :: i32) = (sint x + sint y + 2147483648) mod 4294967296 - 2147483648"
  by (simp add: sint_word_ariths signed_take_bit_eq_take_bit_shift take_bit_eq_mod)

lemma wrap32:
  assumes "- 4294967296 \<le> k" "k < 4294967296"
  shows "(k + 2147483648) mod 4294967296 - 2147483648 =
    (if k < - 2147483648 then k + 4294967296
     else if 2147483648 \<le> k then k - 4294967296 else k :: int)"
proof -
  have "(k + 2147483648) mod 4294967296 = (k + 2147483648 + 4294967296) mod 4294967296"
    "(k + 2147483648) mod 4294967296 = (k + 2147483648 - 4294967296) mod 4294967296"
    by (simp_all only: mod_add_self2 minus_mod_self2)
  then show ?thesis
    using assms mod_pos_pos_trivial[of "k + 2147483648" 4294967296]
      mod_pos_pos_trivial[of "k + 2147483648 + 4294967296" 4294967296]
      mod_pos_pos_trivial[of "k + 2147483648 - 4294967296" 4294967296]
    by (cases "k < - 2147483648"; cases "2147483648 \<le> k") simp_all
qed

lemma addOK_ok: "addOK x y = test_addOK x y"
proof -
  define s where "s = sint x + sint y"
  have b: "- 4294967296 \<le> s" "s < 4294967296" using sint32[of x] sint32[of y] by (simp_all add: s_def)
  have xy: "sint (x + y) = (if s < - 2147483648 then s + 4294967296
     else if 2147483648 \<le> s then s - 4294967296 else s)"
    unfolding sint_add32 s_def[symmetric] by (rule wrap32[OF b])
  have t: "test_addOK x y = of_bool (- 2147483648 \<le> s \<and> s < 2147483648)"
    unfolding test_addOK_def Let_def s_def[symmetric] sint_of_int32 wrap32[OF b] of_test_def by auto
  show ?thesis
    using sint32[of x] sint32[of y] unfolding t addOK_def Let_def lnot_asr_31 xy
    by (cases "0 \<le> sint x"; cases "0 \<le> sint y") (auto simp: s_def)
qed

lemma conditional_ok: "conditional x y z = test_conditional x y z"
  by (simp add: conditional_def test_conditional_def shl_bool_31)
lemma tmin_ok: "tmin = test_tmin" by code_simp
lemma isPositive_ok: "isPositive x = test_isPositive x"
  by (auto simp: isPositive_def test_isPositive_def shl_bool_31 lnot_asr_31 of_test_def word_sless_alt)
lemma negate_ok: "negate x = test_negate x"
  by (simp add: negate_def test_negate_def not_eq_complement)

lemma sint_of_int: "- 2147483648 \<le> k \<Longrightarrow> k < 2147483648 \<Longrightarrow> sint (word_of_int k :: i32) = k"
  unfolding sint_of_int32 by (subst wrap32) auto

lemma sint_not: "sint (NOT x :: i32) = - sint x - 1"
proof -
  have "NOT x = word_of_int (- sint x - 1)" by (simp add: not_eq_complement)
  then show ?thesis using sint_of_int[of "- sint x - 1"] sint32[of x] by simp
qed

lemma shl_power: "shl 1 n = word_of_int (2 ^ unat n)"
  by (simp add: shl_def)

lemma power_le_31: "k \<le> 31 \<Longrightarrow> (2 :: int) ^ k \<le> 2147483648"
  using power_increasing[of k 31 "2 :: int"] by simp

lemma asr_eq_0: "asr y n = 0 \<longleftrightarrow> 0 \<le> sint y \<and> sint y < 2 ^ unat n"
proof -
  have "asr y n = 0 \<longleftrightarrow> sint y div 2 ^ unat n = 0" by (metis sint_eq_0 sint_asr)
  moreover have "(0 :: int) < 2 ^ unat n" by simp
  ultimately show ?thesis unfolding zdiv_eq_0_iff by linarith
qed

lemma fitsBits_ok: "1 \<le> n \<Longrightarrow> n \<le> 32 \<Longrightarrow> fitsBits x n = test_fitsBits x n"
proof -
  assume n: "1 \<le> n" "n \<le> 32"
  define k where "k = unat (n - 1)"
  have k: "k \<le> 31" using n by (simp add: k_def word_le_nat_alt unat_sub)
  note p = power_le_31[OF k]
  have pos: "(0 :: int) < 2 ^ k" by simp
  have shift: "n + NOT 0 = n - 1" by (simp add: not_eq_complement)
  have f: "fitsBits x n = of_bool (- (2 ^ k) \<le> sint x \<and> sint x < 2 ^ k)"
    unfolding fitsBits_def Let_def lnot_asr_31 shift
    using pos by (cases "0 \<le> sint x") (auto simp: lnot_def asr_eq_0 sint_not k_def)
  have m: "sint (- shl 1 (n - 1)) = - (2 ^ k)" "sint (shl 1 (n - 1) - 1) = 2 ^ k - 1"
    using sint_of_int[of "- (2 ^ k)"] sint_of_int[of "2 ^ k - 1"] p pos
    unfolding shl_power k_def[symmetric] by simp_all
  show ?thesis unfolding f test_fitsBits_def Let_def of_test_def word_sle_eq m by auto
qed

lemma div_toward_zero: "0 < d \<Longrightarrow> x < 0 \<Longrightarrow> (x + (d - 1)) div d = - ((- x) div d)" for d x :: int
proof -
  assume d: "0 < d"
  define q where "q = (- x) div d"
  define r where "r = (- x) mod d"
  have "- x = q * d + r" "0 \<le> r" "r < d" using d by (simp_all add: q_def r_def)
  then have "x + (d - 1) = (d - 1 - r) + (- q) * d" "0 \<le> d - 1 - r" "d - 1 - r < d" by (simp_all add: algebra_simps)
  then have "(x + (d - 1)) div d = - q"
    using d by (simp only: div_mult_self1) (simp add: div_pos_pos_trivial)
  then show ?thesis by (simp add: q_def)
qed

lemma divpwr2_ok: "unat n \<le> 30 \<Longrightarrow> divpwr2 x n = test_divpwr2 x n"
proof -
  assume n: "unat n \<le> 30"
  define d :: int where "d = 2 ^ unat n"
  have d: "0 < d" "d \<le> 1073741824" using n power_increasing[of "unat n" 30 "2 :: int"] by (simp_all add: d_def)
  have sd: "sint (shl 1 n) = d"
    unfolding shl_power d_def[symmetric] by (rule sint_of_int) (use d in simp_all)
  have shift: "shl 1 n + NOT 0 = word_of_int (d - 1)" by (simp add: not_eq_complement shl_power d_def)
  define b where "b = (if sint x < 0 then d - 1 else 0)"
  have "sint (x + (asr x 31 AND (shl 1 n + NOT 0))) = sint x + b"
  proof -
    have "x + (asr x 31 AND (shl 1 n + NOT 0)) = word_of_int (sint x + b)"
      unfolding shift by (simp add: asr_31 b_def)
    then show ?thesis using sint_of_int[of "sint x + b"] sint32[of x] d by (simp add: b_def)
  qed
  then have "sint (divpwr2 x n) = (sint x + b) div d"
    by (simp add: divpwr2_def sint_asr d_def)
  also have "\<dots> = sint x sdiv d"
    using d(1) div_toward_zero[OF d(1), of "sint x"]
    by (auto simp: b_def signed_divide_int_def sgn_if)
  finally have "sint (divpwr2 x n) = sint x sdiv d" .
  moreover have "word_of_int (sint (divpwr2 x n)) = divpwr2 x n" by simp
  ultimately show ?thesis by (simp add: test_divpwr2_def sd)
qed

lemma isLessOrEqual_ok: "isLessOrEqual x y = test_isLessOrEqual x y"
proof -
  have "x + NOT y = word_of_int (sint x - sint y - 1)" by (simp add: not_eq_complement)
  then have ny: "sint (x + NOT y) = (sint x - sint y - 1 + 2147483648) mod 4294967296 - 2147483648"
    by (simp only: sint_of_int32)
  have b: "- 4294967296 \<le> sint x - sint y - 1" "sint x - sint y - 1 < 4294967296"
    using sint32[of x] sint32[of y] by simp_all
  show ?thesis
  using sint32[of x] sint32[of y] ny unfolding wrap32[OF b]
  unfolding isLessOrEqual_def test_isLessOrEqual_def Let_def of_test_def word_sle_eq asr_31
  by (cases "0 \<le> sint x"; cases "0 \<le> sint y") auto
qed

section \<open>bang and isPower2\<close>

lemma bit_or_asr: "bit (x OR asr x k) i \<longleftrightarrow> bit x i \<or> i < 32 \<and> bit x (if 32 - unat k \<le> i then 31 else unat k + i)"
  by (auto simp: bit_or_iff bit_asr)

lemma zero_iff_bits: "x = (0 :: i32) \<longleftrightarrow> \<not> list_ex (bit x) [0..<32]"
proof -
  have "x = 0 \<longleftrightarrow> (\<forall>i < 32. \<not> bit x i)"
    using bit_word_eqI[of x 0] by auto
  then show ?thesis by (auto simp: list_ex_iff)
qed

lemma bang_ok: "bang x = test_bang x"
proof -
  define x5 where "x5 = (let x = x OR asr x 16; x = x OR asr x 8; x = x OR asr x 4; x = x OR asr x 2
     in x OR asr x 1)"
  have u: "unat (16 :: i32) = 16" "unat (8 :: i32) = 8" "unat (4 :: i32) = 4" "unat (2 :: i32) = 2"
    "unat (1 :: i32) = 1" by code_simp+
  have l: "[0..<32] = [0, 1, 2, 3, 4, 5, 6, 7, 8, 9, 10, 11, 12, 13, 14, 15, 16, 17, 18, 19, 20, 21,
    22, 23, 24, 25, 26, 27, 28, 29, 30, 31 :: nat]" by code_simp
  have "bit x5 0 \<longleftrightarrow> list_ex (bit x) [0..<32]"
    unfolding x5_def Let_def l by (simp add: bit_or_asr u) (simp only: disj_ac)
  then have "odd x5 \<longleftrightarrow> x \<noteq> 0" by (simp add: zero_iff_bits bit_0)
  moreover have "bang x = (x5 AND 1) XOR 1" by (simp add: bang_def x5_def Let_def)
  ultimately show ?thesis by (simp add: test_bang_def lnot_def and_one_eq mod2_eq_if)
qed

section \<open>isPower2 and ilog2\<close>

definition hi_bit :: "nat \<Rightarrow> i32 \<Rightarrow> bool" where
  "hi_bit h x \<longleftrightarrow> h < 31 \<and> 2 ^ h \<le> sint x \<and> sint x < 2 ^ (h + 1)"

lemma hi_bit_ex: "0 < sint x \<Longrightarrow> \<exists>h. hi_bit h x"
proof -
  assume pos: "0 < sint x"
  then have "1 \<le> nat (sint x)" by simp
  from ex_power_ivl1[OF _ this, of 2] obtain h where h: "2 ^ h \<le> nat (sint x)" "nat (sint x) < 2 ^ (h + 1)"
    by auto
  have e: "nat (sint x) = k \<longleftrightarrow> sint x = int k" for k using pos by auto
  have i: "2 ^ h \<le> sint x" "sint x < 2 ^ (h + 1)"
    using h pos by (simp_all add: le_nat_iff nat_less_iff)
  have "(2 :: int) ^ h < 2 ^ 31" using i(1) sint32(2)[of x] by simp
  then have "h < 31" by (rule power_less_imp_less_exp[rotated]) simp
  then show ?thesis using i by (auto simp: hi_bit_def)
qed

lemma hi_bit_bit: "hi_bit h x \<Longrightarrow> bit x h"
proof -
  assume h: "hi_bit h x"
  have "sint x div 2 ^ h = 1"
    by (rule int_div_pos_eq[of _ _ _ "sint x - 2 ^ h"]) (use h in \<open>auto simp: hi_bit_def\<close>)
  then have "bit (sint x) h" by (simp add: bit_iff_odd)
  then show "bit x h" using h by (simp add: hi_bit_def bit_sint_iff)
qed

lemma hi_bit_above: "hi_bit h x \<Longrightarrow> h < k \<Longrightarrow> \<not> bit x k"
proof
  assume h: "hi_bit h x" "h < k" and b: "bit x k"
  from b have k: "k < 32" using bit_imp_le_length[of x k] by simp
  have "(2 :: int) ^ (h + 1) \<le> 2 ^ k" by (rule power_increasing) (use h in auto)
  then have "sint x div 2 ^ k = 0" using h(1) by (auto simp: hi_bit_def intro!: div_pos_pos_trivial)
  then have "\<not> bit (sint x) k" by (simp add: bit_iff_odd)
  then show False using b k by (auto simp: bit_sint_iff min_def split: if_splits)
qed

lemma hi_bit_unique: "hi_bit h x \<Longrightarrow> hi_bit k x \<Longrightarrow> h = k"
  by (metis hi_bit_above hi_bit_bit linorder_neqE_nat)

lemma powers_of_two: "list_all (\<lambda>i. isPower2 (push_bit i 1) = 1 \<and> test_isPower2 (push_bit i 1) = 1) [0..<31]"
  by code_simp

lemma isPower2_ok: "isPower2 x = test_isPower2 x"
proof (cases "list_ex (\<lambda>i. x = push_bit i 1) [0..<31]")
  case True
  then obtain i where "i < 31" "x = push_bit i 1" by (auto simp: list_ex_iff)
  then show ?thesis using powers_of_two by (auto simp: list_all_iff)
next
  case False
  have m: "x + NOT 0 = x - 1" by (simp add: not_eq_complement)
  have "x AND (x - 1) \<noteq> 0" if pos: "0 < sint x"
  proof
    assume z: "x AND (x - 1) = 0"
    obtain h where h: "hi_bit h x" using hi_bit_ex[OF pos] by blast
    have "sint x \<noteq> 2 ^ h"
    proof
      assume "sint x = 2 ^ h"
      then have "word_of_int (sint x) = (word_of_int (2 ^ h) :: i32)" by simp
      then have "x = push_bit h 1" by (simp add: push_bit_eq_mult)
      then show False using False h by (auto simp: list_ex_iff hi_bit_def)
    qed
    moreover have "sint (x - 1) = sint x - 1"
      using sint_of_int[of "sint x - 1"] sint32[of x] pos by simp
    ultimately have "hi_bit h (x - 1)" using h by (auto simp: hi_bit_def)
    then have "bit (x AND (x - 1)) h" using hi_bit_bit h by (simp add: bit_and_iff)
    then show False by (simp add: z)
  qed
  then show ?thesis using False
    by (cases "sint x" "0 :: int" rule: linorder_cases)
      (simp_all add: isPower2_def test_isPower2_def of_test_def Let_def m lnot_asr_31)
qed

lemma ilog2_loop_hi:
  "hi_bit h x \<Longrightarrow> h \<le> r \<Longrightarrow> r \<le> 31 \<Longrightarrow>
    ilog2_loop x (of_nat r) (shl 1 (of_nat r)) = Some (of_nat h)"
proof (induction r)
  case 0
  then have b: "bit x 0" using hi_bit_bit by auto
  have "x AND shl 1 0 \<noteq> 0" using b by (auto simp: shl_def bit_0 and_one_eq mod2_eq_if)
  then show ?case using 0 by (subst ilog2_loop.simps) simp
next
  case (Suc r)
  have u: "unat (of_nat (Suc r) :: i32) = Suc r" using Suc.prems unfolding unat_of_nat by simp
  have n: "x AND shl 1 (of_nat (Suc r)) \<noteq> 0 \<longleftrightarrow> bit x (Suc r)"
    using Suc.prems unfolding shl_def u
    by (simp only: push_bit_of_1 and_exp_eq_0_iff_not_bit not_not)
  show ?case
  proof (cases "h = Suc r")
    case True
    then have "bit x (Suc r)" using hi_bit_bit Suc.prems(1) by blast
    then show ?thesis using n by (subst ilog2_loop.simps) (simp add: True)
  next
    case False
    then have "\<not> bit x (Suc r)" using hi_bit_above Suc.prems by auto
    moreover have "of_nat (Suc r) - 1 = (of_nat r :: i32)" by simp
    ultimately show ?thesis using n Suc False by (subst ilog2_loop.simps) simp
  qed
qed

lemma int_le_div_iff: "0 < d \<Longrightarrow> q \<le> x div d \<longleftrightarrow> q * d \<le> x" for d x q :: int
proof
  assume d: "0 < d" and q: "q \<le> x div d"
  have "q * d \<le> x div d * d" using q d by (intro mult_right_mono) auto
  also have "\<dots> \<le> x" using d div_mult_mod_eq[of x d] pos_mod_sign[of d x] by linarith
  finally show "q * d \<le> x" .
next
  assume "0 < d" "q * d \<le> x"
  then show "q \<le> x div d" using zdiv_mono1[of "q * d" x d] by simp
qed

lemma hi_bit_step:
  assumes "hi_bit h x" "h < 2 * k" "unat s = (if k \<le> h then k else 0)"
  shows "hi_bit (h - unat s) (asr x s)" "h - unat s < k"
proof -
  show "h - unat s < k" using assms(2,3) by auto
  show "hi_bit (h - unat s) (asr x s)"
  proof (cases "k \<le> h")
    case True
    then have s: "unat s \<le> h" using assms(3) by simp
    define d :: int where "d = 2 ^ unat s"
    have d: "0 < d" by (simp add: d_def)
    have p: "2 ^ h = 2 ^ (h - unat s) * d" "2 ^ (h + 1) = 2 ^ (h - unat s + 1) * d"
      using s by (simp_all add: d_def flip: power_add)
    have "2 ^ (h - unat s) \<le> sint x div d" "sint x div d < 2 ^ (h - unat s + 1)"
      using assms(1) d unfolding hi_bit_def p
      by (simp_all add: int_le_div_iff flip: not_le)
    then show ?thesis using assms(1) by (auto simp: hi_bit_def sint_asr d_def)
  next
    case False
    then show ?thesis using assms by (simp add: asr_def)
  qed
qed

lemma hi_bit_test: "hi_bit h x \<Longrightarrow> unat k = n \<Longrightarrow> (asr x k = 0) = (h < n)"
proof -
  assume h: "hi_bit h x" and k: "unat k = n"
  have "sint x < 2 ^ n \<longleftrightarrow> h < n"
  proof
    assume "sint x < 2 ^ n"
    then have "(2 :: int) ^ h < 2 ^ n" using h unfolding hi_bit_def by (meson le_less_trans)
    then show "h < n" by (rule power_less_imp_less_exp[rotated]) simp
  next
    assume "h < n"
    then have "(2 :: int) ^ (h + 1) \<le> 2 ^ n" by (intro power_increasing) auto
    then show "sint x < 2 ^ n" using h by (auto simp: hi_bit_def)
  qed
  moreover have "(0 :: int) < 2 ^ h" by simp
  ultimately show ?thesis using h k unfolding asr_eq_0 hi_bit_def by auto
qed

lemma ilog2_hi: "hi_bit h x \<Longrightarrow> ilog2 x = of_nat h"
proof -
  assume h0: "hi_bit h x"
  have u: "unat (16 :: i32) = 16" "unat (8 :: i32) = 8" "unat (4 :: i32) = 4" "unat (2 :: i32) = 2"
    "unat (1 :: i32) = 1" by code_simp+
  have sh: "shl 0 4 = 0" "shl 1 4 = 16" "shl 0 3 = 0" "shl 1 3 = 8" "shl 0 2 = 0" "shl 1 2 = 4"
    "shl 0 1 = 0" "shl 1 1 = 2" by code_simp+
  define s1 where "s1 = shl (lnot (lnot (asr x 16))) 4"
  define s2 where "s2 = shl (lnot (lnot (asr (asr x s1) 8))) 3"
  define s3 where "s3 = shl (lnot (lnot (asr (asr (asr x s1) s2) 4))) 2"
  define s4 where "s4 = shl (lnot (lnot (asr (asr (asr (asr x s1) s2) s3) 2))) 1"
  define s5 where "s5 = lnot (lnot (asr (asr (asr (asr (asr x s1) s2) s3) s4) 1))"
  have l0: "h < 2 * 16" using h0 by (simp add: hi_bit_def)
  have e1: "unat s1 = (if 16 \<le> h then 16 else 0)"
    unfolding s1_def using hi_bit_test[OF h0 u(1)] by (simp add: sh u)
  note h1 = hi_bit_step[OF h0 l0 e1]
  define a where "a = h - unat s1"
  note h1 = h1[folded a_def]
  have l1: "a < 2 * 8" using h1(2) by simp
  have e2: "unat s2 = (if 8 \<le> a then 8 else 0)"
    unfolding s2_def using hi_bit_test[OF h1(1) u(2)] by (simp add: sh u)
  define b where "b = a - unat s2"
  note h2 = hi_bit_step[OF h1(1) l1 e2, folded b_def]
  have l2: "b < 2 * 4" using h2(2) by simp
  have e3: "unat s3 = (if 4 \<le> b then 4 else 0)"
    unfolding s3_def using hi_bit_test[OF h2(1) u(3)] by (simp add: sh u)
  define c where "c = b - unat s3"
  note h3 = hi_bit_step[OF h2(1) l2 e3, folded c_def]
  have l3: "c < 2 * 2" using h3(2) by simp
  have e4: "unat s4 = (if 2 \<le> c then 2 else 0)"
    unfolding s4_def using hi_bit_test[OF h3(1) u(4)] by (simp add: sh u)
  define d where "d = c - unat s4"
  note h4 = hi_bit_step[OF h3(1) l3 e4, folded d_def]
  have e5: "unat s5 = d"
    unfolding s5_def using hi_bit_test[OF h4(1) u(5)] h4(2) by auto
  have i: "ilog2 x = s1 + s2 + s3 + s4 + s5"
    by (simp add: ilog2_def Let_def s1_def s2_def s3_def s4_def s5_def)
  have "h = unat s1 + unat s2 + unat s3 + unat s4 + unat s5"
  proof -
    have "unat s1 \<le> h" using e1 by simp
    moreover have "unat s2 \<le> a" using e2 by simp
    moreover have "unat s3 \<le> b" using e3 by simp
    moreover have "unat s4 \<le> c" using e4 by simp
    ultimately show ?thesis using e5 a_def b_def c_def d_def by linarith
  qed
  then show ?thesis unfolding i by simp
qed

lemma ilog2_ok: "0 < sint x \<Longrightarrow> test_ilog2 x = Some (ilog2 x)"
proof -
  assume "0 < sint x"
  then obtain h where h: "hi_bit h x" using hi_bit_ex by blast
  then have "h \<le> 31" by (simp add: hi_bit_def)
  from ilog2_loop_hi[OF h this] ilog2_hi[OF h] show ?thesis
    by (simp add: test_ilog2_def)
qed

section \<open>bitCount\<close>

lemma and_digits:
  fixes a m r q :: nat
  assumes "a < 2 ^ w" "m < 2 ^ w"
  shows "(a + 2 ^ w * r) AND (m + 2 ^ w * q) = (a AND m) + 2 ^ w * (r AND q)"
proof -
  have t: "take_bit w (c + 2 ^ w * s) = c" "drop_bit w (c + 2 ^ w * s) = s" if "c < 2 ^ w" for c s :: nat
    using that by (simp_all add: take_bit_eq_mod drop_bit_eq_div)
  define N where "N = (a + 2 ^ w * r) AND (m + 2 ^ w * q)"
  have "push_bit w (drop_bit w N) + take_bit w N = N" by (rule bits_ident)
  moreover have "take_bit w N = a AND m" "drop_bit w N = r AND q"
    unfolding N_def take_bit_and drop_bit_and by (simp_all only: t assms)
  ultimately have "2 ^ w * (r AND q) + (a AND m) = N" by (simp only: push_bit_eq_mult mult.commute)
  then show ?thesis by (simp only: N_def add.commute)
qed

lemma div_digit: "a < B \<Longrightarrow> (a + B * r) div B = r" for a B r :: nat
  by simp

lemma and_bit0: "n AND (1 + 16 * q) = of_bool (odd n) + 16 * (n div 16 AND q)" for n q :: nat
proof -
  have "n AND (1 + 16 * q) = (n mod 16 + 2 ^ 4 * (n div 16)) AND (1 + 2 ^ 4 * q)" by simp
  also have "\<dots> = (n mod 16 AND 1) + 2 ^ 4 * (n div 16 AND q)" by (rule and_digits) simp_all
  also have "n mod 16 AND 1 = of_bool (odd n)"
  proof -
    have "even (n mod 16) = even n" by presburger
    then show ?thesis by (simp add: and_one_eq mod2_eq_if)
  qed
  finally show ?thesis by simp
qed

lemmas digits4 = and_digits[of _ 4, simplified]
lemmas digits8 = and_digits[of _ 8, simplified]
lemmas digits16 = and_digits[of _ 16, simplified]

definition horner4 :: "nat \<Rightarrow> nat \<Rightarrow> nat \<Rightarrow> nat \<Rightarrow> nat \<Rightarrow> nat \<Rightarrow> nat \<Rightarrow> nat \<Rightarrow> nat" where
  "horner4 a b c d e f g h = a + 16 * (b + 16 * (c + 16 * (d + 16 * (e + 16 * (f + 16 * (g + 16 * h))))))"

lemma nibble_bits: "n AND 0x11111111 = horner4 (of_bool (odd n)) (of_bool (odd (n div 2 ^ 4)))
   (of_bool (odd (n div 2 ^ 8))) (of_bool (odd (n div 2 ^ 12))) (of_bool (odd (n div 2 ^ 16)))
   (of_bool (odd (n div 2 ^ 20))) (of_bool (odd (n div 2 ^ 24))) (of_bool (odd (n div 2 ^ 28)))" for n :: nat
proof -
  have m: "(0x11111111 :: nat) = 1 + 16 * (1 + 16 * (1 + 16 * (1 + 16 * (1 + 16 * (1 + 16 * (1 + 16 * (1 + 16 * 0)))))))"
    by simp
  show ?thesis unfolding m and_bit0 horner4_def by (simp add: div_mult2_eq[symmetric])
qed

lemma horner4_add: "horner4 a b c d e f g h + horner4 a' b' c' d' e' f' g' h' =
    horner4 (a + a') (b + b') (c + c') (d + d') (e + e') (f + f') (g + g') (h + h')"
  by (simp add: horner4_def algebra_simps)

lemma stage2:
  assumes "a \<le> 4" "b \<le> 4" "c \<le> 4" "d \<le> 4" "e \<le> 4" "f \<le> 4" "g \<le> 4" "h \<le> 4"
  shows "(horner4 a b c d e f g h AND 0x0F0F0F0F) + (horner4 a b c d e f g h div 16 AND 0x0F0F0F0F)
     = (a + b) + 256 * ((c + d) + 256 * ((e + f) + 256 * (g + h)))"
proof -
  have m: "(0x0F0F0F0F :: nat) = 15 + 16 * (0 + 16 * (15 + 16 * (0 + 16 * (15 + 16 * (0 + 16 * (15 + 16 * 0))))))"
    by simp
  have s: "x AND 15 = x" if "x \<le> 4" for x :: nat
  proof -
    have "x AND 15 = take_bit 4 x" by (simp add: take_bit_eq_mask mask_eq_exp_minus_1)
    then show ?thesis using that by (simp add: take_bit_nat_eq_self)
  qed
  have q: "horner4 a b c d e f g h div 16 = b + 16 * (c + 16 * (d + 16 * (e + 16 * (f + 16 * (g + 16 * (h + 16 * 0))))))"
    using assms(1) unfolding horner4_def by (subst div_digit) simp_all
  have h: "horner4 a b c d e f g h = a + 16 * (b + 16 * (c + 16 * (d + 16 * (e + 16 * (f + 16 * (g + 16 * (h + 16 * 0)))))))"
    by (simp add: horner4_def)
  have lt: "a < 16" "b < 16" "c < 16" "d < 16" "e < 16" "f < 16" "g < 16" "h < 16" "(15 :: nat) < 16"
    "(0 :: nat) < 16"
    using assms by simp_all
  note ands = digits4 lt s assms and_zero_eq zero_and_eq
  have "horner4 a b c d e f g h AND 0x0F0F0F0F = a + 256 * (c + 256 * (e + 256 * g))"
    unfolding m h by (simp only: ands) simp
  moreover have "horner4 a b c d e f g h div 16 AND 0x0F0F0F0F = b + 256 * (d + 256 * (f + 256 * h))"
    unfolding q m by (simp only: ands) simp
  ultimately show ?thesis by simp
qed

lemma and_255: "x \<le> 64 \<Longrightarrow> x AND 255 = x" for x :: nat
proof -
  assume x: "x \<le> 64"
  have "x AND 255 = take_bit 8 x" by (simp add: take_bit_eq_mask mask_eq_exp_minus_1)
  then show ?thesis using x by (simp add: take_bit_nat_eq_self)
qed

lemma stage3:
  fixes a b c d :: nat
  assumes "a \<le> 8" "b \<le> 8" "c \<le> 8" "d \<le> 8"
  defines "r \<equiv> a + 256 * (b + 256 * (c + 256 * d))"
  shows "(r AND 0x00FF00FF) + (r div 256 AND 0x00FF00FF) = (a + b) + 65536 * (c + d)"
proof -
  have m: "(0x00FF00FF :: nat) = 255 + 256 * (0 + 256 * (255 + 256 * 0))" by simp
  have r: "r = a + 256 * (b + 256 * (c + 256 * (d + 256 * 0)))" by (simp add: r_def)
  have q: "r div 256 = b + 256 * (c + 256 * (d + 256 * 0))" using assms unfolding r by (subst div_digit) simp_all
  have lt: "a < 256" "b < 256" "c < 256" "d < 256" "(255 :: nat) < 256" "(0 :: nat) < 256"
    "a \<le> 64" "b \<le> 64" "c \<le> 64" "d \<le> 64"
    using assms by simp_all
  note ands = digits8 lt and_255 and_zero_eq zero_and_eq
  have "r AND 0x00FF00FF = a + 65536 * c"
    unfolding r m by (simp only: ands) simp
  moreover have "r div 256 AND 0x00FF00FF = b + 65536 * d"
    unfolding q m by (simp only: ands) simp
  ultimately show ?thesis by simp
qed

lemma stage4:
  fixes a b :: nat
  assumes "a \<le> 16" "b \<le> 16"
  shows "((a + 65536 * b) AND 255) + ((a + 65536 * b) div 65536 AND 255) = a + b"
proof -
  have "(a + 65536 * b) AND 255 = a"
    using digits16[of a 255 b 0] assms by (simp add: and_255)
  moreover have "(a + 65536 * b) div 65536 AND 255 = b" using assms by (simp add: and_255)
  ultimately show ?thesis by simp
qed

lemma asr_and_mask:
  "unat m < 2 ^ (32 - unat k) \<Longrightarrow> unat k \<le> 32 \<Longrightarrow>
     asr x k AND m = of_nat (unat x div 2 ^ unat k AND unat m)"
proof -
  assume m: "unat m < 2 ^ (32 - unat k)" and k: "unat k \<le> 32"
  have b: "bit m i \<Longrightarrow> i < 32 - unat k" for i
  proof (rule ccontr)
    assume i: "bit m i" "\<not> i < 32 - unat k"
    have "(2 :: nat) ^ (32 - unat k) \<le> 2 ^ i" by (rule power_increasing) (use i in auto)
    then have "unat m div 2 ^ i = 0" using m by (meson div_less order.strict_trans2)
    then have "\<not> bit (unat m) i" by (simp add: bit_iff_odd)
    then show False using i by (simp add: bit_unsigned_iff)
  qed
  have "asr x k AND m = drop_bit (unat k) x AND m"
    by (rule bit_word_eqI) (auto simp: bit_and_iff bit_asr bit_drop_bit_eq dest!: b)
  also have "\<dots> = of_nat (unat (drop_bit (unat k) x AND m))" by simp
  also have "unat (drop_bit (unat k) x AND m) = unat x div 2 ^ unat k AND unat m"
    unfolding unsigned_and_eq unat_drop_bit_eq by (simp only: drop_bit_eq_div)
  finally show ?thesis .
qed

lemma asr_and_nat:
  "unat k = j \<Longrightarrow> unat m = M \<Longrightarrow> M < 2 ^ (32 - j) \<Longrightarrow> j \<le> 32 \<Longrightarrow>
     asr x k AND m = of_nat (unat x div 2 ^ j AND M)"
  by (metis asr_and_mask)

lemma and_nat: "unat m = M \<Longrightarrow> x AND m = of_nat (unat x AND M)"
proof -
  assume "unat m = M"
  then have "unat (x AND m) = unat x AND M" by (simp add: unsigned_and_eq)
  moreover have "of_nat (unat (x AND m)) = x AND m" by simp
  ultimately show ?thesis by simp
qed

definition bit_nat :: "i32 \<Rightarrow> nat \<Rightarrow> nat" where
  "bit_nat x i = of_bool (odd (unat x div 2 ^ i))"

lemma bit_nat_le: "bit_nat x i \<le> 1" by (simp add: bit_nat_def)

lemma bit_nat_word: "i < 32 \<Longrightarrow> signed_drop_bit i x AND 1 = of_nat (bit_nat x i)"
proof -
  assume i: "i < 32"
  have "bit (signed_drop_bit i x) 0 = bit x i" using i by (auto simp: bit_signed_drop_bit_iff)
  moreover have "bit x i = odd (unat x div 2 ^ i)" by (simp add: bit_unsigned_iff flip: bit_iff_odd)
  ultimately show ?thesis by (simp add: bit_nat_def and_one_eq mod2_eq_if bit_0)
qed

lemma nibbles: "unat x div 2 ^ j AND 0x11111111 = horner4 (bit_nat x j) (bit_nat x (j + 4))
   (bit_nat x (j + 8)) (bit_nat x (j + 12)) (bit_nat x (j + 16)) (bit_nat x (j + 20))
   (bit_nat x (j + 24)) (bit_nat x (j + 28))"
  unfolding nibble_bits bit_nat_def power_add div_mult2_eq ..

lemma bits4_le: "bit_nat x a + bit_nat x b + bit_nat x c + bit_nat x d \<le> 4"
  using bit_nat_le[of x a] bit_nat_le[of x b] bit_nat_le[of x c] bit_nat_le[of x d] by linarith

lemma bits_list: "[0..<32] = [0, 1, 2, 3, 4, 5, 6, 7, 8, 9, 10, 11, 12, 13, 14, 15, 16, 17, 18, 19, 20, 21,
    22, 23, 24, 25, 26, 27, 28, 29, 30, 31 :: nat]" by code_simp

lemma test_bitCount_sum: "test_bitCount x = of_nat (sum_list (map (bit_nat x) [0..<32]))"
proof -
  have "fold (\<lambda>i r. r + (signed_drop_bit i x AND 1)) is acc = acc + of_nat (sum_list (map (bit_nat x) is))"
    if "\<forall>i\<in>set is. i < 32" for "is" acc
    using that by (induction "is" arbitrary: acc) (simp_all add: bit_nat_word)
  from this[of "[0..<32]" 0] show ?thesis by (simp add: test_bitCount_def)
qed

lemma bitCount_masks:
  "0x11 OR shl 0x11 8 = 0x1111" "0x1111 OR shl 0x1111 16 = 0x11111111"
  "0x0F OR shl 0x0F 8 = 0x0F0F" "0x0F0F OR shl 0x0F0F 16 = 0x0F0F0F0F"
  "0xFF OR shl 0xFF 16 = 0x00FF00FF"
  by code_simp+

lemma word_of_small: "a < 4294967296 \<Longrightarrow> unat (of_nat a :: i32) = a"
  by (simp add: unat_of_nat)

lemma bitCount_ok: "bitCount x = test_bitCount x"
proof -
  define c where "c k = bit_nat x (4 * k) + bit_nat x (4 * k + 1) + bit_nat x (4 * k + 2) + bit_nat x (4 * k + 3)" for k
  have c4: "c k \<le> 4" for k unfolding c_def by (rule bits4_le)
  have u: "unat (16 :: i32) = 16" "unat (8 :: i32) = 8" "unat (4 :: i32) = 4" "unat (2 :: i32) = 2"
    "unat (1 :: i32) = 1" "unat (3 :: i32) = 3" "unat (0x11111111 :: i32) = 0x11111111"
    "unat (0x0F0F0F0F :: i32) = 0x0F0F0F0F" "unat (0x00FF00FF :: i32) = 0x00FF00FF"
    "unat (0xFF :: i32) = 0xFF" "unat (0 :: i32) = 0" by simp_all
  define H where "H = horner4 (c 0) (c 1) (c 2) (c 3) (c 4) (c 5) (c 6) (c 7)"
  have "(x AND 0x11111111) + (asr x 1 AND 0x11111111) + (asr x 2 AND 0x11111111) + (asr x 3 AND 0x11111111)
     = of_nat ((unat x div 2 ^ 0 AND 0x11111111) + (unat x div 2 ^ 1 AND 0x11111111)
        + (unat x div 2 ^ 2 AND 0x11111111) + (unat x div 2 ^ 3 AND 0x11111111))"
  proof -
    have "asr x 1 AND 0x11111111 = of_nat (unat x div 2 ^ 1 AND 0x11111111)"
      "asr x 2 AND 0x11111111 = of_nat (unat x div 2 ^ 2 AND 0x11111111)"
      "asr x 3 AND 0x11111111 = of_nat (unat x div 2 ^ 3 AND 0x11111111)"
      using asr_and_nat[OF u(5) u(7)] asr_and_nat[OF u(4) u(7)] asr_and_nat[OF u(6) u(7)] by simp_all
    then show ?thesis using and_nat[OF u(7), of x] by (simp only: of_nat_add power_0 div_by_1)
  qed
  also have "(unat x div 2 ^ 0 AND 0x11111111) + (unat x div 2 ^ 1 AND 0x11111111)
        + (unat x div 2 ^ 2 AND 0x11111111) + (unat x div 2 ^ 3 AND 0x11111111) = H"
    unfolding nibbles horner4_add H_def c_def by simp (simp add: numeral_2_eq_2)
  finally have r1: "(x AND 0x11111111) + (asr x 1 AND 0x11111111) + (asr x 2 AND 0x11111111) + (asr x 3 AND 0x11111111)
     = of_nat H" .
  define H2 where "H2 = (c 0 + c 1) + 256 * ((c 2 + c 3) + 256 * ((c 4 + c 5) + 256 * (c 6 + c 7)))"
  have uH: "unat (of_nat H :: i32) = H"
    by (rule word_of_small) (use c4[of 0] c4[of 1] c4[of 2] c4[of 3] c4[of 4] c4[of 5] c4[of 6] c4[of 7] in
      \<open>simp add: H_def horner4_def\<close>)
  have "(of_nat H AND 0x0F0F0F0F) + (asr (of_nat H) 4 AND 0x0F0F0F0F)
     = (of_nat ((H AND 0x0F0F0F0F) + (H div 16 AND 0x0F0F0F0F)) :: i32)"
    using asr_and_nat[OF u(3) u(8), of "of_nat H"] and_nat[OF u(8), of "of_nat H"]
    unfolding uH of_nat_add by simp
  also have "(H AND 0x0F0F0F0F) + (H div 16 AND 0x0F0F0F0F) = H2"
    unfolding H_def H2_def by (rule stage2) (rule c4)+
  finally have r2: "(of_nat H AND 0x0F0F0F0F) + (asr (of_nat H) 4 AND 0x0F0F0F0F) = (of_nat H2 :: i32)" .
  define H3 where "H3 = (c 0 + c 1 + (c 2 + c 3)) + 65536 * (c 4 + c 5 + (c 6 + c 7))"
  have c8: "c i + c j \<le> 8" for i j using c4[of i] c4[of j] by simp
  have uH2: "unat (of_nat H2 :: i32) = H2"
    by (rule word_of_small) (use c8[of 0 1] c8[of 2 3] c8[of 4 5] c8[of 6 7] in \<open>simp add: H2_def\<close>)
  have "(of_nat H2 AND 0x00FF00FF) + (asr (of_nat H2) 8 AND 0x00FF00FF)
     = (of_nat ((H2 AND 0x00FF00FF) + (H2 div 256 AND 0x00FF00FF)) :: i32)"
    using asr_and_nat[OF u(2) u(9), of "of_nat H2"] and_nat[OF u(9), of "of_nat H2"]
    unfolding uH2 of_nat_add by simp
  also have "(H2 AND 0x00FF00FF) + (H2 div 256 AND 0x00FF00FF) = H3"
    unfolding H2_def H3_def by (rule stage3) (rule c8)+
  finally have r3: "(of_nat H2 AND 0x00FF00FF) + (asr (of_nat H2) 8 AND 0x00FF00FF) = (of_nat H3 :: i32)" .
  have c16: "c i + c j + (c k + c l) \<le> 16" for i j k l using c8[of i j] c8[of k l] by simp
  have uH3: "unat (of_nat H3 :: i32) = H3"
    by (rule word_of_small) (use c16[of 0 1 2 3] c16[of 4 5 6 7] in \<open>simp add: H3_def\<close>)
  have "(of_nat H3 AND 0xFF) + (asr (of_nat H3) 16 AND 0xFF)
     = (of_nat ((H3 AND 0xFF) + (H3 div 65536 AND 0xFF)) :: i32)"
    using asr_and_nat[OF u(1) u(10), of "of_nat H3"] and_nat[OF u(10), of "of_nat H3"]
    unfolding uH3 of_nat_add by simp
  also have "(H3 AND 0xFF) + (H3 div 65536 AND 0xFF) = c 0 + c 1 + (c 2 + c 3) + (c 4 + c 5 + (c 6 + c 7))"
    unfolding H3_def by (rule stage4) (rule c16)+
  finally have r4: "(of_nat H3 AND 0xFF) + (asr (of_nat H3) 16 AND 0xFF)
     = (of_nat (c 0 + c 1 + (c 2 + c 3) + (c 4 + c 5 + (c 6 + c 7))) :: i32)" .
  have "bitCount x = of_nat (c 0 + c 1 + (c 2 + c 3) + (c 4 + c 5 + (c 6 + c 7)))"
    unfolding bitCount_def Let_def bitCount_masks r1 r2 r3 r4 ..
  moreover have "c 0 + c 1 + (c 2 + c 3) + (c 4 + c 5 + (c 6 + c 7)) = sum_list (map (bit_nat x) [0..<32])"
    unfolding bits_list by (simp add: c_def) (simp add: numeral_2_eq_2)
  ultimately show ?thesis by (simp only: test_bitCount_sum)
qed

section \<open>Agreement with the references\<close>

text \<open>
  C36: Each integer puzzle returns what its reference returns, for all arguments of the documented
  range: byte numbers below 4, shift amounts below 32, \<open>1 \<le> n \<le> 32\<close> for \<^verbatim>\<open>fitsBits\<close>, \<open>n \<le> 30\<close> for
  \<^verbatim>\<open>divpwr2\<close> and positive arguments for \<^verbatim>\<open>ilog2\<close>, where the reference's search loop ends.
\<close>

theorem bits_match_reference:
  "bitAnd x y = test_bitAnd x y \<and> bitXor x y = test_bitXor x y \<and> thirdBits = test_thirdBits \<and>
   (1 \<le> n \<and> n \<le> 32 \<longrightarrow> fitsBits x n = test_fitsBits x n) \<and> Bits.sign x = test_sign x \<and>
   (n < 4 \<longrightarrow> getByte x n = test_getByte x n) \<and>
   (n < 32 \<longrightarrow> logicalShift x n = test_logicalShift x n) \<and>
   addOK x y = test_addOK x y \<and> bang x = test_bang x \<and>
   conditional x y z = test_conditional x y z \<and> isPower2 x = test_isPower2 x \<and> tmin = test_tmin \<and>
   isPositive x = test_isPositive x \<and> negate x = test_negate x \<and>
   isLessOrEqual x y = test_isLessOrEqual x y \<and> (n \<le> 30 \<longrightarrow> divpwr2 x n = test_divpwr2 x n) \<and>
   (0 <s x \<longrightarrow> test_ilog2 x = Some (ilog2 x)) \<and> bitCount x = test_bitCount x"
proof -
  have "n \<le> 30 \<longrightarrow> divpwr2 x n = test_divpwr2 x n"
    using divpwr2_ok by (simp add: word_le_nat_alt)
  moreover have "0 <s x \<longrightarrow> test_ilog2 x = Some (ilog2 x)" using ilog2_ok by (simp add: word_sless_alt)
  ultimately show ?thesis
    using fitsBits_ok getByte_ok logicalShift_ok
    by (simp add: bitAnd_ok bitXor_ok thirdBits_ok sign_ok addOK_ok bang_ok conditional_ok isPower2_ok
        tmin_ok isPositive_ok negate_ok isLessOrEqual_ok bitCount_ok)
qed

lemma bits_match_reference_witness:
  "test_ilog2 1000 = Some (ilog2 1000) \<and> getByte (- 2) 3 = test_getByte (- 2) 3 \<and>
   fitsBits 1000 3 = test_fitsBits 1000 3 \<and> divpwr2 (- 33) 3 = test_divpwr2 (- 33) 3 \<and>
   logicalShift (- 33) 3 = test_logicalShift (- 33) 3"
  using bits_match_reference[of 1000 _ 3] bits_match_reference[of "- 2" _ 3] bits_match_reference[of "- 33" _ 3]
  by (simp add: word_sless_alt)

end
