(* ===== verification/Bits_Float.thy ===== *)
theory Bits_Float
  imports Bits_Ref
begin

text \<open>
  The floating-point puzzles: what a 32-bit word means as a single-precision number, and the results of
  \<^verbatim>\<open>float_neg\<close>, \<^verbatim>\<open>float_twice\<close> and \<^verbatim>\<open>float_i2f\<close> as numbers. The reference versions use the float
  arithmetic of the machine, so the comparison is with the exact values instead.
\<close>

section \<open>Single-precision values\<close>

definition float_exp :: "u32 \<Rightarrow> nat" where "float_exp u = unat u div 2 ^ 23 mod 256"
definition float_frac :: "u32 \<Rightarrow> nat" where "float_frac u = unat u mod 2 ^ 23"
definition float_neg_sign :: "u32 \<Rightarrow> bool" where "float_neg_sign u \<longleftrightarrow> bit u 31"
definition float_finite :: "u32 \<Rightarrow> bool" where "float_finite u \<longleftrightarrow> float_exp u < 255"
definition float_nan :: "u32 \<Rightarrow> bool" where "float_nan u \<longleftrightarrow> float_exp u = 255 \<and> float_frac u \<noteq> 0"

definition float_mag :: "nat \<Rightarrow> nat \<Rightarrow> nat" where
  "float_mag e m = (if e = 0 then m else (m + 2 ^ 23) * 2 ^ (e - 1))"

text \<open>The value of a finite word in units of \<open>2 ^ -149\<close>, the smallest positive float.\<close>

definition float_val :: "u32 \<Rightarrow> int" where
  "float_val u = (if float_neg_sign u then - 1 else 1) * int (float_mag (float_exp u) (float_frac u))"

definition fbits :: "bool \<Rightarrow> nat \<Rightarrow> u32" where
  "fbits s k = of_nat (of_bool s * 2 ^ 31 + k)"

lemma unat_fbits: "k < 2 ^ 31 \<Longrightarrow> unat (fbits s k) = of_bool s * 2 ^ 31 + k"
  unfolding fbits_def unat_of_nat by (cases s) auto

lemma bit_31: "bit u 31 \<longleftrightarrow> 2 ^ 31 \<le> unat u" for u :: u32
proof -
  have "unat u < 4294967296" using unsigned_less[of u] by simp
  then have "unat u div 2 ^ 31 = (if 2 ^ 31 \<le> unat u then 1 else 0)"
    by (auto intro: div_nat_eqI)
  moreover have "bit u 31 = bit (unat u) 31" by (simp add: bit_unsigned_iff)
  ultimately show ?thesis unfolding bit_iff_odd[of "unat u"] by simp
qed

lemma fbits_parts:
  assumes "k < 2 ^ 31"
  shows "float_neg_sign (fbits s k) = s" "float_exp (fbits s k) = k div 2 ^ 23" "float_frac (fbits s k) = k mod 2 ^ 23"
proof -
  have k: "k < 2147483648" using assms by simp
  note u = unat_fbits[OF assms, of s]
  show "float_neg_sign (fbits s k) = s" unfolding float_neg_sign_def bit_31 u using k by (cases s) simp_all
  have "(of_bool s * 2 ^ 31 + k) div 2 ^ 23 mod 256 = k div 2 ^ 23"
  proof -
    have "of_bool s * 2 ^ 31 + k = k + 8388608 * (256 * of_bool s)" by simp
    then have "(of_bool s * 2 ^ 31 + k) div 8388608 = k div 8388608 + 256 * of_bool s"
      by (simp add: div_mult_self2)
    then show ?thesis using k by simp
  qed
  then show "float_exp (fbits s k) = k div 2 ^ 23" unfolding float_exp_def u .
  have "(of_bool s * 2 ^ 31 + k) mod 2 ^ 23 = k mod 2 ^ 23"
  proof -
    have "of_bool s * 2 ^ 31 + k = k + 8388608 * (256 * of_bool s)" by simp
    then have "(of_bool s * 2 ^ 31 + k) mod 8388608 = k mod 8388608" by (simp only: mod_mult_self2)
    then show ?thesis by simp
  qed
  then show "float_frac (fbits s k) = k mod 2 ^ 23" unfolding float_frac_def u .
qed

lemma word_eq_of_unat: "unat u = k \<Longrightarrow> u = of_nat k" for u :: u32
  by auto

lemma fbits_of: "u = fbits (float_neg_sign u) (float_exp u * 2 ^ 23 + float_frac u)"
  "float_exp u < 256" "float_frac u < 2 ^ 23" "float_exp u * 2 ^ 23 + float_frac u < 2 ^ 31"
proof -
  have b: "unat u < 4294967296" using unsigned_less[of u] by simp
  show e: "float_exp u < 256" "float_frac u < 2 ^ 23" by (simp_all add: float_exp_def float_frac_def)
  then show "float_exp u * 2 ^ 23 + float_frac u < 2 ^ 31" by simp
  have "unat u = of_bool (float_neg_sign u) * 2 ^ 31 + (float_exp u * 2 ^ 23 + float_frac u)"
  proof -
    have q: "unat u = unat u div 8388608 * 8388608 + unat u mod 8388608" by simp
    have "unat u div 8388608 = unat u div 8388608 div 256 * 256 + unat u div 8388608 mod 256" by simp
    moreover have "unat u div 8388608 div 256 = of_bool (float_neg_sign u)"
      unfolding float_neg_sign_def bit_31 using b by (auto simp: div_mult2_eq[symmetric] intro!: div_nat_eqI)
    ultimately have "unat u = (of_bool (float_neg_sign u) * 256 + unat u div 8388608 mod 256) * 8388608 + unat u mod 8388608"
      using q by simp
    then show ?thesis by (simp add: float_exp_def float_frac_def)
  qed
  then show "u = fbits (float_neg_sign u) (float_exp u * 2 ^ 23 + float_frac u)"
    unfolding fbits_def by (rule word_eq_of_unat)
qed

section \<open>float_neg\<close>

lemma xor_top: "fbits s k XOR shl 1 31 = fbits (\<not> s) k" if k: "k < 2 ^ 31"
proof -
  have t: "shl 1 31 = (2147483648 :: u32)" by code_simp
  have a: "fbits False k XOR 2147483648 = fbits True k"
  proof -
    have "fbits False k AND 2147483648 = 0"
    proof -
      have "\<not> bit (fbits False k) 31" unfolding bit_31 unat_fbits[OF k] using k by simp
      then have "fbits False k AND 2 ^ 31 = 0" by (simp only: and_exp_eq_0_iff_not_bit not_False_eq_True)
      then show ?thesis by simp
    qed
    then have "fbits False k + 2147483648 = fbits False k XOR 2147483648" by (rule disjunctive_add_eq_xor)
    then show ?thesis by (simp add: fbits_def add.commute)
  qed
  show ?thesis
  proof (cases s)
    case True
    have "fbits True k XOR 2147483648 = fbits False k" unfolding a[symmetric] by (simp add: xor.assoc)
    then show ?thesis using True t by simp
  next
    case False then show ?thesis using a t by simp
  qed
qed

lemma clear_top: "fbits s k AND NOT (shl 1 31) = fbits False k" if k: "k < 2 ^ 31"
proof -
  define T :: u32 where "T = shl 1 31"
  have b: "\<not> bit (fbits False k) 31" unfolding bit_31 unat_fbits[OF k] using k by simp
  have t: "T = 2147483648" unfolding T_def by code_simp
  have e: "bit T i \<longleftrightarrow> i = 31" for i
    unfolding t using bit_exp_iff[where ?'a = u32, of 31 i] by auto
  have f: "fbits False k AND NOT T = fbits False k"
  proof (rule bit_word_eqI)
    show "bit (fbits False k AND NOT T) n = bit (fbits False k) n" if "n < LENGTH(32)" for n
      using b that by (cases "n = 31") (simp_all add: bit_and_iff bit_not_iff e)
  qed
  show ?thesis
  proof (cases s)
    case True
    have x: "fbits True k = fbits False k XOR T" using xor_top[OF k, of False] T_def by simp
    have "(fbits False k XOR T) AND NOT T = fbits False k AND NOT T"
    proof (rule bit_word_eqI)
      show "bit ((fbits False k XOR T) AND NOT T) n = bit (fbits False k AND NOT T) n" for n
        by (cases "n = 31") (simp_all add: bit_and_iff bit_not_iff bit_xor_iff e)
    qed
    then show ?thesis using f x True T_def by simp
  next
    case False then show ?thesis using f T_def by simp
  qed
qed

lemma float_neg_fbits:
  "k < 2 ^ 31 \<Longrightarrow> float_neg (fbits s k) = (if k > 0xFF * 2 ^ 23 then fbits s k else fbits (\<not> s) k)"
proof -
  assume k: "k < 2 ^ 31"
  have t: "shl 0xFF 23 = (2139095040 :: u32)" by code_simp
  have "fbits False k > 2139095040 \<longleftrightarrow> k > 2139095040"
    unfolding word_less_nat_alt unat_fbits[OF k] by simp
  then show ?thesis by (simp add: float_neg_def Let_def clear_top[OF k] xor_top[OF k] t)
qed

text \<open>
  \<^verbatim>\<open>float_neg\<close> returns a NaN unchanged; for every other word it flips the sign, keeps exponent
  and fraction, and so negates the value.
\<close>

lemma float_neg_spec:
  "if float_nan u then float_neg u = u
   else float_exp (float_neg u) = float_exp u \<and> float_frac (float_neg u) = float_frac u \<and>
     float_neg_sign (float_neg u) = (\<not> float_neg_sign u) \<and> float_val (float_neg u) = - float_val u"
proof -
  define s k where "s = float_neg_sign u" and "k = float_exp u * 2 ^ 23 + float_frac u"
  have u: "u = fbits s k" and k: "k < 2 ^ 31" unfolding s_def k_def using fbits_of[of u] by auto
  have n: "float_nan u \<longleftrightarrow> k > 0xFF * 2 ^ 23"
    unfolding float_nan_def k_def using fbits_of(2,3)[of u] by auto
  have "float_neg u = (if float_nan u then u else fbits (\<not> s) k)"
    unfolding n using float_neg_fbits[OF k, of s] u by simp
  then show ?thesis
    using fbits_parts[OF k, of s] fbits_parts[OF k, of "\<not> s"] u by (auto simp: float_val_def)
qed


section \<open>float_twice\<close>

lemma and_exp_mask:
  assumes e: "e < 256" and m: "m < 2 ^ 23"
  shows "fbits s (e * 2 ^ 23 + m) AND 0x7F800000 = of_nat (e * 2 ^ 23)"
proof -
  have x: "unat (fbits s (e * 2 ^ 23 + m)) = m + 2 ^ 23 * (e + 2 ^ 8 * of_bool s)"
    using e m by (subst unat_fbits) (simp_all add: algebra_simps)
  have c: "(0x7F800000 :: nat) = 0 + 2 ^ 23 * (255 + 2 ^ 8 * 0)" by simp
  have "unat (fbits s (e * 2 ^ 23 + m) AND 0x7F800000) = e * 2 ^ 23"
  proof -
    have u: "unat (0x7F800000 :: u32) = 0x7F800000" by simp
    have ee: "e AND 255 = e"
    proof -
      have "e AND 255 = take_bit 8 e" by (simp add: take_bit_eq_mask mask_eq_exp_minus_1)
      then show ?thesis using e by (simp add: take_bit_nat_eq_self)
    qed
    have "(e + 2 ^ 8 * of_bool s) AND (255 + 2 ^ 8 * 0) = (e AND 255) + 2 ^ 8 * (of_bool s AND 0)"
      by (rule and_digits) (use e in simp_all)
    moreover have "(m + 2 ^ 23 * (e + 2 ^ 8 * of_bool s)) AND (0 + 2 ^ 23 * (255 + 2 ^ 8 * 0))
      = (m AND 0) + 2 ^ 23 * ((e + 2 ^ 8 * of_bool s) AND (255 + 2 ^ 8 * 0))"
      by (rule and_digits) (use m in simp_all)
    ultimately show ?thesis unfolding unsigned_and_eq x u c ee by (simp only: and_zero_eq mult_0_right mult_zero_left add_0_left add_0_right mult.commute)
  qed
  then show ?thesis by (rule word_eq_of_unat)
qed

lemma float_twice_fbits:
  assumes e: "e < 256" and m: "m < 2 ^ 23"
  shows "float_twice (fbits s (e * 2 ^ 23 + m)) =
    (if e = 0 then fbits s (2 * m) else if e < 255 then fbits s ((e + 1) * 2 ^ 23 + m)
     else fbits s (e * 2 ^ 23 + m))"
proof -
  have c: "asr (shl 1 31) 8 AND NOT (shl 1 31) = (0x7F800000 :: u32)" "shl 1 (32 - 1 - 8) = (0x800000 :: u32)"
    by code_simp+
  note em = and_exp_mask[OF e m, of s]
  have ez: "(of_nat (e * 2 ^ 23) = (0 :: u32)) = (e = 0)" "(of_nat (e * 2 ^ 23) = (0x7F800000 :: u32)) = (e = 255)"
  proof -
    have "unat (of_nat (e * 2 ^ 23) :: u32) = e * 8388608" using e by (subst word_of_small) simp_all
    moreover have "unat (0x7F800000 :: u32) = 255 * 8388608" by simp
    ultimately show "(of_nat (e * 2 ^ 23) = (0 :: u32)) = (e = 0)"
      "(of_nat (e * 2 ^ 23) = (0x7F800000 :: u32)) = (e = 255)"
      unfolding word_unat_eq_iff by simp_all
  qed
  have tw: "float_twice (fbits s (e * 2 ^ 23 + m)) = (if e = 0 then shl (fbits s m) 1 OR (fbits s m AND shl 1 31)
      else if e \<noteq> 255 then fbits s (e * 2 ^ 23 + m) + 0x800000 else fbits s (e * 2 ^ 23 + m))"
    unfolding float_twice_def Let_def c em ez by simp
  have z: "shl (fbits s m) 1 OR (fbits s m AND shl 1 31) = fbits s (2 * m)"
  proof -
    have m31: "m < 2 ^ 31" "2 * m < 2 ^ 31" using m by simp_all
    define T :: u32 where "T = shl 1 31"
    have t: "T = 2147483648" unfolding T_def by code_simp
    have eT: "bit T i \<longleftrightarrow> i = 31" for i
      unfolding t using bit_exp_iff[where ?'a = u32, of 31 i] by auto
    have top: "bit (fbits s m) 31 = s" using fbits_parts(1)[OF m31(1), of s] by (simp add: float_neg_sign_def)
    have sg: "fbits s m AND T = (if s then T else 0)"
    proof (rule bit_word_eqI)
      show "bit (fbits s m AND T) n = bit (if s then T else 0) n" for n
        using top by (cases "n = 31") (simp_all add: bit_and_iff eT)
    qed
    have sh: "shl (fbits s m) 1 = fbits False (2 * m)"
      by (cases s) (simp_all add: shl_def push_bit_eq_mult fbits_def)
    have b: "\<not> bit (fbits False (2 * m)) 31" unfolding bit_31 unat_fbits[OF m31(2)] using m by simp
    have "fbits False (2 * m) OR T = fbits False (2 * m) XOR T"
    proof (rule bit_word_eqI)
      show "bit (fbits False (2 * m) OR T) n = bit (fbits False (2 * m) XOR T) n" for n
        using b by (cases "n = 31") (simp_all add: bit_or_iff bit_xor_iff eT)
    qed
    also have "\<dots> = fbits True (2 * m)" using xor_top[OF m31(2), of False] T_def by simp
    finally show ?thesis using sg sh T_def by (cases s) simp_all
  qed
  have "fbits s (e * 2 ^ 23 + m) + 0x800000 = fbits s ((e + 1) * 2 ^ 23 + m)"
    by (simp add: fbits_def algebra_simps)
  then show ?thesis using tw z e by auto
qed


text \<open>
  \<^verbatim>\<open>float_twice\<close> doubles every finite float whose exponent field is below 254 and leaves infinities
  and NaNs alone. For the largest exponent 254 it only increments the field: the result keeps the
  fraction, so it is a NaN and not an infinity as soon as the fraction is not zero.
\<close>

lemma float_twice_spec:
  "if float_exp u = 255 then float_twice u = u
   else if float_exp u = 254 then float_exp (float_twice u) = 255 \<and> float_frac (float_twice u) = float_frac u
   else float_finite (float_twice u) \<and> float_neg_sign (float_twice u) = float_neg_sign u
     \<and> float_val (float_twice u) = 2 * float_val u"
proof -
  define s e m where "s = float_neg_sign u" and "e = float_exp u" and "m = float_frac u"
  have u: "u = fbits s (e * 2 ^ 23 + m)" and e: "e < 256" and m: "m < 2 ^ 23"
    unfolding s_def e_def m_def using fbits_of[of u] by auto
  have m': "m < 8388608" using m by simp
  have tw: "float_twice u = (if e = 0 then fbits s (2 * m) else if e < 255 then fbits s ((e + 1) * 2 ^ 23 + m) else u)"
    using float_twice_fbits[OF e m, of s] u by simp
  have val: "float_val u = (if s then - 1 else 1) * int (float_mag e m)"
    by (simp add: float_val_def s_def e_def m_def)
  have dm: "((e + 1) * 2 ^ 23 + m) div 2 ^ 23 = e + 1" "((e + 1) * 2 ^ 23 + m) mod 2 ^ 23 = m"
    using m by (simp_all only: div_mult_self3 mod_mult_self3 div_less mod_less)
  consider "e = 255" | "e = 254" | "e = 0" | "0 < e" "e < 254" using e by linarith
  then show ?thesis
  proof cases
    case 1
    then show ?thesis using tw by (simp add: e_def)
  next
    case 2
    have lt: "(e + 1) * 2 ^ 23 + m < 2 ^ 31" using 2 m' by simp
    have "float_exp (fbits s ((e + 1) * 2 ^ 23 + m)) = e + 1" "float_frac (fbits s ((e + 1) * 2 ^ 23 + m)) = m"
      unfolding fbits_parts[OF lt] dm by simp_all
    then show ?thesis using tw 2 by (simp add: e_def m_def)
  next
    case 3
    have "2 * m < 2 ^ 31" using m' by simp
    note p = fbits_parts[OF this, of s]
    have "2 * m div 2 ^ 23 = (if 2 * m < 2 ^ 23 then 0 else 1)" using m' by (auto intro!: div_nat_eqI)
    moreover have "2 * m mod 2 ^ 23 = (if 2 * m < 2 ^ 23 then 2 * m else 2 * m - 2 ^ 23)"
      using m' by (auto simp: mod_if)
    ultimately have "float_exp (float_twice u) < 255 \<and> float_mag (float_exp (float_twice u)) (float_frac (float_twice u)) = 2 * float_mag e m"
      using 3 tw p by (auto simp: float_mag_def)
    then show ?thesis using 3 p tw val by (auto simp: float_finite_def float_val_def e_def s_def)
  next
    case 4
    have lt: "(e + 1) * 2 ^ 23 + m < 2 ^ 31" using 4 m' by simp
    note p = fbits_parts[OF lt, of s]
    have "float_mag (e + 1) m = 2 * float_mag e m" using 4 by (cases e) (simp_all add: float_mag_def)
    then show ?thesis using 4 p[unfolded dm] tw val by (auto simp: float_finite_def float_val_def e_def s_def m_def)
  qed
qed


section \<open>float_i2f\<close>

lemma normalize_loop:
  "2 ^ t \<le> unat a \<Longrightarrow> unat a < 2 ^ (t + 1) \<Longrightarrow> t + d = 31 \<Longrightarrow>
    normalize a l = Some (of_nat (unat a * 2 ^ d), l + of_nat d)"
proof (induction d arbitrary: a l t)
  case 0
  then have "bit a 31" by (simp add: bit_31)
  then have "a AND shl 1 31 \<noteq> 0"
    using and_exp_eq_0_iff_not_bit[of a 31] by (simp add: shl_def)
  then show ?case using 0 by (subst normalize.simps) simp
next
  case (Suc d)
  have le: "unat a < 2147483648"
  proof -
    have "t + 1 \<le> 31" using Suc.prems by simp
    then have "(2 :: nat) ^ (t + 1) \<le> 2 ^ 31" by (rule power_increasing) simp
    then show ?thesis using Suc.prems by simp
  qed
  have "\<not> bit a 31" using le by (simp add: bit_31)
  then have z: "a AND shl 1 31 = 0"
    using and_exp_eq_0_iff_not_bit[of a 31] by (simp add: shl_def)
  have u: "unat (shl a 1) = 2 * unat a"
  proof -
    have "shl a 1 = of_nat (2 * unat a)" by (simp add: shl_def push_bit_eq_mult)
    then show ?thesis using le word_of_small[of "2 * unat a"] by simp
  qed
  have "normalize (shl a 1) (l + 1) = Some (of_nat (unat (shl a 1) * 2 ^ d), l + 1 + of_nat d)"
    by (rule Suc.IH[of "t + 1"]) (use Suc.prems u in simp_all)
  then show ?case using z u by (subst normalize.simps) (simp add: mult.assoc mult.left_commute)
qed

text \<open>The rounding step on the discarded low part.\<close>

definition round_up :: "nat \<Rightarrow> nat \<Rightarrow> nat" where
  "round_up F R = (if R > 256 \<or> R = 256 \<and> odd F then 1 else 0)"

lemma low_bits: "y AND 0x1FF = of_nat (unat y mod 512)" "y AND 0x3FF = of_nat (unat y mod 1024)" for y :: u32
proof -
  have "unat y AND 0x1FF = unat y mod 512" "unat y AND 0x3FF = unat y mod 1024"
    using take_bit_eq_mask[of 9 "unat y"] take_bit_eq_mask[of 10 "unat y"]
    by (simp_all add: mask_eq_exp_minus_1 take_bit_eq_mod)
  then show "y AND 0x1FF = of_nat (unat y mod 512)" "y AND 0x3FF = of_nat (unat y mod 1024)"
    using and_nat[of "0x1FF" "0x1FF" y] and_nat[of "0x3FF" "0x3FF" y] by simp_all
qed

lemma round_word:
  fixes y :: u32
  shows "(if y AND 0x1FF > 0x100 then 1 else if y AND 0x3FF = 0x300 then 1 else 0 :: u32)
    = of_nat (round_up (unat y div 512) (unat y mod 512))"
proof -
  define F R where "F = unat y div 512" and "R = unat y mod 512"
  have R: "R < 512" by (simp add: R_def)
  have m: "unat y mod 1024 = 512 * (F mod 2) + R"
    using mod_mult2_eq[of "unat y" 512 2] by (simp add: F_def R_def)
  have "(y AND 0x1FF > 0x100) = (R > 256)"
    using R word_of_small[of R] unfolding low_bits R_def[symmetric] word_less_nat_alt by simp
  moreover have "(y AND 0x3FF = 0x300) = (odd F \<and> R = 256)"
  proof -
    have "unat (of_nat (512 * (F mod 2) + R) :: u32) = 512 * (F mod 2) + R" using R by (subst word_of_small) auto
    then have "(y AND 0x3FF = 0x300) = (512 * (F mod 2) + R = 0x300)"
      unfolding low_bits m word_unat_eq_iff by simp
    also have "\<dots> = (odd F \<and> R = 256)" using R by (cases "even F") (auto simp: mod2_eq_if)
    finally show ?thesis .
  qed
  ultimately show ?thesis unfolding F_def[symmetric] R_def[symmetric] round_up_def by auto
qed

lemma or_sign: "k < 2 ^ 31 \<Longrightarrow> (if s then 0x80000000 else 0) OR (of_nat k :: u32) = fbits s k"
proof -
  assume k: "k < 2 ^ 31"
  define T :: u32 where "T = shl 1 31"
  have t: "T = 2147483648" unfolding T_def by code_simp
  have eT: "bit T i \<longleftrightarrow> i = 31" for i
    unfolding t using bit_exp_iff[where ?'a = u32, of 31 i] by auto
  have b: "\<not> bit (fbits False k) 31" unfolding bit_31 unat_fbits[OF k] using k by simp
  have "T OR fbits False k = fbits False k XOR T"
  proof (rule bit_word_eqI)
    show "bit (T OR fbits False k) n = bit (fbits False k XOR T) n" for n
      using b by (cases "n = 31") (simp_all add: bit_or_iff bit_xor_iff eT)
  qed
  also have "\<dots> = fbits True k" using xor_top[OF k, of False] T_def by simp
  finally have "T OR fbits False k = fbits True k" .
  then show ?thesis unfolding t by (cases s) (simp_all add: fbits_def)
qed


lemma or_exp: "e < 256 \<Longrightarrow> F < 2 ^ 23 \<Longrightarrow> (of_nat (e * 2 ^ 23) OR of_nat F :: u32) = of_nat (e * 2 ^ 23 + F)"
proof -
  assume e: "e < 256" and F: "F < 2 ^ 23"
  have u: "unat (of_nat (e * 2 ^ 23) :: u32) = 0 + 2 ^ 23 * e" "unat (of_nat F :: u32) = F + 2 ^ 23 * 0"
    using word_of_small[of "e * 2 ^ 23"] word_of_small[of F] e F by simp_all
  have "unat (of_nat (e * 2 ^ 23) AND of_nat F :: u32) = (0 AND F) + 2 ^ 23 * (e AND 0)"
    unfolding unsigned_and_eq u by (rule and_digits) (use F in simp_all)
  then have "of_nat (e * 2 ^ 23) AND of_nat F = (0 :: u32)" by (simp add: word_unat_eq_iff)
  then have "of_nat (e * 2 ^ 23) + of_nat F = (of_nat (e * 2 ^ 23) OR of_nat F :: u32)"
    by (rule disjunctive_add_eq_or)
  then show ?thesis by simp
qed

lemma unat_abs:
  "unat (if x <s 0 then - x else x) = nat \<bar>sint x\<bar>" for x :: i32
proof -
  have u: "unat (word_of_int k :: i32) = nat k" if "0 \<le> k" "k < 4294967296" for k
  proof -
    have "word_of_int k = (of_nat (nat k) :: i32)" using that by simp
    then show ?thesis using that by (simp only:) (subst word_of_small; simp)
  qed
  show ?thesis
    using u[of "- sint x"] u[of "sint x"] sint32[of x] by (auto simp: word_sless_alt)
qed

lemma i2f_bits:
  assumes a: "2 ^ t \<le> nat \<bar>sint x\<bar>" "nat \<bar>sint x\<bar> < 2 ^ (t + 1)"
  defines "f \<equiv> nat \<bar>sint x\<bar> * 2 ^ (32 - t) - 2 ^ 32"
  shows "t < 32" "f < 2 ^ 32" "nat \<bar>sint x\<bar> * 2 ^ (32 - t) = 2 ^ 32 + f"
    "float_i2f x = Some (fbits (x <s 0) ((127 + t) * 2 ^ 23 + f div 512 + round_up (f div 512) (f mod 512)))"
proof -
  define A where "A = nat \<bar>sint x\<bar>"
  define a where "a = (if x <s 0 then - x else x)"
  have ua: "unat a = A" unfolding a_def A_def by (rule unat_abs)
  note a = a[folded A_def]
  have "unat a < 4294967296" using unsigned_less[of a] by simp
  then have "A < 2 ^ 32" by (simp add: ua)
  then have "(2 :: nat) ^ t < 2 ^ 32" using a(1) by (rule order.strict_trans1[rotated])
  then show t: "t < 32" by (rule power_less_imp_less_exp[rotated]) simp
  have p: "(2 :: nat) ^ t * 2 ^ (32 - t) = 2 ^ 32" "(2 :: nat) ^ (t + 1) * 2 ^ (32 - t) = 2 ^ 33"
    using t by (simp_all flip: power_add)
  have "2 ^ t * 2 ^ (32 - t) \<le> A * 2 ^ (32 - t)" "A * 2 ^ (32 - t) < 2 ^ (t + 1) * 2 ^ (32 - t)"
    using a by simp_all
  then have b: "2 ^ 32 \<le> A * 2 ^ (32 - t)" "A * 2 ^ (32 - t) < 2 ^ 33" unfolding p .
  show f: "nat \<bar>sint x\<bar> * 2 ^ (32 - t) = 2 ^ 32 + f" "f < 2 ^ 32"
    unfolding f_def using b[unfolded A_def] by simp_all linarith
  define d where "d = 31 - t"
  have d: "t + d = 31" "32 - t = Suc d" using t by (simp_all add: d_def)
  have n: "normalize a 1 = Some (of_nat (A * 2 ^ d), 1 + of_nat d)"
    using normalize_loop[of t a d 1] a d ua by simp
  have one: "unat (1 :: i32) = 1" by simp
  have y: "shl (of_nat (A * 2 ^ d)) 1 = (of_nat f :: u32)"
  proof -
    have "shl (of_nat (A * 2 ^ d)) 1 = (of_nat (A * 2 ^ (32 - t)) :: u32)"
      by (simp add: shl_def push_bit_eq_mult d(2) mult.assoc mult.left_commute)
    also have "A * 2 ^ (32 - t) = 2 ^ 32 + f" using f by (simp add: A_def)
    finally show ?thesis by simp
  qed
  have uf: "unat (of_nat f :: u32) = f" using f(2) by (simp add: word_of_small)
  have te: "32 - (1 + of_nat d) = (of_nat t :: u32)"
  proof -
    have "(of_nat (t + d) :: u32) = of_nat 31" using d(1) by simp
    then show ?thesis by (simp add: algebra_simps)
  qed
  have bias: "shl 1 (8 - 1) - 1 = (127 :: u32)" by code_simp
  have e23: "shl (127 + of_nat t) 23 = (of_nat ((127 + t) * 2 ^ 23) :: u32)"
  proof -
    have "shl (127 + of_nat t) 23 = push_bit 23 (127 + of_nat t :: u32)" by (simp add: shl_def)
    also have "\<dots> = of_nat ((127 + t) * 2 ^ 23)" unfolding push_bit_eq_mult by simp
    finally show ?thesis .
  qed
  have F: "f div 512 < 2 ^ 23" using f(2) by simp
  have lsr9: "lsr (of_nat f) 9 = of_nat (f div 512)"
    by (rule word_eq_of_unat) (unfold lsr_def unat_drop_bit_eq uf, simp add: drop_bit_eq_div)
  have sg: "x AND shl 1 31 = (if x <s 0 then 0x80000000 else 0)"
  proof -
    define T :: u32 where "T = shl 1 31"
    have t: "T = 2147483648" unfolding T_def by code_simp
    have eT: "bit T i \<longleftrightarrow> i = 31" for i
      unfolding t using bit_exp_iff[where ?'a = u32, of 31 i] by auto
    have top: "bit x 31 = (x <s 0)" using bit_last_iff[of x] by (simp add: word_sless_alt)
    have "x AND T = (if x <s 0 then T else 0)"
    proof (rule bit_word_eqI)
      show "bit (x AND T) n = bit (if x <s 0 then T else 0) n" for n
        using top by (cases "n = 31") (simp_all add: bit_and_iff eT)
    qed
    then show ?thesis using t T_def by simp
  qed
  have x0: "x \<noteq> 0" using a(1) by (auto simp: A_def)
  define K where "K = (127 + t) * 2 ^ 23 + f div 512"
  have K: "K < 2 ^ 31" using F t by (simp add: K_def)
  have "(if x <s 0 then 0x80000000 else 0) OR (of_nat ((127 + t) * 2 ^ 23) :: u32) OR of_nat (f div 512) = fbits (x <s 0) K"
    using or_exp[of "127 + t" "f div 512"] or_sign[OF K, of "x <s 0"] F t by (simp add: or.assoc K_def)
  then have "float_i2f x = Some (fbits (x <s 0) K + of_nat (round_up (f div 512) (f mod 512)))"
    unfolding float_i2f_def Let_def a_def[symmetric] n
    using x0 by (simp only: if_False option.case prod.case y te bias e23 lsr9 sg round_word uf)
  then show "float_i2f x = Some (fbits (x <s 0) ((127 + t) * 2 ^ 23 + f div 512 + round_up (f div 512) (f mod 512)))"
    by (simp add: K_def fbits_def)
qed


lemma float_grid:
  assumes u: "float_finite u" and G: "2 ^ 23 \<le> G" "G < 2 ^ 24"
  shows "float_mag (float_exp u) (float_frac u) \<le> G * 2 ^ (126 + t)
    \<or> (G + 1) * 2 ^ (126 + t) \<le> float_mag (float_exp u) (float_frac u)"
proof -
  define e m where "e = float_exp u" and "m = float_frac u"
  have m: "m < 2 ^ 23" unfolding m_def by (rule fbits_of)
  show ?thesis
  proof (cases "126 + t < e")
    case True
    then obtain j where j: "e - 1 = 126 + t + j" by (metis Suc_diff_1 Suc_leI add.commute le_add_diff_inverse less_Suc_eq_le less_imp_diff_less not_less_eq zero_less_diff add_is_0 gr0I)
    define N where "N = (m + 2 ^ 23) * 2 ^ j"
    have M: "float_mag e m = N * 2 ^ (126 + t)" using True j by (simp add: float_mag_def N_def power_add)
    have "N \<le> G \<or> G + 1 \<le> N" by linarith
    then show ?thesis unfolding e_def[symmetric] m_def[symmetric] M by (meson mult_le_mono1)
  next
    case False
    have "float_mag e m \<le> 2 ^ 24 * 2 ^ (e - 1)" using m by (auto simp: float_mag_def)
    also have "\<dots> \<le> 2 ^ 24 * 2 ^ (125 + t)" using False by (intro mult_left_mono power_increasing) auto
    also have "\<dots> = 2 ^ 23 * 2 ^ (126 + t)" by (simp add: power_add)
    also have "\<dots> \<le> G * 2 ^ (126 + t)" using G by simp
    finally show ?thesis by (simp add: e_def m_def)
  qed
qed

lemma float_mag_rounded:
  assumes t: "t < 32" and F: "F < 2 ^ 23" and r: "r \<le> 1"
  defines "k \<equiv> (127 + t) * 2 ^ 23 + F + r"
  shows "k < 2 ^ 31" "float_mag (k div 2 ^ 23) (k mod 2 ^ 23) = (2 ^ 23 + F + r) * 2 ^ (126 + t)"
    "k div 2 ^ 23 < 255" "even (k mod 2 ^ 23) = even (F + r)"
proof -
  have F': "F < 8388608" using F by simp
  show "k < 2 ^ 31" using t F' r by (simp add: k_def)
  have dm: "k div 2 ^ 23 = (if F + r = 2 ^ 23 then 128 + t else 127 + t) \<and> k mod 2 ^ 23 = (if F + r = 2 ^ 23 then 0 else F + r)"
  proof (cases "F + r = 2 ^ 23")
    case True
    then have "k = (128 + t) * 2 ^ 23" by (simp add: k_def)
    then show ?thesis using True by (simp only: if_True mod_mult_self2_is_0 nonzero_mult_div_cancel_right) simp
  next
    case False
    then have "F + r < 2 ^ 23" using F r by simp
    then have "((127 + t) * 2 ^ 23 + (F + r)) div 2 ^ 23 = 127 + t"
      "((127 + t) * 2 ^ 23 + (F + r)) mod 2 ^ 23 = F + r"
      by (simp_all only: div_mult_self3 mod_mult_self3 div_less mod_less)
    then show ?thesis using False by (simp add: k_def add.assoc)
  qed
  from dm show "float_mag (k div 2 ^ 23) (k mod 2 ^ 23) = (2 ^ 23 + F + r) * 2 ^ (126 + t)"
    "k div 2 ^ 23 < 255"
    using t by (auto simp: float_mag_def add.assoc power_add)
  have "even (F + r)" if "F + r = 2 ^ 23" unfolding that by simp
  then show "even (k mod 2 ^ 23) = even (F + r)" using dm by (metis even_zero)
qed

lemma nearest_arith:
  fixes L P w X :: int and r :: int
  assumes P: "0 < P" and w: "w \<le> L \<or> L + 512 * P \<le> w"
    and R: "X = int R * P" "R < 512" "r = (if R > 256 \<or> R = 256 \<and> odd F then 1 else 0)"
  shows "\<bar>L + r * 512 * P - (L + X)\<bar> \<le> \<bar>w - (L + X)\<bar>"
    "\<bar>w - (L + X)\<bar> = \<bar>L + r * 512 * P - (L + X)\<bar> \<Longrightarrow> w = L + r * 512 * P \<or> R = 256"
proof -
  have X: "0 \<le> X" "X < 512 * P" using P R by (simp_all add: mult_less_cancel_right)
  consider "R < 256" | "R = 256" | "256 < R" by linarith
  note c = this
  have b: "R < 256 \<Longrightarrow> X < 256 * P" "R = 256 \<Longrightarrow> X = 256 * P" "256 < R \<Longrightarrow> 256 * P < X"
    using P R(1) by (simp_all add: mult_less_cancel_right)
  show "\<bar>L + r * 512 * P - (L + X)\<bar> \<le> \<bar>w - (L + X)\<bar>"
    using c by cases (use w X b R(3) in \<open>auto split: if_splits\<close>)
  show "w = L + r * 512 * P \<or> R = 256" if "\<bar>w - (L + X)\<bar> = \<bar>L + r * 512 * P - (L + X)\<bar>"
    using c by cases (use w X b R(3) that in \<open>auto split: if_splits\<close>)
qed


text \<open>
  C38: \<^verbatim>\<open>float_i2f\<close> returns, its normalisation loop ending for every argument, and the result is the
  finite float nearest to the integer; when another value is equally near the result has an even
  fraction.
\<close>

theorem float_i2f_nearest:
  "\<exists>r. float_i2f x = Some r \<and> float_finite r \<and>
     (\<forall>u. float_finite u \<longrightarrow>
        \<bar>float_val r - sint x * 2 ^ 149\<bar> \<le> \<bar>float_val u - sint x * 2 ^ 149\<bar> \<and>
        (\<bar>float_val u - sint x * 2 ^ 149\<bar> = \<bar>float_val r - sint x * 2 ^ 149\<bar> \<longrightarrow>
           float_val u = float_val r \<or> even (float_frac r)))"
proof (cases "x = 0")
  case True
  have "float_val 0 = 0" "float_finite 0"
    by (simp_all add: float_val_def float_finite_def float_exp_def float_frac_def float_mag_def)
  then show ?thesis using True by (auto simp: float_i2f_def)
next
  case False
  define A where "A = nat \<bar>sint x\<bar>"
  have "1 \<le> A" using False by (simp add: A_def Suc_le_eq)
  from ex_power_ivl1[OF _ this, of 2] obtain t where t: "2 ^ t \<le> A" "A < 2 ^ (t + 1)" by auto
  define f where "f = A * 2 ^ (32 - t) - 2 ^ 32"
  define F R rd where "F = f div 512" and "R = f mod 512" and "rd = round_up F R"
  note i2f = i2f_bits[OF t[unfolded A_def], folded A_def, folded f_def, folded F_def R_def, folded rd_def]
  have "f < 4294967296" using i2f(2) by simp
  then have F: "F < 2 ^ 23" by (simp add: F_def)
  have R: "R < 512" by (simp add: R_def)
  have rd: "rd \<le> 1" by (simp add: rd_def round_up_def)
  define k where "k = (127 + t) * 2 ^ 23 + F + rd"
  note mag = float_mag_rounded[OF i2f(1) F rd, folded k_def]
  define r where "r = fbits (x <s 0) k"
  have ri: "float_i2f x = Some r" using i2f(4) by (simp add: r_def k_def)
  have fin: "float_finite r" unfolding float_finite_def r_def fbits_parts[OF mag(1)] by (rule mag(3))
  define sg :: int where "sg = (if x <s 0 then - 1 else 1)"
  have sg: "sg * sg = 1" "sint x = sg * int A" by (simp_all add: sg_def A_def word_sless_alt)
  define P :: int where "P = 2 ^ (117 + t)"
  define L where "L = 512 * int (2 ^ 23 + F) * P"
  have P: "0 < P" by (simp add: P_def)
  have vr: "float_val r = sg * (L + int rd * 512 * P)"
    unfolding float_val_def r_def fbits_parts[OF mag(1)] mag(2) sg_def L_def P_def
    by (simp add: power_add algebra_simps)
  have vx: "sint x * 2 ^ 149 = sg * (L + int R * P)"
  proof -
    have "A * 2 ^ (32 - t) = 512 * (2 ^ 23 + F) + R" using i2f(3) by (simp add: F_def R_def)
    then have "int A * 2 ^ (32 - t) = 512 * int (2 ^ 23 + F) + int R"
      by (metis of_nat_add of_nat_mult of_nat_numeral of_nat_power)
    moreover have "(2 :: int) ^ 149 = 2 ^ (32 - t) * P" using i2f(1) by (simp add: P_def flip: power_add)
    ultimately have "int A * 2 ^ 149 = (512 * int (2 ^ 23 + F) + int R) * P"
      by (simp only: flip: mult.assoc)
    then show ?thesis by (simp add: sg(2) L_def algebra_simps)
  qed
  have sabs: "\<bar>sg * a - sg * b\<bar> = \<bar>a - b\<bar>" for a b
    by (auto simp: sg_def)
  have rdi: "int rd = (if R > 256 \<or> R = 256 \<and> odd F then 1 else 0)" by (simp add: rd_def round_up_def)
  have "\<bar>float_val r - sint x * 2 ^ 149\<bar> \<le> \<bar>float_val u - sint x * 2 ^ 149\<bar> \<and>
        (\<bar>float_val u - sint x * 2 ^ 149\<bar> = \<bar>float_val r - sint x * 2 ^ 149\<bar> \<longrightarrow>
           float_val u = float_val r \<or> even (float_frac r))" if u: "float_finite u" for u
  proof -
    define M where "M = float_mag (float_exp u) (float_frac u)"
    define w where "w = sg * float_val u"
    have wu: "float_val u = sg * w" using sg(1) by (simp add: w_def flip: mult.assoc)
    have "M \<le> (2 ^ 23 + F) * 2 ^ (126 + t) \<or> (2 ^ 23 + F + 1) * 2 ^ (126 + t) \<le> M"
      unfolding M_def by (rule float_grid[OF u]) (use F in simp_all)
    then have "int M \<le> int ((2 ^ 23 + F) * 2 ^ (126 + t)) \<or> int ((2 ^ 23 + F + 1) * 2 ^ (126 + t)) \<le> int M"
      by (simp only: of_nat_le_iff)
    moreover have "int ((2 ^ 23 + F) * 2 ^ (126 + t)) = L" "int ((2 ^ 23 + F + 1) * 2 ^ (126 + t)) = L + 512 * P"
      by (simp_all add: L_def P_def power_add algebra_simps)
    ultimately have "int M \<le> L \<or> L + 512 * P \<le> int M" by simp
    moreover have "w = int M \<or> w = - int M"
      by (auto simp: w_def sg_def float_val_def M_def)
    moreover have "0 \<le> L" using P by (simp add: L_def)
    ultimately have w: "w \<le> L \<or> L + 512 * P \<le> w" by auto
    note n = nearest_arith[OF P w refl R rdi]
    have "even (float_frac r)" if "R = 256"
      unfolding r_def fbits_parts[OF mag(1)] mag(4) using that by (simp add: rd_def round_up_def)
    then show ?thesis using n unfolding vr vx wu sabs by (auto simp: algebra_simps)
  qed
  then show ?thesis using ri fin by blast
qed


lemma float_i2f_nearest_witness:
  "\<exists>r. float_i2f 16777217 = Some r \<and> float_finite r \<and>
     \<bar>float_val r - 16777217 * 2 ^ 149\<bar> \<le> \<bar>float_val 0x4B800001 - 16777217 * 2 ^ 149\<bar>"
proof -
  have "float_finite 0x4B800001" by (simp add: float_finite_def float_exp_def)
  moreover have "sint (16777217 :: i32) = 16777217" by simp
  ultimately show ?thesis using float_i2f_nearest[of 16777217] by metis
qed

end
