(* ===== verification/Btest.thy ===== *)
theory Btest
  imports Bits_Float C_Strings
begin

text \<open>
  The test driver of the bit puzzles (\<^verbatim>\<open>C/CSAPPLab/bits/btest.c\<close>) with its table of puzzles (\<^verbatim>\<open>decl.c\<close>) and
  the references that use floats (\<^verbatim>\<open>tests.c\<close>). A function under test is given the list of its arguments; it is
  \<^const>\<open>None\<close> where it does not return. The random numbers are a function of the number of the draw and
  the bounds. A call that returns is within the time limit. The conversions \<^verbatim>\<open>strtof\<close> and \<^verbatim>\<open>strtoll\<close> are
  parameters: the value read and the rest of the string.
\<close>

section \<open>The references on floats\<close>

text \<open>
  Float arithmetic is that of IEEE 754: a product by 2 is exact unless it exceeds the largest float, when
  it is infinite; an integer is rounded to the nearest float, ties to the even fraction.
\<close>

definition test_float_neg :: "u32 \<Rightarrow> u32" where
  "test_float_neg uf = (if float_nan uf then uf else fbits (\<not> float_neg_sign uf) (float_exp uf * 2 ^ 23 + float_frac uf))"

definition float_times_2 :: "u32 \<Rightarrow> u32" where
  "float_times_2 u =
     (if float_exp u = 255 then u
      else if float_exp u = 254 then fbits (float_neg_sign u) (255 * 2 ^ 23)
      else if float_exp u = 0 then fbits (float_neg_sign u) (2 * float_frac u)
      else fbits (float_neg_sign u) ((float_exp u + 1) * 2 ^ 23 + float_frac u))"

definition test_float_twice :: "u32 \<Rightarrow> u32" where
  "test_float_twice uf = (if float_nan uf then uf else float_times_2 uf)"

definition top_bit :: "nat \<Rightarrow> nat" where
  "top_bit n = (case scan (\<lambda>k. n < 2 ^ (k + 1)) 0 32 of Some k \<Rightarrow> k | None \<Rightarrow> 32)"

definition float_of_int32 :: "i32 \<Rightarrow> u32" where
  "float_of_int32 x =
     (let a = nat \<bar>sint x\<bar>; t = top_bit a; m = a * 2 ^ (32 - t) - 2 ^ 32
      in if x = 0 then 0
         else fbits (sint x < 0) ((127 + t) * 2 ^ 23 + m div 512 + round_up (m div 512) (m mod 512)))"

definition test_float_i2f :: "i32 \<Rightarrow> u32" where
  "test_float_i2f x = float_of_int32 x"

section \<open>The table of puzzles\<close>

type_synonym funct = "i32 list \<Rightarrow> i32 option"

record test_rec =
  t_name :: string
  solution_funct :: "funct option"
  test_funct :: funct
  t_args :: int
  t_ops :: string
  op_limit :: int
  t_rating :: int
  arg_ranges :: "(i32 \<times> i32) list"

abbreviation "TMin \<equiv> 0x80000000 :: i32"
abbreviation "TMax \<equiv> 0x7FFFFFFF :: i32"

text \<open>\<^verbatim>\<open>(funct_t) f\<close>: the cast forgets the arity.\<close>

fun cast0 :: "i32 \<Rightarrow> funct" where "cast0 f [] = Some f" | "cast0 f _ = None"
fun cast1 :: "(i32 \<Rightarrow> i32 option) \<Rightarrow> funct" where "cast1 f [x] = f x" | "cast1 f _ = None"
fun cast2 :: "(i32 \<Rightarrow> i32 \<Rightarrow> i32) \<Rightarrow> funct" where "cast2 f [x, y] = Some (f x y)" | "cast2 f _ = None"
fun cast3 :: "(i32 \<Rightarrow> i32 \<Rightarrow> i32 \<Rightarrow> i32) \<Rightarrow> funct" where "cast3 f [x, y, z] = Some (f x y z)" | "cast3 f _ = None"

definition row :: "string \<Rightarrow> funct \<Rightarrow> funct \<Rightarrow> int \<Rightarrow> string \<Rightarrow> int \<Rightarrow> int \<Rightarrow> (i32 \<times> i32) list \<Rightarrow> test_rec" where
  "row name f ft args ops limit rating ranges =
     \<lparr>t_name = name, solution_funct = Some f, test_funct = ft, t_args = args, t_ops = ops, op_limit = limit,
      t_rating = rating, arg_ranges = ranges\<rparr>"

abbreviation "any_int \<equiv> (TMin, TMax)"
abbreviation "int_ops \<equiv> ''! ~ & ^ | + << >>''"

definition puzzles :: "test_rec list" where
  "puzzles =
   [row ''bitAnd'' (cast2 bitAnd) (cast2 test_bitAnd) 2 ''| ~'' 8 1 [any_int, any_int, any_int],
    row ''bitXor'' (cast2 bitXor) (cast2 test_bitXor) 2 ''& ~'' 14 1 [any_int, any_int, any_int],
    row ''thirdBits'' (cast0 thirdBits) (cast0 test_thirdBits) 0 int_ops 8 1 [any_int, any_int, any_int],
    row ''tmin'' (cast0 tmin) (cast0 test_tmin) 0 int_ops 4 1 [any_int, any_int, any_int],
    row ''fitsBits'' (cast2 fitsBits) (cast2 test_fitsBits) 2 int_ops 15 2 [any_int, (1, 32), any_int],
    row ''sign'' (cast1 (\<lambda>x. Some (Bits.sign x))) (cast1 (\<lambda>x. Some (test_sign x))) 1 int_ops 10 2 [(- TMax, TMax), any_int, any_int],
    row ''getByte'' (cast2 getByte) (cast2 test_getByte) 2 int_ops 6 2 [any_int, (0, 3), any_int],
    row ''divpwr2'' (cast2 divpwr2) (cast2 test_divpwr2) 2 int_ops 15 2 [any_int, (0, 30), any_int],
    row ''negate'' (cast1 (\<lambda>x. Some (negate x))) (cast1 (\<lambda>x. Some (test_negate x))) 1 int_ops 5 2 [any_int, any_int, any_int],
    row ''float_neg'' (cast1 (\<lambda>x. Some (float_neg x))) (cast1 (\<lambda>x. Some (test_float_neg x))) 1 ''$'' 10 2 [(1, 1), (1, 1), (1, 1)],
    row ''logicalShift'' (cast2 logicalShift) (cast2 test_logicalShift) 2 int_ops 20 3 [any_int, (0, 31), any_int],
    row ''addOK'' (cast2 addOK) (cast2 test_addOK) 2 int_ops 20 3 [any_int, any_int, any_int],
    row ''bang'' (cast1 (\<lambda>x. Some (bang x))) (cast1 (\<lambda>x. Some (test_bang x))) 1 ''~ & ^ | + << >>'' 12 4 [any_int, any_int, any_int],
    row ''isPositive'' (cast1 (\<lambda>x. Some (isPositive x))) (cast1 (\<lambda>x. Some (test_isPositive x))) 1 int_ops 8 3 [any_int, any_int, any_int],
    row ''conditional'' (cast3 conditional) (cast3 test_conditional) 3 ''! ~ & ^ | << >>'' 16 3 [any_int, any_int, any_int],
    row ''isLessOrEqual'' (cast2 isLessOrEqual) (cast2 test_isLessOrEqual) 2 int_ops 24 3 [any_int, any_int, any_int],
    row ''isPower2'' (cast1 (\<lambda>x. Some (isPower2 x))) (cast1 (\<lambda>x. Some (test_isPower2 x))) 1 int_ops 20 4 [any_int, any_int, any_int],
    row ''bitCount'' (cast1 (\<lambda>x. Some (bitCount x))) (cast1 (\<lambda>x. Some (test_bitCount x))) 1 int_ops 40 4 [any_int, any_int, any_int],
    row ''ilog2'' (cast1 (\<lambda>x. Some (ilog2 x))) (cast1 test_ilog2) 1 int_ops 90 4 [(1, TMax), any_int, any_int],
    row ''float_i2f'' (cast1 float_i2f) (cast1 (\<lambda>x. Some (test_float_i2f x))) 1 ''$'' 30 4 [(1, 1), (1, 1), (1, 1)],
    row ''float_twice'' (cast1 (\<lambda>x. Some (float_twice x))) (cast1 (\<lambda>x. Some (test_float_twice x))) 1 ''$'' 30 4 [(1, 1), (1, 1), (1, 1)]]"

text \<open>The table ends with a row without a function.\<close>

definition test_set :: "test_rec list" where
  "test_set = puzzles @
   [\<lparr>t_name = [], solution_funct = None, test_funct = (\<lambda>_. None), t_args = 0, t_ops = [], op_limit = 0, t_rating = 0,
     arg_ranges = [(0, 0), (0, 0), (0, 0)]\<rparr>]"

section \<open>The options\<close>

abbreviation "TEST_RANGE \<equiv> 500000 :: nat"
abbreviation "MAX_TEST_VALS \<equiv> 13 * TEST_RANGE"

record options =
  timeout_limit :: int
  test_fname :: "string option"
  has_arg :: "bool list"
  argval :: "u32 list"
  global_rating :: int

definition default_options :: options where
  "default_options = \<lparr>timeout_limit = 10, test_fname = None, has_arg = [False, False, False], argval = [0, 0, 0], global_rating = 0\<rparr>"

text \<open>The scan for an exponent or a point; an \<open>e\<close> after an \<open>x\<close> is a digit.\<close>

fun scan_number :: "bool \<Rightarrow> bool \<Rightarrow> string \<Rightarrow> bool" where
  "scan_number ishex isfloat [] = isfloat"
| "scan_number ishex isfloat (c # s) =
     (if c = CHR ''x'' \<or> c = CHR ''X'' then scan_number True isfloat s
      else if c = CHR ''e'' \<or> c = CHR ''E'' then scan_number ishex (isfloat \<or> \<not> ishex) s
      else if c = CHR ''.'' then scan_number ishex True s
      else scan_number ishex isfloat s)"

definition get_num_val :: "(string \<Rightarrow> u32 \<times> string) \<Rightarrow> (string \<Rightarrow> int \<times> string) \<Rightarrow> string \<Rightarrow> u32 \<Rightarrow> u32 option" where
  "get_num_val strtof strtoll sval valp =
     (if scan_number False False sval
      then (case strtof sval of (bits, endp) \<Rightarrow> if endp = [] then Some bits else None)
      else (let llval = fst (strtoll sval); upperbits = llval div 2 ^ 31
            in if valp = 0 \<and> upperbits \<in> {0, - 1, 1} then Some (word_of_int llval) else None))"

datatype parsed = Options options | Usage | Bad_argument string

definition set_arg :: "(string \<Rightarrow> u32 \<times> string) \<Rightarrow> (string \<Rightarrow> int \<times> string) \<Rightarrow> nat \<Rightarrow> string \<Rightarrow> options \<Rightarrow> parsed" where
  "set_arg strtof strtoll i optarg opts =
     (case get_num_val strtof strtoll optarg (argval opts ! i) of
        None \<Rightarrow> Bad_argument optarg
      | Some v \<Rightarrow> Options (opts\<lparr>has_arg := (has_arg opts)[i := True], argval := (argval opts)[i := v]\<rparr>))"

text \<open>\<open>-g\<close> only changes what is printed. The list holds what \<^verbatim>\<open>getopt\<close> returns.\<close>

fun parse_options :: "(string \<Rightarrow> u32 \<times> string) \<Rightarrow> (string \<Rightarrow> int \<times> string) \<Rightarrow> (char \<times> string) list \<Rightarrow> options \<Rightarrow> parsed" where
  "parse_options strtof strtoll [] opts = Options opts"
| "parse_options strtof strtoll ((c, optarg) # rest) opts =
     (let continue = (\<lambda>r. case r of Options opts' \<Rightarrow> parse_options strtof strtoll rest opts' | _ \<Rightarrow> r)
      in if c = CHR ''g'' then parse_options strtof strtoll rest opts
         else if c = CHR ''f'' then parse_options strtof strtoll rest (opts\<lparr>test_fname := Some optarg\<rparr>)
         else if c = CHR ''r'' then (if atoi optarg < 0 then Usage
           else parse_options strtof strtoll rest (opts\<lparr>global_rating := atoi optarg\<rparr>))
         else if c = CHR ''1'' then continue (set_arg strtof strtoll 0 optarg opts)
         else if c = CHR ''2'' then continue (set_arg strtof strtoll 1 optarg opts)
         else if c = CHR ''3'' then continue (set_arg strtof strtoll 2 optarg opts)
         else if c = CHR ''T'' then parse_options strtof strtoll rest (opts\<lparr>timeout_limit := atoi optarg\<rparr>)
         else Usage)"

section \<open>The test values\<close>

type_synonym draws = "nat \<Rightarrow> i32 \<Rightarrow> i32 \<Rightarrow> i32"

definition float_round :: "u32 \<Rightarrow> u32 list" where
  "float_round i =
     (let smallest_norm = 0x00800000; one = 0x3f800000; largest_norm = 0x7f000000; sign = 0x80000000
      in [i, sign OR i,
          smallest_norm + i, smallest_norm - i, sign OR (smallest_norm + i), sign OR (smallest_norm - i),
          one + i, one - i, sign OR (one + i), sign OR (one - i),
          largest_norm - i, sign OR (largest_norm - i)])"

definition float_test_vals :: "nat \<Rightarrow> u32 list" where
  "float_test_vals test_range =
     (let range = (if 2 ^ 23 < test_range then 2 ^ 23 else test_range); inf = 0x7f800000; nan = 0x7fc0000; sign = 0x80000000
      in concat (map (\<lambda>i. float_round (of_nat i)) [0..<range]) @ [inf, sign OR inf, nan, sign OR nan])"

text \<open>\<^verbatim>\<open>for (i = min; i <= max; i++)\<close>, which never ends for the largest \<^verbatim>\<open>int\<close> as \<open>max\<close>.\<close>

partial_function (option) count_up :: "i32 \<Rightarrow> i32 \<Rightarrow> i32 list option" where
  "count_up i mx = (if i \<le>s mx then Option.bind (count_up (i + 1) mx) (\<lambda>vs. Some (i # vs)) else Some [])"

definition sample_round :: "draws \<Rightarrow> nat \<Rightarrow> i32 \<Rightarrow> i32 \<Rightarrow> i32 \<Rightarrow> i32 list" where
  "sample_round draw k mn mx i =
     [mn + i, mx - i] @ (if mn \<le>s i \<and> i \<le>s mx then [i] else [])
     @ (if mn \<le>s - i \<and> - i \<le>s mx then [- i] else []) @ [draw k mn mx]"

definition sample_vals :: "draws \<Rightarrow> nat \<Rightarrow> i32 \<Rightarrow> i32 \<Rightarrow> nat \<Rightarrow> i32 list" where
  "sample_vals draw k mn mx test_range = concat (map (\<lambda>i. sample_round draw (k + i) mn mx (of_nat i)) [0..<test_range])"

text \<open>The values and the number of the next draw.\<close>

definition gen_vals :: "options \<Rightarrow> draws \<Rightarrow> nat \<Rightarrow> i32 \<times> i32 \<Rightarrow> nat \<Rightarrow> nat \<Rightarrow> (i32 list \<times> nat) option" where
  "gen_vals opts draw k rng test_range arg =
     (case rng of (mn, mx) \<Rightarrow>
       if has_arg opts ! arg then Some ([argval opts ! arg], k)
       else if mn = 1 \<and> mx = 1 then Some (float_test_vals test_range, k)
       else if mx - of_nat MAX_TEST_VALS \<le>s mn then map_option (\<lambda>vs. (vs, k)) (count_up mn mx)
       else Some (sample_vals draw k mn mx test_range, k + test_range))"

section \<open>Running the tests\<close>

text \<open>\<^verbatim>\<open>test_0_arg\<close> to \<^verbatim>\<open>test_3_arg\<close>.\<close>

definition test_arg :: "funct \<Rightarrow> funct \<Rightarrow> i32 list \<Rightarrow> nat option" where
  "test_arg f ft xs =
     (case f xs of None \<Rightarrow> None | Some r \<Rightarrow> (case ft xs of None \<Rightarrow> None | Some rt \<Rightarrow> Some (of_bool (r \<noteq> rt))))"

text \<open>One loop over the values of an argument, left at the first error.\<close>

fun until_error :: "('a \<Rightarrow> nat option) \<Rightarrow> 'a list \<Rightarrow> nat option" where
  "until_error body [] = Some 0"
| "until_error body (v # vs) =
     (case body v of None \<Rightarrow> None | Some errors \<Rightarrow> if errors \<noteq> 0 then Some errors else until_error body vs)"

text \<open>The loops nested for one, two or three arguments; \<open>xs\<close> holds the arguments chosen by the outer loops.\<close>

fun test_tuples :: "funct \<Rightarrow> funct \<Rightarrow> i32 list \<Rightarrow> i32 list list \<Rightarrow> nat option" where
  "test_tuples f ft xs [] = test_arg f ft xs"
| "test_tuples f ft xs (vs # vss) = until_error (\<lambda>v. test_tuples f ft (xs @ [v]) vss) vs"

text \<open>The square root of \<^verbatim>\<open>TEST_RANGE\<close> is 707.1, its power to 0.333 is 79.02.\<close>

definition arg_test_range :: "int \<Rightarrow> nat" where
  "arg_test_range args = (if args = 1 then TEST_RANGE else if args = 2 then 707 else 79)"

fun gen_all :: "options \<Rightarrow> draws \<Rightarrow> nat \<Rightarrow> nat \<Rightarrow> nat \<Rightarrow> (i32 \<times> i32) list \<Rightarrow> (i32 list list \<times> nat) option" where
  "gen_all opts draw k test_range i [] = Some ([], k)"
| "gen_all opts draw k test_range i (rng # rngs) =
     (case gen_vals opts draw k rng test_range i of None \<Rightarrow> None
      | Some (vs, k1) \<Rightarrow> map_option (\<lambda>(vss, k2). (vs # vss, k2)) (gen_all opts draw k1 test_range (i + 1) rngs))"

datatype outcome = Config_error | Hangs | Errors nat

definition test_function :: "options \<Rightarrow> draws \<Rightarrow> nat \<Rightarrow> test_rec \<Rightarrow> funct \<Rightarrow> outcome \<times> nat" where
  "test_function opts draw k t f =
     (if t_args t < 0 \<or> 3 < t_args t then (Config_error, k)
      else case gen_all opts draw k (arg_test_range (t_args t)) 0 (take (nat (t_args t)) (arg_ranges t)) of
        None \<Rightarrow> (Hangs, k)
      | Some (vss, k') \<Rightarrow>
         (case test_tuples f (test_funct t) [] vss of
            Some errors \<Rightarrow> (Errors errors, k')
          | None \<Rightarrow> (if 0 < timeout_limit opts then Errors 1 else Hangs, k')))"

datatype run_result = Total nat int int | Exits | Never_returns

fun run_tests :: "options \<Rightarrow> draws \<Rightarrow> nat \<Rightarrow> nat \<Rightarrow> int \<Rightarrow> int \<Rightarrow> test_rec list \<Rightarrow> run_result" where
  "run_tests opts draw k errors points max_points [] = Total errors points max_points"
| "run_tests opts draw k errors points max_points (t # ts) =
     (case solution_funct t of
        None \<Rightarrow> Total errors points max_points
      | Some f \<Rightarrow>
         if test_fname opts = None \<or> test_fname opts = Some (t_name t)
         then let rating = (if global_rating opts \<noteq> 0 then global_rating opts else t_rating t)
              in case test_function opts draw k t f of
                (Config_error, _) \<Rightarrow> Exits
              | (Hangs, _) \<Rightarrow> Never_returns
              | (Errors terrors, k') \<Rightarrow>
                  run_tests opts draw k' (errors + terrors) (points + (if terrors = 0 then rating else 0)) (max_points + rating) ts
         else run_tests opts draw k errors points max_points ts)"

definition btest_main :: "(string \<Rightarrow> u32 \<times> string) \<Rightarrow> (string \<Rightarrow> int \<times> string) \<Rightarrow> draws \<Rightarrow> (char \<times> string) list \<Rightarrow> run_result" where
  "btest_main strtof strtoll draw args =
     (case parse_options strtof strtoll args default_options of
        Options opts \<Rightarrow> run_tests opts draw 0 0 0 0 test_set
      | _ \<Rightarrow> Exits)"

end
