(* ===== verification/Btest_Props.thy ===== *)
theory Btest_Props
  imports Btest
begin

text \<open>
  What the driver of the bit puzzles decides, on which values, and what it therefore misses.
\<close>

section \<open>The loops\<close>

lemma until_error_0_iff: "until_error body vs = Some 0 \<longleftrightarrow> (\<forall>v \<in> set vs. body v = Some 0)"
  by (induction vs) (auto split: option.splits)

lemma until_error_le: "(\<And>v n. v \<in> set vs \<Longrightarrow> body v = Some n \<Longrightarrow> n \<le> 1) \<Longrightarrow> until_error body vs = Some n \<Longrightarrow> n \<le> 1"
  by (induction vs) (auto split: option.splits if_splits)

definition agrees :: "funct \<Rightarrow> funct \<Rightarrow> i32 list \<Rightarrow> bool" where
  "agrees f ft xs \<longleftrightarrow> f xs \<noteq> None \<and> f xs = ft xs"

lemma test_arg_0_iff: "test_arg f ft xs = Some 0 \<longleftrightarrow> agrees f ft xs"
  by (auto simp: test_arg_def agrees_def split: option.splits)

lemma test_tuples_0_iff:
  "test_tuples f ft xs vss = Some 0 \<longleftrightarrow> (\<forall>ys \<in> set (product_lists vss). agrees f ft (xs @ ys))"
proof (induction vss arbitrary: xs)
  case (Cons vs vss)
  have "test_tuples f ft xs (vs # vss) = Some 0 \<longleftrightarrow> (\<forall>v \<in> set vs. test_tuples f ft (xs @ [v]) vss = Some 0)"
    by (simp add: until_error_0_iff)
  also have "\<dots> \<longleftrightarrow> (\<forall>ys \<in> set (product_lists (vs # vss)). agrees f ft (xs @ ys))"
    unfolding Cons.IH by auto
  finally show ?case .
qed (simp add: test_arg_0_iff)

lemma test_tuples_le: "test_tuples f ft xs vss = Some n \<Longrightarrow> n \<le> 1"
proof (induction vss arbitrary: xs n)
  case Nil
  then show ?case by (auto simp: test_arg_def split: option.splits)
next
  case (Cons vs vss)
  then show ?case using until_error_le[of vs "\<lambda>v. test_tuples f ft (xs @ [v]) vss" n] by auto
qed

section \<open>The values\<close>

lemma count_up_range:
  assumes "- 2147483648 \<le> a" "a \<le> b + 1" "- 2147483648 \<le> b" "b < 2147483647"
  shows "count_up (word_of_int a) (word_of_int b) = Some (map word_of_int [a..b])"
  using assms
proof (induction "nat (b + 1 - a)" arbitrary: a)
  case 0
  then have "\<not> (word_of_int a :: i32) \<le>s word_of_int b"
    using sint_of_int[of a] sint_of_int[of b] by (simp add: word_sle_eq)
  then show ?case using 0 by (subst count_up.simps) simp
next
  case (Suc n)
  then have ab: "a \<le> b" by simp
  then have le: "(word_of_int a :: i32) \<le>s word_of_int b"
    using sint_of_int[of a] sint_of_int[of b] Suc.prems by (simp add: word_sle_eq)
  have "word_of_int a + 1 = (word_of_int (a + 1) :: i32)" by simp
  moreover have "count_up (word_of_int (a + 1)) (word_of_int b) = Some (map word_of_int [a + 1..b])"
    using Suc ab by (intro Suc.hyps(1)) auto
  ultimately show ?case using le ab by (subst count_up.simps) (simp add: upto_rec1)
qed

text \<open>A test value for a float is a float up to \<^verbatim>\<open>0x7f000000\<close> in magnitude, or an infinity.\<close>

definition tested_float :: "u32 \<Rightarrow> bool" where
  "tested_float u \<longleftrightarrow> (\<exists>s n. u = fbits s n \<and> (n \<le> 254 * 2 ^ 23 \<or> n = 255 * 2 ^ 23))"

lemma tested_floatI:
  "n \<le> 254 * 2 ^ 23 \<or> n = 255 * 2 ^ 23 \<Longrightarrow> tested_float (of_nat n) \<and> tested_float (0x80000000 OR of_nat n)"
proof -
  assume n: "n \<le> 254 * 2 ^ 23 \<or> n = 255 * 2 ^ 23"
  then have "n < 2 ^ 31" by auto
  then have "0x80000000 OR of_nat n = fbits True n" "of_nat n = fbits False n"
    using or_sign[of n True] by (simp_all add: fbits_def)
  then show ?thesis using n unfolding tested_float_def by metis
qed

lemma float_round_tested:
  assumes "i < 2 ^ 23" "u \<in> set (float_round (of_nat i))"
  shows "tested_float u"
proof -
  have i: "i < 8388608" using assms(1) by simp
  have sums: "(0x00800000 :: u32) + of_nat i = of_nat (8388608 + i)" "(0x00800000 :: u32) - of_nat i = of_nat (8388608 - i)"
    "(0x3f800000 :: u32) + of_nat i = of_nat (1065353216 + i)" "(0x3f800000 :: u32) - of_nat i = of_nat (1065353216 - i)"
    "(0x7f000000 :: u32) - of_nat i = of_nat (2130706432 - i)"
    using i by (simp_all add: of_nat_diff)
  have tested: "tested_float (of_nat n)" "tested_float (0x80000000 OR of_nat n)" if "n \<le> 2130706432" for n
    using tested_floatI[of n] that by simp_all
  have "list_all tested_float (float_round (of_nat i))"
    unfolding float_round_def Let_def sums list.pred_inject
    by (intro conjI tested TrueI) (use i in simp_all)
  then show ?thesis using assms(2) by (simp only: list_all_iff)
qed

lemma float_test_vals_tested:
  assumes "u \<in> set (float_test_vals r)"
  shows "tested_float u"
proof -
  have "\<exists>i < 2 ^ 23. u \<in> set (float_round (of_nat i))" if "u \<notin> {0x7f800000, 0x80000000 OR 0x7f800000, 0x7fc0000, 0x80000000 OR 0x7fc0000}"
  proof -
    have "\<exists>i \<in> {0..<if 2 ^ 23 < r then 2 ^ 23 else r}. u \<in> set (float_round (of_nat i))"
      using assms that unfolding float_test_vals_def Let_def by simp
    then obtain i where "i < (if 2 ^ 23 < r then 2 ^ 23 else r)" "u \<in> set (float_round (of_nat i))" by auto
    moreover from this(1) have "i < 2 ^ 23" by (simp split: if_splits)
    ultimately show ?thesis by blast
  qed
  moreover have "tested_float 0x7f800000 \<and> tested_float (0x80000000 OR 0x7f800000)"
    using tested_floatI[of "255 * 2 ^ 23"] by simp
  moreover have "tested_float 0x7fc0000 \<and> tested_float (0x80000000 OR 0x7fc0000)"
    using tested_floatI[of "0x7fc0000"] by simp
  ultimately show ?thesis using float_round_tested by blast
qed

lemma tested_float_parts:
  assumes "tested_float u"
  shows "\<not> float_nan u" "float_exp u = 254 \<longrightarrow> float_frac u = 0"
proof -
  obtain s n where n: "u = fbits s n" "n \<le> 254 * 2 ^ 23 \<or> n = 255 * 2 ^ 23"
    using assms by (auto simp: tested_float_def)
  then have "n < 2 ^ 31" by auto
  note p = fbits_parts[OF this, of s, folded n(1)]
  define q m where "q = n div 2 ^ 23" and "m = n mod 2 ^ 23"
  have "n = n div 2 ^ 23 * 2 ^ 23 + n mod 2 ^ 23" by (rule div_mult_mod_eq[symmetric])
  then have "n = q * 8388608 + m" unfolding q_def m_def by simp
  then have "q * 8388608 + m \<le> 2130706432 \<or> q * 8388608 + m = 2139095040" using n(2) by simp
  moreover have "m < 8388608" by (simp add: m_def)
  ultimately have "q = 255 \<longrightarrow> m = 0" "q = 254 \<longrightarrow> m = 0" by auto
  then show "\<not> float_nan u" "float_exp u = 254 \<longrightarrow> float_frac u = 0"
    unfolding float_nan_def p q_def m_def by auto
qed

section \<open>The references on floats\<close>

lemma float_neg_matches: "float_neg u = test_float_neg u"
proof -
  define s k where "s = float_neg_sign u" and "k = float_exp u * 2 ^ 23 + float_frac u"
  have u: "u = fbits s k" and k: "k < 2 ^ 31" unfolding s_def k_def using fbits_of[of u] by auto
  have n: "float_nan u \<longleftrightarrow> k > 0xFF * 2 ^ 23"
    unfolding float_nan_def k_def using fbits_of(2,3)[of u] by auto
  have "float_neg u = (if float_nan u then u else fbits (\<not> s) k)"
    unfolding n using float_neg_fbits[OF k, of s] u by simp
  then show ?thesis unfolding test_float_neg_def s_def k_def .
qed

lemma fbits_inj: "j < 2 ^ 31 \<Longrightarrow> k < 2 ^ 31 \<Longrightarrow> fbits s j = fbits s k \<longleftrightarrow> j = k"
  using unat_fbits[of j s] unat_fbits[of k s] by (metis add_left_cancel)

lemma float_twice_matches_iff: "float_twice u = test_float_twice u \<longleftrightarrow> \<not> (float_exp u = 254 \<and> float_frac u \<noteq> 0)"
proof -
  define s e m where "s = float_neg_sign u" and "e = float_exp u" and "m = float_frac u"
  have u: "u = fbits s (e * 2 ^ 23 + m)" and e: "e < 256" and m: "m < 2 ^ 23"
    unfolding s_def e_def m_def using fbits_of[of u] by auto
  have tw: "float_twice u = (if e = 0 then fbits s (2 * m) else if e < 255 then fbits s ((e + 1) * 2 ^ 23 + m) else u)"
    using float_twice_fbits[OF e m, of s] u by simp
  have t: "test_float_twice u = (if e = 255 then u else if e = 254 then fbits s (255 * 2 ^ 23)
      else if e = 0 then fbits s (2 * m) else fbits s ((e + 1) * 2 ^ 23 + m))"
    by (simp add: test_float_twice_def float_times_2_def float_nan_def s_def e_def m_def)
  have "fbits s (255 * 2 ^ 23 + m) = fbits s (255 * 2 ^ 23) \<longleftrightarrow> m = 0"
    using m by (subst fbits_inj) simp_all
  then show ?thesis unfolding tw t e_def[symmetric] m_def[symmetric] using e by auto
qed

lemma top_bit_eq:
  assumes "2 ^ t \<le> n" "n < 2 ^ (t + 1)" "t < 32"
  shows "top_bit n = t"
proof -
  have "scan (\<lambda>k. n < 2 ^ (k + 1)) 0 32 = Some t"
    unfolding scan_Some_iff
  proof (intro conjI allI impI)
    fix j assume "0 \<le> j \<and> j < t"
    then have "(2 :: nat) ^ (j + 1) \<le> 2 ^ t" by (intro power_increasing) auto
    then show "\<not> n < 2 ^ (j + 1)" using assms(1) by linarith
  qed (use assms in auto)
  then show ?thesis by (simp add: top_bit_def)
qed

lemma float_i2f_matches: "float_i2f x = Some (test_float_i2f x)"
proof (cases "x = 0")
  case True
  then show ?thesis by (simp add: float_i2f_def test_float_i2f_def float_of_int32_def)
next
  case False
  define A where "A = nat \<bar>sint x\<bar>"
  have "1 \<le> A" using False by (simp add: A_def Suc_le_eq)
  from ex_power_ivl1[OF _ this, of 2] obtain t where t: "2 ^ t \<le> A" "A < 2 ^ (t + 1)" by auto
  note i2f = i2f_bits[OF t[unfolded A_def], folded A_def]
  have "top_bit A = t" using t i2f(1) by (rule top_bit_eq)
  then show ?thesis
    using i2f(4) False unfolding test_float_i2f_def float_of_int32_def Let_def A_def[symmetric] word_sless_alt
    by simp
qed

section \<open>One row of the table\<close>

definition draws_between :: "draws \<Rightarrow> bool" where
  "draws_between draw \<longleftrightarrow> (\<forall>k mn mx. sint mn \<le> sint mx \<longrightarrow> sint mn \<le> sint (draw k mn mx) \<and> sint (draw k mn mx) \<le> sint mx)"

definition yields :: "options \<Rightarrow> draws \<Rightarrow> i32 \<times> i32 \<Rightarrow> nat \<Rightarrow> nat \<Rightarrow> (i32 \<Rightarrow> bool) \<Rightarrow> bool" where
  "yields opts draw rng r arg P \<longleftrightarrow>
     (\<forall>k. \<exists>vs k'. gen_vals opts draw k rng r arg = Some (vs, k') \<and> (\<forall>v \<in> set vs. P v))"

lemma gen_all_yields:
  assumes "list_all2 (\<lambda>rng (i, P). yields opts draw rng r i P) rngs (enumerate j Ps)"
  shows "\<exists>vss k'. gen_all opts draw k r j rngs = Some (vss, k') \<and> list_all2 (\<lambda>vs P. \<forall>v \<in> set vs. P v) vss Ps"
  using assms
proof (induction rngs arbitrary: j Ps k)
  case (Cons rng rngs)
  then obtain P Ps' where Ps: "Ps = P # Ps'" by (cases Ps) auto
  then have "yields opts draw rng r j P" and tl: "list_all2 (\<lambda>rng (i, P). yields opts draw rng r i P) rngs (enumerate (Suc j) Ps')"
    using Cons.prems by auto
  then obtain vs k1 where "gen_vals opts draw k rng r j = Some (vs, k1)" "\<forall>v \<in> set vs. P v"
    unfolding yields_def by blast
  then show ?case using Cons.IH[OF tl, of k1] by (auto simp: Ps)
next
  case Nil
  then show ?case by (cases Ps) simp_all
qed

lemma list_all2_product:
  "list_all2 (\<lambda>vs P. \<forall>v \<in> set vs. P v) vss Ps \<Longrightarrow> ys \<in> set (product_lists vss) \<Longrightarrow> list_all2 (\<lambda>y P. P y) ys Ps"
  unfolding product_lists_set
proof (induction vss arbitrary: Ps ys)
  case (Cons vs vss)
  then obtain P Ps' y ys' where "Ps = P # Ps'" "ys = y # ys'" by (cases Ps; cases ys) auto
  then show ?case using Cons by auto
qed auto

definition passes :: "options \<Rightarrow> draws \<Rightarrow> test_rec \<Rightarrow> bool" where
  "passes opts draw t \<longleftrightarrow>
     (\<exists>f. solution_funct t = Some f \<and> (\<forall>k. \<exists>k'. test_function opts draw k t f = (Errors 0, k')))"

lemma row_passes:
  assumes args: "0 \<le> args" "args \<le> 3"
    and ys: "list_all2 (\<lambda>rng (i, P). yields opts draw rng (arg_test_range args) i P) (take (nat args) ranges) (enumerate 0 Ps)"
    and agree: "\<And>ys. list_all2 (\<lambda>y P. P y) ys Ps \<Longrightarrow> agrees f ft ys"
  shows "passes opts draw (row name f ft args ops limit rating ranges)"
proof -
  let ?t = "row name f ft args ops limit rating ranges"
  have "\<exists>k'. test_function opts draw k ?t f = (Errors 0, k')" for k
  proof -
    obtain vss k' where g: "gen_all opts draw k (arg_test_range args) 0 (take (nat args) ranges) = Some (vss, k')"
      "list_all2 (\<lambda>vs P. \<forall>v \<in> set vs. P v) vss Ps"
      using gen_all_yields[OF ys] by blast
    have "test_tuples f ft [] vss = Some 0"
      unfolding test_tuples_0_iff using list_all2_product[OF g(2)] agree by simp
    then show ?thesis using g(1) args by (simp add: test_function_def row_def)
  qed
  then show ?thesis by (simp add: passes_def row_def)
qed

lemma run_tests_pass:
  assumes "\<forall>t \<in> set ts. passes opts draw t" "test_fname opts = None" "global_rating opts = 0" "solution_funct t = None"
  shows "run_tests opts draw k errors points max_points (ts @ [t]) =
    Total errors (points + sum_list (map t_rating ts)) (max_points + sum_list (map t_rating ts))"
  using assms(1)
proof (induction ts arbitrary: k points max_points)
  case (Cons u ts)
  then obtain f k' where "solution_funct u = Some f" "test_function opts draw k u f = (Errors 0, k')"
    unfolding passes_def by fastforce
  then show ?case using Cons.IH[of k' "points + t_rating u" "max_points + t_rating u"] Cons.prems assms(2,3)
    by (simp add: add.assoc Let_def)
qed (simp add: assms(4))

text \<open>What \<^verbatim>\<open>gen_vals\<close> yields for the ranges of the table.\<close>

lemma yields_sample:
  assumes "\<not> has_arg opts ! arg" "(mn, mx) \<noteq> (1, 1)" "\<not> mx - of_nat MAX_TEST_VALS \<le>s mn"
    and "\<And>k i v. i < r \<Longrightarrow> v \<in> set (sample_round draw k mn mx (of_nat i)) \<Longrightarrow> P v"
  shows "yields opts draw (mn, mx) r arg P"
  using assms unfolding yields_def gen_vals_def by (auto simp: sample_vals_def)

lemma yields_count:
  assumes "\<not> has_arg opts ! arg" "- 2147483648 \<le> a" "a \<le> b + 1" "- 2147483648 \<le> b" "b < 2147483647"
    "mn = word_of_int a" "mx = word_of_int b" "(mn, mx) \<noteq> (1, 1)" "mx - of_nat MAX_TEST_VALS \<le>s mn"
    and "\<And>i. a \<le> i \<Longrightarrow> i \<le> b \<Longrightarrow> P (word_of_int i)"
  shows "yields opts draw (mn, mx) r arg P"
  using assms count_up_range[of a b] unfolding yields_def gen_vals_def by auto

lemma yields_float:
  "\<not> has_arg opts ! arg \<Longrightarrow> yields opts draw (1, 1) r arg tested_float"
  unfolding yields_def gen_vals_def using float_test_vals_tested by auto

lemma yields_positive:
  assumes "draws_between draw" "\<not> has_arg opts ! arg" "r \<le> TEST_RANGE"
  shows "yields opts draw (1, TMax) r arg (\<lambda>x. 0 < sint x)"
proof (rule yields_sample)
  fix k i v assume i: "i < r" and v: "v \<in> set (sample_round draw k 1 TMax (of_nat i))"
  have s: "sint (1 :: i32) = 1" "sint TMax = 2147483647" by simp_all
  have "1 \<le> sint (draw k 1 TMax)" using assms(1) s unfolding draws_between_def by (metis one_le_numeral)
  moreover have "sint (1 + of_nat i :: i32) = 1 + int i" "sint (TMax - of_nat i :: i32) = 2147483647 - int i"
    using i assms(3) sint_of_int[of "1 + int i"] sint_of_int[of "2147483647 - int i"] by simp_all
  ultimately show "0 < sint v"
    using v i assms(3) by (auto simp: sample_round_def word_sle_eq s split: if_splits)
qed (use assms in \<open>simp_all add: word_sle_eq\<close>)

lemma yields_any: "\<not> has_arg opts ! arg \<Longrightarrow> yields opts draw (TMin, TMax) r arg (\<lambda>_. True)"
  by (rule yields_sample) (simp_all add: word_sle_eq)

lemma yields_symmetric: "\<not> has_arg opts ! arg \<Longrightarrow> yields opts draw (- TMax, TMax) r arg (\<lambda>_. True)"
  by (rule yields_sample) (simp_all add: word_sle_eq)

section \<open>The table\<close>

lemma yields_small:
  assumes "\<not> has_arg opts ! arg" "0 \<le> a" "a \<le> b + 1" "0 \<le> b" "b \<le> 32" "mn = word_of_int a" "mx = word_of_int b"
    "(mn, mx) \<noteq> (1, 1)" "\<And>i. a \<le> i \<Longrightarrow> i \<le> b \<Longrightarrow> P (word_of_int i)"
  shows "yields opts draw (mn, mx) r arg P"
proof (rule yields_count[of opts arg a b])
  have "mx - of_nat MAX_TEST_VALS = word_of_int (b - 6500000)" using assms(7) by simp
  then have "sint (mx - of_nat MAX_TEST_VALS) = b - 6500000"
    using sint_of_int[of "b - 6500000"] assms by simp
  moreover have "sint mn = a" using sint_of_int[of a] assms by simp
  ultimately show "mx - of_nat MAX_TEST_VALS \<le>s mn"
    using assms by (simp add: word_sle_eq) 
qed (use assms in auto)

definition no_args :: "options \<Rightarrow> bool" where
  "no_args opts \<longleftrightarrow> has_arg opts = [False, False, False]"

lemma no_arg: "no_args opts \<Longrightarrow> i < 3 \<Longrightarrow> \<not> has_arg opts ! i"
  by (auto simp: no_args_def less_Suc_eq numeral_3_eq_3)

lemma yields_any_int: "no_args opts \<Longrightarrow> i < 3 \<Longrightarrow> yields opts draw any_int r i (\<lambda>_. True)"
  using yields_any no_arg by blast

lemma pass0: "f = ft \<Longrightarrow> passes opts draw (row name (cast0 f) (cast0 ft) 0 ops limit rating ranges)"
  by (rule row_passes[where Ps = "[]"]) (auto simp: agrees_def)

lemma pass1:
  assumes "yields opts draw (mn, mx) TEST_RANGE 0 P" "\<And>x. P x \<Longrightarrow> \<exists>y. f x = Some y \<and> ft x = Some y"
  shows "passes opts draw (row name (cast1 f) (cast1 ft) 1 ops limit rating ((mn, mx) # ranges))"
  by (rule row_passes[where Ps = "[P]"])
    (use assms in \<open>fastforce simp: agrees_def list_all2_Cons2 arg_test_range_def\<close>)+

lemma pass2:
  assumes "no_args opts" "yields opts draw (mn, mx) 707 1 P" "\<And>x n. P n \<Longrightarrow> f x n = ft x n"
  shows "passes opts draw (row name (cast2 f) (cast2 ft) 2 ops limit rating (any_int # (mn, mx) # ranges))"
  by (rule row_passes[where Ps = "[\<lambda>_. True, P]"])
    (use assms yields_any_int[OF assms(1), of 0] in \<open>auto simp: agrees_def list_all2_Cons2 arg_test_range_def\<close>)

lemma pass3:
  assumes "no_args opts" "\<And>x y z. f x y z = ft x y z"
  shows "passes opts draw (row name (cast3 f) (cast3 ft) 3 ops limit rating [any_int, any_int, any_int])"
  by (rule row_passes[where Ps = "[\<lambda>_. True, \<lambda>_. True, \<lambda>_. True]"])
    (use assms yields_any_int[OF assms(1), of 0] yields_any_int[OF assms(1), of 1] yields_any_int[OF assms(1), of 2]
      in \<open>auto simp: agrees_def list_all2_Cons2 arg_test_range_def numeral_2_eq_2\<close>)

lemma unat_small_int: "0 \<le> i \<Longrightarrow> i \<le> 32 \<Longrightarrow> unat (word_of_int i :: i32) = nat i"
proof -
  assume i: "0 \<le> i" "i \<le> 32"
  then have "word_of_int i = (of_nat (nat i) :: i32)" by simp
  then show "unat (word_of_int i :: i32) = nat i" using i by (simp only:) (subst word_of_small; simp)
qed

lemma pass_small:
  assumes "no_args opts" "0 \<le> a" "a < b" "b \<le> 32" "mn = word_of_int a" "mx = word_of_int b"
    and "\<And>x n. nat a \<le> unat n \<Longrightarrow> unat n \<le> nat b \<Longrightarrow> f x n = ft x n"
  shows "passes opts draw (row name (cast2 f) (cast2 ft) 2 ops limit rating (any_int # (mn, mx) # ranges))"
proof (rule pass2[OF assms(1)])
  have "mx \<noteq> mn"
    unfolding assms(5,6) using unat_small_int[of a] unat_small_int[of b] assms(2-4) by auto
  then have "(mn, mx) \<noteq> (1, 1)" by auto
  then show "yields opts draw (mn, mx) 707 1 (\<lambda>n. nat a \<le> unat n \<and> unat n \<le> nat b)"
    using assms no_arg[OF assms(1), of 1] by (intro yields_small[of _ _ a b]) (auto simp: unat_small_int)
qed (use assms in auto)

lemma tested_twice: "tested_float u \<Longrightarrow> float_twice u = test_float_twice u"
  using tested_float_parts[of u] unfolding float_twice_matches_iff by simp

lemma puzzles_pass:
  assumes "draws_between draw" "no_args opts"
  shows "list_all (passes opts draw) puzzles"
proof -
  note any1 = pass1[OF yields_any_int[OF assms(2), of 0]]
  note any2 = pass2[OF assms(2) yields_any_int[OF assms(2), of 1]]
  note fl = pass1[OF yields_float[OF no_arg[OF assms(2), of 0]]]
  note small = pass_small[OF assms(2)]
  show ?thesis
    unfolding puzzles_def list.pred_inject
    apply (intro conjI TrueI)
    subgoal by (rule any2) (simp_all add: bitAnd_ok)
    subgoal by (rule any2) (simp_all add: bitXor_ok)
    subgoal by (rule pass0) (rule thirdBits_ok)
    subgoal by (rule pass0) (rule tmin_ok)
    subgoal by (rule small[of 1 32]) (auto intro!: fitsBits_ok simp: word_le_nat_alt)
    subgoal by (rule pass1[OF yields_symmetric[OF no_arg[OF assms(2)]]]) (simp_all add: sign_ok)
    subgoal by (rule small[of 0 3]) (auto intro!: getByte_ok simp: word_less_nat_alt)
    subgoal by (rule small[of 0 30]) (auto intro!: divpwr2_ok)
    subgoal by (rule any1) (simp_all add: negate_ok)
    subgoal by (rule fl) (simp_all add: float_neg_matches)
    subgoal by (rule small[of 0 31]) (auto intro!: logicalShift_ok simp: word_less_nat_alt)
    subgoal by (rule any2) (simp_all add: addOK_ok)
    subgoal by (rule any1) (simp_all add: bang_ok)
    subgoal by (rule any1) (simp_all add: isPositive_ok)
    subgoal by (rule pass3[OF assms(2)]) (rule conditional_ok)
    subgoal by (rule any2) (simp_all add: isLessOrEqual_ok)
    subgoal by (rule any1) (simp_all add: isPower2_ok)
    subgoal by (rule any1) (simp_all add: bitCount_ok)
    subgoal by (rule pass1[OF yields_positive[OF assms(1) no_arg[OF assms(2)]]]) (simp_all add: ilog2_ok)
    subgoal by (rule fl) (simp_all add: float_i2f_matches)
    subgoal by (rule fl) (simp_all add: tested_twice)
    subgoal by simp
    done
qed

section \<open>The array of test values\<close>

lemma length_sample: "length (sample_vals draw k mn mx r) \<le> 5 * r"
proof -
  have "length (sample_round draw j mn mx i) \<le> 5" for j i by (simp add: sample_round_def)
  then have "sum_list (map (\<lambda>i. length (sample_round draw (k + i) mn mx (of_nat i))) [0..<r]) \<le> sum_list (map (\<lambda>_. 5) [0..<r])"
    by (intro sum_list_mono)
  then show ?thesis by (simp add: sample_vals_def length_concat comp_def sum_list_triv)
qed

lemma length_float: "r \<le> TEST_RANGE \<Longrightarrow> length (float_test_vals r) \<le> MAX_TEST_VALS"
proof -
  assume r: "r \<le> TEST_RANGE"
  have "length (float_round i) = 12" for i by (simp add: float_round_def)
  then show ?thesis using r by (simp add: float_test_vals_def Let_def length_concat comp_def sum_list_triv)
qed

text \<open>
  The array is large enough except in one case: a range of \<open>MAX_TEST_VALS + 1\<close> integers is still tested
  exhaustively, and the last one is written behind the array.
\<close>

lemma test_values_fit:
  assumes "gen_vals opts draw k (mn, mx) r arg = Some (vs, k')" "r \<le> TEST_RANGE"
    and mx: "- 2140983648 \<le> sint mx" "sint mx < 2147483647" and "sint mn \<le> sint mx + 1"
  shows "MAX_TEST_VALS < length vs
    \<longleftrightarrow> \<not> has_arg opts ! arg \<and> sint mx - sint mn = int MAX_TEST_VALS"
proof -
  have ab: "mn = word_of_int (sint mn)" "mx = word_of_int (sint mx)" by simp_all
  have "mx - of_nat MAX_TEST_VALS = word_of_int (sint mx - 6500000)" by simp
  then have small: "mx - of_nat MAX_TEST_VALS \<le>s mn \<longleftrightarrow> sint mx - 6500000 \<le> sint mn"
    using sint_of_int[of "sint mx - 6500000"] mx unfolding word_sle_eq by simp
  have up: "count_up mn mx = Some (map word_of_int [sint mn..sint mx])"
    using count_up_range[of "sint mn" "sint mx"] sint32[of mn] mx assms(5) ab by simp
  have "mn = 1 \<Longrightarrow> mx = 1 \<Longrightarrow> sint mx - sint mn = 0" by simp
  then show ?thesis
    using assms(1,2,5) length_sample[of draw k mn mx r] length_float[of r] small up
    unfolding gen_vals_def by (auto split: if_splits)
qed

section \<open>The verdict\<close>

text \<open>
  C37: the driver gives the solutions of \<^verbatim>\<open>bits.c\<close> all 55 points, whatever the random numbers between the
  bounds are, although \<^verbatim>\<open>float_twice\<close> differs from its reference exactly for the floats of the largest
  exponent with a fraction: no such float is a test value for any range, and no NaN is.
\<close>

theorem btest_full_marks:
  assumes "draws_between draw"
  shows "btest_main strtof strtoll draw [] = Total 0 55 55
    \<and> (\<forall>u. float_twice u \<noteq> test_float_twice u \<longleftrightarrow> float_exp u = 254 \<and> float_frac u \<noteq> 0)
    \<and> (\<forall>r. \<forall>u \<in> set (float_test_vals r). \<not> float_nan u \<and> \<not> (float_exp u = 254 \<and> float_frac u \<noteq> 0))"
proof (intro conjI allI ballI)
  have "\<forall>t \<in> set puzzles. passes default_options draw t"
    using puzzles_pass[OF assms, of default_options] by (simp add: no_args_def default_options_def list_all_iff)
  moreover have "sum_list (map t_rating puzzles) = 55" by (simp add: puzzles_def row_def)
  ultimately show "btest_main strtof strtoll draw [] = Total 0 55 55"
    using run_tests_pass[of puzzles default_options draw]
    by (simp add: btest_main_def test_set_def default_options_def)
  show "float_twice u \<noteq> test_float_twice u \<longleftrightarrow> float_exp u = 254 \<and> float_frac u \<noteq> 0" for u
    by (simp add: float_twice_matches_iff)
  fix r u assume "u \<in> set (float_test_vals r)"
  from tested_float_parts[OF float_test_vals_tested[OF this]]
  show "\<not> float_nan u" "\<not> (float_exp u = 254 \<and> float_frac u \<noteq> 0)" by simp_all
qed

theorem btest_full_marks_witness:
  "btest_main (\<lambda>s. (0, s)) (\<lambda>s. (0, s)) (\<lambda>k mn mx. mx) [] = Total 0 55 55
    \<and> float_twice 0x7F000001 \<noteq> test_float_twice 0x7F000001"
proof -
  have "draws_between (\<lambda>k mn mx. mx)" by (simp add: draws_between_def)
  moreover have "float_exp 0x7F000001 = 254" "float_frac 0x7F000001 \<noteq> 0"
    by (simp_all add: float_exp_def float_frac_def)
  ultimately show ?thesis using btest_full_marks[of "\<lambda>k mn mx. mx" "\<lambda>s. (0, s)" "\<lambda>s. (0, s)"] by simp
qed

end
