(* ===== verification/Pointer_Lab.thy ===== *)
theory Pointer_Lab
  imports Bits_Ref
begin

text \<open>
  The pointer puzzles (\<^verbatim>\<open>C/CSAPPLab/pointer/pointer.c\<close>; the copy under \<^verbatim>\<open>bits\<close> holds the stubs only) and
  their test program \<^verbatim>\<open>ptest.c\<close>. Pointers are 32-bit words, and \<open>p + i\<close> on a pointer to a type counts
  in units of its size. The address of a local array is a parameter.
\<close>

section \<open>The solutions\<close>

definition ptr_add :: "u32 \<Rightarrow> u32 \<Rightarrow> u32 \<Rightarrow> u32" where
  "ptr_add elem_size p i = p + elem_size * i"

definition intSize :: "u32 \<Rightarrow> i32" where
  "intSize intArray = (let intPtr1 = intArray; intPtr2 = ptr_add 4 intArray 1 in intPtr2 - intPtr1)"

definition doubleSize :: "u32 \<Rightarrow> i32" where
  "doubleSize doubArray = (let doubPtr1 = doubArray; doubPtr2 = ptr_add 8 doubArray 1 in doubPtr2 - doubPtr1)"

definition pointerSize :: "u32 \<Rightarrow> i32" where
  "pointerSize ptrArray = (let ptrPtr1 = ptrArray; ptrPtr2 = ptr_add 4 ptrArray 1 in ptrPtr2 - ptrPtr1)"

text \<open>The array is a list of 10 values, not initialised in C.\<close>

definition changeValue :: "i32 list \<Rightarrow> i32" where
  "changeValue intArray = (let intArray' = intArray[0 + 5 := 351] in intArray' ! 5)"

definition withinSameBlock :: "u32 \<Rightarrow> u32 \<Rightarrow> i32" where
  "withinSameBlock ptr1 ptr2 =
     (let mask = asr (shl 1 31) (32 - 7) in of_bool (ptr1 AND mask = ptr2 AND mask))"

definition withinArray :: "u32 \<Rightarrow> i32 \<Rightarrow> u32 \<Rightarrow> i32" where
  "withinArray intArray sz ptr =
     (let i_array = intArray; i_ptr = ptr in of_bool (shl (sz + NOT 0) 2 = i_ptr - i_array))"

definition invert :: "i32 \<Rightarrow> i32 \<Rightarrow> i32 \<Rightarrow> i32" where
  "invert x p n =
     (let mask = asr (shl 1 31) (n - 1); mask = shl (lsr mask (32 - n)) p in x XOR mask)"

section \<open>The test program\<close>

text \<open>Every line is the result of a call and the one expected; the score counts the first table only.\<close>

definition size_tests :: "u32 \<Rightarrow> i32 list \<Rightarrow> (i32 \<times> i32) list" where
  "size_tests base arr = [(intSize base, 4), (doubleSize base, 8), (pointerSize base, 4), (changeValue arr, 351)]"

definition box_args :: "(u32 \<times> u32 \<times> i32) list" where
  "box_args = [(0x1, 72, 0), (0x1, 4, 1), (0x12345678, 0x1, 0), (0x12345678, 0x12345658, 1), (0x12345678, 0x12345686, 0)]"

definition arr_args :: "(u32 \<times> i32 \<times> u32 \<times> i32) list" where
  "arr_args = [(0x1, 4, 0xd, 1), (0x1, 4, 0x11, 0), (0x14, 4, 0xd, 0)]"

definition inverts :: "(i32 \<times> i32 \<times> i32 \<times> i32) list" where
  "inverts = [(142, 3, 3, 182), (1645, 2, 4, 1617), (123456, 12, 1, 127552)]"

definition ptest_lines :: "u32 \<Rightarrow> i32 list \<Rightarrow> (i32 \<times> i32) list" where
  "ptest_lines base arr =
     size_tests base arr
     @ map (\<lambda>(ptr1, ptr2, expected). (withinSameBlock ptr1 ptr2, expected)) box_args
     @ map (\<lambda>(b, sz, ptr, expected). (withinArray b sz ptr, expected)) arr_args
     @ map (\<lambda>(x, p, n, expected). (invert x p n, expected)) inverts"

section \<open>What they compute\<close>

lemma sizes: "intSize a = 4" "doubleSize a = 8" "pointerSize a = 4"
  by (simp_all add: intSize_def doubleSize_def pointerSize_def ptr_add_def)

lemma withinSameBlock_iff: "withinSameBlock p q = of_bool (unat p div 64 = unat q div 64)"
proof -
  have mask: "asr (shl 1 31) (32 - 7) = (push_bit 6 (- 1) :: u32)" by code_simp
  have "p AND push_bit 6 (- 1) = q AND push_bit 6 (- 1) \<longleftrightarrow> drop_bit 6 p = drop_bit 6 q"
  proof -
    have b: "bit (w AND push_bit 6 (- 1)) i \<longleftrightarrow> 6 \<le> i \<and> i < 32 \<and> bit w i" for w :: u32 and i
      by (auto simp: bit_simps dest: bit_imp_le_length)
    show ?thesis
    proof
      assume eq: "p AND push_bit 6 (- 1) = q AND push_bit 6 (- 1)"
      show "drop_bit 6 p = drop_bit 6 q"
      proof (rule bit_word_eqI)
        fix i
        have "bit (p AND push_bit 6 (- 1)) (6 + i) = bit (q AND push_bit 6 (- 1)) (6 + i)" by (simp only: eq)
        then show "bit (drop_bit 6 p) i = bit (drop_bit 6 q) i"
          unfolding b by (auto simp: bit_drop_bit_eq dest: bit_imp_le_length)
      qed
    next
      assume eq: "drop_bit 6 p = drop_bit 6 q"
      have same: "bit p i = bit q i" if "6 \<le> i" for i
        using arg_cong[OF eq, of "\<lambda>w. bit w (i - 6)"] that by (simp add: bit_drop_bit_eq)
      show "p AND push_bit 6 (- 1) = q AND push_bit 6 (- 1)"
        by (rule bit_word_eqI) (unfold b, use same in blast)
    qed
  qed
  moreover have "drop_bit 6 p = drop_bit 6 q \<longleftrightarrow> unat p div 64 = unat q div 64"
    by (simp add: word_unat_eq_iff unat_div drop_bit_eq_div)
  ultimately show ?thesis unfolding withinSameBlock_def Let_def mask by simp
qed

text \<open>\<open>withinArray\<close> accepts the last element of the array and nothing else.\<close>

lemma withinArray_only_last:
  assumes "0 < n" "n < 2 ^ 30" "i < n"
  shows "withinArray arr (of_nat n) (ptr_add 4 arr (of_nat i)) = of_bool (i = n - 1)"
proof -
  have "of_nat n + NOT 0 = (of_nat (n - 1) :: u32)" using assms(1) by (simp add: not_eq_complement of_nat_diff)
  then have "shl (of_nat n + NOT 0) 2 = (of_nat (4 * (n - 1)) :: u32)"
    by (simp add: shl_def push_bit_eq_mult)
  moreover have "4 * of_nat i = (of_nat (4 * i) :: u32)" by simp
  moreover have "(of_nat (4 * (n - 1)) :: u32) = of_nat (4 * i) \<longleftrightarrow> 4 * (n - 1) = 4 * i"
  proof -
    have "unat (of_nat (4 * (n - 1)) :: u32) = 4 * (n - 1)" "unat (of_nat (4 * i) :: u32) = 4 * i"
      using assms by (subst word_of_small; simp)+
    then show ?thesis by (metis)
  qed
  ultimately show ?thesis by (simp only: withinArray_def ptr_add_def Let_def add_diff_cancel_left') auto
qed

lemma invert_bits:
  assumes "1 \<le> n" "n + p \<le> 32" "i < 32"
  shows "bit (invert x (of_nat p) (of_nat n)) i \<longleftrightarrow> (if p \<le> i \<and> i < p + n then \<not> bit x i else bit x i)"
proof -
  have u: "unat (of_nat p :: i32) = p" "unat (of_nat n - 1 :: i32) = n - 1" "unat (32 - of_nat n :: i32) = 32 - n"
  proof -
    have "of_nat n - 1 = (of_nat (n - 1) :: i32)" "32 - of_nat n = (of_nat (32 - n) :: i32)"
      using assms by (simp_all add: of_nat_diff)
    then show "unat (of_nat p :: i32) = p" "unat (of_nat n - 1 :: i32) = n - 1" "unat (32 - of_nat n :: i32) = 32 - n"
      using assms by (simp_all only:) (subst word_of_small; simp)+
  qed
  have t: "bit (shl 1 31) j \<longleftrightarrow> j = 31" for j
    using bit_exp_iff[where ?'a = u32, of 31 j] by (auto simp: tmin_eq)
  show ?thesis
    using assms unfolding invert_def Let_def bit_xor_iff bit_shl bit_lsr bit_asr u t by auto
qed

text \<open>The test program passes every line: it asks for the last element of an array and two addresses outside.\<close>

lemma ptest_passes:
  assumes "length arr = 10"
  shows "\<forall>(result, expected) \<in> set (ptest_lines base arr). result = expected"
proof -
  have "withinSameBlock 0x1 72 = 0" "withinSameBlock 0x1 4 = 1" "withinSameBlock 0x12345678 0x1 = 0"
    "withinSameBlock 0x12345678 0x12345658 = 1" "withinSameBlock 0x12345678 0x12345686 = 0"
    "withinArray 0x1 4 0xd = 1" "withinArray 0x1 4 0x11 = 0" "withinArray 0x14 4 0xd = 0"
    "invert 142 3 3 = 182" "invert 1645 2 4 = 1617" "invert 123456 12 1 = 127552"
    by code_simp+
  then show ?thesis
    using assms by (simp add: ptest_lines_def size_tests_def box_args_def arr_args_def inverts_def sizes changeValue_def)
qed

end
