(* ===== verification/Tsh.thy ===== *)
theory Tsh
  imports C_Strings "HOL-Library.Monad_Syntax"
begin

text \<open>
  The job-control shell (\<^verbatim>\<open>C/CSAPPLab/shell/tsh.c\<close>): the job list, the command line parser,
  the built-in commands and the signal handlers. What the operating system answers is an
  argument: the pid \<open>fork\<close> returns, the children \<open>waitpid\<close> reports, whether \<open>kill\<close>
  succeeds. \<open>out\<close> is the text written to the standard output, \<open>sent\<close> the signals the
  shell sent to process groups. A command line that \<open>eval\<close> passes on has been through
  \<open>parseline\<close>, so it fits into the \<^verbatim>\<open>cmdline\<close> of a job too. Job numbers are mathematical integers; they stay far below
  the bound of a C \<^verbatim>\<open>int\<close> in any run of less than \<open>2^31\<close> commands.
\<close>

section \<open>State\<close>

abbreviation "MAXLINE_TSH \<equiv> 1024 :: nat"
abbreviation "MAXARGS \<equiv> 128 :: nat"
abbreviation "MAXJOBS \<equiv> 16 :: nat"

datatype job_state = UNDEF | FG | BG | ST

record job_t =
  pid :: int
  jid :: int
  state :: job_state
  cmdline :: string

datatype signal = SIGINT | SIGTSTP | SIGCONT

record shell =
  jobs :: "job_t list"
  nextjid :: int
  verbose :: bool
  out :: string
  sent :: "(int \<times> signal) list"

abbreviation job :: "shell \<Rightarrow> nat \<Rightarrow> job_t" where "job s i \<equiv> jobs s ! i"

definition newline :: string where "newline = [char_of (10 :: nat)]"

definition put :: "string \<Rightarrow> shell \<Rightarrow> shell" where
  "put t s = s\<lparr>out := out s @ t\<rparr>"

definition upd_job :: "nat \<Rightarrow> (job_t \<Rightarrow> job_t) \<Rightarrow> shell \<Rightarrow> shell" where
  "upd_job i f s = s\<lparr>jobs := upd_nth i f (jobs s)\<rparr>"

definition post_signal :: "int \<Rightarrow> signal \<Rightarrow> shell \<Rightarrow> shell" where
  "post_signal p sg s = s\<lparr>sent := sent s @ [(p, sg)]\<rparr>"

section \<open>The job list\<close>

definition clearjob :: "job_t \<Rightarrow> job_t" where
  "clearjob j = j\<lparr>pid := 0, jid := 0, state := UNDEF, cmdline := []\<rparr>"

definition initjobs :: "job_t list \<Rightarrow> job_t list" where
  "initjobs js = map clearjob js"

definition maxjid :: "job_t list \<Rightarrow> int" where
  "maxjid js = fold (\<lambda>j m. if jid j > m then jid j else m) js 0"

definition job_text :: "job_t \<Rightarrow> string" where
  "job_text j = ''['' @ dec (jid j) @ ''] ('' @ dec (pid j) @ '') ''"

definition addjob :: "int \<Rightarrow> job_state \<Rightarrow> string \<Rightarrow> shell \<Rightarrow> bool \<times> shell" where
  "addjob p st cmd s =
     (if p < 1 then (False, s)
      else case scan (\<lambda>i. pid (job s i) = 0) 0 MAXJOBS of
        Some i \<Rightarrow>
          (let s1 = upd_job i (\<lambda>j. j\<lparr>pid := p, state := st, jid := nextjid s\<rparr>) s;
               s2 = s1\<lparr>nextjid := nextjid s1 + 1\<rparr>;
               s3 = (if nextjid s2 > int MAXJOBS then s2\<lparr>nextjid := 1\<rparr> else s2);
               s4 = upd_job i (\<lambda>j. j\<lparr>cmdline := cmd\<rparr>) s3
           in (True, if verbose s4
                     then put (''Added job ['' @ dec (jid (job s4 i)) @ ''] '' @ dec (pid (job s4 i))
                               @ '' '' @ cmdline (job s4 i) @ newline) s4
                     else s4))
      | None \<Rightarrow> (False, put (''Tried to create too many jobs'' @ newline) s))"

definition deletejob :: "int \<Rightarrow> shell \<Rightarrow> bool \<times> shell" where
  "deletejob p s =
     (if p < 1 then (False, s)
      else case scan (\<lambda>i. pid (job s i) = p) 0 MAXJOBS of
        Some i \<Rightarrow> (let s1 = upd_job i clearjob s in (True, s1\<lparr>nextjid := maxjid (jobs s1) + 1\<rparr>))
      | None \<Rightarrow> (False, s))"

definition fgpid :: "shell \<Rightarrow> int" where
  "fgpid s = (case scan (\<lambda>i. state (job s i) = FG) 0 MAXJOBS of Some i \<Rightarrow> pid (job s i) | None \<Rightarrow> 0)"

text \<open>A pointer to a job is its index in the job list.\<close>

definition getjobpid :: "int \<Rightarrow> shell \<Rightarrow> nat option" where
  "getjobpid p s = (if p < 1 then None else scan (\<lambda>i. pid (job s i) = p) 0 MAXJOBS)"

definition getjobjid :: "int \<Rightarrow> shell \<Rightarrow> nat option" where
  "getjobjid n s = (if n < 1 then None else scan (\<lambda>i. jid (job s i) = n) 0 MAXJOBS)"

definition pid2jid :: "int \<Rightarrow> shell \<Rightarrow> int" where
  "pid2jid p s = (if p < 1 then 0
     else case scan (\<lambda>i. pid (job s i) = p) 0 MAXJOBS of Some i \<Rightarrow> jid (job s i) | None \<Rightarrow> 0)"

fun state_text :: "nat \<Rightarrow> job_state \<Rightarrow> string" where
  "state_text i BG = ''Running ''"
| "state_text i FG = ''Foreground ''"
| "state_text i ST = ''Stopped ''"
| "state_text i UNDEF = ''listjobs: Internal error: job['' @ dec (int i) @ ''].state=0 ''"

definition list_line :: "shell \<Rightarrow> nat \<Rightarrow> string" where
  "list_line s i = (if pid (job s i) \<noteq> 0
     then job_text (job s i) @ state_text i (state (job s i)) @ cmdline (job s i) else [])"

definition listjobs :: "shell \<Rightarrow> shell" where
  "listjobs s = put (concat (map (list_line s) [0..<MAXJOBS])) s"

section \<open>The command line\<close>

text \<open>\<^verbatim>\<open>strchr\<close>, with the text before the character and the text after it.\<close>

definition split_at :: "char \<Rightarrow> string \<Rightarrow> (string \<times> string) option" where
  "split_at c s = (case dropWhile (\<lambda>x. x \<noteq> c) s of
     [] \<Rightarrow> None | _ # rest \<Rightarrow> Some (takeWhile (\<lambda>x. x \<noteq> c) s, rest))"

definition next_arg :: "string \<Rightarrow> (string \<times> string) option" where
  "next_arg buf = (case buf of
     c # t \<Rightarrow> if c = CHR 0x27 then split_at (CHR 0x27) t else split_at (CHR '' '') buf
   | [] \<Rightarrow> None)"

lemma split_at_length: "split_at c s = Some (a, r) \<Longrightarrow> length r < length s"
proof -
  assume "split_at c s = Some (a, r)"
  then obtain x where "dropWhile (\<lambda>x. x \<noteq> c) s = x # r"
    by (auto simp: split_at_def split: list.splits)
  then have "Suc (length r) \<le> length s"
    by (metis length_Cons length_dropWhile_le)
  then show ?thesis by simp
qed

lemma next_arg_length: "next_arg s = Some (a, r) \<Longrightarrow> length r < length s"
  by (auto simp: next_arg_def split: list.splits if_splits dest: split_at_length)

function parse_args :: "string \<Rightarrow> string list" where
  "parse_args buf = (case next_arg (dropWhile (\<lambda>c. c = CHR '' '') buf) of
     None \<Rightarrow> [] | Some (a, rest) \<Rightarrow> a # parse_args rest)"
  by pat_completeness auto
termination
proof (relation "measure length", goal_cases)
  case (2 buf x a r)
  then show ?case
    using next_arg_length[of "dropWhile (\<lambda>c. c = CHR '' '') buf" a r]
      length_dropWhile_le[of "\<lambda>c. c = CHR '' ''" buf] by simp
qed simp

declare parse_args.simps [simp del]

text \<open>
  The result is the argument vector and the background flag; \<^const>\<open>None\<close> is a write outside
  an array: an empty command line, a line that does not fit with its NUL into the local copy of
  \<^verbatim>\<open>MAXLINE\<close> characters, or \<^const>\<open>MAXARGS\<close> arguments or more.
\<close>

definition parseline :: "string \<Rightarrow> (string list \<times> bool) option" where
  "parseline line =
     (if line = [] \<or> MAXLINE_TSH \<le> length line then None
      else let argv = parse_args (butlast line @ '' '') in
        if MAXARGS \<le> length argv then None
        else if argv = [] then Some ([], True)
        else if take 1 (last argv) = ''&'' then Some (butlast argv, True)
        else Some (argv, False))"

section \<open>Built-in commands\<close>

text \<open>
  Where the main thread of the shell is: at the prompt, in the loop of \<open>waitfg\<close>, in
  \<open>do_bgfg\<close> between the search for the job and the write to the job (with the command,
  the job and its pid), or gone.
\<close>

datatype control = Prompt | Waitfg int | Resuming string nat int | Exited int

text \<open>One turn of the loop of \<open>waitfg\<close>.\<close>

definition waitfg :: "int \<Rightarrow> shell \<Rightarrow> control" where
  "waitfg p s = (if p = fgpid s then Waitfg p else Prompt)"

definition bgfg_find :: "string list \<Rightarrow> shell \<Rightarrow> shell \<times> control" where
  "bgfg_find argv s =
     (if length argv < 2
      then (put (argv ! 0 @ '' command requires PID or %jobid argument'' @ newline) s, Prompt)
      else if take 1 (argv ! 1) = ''%'' then
        (let n = atoi (drop 1 (argv ! 1)) in
         if n < 0 then (put (argv ! 0 @ '': argument must be a PID or %jobid'' @ newline) s, Prompt)
         else case getjobjid n s of
           None \<Rightarrow> (put (''('' @ dec n @ ''): No such job'' @ newline) s, Prompt)
         | Some i \<Rightarrow> (s, Resuming (argv ! 0) i (pid (job s i))))
      else
        (let p = atoi (argv ! 1) in
         if p < 0 then (put (argv ! 0 @ '': argument must be a PID or %jobid'' @ newline) s, Prompt)
         else case getjobpid p s of
           None \<Rightarrow> (put (''('' @ dec p @ ''): No such process'' @ newline) s, Prompt)
         | Some i \<Rightarrow> (s, Resuming (argv ! 0) i p)))"

definition bgfg_resume :: "string \<Rightarrow> nat \<Rightarrow> int \<Rightarrow> shell \<Rightarrow> shell \<times> control" where
  "bgfg_resume cmd i p s =
     (if cmd = ''fg''
      then (upd_job i (\<lambda>j. j\<lparr>state := FG\<rparr>) (post_signal (- p) SIGCONT s), Waitfg p)
      else let s1 = upd_job i (\<lambda>j. j\<lparr>state := BG\<rparr>) (post_signal (- p) SIGCONT s)
           in (put (''['' @ dec (jid (job s1 i)) @ ''] ('' @ dec p @ '') '' @ cmdline (job s1 i)) s1, Prompt))"

text \<open>\<open>do_bgfg\<close> with no signal in between.\<close>

definition do_bgfg :: "string list \<Rightarrow> shell \<Rightarrow> shell \<times> control" where
  "do_bgfg argv s = (case bgfg_find argv s of
     (s1, Resuming cmd i p) \<Rightarrow> bgfg_resume cmd i p s1
   | r \<Rightarrow> r)"

text \<open>\<^const>\<open>None\<close> is the answer 0 of \<open>builtin_cmd\<close>: not a built-in command.\<close>

definition builtin_cmd :: "string list \<Rightarrow> shell \<Rightarrow> (shell \<times> control) option" where
  "builtin_cmd argv s =
     (if argv ! 0 = ''quit'' then Some (s, Exited 0)
      else if argv ! 0 = ''jobs'' then Some (listjobs s, Prompt)
      else if argv ! 0 = ''fg'' \<or> argv ! 0 = ''bg'' then Some (bgfg_find argv s)
      else None)"

text \<open>
  The shell's side of \<open>eval\<close>; \<open>child\<close> is what \<open>fork\<close> returns. SIGCHLD is blocked from before
  the fork until after \<open>addjob\<close>, so this is one step.
\<close>

definition eval :: "string \<Rightarrow> int \<Rightarrow> shell \<Rightarrow> (shell \<times> control) option" where
  "eval line child s = do {
     (argv, bg) \<leftarrow> parseline line;
     if argv = [] then Some (s, Prompt)
     else case builtin_cmd argv s of
       Some r \<Rightarrow> Some r
     | None \<Rightarrow>
         (let s1 = snd (addjob child (if bg then BG else FG) line s) in
          Some (if \<not> bg then (s1, Waitfg child)
                else (put (''['' @ dec (pid2jid child s1) @ ''] ('' @ dec child @ '') '' @ line @ '' &'') s1,
                      Prompt))) }"

section \<open>Signal handlers\<close>

text \<open>The statuses of \<open>waitpid\<close>: \<^verbatim>\<open>WIFSTOPPED\<close>, \<^verbatim>\<open>WIFSIGNALED\<close>, and the others.\<close>

datatype status = Stopped int | Signaled int | Terminated int

definition report_job :: "int \<Rightarrow> string \<Rightarrow> int \<Rightarrow> shell \<Rightarrow> shell" where
  "report_job p what sg s = put (''Job ['' @ dec (pid2jid p s) @ ''] ('' @ dec p @ '') ''
     @ what @ '' by signal '' @ dec sg @ newline) s"

fun sigchld_handler :: "(int \<times> status) list \<Rightarrow> shell \<Rightarrow> shell \<times> int option" where
  "sigchld_handler [] s = (s, None)"
| "sigchld_handler ((p, Stopped sg) # evs) s =
     (let s1 = report_job p ''stopped'' sg s
      in case getjobpid p s1 of
           None \<Rightarrow> (put (''pid not exists!'' @ newline) s1, Some 1)
         | Some i \<Rightarrow> sigchld_handler evs (upd_job i (\<lambda>j. j\<lparr>state := ST\<rparr>) s1))"
| "sigchld_handler ((p, Signaled sg) # evs) s =
     (let s1 = report_job p ''terminated'' sg s
      in sigchld_handler evs (snd (deletejob p s1)))"
| "sigchld_handler ((p, Terminated n) # evs) s = sigchld_handler evs (snd (deletejob p s))"

text \<open>\<open>r\<close> is the answer of \<open>kill\<close>: \<^const>\<open>None\<close>, or the text of \<^verbatim>\<open>strerror(errno)\<close>.\<close>

definition sigint_handler :: "string option \<Rightarrow> shell \<Rightarrow> shell \<times> int option" where
  "sigint_handler r s =
     (let p = fgpid s in
      if p = 0 then (s, None)
      else let s1 = post_signal (- p) SIGINT s in
        case r of None \<Rightarrow> (s1, None)
        | Some e \<Rightarrow> (put (''kill failed!: '' @ e @ newline) s1, Some 1))"

definition sigtstp_handler :: "string option \<Rightarrow> shell \<Rightarrow> shell \<times> int option" where
  "sigtstp_handler r s =
     (let p = fgpid s in
      if p = 0 then (s, None)
      else let s1 = post_signal (- p) SIGTSTP s in
        case r of None \<Rightarrow> (s1, None)
        | Some e \<Rightarrow> (put (''STOP failed!: '' @ e @ newline) s1, Some 1))"

definition sigquit_handler :: "shell \<Rightarrow> shell \<times> int option" where
  "sigquit_handler s = (put (''Terminating after receipt of SIGQUIT signal'' @ newline) s, Some 1)"

end
