(* ===== verification/Tsh_Jobs.thy ===== *)
theory Tsh_Jobs
  imports Tsh
begin

text \<open>
  The job list as a partial map from pids to jobs: the interface \<open>pid_table\<close> says what
  adding and deleting does to the lookup, the shell's job list provides it, and the reaping
  of children is described over it. Then the invariants of the shell with its signals.
\<close>

section \<open>Tables of processes\<close>

locale pid_table =
  fixes wf :: "'s \<Rightarrow> bool"
    and room :: "'s \<Rightarrow> bool"
    and look :: "'s \<Rightarrow> int \<rightharpoonup> 'j"
    and add :: "int \<Rightarrow> 'j \<Rightarrow> 's \<Rightarrow> 's"
    and del :: "int \<Rightarrow> 's \<Rightarrow> 's"
  assumes wf_add: "wf s \<Longrightarrow> 0 < p \<Longrightarrow> look s p = None \<Longrightarrow> wf (add p j s)"
    and wf_del: "wf s \<Longrightarrow> wf (del p s)"
    and look_add: "wf s \<Longrightarrow> 0 < p \<Longrightarrow> look s p = None \<Longrightarrow>
          look (add p j s) = (if room s then (look s)(p \<mapsto> j) else look s)"
    and look_del: "wf s \<Longrightarrow> look (del p s) = (look s)(p := None)"
    and room_del: "wf s \<Longrightarrow> look s p \<noteq> None \<Longrightarrow> room (del p s)"
begin

lemma wf_dels: "wf s \<Longrightarrow> wf (fold del ps s)"
  by (induction ps arbitrary: s) (auto intro: wf_del)

lemma look_dels: "wf s \<Longrightarrow> look (fold del ps s) q = (if q \<in> set ps then None else look s q)"
  by (induction ps arbitrary: s) (auto simp: wf_del look_del)

lemma add_then_del: "wf s \<Longrightarrow> 0 < p \<Longrightarrow> look s p = None \<Longrightarrow> look (del p (add p j s)) = look s"
  by (auto simp: look_del wf_add look_add fun_upd_idem)

lemma replace_job: "wf s \<Longrightarrow> 0 < p \<Longrightarrow> look s q \<noteq> None \<Longrightarrow> look s p = None \<Longrightarrow>
    look (add p j (del q s)) = (look s)(q := None, p \<mapsto> j)"
  by (auto simp: look_add look_del wf_del room_del)

end

section \<open>The job list is one\<close>

definition wf_jobs :: "shell \<Rightarrow> bool" where
  "wf_jobs s \<longleftrightarrow> length (jobs s) = MAXJOBS
     \<and> (\<forall>i < MAXJOBS. 0 \<le> pid (job s i)
          \<and> (pid (job s i) = 0 \<longrightarrow> state (job s i) = UNDEF \<and> jid (job s i) = 0))
     \<and> (\<forall>i < MAXJOBS. \<forall>k < MAXJOBS. pid (job s i) = pid (job s k) \<and> pid (job s i) \<noteq> 0 \<longrightarrow> i = k)"

definition job_at :: "shell \<Rightarrow> int \<Rightarrow> (job_state \<times> string) option" where
  "job_at s p = map_option (\<lambda>i. (state (job s i), cmdline (job s i))) (getjobpid p s)"

definition has_room :: "shell \<Rightarrow> bool" where
  "has_room s \<longleftrightarrow> (\<exists>i < MAXJOBS. pid (job s i) = 0)"

lemma wf_jobs_length [simp]: "wf_jobs s \<Longrightarrow> length (jobs s) = MAXJOBS"
  by (simp add: wf_jobs_def)

lemma wf_jobsD:
  assumes "wf_jobs s" "i < MAXJOBS"
  shows "0 \<le> pid (job s i)" "pid (job s i) = 0 \<Longrightarrow> state (job s i) = UNDEF"
    "pid (job s i) = 0 \<Longrightarrow> jid (job s i) = 0"
    "k < MAXJOBS \<Longrightarrow> pid (job s i) = pid (job s k) \<Longrightarrow> pid (job s i) \<noteq> 0 \<Longrightarrow> i = k"
  using assms unfolding wf_jobs_def by blast+

lemma put_simps [simp]: "jobs (put t s) = jobs s" "nextjid (put t s) = nextjid s"
  "verbose (put t s) = verbose s" "sent (put t s) = sent s"
  by (simp_all add: put_def)

lemma post_signal_simps [simp]: "jobs (post_signal p sg s) = jobs s"
  "nextjid (post_signal p sg s) = nextjid s" "verbose (post_signal p sg s) = verbose s"
  by (simp_all add: post_signal_def)

lemma job_upd_job [simp]: "i < length (jobs s) \<Longrightarrow>
    job (upd_job k f s) i = (if i = k then f (job s i) else job s i)"
  by (auto simp: upd_job_def nth_upd_nth)

lemma upd_job_simps [simp]: "length (jobs (upd_job i f s)) = length (jobs s)"
  "nextjid (upd_job i f s) = nextjid s" "verbose (upd_job i f s) = verbose s"
  by (simp_all add: upd_job_def)

lemma getjobpid_Some_iff:
  assumes "wf_jobs s"
  shows "getjobpid p s = Some i \<longleftrightarrow> 0 < p \<and> i < MAXJOBS \<and> pid (job s i) = p"
proof -
  have "\<not> j < i" if "i < MAXJOBS" "pid (job s j) = pid (job s i)" "0 < pid (job s i)" for j
    using wf_jobsD(4)[OF assms that(1), of j] that by (cases "j < i") auto
  then show ?thesis
    by (auto simp: getjobpid_def scan_Some_iff)
qed

lemma getjobpid_None_iff:
  "getjobpid p s = None \<longleftrightarrow> p < 1 \<or> (\<forall>i < MAXJOBS. pid (job s i) \<noteq> p)"
  by (auto simp: getjobpid_def scan_None_iff)

lemma job_at_Some_iff:
  assumes "wf_jobs s"
  shows "job_at s p = Some d \<longleftrightarrow>
     (\<exists>i < MAXJOBS. 0 < p \<and> pid (job s i) = p \<and> d = (state (job s i), cmdline (job s i)))"
  using getjobpid_Some_iff[OF assms] by (auto simp: job_at_def)

lemma job_at_slot:
  "wf_jobs s \<Longrightarrow> i < MAXJOBS \<Longrightarrow> pid (job s i) \<noteq> 0 \<Longrightarrow>
     job_at s (pid (job s i)) = Some (state (job s i), cmdline (job s i))"
  using wf_jobsD(1)[of s i] by (auto simp: job_at_Some_iff)

lemma job_at_None_iff: "job_at s p = None \<longleftrightarrow> p < 1 \<or> (\<forall>i < MAXJOBS. pid (job s i) \<noteq> p)"
  by (simp add: job_at_def getjobpid_None_iff)

lemma job_at_cong: "jobs s = jobs t \<Longrightarrow> job_at s = job_at t"
  by (simp add: job_at_def getjobpid_def fun_eq_iff)

lemma wf_jobs_cong: "jobs s = jobs t \<Longrightarrow> wf_jobs s = wf_jobs t"
  by (simp add: wf_jobs_def)

text \<open>Two tables with the same slots, one excepted, look the same there.\<close>

lemma job_at_upd_slot:
  assumes "wf_jobs s" "wf_jobs t" "i < MAXJOBS"
    and "\<And>k. k < MAXJOBS \<Longrightarrow> k \<noteq> i \<Longrightarrow> job t k = job s k"
  shows "job_at t = ((job_at s)(pid (job s i) := None))(pid (job t i) :=
           (if pid (job t i) = 0 then None else Some (state (job t i), cmdline (job t i))))"
proof
  fix q
  show "job_at t q = (((job_at s)(pid (job s i) := None))(pid (job t i) :=
           (if pid (job t i) = 0 then None else Some (state (job t i), cmdline (job t i))))) q"
  proof (cases "q = pid (job t i)")
    case True
    then show ?thesis
      using job_at_slot[OF assms(2,3)] by (auto simp: job_at_None_iff)
  next
    case nq: False
    show ?thesis
    proof (cases "q = pid (job s i)")
      case True
      have "pid (job t k) \<noteq> q" if "k < MAXJOBS" "0 < q" for k
        using nq assms(4)[OF that(1)] wf_jobsD(4)[OF assms(1,3) that(1)] True that
        by (cases "k = i") auto
      then show ?thesis using True nq by (auto simp: job_at_None_iff)
    next
      case False
      have "(k < MAXJOBS \<and> pid (job t k) = q) \<longleftrightarrow> (k < MAXJOBS \<and> pid (job s k) = q)" for k
        using nq False assms(4)[of k] by (cases "k = i") auto
      then have "getjobpid q t = getjobpid q s"
        using getjobpid_Some_iff[OF assms(1)] getjobpid_Some_iff[OF assms(2)]
        by (metis not_None_eq option.exhaust)
      moreover have "job t k = job s k" if "getjobpid q s = Some k" for k
        using that False getjobpid_Some_iff[OF assms(1)] assms(4)[of k] by auto
      ultimately have "job_at t q = job_at s q"
        by (cases "getjobpid q s") (simp_all add: job_at_def)
      then show ?thesis using nq False by simp
    qed
  qed
qed

lemma wf_jobs_write:
  assumes "wf_jobs s" "i < MAXJOBS" "jobs t = (jobs s)[i := j]" "0 \<le> pid j"
    and "pid j = 0 \<Longrightarrow> state j = UNDEF \<and> jid j = 0"
    and "\<And>k. k < MAXJOBS \<Longrightarrow> k \<noteq> i \<Longrightarrow> pid j \<noteq> 0 \<Longrightarrow> pid (job s k) \<noteq> pid j"
  shows "wf_jobs t"
proof -
  have nth: "job t k = (if k = i then j else job s k)" if "k < MAXJOBS" for k
    using assms(1-3) that by (auto simp: nth_list_update)
  have "length (jobs t) = MAXJOBS" using assms(1,3) by simp
  moreover have "0 \<le> pid (job t k)" "pid (job t k) = 0 \<Longrightarrow> state (job t k) = UNDEF \<and> jid (job t k) = 0" if "k < MAXJOBS" for k
    using nth[OF that] assms(4,5) wf_jobsD(1-3)[OF assms(1) that] by (auto split: if_splits)
  moreover have "k = l" if kl: "k < MAXJOBS" "l < MAXJOBS" "pid (job t k) = pid (job t l)" "pid (job t k) \<noteq> 0" for k l
  proof -
    have eq: "job t k = (if k = i then j else job s k)" "job t l = (if l = i then j else job s l)"
      using nth kl(1,2) by blast+
    show ?thesis
    proof (cases "k = i \<or> l = i")
      case True
      then show ?thesis using eq kl assms(6)[of k] assms(6)[of l] by (cases "k = i"; cases "l = i") simp_all
    next
      case False
      then show ?thesis using eq kl(3,4) wf_jobsD(4)[OF assms(1) kl(1,2)] by simp
    qed
  qed
  ultimately show ?thesis unfolding wf_jobs_def by blast
qed

lemma addjob_jobs:
  assumes "length (jobs s) = MAXJOBS" "0 < p" "scan (\<lambda>i. pid (job s i) = 0) 0 MAXJOBS = Some i"
  shows "jobs (snd (addjob p st cmd s)) =
      (jobs s)[i := (job s i)\<lparr>pid := p, state := st, jid := nextjid s, cmdline := cmd\<rparr>]"
  using assms scan_SomeD(2)[OF assms(3)]
  by (simp add: addjob_def Let_def upd_job_def upd_nth_def)

lemma addjob_full: "0 < p \<Longrightarrow> \<not> has_room s \<Longrightarrow> jobs (snd (addjob p st cmd s)) = jobs s"
  by (auto simp: addjob_def has_room_def scan_Some_iff split: option.split)

lemma addjob_bad: "p < 1 \<Longrightarrow> addjob p st cmd s = (False, s)"
  by (simp add: addjob_def)

lemma has_room_scan: "has_room s \<longleftrightarrow> (\<exists>i. scan (\<lambda>i. pid (job s i) = 0) 0 MAXJOBS = Some i)"
proof -
  have "\<not> has_room s \<longleftrightarrow> scan (\<lambda>i. pid (job s i) = 0) 0 MAXJOBS = None"
    by (auto simp: has_room_def scan_None_iff)
  then show ?thesis by (auto simp: not_None_eq)
qed

lemma addjob_slot:
  assumes "wf_jobs s" "0 < p" "job_at s p = None" "has_room s"
  obtains i where "i < MAXJOBS" "pid (job s i) = 0"
    "jobs (snd (addjob p st cmd s)) =
      (jobs s)[i := (job s i)\<lparr>pid := p, state := st, jid := nextjid s, cmdline := cmd\<rparr>]"
    "wf_jobs (snd (addjob p st cmd s))"
    "job_at (snd (addjob p st cmd s)) = (job_at s)(p \<mapsto> (st, cmd))"
proof -
  obtain i where sc: "scan (\<lambda>i. pid (job s i) = 0) 0 MAXJOBS = Some i"
    using assms(4) has_room_scan by auto
  have i: "i < MAXJOBS" "pid (job s i) = 0" using scan_SomeD(2,3)[OF sc] by simp_all
  note js = addjob_jobs[OF wf_jobs_length[OF assms(1)] assms(2) sc, of st cmd]
  have fresh: "pid (job s k) \<noteq> p" if "k < MAXJOBS" for k
    using assms(2,3) that by (auto simp: job_at_None_iff)
  have wf: "wf_jobs (snd (addjob p st cmd s))"
    by (rule wf_jobs_write[OF assms(1) i(1) js]) (use assms(2) fresh in auto)
  have nth: "job (snd (addjob p st cmd s)) k =
      (if k = i then (job s i)\<lparr>pid := p, state := st, jid := nextjid s, cmdline := cmd\<rparr> else job s k)"
    if "k < MAXJOBS" for k
    unfolding js using that assms(1) by (simp add: nth_list_update)
  have "job_at s 0 = None" by (simp add: job_at_None_iff)
  then have "job_at (snd (addjob p st cmd s)) = (job_at s)(p \<mapsto> (st, cmd))"
    using job_at_upd_slot[OF assms(1) wf i(1)] nth i assms(2) by (simp add: fun_upd_idem)
  then show thesis using that i js wf by blast
qed

lemma deletejob_jobs:
  assumes "wf_jobs s"
  shows "jobs (snd (deletejob p s)) =
    (case getjobpid p s of None \<Rightarrow> jobs s | Some i \<Rightarrow> (jobs s)[i := clearjob (job s i)])"
  by (auto simp: deletejob_def getjobpid_def upd_job_def upd_nth_def Let_def split: option.split)

lemma clearjob_simps [simp]: "pid (clearjob j) = 0" "jid (clearjob j) = 0"
  "state (clearjob j) = UNDEF" "cmdline (clearjob j) = []"
  by (simp_all add: clearjob_def)

lemma deletejob_wf:
  assumes "wf_jobs s" shows "wf_jobs (snd (deletejob p s))"
proof (cases "getjobpid p s")
  case None
  then have "jobs (snd (deletejob p s)) = jobs s" using deletejob_jobs[OF assms, of p] by simp
  then show ?thesis using assms wf_jobs_cong by blast
next
  case (Some i)
  then have "i < MAXJOBS" using getjobpid_Some_iff[OF assms] by simp
  then show ?thesis
    using wf_jobs_write[OF assms, of i "snd (deletejob p s)" "clearjob (job s i)"]
      deletejob_jobs[OF assms, of p] Some by simp
qed

lemma deletejob_look:
  assumes "wf_jobs s" shows "job_at (snd (deletejob p s)) = (job_at s)(p := None)"
proof (cases "getjobpid p s")
  case None
  then have "job_at (snd (deletejob p s)) = job_at s"
    using deletejob_jobs[OF assms, of p] by (intro job_at_cong) simp
  moreover have "job_at s p = None" using None by (simp add: job_at_def)
  ultimately show ?thesis by (simp add: fun_upd_idem)
next
  case (Some i)
  then have i: "0 < p" "i < MAXJOBS" "pid (job s i) = p" using getjobpid_Some_iff[OF assms] by auto
  have "job_at (snd (deletejob p s)) = ((job_at s)(p := None))(0 := None)"
    using job_at_upd_slot[OF assms deletejob_wf[OF assms] i(2)] deletejob_jobs[OF assms, of p] Some i assms
    by simp
  moreover have "job_at s 0 = None" by (simp add: job_at_None_iff)
  ultimately show ?thesis using i(1) by (simp add: fun_upd_idem)
qed

lemma deletejob_room:
  assumes "wf_jobs s" "job_at s p \<noteq> None" shows "has_room (snd (deletejob p s))"
proof -
  obtain i where i: "getjobpid p s = Some i" using assms(2) by (auto simp: job_at_def)
  then have "i < MAXJOBS" using getjobpid_Some_iff[OF assms(1)] by simp
  then show ?thesis
    using deletejob_jobs[OF assms(1), of p] i assms(1) by (auto simp: has_room_def)
qed

lemma addjob_wf:
  assumes "wf_jobs s" "p < 1 \<or> job_at s p = None"
  shows "wf_jobs (snd (addjob p st cmd s))"
proof -
  consider "p < 1" | "0 < p" "has_room s" | "0 < p" "\<not> has_room s" by linarith
  then show ?thesis
  proof cases
    case 1
    then show ?thesis using assms(1) by (simp add: addjob_bad)
  next
    case 2
    then show ?thesis using addjob_slot[OF assms(1), of p st cmd] assms(2) by auto
  next
    case 3
    then show ?thesis using assms(1) wf_jobs_cong addjob_full by metis
  qed
qed

definition add_job :: "int \<Rightarrow> job_state \<times> string \<Rightarrow> shell \<Rightarrow> shell" where
  "add_job p d s = snd (addjob p (fst d) (snd d) s)"

definition delete_job :: "int \<Rightarrow> shell \<Rightarrow> shell" where
  "delete_job p s = snd (deletejob p s)"

interpretation job_table: pid_table wf_jobs has_room job_at add_job delete_job
proof
  fix s p and d :: "job_state \<times> string"
  assume s: "wf_jobs s" "0 < p" "job_at s p = None"
  show "wf_jobs (add_job p d s)" using s by (simp add: add_job_def addjob_wf)
  show "job_at (add_job p d s) = (if has_room s then (job_at s)(p \<mapsto> d) else job_at s)"
  proof (cases "has_room s")
    case True
    then show ?thesis
      using addjob_slot[OF s True, of "fst d" "snd d"] by (auto simp: add_job_def)
  next
    case False
    then show ?thesis
      using job_at_cong[OF addjob_full[OF s(2) False]] by (simp add: add_job_def)
  qed
qed (simp_all add: delete_job_def deletejob_wf deletejob_look deletejob_room)

end
