(* ===== verification/Tsh_Props.thy ===== *)
theory Tsh_Props
  imports Tsh_Jobs
begin

text \<open>
  Properties of the shell: the command line parser against a printer, the job list against
  a partial map, and the runs of the shell, in which the main thread and the signal
  handlers interleave.
\<close>

section \<open>Runs\<close>

text \<open>
  One step of the main thread or one signal. SIGCHLD is blocked in the middle of \<open>eval\<close>
  only, so it may arrive while \<open>do_bgfg\<close> is about to resume a job; \<open>race = False\<close> leaves
  these runs out. \<open>fork\<close> returns an error, or a pid that no child the shell still has to
  reap carries.
\<close>

definition fork_ok :: "int \<Rightarrow> shell \<Rightarrow> bool" where
  "fork_ok child s \<longleftrightarrow> child = - 1 \<or> (0 < child \<and> job_at s child = None)"

definition resuming :: "control \<Rightarrow> bool" where
  "resuming c \<longleftrightarrow> (case c of Resuming _ _ _ \<Rightarrow> True | _ \<Rightarrow> False)"

definition gone :: "control \<Rightarrow> bool" where
  "gone c \<longleftrightarrow> (case c of Exited _ \<Rightarrow> True | _ \<Rightarrow> False)"

definition handled :: "shell \<times> int option \<Rightarrow> control \<Rightarrow> shell \<times> control" where
  "handled r c = (fst r, case snd r of None \<Rightarrow> c | Some n \<Rightarrow> Exited n)"

inductive tsh_step :: "bool \<Rightarrow> shell \<times> control \<Rightarrow> shell \<times> control \<Rightarrow> bool" for race where
  Eval: "eval line child s = Some x \<Longrightarrow> fork_ok child s \<Longrightarrow> tsh_step race (s, Prompt) x"
| Resume: "tsh_step race (s, Resuming cmd i p) (bgfg_resume cmd i p s)"
| Waited: "tsh_step race (s, Waitfg p) (s, waitfg p s)"
| Sigchld: "\<not> gone c \<Longrightarrow> race \<or> \<not> resuming c \<Longrightarrow>
    tsh_step race (s, c) (handled (sigchld_handler evs s) c)"
| Sigint: "\<not> gone c \<Longrightarrow> tsh_step race (s, c) (handled (sigint_handler r s) c)"
| Sigtstp: "\<not> gone c \<Longrightarrow> tsh_step race (s, c) (handled (sigtstp_handler r s) c)"
| Sigquit: "\<not> gone c \<Longrightarrow> tsh_step race (s, c) (handled (sigquit_handler s) c)"

definition zero_job :: job_t where
  "zero_job = \<lparr>pid = 0, jid = 0, state = UNDEF, cmdline = []\<rparr>"

definition main_start :: "bool \<Rightarrow> shell \<times> control" where
  "main_start v = (\<lparr>jobs = initjobs (replicate MAXJOBS zero_job), nextjid = 1, verbose = v,
     out = [], sent = []\<rparr>, Prompt)"

inductive tsh_reach :: "bool \<Rightarrow> bool \<Rightarrow> shell \<times> control \<Rightarrow> bool" for race v where
  Start: "tsh_reach race v (main_start v)"
| Step: "tsh_reach race v x \<Longrightarrow> tsh_step race x y \<Longrightarrow> tsh_reach race v y"

section \<open>The invariant of the runs\<close>

definition fg_pids :: "shell \<Rightarrow> int set" where
  "fg_pids s = {p. \<exists>cmd. job_at s p = Some (FG, cmd)}"

definition foreground :: "control \<Rightarrow> int set" where
  "foreground c = (case c of Waitfg p \<Rightarrow> {p} | _ \<Rightarrow> {})"

definition run_inv :: "shell \<times> control \<Rightarrow> bool" where
  "run_inv x = (case x of (s, c) \<Rightarrow> wf_jobs s
     \<and> (if gone c then \<exists>p. fg_pids s \<subseteq> {p} else fg_pids s \<subseteq> foreground c)
     \<and> (\<forall>cmd i p. c = Resuming cmd i p \<longrightarrow> getjobpid p s = Some i))"

lemma fg_pids_cong: "job_at s = job_at t \<Longrightarrow> fg_pids s = fg_pids t"
  by (simp add: fg_pids_def)

lemma getjobpid_cong: "jobs s = jobs t \<Longrightarrow> getjobpid p s = getjobpid p t"
  by (simp add: getjobpid_def)

lemma run_inv_jobs:
  assumes "run_inv (s, c)" "jobs t = jobs s" shows "run_inv (t, c)"
  using assms(1) fg_pids_cong[OF job_at_cong[OF assms(2)]] wf_jobs_cong[OF assms(2)]
    getjobpid_cong[OF assms(2)] by (simp add: run_inv_def)

lemma run_inv_exit:
  assumes "run_inv (s, c)" "jobs t = jobs s" shows "run_inv (t, Exited n)"
proof -
  have "\<exists>p. fg_pids s \<subseteq> {p}"
    using assms(1) by (auto simp: run_inv_def foreground_def split: if_splits control.splits)
  then show ?thesis
    using assms fg_pids_cong[OF job_at_cong[OF assms(2)]] wf_jobs_cong[OF assms(2)]
    by (simp add: run_inv_def gone_def)
qed

lemma fgpid_cases:
  assumes "wf_jobs s" "fg_pids s \<subseteq> {p}"
  shows "fgpid s = (if p \<in> fg_pids s then p else 0)"
proof (cases "scan (\<lambda>i. state (job s i) = FG) 0 MAXJOBS")
  case None
  then have "state (job s i) \<noteq> FG" if "i < MAXJOBS" for i using that by (auto simp: scan_None_iff)
  then have "job_at s p \<noteq> Some (FG, cmd)" for cmd
    by (metis job_at_Some_iff[OF assms(1)] prod.inject)
  then have "p \<notin> fg_pids s" by (simp add: fg_pids_def)
  then show ?thesis using None by (simp add: fgpid_def)
next
  case (Some i)
  then have i: "i < MAXJOBS" "state (job s i) = FG" by (auto simp: scan_Some_iff)
  then have "pid (job s i) \<noteq> 0" using wf_jobsD(2)[OF assms(1) i(1)] by auto
  then have "pid (job s i) \<in> fg_pids s"
    using job_at_slot[OF assms(1) i(1)] i(2) by (simp add: fg_pids_def)
  then show ?thesis using Some assms(2) by (auto simp: fgpid_def)
qed

section \<open>Each operation keeps it\<close>

lemma set_state:
  assumes "wf_jobs s" "getjobpid p s = Some i"
  shows "wf_jobs (upd_job i (\<lambda>j. j\<lparr>state := x\<rparr>) s)"
    and "job_at (upd_job i (\<lambda>j. j\<lparr>state := x\<rparr>) s) = (job_at s)(p \<mapsto> (x, cmdline (job s i)))"
proof -
  have i: "0 < p" "i < MAXJOBS" "pid (job s i) = p" using getjobpid_Some_iff[OF assms(1)] assms(2) by auto
  have js: "jobs (upd_job i (\<lambda>j. j\<lparr>state := x\<rparr>) s) = (jobs s)[i := (job s i)\<lparr>state := x\<rparr>]"
    by (simp add: upd_job_def upd_nth_def)
  have "pid (job s k) \<noteq> p" if "k < MAXJOBS" "k \<noteq> i" for k
    using wf_jobsD(4)[OF assms(1) that(1) i(2)] that i by auto
  then show wf: "wf_jobs (upd_job i (\<lambda>j. j\<lparr>state := x\<rparr>) s)"
    using wf_jobs_write[OF assms(1) i(2) js] i by simp
  have nth: "job (upd_job i (\<lambda>j. j\<lparr>state := x\<rparr>) s) k = (if k = i then (job s i)\<lparr>state := x\<rparr> else job s k)"
    if "k < MAXJOBS" for k
    using that assms(1) by simp
  show "job_at (upd_job i (\<lambda>j. j\<lparr>state := x\<rparr>) s) = (job_at s)(p \<mapsto> (x, cmdline (job s i)))"
    using job_at_upd_slot[OF assms(1) wf i(2)] nth i by simp
qed

fun after_status :: "status \<Rightarrow> job_state \<times> string \<Rightarrow> (job_state \<times> string) option" where
  "after_status (Stopped sg) d = Some (ST, snd d)"
| "after_status _ d = None"

lemma bind_after_status [simp]:
  "Option.bind d (after_status (Signaled n)) = None" "Option.bind d (after_status (Terminated n)) = None"
  by (cases d; simp)+

definition reaped :: "(int \<times> status) list \<Rightarrow> int \<Rightarrow> (job_state \<times> string) option \<Rightarrow> (job_state \<times> string) option" where
  "reaped evs p d = fold (\<lambda>e d. if fst e = p then Option.bind d (after_status (snd e)) else d) evs d"

lemma sigchld_keeps:
  assumes "wf_jobs s"
  shows "wf_jobs (fst (sigchld_handler evs s))
    \<and> (snd (sigchld_handler evs s) = None \<longrightarrow>
         (\<forall>p. job_at (fst (sigchld_handler evs s)) p = reaped evs p (job_at s p)))
    \<and> fg_pids (fst (sigchld_handler evs s)) \<subseteq> fg_pids s"
  using assms
proof (induction evs s rule: sigchld_handler.induct)
  case (1 s)
  then show ?case by (simp add: reaped_def)
next
  case (2 p sg evs s)
  define s1 where "s1 = report_job p ''stopped'' sg s"
  have s1: "jobs s1 = jobs s" "wf_jobs s1" using 2(2) wf_jobs_cong[of s1 s] by (simp_all add: s1_def report_job_def)
  note at1 = job_at_cong[OF s1(1)]
  show ?case
  proof (cases "getjobpid p s1")
    case None
    define s2 where "s2 = put (''pid not exists!'' @ newline) s1"
    have s2: "jobs s2 = jobs s" using s1 by (simp add: s2_def)
    have "sigchld_handler ((p, Stopped sg) # evs) s = (s2, Some 1)"
      using None by (simp add: s1_def[symmetric] s2_def Let_def)
    then show ?thesis
      using 2(2) wf_jobs_cong[OF s2] fg_pids_cong[OF job_at_cong[OF s2]] by simp
  next
    case (Some i)
    note st = set_state[OF s1(2) Some, of ST]
    have IH: "wf_jobs (fst (sigchld_handler evs (upd_job i (\<lambda>j. j\<lparr>state := ST\<rparr>) s1)))
      \<and> (snd (sigchld_handler evs (upd_job i (\<lambda>j. j\<lparr>state := ST\<rparr>) s1)) = None \<longrightarrow>
         (\<forall>q. job_at (fst (sigchld_handler evs (upd_job i (\<lambda>j. j\<lparr>state := ST\<rparr>) s1))) q
            = reaped evs q (job_at (upd_job i (\<lambda>j. j\<lparr>state := ST\<rparr>) s1) q)))
      \<and> fg_pids (fst (sigchld_handler evs (upd_job i (\<lambda>j. j\<lparr>state := ST\<rparr>) s1)))
          \<subseteq> fg_pids (upd_job i (\<lambda>j. j\<lparr>state := ST\<rparr>) s1)"
      using 2(1)[OF s1_def Some st(1)] by blast
    have eq: "sigchld_handler ((p, Stopped sg) # evs) s
        = sigchld_handler evs (upd_job i (\<lambda>j. j\<lparr>state := ST\<rparr>) s1)"
      using Some by (simp add: s1_def[symmetric] Let_def)
    have "job_at s1 p = Some (state (job s1 i), cmdline (job s1 i))"
      using Some by (simp add: job_at_def)
    then have "job_at s p = Some (state (job s1 i), cmdline (job s1 i))" unfolding at1 .
    then have "reaped ((p, Stopped sg) # evs) q (job_at s q)
        = reaped evs q (job_at (upd_job i (\<lambda>j. j\<lparr>state := ST\<rparr>) s1) q)" for q
      unfolding st(2) at1 by (simp add: reaped_def)
    moreover have "fg_pids (upd_job i (\<lambda>j. j\<lparr>state := ST\<rparr>) s1) \<subseteq> fg_pids s"
      unfolding fg_pids_def st(2) at1 by auto
    ultimately show ?thesis using IH unfolding eq by auto
  qed
next
  case (3 p sg evs s)
  define s1 where "s1 = report_job p ''terminated'' sg s"
  have s1: "jobs s1 = jobs s" "wf_jobs s1" using 3(2) wf_jobs_cong[of s1 s] by (simp_all add: s1_def report_job_def)
  note at = deletejob_look[OF s1(2), of p, unfolded job_at_cong[OF s1(1)]]
  have "reaped ((p, Signaled sg) # evs) q (job_at s q)
      = reaped evs q (job_at (snd (deletejob p s1)) q)" for q
    unfolding at by (simp add: reaped_def)
  moreover have "fg_pids (snd (deletejob p s1)) \<subseteq> fg_pids s"
    unfolding fg_pids_def at by auto
  ultimately show ?case using 3(1)[OF s1_def deletejob_wf[OF s1(2)]] s1_def by (auto simp: Let_def)
next
  case (4 p n evs s)
  note at = deletejob_look[OF 4(2), of p]
  have "reaped ((p, Terminated n) # evs) q (job_at s q)
      = reaped evs q (job_at (snd (deletejob p s)) q)" for q
    unfolding at by (simp add: reaped_def)
  moreover have "fg_pids (snd (deletejob p s)) \<subseteq> fg_pids s"
    unfolding fg_pids_def at by auto
  ultimately show ?case using 4(1)[OF deletejob_wf[OF 4(2)]] by auto
qed


lemma prompt_inv: "run_inv (s, Prompt) \<longleftrightarrow> wf_jobs s \<and> fg_pids s = {}"
  by (simp add: run_inv_def gone_def foreground_def)

lemma addjob_fg:
  assumes "wf_jobs s" "fork_ok child s" "fg_pids s = {}"
  shows "wf_jobs (snd (addjob child st line s))"
    and "fg_pids (snd (addjob child st line s)) \<subseteq> (if st = FG then {child} else {})"
proof -
  have ok: "child < 1 \<or> job_at s child = None" using assms(2) by (auto simp: fork_ok_def)
  then show "wf_jobs (snd (addjob child st line s))" using assms(1) by (rule addjob_wf[rotated])
  show "fg_pids (snd (addjob child st line s)) \<subseteq> (if st = FG then {child} else {})"
  proof (cases "0 < child \<and> has_room s")
    case True
    then have at: "job_at (snd (addjob child st line s)) = (job_at s)(child \<mapsto> (st, line))"
      using job_table.look_add[OF assms(1), of child "(st, line)"] ok by (simp add: add_job_def)
    show ?thesis using assms(3) unfolding fg_pids_def at by auto
  next
    case False
    then have "jobs (snd (addjob child st line s)) = jobs s"
      using addjob_full[of child s st line] addjob_bad[of child st line s] by fastforce
    from fg_pids_cong[OF job_at_cong[OF this]] show ?thesis using assms(3) by simp
  qed
qed

lemma bgfg_find_inv:
  assumes "run_inv (s, Prompt)" shows "run_inv (bgfg_find argv s)"
proof -
  have wf: "wf_jobs s" "fg_pids s = {}" using assms by (simp_all add: prompt_inv)
  have msg: "run_inv (put t s, Prompt)" for t by (rule run_inv_jobs[OF assms]) simp
  have hit: "run_inv (s, Resuming cmd i p)" if "getjobpid p s = Some i" for cmd i p
    using wf that by (simp add: run_inv_def gone_def)
  have "getjobpid (pid (job s i)) s = Some i" if "getjobjid n s = Some i" for n i
  proof -
    have i: "i < MAXJOBS" "jid (job s i) = n" "1 \<le> n"
      using that by (auto simp: getjobjid_def scan_Some_iff split: if_splits)
    then have "pid (job s i) \<noteq> 0" "0 \<le> pid (job s i)" using wf_jobsD(1,3)[OF wf(1) i(1)] by auto
    then show ?thesis using i(1) getjobpid_Some_iff[OF wf(1)] by auto
  qed
  then show ?thesis
    using msg hit unfolding bgfg_find_def Let_def by (auto split: option.split)
qed

lemma eval_inv:
  assumes "run_inv (s, Prompt)" "fork_ok child s" "eval line child s = Some x"
  shows "run_inv x"
proof -
  have wf: "wf_jobs s" "fg_pids s = {}" using assms(1) by (simp_all add: prompt_inv)
  obtain argv bg where pl: "parseline line = Some (argv, bg)"
    using assms(3) by (auto simp: eval_def split: Option.bind_splits)
  show ?thesis
  proof (cases "argv = [] \<or> builtin_cmd argv s \<noteq> None")
    case True
    have "run_inv (listjobs s, Prompt)" by (rule run_inv_jobs[OF assms(1)]) (simp add: listjobs_def)
    moreover have "run_inv (s, Exited 0)" by (rule run_inv_exit[OF assms(1)]) simp
    ultimately show ?thesis
      using True assms(1,3) pl bgfg_find_inv[OF assms(1)]
      by (auto simp: eval_def builtin_cmd_def split: if_splits)
  next
    case False
    then have nb: "argv \<noteq> []" "builtin_cmd argv s = None" by blast+
    define s1 where "s1 = snd (addjob child (if bg then BG else FG) line s)"
    have s1: "wf_jobs s1" "fg_pids s1 \<subseteq> (if bg then {} else {child})"
      using addjob_fg[OF wf(1) assms(2) wf(2), of BG line] addjob_fg[OF wf(1) assms(2) wf(2), of FG line]
      by (auto simp: s1_def)
    have "run_inv (s1, Waitfg child)" if "\<not> bg"
      using s1 that by (simp add: run_inv_def gone_def foreground_def)
    moreover have "run_inv (put t s1, Prompt)" if bg for t
    proof -
      have "run_inv (s1, Prompt)" using s1 that by (simp add: prompt_inv)
      then show ?thesis by (rule run_inv_jobs) simp
    qed
    ultimately show ?thesis
      using nb assms(3) pl by (cases bg) (auto simp: eval_def s1_def Let_def)
  qed
qed

lemma resume_inv:
  assumes "run_inv (s, Resuming cmd i p)" shows "run_inv (bgfg_resume cmd i p s)"
proof -
  have wf: "wf_jobs s" "fg_pids s = {}" "getjobpid p s = Some i"
    using assms by (simp_all add: run_inv_def gone_def foreground_def)
  define s1 where "s1 = post_signal (- p) SIGCONT s"
  have js: "jobs s1 = jobs s" by (simp add: s1_def)
  have s1: "wf_jobs s1" "fg_pids s1 = {}" "getjobpid p s1 = Some i"
    using wf wf_jobs_cong[OF js] fg_pids_cong[OF job_at_cong[OF js]] getjobpid_cong[OF js] by simp_all
  note st = set_state[OF s1(1,3)]
  have "fg_pids (upd_job i (\<lambda>j. j\<lparr>state := x\<rparr>) s1) \<subseteq> (if x = FG then {p} else {})" for x
    using s1(2) unfolding fg_pids_def st(2) by auto
  then have "run_inv (upd_job i (\<lambda>j. j\<lparr>state := FG\<rparr>) s1, Waitfg p)"
    "run_inv (upd_job i (\<lambda>j. j\<lparr>state := BG\<rparr>) s1, Prompt)"
    using st(1) by (force simp: run_inv_def gone_def foreground_def prompt_inv)+
  then show ?thesis
    using run_inv_jobs[of "upd_job i (\<lambda>j. j\<lparr>state := BG\<rparr>) s1" Prompt]
    by (simp add: bgfg_resume_def s1_def[symmetric] Let_def)
qed

lemma handled_inv:
  assumes "run_inv (s, c)" "jobs (fst r) = jobs s" shows "run_inv (handled r c)"
proof (cases "snd r")
  case None
  then show ?thesis using run_inv_jobs[OF assms] by (simp add: handled_def)
next
  case (Some n)
  then show ?thesis using run_inv_exit[OF assms] by (simp add: handled_def)
qed

lemma sigchld_inv:
  assumes "run_inv (s, c)" "\<not> gone c" "\<not> resuming c"
  shows "run_inv (handled (sigchld_handler evs s) c)"
proof -
  have s: "wf_jobs s" "fg_pids s \<subseteq> foreground c" using assms(1,2) by (simp_all add: run_inv_def)
  note k = sigchld_keeps[OF s(1), of evs]
  have "\<exists>p. foreground c \<subseteq> {p}" by (auto simp: foreground_def split: control.split)
  then have "run_inv (fst (sigchld_handler evs s), Exited n)" for n
    using k s(2) by (auto simp: run_inv_def gone_def)
  moreover have "run_inv (fst (sigchld_handler evs s), c)"
    using k s(2) assms(2,3) by (auto simp: run_inv_def resuming_def)
  ultimately show ?thesis by (auto simp: handled_def split: option.split)
qed

lemma step_inv: "tsh_step False x y \<Longrightarrow> run_inv x \<Longrightarrow> run_inv y"
proof (induction rule: tsh_step.induct)
  case (Eval line child s x)
  then show ?case using eval_inv by blast
next
  case (Waited s p)
  then have "wf_jobs s" "fg_pids s \<subseteq> {p}" by (simp_all add: run_inv_def gone_def foreground_def)
  then have "fg_pids s = {}" if "p \<noteq> fgpid s" using fgpid_cases[of s p] that by (auto split: if_splits)
  then show ?case using \<open>wf_jobs s\<close> Waited by (cases "p = fgpid s") (simp_all add: prompt_inv waitfg_def)
next
  case (Sigint c s r)
  show ?case by (rule handled_inv[OF Sigint(2)]) (simp add: sigint_handler_def Let_def split: option.split)
next
  case (Sigtstp c s r)
  show ?case by (rule handled_inv[OF Sigtstp(2)]) (simp add: sigtstp_handler_def Let_def split: option.split)
next
  case (Sigquit c s)
  show ?case by (rule handled_inv[OF Sigquit(2)]) (simp add: sigquit_handler_def)
qed (auto intro: resume_inv sigchld_inv)

lemma start_inv: "run_inv (main_start v)"
proof -
  have wf: "wf_jobs (fst (main_start v))"
    by (simp add: wf_jobs_def main_start_def initjobs_def zero_job_def clearjob_def)
  moreover have "fg_pids (fst (main_start v)) = {}"
    using job_at_Some_iff[OF wf] wf_jobsD(2)[OF wf]
    by (auto simp: fg_pids_def main_start_def initjobs_def zero_job_def clearjob_def)
  ultimately show ?thesis
    using prompt_inv by (simp add: main_start_def)
qed

lemma reach_inv: "tsh_reach False v x \<Longrightarrow> run_inv x"
  by (induction rule: tsh_reach.induct) (auto intro: start_inv step_inv)

section \<open>Parsing what was printed\<close>

definition quote_char :: char where "quote_char = CHR 0x27"

definition show_arg :: "string \<Rightarrow> string" where
  "show_arg w = (if w = [] \<or> CHR '' '' \<in> set w then [quote_char] @ w @ [quote_char] else w)"

definition show_line :: "string list \<Rightarrow> string" where
  "show_line ws = concat (map (\<lambda>w. '' '' @ show_arg w) ws) @ newline"

lemma split_at_append: "c \<notin> set w \<Longrightarrow> split_at c (w @ c # r) = Some (w, r)"
proof -
  assume "c \<notin> set w"
  then have "\<forall>x \<in> set w. x \<noteq> c" by auto
  then have "takeWhile (\<lambda>x. x \<noteq> c) (w @ c # r) = w" "dropWhile (\<lambda>x. x \<noteq> c) (w @ c # r) = c # r"
    by (simp_all add: takeWhile_append2 dropWhile_append2)
  then show ?thesis by (simp add: split_at_def)
qed

lemma parse_args_space: "parse_args (CHR '' '' # s) = parse_args s"
  by (subst (1 2) parse_args.simps) simp

lemma next_arg_quoted: "quote_char \<notin> set w \<Longrightarrow>
    next_arg (quote_char # w @ quote_char # r) = Some (w, r)"
  by (simp add: next_arg_def quote_char_def split_at_append)

lemma next_arg_plain: "quote_char \<notin> set w \<Longrightarrow> CHR '' '' \<notin> set w \<Longrightarrow> w \<noteq> [] \<Longrightarrow>
    next_arg (w @ CHR '' '' # r) = Some (w, r)"
  using split_at_append[of "CHR '' ''" w r] by (cases w) (auto simp: next_arg_def quote_char_def)

lemma parse_args_show:
  "\<forall>w \<in> set ws. quote_char \<notin> set w \<Longrightarrow>
     parse_args (concat (map (\<lambda>w. '' '' @ show_arg w) ws) @ '' '') = ws"
proof (induction ws)
  case Nil
  then show ?case by (subst parse_args.simps) (simp add: next_arg_def)
next
  case (Cons w ws)
  define R where "R = concat (map (\<lambda>w. '' '' @ show_arg w) ws) @ '' ''"
  obtain R' where R': "R = CHR '' '' # R'" by (cases ws) (auto simp: R_def)
  have IH: "parse_args R = ws" using Cons by (simp add: R_def)
  have "parse_args (show_arg w @ R) = w # ws"
  proof (cases "w = [] \<or> CHR '' '' \<in> set w")
    case True
    then have "show_arg w @ R = quote_char # w @ quote_char # R" by (simp add: show_arg_def)
    then show ?thesis
      using IH next_arg_quoted[of w R] Cons.prems
      by (subst parse_args.simps) (simp add: quote_char_def)
  next
    case False
    then have "show_arg w @ R = w @ CHR '' '' # R'" by (simp add: show_arg_def R')
    moreover have "dropWhile (\<lambda>c. c = CHR '' '') (w @ CHR '' '' # R') = w @ CHR '' '' # R'"
      using False by (cases w) auto
    ultimately show ?thesis
      using IH next_arg_plain[of w R'] Cons.prems False
      by (subst parse_args.simps) (simp add: R' parse_args_space)
  qed
  then show ?case by (simp add: R_def parse_args_space)
qed

text \<open>
  C25: The parser inverts the printer: a line of arguments, those with blanks and the empty
  one in single quotes, is split into exactly these arguments; a last argument that
  begins with an ampersand is taken off and makes a background job. An array overflows exactly
  for a line of 1024 characters or more and for 128 arguments or more.
\<close>

theorem parseline_roundtrip:
  assumes "\<forall>w \<in> set ws. quote_char \<notin> set w"
  shows "parseline (show_line ws) =
    (if MAXLINE_TSH \<le> length (show_line ws) \<or> MAXARGS \<le> length ws then None
     else if ws = [] then Some ([], True)
     else if take 1 (last ws) = ''&'' then Some (butlast ws, True) else Some (ws, False))"
proof -
  have "butlast (show_line ws) @ '' '' = concat (map (\<lambda>w. '' '' @ show_arg w) ws) @ '' ''"
    "show_line ws \<noteq> []" by (simp_all add: show_line_def newline_def butlast_append)
  then show ?thesis
    unfolding parseline_def by (simp only: parse_args_show[OF assms] Let_def) simp
qed

theorem parseline_roundtrip_witness:
  "parseline (show_line [''ls'', ''my dir'', [], ''&'']) = Some ([''ls'', ''my dir'', []], True)"
  using parseline_roundtrip[of "[''ls'', ''my dir'', [], ''&'']"]
  by (simp add: quote_char_def show_line_def show_arg_def newline_def)

text \<open>
  C24: The job list implements a partial map from pids to jobs: deleting removes exactly one
  pid, adding a new pid binds it whenever a slot is free and otherwise fails without
  touching the list, and after a deletion there is a free slot again.
\<close>

theorem jobs_are_a_map:
  assumes "wf_jobs s" "0 < p" "job_at s p = None" "job_at s q \<noteq> None"
  shows "job_at (snd (deletejob q s)) = (job_at s)(q := None)
    \<and> job_at (snd (addjob p st cmd s)) = (if has_room s then (job_at s)(p \<mapsto> (st, cmd)) else job_at s)
    \<and> fst (addjob p st cmd s) = has_room s
    \<and> job_at (snd (addjob p st cmd (snd (deletejob q s)))) = (job_at s)(q := None, p \<mapsto> (st, cmd))
    \<and> job_at (snd (deletejob p (snd (addjob p st cmd s)))) = job_at s"
proof -
  note defs = add_job_def delete_job_def
  have "fst (addjob p st cmd s) = has_room s"
    using assms(2) by (auto simp: addjob_def has_room_scan Let_def split: option.split)
  then show ?thesis
    using job_table.look_del[OF assms(1), of q] job_table.look_add[OF assms(1-3), of "(st, cmd)"]
      job_table.replace_job[OF assms(1,2,4,3), of "(st, cmd)"]
      job_table.add_then_del[OF assms(1-3), of "(st, cmd)"]
    by (simp add: defs)
qed

text \<open>
  C22: Without a SIGCHLD in the middle of \<open>fg\<close> or \<open>bg\<close>, the shell keeps its job list in order
  in every run: at most one job is in the foreground, none is while the shell is at the
  prompt, the shell waits for the one that is, and no two jobs share a pid.
\<close>

theorem one_foreground:
  assumes "tsh_reach False v (s, c)"
  shows "(\<forall>i < MAXJOBS. state (job s i) = FG \<longrightarrow>
            (\<forall>k < MAXJOBS. state (job s k) = FG \<longrightarrow> i = k) \<and> (\<not> gone c \<longrightarrow> c = Waitfg (pid (job s i))))
    \<and> (\<forall>i < MAXJOBS. \<forall>k < MAXJOBS. i \<noteq> k \<and> pid (job s i) \<noteq> 0 \<longrightarrow> pid (job s i) \<noteq> pid (job s k))"
proof -
  have wf: "wf_jobs s" and fg: "\<exists>p. fg_pids s \<subseteq> {p}" and c: "\<not> gone c \<Longrightarrow> fg_pids s \<subseteq> foreground c"
    using reach_inv[OF assms] by (auto simp: run_inv_def foreground_def split: if_splits control.splits)
  have slot: "pid (job s i) \<in> fg_pids s \<and> pid (job s i) \<noteq> 0" if "i < MAXJOBS" "state (job s i) = FG" for i
    using job_at_slot[OF wf that(1)] wf_jobsD(2)[OF wf that(1)] that(2) by (auto simp: fg_pids_def)
  have "i = k" if "i < MAXJOBS" "state (job s i) = FG" "k < MAXJOBS" "state (job s k) = FG" for i k
    using slot[OF that(1,2)] slot[OF that(3,4)] fg wf_jobsD(4)[OF wf that(1,3)] by auto
  moreover have "c = Waitfg (pid (job s i))" if "i < MAXJOBS" "state (job s i) = FG" "\<not> gone c" for i
    using slot[OF that(1,2)] c[OF that(3)] by (auto simp: foreground_def split: control.splits)
  ultimately show ?thesis using wf_jobsD(4)[OF wf] by blast
qed

section \<open>What a batch of reports does to a job\<close>

lemma reaped_Nil [simp]: "reaped [] p d = d"
  by (simp add: reaped_def)

lemma reaped_Cons [simp]: "reaped (e # es) p d =
    reaped es p (if fst e = p then Option.bind d (after_status (snd e)) else d)"
  by (simp add: reaped_def)

lemma reaped_None [simp]: "reaped es p None = None"
  by (induction es) auto

lemma reaped_ST: "reaped es p (Some (ST, c)) \<in> {None, Some (ST, c)}"
proof (induction es)
  case (Cons e es)
  then show ?case by (cases "snd e") auto
qed simp

lemma reaped_FG: "reaped es p (Some (FG, c)) = Some (FG, x) \<longleftrightarrow> x = c \<and> p \<notin> fst ` set es"
proof (induction es)
  case (Cons e es)
  then show ?case using reaped_ST[of es p c] by (cases "snd e") auto
qed auto

lemma reaped_Terminated: "(p, Terminated n) \<in> set es \<Longrightarrow> reaped es p d = None"
proof (induction es arbitrary: d)
  case (Cons e es)
  then show ?case by (cases "e = (p, Terminated n)") auto
qed simp

inductive_cases tsh_step_WaitfgE: "tsh_step race (s, Waitfg p) x"

lemma waited_iff: "tsh_step race (s, Waitfg p) (s, Prompt) \<longleftrightarrow> p \<noteq> fgpid s"
proof
  assume "tsh_step race (s, Waitfg p) (s, Prompt)"
  then show "p \<noteq> fgpid s"
    by (rule tsh_step_WaitfgE) (auto simp: handled_def waitfg_def split: option.splits if_splits)
next
  assume "p \<noteq> fgpid s"
  then show "tsh_step race (s, Waitfg p) (s, Prompt)"
    using tsh_step.Waited[of race s p] by (simp add: waitfg_def)
qed

text \<open>
  C23: The wait for the foreground job \<open>p\<close> ends with the first batch of reaped children that
  reports \<open>p\<close>, and not before: after a batch the loop of \<open>waitfg\<close> leaves exactly when \<open>p\<close> was
  stopped or terminated, a terminated job is off the list, and the other jobs are as the
  batch says.
\<close>

theorem foreground_ends:
  assumes "tsh_reach False v (s, Waitfg p)" "job_at s p = Some (FG, cmd)"
    and "sigchld_handler evs s = (s', None)"
  shows "tsh_reach False v (s', Waitfg p)
    \<and> (tsh_step False (s', Waitfg p) (s', Prompt) \<longleftrightarrow> p \<in> fst ` set evs)
    \<and> (\<forall>q. job_at s' q = reaped evs q (job_at s q))
    \<and> ((\<exists>n. (p, Terminated n) \<in> set evs) \<longrightarrow> job_at s' p = None)"
proof -
  have inv: "run_inv (s, Waitfg p)" by (rule reach_inv[OF assms(1)])
  then have wf: "wf_jobs s" "fg_pids s \<subseteq> {p}" by (simp_all add: run_inv_def gone_def foreground_def)
  have "tsh_step False (s, Waitfg p) (handled (sigchld_handler evs s) (Waitfg p))"
    by (rule tsh_step.Sigchld) (simp_all add: gone_def resuming_def)
  then have r: "tsh_reach False v (s', Waitfg p)"
    using assms(1,3) by (auto simp: handled_def intro: tsh_reach.Step)
  have k: "wf_jobs s'" "fg_pids s' \<subseteq> {p}" "\<forall>q. job_at s' q = reaped evs q (job_at s q)"
    using sigchld_keeps[OF wf(1), of evs] wf(2) assms(3) by auto
  have p0: "0 < p" using assms(2) by (auto simp: job_at_Some_iff[OF wf(1)])
  have "p \<in> fg_pids s' \<longleftrightarrow> p \<notin> fst ` set evs"
    using k(3) assms(2) by (auto simp: fg_pids_def reaped_FG)
  then have "p = fgpid s' \<longleftrightarrow> p \<notin> fst ` set evs"
    using fgpid_cases[OF k(1,2)] p0 by auto
  then have "tsh_step False (s', Waitfg p) (s', Prompt) \<longleftrightarrow> p \<in> fst ` set evs"
    using waited_iff by simp
  then show ?thesis using r k(3) reaped_Terminated by auto
qed


section \<open>Concrete runs\<close>

text \<open>An executable scheduler of the steps: what is typed, what the system reports.\<close>

datatype action = Type string int | Go | Reports "(int \<times> status) list"

fun act :: "bool \<Rightarrow> action \<Rightarrow> shell \<times> control \<Rightarrow> (shell \<times> control) option" where
  "act race (Type line child) (s, Prompt) =
     (if child = - 1 \<or> (0 < child \<and> Option.is_none (job_at s child)) then eval line child s else None)"
| "act race Go (s, Resuming cmd i p) = Some (bgfg_resume cmd i p s)"
| "act race Go (s, Waitfg p) = Some (s, waitfg p s)"
| "act race (Reports evs) (s, c) = (if gone c \<or> \<not> race \<and> resuming c then None
     else Some (handled (sigchld_handler evs s) c))"
| "act race _ _ = None"

fun acts :: "bool \<Rightarrow> action list \<Rightarrow> shell \<times> control \<Rightarrow> (shell \<times> control) option" where
  "acts race [] x = Some x"
| "acts race (m # ms) x = (case act race m x of None \<Rightarrow> None | Some y \<Rightarrow> acts race ms y)"

lemma act_step: "act race m x = Some y \<Longrightarrow> tsh_step race x y"
  by (induction race m x rule: act.induct)
    (auto simp: fork_ok_def Option.is_none_def split: if_splits intro: tsh_step.intros
      simp del: sigchld_handler.simps)

lemma acts_reach: "tsh_reach race v x \<Longrightarrow> acts race ms x = Some y \<Longrightarrow> tsh_reach race v y"
proof (induction ms arbitrary: x)
  case (Cons m ms)
  then obtain z where "act race m x = Some z" "acts race ms z = Some y"
    by (auto split: option.splits)
  then show ?case using Cons act_step tsh_reach.Step by blast
qed simp

definition typed :: "string \<Rightarrow> string" where "typed t = t @ newline"

lemma run_to:
  "(case acts race ms (main_start False) of None \<Rightarrow> False | Some x \<Rightarrow> P x) \<Longrightarrow>
     \<exists>s c. tsh_reach race False (s, c) \<and> P (s, c)"
  using acts_reach[OF tsh_reach.Start[where race = race and v = False], of ms]
  by (auto split: option.splits)

lemma tsh_reach_wf: "tsh_reach False v (s, c) \<Longrightarrow> wf_jobs s"
  using reach_inv[of v "(s, c)"] by (simp add: run_inv_def)

definition result :: "bool \<Rightarrow> action list \<Rightarrow> shell \<times> control" where
  "result race ms = the (acts race ms (main_start False))"

lemma result_reach:
  "\<not> Option.is_none (acts race ms (main_start False)) \<Longrightarrow>
     tsh_reach race False (fst (result race ms), snd (result race ms))"
  using acts_reach[OF tsh_reach.Start[where race = race and v = False], of ms] by (cases "acts race ms (main_start False)") (auto simp: result_def)

definition waiting_run :: "action list" where
  "waiting_run = [Type (typed ''sleep 9 &'') 6, Type (typed ''cat notes'') 7]"

lemma waiting_run_ok:
  "\<not> Option.is_none (acts False waiting_run (main_start False))"
  "snd (result False waiting_run) = Waitfg 7"
  "job_at (fst (result False waiting_run)) 7 = Some (FG, typed ''cat notes'')"
  "snd (sigchld_handler [(6, Terminated 0), (7, Stopped 20)] (fst (result False waiting_run))) = None"
  by code_simp+

theorem one_foreground_witness:
  "let s = fst (result False waiting_run) in
     state (job s 1) = FG \<and> (\<forall>k < MAXJOBS. state (job s k) = FG \<longrightarrow> 1 = k)"
proof -
  have "state (job (fst (result False waiting_run)) 1) = FG" by code_simp
  then show ?thesis
    using one_foreground[OF result_reach[OF waiting_run_ok(1)]] by (auto simp: Let_def)
qed

theorem foreground_ends_witness:
  "\<exists>s'. tsh_reach False False (s', Waitfg 7) \<and> tsh_step False (s', Waitfg 7) (s', Prompt)
     \<and> job_at s' 6 = None"
proof -
  let ?s = "fst (result False waiting_run)"
  let ?evs = "[(6, Terminated 0), (7, Stopped 20)] :: (int \<times> status) list"
  have r: "tsh_reach False False (?s, Waitfg 7)"
    using result_reach[OF waiting_run_ok(1)] unfolding waiting_run_ok(2) .
  have "sigchld_handler ?evs ?s = (fst (sigchld_handler ?evs ?s), None)"
    using waiting_run_ok(4) by (metis prod.collapse)
  from foreground_ends[OF r waiting_run_ok(3) this] show ?thesis
    by (intro exI[of _ "fst (sigchld_handler ?evs ?s)"]) (auto simp: image_iff)
qed

theorem jobs_are_a_map_witness:
  "let s = fst (result False waiting_run) in
     job_at (snd (addjob 9 BG [] (snd (deletejob 6 s)))) = (job_at s)(6 := None, 9 \<mapsto> (BG, []))"
proof -
  let ?s = "fst (result False waiting_run)"
  have "wf_jobs ?s" by (rule tsh_reach_wf[OF result_reach[OF waiting_run_ok(1)]])
  moreover have "job_at ?s 9 = None" "job_at ?s 6 \<noteq> None" by code_simp+
  ultimately show ?thesis
    using jobs_are_a_map[of ?s 9 6 BG "[]"] by (simp add: Let_def)
qed

text \<open>
  \<open>fg\<close> races with the reaping of children: when the job it is about to resume terminates
  first, \<open>fg\<close> marks the cleared slot as the foreground job. From then on \<open>fgpid\<close> answers 0
  although a job runs in the foreground: the shell does not wait for it, and ctrl-c and
  ctrl-z are thrown away.
\<close>

definition fg_race_run :: "action list" where
  "fg_race_run = [Type (typed ''a &'') 100, Type (typed ''b &'') 101, Type (typed ''fg %1'') (- 1),
     Reports [(100, Terminated 0)], Go, Go, Type (typed ''fg %2'') (- 1), Go, Go]"

lemma fg_race:
  "\<exists>s. tsh_reach True False (s, Prompt) \<and> pid (job s 1) = 101 \<and> state (job s 1) = FG
     \<and> fgpid s = 0 \<and> (\<forall>r. sigint_handler r s = (s, None) \<and> sigtstp_handler r s = (s, None))"
proof -
  have "case acts True fg_race_run (main_start False) of None \<Rightarrow> False
    | Some (s, c) \<Rightarrow> c = Prompt \<and> pid (job s 1) = 101 \<and> state (job s 1) = FG \<and> fgpid s = 0"
    by code_simp
  from run_to[OF this] show ?thesis by (auto simp: sigint_handler_def sigtstp_handler_def)
qed

text \<open>
  Job ids are not unique: \<open>addjob\<close> restarts the numbering at 1 once it passes 16, so two
  live jobs can carry the id 1, and \<open>fg\<close> and \<open>bg\<close> with that id reach the first of them only.
\<close>

definition same_jid_run :: "action list" where
  "same_jid_run = map (\<lambda>i. Type (typed ''a &'') (100 + int i)) [0..<16]
     @ [Reports [(104, Terminated 0), (105, Terminated 0)],
        Type (typed ''b &'') 200, Type (typed ''c &'') 201]"

lemma same_jid:
  "\<exists>s. tsh_reach False False (s, Prompt) \<and> pid (job s 0) = 100 \<and> pid (job s 5) = 201
     \<and> jid (job s 0) = 1 \<and> jid (job s 5) = 1 \<and> getjobjid 1 s = Some 0"
proof -
  have "case acts False same_jid_run (main_start False) of None \<Rightarrow> False
    | Some (s, c) \<Rightarrow> c = Prompt \<and> pid (job s 0) = 100 \<and> pid (job s 5) = 201
        \<and> jid (job s 0) = 1 \<and> jid (job s 5) = 1 \<and> getjobjid 1 s = Some 0"
    by code_simp
  from run_to[OF this] show ?thesis by auto
qed

end
