(* ===== verification/Csim.thy ===== *)
theory Csim
  imports C_Strings "HOL-Library.Monad_Syntax"
begin

text \<open>
  The cache simulator (\<^verbatim>\<open>C/CSAPPLab/cache/csim.c\<close>). Cache lines are heap cells, linked in
  two doubly linked lists per set with a head and a tail sentinel each: the lines in use,
  most recently used first, and the free lines. A pointer is an address or \<^const>\<open>None\<close> for
  NULL; the heap is a finite map, an access through NULL or to a freed cell makes an
  operation return \<^const>\<open>None\<close>. \<open>junk\<close> is what a cell holds after \<^verbatim>\<open>malloc\<close>.
  \<^verbatim>\<open>malloc\<close> is taken to succeed, which the code relies on, and the trace to be parsed: one record
  per line with the three fields of \<^verbatim>\<open>sscanf\<close>. The counters are \<^verbatim>\<open>int\<close>s and wrap; the options are
  the integers \<^verbatim>\<open>atoi\<close> reads.
\<close>

section \<open>The heap of cache lines\<close>

type_synonym ptr = "nat option"

record cache_line_t =
  tag :: u64
  prev :: ptr
  next_line :: ptr

record heap =
  cells :: "nat \<rightharpoonup> cache_line_t"
  brk :: nat
  junk :: "nat \<Rightarrow> cache_line_t"

definition malloc_line :: "heap \<Rightarrow> nat \<times> heap" where
  "malloc_line h = (brk h, h\<lparr>cells := (cells h)(brk h \<mapsto> junk h (brk h)), brk := brk h + 1\<rparr>)"

definition deref :: "heap \<Rightarrow> ptr \<Rightarrow> cache_line_t option" where
  "deref h p = (case p of None \<Rightarrow> None | Some a \<Rightarrow> cells h a)"

definition write_line :: "ptr \<Rightarrow> (cache_line_t \<Rightarrow> cache_line_t) \<Rightarrow> heap \<Rightarrow> heap option" where
  "write_line p f h = do { a \<leftarrow> p; l \<leftarrow> cells h a; Some (h\<lparr>cells := (cells h)(a \<mapsto> f l)\<rparr>) }"

definition set_next :: "ptr \<Rightarrow> ptr \<Rightarrow> heap \<Rightarrow> heap option" where
  "set_next p q = write_line p (\<lambda>l. l\<lparr>next_line := q\<rparr>)"

definition set_prev :: "ptr \<Rightarrow> ptr \<Rightarrow> heap \<Rightarrow> heap option" where
  "set_prev p q = write_line p (\<lambda>l. l\<lparr>prev := q\<rparr>)"

definition set_tag :: "ptr \<Rightarrow> u64 \<Rightarrow> heap \<Rightarrow> heap option" where
  "set_tag p t = write_line p (\<lambda>l. l\<lparr>tag := t\<rparr>)"

section \<open>List operations\<close>

definition insert_cache_line_after :: "ptr \<Rightarrow> ptr \<Rightarrow> heap \<Rightarrow> heap option" where
  "insert_cache_line_after new_line line h = do {
     l \<leftarrow> deref h line;
     h1 \<leftarrow> set_next new_line (next_line l) h;
     h2 \<leftarrow> set_prev new_line line h1;
     h3 \<leftarrow> set_next line new_line h2;
     n \<leftarrow> deref h3 new_line;
     set_prev (next_line n) new_line h3 }"

definition delete_cache_line :: "ptr \<Rightarrow> heap \<Rightarrow> heap option" where
  "delete_cache_line del_line h = do {
     l \<leftarrow> deref h del_line;
     h1 \<leftarrow> set_next (prev l) (next_line l) h;
     l1 \<leftarrow> deref h1 del_line;
     h2 \<leftarrow> set_prev (next_line l1) (prev l1) h1;
     h3 \<leftarrow> set_prev del_line None h2;
     set_next del_line None h3 }"

partial_function (option) search_loop :: "heap \<Rightarrow> u64 \<Rightarrow> ptr \<Rightarrow> ptr \<Rightarrow> ptr option" where
  "search_loop h t cur lines_tail =
     (if cur = lines_tail then Some None
      else do {
        l \<leftarrow> deref h cur;
        if tag l = t then Some cur else search_loop h t (next_line l) lines_tail })"

definition search_cache_line_by_tag :: "heap \<Rightarrow> u64 \<Rightarrow> ptr \<Rightarrow> ptr \<Rightarrow> ptr option" where
  "search_cache_line_by_tag h t lines_head lines_tail = do {
     l \<leftarrow> deref h lines_head;
     search_loop h t (next_line l) lines_tail }"

definition is_cache_lines_empty :: "heap \<Rightarrow> ptr \<Rightarrow> bool option" where
  "is_cache_lines_empty h lines_head = do {
     l \<leftarrow> deref h lines_head;
     l' \<leftarrow> deref h (next_line l);
     Some (next_line l' = None) }"

section \<open>Cache sets\<close>

record cache_set_t =
  lines_head_in_use :: nat
  lines_tail_in_use :: nat
  lines_head_free :: nat
  lines_tail_free :: nat

text \<open>The macro \<^verbatim>\<open>Init_Lines_Head_Tail\<close>.\<close>

definition Init_Lines_Head_Tail :: "heap \<Rightarrow> (nat \<times> nat \<times> heap) option" where
  "Init_Lines_Head_Tail h =
     (let (hp, h1) = malloc_line h; (tp, h2) = malloc_line h1 in do {
        h3 \<leftarrow> set_prev (Some hp) None h2;
        h4 \<leftarrow> set_next (Some hp) (Some tp) h3;
        h5 \<leftarrow> set_prev (Some tp) (Some hp) h4;
        h6 \<leftarrow> set_next (Some tp) None h5;
        Some (hp, tp, h6) })"

fun add_free_lines :: "nat \<Rightarrow> nat \<Rightarrow> heap \<Rightarrow> heap option" where
  "add_free_lines 0 head h = Some h"
| "add_free_lines (Suc k) head h =
     (let (a, h1) = malloc_line h in do {
        h2 \<leftarrow> insert_cache_line_after (Some a) (Some head) h1;
        add_free_lines k head h2 })"

fun init_cache_set :: "nat \<Rightarrow> nat \<Rightarrow> heap \<Rightarrow> (cache_set_t list \<times> heap) option" where
  "init_cache_set 0 total_lines_per_set h = Some ([], h)"
| "init_cache_set (Suc i) total_lines_per_set h = do {
     (hf, tf, h1) \<leftarrow> Init_Lines_Head_Tail h;
     (hu, tu, h2) \<leftarrow> Init_Lines_Head_Tail h1;
     h3 \<leftarrow> add_free_lines total_lines_per_set hf h2;
     (rest, h4) \<leftarrow> init_cache_set i total_lines_per_set h3;
     Some (\<lparr>lines_head_in_use = hu, lines_tail_in_use = tu,
            lines_head_free = hf, lines_tail_free = tf\<rparr> # rest, h4) }"

definition free_line :: "nat \<Rightarrow> heap \<Rightarrow> heap option" where
  "free_line a h = (if cells h a = None then None else Some (h\<lparr>cells := (cells h)(a := None)\<rparr>))"

partial_function (option) free_cache_lines :: "ptr \<Rightarrow> heap \<Rightarrow> heap option" where
  "free_cache_lines cur h =
     (case cur of None \<Rightarrow> Some h
      | Some a \<Rightarrow> do {
          l \<leftarrow> deref h cur;
          h1 \<leftarrow> free_line a h;
          free_cache_lines (next_line l) h1 })"

fun free_cache_set :: "cache_set_t list \<Rightarrow> heap \<Rightarrow> heap option" where
  "free_cache_set [] h = Some h"
| "free_cache_set (c # cs) h = do {
     h1 \<leftarrow> free_cache_lines (Some (lines_head_free c)) h;
     h2 \<leftarrow> free_cache_lines (Some (lines_head_in_use c)) h1;
     free_cache_set cs h2 }"

section \<open>The simulation\<close>

record cache_args_t =
  bits_sets :: int
  total_lines_per_set :: int
  bits_blocks_per_line :: int
  verbose_flag :: bool
  trace_file :: "string option"

record trace_line =
  op :: char
  addr :: u64
  op_size :: u64

record cache_trace_result_t =
  hit :: i32
  miss :: i32
  eviction :: i32

definition bits_tag_each_line :: "cache_args_t \<Rightarrow> nat" where
  "bits_tag_each_line a = nat (64 - bits_sets a - bits_blocks_per_line a)"

definition extract_set_bits :: "cache_args_t \<Rightarrow> u64 \<Rightarrow> u64" where
  "extract_set_bits a x =
     drop_bit (nat (bits_blocks_per_line a))
       (x AND NOT (signed_drop_bit (bits_tag_each_line a - 1) (push_bit 63 1)))"

definition extract_tag_bits :: "cache_args_t \<Rightarrow> u64 \<Rightarrow> u64" where
  "extract_tag_bits a x = drop_bit (64 - bits_tag_each_line a) x"

text \<open>One line moved to the front of the list in use: the common end of the three cases.\<close>

definition reuse_line :: "ptr \<Rightarrow> u64 \<Rightarrow> ptr \<Rightarrow> heap \<Rightarrow> heap option" where
  "reuse_line line t head h = do {
     h1 \<leftarrow> delete_cache_line line h;
     h2 \<leftarrow> set_tag line t h1;
     insert_cache_line_after line head h2 }"

definition hex_digit :: "nat \<Rightarrow> char" where
  "hex_digit n = (if n < 10 then char_of (48 + n) else char_of (87 + n))"

fun hex_nat :: "nat \<Rightarrow> string" where
  "hex_nat n = (if n < 16 then [hex_digit n] else hex_nat (n div 16) @ [hex_digit (n mod 16)])"

declare hex_nat.simps [simp del]

definition print_verbose :: "cache_args_t \<Rightarrow> string \<Rightarrow> string \<Rightarrow> string" where
  "print_verbose a t out = (if verbose_flag a then out @ t else out)"

text \<open>One turn of the loop for a line that is not an instruction fetch.\<close>

definition cache_access ::
  "cache_args_t \<Rightarrow> cache_set_t \<Rightarrow> u64 \<Rightarrow> cache_trace_result_t \<Rightarrow> string \<Rightarrow> heap
     \<Rightarrow> (cache_trace_result_t \<times> string \<times> heap) option" where
  "cache_access a s t r out h = do {
     line_found \<leftarrow> search_cache_line_by_tag h t (Some (lines_head_in_use s)) (Some (lines_tail_in_use s));
     if line_found \<noteq> None then do {
       h1 \<leftarrow> delete_cache_line line_found h;
       h2 \<leftarrow> insert_cache_line_after line_found (Some (lines_head_in_use s)) h1;
       Some (r\<lparr>hit := hit r + 1\<rparr>, print_verbose a ''hit'' out, h2) }
     else do {
       let r1 = r\<lparr>miss := miss r + 1\<rparr>;
       let out1 = print_verbose a ''miss '' out;
       empty \<leftarrow> is_cache_lines_empty h (Some (lines_head_free s));
       if \<not> empty then do {
         l \<leftarrow> deref h (Some (lines_head_free s));
         h1 \<leftarrow> reuse_line (next_line l) t (Some (lines_head_in_use s)) h;
         Some (r1, out1, h1) }
       else do {
         l \<leftarrow> deref h (Some (lines_tail_in_use s));
         h1 \<leftarrow> reuse_line (prev l) t (Some (lines_head_in_use s)) h;
         Some (r1\<lparr>eviction := eviction r1 + 1\<rparr>, print_verbose a ''eviction '' out1, h1) } } }"

definition trace_step ::
  "cache_args_t \<Rightarrow> cache_set_t list \<Rightarrow> trace_line \<Rightarrow> cache_trace_result_t \<times> string \<times> heap
     \<Rightarrow> (cache_trace_result_t \<times> string \<times> heap) option" where
  "trace_step a sets t x = (case x of (r, out, h) \<Rightarrow>
     if op t = CHR ''I'' then Some (r, out, h)
     else do {
       let i = unat (extract_set_bits a (addr t));
       if length sets \<le> i then None else do {
         let out0 = print_verbose a ([op t] @ '' '' @ hex_nat (unat (addr t)) @ '',''
                      @ hex_nat (unat (op_size t)) @ '' '') out;
         (r1, out1, h1) \<leftarrow> cache_access a (sets ! i) (extract_tag_bits a (addr t)) r out0 h;
         let (r2, out2) = (if op t = CHR ''M''
           then (r1\<lparr>hit := hit r1 + 1\<rparr>, print_verbose a ''hit'' out1) else (r1, out1));
         Some (r2, print_verbose a [char_of (10 :: nat)] out2, h1) } })"

fun trace_loop ::
  "cache_args_t \<Rightarrow> cache_set_t list \<Rightarrow> trace_line list \<Rightarrow> cache_trace_result_t \<times> string \<times> heap
     \<Rightarrow> (cache_trace_result_t \<times> string \<times> heap) option" where
  "trace_loop a sets [] x = Some x"
| "trace_loop a sets (t # ts) x = do { y \<leftarrow> trace_step a sets t x; trace_loop a sets ts y }"

definition cache_trace ::
  "cache_set_t list \<Rightarrow> cache_args_t \<Rightarrow> trace_line list \<Rightarrow> heap
     \<Rightarrow> (cache_trace_result_t \<times> string \<times> heap) option" where
  "cache_trace sets a ts h = trace_loop a sets ts (\<lparr>hit = 0, miss = 0, eviction = 0\<rparr>, [], h)"

section \<open>Command line and main\<close>

text \<open>
  The options as \<^verbatim>\<open>getopt\<close> delivers them; \<open>opens\<close> says which files can be opened. The
  result is the arguments and the text printed, or the text printed before \<^verbatim>\<open>exit(1)\<close>.
\<close>

definition usage_text :: string where
  "usage_text = concat (map (\<lambda>l. l @ [char_of (10 :: nat)])
     [''Usage: ./csim-ref [-hv] -s <num> -E <num> -b <num> -t <file>'', ''Options:'',
      char_of (9 :: nat) # ''-h'' @ char_of (9 :: nat) # ''Print this help message.'',
      char_of (9 :: nat) # ''-v'' @ char_of (9 :: nat) # ''Optional verbose flag.'',
      char_of (9 :: nat) # ''-s <num>'' @ char_of (9 :: nat) # ''Number of set index bits.'',
      char_of (9 :: nat) # ''-E <num>'' @ char_of (9 :: nat) # ''Number of lines per set.'',
      char_of (9 :: nat) # ''-b <num>'' @ char_of (9 :: nat) # ''Number of block offset bits.'',
      char_of (9 :: nat) # ''-t <file>'' @ char_of (9 :: nat) # ''Trace file.'',
      '''', ''Examples:'',
      char_of (9 :: nat) # ''linux>  ./csim-ref -s 4 -E 1 -b 4 -t traces/yi.trace'',
      char_of (9 :: nat) # ''linux>  ./csim-ref -v -s 8 -E 2 -b 4 -t traces/yi.trace'', ''''])"

fun option_error :: "nat \<Rightarrow> string" where
  "option_error opterr =
     (if opterr = 1 then ''bits of cache set is not correct.''
      else if opterr = 2 then ''bits of cache line is not correct.''
      else if opterr = 3 then ''bits of block size is not correct.''
      else ''the trace file does not exist.'') @ [char_of (10 :: nat)]"

fun cmd_parser :: "(string \<Rightarrow> bool) \<Rightarrow> (char \<times> string) list \<Rightarrow> cache_args_t \<Rightarrow> string
    \<Rightarrow> string + cache_args_t \<times> string" where
  "cmd_parser opens [] a out = Inr (a, out)"
| "cmd_parser opens ((c, optarg) # opts) a out =
     (let (a1, out1, opterr) =
        (if c = CHR ''s'' then (a\<lparr>bits_sets := atoi optarg\<rparr>, out, if atoi optarg \<noteq> 0 then 0 else 1)
         else if c = CHR ''E'' then
           (a\<lparr>total_lines_per_set := atoi optarg\<rparr>, out, if atoi optarg \<noteq> 0 then 0 else 2)
         else if c = CHR ''b'' then
           (a\<lparr>bits_blocks_per_line := atoi optarg\<rparr>, out, if atoi optarg \<noteq> 0 then 0 else 3)
         else if c = CHR ''t'' then
           (if opens optarg then (a\<lparr>trace_file := Some optarg\<rparr>, out, 0)
            else (a\<lparr>trace_file := None\<rparr>, out, 4))
         else if c = CHR ''v'' then (a\<lparr>verbose_flag := True\<rparr>, out, 0)
         else (a, out @ usage_text, 0 :: nat))
      in if opterr \<noteq> 0 then Inl (out1 @ option_error opterr) else cmd_parser opens opts a1 out1)"

definition default_args :: cache_args_t where
  "default_args = \<lparr>bits_sets = 0, total_lines_per_set = 0, bits_blocks_per_line = 0,
     verbose_flag = False, trace_file = None\<rparr>"

text \<open>What goes to the standard output and what to \<^verbatim>\<open>.csim_results\<close>.\<close>

definition printSummary :: "i32 \<Rightarrow> i32 \<Rightarrow> i32 \<Rightarrow> string \<times> string" where
  "printSummary hits misses evictions =
     (''hits:'' @ dec (sint hits) @ '' misses:'' @ dec (sint misses) @ '' evictions:'' @ dec (sint evictions)
        @ [char_of (10 :: nat)],
      dec (sint hits) @ '' '' @ dec (sint misses) @ '' '' @ dec (sint evictions) @ [char_of (10 :: nat)])"

text \<open>
  What the process holds besides the cache lines: the other blocks of \<^verbatim>\<open>malloc\<close> that are not yet
  freed, by their addresses, how many trace files are open, and the content of \<^verbatim>\<open>.csim_results\<close>.
\<close>

datatype block = Args_block | Sets_block | Result_block

record csim_process =
  line_heap :: heap
  blocks :: "nat \<rightharpoonup> block"
  next_block :: nat
  open_files :: nat
  results_file :: "string option"

definition malloc_block :: "block \<Rightarrow> csim_process \<Rightarrow> nat \<times> csim_process" where
  "malloc_block b s = (next_block s,
     s\<lparr>blocks := (blocks s)(next_block s \<mapsto> b), next_block := next_block s + 1\<rparr>)"

definition free_block :: "nat \<Rightarrow> csim_process \<Rightarrow> csim_process option" where
  "free_block p s = (if blocks s p = None then None else Some (s\<lparr>blocks := (blocks s)(p := None)\<rparr>))"

definition free_cache_args :: "cache_args_t \<Rightarrow> nat \<Rightarrow> csim_process \<Rightarrow> csim_process option" where
  "free_cache_args a args s =
     (if trace_file a = None then None else free_block args (s\<lparr>open_files := open_files s - 1\<rparr>))"

text \<open>Every \<^verbatim>\<open>-t\<close> with a file that exists opens it.\<close>

definition files_opened :: "(string \<Rightarrow> bool) \<Rightarrow> (char \<times> string) list \<Rightarrow> nat" where
  "files_opened opens opts = length (filter (\<lambda>(c, optarg). c = CHR ''t'' \<and> opens optarg) opts)"

text \<open>
  \<open>main\<close>: the exit status, the text printed, and the state of the process at the end. Reading from a
  file that was never opened fails, and so does the assertion of \<^verbatim>\<open>printSummary\<close> when \<^verbatim>\<open>.csim_results\<close>
  cannot be written (\<open>writable\<close>).
\<close>

definition csim_main :: "(string \<Rightarrow> bool) \<Rightarrow> bool \<Rightarrow> (char \<times> string) list \<Rightarrow> trace_line list \<Rightarrow> csim_process
    \<Rightarrow> (int \<times> string \<times> csim_process) option" where
  "csim_main opens writable opts ts s0 =
     (let (args, s1) = malloc_block Args_block s0 in
      case cmd_parser opens opts default_args [] of
        Inl out \<Rightarrow> Some (1, out, s1)
      | Inr (a, out0) \<Rightarrow>
         let s2 = s1\<lparr>open_files := open_files s1 + files_opened opens opts\<rparr>;
             (cache_sets, s3) = malloc_block Sets_block s2 in do {
           (sets, h1) \<leftarrow> init_cache_set (2 ^ nat (bits_sets a)) (nat (total_lines_per_set a)) (line_heap s3);
           let (cache_trace_result, s4) = malloc_block Result_block s3;
           _ \<leftarrow> trace_file a;
           (r, out, h2) \<leftarrow> cache_trace sets a ts h1;
           let (summary, results) = printSummary (hit r) (miss r) (eviction r);
           if \<not> writable then None else do {
             s5 \<leftarrow> free_block cache_trace_result (s4\<lparr>line_heap := h2, results_file := Some results\<rparr>);
             h3 \<leftarrow> free_cache_set sets (line_heap s5);
             s6 \<leftarrow> free_block cache_sets (s5\<lparr>line_heap := h3\<rparr>);
             s7 \<leftarrow> free_cache_args a args s6;
             Some (0, out0 @ out @ summary, s7) } })"

end
