(* ===== verification/Csim_Lists.thy ===== *)
theory Csim_Lists
  imports Csim
begin

text \<open>
  The doubly linked lists of the cache simulator: which sequence of cells lies between
  two sentinels, and what insertion, deletion, search and release do to the sequence and
  to the rest of the heap.
\<close>

section \<open>Links\<close>

definition nx :: "heap \<Rightarrow> nat \<Rightarrow> ptr" where "nx h a = Option.bind (cells h a) next_line"
definition pv :: "heap \<Rightarrow> nat \<Rightarrow> ptr" where "pv h a = Option.bind (cells h a) prev"
definition tg :: "heap \<Rightarrow> nat \<Rightarrow> u64" where "tg h a = tag (the (cells h a))"

fun linked :: "heap \<Rightarrow> nat list \<Rightarrow> bool" where
  "linked h (a # b # xs) \<longleftrightarrow> nx h a = Some b \<and> pv h b = Some a \<and> linked h (b # xs)"
| "linked h _ \<longleftrightarrow> True"

definition frame :: "nat set \<Rightarrow> heap \<Rightarrow> heap \<Rightarrow> bool" where
  "frame A h h' \<longleftrightarrow> (\<forall>x. x \<notin> A \<longrightarrow> cells h' x = cells h x) \<and> dom (cells h') = dom (cells h)
     \<and> brk h' = brk h \<and> junk h' = junk h"

lemma frame_trans: "frame A h h1 \<Longrightarrow> frame A h1 h2 \<Longrightarrow> frame A h h2"
  unfolding frame_def by simp

lemma frame_mono: "frame A h h' \<Longrightarrow> A \<subseteq> B \<Longrightarrow> frame B h h'"
  unfolding frame_def by blast

lemma frame_links: "frame A h h' \<Longrightarrow> x \<notin> A \<Longrightarrow> nx h' x = nx h x \<and> pv h' x = pv h x \<and> tg h' x = tg h x"
  by (simp add: frame_def nx_def pv_def tg_def)

lemma linked_append: "linked h (xs @ a # ys) \<longleftrightarrow> linked h (xs @ [a]) \<and> linked h (a # ys)"
proof (induction xs)
  case (Cons x xs)
  then show ?case by (cases xs) auto
qed simp

lemma linked_cong:
  assumes "\<And>x. x \<in> set (butlast xs) \<Longrightarrow> nx h' x = nx h x" "\<And>x. x \<in> set (tl xs) \<Longrightarrow> pv h' x = pv h x"
  shows "linked h' xs = linked h xs"
  using assms
proof (induction xs rule: induct_list012)
  case (3 a b xs)
  have "linked h' (b # xs) = linked h (b # xs)"
    by (rule 3(2)) (use 3(3,4) in \<open>auto split: if_splits\<close>)
  then show ?case using 3(3)[of a] 3(4)[of b] by simp
qed simp_all

section \<open>Single writes\<close>

lemma deref_Some [simp]: "deref h (Some a) = cells h a" "deref h None = None"
  by (simp_all add: deref_def)

lemma write_line_ok:
  assumes "cells h a = Some l"
  shows "write_line (Some a) f h = Some (h\<lparr>cells := (cells h)(a \<mapsto> f l)\<rparr>)"
  using assms by (simp add: write_line_def)

text \<open>The three fields are independent; a write is visible in its field and nowhere else.\<close>

lemma set_next_ok:
  assumes "a \<in> dom (cells h)"
  obtains h' where "set_next (Some a) q h = Some h'" "nx h' = (nx h)(a := q)" "pv h' = pv h"
    "tg h' = tg h" "frame {a} h h'"
proof -
  obtain l where l: "cells h a = Some l" using assms by blast
  show thesis
    by (rule that[OF _ _ _ _ _, of "h\<lparr>cells := (cells h)(a \<mapsto> l\<lparr>next_line := q\<rparr>)\<rparr>"])
      (use l in \<open>auto simp: set_next_def write_line_ok nx_def pv_def tg_def frame_def fun_eq_iff\<close>)
qed

lemma set_prev_ok:
  assumes "a \<in> dom (cells h)"
  obtains h' where "set_prev (Some a) q h = Some h'" "nx h' = nx h" "pv h' = (pv h)(a := q)"
    "tg h' = tg h" "frame {a} h h'"
proof -
  obtain l where l: "cells h a = Some l" using assms by blast
  show thesis
    by (rule that[OF _ _ _ _ _, of "h\<lparr>cells := (cells h)(a \<mapsto> l\<lparr>prev := q\<rparr>)\<rparr>"])
      (use l in \<open>auto simp: set_prev_def write_line_ok nx_def pv_def tg_def frame_def fun_eq_iff\<close>)
qed

lemma set_tag_ok:
  assumes "a \<in> dom (cells h)"
  obtains h' where "set_tag (Some a) t h = Some h'" "nx h' = nx h" "pv h' = pv h"
    "tg h' = (tg h)(a := t)" "frame {a} h h'"
proof -
  obtain l where l: "cells h a = Some l" using assms by blast
  show thesis
    by (rule that[OF _ _ _ _ _, of "h\<lparr>cells := (cells h)(a \<mapsto> l\<lparr>tag := t\<rparr>)\<rparr>"])
      (use l in \<open>auto simp: set_tag_def write_line_ok nx_def pv_def tg_def frame_def fun_eq_iff\<close>)
qed

lemma cells_links: "cells h a = Some l \<Longrightarrow> next_line l = nx h a \<and> prev l = pv h a \<and> tag l = tg h a"
  by (simp add: nx_def pv_def tg_def)

lemma frame_dom: "frame A h h' \<Longrightarrow> dom (cells h') = dom (cells h)"
  by (simp add: frame_def)

section \<open>Insertion and deletion\<close>

lemma insert_ok:
  assumes "nx h l = Some b" "{l, b, n} \<subseteq> dom (cells h)" "n \<noteq> l" "n \<noteq> b"
  obtains h' where "insert_cache_line_after (Some n) (Some l) h = Some h'"
    "nx h' = (nx h)(n := Some b, l := Some n)" "pv h' = (pv h)(n := Some l, b := Some n)"
    "tg h' = tg h" "frame {l, b, n} h h'"
proof -
  obtain c where c: "cells h l = Some c" "next_line c = Some b"
    using assms(1,2) by (auto simp: nx_def)
  obtain h1 where h1: "set_next (Some n) (Some b) h = Some h1" "nx h1 = (nx h)(n := Some b)"
    "pv h1 = pv h" "tg h1 = tg h" "frame {n} h h1"
    using set_next_ok[of n h "Some b"] assms(2) by blast
  obtain h2 where h2: "set_prev (Some n) (Some l) h1 = Some h2" "nx h2 = nx h1"
    "pv h2 = (pv h1)(n := Some l)" "tg h2 = tg h1" "frame {n} h1 h2"
    using set_prev_ok[of n h1 "Some l"] assms(2) frame_dom[OF h1(5)] by blast
  obtain h3 where h3: "set_next (Some l) (Some n) h2 = Some h3" "nx h3 = (nx h2)(l := Some n)"
    "pv h3 = pv h2" "tg h3 = tg h2" "frame {l} h2 h3"
    using set_next_ok[of l h2 "Some n"] assms(2) frame_dom[OF h1(5)] frame_dom[OF h2(5)] by blast
  have dom3: "dom (cells h3) = dom (cells h)"
    using frame_dom[OF h1(5)] frame_dom[OF h2(5)] frame_dom[OF h3(5)] by simp
  have "n \<in> dom (cells h3)" using assms(2) dom3 by simp
  then obtain d where d: "cells h3 n = Some d" by (meson domD)
  have nd: "next_line d = Some b" using cells_links[OF d] h3(2) h2(2) h1(2) assms(3) by simp
  obtain h4 where h4: "set_prev (Some b) (Some n) h3 = Some h4" "nx h4 = nx h3"
    "pv h4 = (pv h3)(b := Some n)" "tg h4 = tg h3" "frame {b} h3 h4"
    using set_prev_ok[of b h3 "Some n"] assms(2) dom3 by blast
  have "insert_cache_line_after (Some n) (Some l) h = Some h4"
    using c h1(1) h2(1) h3(1) d nd h4(1) by (simp add: insert_cache_line_after_def)
  moreover have "frame {l, b, n} h h4"
    by (rule frame_trans[OF frame_trans[OF frame_trans[OF frame_mono[OF h1(5)] frame_mono[OF h2(5)]]
      frame_mono[OF h3(5)]] frame_mono[OF h4(5)]]) simp_all
  ultimately show thesis using that h1 h2 h3 h4 by simp
qed

lemma delete_ok:
  assumes "pv h p = Some a" "nx h p = Some b" "{a, p, b} \<subseteq> dom (cells h)" "a \<noteq> p" "b \<noteq> p"
  obtains h' where "delete_cache_line (Some p) h = Some h'"
    "nx h' = (nx h)(a := Some b, p := None)" "pv h' = (pv h)(b := Some a, p := None)"
    "tg h' = tg h" "frame {a, p, b} h h'"
proof -
  obtain l where l: "cells h p = Some l" "prev l = Some a" "next_line l = Some b"
    using assms(1-3) by (auto simp: nx_def pv_def)
  obtain h1 where h1: "set_next (Some a) (Some b) h = Some h1" "nx h1 = (nx h)(a := Some b)"
    "pv h1 = pv h" "tg h1 = tg h" "frame {a} h h1"
    using set_next_ok[of a h "Some b"] assms(3) by blast
  have "cells h1 p = Some l" using h1(5) l(1) assms(4) by (simp add: frame_def)
  note l1 = this
  obtain h2 where h2: "set_prev (Some b) (Some a) h1 = Some h2" "nx h2 = nx h1"
    "pv h2 = (pv h1)(b := Some a)" "tg h2 = tg h1" "frame {b} h1 h2"
    using set_prev_ok[of b h1 "Some a"] assms(3) frame_dom[OF h1(5)] by blast
  have p2: "p \<in> dom (cells h2)"
    using assms(3) frame_dom[OF h1(5)] frame_dom[OF h2(5)] by simp
  obtain h3 where h3: "set_prev (Some p) None h2 = Some h3" "nx h3 = nx h2"
    "pv h3 = (pv h2)(p := None)" "tg h3 = tg h2" "frame {p} h2 h3"
    using set_prev_ok[OF p2, of None] by blast
  have p3: "p \<in> dom (cells h3)" using p2 frame_dom[OF h3(5)] by simp
  obtain h4 where h4: "set_next (Some p) None h3 = Some h4" "nx h4 = (nx h3)(p := None)"
    "pv h4 = pv h3" "tg h4 = tg h3" "frame {p} h3 h4"
    using set_next_ok[OF p3, of None] by blast
  have "delete_cache_line (Some p) h = Some h4"
    using l l1 h1(1) h2(1) h3(1) h4(1) by (simp add: delete_cache_line_def)
  moreover have "frame {a, p, b} h h4"
    by (rule frame_trans[OF frame_trans[OF frame_trans[OF frame_mono[OF h1(5)] frame_mono[OF h2(5)]]
      frame_mono[OF h3(5)]] frame_mono[OF h4(5)]]) simp_all
  ultimately show thesis using that h1 h2 h3 h4 by simp
qed


section \<open>Lists between sentinels\<close>

definition dlist :: "heap \<Rightarrow> nat \<Rightarrow> nat \<Rightarrow> nat list \<Rightarrow> bool" where
  "dlist h hp tp ps \<longleftrightarrow> linked h (hp # ps @ [tp]) \<and> distinct (hp # ps @ [tp])
     \<and> set (hp # ps @ [tp]) \<subseteq> dom (cells h) \<and> nx h tp = None \<and> pv h hp = None"

lemma dlist_same:
  assumes "dlist h hp tp ps" "\<And>x. x \<in> set (hp # ps @ [tp]) \<Longrightarrow> cells h' x = cells h x"
  shows "dlist h' hp tp ps"
proof -
  have same: "nx h' x = nx h x \<and> pv h' x = pv h x" if "x \<in> set (hp # ps @ [tp])" for x
    using assms(2)[OF that] by (simp add: nx_def pv_def)
  have "linked h' (hp # ps @ [tp]) = linked h (hp # ps @ [tp])"
    by (rule linked_cong) (use same in \<open>auto simp: butlast_append split: if_splits\<close>)
  moreover have "set (hp # ps @ [tp]) \<subseteq> dom (cells h')"
    using assms by (auto simp: dlist_def dom_def)
  ultimately show ?thesis using assms(1) same by (simp add: dlist_def)
qed

lemma dlist_frame:
  "dlist h hp tp ps \<Longrightarrow> frame A h h' \<Longrightarrow> A \<inter> set (hp # ps @ [tp]) = {} \<Longrightarrow> dlist h' hp tp ps"
  by (erule dlist_same) (auto simp: frame_def)

lemma dlist_tags: "dlist h hp tp ps \<Longrightarrow> tp \<notin> set ps \<and> hp \<notin> set ps \<and> distinct ps \<and> hp \<noteq> tp"
  by (auto simp: dlist_def)

lemma dlist_mem: "dlist h hp tp ps \<Longrightarrow> x \<in> set (hp # ps @ [tp]) \<Longrightarrow> x \<in> dom (cells h)"
  by (auto simp: dlist_def)

lemma in_set_tl: "x \<in> set (tl xs) \<Longrightarrow> x \<in> set xs"
  by (cases xs) auto

lemma linked_ends:
  assumes "linked h (xs @ a # b # ys)" shows "nx h a = Some b" "pv h b = Some a"
  using assms linked_append[of h xs a "b # ys"] by simp_all

lemma dlist_delete:
  assumes "dlist h hp tp (xs @ p # ys)"
  obtains h' where "delete_cache_line (Some p) h = Some h'" "dlist h' hp tp (xs @ ys)"
    "tg h' = tg h" "frame (set (hp # xs @ p # ys @ [tp])) h h'"
proof -
  obtain as a where a: "hp # xs = as @ [a]" by (meson list.discI rev_exhaust)
  obtain b bs where b: "ys @ [tp] = b # bs" by (cases "ys @ [tp]") auto
  have all: "hp # (xs @ p # ys) @ [tp] = as @ a # p # b # bs" using a b by simp
  have new: "hp # (xs @ ys) @ [tp] = as @ a # b # bs" using a b by simp
  have ln: "linked h (as @ a # p # b # bs)" and di: "distinct (as @ a # p # b # bs)"
    and dm: "set (as @ a # p # b # bs) \<subseteq> dom (cells h)" and en: "nx h tp = None" "pv h hp = None"
    using assms unfolding dlist_def all by simp_all
  have "nx h p = Some b" "pv h p = Some a"
    using linked_ends[of h as a p "b # bs"] linked_ends[of h "as @ [a]" p b bs] ln by simp_all
  then obtain h' where h': "delete_cache_line (Some p) h = Some h'"
    "nx h' = (nx h)(a := Some b, p := None)" "pv h' = (pv h)(b := Some a, p := None)"
    "tg h' = tg h" "frame {a, p, b} h h'"
    using delete_ok[of h p a b] dm di by auto
  have parts: "linked h (as @ [a])" "linked h (b # bs)"
    using ln linked_append[of h as a "p # b # bs"] by simp_all
  have "linked h' (as @ [a]) = linked h (as @ [a])"
    by (rule linked_cong) (use di h'(2,3) in \<open>auto dest: in_set_tl split: if_splits\<close>)
  moreover have "linked h' (b # bs) = linked h (b # bs)"
    by (rule linked_cong) (use di h'(2,3) in \<open>auto dest: in_set_butlastD split: if_splits\<close>)
  ultimately have "linked h' (as @ a # b # bs)"
    using parts h'(2,3) di linked_append[of h' as a "b # bs"] by auto
  moreover have "nx h' tp = None"
  proof -
    have "tp \<in> set (b # bs)" using b by (metis in_set_conv_decomp)
    then have "tp \<noteq> a" "tp \<noteq> p" using di by auto
    then show ?thesis using en h'(2) by simp
  qed
  moreover have "pv h' hp = None"
  proof -
    have "hp \<in> set (as @ [a])" using a by (metis list.set_intros(1))
    then have "hp \<noteq> b" "hp \<noteq> p" using di by auto
    then show ?thesis using en h'(3) by simp
  qed
  ultimately have "dlist h' hp tp (xs @ ys)"
    using di dm frame_dom[OF h'(5)] unfolding dlist_def new by simp
  moreover have "frame (set (hp # xs @ p # ys @ [tp])) h h'"
  proof (rule frame_mono[OF h'(5)])
    have "set (hp # xs @ p # ys @ [tp]) = set (as @ a # p # b # bs)" using all by (metis append_Cons append_assoc)
    then show "{a, p, b} \<subseteq> set (hp # xs @ p # ys @ [tp])" by simp
  qed
  ultimately show thesis using that h' by blast
qed

lemma dlist_insert:
  assumes "dlist h hp tp ps" "n \<in> dom (cells h)" "n \<notin> set (hp # ps @ [tp])"
  obtains h' where "insert_cache_line_after (Some n) (Some hp) h = Some h'" "dlist h' hp tp (n # ps)"
    "tg h' = tg h" "frame (set (hp # n # ps @ [tp])) h h'"
proof -
  obtain b bs where b: "ps @ [tp] = b # bs" by (cases "ps @ [tp]") auto
  have ln: "linked h (hp # b # bs)" and di: "distinct (hp # b # bs)"
    and dm: "set (hp # b # bs) \<subseteq> dom (cells h)" and en: "nx h tp = None" "pv h hp = None"
    using assms(1) unfolding dlist_def b by simp_all
  have nn: "n \<notin> set (hp # b # bs)" using assms(3) b by (metis)
  obtain h' where h': "insert_cache_line_after (Some n) (Some hp) h = Some h'"
    "nx h' = (nx h)(n := Some b, hp := Some n)" "pv h' = (pv h)(n := Some hp, b := Some n)"
    "tg h' = tg h" "frame {hp, b, n} h h'"
    using insert_ok[of h hp b n] ln dm assms(2) nn by auto
  have "linked h' (b # bs) = linked h (b # bs)"
    by (rule linked_cong) (use di nn h'(2,3) in \<open>auto dest: in_set_butlastD split: if_splits\<close>)
  then have "linked h' (hp # n # b # bs)" using ln h'(2,3) di nn by auto
  moreover have "tp \<in> set (b # bs)" using b by (metis in_set_conv_decomp)
  then have "nx h' tp = None" using en h'(2) di nn by auto
  moreover have "pv h' hp = None" using en h'(3) di nn by auto
  ultimately have "dlist h' hp tp (n # ps)"
    using di dm nn assms(2) frame_dom[OF h'(5)] unfolding dlist_def by (simp add: b)
  moreover have "frame (set (hp # n # ps @ [tp])) h h'"
  proof (rule frame_mono[OF h'(5)])
    have "b \<in> set (ps @ [tp])" using b by simp
    then show "{hp, b, n} \<subseteq> set (hp # n # ps @ [tp])" by auto
  qed
  ultimately show thesis using that h' by blast
qed


section \<open>Search, emptiness test, release\<close>

lemma dlist_ends:
  assumes "dlist h hp tp ps"
  shows "nx h hp = Some (hd (ps @ [tp]))" "pv h tp = Some (last (hp # ps))"
proof -
  have l: "linked h (hp # ps @ [tp])" using assms by (simp add: dlist_def)
  obtain b bs where b: "ps @ [tp] = b # bs" by (cases "ps @ [tp]") auto
  show "nx h hp = Some (hd (ps @ [tp]))" using l unfolding b by simp
  obtain as a where a: "hp # ps = as @ [a]" by (meson list.discI rev_exhaust)
  have "linked h (as @ a # tp # [])" using l a by (metis append_Cons append_assoc append_Nil)
  then show "pv h tp = Some (last (hp # ps))" using linked_ends(2) a by (metis last_snoc)
qed

lemma search_loop_ok:
  "linked h (ps @ [tp]) \<Longrightarrow> set ps \<subseteq> dom (cells h) \<Longrightarrow> tp \<notin> set ps \<Longrightarrow>
     search_loop h t (Some (hd (ps @ [tp]))) (Some tp) = Some (find (\<lambda>p. tg h p = t) ps)"
proof (induction ps)
  case Nil
  then show ?case by (subst search_loop.simps) simp
next
  case (Cons p ps)
  then obtain l where l: "cells h p = Some l" by auto
  obtain b bs where b: "ps @ [tp] = b # bs" by (cases "ps @ [tp]") auto
  have ln: "linked h (p # b # bs)" using Cons.prems(1) b by simp
  have "linked h (ps @ [tp])" using ln b by simp
  then have IH: "search_loop h t (Some b) (Some tp) = Some (find (\<lambda>p. tg h p = t) ps)"
    using Cons b by simp
  have "next_line l = Some b" using cells_links[OF l] ln by simp
  then show ?case
    using IH l cells_links[OF l] Cons.prems(3) by (subst search_loop.simps) simp
qed

lemma dlist_search:
  assumes "dlist h hp tp ps"
  shows "search_cache_line_by_tag h t (Some hp) (Some tp) = Some (find (\<lambda>p. tg h p = t) ps)"
proof -
  obtain l where l: "cells h hp = Some l" using dlist_mem[OF assms, of hp] by auto
  obtain b bs where b: "ps @ [tp] = b # bs" by (cases "ps @ [tp]") auto
  have "linked h (ps @ [tp])" using assms unfolding dlist_def b by simp
  then have "search_loop h t (Some (hd (ps @ [tp]))) (Some tp) = Some (find (\<lambda>p. tg h p = t) ps)"
    using assms by (intro search_loop_ok) (auto simp: dlist_def)
  then show ?thesis
    using l cells_links[OF l] dlist_ends(1)[OF assms] by (simp add: search_cache_line_by_tag_def)
qed

lemma dlist_empty:
  assumes "dlist h hp tp ps"
  shows "is_cache_lines_empty h (Some hp) = Some (ps = [])"
proof -
  obtain l where l: "cells h hp = Some l" using dlist_mem[OF assms, of hp] by auto
  have "hd (ps @ [tp]) \<in> set (hp # ps @ [tp])" by (cases ps) auto
  then obtain l' where l': "cells h (hd (ps @ [tp])) = Some l'" using dlist_mem[OF assms] by blast
  have "next_line l' = None \<longleftrightarrow> ps = []"
  proof (cases ps)
    case Nil
    then show ?thesis using assms cells_links[OF l'] by (simp add: dlist_def)
  next
    case (Cons p qs)
    obtain b bs where "qs @ [tp] = b # bs" by (cases "qs @ [tp]") auto
    then have "nx h p = Some b" using assms Cons by (simp add: dlist_def)
    then show ?thesis using Cons cells_links[OF l'] by simp
  qed
  then show ?thesis
    using l l' cells_links[OF l] dlist_ends(1)[OF assms] by (simp add: is_cache_lines_empty_def)
qed

lemma free_lines_ok:
  "linked h xs \<Longrightarrow> xs \<noteq> [] \<Longrightarrow> distinct xs \<Longrightarrow> set xs \<subseteq> dom (cells h) \<Longrightarrow> nx h (last xs) = None \<Longrightarrow>
     free_cache_lines (Some (hd xs)) h = Some (h\<lparr>cells := cells h |` (- set xs)\<rparr>)"
proof (induction xs arbitrary: h)
  case (Cons a xs)
  obtain l where l: "cells h a = Some l" using Cons.prems(4) by auto
  define h1 where "h1 = h\<lparr>cells := (cells h)(a := None)\<rparr>"
  have step: "free_cache_lines (Some a) h = free_cache_lines (nx h a) h1"
    using l cells_links[OF l] by (subst free_cache_lines.simps) (simp add: free_line_def h1_def)
  show ?case
  proof (cases xs)
    case Nil
    then have "nx h a = None" using Cons.prems(5) by simp
    moreover have "free_cache_lines None h1 = Some h1" by (subst free_cache_lines.simps) simp
    moreover have "(cells h)(a := None) = cells h |` (- {a})" by (auto simp: restrict_map_def fun_eq_iff)
    ultimately show ?thesis using step Nil by (simp add: h1_def)
  next
    case (Cons b ys)
    have same: "nx h1 x = nx h x \<and> pv h1 x = pv h x" if "x \<in> set xs" for x
      using that Cons.prems(3) by (auto simp: h1_def nx_def pv_def)
    have "linked h1 xs = linked h xs"
      by (rule linked_cong) (use same in \<open>auto dest: in_set_butlastD in_set_tl\<close>)
    moreover have "linked h xs" "nx h a = Some b" using Cons.prems(1) Cons by simp_all
    moreover have "nx h1 (last xs) = None" using same[of "last xs"] Cons.prems(5) Cons by simp
    moreover have "set xs \<subseteq> dom (cells h1)" using Cons.prems(3,4) by (auto simp: h1_def)
    ultimately have "free_cache_lines (Some b) h1 = Some (h1\<lparr>cells := cells h1 |` (- set xs)\<rparr>)"
      using Cons.IH[of h1] Cons.prems(3) Cons by simp
    moreover have "cells h1 |` (- set xs) = cells h |` (- set (a # xs))"
      by (auto simp: h1_def restrict_map_def fun_eq_iff)
    ultimately show ?thesis using step \<open>nx h a = Some b\<close> by (simp add: h1_def)
  qed
qed simp

lemma dlist_free:
  assumes "dlist h hp tp ps"
  shows "free_cache_lines (Some hp) h = Some (h\<lparr>cells := cells h |` (- set (hp # ps @ [tp]))\<rparr>)"
  using free_lines_ok[of h "hp # ps @ [tp]"] assms by (simp add: dlist_def)

end
