(* ===== verification/Csim_Sets.thy ===== *)
theory Csim_Sets
  imports Csim_Lists
begin

text \<open>
  A cache set of the simulator as the list of its tags, most recently used first, and one
  access to it as one step of the LRU policy.
\<close>

section \<open>The LRU policy\<close>

definition lru_access :: "nat \<Rightarrow> 'a \<Rightarrow> 'a list \<Rightarrow> 'a list" where
  "lru_access E t xs = t # (if t \<in> set xs then remove1 t xs else if length xs < E then xs else butlast xs)"

record lru_counts =
  hits :: nat
  misses :: nat
  evictions :: nat

definition lru_count :: "nat \<Rightarrow> 'a \<Rightarrow> 'a list \<Rightarrow> lru_counts \<Rightarrow> lru_counts" where
  "lru_count E t xs n =
     (if t \<in> set xs then n\<lparr>hits := hits n + 1\<rparr>
      else if length xs < E then n\<lparr>misses := misses n + 1\<rparr>
      else n\<lparr>misses := misses n + 1, evictions := evictions n + 1\<rparr>)"

text \<open>The counters of the program hold these numbers as long as they fit.\<close>

definition as_ints :: "lru_counts \<Rightarrow> cache_trace_result_t" where
  "as_ints n = \<lparr>hit = of_nat (hits n), miss = of_nat (misses n), eviction = of_nat (evictions n)\<rparr>"

lemma as_ints_count:
  "(as_ints n)\<lparr>hit := hit (as_ints n) + 1\<rparr> = as_ints (n\<lparr>hits := hits n + 1\<rparr>)"
  "(as_ints n)\<lparr>miss := miss (as_ints n) + 1\<rparr> = as_ints (n\<lparr>misses := misses n + 1\<rparr>)"
  "(as_ints n)\<lparr>miss := miss (as_ints n) + 1, eviction := eviction (as_ints n) + 1\<rparr>
     = as_ints (n\<lparr>misses := misses n + 1, evictions := evictions n + 1\<rparr>)"
  by (simp_all add: as_ints_def add.commute)

definition recent :: "'a \<Rightarrow> 'a list \<Rightarrow> 'a list" where
  "recent t xs = t # removeAll t xs"

lemma distinct_recent [simp]: "distinct xs \<Longrightarrow> distinct (recent t xs)"
  by (simp add: recent_def distinct_removeAll)

text \<open>The lines of a set of size \<open>E\<close> are the \<open>E\<close> most recently used tags.\<close>

lemma lru_take:
  assumes "0 < E" "distinct xs"
  shows "lru_access E t (take E xs) = take E (recent t xs)"
proof -
  obtain n where n: "E = Suc n" using assms(1) by (cases E) auto
  have split: "remove1 t xs = (if t \<in> set (take E xs) then remove1 t (take E xs) @ drop E xs
      else take E xs @ remove1 t (drop E xs))"
    using remove1_append[of t "take E xs" "drop E xs"] by simp
  have "take n (remove1 t xs) = (if t \<in> set (take E xs) then remove1 t (take E xs)
      else if length (take E xs) < E then take E xs else butlast (take E xs))"
  proof (cases "t \<in> set (take E xs)")
    case True
    then have "length (remove1 t (take E xs)) = min (length xs) E - 1"
      by (simp add: length_remove1)
    then have "take n (remove1 t (take E xs) @ drop E xs) = remove1 t (take E xs)"
      using n by (cases "E \<le> length xs") (simp_all add: min_def)
    then show ?thesis unfolding split using True by simp
  next
    case False
    show ?thesis
    proof (cases "length xs < E")
      case True
      then show ?thesis using False n by (simp add: remove1_idem)
    next
      case long: False
      then have "take n (take E xs @ remove1 t (drop E xs)) = take n xs" using n by (simp add: min_def)
      then have "take n (remove1 t xs) = take n xs" unfolding split using False by simp
      then show ?thesis using False long n by (simp add: butlast_take)
    qed
  qed
  then show ?thesis
    using assms(2) n by (simp add: lru_access_def recent_def distinct_remove1_removeAll)
qed

section \<open>A set in the heap\<close>

definition set_ok :: "heap \<Rightarrow> cache_set_t \<Rightarrow> nat \<Rightarrow> nat set \<Rightarrow> u64 list \<Rightarrow> bool" where
  "set_ok h s E R ts \<longleftrightarrow> (\<exists>fs us.
     dlist h (lines_head_free s) (lines_tail_free s) fs
     \<and> dlist h (lines_head_in_use s) (lines_tail_in_use s) us
     \<and> set (lines_head_free s # fs @ [lines_tail_free s])
         \<inter> set (lines_head_in_use s # us @ [lines_tail_in_use s]) = {}
     \<and> R = set (lines_head_free s # fs @ [lines_tail_free s])
         \<union> set (lines_head_in_use s # us @ [lines_tail_in_use s])
     \<and> map (tg h) us = ts \<and> length fs + length us = E)"

lemma set_ok_same:
  assumes "set_ok h s E R ts" "\<And>x. x \<in> R \<Longrightarrow> cells h' x = cells h x"
  shows "set_ok h' s E R ts"
proof -
  obtain fs us where f: "dlist h (lines_head_free s) (lines_tail_free s) fs"
    "dlist h (lines_head_in_use s) (lines_tail_in_use s) us"
    "set (lines_head_free s # fs @ [lines_tail_free s])
         \<inter> set (lines_head_in_use s # us @ [lines_tail_in_use s]) = {}"
    "R = set (lines_head_free s # fs @ [lines_tail_free s])
         \<union> set (lines_head_in_use s # us @ [lines_tail_in_use s])"
    "map (tg h) us = ts" "length fs + length us = E"
    using assms(1) unfolding set_ok_def by blast
  have "dlist h' (lines_head_free s) (lines_tail_free s) fs"
    by (rule dlist_same[OF f(1)]) (use assms(2) f(4) in blast)
  moreover have "dlist h' (lines_head_in_use s) (lines_tail_in_use s) us"
    by (rule dlist_same[OF f(2)]) (use assms(2) f(4) in blast)
  moreover have "tg h' x = tg h x" if "x \<in> set us" for x
    using assms(2)[of x] f(4) that by (simp add: tg_def)
  then have "map (tg h') us = ts" unfolding f(5)[symmetric] by (simp only: map_eq_conv) simp
  ultimately show ?thesis using f(3,4,6) unfolding set_ok_def by blast
qed

lemma find_split:
  "find P xs = Some p \<Longrightarrow> \<exists>as bs. xs = as @ p # bs \<and> P p \<and> (\<forall>x \<in> set as. \<not> P x)"
proof (induction xs)
  case (Cons x xs)
  show ?case
  proof (cases "P x")
    case True
    then show ?thesis using Cons.prems by (intro exI[of _ "[]"] exI[of _ xs]) simp
  next
    case False
    then obtain as bs where "xs = as @ p # bs" "P p" "\<forall>x \<in> set as. \<not> P x"
      using Cons by auto
    then show ?thesis using False by (intro exI[of _ "x # as"] exI[of _ bs]) auto
  qed
qed simp

text \<open>Moving one cell to the front of the list in use, with a new tag.\<close>

lemma move_to_front:
  assumes "dlist h hf tf fs" "dlist h hu tu us" "set (hf # fs @ [tf]) \<inter> set (hu # us @ [tu]) = {}"
    and "p \<in> dom (cells h)" "p \<notin> set (hf # fs @ [tf])" "p \<notin> set (hu # us @ [tu])"
  obtains h' where "insert_cache_line_after (Some p) (Some hu) h = Some h'"
    "dlist h' hf tf fs" "dlist h' hu tu (p # us)" "tg h' = tg h"
    "frame (set (hu # p # us @ [tu])) h h'"
proof -
  obtain h' where h': "insert_cache_line_after (Some p) (Some hu) h = Some h'" "dlist h' hu tu (p # us)"
    "tg h' = tg h" "frame (set (hu # p # us @ [tu])) h h'"
    using dlist_insert[OF assms(2,4,6)] by blast
  have "dlist h' hf tf fs"
    by (rule dlist_frame[OF assms(1) h'(4)]) (use assms(3,5) in auto)
  then show thesis using that h' by blast
qed

lemma reuse_ok:
  assumes "delete_cache_line (Some p) h = Some h1" "tg h1 = tg h" "frame A h h1" "p \<in> dom (cells h)"
    and "dlist h1 hf tf fs" "dlist h1 hu tu us" "set (hf # fs @ [tf]) \<inter> set (hu # us @ [tu]) = {}"
    and "p \<notin> set (hf # fs @ [tf])" "p \<notin> set (hu # us @ [tu])"
    and "A \<subseteq> R" "set (hu # p # us @ [tu]) \<subseteq> R"
  obtains h' where "reuse_line (Some p) t (Some hu) h = Some h'" "dlist h' hf tf fs"
    "dlist h' hu tu (p # us)" "map (tg h') (p # us) = t # map (tg h) us" "frame R h h'"
proof -
  have d1: "p \<in> dom (cells h1)" using assms(4) frame_dom[OF assms(3)] by simp
  obtain h2 where h2: "set_tag (Some p) t h1 = Some h2" "tg h2 = (tg h1)(p := t)" "frame {p} h1 h2"
    using set_tag_ok[OF d1, of t] by metis
  have l2: "dlist h2 hf tf fs" "dlist h2 hu tu us"
    using dlist_frame[OF assms(5) h2(3)] dlist_frame[OF assms(6) h2(3)] assms(8,9) by auto
  have d2: "p \<in> dom (cells h2)" using d1 frame_dom[OF h2(3)] by simp
  obtain h' where h': "insert_cache_line_after (Some p) (Some hu) h2 = Some h'"
    "dlist h' hf tf fs" "dlist h' hu tu (p # us)" "tg h' = tg h2" "frame (set (hu # p # us @ [tu])) h2 h'"
    using move_to_front[OF l2 assms(7) d2 assms(8,9)] by blast
  have e1: "reuse_line (Some p) t (Some hu) h = Some h'"
    using assms(1) h2(1) h'(1) by (simp add: reuse_line_def)
  have e2: "map (tg h') (p # us) = t # map (tg h) us"
    using h'(4) h2(2) assms(2,9) by auto
  have e3: "frame R h h'"
  proof -
    have "{p} \<subseteq> R" using assms(11) by simp
    then show ?thesis
      using frame_trans[OF frame_trans[OF frame_mono[OF assms(3,10)] frame_mono[OF h2(3), of R]]
        frame_mono[OF h'(5) assms(11)]] by simp
  qed
  show thesis by (rule that[OF e1 h'(2,3) e2 e3])
qed

section \<open>One access is one step of the policy\<close>

lemma cache_access_ok:
  assumes "set_ok h s E R ts" "0 < E"
  obtains h' out' where "cache_access a s t (as_ints n) out h = Some (as_ints (lru_count E t ts n), out', h')"
    "set_ok h' s E R (lru_access E t ts)" "frame R h h'"
proof -
  define r where "r = as_ints n"
  note count = as_ints_count[of n, folded r_def]
  define hf where "hf = lines_head_free s"
  define tf where "tf = lines_tail_free s"
  define hu where "hu = lines_head_in_use s"
  define tu where "tu = lines_tail_in_use s"
  note nm = hf_def[symmetric] tf_def[symmetric] hu_def[symmetric] tu_def[symmetric]
  obtain fs us where f: "dlist h hf tf fs" "dlist h hu tu us" "set (hf # fs @ [tf]) \<inter> set (hu # us @ [tu]) = {}"
    "R = set (hf # fs @ [tf]) \<union> set (hu # us @ [tu])" "map (tg h) us = ts" "length fs + length us = E"
    using assms(1) unfolding set_ok_def nm by blast
  note search = dlist_search[OF f(2), of t]
  have okI: "set_ok h' s E R ts'" if "dlist h' hf tf fs'" "dlist h' hu tu us'"
    "set (hf # fs' @ [tf]) \<inter> set (hu # us' @ [tu]) = {}"
    "set (hf # fs' @ [tf]) \<union> set (hu # us' @ [tu]) = R" "map (tg h') us' = ts'"
    "length fs' + length us' = E" for h' fs' us' ts'
    using that unfolding set_ok_def nm by blast
  show thesis
  proof (cases "find (\<lambda>p. tg h p = t) us")
    case (Some p)
    then obtain as bs where us: "us = as @ p # bs" "tg h p = t" "\<forall>x \<in> set as. tg h x \<noteq> t"
      using find_split[OF Some] by blast
    obtain h1 where h1: "delete_cache_line (Some p) h = Some h1" "dlist h1 hu tu (as @ bs)"
      "tg h1 = tg h" "frame (set (hu # as @ p # bs @ [tu])) h h1"
      using dlist_delete[of h hu tu as p bs] f(2) us(1) by blast
    have sep: "set (hf # fs @ [tf]) \<inter> set (hu # (as @ bs) @ [tu]) = {}" "p \<notin> set (hf # fs @ [tf])"
      using f(3) us(1) by auto
    have lf1: "dlist h1 hf tf fs" by (rule dlist_frame[OF f(1) h1(4)]) (use f(3) us(1) in auto)
    have p: "p \<in> dom (cells h1)" "p \<notin> set (hu # (as @ bs) @ [tu])"
      using dlist_mem[OF f(2), of p] frame_dom[OF h1(4)] f(2) us(1) by (auto simp: dlist_def)
    obtain h2 where h2: "insert_cache_line_after (Some p) (Some hu) h1 = Some h2" "dlist h2 hf tf fs"
      "dlist h2 hu tu (p # as @ bs)" "tg h2 = tg h1" "frame (set (hu # p # (as @ bs) @ [tu])) h1 h2"
      using move_to_front[OF lf1 h1(2) sep(1) p(1) sep(2) p(2)] by blast
    have ts: "ts = map (tg h) as @ t # map (tg h) bs" using f(5) us(1,2) by simp
    have "t \<notin> set (map (tg h) as)" using us(3) by auto
    then have "t \<in> set ts" "map (tg h2) (p # as @ bs) = t # remove1 t ts"
      unfolding ts using us(2) h1(3) h2(4) by (simp_all add: remove1_append)
    moreover have "set_ok h2 s E R (t # remove1 t ts)"
      by (rule okI[OF h2(2,3)]) (use f(3,4,6) us(1) sep calculation(2) in auto)
    moreover have "frame R h h2"
      by (rule frame_trans[OF frame_mono[OF h1(4)] frame_mono[OF h2(5)]]) (use f(4) us(1) in auto)
    moreover have "cache_access a s t r out h = Some (r\<lparr>hit := hit r + 1\<rparr>, print_verbose a ''hit'' out, h2)"
      using search Some h1(1) h2(1) by (simp add: cache_access_def nm)
    ultimately show thesis using that[of _ h2] by (simp add: lru_count_def lru_access_def r_def[symmetric] count(1))
  next
    case None
    then have t: "t \<notin> set ts" using f(5) by (auto simp: find_None_iff)
    note empty = dlist_empty[OF f(1)]
    show thesis
    proof (cases fs)
      case (Cons p fs')
      obtain l where l: "cells h hf = Some l" using dlist_mem[OF f(1), of hf] by auto
      have nl: "next_line l = Some p" using cells_links[OF l] dlist_ends(1)[OF f(1)] Cons by simp
      obtain h1 where h1: "delete_cache_line (Some p) h = Some h1" "dlist h1 hf tf fs'"
        "tg h1 = tg h" "frame (set (hf # p # fs' @ [tf])) h h1"
        using dlist_delete[of h hf tf "[]" p fs'] f(1) Cons by auto
      have lu1: "dlist h1 hu tu us" by (rule dlist_frame[OF f(2) h1(4)]) (use f(3) Cons in auto)
      have pin: "p \<in> dom (cells h)" "p \<notin> set (hf # fs' @ [tf])" "p \<notin> set (hu # us @ [tu])"
        "set (hf # fs' @ [tf]) \<inter> set (hu # us @ [tu]) = {}"
        using dlist_mem[OF f(1), of p] f(1,3) Cons by (auto simp: dlist_def)
      obtain h2 where h2: "reuse_line (Some p) t (Some hu) h = Some h2" "dlist h2 hf tf fs'"
        "dlist h2 hu tu (p # us)" "map (tg h2) (p # us) = t # map (tg h) us" "frame R h h2"
        using reuse_ok[OF h1(1,3,4) pin(1) h1(2) lu1 pin(4,2,3), of R t] f(4) Cons by auto
      have "set_ok h2 s E R (t # ts)"
        by (rule okI[OF h2(2,3)]) (use f(3,4,5,6) Cons pin h2(4) in auto)
      moreover have "length ts < E" using f(5,6) Cons by auto
      moreover have "cache_access a s t r out h
          = Some (r\<lparr>miss := miss r + 1\<rparr>, print_verbose a ''miss '' out, h2)"
        using search None empty Cons l nl h2(1) by (simp add: cache_access_def nm Let_def)
      ultimately show thesis using that[of _ h2] t h2(5) by (simp add: lru_count_def lru_access_def r_def[symmetric] count(2))
    next
      case Nil
      then obtain as p where us: "us = as @ [p]" using f(6) assms(2) by (cases us rule: rev_cases) auto
      obtain l where l: "cells h tu = Some l" using dlist_mem[OF f(2), of tu] by auto
      have pl: "prev l = Some p" using cells_links[OF l] dlist_ends(2)[OF f(2)] us by simp
      obtain h1 where h1: "delete_cache_line (Some p) h = Some h1" "dlist h1 hu tu as"
        "tg h1 = tg h" "frame (set (hu # as @ p # [] @ [tu])) h h1"
        using dlist_delete[of h hu tu as p "[]"] f(2) us by auto
      have lf1: "dlist h1 hf tf fs" by (rule dlist_frame[OF f(1) h1(4)]) (use f(3) us in auto)
      have pin: "p \<in> dom (cells h)" "p \<notin> set (hf # fs @ [tf])" "p \<notin> set (hu # as @ [tu])"
        "set (hf # fs @ [tf]) \<inter> set (hu # as @ [tu]) = {}"
        using dlist_mem[OF f(2), of p] f(2,3) us by (auto simp: dlist_def)
      obtain h2 where h2: "reuse_line (Some p) t (Some hu) h = Some h2" "dlist h2 hf tf fs"
        "dlist h2 hu tu (p # as)" "map (tg h2) (p # as) = t # map (tg h) as" "frame R h h2"
        using reuse_ok[OF h1(1,3,4) pin(1) lf1 h1(2) pin(4,2,3), of R t] f(4) us by auto
      have "set_ok h2 s E R (t # butlast ts)"
        by (rule okI[OF h2(2,3)]) (use f(3,4,5,6) us pin h2(4) in auto)
      moreover have "length ts = E" using f(5,6) Nil by auto
      moreover have "cache_access a s t r out h
          = Some (r\<lparr>miss := miss r + 1, eviction := eviction r + 1\<rparr>,
                  print_verbose a ''eviction '' (print_verbose a ''miss '' out), h2)"
        using search None empty Nil l pl h2(1) by (simp add: cache_access_def nm Let_def)
      ultimately show thesis using that[of _ h2] t h2(5) by (simp add: lru_count_def lru_access_def r_def[symmetric] count(3))
    qed
  qed
qed

end
