(* ===== verification/Csim_Props.thy ===== *)
theory Csim_Props
  imports Csim_Sets
begin

text \<open>
  The whole simulator: the initial heap, the run over a trace against a reference that
  knows nothing of lists and heap, and the release of the heap.
\<close>

section \<open>Set and tag bits\<close>

definition valid_args :: "cache_args_t \<Rightarrow> bool" where
  "valid_args a \<longleftrightarrow> 1 \<le> bits_sets a \<and> 1 \<le> bits_blocks_per_line a
     \<and> bits_sets a \<le> 30 \<and> bits_sets a + bits_blocks_per_line a < 64"

definition set_index :: "cache_args_t \<Rightarrow> u64 \<Rightarrow> nat" where
  "set_index a x = unat x div 2 ^ nat (bits_blocks_per_line a) mod 2 ^ nat (bits_sets a)"

text \<open>The shifted sign bit covers the upper bits.\<close>

lemma bit_sign: "bit (9223372036854775808 :: int) j \<longleftrightarrow> j = 63" "bit (9223372036854775808 :: nat) j \<longleftrightarrow> j = 63"
  using bit_exp_iff[where 'a = int, of 63 j] bit_exp_iff[where 'a = nat, of 63 j] by auto

lemma sign_mask_bit:
  "m < 64 \<Longrightarrow> n < 64 \<Longrightarrow> bit (signed_drop_bit m (push_bit 63 (1 :: u64))) n \<longleftrightarrow> 63 \<le> m + n"
  by (auto simp: bit_simps bit_sign min_def)

lemma extract_set_bits_eq:
  assumes "valid_args a" shows "unat (extract_set_bits a x) = set_index a x"
proof -
  define s where "s = nat (bits_sets a)"
  define b where "b = nat (bits_blocks_per_line a)"
  have sb: "1 \<le> s" "1 \<le> b" "s + b < 64" using assms by (auto simp: valid_args_def s_def b_def)
  have tbits: "bits_tag_each_line a = 64 - (s + b)"
    using assms by (simp add: bits_tag_each_line_def valid_args_def s_def b_def nat_diff_distrib')
  have "extract_set_bits a x = drop_bit b (take_bit (s + b) x)"
    unfolding extract_set_bits_def tbits b_def[symmetric]
    using sb by (intro bit_word_eqI) (auto simp: bit_simps bit_sign min_def)
  then have "unat (extract_set_bits a x) = drop_bit b (take_bit (s + b) (unat x))"
    using sb by (simp add: unsigned_drop_bit_eq unsigned_take_bit_eq min_def)
  also have "\<dots> = take_bit s (drop_bit b (unat x))"
    using sb by (simp add: drop_bit_take_bit)
  also have "\<dots> = set_index a x"
    by (simp add: set_index_def s_def b_def take_bit_eq_mod drop_bit_eq_div)
  finally show ?thesis .
qed

lemma set_index_less: "set_index a x < 2 ^ nat (bits_sets a)"
  by (simp add: set_index_def)

section \<open>The sets side by side\<close>

definition cache_ok :: "heap \<Rightarrow> cache_set_t list \<Rightarrow> nat \<Rightarrow> nat set list \<Rightarrow> (nat \<Rightarrow> u64 list) \<Rightarrow> bool" where
  "cache_ok h sets E Rs T \<longleftrightarrow> length Rs = length sets
     \<and> (\<forall>i < length sets. set_ok h (sets ! i) E (Rs ! i) (T i))
     \<and> (\<forall>i < length sets. \<forall>k < length sets. i \<noteq> k \<longrightarrow> Rs ! i \<inter> Rs ! k = {})"

lemma cache_ok_access:
  assumes "cache_ok h sets E Rs T" "i < length sets" "frame (Rs ! i) h h'"
    and "set_ok h' (sets ! i) E (Rs ! i) ts"
  shows "cache_ok h' sets E Rs (T(i := ts))"
proof -
  have "set_ok h' (sets ! k) E (Rs ! k) (T k)" if k: "k < length sets" "k \<noteq> i" for k
  proof (rule set_ok_same)
    show "set_ok h (sets ! k) E (Rs ! k) (T k)" using assms(1) k by (simp add: cache_ok_def)
    fix x assume "x \<in> Rs ! k"
    then have "x \<notin> Rs ! i" using assms(1,2) k unfolding cache_ok_def by blast
    then show "cells h' x = cells h x" using assms(3) by (simp add: frame_def)
  qed
  then show ?thesis using assms(1,4) by (simp add: cache_ok_def)
qed

section \<open>The reference\<close>

text \<open>
  \<open>R i\<close> are the tags used in set \<open>i\<close>, the last one first. A data access hits when its tag
  is one of the \<open>E\<close> last ones; a modify hits once more; an instruction fetch does not
  count.
\<close>

fun lru_trace :: "cache_args_t \<Rightarrow> nat \<Rightarrow> (nat \<Rightarrow> u64 list) \<Rightarrow> trace_line list
    \<Rightarrow> lru_counts \<Rightarrow> lru_counts" where
  "lru_trace a E R [] n = n"
| "lru_trace a E R (t # ts) n =
     (if op t = CHR ''I'' then lru_trace a E R ts n
      else let i = set_index a (addr t); tb = extract_tag_bits a (addr t);
               n1 = lru_count E tb (take E (R i)) n;
               n2 = (if op t = CHR ''M'' then n1\<lparr>hits := hits n1 + 1\<rparr> else n1)
           in lru_trace a E (R(i := recent tb (R i))) ts n2)"

lemma trace_step_ok:
  fixes n :: lru_counts
  assumes "valid_args a" "0 < E" "length sets = 2 ^ nat (bits_sets a)"
    and "cache_ok h sets E Rs (\<lambda>i. take E (R i))" "\<And>i. distinct (R i)" "op t \<noteq> CHR ''I''"
  defines "i \<equiv> set_index a (addr t)" and "tb \<equiv> extract_tag_bits a (addr t)"
  defines "r1 \<equiv> lru_count E tb (take E (R i)) n"
  obtains h' out' where "trace_step a sets t (as_ints n, out, h)
      = Some (as_ints (if op t = CHR ''M'' then r1\<lparr>hits := hits r1 + 1\<rparr> else r1), out', h')"
    "cache_ok h' sets E Rs (\<lambda>k. take E ((R(i := recent tb (R i))) k))"
    "frame (\<Union> (set Rs)) h h'"
proof -
  have i: "i < length sets" using set_index_less assms(3) by (simp add: i_def)
  have si: "set_ok h (sets ! i) E (Rs ! i) (take E (R i))" using assms(4) i by (simp add: cache_ok_def)
  define out0 where "out0 = print_verbose a ([op t] @ '' '' @ hex_nat (unat (addr t)) @ '',''
                      @ hex_nat (unat (op_size t)) @ '' '') out"
  obtain h' out1 where acc: "cache_access a (sets ! i) tb (as_ints n) out0 h = Some (as_ints r1, out1, h')"
    "set_ok h' (sets ! i) E (Rs ! i) (lru_access E tb (take E (R i)))" "frame (Rs ! i) h h'"
    using cache_access_ok[OF si assms(2)] unfolding r1_def by blast
  have "cache_ok h' sets E Rs ((\<lambda>k. take E (R k))(i := take E (recent tb (R i))))"
    using cache_ok_access[OF assms(4) i acc(3)] acc(2) lru_take[OF assms(2,5)] by simp
  moreover have "(\<lambda>k. take E (R k))(i := take E (recent tb (R i)))
      = (\<lambda>k. take E ((R(i := recent tb (R i))) k))" by auto
  ultimately have ok: "cache_ok h' sets E Rs (\<lambda>k. take E ((R(i := recent tb (R i))) k))" by simp
  have "Rs ! i \<in> set Rs" using assms(4) i by (simp add: cache_ok_def)
  then have "Rs ! i \<subseteq> \<Union> (set Rs)" by blast
  then have fr: "frame (\<Union> (set Rs)) h h'" by (rule frame_mono[OF acc(3)])
  have idx: "unat (extract_set_bits a (addr t)) = i"
    using extract_set_bits_eq[OF assms(1)] by (simp add: i_def)
  have "\<exists>out'. trace_step a sets t (as_ints n, out, h)
      = Some (as_ints (if op t = CHR ''M'' then r1\<lparr>hits := hits r1 + 1\<rparr> else r1), out', h')"
    using assms(6) i acc(1) by (simp add: trace_step_def idx Let_def out0_def tb_def[symmetric] as_ints_count)
  then show thesis using that ok fr by blast
qed

lemma trace_loop_ok:
  assumes "valid_args a" "0 < E" "length sets = 2 ^ nat (bits_sets a)"
  shows "cache_ok h sets E Rs (\<lambda>i. take E (R i)) \<Longrightarrow> (\<And>i. distinct (R i)) \<Longrightarrow>
    \<exists>h' out' T. trace_loop a sets ts (as_ints n, out, h) = Some (as_ints (lru_trace a E R ts n), out', h')
      \<and> cache_ok h' sets E Rs T \<and> frame (\<Union> (set Rs)) h h'"
proof (induction ts arbitrary: h R n out)
  case Nil
  then show ?case by (auto simp: frame_def)
next
  case (Cons t ts)
  show ?case
  proof (cases "op t = CHR ''I''")
    case True
    then show ?thesis using Cons.IH[OF Cons.prems] by (simp add: trace_step_def)
  next
    case False
    define i where "i = set_index a (addr t)"
    define tb where "tb = extract_tag_bits a (addr t)"
    define r1 where "r1 = lru_count E tb (take E (R i)) n"
    define r2 where "r2 = (if op t = CHR ''M'' then r1\<lparr>hits := hits r1 + 1\<rparr> else r1)"
    obtain h1 out1 where st: "trace_step a sets t (as_ints n, out, h) = Some (as_ints r2, out1, h1)"
      "cache_ok h1 sets E Rs (\<lambda>k. take E ((R(i := recent tb (R i))) k))" "frame (\<Union> (set Rs)) h h1"
      using trace_step_ok[OF assms Cons.prems False] unfolding r2_def r1_def i_def tb_def by blast
    have "distinct ((R(i := recent tb (R i))) k)" for k using Cons.prems(2) by simp
    from Cons.IH[OF st(2) this, of r2 out1] obtain h' out' T where
      "trace_loop a sets ts (as_ints r2, out1, h1) = Some (as_ints (lru_trace a E (R(i := recent tb (R i))) ts r2), out', h')"
      "cache_ok h' sets E Rs T" "frame (\<Union> (set Rs)) h1 h'" by blast
    moreover have "lru_trace a E R (t # ts) n = lru_trace a E (R(i := recent tb (R i))) ts r2"
      using False by (simp add: Let_def i_def tb_def r1_def r2_def)
    ultimately show ?thesis using st(1,3) frame_trans by auto
  qed
qed


section \<open>The initial heap\<close>

definition fresh :: "heap \<Rightarrow> bool" where
  "fresh h \<longleftrightarrow> (\<forall>x. brk h \<le> x \<longrightarrow> cells h x = None)"

definition grows :: "nat set \<Rightarrow> nat \<Rightarrow> heap \<Rightarrow> heap \<Rightarrow> bool" where
  "grows A n h h' \<longleftrightarrow> brk h' = brk h + n \<and> fresh h'
     \<and> dom (cells h') = dom (cells h) \<union> {brk h ..< brk h + n}
     \<and> (\<forall>x. x \<notin> A \<and> x < brk h \<longrightarrow> cells h' x = cells h x)"

lemma grows_trans: "grows A m h h1 \<Longrightarrow> grows A n h1 h2 \<Longrightarrow> grows A (m + n) h h2"
  unfolding grows_def by (auto simp: add.assoc)

lemma grows_mono: "grows A n h h' \<Longrightarrow> (\<And>x. x \<in> A \<Longrightarrow> x < brk h \<Longrightarrow> x \<in> B) \<Longrightarrow> grows B n h h'"
  unfolding grows_def by blast

lemma fresh_dom: "fresh h \<Longrightarrow> x \<in> dom (cells h) \<Longrightarrow> x < brk h"
  by (auto simp: fresh_def dom_def) (metis not_None_eq not_le)

lemma frame_fresh: "fresh h \<Longrightarrow> frame A h h' \<Longrightarrow> fresh h'"
  unfolding fresh_def frame_def by (metis domIff)

lemma malloc_ok:
  assumes "fresh h"
  obtains h' where "malloc_line h = (brk h, h')" "grows {} 1 h h'" "brk h \<in> dom (cells h')"
proof -
  define h' where "h' = h\<lparr>cells := (cells h)(brk h \<mapsto> junk h (brk h)), brk := brk h + 1\<rparr>"
  have "grows {} 1 h h'" using assms by (auto simp: grows_def h'_def fresh_def)
  then show thesis by (rule that[rotated]) (simp_all add: malloc_line_def h'_def)
qed

lemma grows_frame:
  assumes "grows A n h h1" "frame B h1 h2" "\<And>x. x \<in> B \<Longrightarrow> x < brk h \<Longrightarrow> x \<in> A"
  shows "grows A n h h2"
proof -
  have "fresh h2" using frame_fresh[OF _ assms(2)] assms(1) by (simp add: grows_def)
  moreover have "\<forall>x. x \<notin> A \<and> x < brk h \<longrightarrow> cells h2 x = cells h x"
    using assms unfolding grows_def frame_def by metis
  ultimately show ?thesis using assms(1,2) unfolding grows_def frame_def by simp
qed

lemma Init_Lines_ok:
  assumes "fresh h"
  obtains h' where "Init_Lines_Head_Tail h = Some (brk h, brk h + 1, h')"
    "dlist h' (brk h) (brk h + 1) []" "grows {} 2 h h'"
proof -
  define hp where "hp = brk h"
  define tp where "tp = brk h + 1"
  obtain h1 where h1: "malloc_line h = (hp, h1)" "grows {} 1 h h1" "hp \<in> dom (cells h1)"
    using malloc_ok[OF assms] by (auto simp: hp_def)
  then have f1: "fresh h1" "brk h1 = tp" by (simp_all add: grows_def tp_def)
  obtain h2 where h2: "malloc_line h1 = (tp, h2)" "grows {} 1 h1 h2" "tp \<in> dom (cells h2)"
    using malloc_ok[OF f1(1)] f1(2) by auto
  have g2: "grows {} 2 h h2" using grows_trans[OF h1(2) h2(2)] by (simp add: numeral_2_eq_2)
  have hp2: "hp \<in> dom (cells h2)" using h1(3) h2(2) by (auto simp: grows_def)
  obtain h3 where h3: "set_prev (Some hp) None h2 = Some h3" "nx h3 = nx h2"
    "pv h3 = (pv h2)(hp := None)" "frame {hp} h2 h3" using set_prev_ok[OF hp2, of None] by metis
  have hp3: "hp \<in> dom (cells h3)" using hp2 frame_dom[OF h3(4)] by simp
  obtain h4 where h4: "set_next (Some hp) (Some tp) h3 = Some h4" "nx h4 = (nx h3)(hp := Some tp)"
    "pv h4 = pv h3" "frame {hp} h3 h4" using set_next_ok[OF hp3, of "Some tp"] by metis
  have tp4: "tp \<in> dom (cells h4)" using h2(3) frame_dom[OF h3(4)] frame_dom[OF h4(4)] by simp
  obtain h5 where h5: "set_prev (Some tp) (Some hp) h4 = Some h5" "nx h5 = nx h4"
    "pv h5 = (pv h4)(tp := Some hp)" "frame {tp} h4 h5" using set_prev_ok[OF tp4, of "Some hp"] by metis
  have tp5: "tp \<in> dom (cells h5)" using tp4 frame_dom[OF h5(4)] by simp
  obtain h6 where h6: "set_next (Some tp) None h5 = Some h6" "nx h6 = (nx h5)(tp := None)"
    "pv h6 = pv h5" "frame {tp} h5 h6" using set_next_ok[OF tp5, of None] by metis
  have ne: "hp \<noteq> tp" by (simp add: hp_def tp_def)
  have e1: "Init_Lines_Head_Tail h = Some (hp, tp, h6)"
    using h1(1) h2(1) h3(1) h4(1) h5(1) h6(1) by (simp add: Init_Lines_Head_Tail_def)
  have e2: "dlist h6 hp tp []"
    using ne h3(2,3) h4(2,3) h5(2,3) h6(2,3) hp3 tp5 frame_dom[OF h4(4)] frame_dom[OF h5(4)] frame_dom[OF h6(4)]
    by (simp add: dlist_def)
  have "frame {hp, tp} h2 h6"
    using frame_trans[OF frame_trans[OF frame_trans[OF frame_mono[OF h3(4), of "{hp, tp}"]
      frame_mono[OF h4(4)]] frame_mono[OF h5(4)]] frame_mono[OF h6(4)]] by simp
  then have e3: "grows {} 2 h h6"
    by (rule grows_frame[OF g2]) (auto simp: hp_def tp_def)
  show thesis using that e1 e2 e3 by (simp add: hp_def tp_def)
qed

lemma add_free_lines_ok:
  "fresh h \<Longrightarrow> dlist h hp tp fs \<Longrightarrow>
    \<exists>h' fs'. add_free_lines k hp h = Some h' \<and> dlist h' hp tp fs' \<and> length fs' = length fs + k
      \<and> set fs' = set fs \<union> {brk h ..< brk h + k} \<and> grows (set (hp # fs @ [tp])) k h h'"
proof (induction k arbitrary: h fs)
  case 0
  then show ?case by (auto simp: grows_def)
next
  case (Suc k)
  define n where "n = brk h"
  obtain h1 where h1: "malloc_line h = (n, h1)" "grows {} 1 h h1" "n \<in> dom (cells h1)"
    using malloc_ok[OF Suc.prems(1)] unfolding n_def by blast
  have below: "x < n" if "x \<in> set (hp # fs @ [tp])" for x
    using fresh_dom[OF Suc.prems(1) dlist_mem[OF Suc.prems(2) that]] by (simp add: n_def)
  have l1: "dlist h1 hp tp fs"
    by (rule dlist_same[OF Suc.prems(2)]) (use h1(2) below in \<open>simp add: grows_def n_def\<close>)
  have "n \<notin> set (hp # fs @ [tp])" using below by blast
  then obtain h2 where h2: "insert_cache_line_after (Some n) (Some hp) h1 = Some h2"
    "dlist h2 hp tp (n # fs)" "frame (set (hp # n # fs @ [tp])) h1 h2"
    using dlist_insert[OF l1 h1(3)] by metis
  have g2: "grows (set (hp # fs @ [tp])) 1 h h2"
    by (rule grows_frame[OF grows_mono[OF h1(2)] h2(3)]) (auto simp: n_def)
  then have f2: "fresh h2" "brk h2 = n + 1" by (simp_all add: grows_def n_def)
  obtain h' fs' where h': "add_free_lines k hp h2 = Some h'" "dlist h' hp tp fs'"
    "length fs' = length (n # fs) + k" "set fs' = set (n # fs) \<union> {n + 1 ..< n + 1 + k}"
    "grows (set (hp # (n # fs) @ [tp])) k h2 h'"
    using Suc.IH[OF f2(1) h2(2)] unfolding f2(2) by blast
  have "grows (set (hp # fs @ [tp])) (1 + k) h h'"
  proof -
    have a: "\<forall>x. x \<notin> set (hp # fs @ [tp]) \<and> x < n \<longrightarrow> cells h' x = cells h2 x"
      using h'(5) f2(2) by (auto simp: grows_def)
    show ?thesis using g2 h'(5) a f2(2) unfolding grows_def by (auto simp: n_def)
  qed
  moreover have "set (n # fs) \<union> {n + 1 ..< n + 1 + k} = set fs \<union> {n ..< n + Suc k}" by auto
  ultimately show ?case
    using h1(1) h2(1) h'(1-4) by (auto simp: n_def)
qed

lemma init_cache_set_ok:
  "fresh h \<Longrightarrow> \<exists>sets h' Rs. init_cache_set n E h = Some (sets, h') \<and> length sets = n
     \<and> cache_ok h' sets E Rs (\<lambda>i. []) \<and> \<Union> (set Rs) = {brk h ..< brk h'} \<and> grows {} (brk h' - brk h) h h'"
proof (induction n arbitrary: h)
  case 0
  then show ?case by (auto simp: cache_ok_def grows_def)
next
  case (Suc n)
  define b where "b = brk h"
  obtain h1 where h1: "Init_Lines_Head_Tail h = Some (b, b + 1, h1)" "dlist h1 b (b + 1) []" "grows {} 2 h h1"
    using Init_Lines_ok[OF Suc.prems] unfolding b_def by blast
  then have f1: "fresh h1" "brk h1 = b + 2" by (simp_all add: grows_def b_def)
  obtain h2 where h2: "Init_Lines_Head_Tail h1 = Some (b + 2, b + 2 + 1, h2)" "dlist h2 (b + 2) (b + 2 + 1) []"
    "grows {} 2 h1 h2"
    using Init_Lines_ok[OF f1(1)] unfolding f1(2) by blast
  then have f2: "fresh h2" "brk h2 = b + 4" using f1 by (simp_all add: grows_def)
  have l2: "dlist h2 b (b + 1) []"
    by (rule dlist_same[OF h1(2)]) (use h2(3) f1(2) in \<open>auto simp: grows_def\<close>)
  obtain h3 fs where h3: "add_free_lines E b h2 = Some h3" "dlist h3 b (b + 1) fs" "length fs = E"
    "set fs = {b + 4 ..< b + 4 + E}" "grows {b, b + 1} E h2 h3"
    using add_free_lines_ok[OF f2(1) l2, of E] unfolding f2(2) by auto
  have u3: "dlist h3 (b + 2) (b + 2 + 1) []"
    by (rule dlist_same[OF h2(2)]) (use h3(5) f2(2) in \<open>auto simp: grows_def\<close>)
  define s where "s = \<lparr>lines_head_in_use = b + 2, lines_tail_in_use = b + 2 + 1,
            lines_head_free = b, lines_tail_free = b + 1\<rparr>"
  define R where "R = {b ..< b + 4 + E}"
  have "set (b # fs @ [b + 1]) \<union> set ((b + 2) # [] @ [b + 2 + 1]) = R"
    unfolding R_def using h3(4) by auto
  then have s3: "set_ok h3 s E R []"
    unfolding set_ok_def s_def using h3(2-4) u3
    by (intro exI[of _ fs] exI[of _ "[]"]) auto
  have g3: "grows {} (4 + E) h h3"
  proof -
    have "grows {} 4 h h2" using grows_trans[OF h1(3) h2(3)] by simp
    then show ?thesis using h3(5) f2(2) unfolding grows_def by (auto simp: b_def add.assoc)
  qed
  then have f3: "fresh h3" "brk h3 = b + 4 + E" by (simp_all add: grows_def b_def)
  obtain sets h4 Rs where h4: "init_cache_set n E h3 = Some (sets, h4)" "length sets = n"
    "cache_ok h4 sets E Rs (\<lambda>i. [])" "\<Union> (set Rs) = {b + 4 + E ..< brk h4}" "grows {} (brk h4 - brk h3) h3 h4"
    using Suc.IH[OF f3(1)] unfolding f3(2) by blast
  have s4: "set_ok h4 s E R []"
    by (rule set_ok_same[OF s3]) (use h4(5) f3(2) in \<open>auto simp: grows_def R_def\<close>)
  have le: "b + 4 + E \<le> brk h4" using h4(5) f3(2) by (simp add: grows_def)
  have apart: "R \<inter> Rs ! i = {}" if "i < n" for i
  proof -
    have "Rs ! i \<subseteq> {b + 4 + E ..< brk h4}" using h4(2-4) that unfolding cache_ok_def by (metis Union_upper nth_mem)
    then show ?thesis by (auto simp: R_def)
  qed
  have "cache_ok h4 (s # sets) E (R # Rs) (\<lambda>i. [])"
    using h4(2,3) s4 apart unfolding cache_ok_def by (auto simp: nth_Cons' Int_commute)
  moreover have "\<Union> (set (R # Rs)) = {b ..< brk h4}" using h4(4) le by (auto simp: R_def)
  moreover have "grows {} (brk h4 - b) h h4"
    using grows_trans[OF g3 h4(5)] f3(2) le by (simp add: b_def)
  moreover have "init_cache_set (Suc n) E h = Some (s # sets, h4)"
    using h1(1) h2(1) h3(1) h4(1) by (simp add: s_def)
  ultimately show ?case using h4(2) unfolding b_def by (metis length_Cons)
qed

section \<open>Release of the heap\<close>

lemma free_set_ok:
  assumes "set_ok h s E R ts"
  obtains h1 where "free_cache_lines (Some (lines_head_free s)) h = Some h1"
    "free_cache_lines (Some (lines_head_in_use s)) h1 = Some (h\<lparr>cells := cells h |` (- R)\<rparr>)"
proof -
  obtain fs us where f: "dlist h (lines_head_free s) (lines_tail_free s) fs"
    "dlist h (lines_head_in_use s) (lines_tail_in_use s) us"
    "set (lines_head_free s # fs @ [lines_tail_free s])
         \<inter> set (lines_head_in_use s # us @ [lines_tail_in_use s]) = {}"
    "R = set (lines_head_free s # fs @ [lines_tail_free s])
         \<union> set (lines_head_in_use s # us @ [lines_tail_in_use s])"
    using assms unfolding set_ok_def by blast
  define F where "F = set (lines_head_free s # fs @ [lines_tail_free s])"
  define U where "U = set (lines_head_in_use s # us @ [lines_tail_in_use s])"
  define h1 where "h1 = h\<lparr>cells := cells h |` (- F)\<rparr>"
  have d1: "dlist h1 (lines_head_in_use s) (lines_tail_in_use s) us"
    by (rule dlist_same[OF f(2)]) (use f(3) in \<open>auto simp: h1_def F_def restrict_map_def\<close>)
  have "- F \<inter> - U = - R" unfolding f(4) F_def U_def by blast
  then have "cells h1 |` (- U) = cells h |` (- R)" by (simp add: h1_def)
  then have "free_cache_lines (Some (lines_head_in_use s)) h1 = Some (h\<lparr>cells := cells h |` (- R)\<rparr>)"
    using dlist_free[OF d1] by (simp add: h1_def U_def)
  moreover have "free_cache_lines (Some (lines_head_free s)) h = Some h1"
    using dlist_free[OF f(1)] by (simp add: h1_def F_def)
  ultimately show thesis using that by blast
qed

lemma free_cache_set_ok:
  "cache_ok h sets E Rs T \<Longrightarrow> free_cache_set sets h = Some (h\<lparr>cells := cells h |` (- \<Union> (set Rs))\<rparr>)"
proof (induction sets arbitrary: h Rs T)
  case Nil
  then show ?case by (simp add: cache_ok_def)
next
  case (Cons s sets)
  obtain R Rs' where Rs: "Rs = R # Rs'" using Cons.prems by (cases Rs) (auto simp: cache_ok_def)
  have len: "length Rs' = length sets" using Cons.prems Rs by (simp add: cache_ok_def)
  have s0: "set_ok h s E R (T 0)" using Cons.prems Rs unfolding cache_ok_def by fastforce
  have rest: "set_ok h (sets ! i) E (Rs' ! i) (T (Suc i))" "R \<inter> Rs' ! i = {}" if "i < length sets" for i
    using Cons.prems that unfolding Rs cache_ok_def by fastforce+
  have apart: "Rs' ! i \<inter> Rs' ! k = {}" if "i < length sets" "k < length sets" "i \<noteq> k" for i k
  proof -
    have "Suc i < length (s # sets)" "Suc k < length (s # sets)" "Suc i \<noteq> Suc k" using that by simp_all
    then have "Rs ! Suc i \<inter> Rs ! Suc k = {}" using Cons.prems unfolding cache_ok_def by blast
    then show ?thesis by (simp add: Rs)
  qed
  define h2 where "h2 = h\<lparr>cells := cells h |` (- R)\<rparr>"
  have "set_ok h2 (sets ! i) E (Rs' ! i) (T (Suc i))" if "i < length sets" for i
    by (rule set_ok_same[OF rest(1)[OF that]]) (use rest(2)[OF that] in \<open>auto simp: h2_def restrict_map_def\<close>)
  then have "cache_ok h2 sets E Rs' (\<lambda>i. T (Suc i))" using apart len by (simp add: cache_ok_def)
  then have "free_cache_set sets h2 = Some (h2\<lparr>cells := cells h2 |` (- \<Union> (set Rs'))\<rparr>)" by (rule Cons.IH)
  moreover obtain h1 where "free_cache_lines (Some (lines_head_free s)) h = Some h1"
    "free_cache_lines (Some (lines_head_in_use s)) h1 = Some h2"
    using free_set_ok[OF s0] unfolding h2_def by blast
  ultimately show ?case by (simp add: h2_def Rs)
qed

section \<open>Properties\<close>

definition no_counts :: lru_counts where
  "no_counts = \<lparr>hits = 0, misses = 0, evictions = 0\<rparr>"

text \<open>What fits into the counters: a line counts at most twice.\<close>

lemma lru_trace_bound:
  "hits (lru_trace a E R ts n) \<le> hits n + 2 * length ts \<and> misses (lru_trace a E R ts n) \<le> misses n + 2 * length ts
    \<and> evictions (lru_trace a E R ts n) \<le> evictions n + 2 * length ts"
proof (induction ts arbitrary: R n)
  case (Cons t ts)
  show ?case
  proof (cases "op t = CHR ''I''")
    case True
    then show ?thesis using Cons[of R n] by auto
  next
    case False
    define n1 where "n1 = lru_count E (extract_tag_bits a (addr t)) (take E (R (set_index a (addr t)))) n"
    define n2 where "n2 = (if op t = CHR ''M'' then n1\<lparr>hits := hits n1 + 1\<rparr> else n1)"
    define R' where "R' = R(set_index a (addr t) := recent (extract_tag_bits a (addr t)) (R (set_index a (addr t))))"
    have "hits n1 \<le> hits n + 1" "misses n1 \<le> misses n + 1" "evictions n1 \<le> evictions n + 1"
      by (simp_all add: n1_def lru_count_def)
    then have "hits n2 \<le> hits n + 2" "misses n2 \<le> misses n + 2" "evictions n2 \<le> evictions n + 2"
      by (simp_all add: n2_def)
    moreover have "lru_trace a E R (t # ts) n = lru_trace a E R' ts n2"
      using False by (simp add: Let_def n1_def n2_def R'_def)
    moreover note Cons[of R' n2]
    ultimately show ?thesis by simp
  qed
qed simp

lemma of_nat_counter: "n < 2 ^ 31 \<Longrightarrow> sint (of_nat n :: i32) = int n"
  using signed_take_bit_int_eq_self[of 31 "int n"] by (simp add: signed_of_nat)

lemma counters_fit:
  fixes a :: cache_args_t and E :: nat and R :: "nat \<Rightarrow> u64 list"
  assumes "length ts < 2 ^ 30"
  defines "n \<equiv> lru_trace a E R ts no_counts"
  shows "sint (hit (as_ints n)) = int (hits n)" "sint (miss (as_ints n)) = int (misses n)"
    "sint (eviction (as_ints n)) = int (evictions n)"
proof -
  have "hits n < 2 ^ 31" "misses n < 2 ^ 31" "evictions n < 2 ^ 31"
    using lru_trace_bound[of a E R ts no_counts] assms(1) by (simp_all add: n_def no_counts_def)
  then show "sint (hit (as_ints n)) = int (hits n)" "sint (miss (as_ints n)) = int (misses n)"
    "sint (eviction (as_ints n)) = int (evictions n)"
    by (simp_all only: as_ints_def cache_trace_result_t.simps of_nat_counter)
qed

lemma released_cells:
  assumes "fresh h" "A = {brk h ..< brk h1}" "grows {} (brk h1 - brk h) h h1" "frame A h1 h2"
  shows "cells h2 |` (- A) = cells h"
proof
  fix x
  show "(cells h2 |` (- A)) x = cells h x"
  proof (cases "x < brk h")
    case True
    then show ?thesis using assms(2-4) by (simp add: restrict_map_def frame_def grows_def)
  next
    case False
    then have "x \<notin> dom (cells h)" using assms(1) by (auto simp: fresh_def)
    moreover have "x \<in> dom (cells h2) \<Longrightarrow> x \<in> A"
      using frame_dom[OF assms(4)] assms(2,3) calculation False by (auto simp: grows_def)
    ultimately show ?thesis by (cases "cells h2 x") (auto simp: restrict_map_def domIff)
  qed
qed

lemma simulate:
  assumes "valid_args a" "0 < E" "fresh h"
  obtains sets h1 Rs out h2 T where "init_cache_set (2 ^ nat (bits_sets a)) E h = Some (sets, h1)"
    "\<Union> (set Rs) = {brk h ..< brk h1}" "grows {} (brk h1 - brk h) h h1"
    "cache_trace sets a ts h1 = Some (as_ints (lru_trace a E (\<lambda>i. []) ts no_counts), out, h2)"
    "cache_ok h2 sets E Rs T" "frame (\<Union> (set Rs)) h1 h2"
proof -
  obtain sets h1 Rs where i: "init_cache_set (2 ^ nat (bits_sets a)) E h = Some (sets, h1)"
    "length sets = 2 ^ nat (bits_sets a)" "cache_ok h1 sets E Rs (\<lambda>i. [])"
    "\<Union> (set Rs) = {brk h ..< brk h1}" "grows {} (brk h1 - brk h) h h1"
    using init_cache_set_ok[OF assms(3), of "2 ^ nat (bits_sets a)" E] by blast
  obtain h2 out T where "trace_loop a sets ts (as_ints no_counts, [], h1)
      = Some (as_ints (lru_trace a E (\<lambda>i. []) ts no_counts), out, h2)"
    "cache_ok h2 sets E Rs T" "frame (\<Union> (set Rs)) h1 h2"
    using trace_loop_ok[OF assms(1,2) i(2), of h1 Rs "\<lambda>i. []" ts no_counts "[]"] i(3) by auto
  then show thesis using that i by (simp add: cache_trace_def no_counts_def as_ints_def)
qed

text \<open>
  C31: The simulator implements the LRU policy: for every trace and every cache shape, the
  linked lists never lead to a NULL or dangling access, and the counters of hits, misses and
  evictions hold, up to the wrap-around of \<^verbatim>\<open>int\<close>, the numbers of the reference, in which an
  access hits when its tag is among the \<open>E\<close> most recently used tags of its set. For traces of
  less than \<open>2 ^ 30\<close> lines nothing wraps.
\<close>

theorem csim_refines_lru:
  assumes "valid_args a" "1 \<le> total_lines_per_set a" "fresh h"
  shows "\<exists>sets h1 r out h2.
      init_cache_set (2 ^ nat (bits_sets a)) (nat (total_lines_per_set a)) h = Some (sets, h1)
    \<and> cache_trace sets a ts h1 = Some (r, out, h2)
    \<and> (let n = lru_trace a (nat (total_lines_per_set a)) (\<lambda>i. []) ts no_counts in
        r = as_ints n \<and> (length ts < 2 ^ 30 \<longrightarrow>
          sint (hit r) = int (hits n) \<and> sint (miss r) = int (misses n) \<and> sint (eviction r) = int (evictions n)))"
proof -
  have E: "0 < nat (total_lines_per_set a)" using assms(2) by simp
  obtain sets h1 out h2 where
    "init_cache_set (2 ^ nat (bits_sets a)) (nat (total_lines_per_set a)) h = Some (sets, h1)"
    "cache_trace sets a ts h1
        = Some (as_ints (lru_trace a (nat (total_lines_per_set a)) (\<lambda>i. []) ts no_counts), out, h2)"
    by (rule simulate[OF assms(1) E assms(3), where ts = ts])
  then show ?thesis using counters_fit[of ts a "nat (total_lines_per_set a)" "\<lambda>i. []"] unfolding Let_def by blast
qed

text \<open>
  C32: A complete run prints the summary of the reference counts, writes them to the results
  file, and gives everything back: every line and sentinel, the array of the sets, the blocks
  of the result and of the arguments are freed, nothing is freed twice, and the trace file is
  closed. Of several \<^verbatim>\<open>-t\<close> options the files opened before the last one stay open.
\<close>

theorem csim_frees_all:
  fixes ts :: "trace_line list"
  assumes "cmd_parser opens opts default_args [] = Inr (a, out0)"
    and "valid_args a" "1 \<le> total_lines_per_set a" "trace_file a \<noteq> None"
    and "fresh (line_heap s)" "\<forall>p \<ge> next_block s. blocks s p = None"
  defines "n \<equiv> as_ints (lru_trace a (nat (total_lines_per_set a)) (\<lambda>i. []) ts no_counts)"
  shows "\<exists>log s'. csim_main opens True opts ts s
        = Some (0, out0 @ log @ fst (printSummary (hit n) (miss n) (eviction n)), s')
    \<and> cells (line_heap s') = cells (line_heap s) \<and> blocks s' = blocks s
    \<and> open_files s' = open_files s + files_opened opens opts - 1
    \<and> results_file s' = Some (snd (printSummary (hit n) (miss n) (eviction n)))"
proof -
  define E where "E = nat (total_lines_per_set a)"
  define h where "h = line_heap s"
  have "0 < E" using assms(3) by (simp add: E_def)
  then obtain sets h1 Rs out h2 T where r: "init_cache_set (2 ^ nat (bits_sets a)) E h = Some (sets, h1)"
    "\<Union> (set Rs) = {brk h ..< brk h1}" "grows {} (brk h1 - brk h) h h1"
    "cache_trace sets a ts h1 = Some (n, out, h2)"
    "cache_ok h2 sets E Rs T" "frame (\<Union> (set Rs)) h1 h2"
    using simulate[OF assms(2) _ assms(5)] unfolding n_def E_def h_def by blast
  define h3 where "h3 = h2\<lparr>cells := cells h2 |` (- \<Union> (set Rs))\<rparr>"
  have "cells h3 = cells h"
    using released_cells[OF assms(5)[folded h_def] r(2,3,6)] by (simp add: h3_def)
  moreover have b: "blocks s (next_block s) = None" "blocks s (Suc (next_block s)) = None"
    "blocks s (Suc (Suc (next_block s))) = None" using assms(6) by auto
  then have "(blocks s)(next_block s := None, Suc (next_block s) := None, Suc (Suc (next_block s)) := None) = blocks s"
    by auto
  ultimately show ?thesis
    using r(1,4) free_cache_set_ok[OF r(5)] assms(1,4) b
    by (auto simp: csim_main_def malloc_block_def free_block_def free_cache_args_def E_def[symmetric]
        h_def[symmetric] h3_def[symmetric] Let_def fun_upd_twist split: prod.splits)
qed

lemma lru_count_mono:
  assumes "0 < E" "E \<le> E'" "hits r \<le> hits r'" "misses r' \<le> misses r" "evictions r' \<le> evictions r"
    "hits r + misses r = hits r' + misses r'"
  shows "hits (lru_count E t (take E xs) r) \<le> hits (lru_count E' t (take E' xs) r')
    \<and> misses (lru_count E' t (take E' xs) r') \<le> misses (lru_count E t (take E xs) r)
    \<and> evictions (lru_count E' t (take E' xs) r') \<le> evictions (lru_count E t (take E xs) r)
    \<and> hits (lru_count E t (take E xs) r) + misses (lru_count E t (take E xs) r)
      = hits (lru_count E' t (take E' xs) r') + misses (lru_count E' t (take E' xs) r')"
proof -
  have "t \<in> set (take E xs) \<Longrightarrow> t \<in> set (take E' xs)"
    using set_take_subset_set_take[OF assms(2), of xs] by blast
  moreover have "\<not> length (take E' xs) < E' \<Longrightarrow> \<not> length (take E xs) < E"
    using assms(2) by auto
  ultimately show ?thesis using assms by (auto simp: lru_count_def simp del: length_take)
qed

lemma lru_trace_mono:
  "0 < E \<Longrightarrow> E \<le> E' \<Longrightarrow> hits r \<le> hits r' \<Longrightarrow> misses r' \<le> misses r \<Longrightarrow> evictions r' \<le> evictions r \<Longrightarrow>
    hits r + misses r = hits r' + misses r' \<Longrightarrow>
    hits (lru_trace a E R ts r) \<le> hits (lru_trace a E' R ts r')
    \<and> misses (lru_trace a E' R ts r') \<le> misses (lru_trace a E R ts r)
    \<and> evictions (lru_trace a E' R ts r') \<le> evictions (lru_trace a E R ts r)
    \<and> hits (lru_trace a E R ts r) + misses (lru_trace a E R ts r)
      = hits (lru_trace a E' R ts r') + misses (lru_trace a E' R ts r')"
proof (induction ts arbitrary: R r r')
  case (Cons t ts)
  show ?case
  proof (cases "op t = CHR ''I''")
    case True
    then show ?thesis using Cons by simp
  next
    case False
    define r1 where "r1 = lru_count E (extract_tag_bits a (addr t)) (take E (R (set_index a (addr t)))) r"
    define r1' where "r1' = lru_count E' (extract_tag_bits a (addr t)) (take E' (R (set_index a (addr t)))) r'"
    note m = lru_count_mono[OF Cons.prems, of "extract_tag_bits a (addr t)" "R (set_index a (addr t))",
        folded r1_def r1'_def]
    define R' where "R' = R(set_index a (addr t) := recent (extract_tag_bits a (addr t)) (R (set_index a (addr t))))"
    have eq: "lru_trace a E R (t # ts) r = lru_trace a E R' ts (if op t = CHR ''M'' then r1\<lparr>hits := hits r1 + 1\<rparr> else r1)"
      "lru_trace a E' R (t # ts) r' = lru_trace a E' R' ts (if op t = CHR ''M'' then r1'\<lparr>hits := hits r1' + 1\<rparr> else r1')"
      using False by (simp_all add: Let_def r1_def r1'_def R'_def)
    show ?thesis
    proof (cases "op t = CHR ''M''")
      case M: True
      define r2 where "r2 = r1\<lparr>hits := hits r1 + 1\<rparr>"
      define r2' where "r2' = r1'\<lparr>hits := hits r1' + 1\<rparr>"
      have "hits r2 \<le> hits r2'" "misses r2' \<le> misses r2" "evictions r2' \<le> evictions r2"
        "hits r2 + misses r2 = hits r2' + misses r2'" using m by (simp_all add: r2_def r2'_def)
      note IH = Cons.IH[OF Cons.prems(1,2) this]
      show ?thesis unfolding eq if_P[OF M] using IH unfolding r2_def r2'_def by blast
    next
      case noM: False
      have "hits r1 \<le> hits r1'" "misses r1' \<le> misses r1" "evictions r1' \<le> evictions r1"
        "hits r1 + misses r1 = hits r1' + misses r1'" using m by simp_all
      note IH = Cons.IH[OF Cons.prems(1,2) this]
      show ?thesis unfolding eq if_not_P[OF noM] using IH by blast
    qed
  qed
qed simp

text \<open>
  More lines per set never hurt: with the same sets and blocks, a cache with more lines
  has at least as many hits and at most as many misses and evictions on every trace, and
  the same number of accesses.
\<close>

lemma more_lines_never_hurt:
  fixes a :: cache_args_t and ts :: "trace_line list"
  assumes "1 \<le> E" "E \<le> E'"
  defines "n \<equiv> lru_trace a E (\<lambda>i. []) ts no_counts" and "n' \<equiv> lru_trace a E' (\<lambda>i. []) ts no_counts"
  shows "hits n \<le> hits n' \<and> misses n' \<le> misses n \<and> evictions n' \<le> evictions n
    \<and> hits n + misses n = hits n' + misses n'"
  using lru_trace_mono[of E E' no_counts no_counts a "\<lambda>i. []" ts] assms by simp

text \<open>
  Without \<^verbatim>\<open>-E\<close> a set has no line: the first data access takes the eviction branch
  with nothing to evict, unlinks the head sentinel and dereferences NULL.
\<close>

lemma no_lines_crash:
  assumes "valid_args a" "fresh h" "op t \<noteq> CHR ''I''"
    and "init_cache_set (2 ^ nat (bits_sets a)) 0 h = Some (sets, h1)"
  shows "cache_trace sets a (t # ts) h1 = None"
proof -
  define i where "i = set_index a (addr t)"
  obtain Rs where c: "length sets = 2 ^ nat (bits_sets a)" "cache_ok h1 sets 0 Rs (\<lambda>i. [])"
    using init_cache_set_ok[OF assms(2), of "2 ^ nat (bits_sets a)" 0] assms(4) by auto
  have i: "i < length sets" using set_index_less c(1) by (simp add: i_def)
  define s where "s = sets ! i"
  have "set_ok h1 s 0 (Rs ! i) []" using c(2) i by (simp add: cache_ok_def s_def)
  then have d: "dlist h1 (lines_head_free s) (lines_tail_free s) []"
    "dlist h1 (lines_head_in_use s) (lines_tail_in_use s) []" by (auto simp: set_ok_def)
  obtain l where l: "cells h1 (lines_tail_in_use s) = Some l"
    using dlist_mem[OF d(2), of "lines_tail_in_use s"] by auto
  obtain k where k: "cells h1 (lines_head_in_use s) = Some k"
    using dlist_mem[OF d(2), of "lines_head_in_use s"] by auto
  have pl: "prev l = Some (lines_head_in_use s)" "prev k = None"
    using cells_links[OF l] cells_links[OF k] dlist_ends(2)[OF d(2)] d(2) by (simp_all add: dlist_def)
  have "delete_cache_line (Some (lines_head_in_use s)) h1 = None"
    using k pl(2) by (simp add: delete_cache_line_def set_next_def write_line_def)
  then have "cache_access a s tb r out h1 = None" for tb r out
    using dlist_search[OF d(2)] dlist_empty[OF d(1)] l pl(1)
    by (simp add: cache_access_def reuse_line_def Let_def)
  then have "trace_step a sets t (r, out, h1) = None" for r out
    using assms(3) i extract_set_bits_eq[OF assms(1), of "addr t"]
    by (simp add: trace_step_def Let_def i_def[symmetric] s_def[symmetric])
  then show ?thesis by (simp add: cache_trace_def)
qed

section \<open>Witnesses\<close>

definition demo_args :: "int \<Rightarrow> cache_args_t" where
  "demo_args E = \<lparr>bits_sets = 4, total_lines_per_set = E, bits_blocks_per_line = 4,
     verbose_flag = False, trace_file = Some ''yi.trace''\<rparr>"

definition demo_heap :: heap where
  "demo_heap = \<lparr>cells = Map.empty, brk = 0, junk = (\<lambda>a. \<lparr>tag = 7, prev = Some a, next_line = Some a\<rparr>)\<rparr>"

text \<open>The trace \<^verbatim>\<open>yi.trace\<close> of the lab.\<close>

definition demo_trace :: "trace_line list" where
  "demo_trace = map (\<lambda>(c, x). \<lparr>op = c, addr = x, op_size = 1\<rparr>)
     [(CHR ''L'', 0x10), (CHR ''M'', 0x20), (CHR ''L'', 0x22), (CHR ''S'', 0x18),
      (CHR ''L'', 0x110), (CHR ''L'', 0x210), (CHR ''M'', 0x12)]"

lemma demo_ok: "valid_args (demo_args E)" "fresh demo_heap" "bits_sets (demo_args E) = 4"
  "total_lines_per_set (demo_args E) = E"
  by (simp_all add: valid_args_def demo_args_def fresh_def demo_heap_def)

lemma csim_demo_counts:
  "lru_trace (demo_args 1) 1 (\<lambda>i. []) demo_trace no_counts = \<lparr>hits = 4, misses = 5, evictions = 3\<rparr>"
  by code_simp

definition demo_opts :: "(char \<times> string) list" where
  "demo_opts = [(CHR ''s'', ''4''), (CHR ''E'', ''1''), (CHR ''b'', ''4''), (CHR ''t'', ''yi.trace'')]"

definition demo_process :: csim_process where
  "demo_process = \<lparr>line_heap = demo_heap, blocks = Map.empty, next_block = 0, open_files = 3, results_file = None\<rparr>"

lemma demo_opts_parsed: "cmd_parser (\<lambda>_. True) demo_opts default_args [] = Inr (demo_args 1, [])"
  "files_opened (\<lambda>_. True) demo_opts = 1"
  by code_simp+

theorem csim_refines_lru_witness:
  "\<exists>sets h1 r out h2. init_cache_set 16 1 demo_heap = Some (sets, h1)
    \<and> cache_trace sets (demo_args 1) demo_trace h1 = Some (r, out, h2)
    \<and> sint (hit r) = 4 \<and> sint (miss r) = 5 \<and> sint (eviction r) = 3"
proof -
  have "length demo_trace < 2 ^ 30" by (simp add: demo_trace_def)
  then show ?thesis
    using csim_refines_lru[of "demo_args 1" demo_heap demo_trace] demo_ok csim_demo_counts
    by (auto simp: Let_def)
qed

theorem csim_frees_all_witness:
  "\<exists>out s'. csim_main (\<lambda>_. True) True demo_opts demo_trace demo_process = Some (0, out, s')
    \<and> cells (line_heap s') = Map.empty \<and> blocks s' = Map.empty \<and> open_files s' = 3
    \<and> results_file s' = Some (''4 5 3'' @ [char_of (10 :: nat)])"
proof -
  have "snd (printSummary 4 5 3) = ''4 5 3'' @ [char_of (10 :: nat)]" by code_simp
  then show ?thesis
    using csim_frees_all[OF demo_opts_parsed(1) demo_ok(1), of demo_process demo_trace] demo_ok csim_demo_counts
      demo_opts_parsed(2)
    by (auto simp: demo_process_def as_ints_def) (auto simp: demo_args_def demo_heap_def)
qed

lemma no_lines_crash_witness:
  "\<exists>sets h1. init_cache_set 16 0 demo_heap = Some (sets, h1)
    \<and> cache_trace sets (demo_args 0) demo_trace h1 = None"
proof -
  obtain sets h1 where a: "init_cache_set 16 0 demo_heap = Some (sets, h1)"
    using init_cache_set_ok[OF demo_ok(2), of 16 0] by blast
  have "demo_trace = hd demo_trace # tl demo_trace" "op (hd demo_trace) \<noteq> CHR ''I''"
    by (simp_all add: demo_trace_def)
  then show ?thesis
    using no_lines_crash[OF demo_ok(1,2), of "hd demo_trace" 0 sets h1 "tl demo_trace"] a demo_ok(3) by auto
qed

end
