(* ===== verification/Transpose.thy ===== *)
theory Transpose
  imports Prelude
begin

text \<open>
  The matrix routines of the cache lab (\<^verbatim>\<open>C/CSAPPLab/cache/trans.c\<close>, \<^verbatim>\<open>cachelab.c\<close>). A matrix
  is a function of row and column; the two parameters \<open>A\<close> and \<open>B\<close> do not overlap, so a
  routine reads \<open>A\<close> and returns the new \<open>B\<close>.
\<close>

type_synonym matrix = "nat \<Rightarrow> nat \<Rightarrow> i32"

definition put_entry :: "nat \<Rightarrow> nat \<Rightarrow> i32 \<Rightarrow> matrix \<Rightarrow> matrix" where
  "put_entry i j v B = B(i := (B i)(j := v))"

text \<open>The two nested loops: \<open>j\<close> counts the columns left, \<open>i\<close> the rows left.\<close>

fun trans_row :: "matrix \<Rightarrow> nat \<Rightarrow> nat \<Rightarrow> nat \<Rightarrow> matrix \<Rightarrow> matrix" where
  "trans_row A i j 0 B = B"
| "trans_row A i j (Suc m) B = trans_row A i (Suc j) m (put_entry j i (A i j) B)"

fun trans_rows :: "matrix \<Rightarrow> nat \<Rightarrow> nat \<Rightarrow> nat \<Rightarrow> matrix \<Rightarrow> matrix" where
  "trans_rows A M i 0 B = B"
| "trans_rows A M i (Suc n) B = trans_rows A M (Suc i) n (trans_row A i 0 M B)"

definition trans :: "nat \<Rightarrow> nat \<Rightarrow> matrix \<Rightarrow> matrix \<Rightarrow> matrix" where
  "trans M N A B = trans_rows A M 0 N B"

definition correctTrans :: "nat \<Rightarrow> nat \<Rightarrow> matrix \<Rightarrow> matrix \<Rightarrow> matrix" where
  "correctTrans M N A B = trans_rows A M 0 N B"

definition transpose_submit :: "nat \<Rightarrow> nat \<Rightarrow> matrix \<Rightarrow> matrix \<Rightarrow> matrix" where
  "transpose_submit M N A B = B"

fun equal_row :: "matrix \<Rightarrow> matrix \<Rightarrow> nat \<Rightarrow> nat \<Rightarrow> nat \<Rightarrow> bool" where
  "equal_row A B i j 0 = True"
| "equal_row A B i j (Suc m) = (if A i j \<noteq> B j i then False else equal_row A B i (Suc j) m)"

fun equal_rows :: "matrix \<Rightarrow> matrix \<Rightarrow> nat \<Rightarrow> nat \<Rightarrow> nat \<Rightarrow> bool" where
  "equal_rows A B M i 0 = True"
| "equal_rows A B M i (Suc n) = (if equal_row A B i 0 M then equal_rows A B M (Suc i) n else False)"

definition is_transpose :: "nat \<Rightarrow> nat \<Rightarrow> matrix \<Rightarrow> matrix \<Rightarrow> bool" where
  "is_transpose M N A B = equal_rows A B M 0 N"

lemma trans_row_eq: "trans_row A i j m B =
    (\<lambda>x y. if y = i \<and> j \<le> x \<and> x < j + m then A i x else B x y)"
  by (induction m arbitrary: j B) (auto simp: put_entry_def fun_eq_iff)

lemma trans_rows_eq: "trans_rows A M i n B =
    (\<lambda>x y. if x < M \<and> i \<le> y \<and> y < i + n then A y x else B x y)"
  by (induction n arbitrary: i B) (auto simp: trans_row_eq fun_eq_iff)

lemma interval_step: "j \<le> x \<and> x < j + Suc m \<longleftrightarrow> x = j \<or> (Suc j \<le> x \<and> x < Suc j + m)" for j x m :: nat
  by auto

lemma equal_row_iff: "equal_row A B i j m \<longleftrightarrow> (\<forall>x. j \<le> x \<and> x < j + m \<longrightarrow> A i x = B x i)"
proof (induction m arbitrary: j)
  case (Suc m)
  show ?case unfolding interval_step equal_row.simps Suc by auto
qed auto

lemma equal_rows_iff:
  "equal_rows A B M i n \<longleftrightarrow> (\<forall>y. i \<le> y \<and> y < i + n \<longrightarrow> (\<forall>x < M. A y x = B x y))"
proof (induction n arbitrary: i)
  case (Suc n)
  show ?case unfolding interval_step equal_rows.simps Suc equal_row_iff by auto
qed auto

text \<open>
  The baseline routines write exactly the transpose: every entry of the \<open>M\<close> by \<open>N\<close> area of
  \<open>B\<close> is the mirrored entry of \<open>A\<close>, nothing outside is written, and \<open>is_transpose\<close> accepts a
  matrix precisely when it agrees with the result on that area. The submitted routine
  writes nothing and is accepted only when \<open>B\<close> held the transpose before.
\<close>

theorem trans_correct:
  "trans M N A B = (\<lambda>x y. if x < M \<and> y < N then A y x else B x y)
    \<and> is_transpose M N A (trans M N A B)
    \<and> is_transpose M N A (correctTrans M N A B)
    \<and> (is_transpose M N A C \<longleftrightarrow> (\<forall>x y. x < M \<longrightarrow> y < N \<longrightarrow> C x y = trans M N A B x y))
    \<and> (is_transpose M N A (transpose_submit M N A B) \<longleftrightarrow> trans M N A B = B)"
  unfolding trans_def correctTrans_def transpose_submit_def is_transpose_def
    trans_rows_eq equal_rows_iff
  by (auto simp: fun_eq_iff)

text \<open>On a 2 by 2 matrix the unfinished submission is refused.\<close>

theorem trans_correct_witness:
  "is_transpose 2 2 (\<lambda>i j. of_nat (2 * i + j)) (trans 2 2 (\<lambda>i j. of_nat (2 * i + j)) (\<lambda>_ _. 0))
   \<and> \<not> is_transpose 2 2 (\<lambda>i j. of_nat (2 * i + j)) (transpose_submit 2 2 (\<lambda>i j. of_nat (2 * i + j)) (\<lambda>_ _. 0))"
proof -
  have "\<not> is_transpose 2 2 (\<lambda>i j. of_nat (2 * i + j)) (\<lambda>_ _. 0)"
    by (simp add: is_transpose_def numeral_2_eq_2)
  then show ?thesis
    using trans_correct[of 2 2 "\<lambda>i j. of_nat (2 * i + j)" "\<lambda>_ _. 0"] by (simp add: transpose_submit_def)
qed

end
