(* ===== verification/Sort.thy ===== *)
theory Sort
  imports Prelude "HOL-Library.Multiset" "HOL-Library.Monad_Syntax"
begin

text \<open>
  The generic sorting routines of \<^verbatim>\<open>Algorithm/Sort/sort.h\<close> and the comparison of \<^verbatim>\<open>sort.c\<close>.

  An array is the list of its elements; \<^verbatim>\<open>_ARRAY_ELE_ADDR(arr, i, size)\<close> is position \<open>i\<close>. Reading or
  writing outside the list (undefined in C) and a failed \<^verbatim>\<open>assert\<close> give \<open>None\<close>. A \<^verbatim>\<open>size_t\<close> is a natural
  number below \<open>2 ^ 64\<close>; \<open>sub64\<close> and \<open>add64\<close> are its wrapping subtraction and addition, written where the operands can make it
  wrap. The debug output is left out. \<^verbatim>\<open>heap_sort\<close> passes \<^verbatim>\<open>sizeof(int)\<close> to \<^verbatim>\<open>_build_heap\<close>, so from there
  on the model is of arrays of \<^verbatim>\<open>int\<close>-sized elements.
\<close>

section \<open>Arrays and comparison\<close>

type_synonym 'a cmp_func_t = "'a \<Rightarrow> 'a \<Rightarrow> int"

definition get :: "'a list \<Rightarrow> nat \<Rightarrow> 'a option" where
  "get arr i = (if i < length arr then Some (arr ! i) else None)"

definition set_ele :: "'a list \<Rightarrow> nat \<Rightarrow> 'a \<Rightarrow> 'a list option" where
  "set_ele arr i v = (if i < length arr then Some (arr[i := v]) else None)"

definition sub64 :: "nat \<Rightarrow> nat \<Rightarrow> nat" where
  "sub64 a b = nat ((int a - int b) mod 2 ^ 64)"

definition add64 :: "nat \<Rightarrow> nat \<Rightarrow> nat" where
  "add64 a b = nat ((int a + int b) mod 2 ^ 64)"

definition assertion :: "bool \<Rightarrow> unit option" where
  "assertion b = (if b then Some () else None)"

text \<open>The comparison of the test program: \<^verbatim>\<open>*a2 - *a1\<close> on \<^verbatim>\<open>int\<close>.\<close>

definition int_cmp :: "i32 cmp_func_t" where
  "int_cmp a1 a2 = sint (a2 - a1)"

section \<open>Insertion sort\<close>

fun right_shift :: "'a list \<Rightarrow> nat \<Rightarrow> 'a list option" where
  "right_shift arr 0 = Some arr"
| "right_shift arr (Suc from) = do {
     v \<leftarrow> get arr from;
     arr \<leftarrow> set_ele arr (Suc from) v;
     right_shift arr from }"

text \<open>
  The code moves the elements byte by byte: \<open>right_shift_bytes\<close> works on the bytes of the array
  and \<open>right_shift\<close> above is its effect on elements.
\<close>

fun move_up :: "'b list \<Rightarrow> nat \<Rightarrow> nat \<Rightarrow> 'b list option" where
  "move_up bytes sz 0 = Some bytes"
| "move_up bytes sz (Suc from) = do {
     v \<leftarrow> get bytes from;
     bytes \<leftarrow> set_ele bytes (from + sz) v;
     move_up bytes sz from }"

definition right_shift_bytes :: "'b list \<Rightarrow> nat \<Rightarrow> nat \<Rightarrow> 'b list option" where
  "right_shift_bytes bytes nmemb sz = move_up bytes sz (nmemb * sz)"

text \<open>
  The loop of the unguarded insertion; the number is the position of \<^verbatim>\<open>iter\<close> plus one, so 0 is an
  \<^verbatim>\<open>iter\<close> that has left the array.
\<close>

fun ungarded_loop :: "'a cmp_func_t \<Rightarrow> 'a list \<Rightarrow> 'a \<Rightarrow> nat \<Rightarrow> 'a list option" where
  "ungarded_loop cmp arr ins_ele 0 = None"
| "ungarded_loop cmp arr ins_ele (Suc iter) = do {
     v \<leftarrow> get arr iter;
     if cmp v ins_ele \<ge> 0 then set_ele arr (Suc iter) ins_ele
     else do {
       arr \<leftarrow> set_ele arr (Suc iter) v;
       ungarded_loop cmp arr ins_ele iter } }"

definition ungarded_insert_sorted_arr :: "'a cmp_func_t \<Rightarrow> 'a list \<Rightarrow> nat \<Rightarrow> 'a list option" where
  "ungarded_insert_sorted_arr cmp arr ins_idx = do {
     first \<leftarrow> get arr 0;
     ins_ele \<leftarrow> get arr ins_idx;
     assertion (cmp first ins_ele \<ge> 0);
     ungarded_loop cmp arr ins_ele ins_idx }"

definition insert_sorted_arr :: "'a cmp_func_t \<Rightarrow> 'a list \<Rightarrow> nat \<Rightarrow> 'a list option" where
  "insert_sorted_arr cmp arr ins_idx = do {
     first \<leftarrow> get arr 0;
     ins_ele \<leftarrow> get arr ins_idx;
     if cmp first ins_ele < 0 then do {
       arr \<leftarrow> right_shift arr ins_idx;
       set_ele arr 0 ins_ele }
     else ungarded_insert_sorted_arr cmp arr ins_idx }"

function insertion_loop :: "'a cmp_func_t \<Rightarrow> 'a list \<Rightarrow> nat \<Rightarrow> nat \<Rightarrow> 'a list option" where
  "insertion_loop cmp arr nmemb i =
     (if i < nmemb then do {
        arr \<leftarrow> insert_sorted_arr cmp arr i;
        insertion_loop cmp arr nmemb (i + 1) }
      else Some arr)"
  by auto
termination by (relation "measure (\<lambda>(_, _, nmemb, i). nmemb - i)") auto

definition insertion_sort :: "'a cmp_func_t \<Rightarrow> 'a list \<Rightarrow> nat \<Rightarrow> 'a list option" where
  "insertion_sort cmp arr nmemb = insertion_loop cmp arr nmemb 1"

section \<open>Quicksort\<close>

definition qsort_medianOf3 :: "'a cmp_func_t \<Rightarrow> 'a list \<Rightarrow> nat \<Rightarrow> nat \<Rightarrow> nat \<Rightarrow> nat option" where
  "qsort_medianOf3 cmp arr lo mid hi = do {
     l \<leftarrow> get arr lo; m \<leftarrow> get arr mid; h \<leftarrow> get arr hi;
     Some (if cmp l m \<ge> 0 then
             (if cmp m h \<ge> 0 then mid else if cmp l h \<ge> 0 then hi else lo)
           else
             (if cmp m h \<le> 0 then mid else if cmp l h \<ge> 0 then lo else hi)) }"

definition swap_ele :: "'a list \<Rightarrow> nat \<Rightarrow> nat \<Rightarrow> 'a list option" where
  "swap_ele arr e1 e2 = do {
     tmp_ele \<leftarrow> get arr e1;
     v \<leftarrow> get arr e2;
     arr \<leftarrow> set_ele arr e1 v;
     set_ele arr e2 tmp_ele }"

partial_function (option) partition_loop ::
  "'a cmp_func_t \<Rightarrow> 'a list \<Rightarrow> nat \<Rightarrow> nat \<Rightarrow> nat \<Rightarrow> ('a list \<times> nat \<times> nat) option" where
  [code]: "partition_loop cmp arr lt eq gt =
     (if eq \<le> gt then
        Option.bind (get arr eq) (\<lambda>a. Option.bind (get arr lt) (\<lambda>p.
          if cmp a p = 0 then partition_loop cmp arr lt (eq + 1) gt
          else if cmp a p < 0 then
            Option.bind (swap_ele arr eq gt) (\<lambda>arr. partition_loop cmp arr lt eq (sub64 gt 1))
          else Option.bind (swap_ele arr lt eq) (\<lambda>arr. partition_loop cmp arr (lt + 1) (eq + 1) gt)))
      else Some (arr, lt, gt))"

definition qsort_3_way_partition ::
  "'a cmp_func_t \<Rightarrow> 'a list \<Rightarrow> nat \<Rightarrow> nat \<Rightarrow> ('a list \<times> nat \<times> nat) option" where
  "qsort_3_way_partition cmp arr lo hi = do {
     pivot \<leftarrow> qsort_medianOf3 cmp arr lo (lo + (hi - lo) div 2) hi;
     arr \<leftarrow> swap_ele arr pivot lo;
     partition_loop cmp arr lo (lo + 1) hi }"

partial_function (option) quick_sort_range ::
  "'a cmp_func_t \<Rightarrow> 'a list \<Rightarrow> nat \<Rightarrow> nat \<Rightarrow> 'a list option" where
  [code]: "quick_sort_range cmp arr lo hi =
     (if hi \<le> lo then Some arr
      else Option.bind (qsort_3_way_partition cmp arr lo hi) (\<lambda>(arr, less, greater).
        Option.bind (if less > 0 then quick_sort_range cmp arr lo (less - 1) else Some arr) (\<lambda>arr.
          quick_sort_range cmp arr (greater + 1) hi)))"

definition quick_sort :: "'a cmp_func_t \<Rightarrow> 'a list \<Rightarrow> nat \<Rightarrow> 'a list option" where
  "quick_sort cmp arr nmemb = quick_sort_range cmp arr 0 (sub64 nmemb 1)"

section \<open>Heap sort\<close>

definition greater_child :: "'a cmp_func_t \<Rightarrow> 'a list \<Rightarrow> nat \<Rightarrow> nat \<Rightarrow> nat option" where
  "greater_child cmp arr nmemb root =
     (if 2 * root + 1 < nmemb - 1 then do {
        l \<leftarrow> get arr (2 * root + 1);
        r \<leftarrow> get arr (2 * root + 1 + 1);
        Some (if cmp l r > 0 then 2 * root + 1 + 1 else 2 * root + 1) }
      else Some (2 * root + 1))"

lemma greater_child_below: "greater_child cmp arr nmemb root = Some c \<Longrightarrow> root < c"
  by (auto simp: greater_child_def bind_eq_Some_conv split: if_splits)

function sink_loop :: "'a cmp_func_t \<Rightarrow> 'a list \<Rightarrow> nat \<Rightarrow> 'a \<Rightarrow> nat \<Rightarrow> ('a list \<times> nat) option" where
  "sink_loop cmp arr nmemb ele root =
     (if 2 * root + 1 < nmemb then do {
        greater_chil \<leftarrow> greater_child cmp arr nmemb root;
        v \<leftarrow> get arr greater_chil;
        if cmp ele v < 0 then Some (arr, root)
        else do {
          arr \<leftarrow> set_ele arr root v;
          sink_loop cmp arr nmemb ele greater_chil } }
      else Some (arr, root))"
  by auto
termination
  by (relation "measure (\<lambda>(_, _, nmemb, _, root). nmemb - root)")
    (auto dest!: greater_child_below)

definition sink_with_ele :: "'a cmp_func_t \<Rightarrow> 'a list \<Rightarrow> nat \<Rightarrow> 'a \<Rightarrow> nat \<Rightarrow> 'a list option" where
  "sink_with_ele cmp arr nmemb ele root = do {
     (arr, root) \<leftarrow> sink_loop cmp arr nmemb ele root;
     set_ele arr root ele }"

definition sink :: "'a cmp_func_t \<Rightarrow> 'a list \<Rightarrow> nat \<Rightarrow> nat \<Rightarrow> 'a list option" where
  "sink cmp arr nmemb root = do {
     ele \<leftarrow> get arr root;
     sink_with_ele cmp arr nmemb ele root }"

fun build_loop :: "'a cmp_func_t \<Rightarrow> 'a list \<Rightarrow> nat \<Rightarrow> nat \<Rightarrow> 'a list option" where
  "build_loop cmp arr nmemb 0 = sink cmp arr nmemb 0"
| "build_loop cmp arr nmemb (Suc k) = do {
     arr \<leftarrow> sink cmp arr nmemb (Suc k);
     build_loop cmp arr nmemb k }"

definition build_heap :: "'a cmp_func_t \<Rightarrow> 'a list \<Rightarrow> nat \<Rightarrow> 'a list option" where
  "build_heap cmp arr nmemb =
     (if nmemb = 1 then Some arr else build_loop cmp arr nmemb (sub64 (sub64 nmemb 1) 1 div 2))"

fun heap_loop :: "'a cmp_func_t \<Rightarrow> 'a list \<Rightarrow> nat \<Rightarrow> 'a list option" where
  "heap_loop cmp arr (Suc (Suc n)) = do {
     ele \<leftarrow> get arr (Suc n);
     root \<leftarrow> get arr 0;
     arr \<leftarrow> set_ele arr (Suc n) root;
     arr \<leftarrow> sink_with_ele cmp arr (Suc n) ele 0;
     heap_loop cmp arr (Suc n) }"
| "heap_loop cmp arr nmemb = Some arr"

text \<open>The heap is built over the first 11 elements, whatever the number of elements is.\<close>

definition heap_sort :: "'a cmp_func_t \<Rightarrow> 'a list \<Rightarrow> nat \<Rightarrow> 'a list option" where
  "heap_sort cmp arr nmemb = do {
     arr \<leftarrow> build_heap cmp arr 11;
     heap_loop cmp arr nmemb }"

section \<open>Introsort\<close>

definition INTRO_LEN_THRESHOLD :: nat where "INTRO_LEN_THRESHOLD = 16"

fun lg_loop :: "nat \<Rightarrow> nat \<Rightarrow> nat" where
  "lg_loop n k = (if n > 1 then lg_loop (n div 2) (k + 1) else k)"

definition lg :: "nat \<Rightarrow> nat" where "lg n = lg_loop n 0"

definition DEPTH_LIMIT :: "nat \<Rightarrow> nat" where "DEPTH_LIMIT k = lg k * 2"

text \<open>Sorting from \<^verbatim>\<open>arr + size*lo\<close> on works on the rest of the array from position \<open>lo\<close>.\<close>

definition heap_sort_from :: "'a cmp_func_t \<Rightarrow> 'a list \<Rightarrow> nat \<Rightarrow> nat \<Rightarrow> 'a list option" where
  "heap_sort_from cmp arr lo nmemb = do {
     part \<leftarrow> heap_sort cmp (drop lo arr) nmemb;
     Some (take lo arr @ part) }"

partial_function (option) intro_qsort ::
  "'a cmp_func_t \<Rightarrow> 'a list \<Rightarrow> nat \<Rightarrow> nat \<Rightarrow> nat \<Rightarrow> 'a list option" where
  [code]: "intro_qsort cmp arr lo hi recur_depth =
     (if add64 (sub64 hi lo) 1 \<le> INTRO_LEN_THRESHOLD then Some arr
      else if recur_depth = 0 then heap_sort_from cmp arr lo (add64 (sub64 hi lo) 1)
      else Option.bind (qsort_3_way_partition cmp arr lo hi) (\<lambda>(arr, less, greater).
        Option.bind (if less > 0 then intro_qsort cmp arr lo (less - 1) (recur_depth - 1) else Some arr) (\<lambda>arr.
          intro_qsort cmp arr (greater + 1) hi (recur_depth - 1))))"

function intro_insert_loop :: "'a cmp_func_t \<Rightarrow> 'a list \<Rightarrow> nat \<Rightarrow> nat \<Rightarrow> 'a list option" where
  "intro_insert_loop cmp arr nmemb i =
     (if i < nmemb then do {
        arr \<leftarrow> ungarded_insert_sorted_arr cmp arr i;
        intro_insert_loop cmp arr nmemb (i + 1) }
      else Some arr)"
  by auto
termination by (relation "measure (\<lambda>(_, _, nmemb, i). nmemb - i)") auto

definition intro_insert_sort :: "'a cmp_func_t \<Rightarrow> 'a list \<Rightarrow> nat \<Rightarrow> 'a list option" where
  "intro_insert_sort cmp arr nmemb =
     (if nmemb > INTRO_LEN_THRESHOLD then do {
        arr \<leftarrow> insertion_sort cmp arr INTRO_LEN_THRESHOLD;
        intro_insert_loop cmp arr nmemb INTRO_LEN_THRESHOLD }
      else insertion_sort cmp arr nmemb)"

definition intro_sort :: "'a cmp_func_t \<Rightarrow> 'a list \<Rightarrow> nat \<Rightarrow> 'a list option" where
  "intro_sort cmp arr nmemb =
     (if nmemb = 1 then Some arr
      else do {
        arr \<leftarrow> intro_qsort cmp arr 0 (sub64 nmemb 1) (DEPTH_LIMIT nmemb);
        intro_insert_sort cmp arr nmemb })"

declare insertion_loop.simps [simp del] sink_loop.simps [simp del] lg_loop.simps [simp del]
  intro_insert_loop.simps [simp del]

end
