(* ===== verification/Sort_Quick.thy ===== *)
theory Sort_Quick
  imports Sort
begin

text \<open>
  Comparisons (the locale \<open>comparator\<close>, interpreted on the comparison of the test program), insertion
  sort and quicksort. Insertion works on the sorted front of the array; the partition is a loop
  invariant (\<open>parting\<close>), and \<open>rearranged\<close> says that a step permutes one range and nothing else.
\<close>

section \<open>Comparison functions\<close>

text \<open>What the routines need of a comparison on the elements that occur.\<close>

locale comparator =
  fixes cmp :: "'a cmp_func_t" and S :: "'a set"
  assumes cmp_swap: "\<lbrakk>x \<in> S; y \<in> S\<rbrakk> \<Longrightarrow> cmp x y < 0 \<longleftrightarrow> 0 < cmp y x"
    and cmp_trans: "\<lbrakk>x \<in> S; y \<in> S; z \<in> S; 0 \<le> cmp x y; 0 \<le> cmp y z\<rbrakk> \<Longrightarrow> 0 \<le> cmp x z"

definition ascending :: "'a cmp_func_t \<Rightarrow> 'a list \<Rightarrow> bool" where
  "ascending cmp = sorted_wrt (\<lambda>x y. 0 \<le> cmp x y)"

lemma get_simps [simp]: "i < length arr \<Longrightarrow> get arr i = Some (arr ! i)"
  "\<not> i < length arr \<Longrightarrow> get arr i = None"
  by (simp_all add: get_def)

lemma set_ele_simps [simp]: "i < length arr \<Longrightarrow> set_ele arr i v = Some (arr[i := v])"
  "\<not> i < length arr \<Longrightarrow> set_ele arr i v = None"
  by (simp_all add: set_ele_def)

lemma get_append [simp]: "get (xs @ x # ys) (length xs) = Some x"
  by (simp add: get_def)

lemma assertion_simps [simp]: "assertion True = Some ()" "assertion False = None"
  by (simp_all add: assertion_def)

context comparator
begin

lemma cmp_refl: "x \<in> S \<Longrightarrow> cmp x x = 0"
  using cmp_swap[of x x] by linarith

lemma cmp_total: "x \<in> S \<Longrightarrow> y \<in> S \<Longrightarrow> \<not> 0 \<le> cmp x y \<Longrightarrow> 0 \<le> cmp y x"
  using cmp_swap by fastforce

end

text \<open>On numbers of at most 31 bits the test program's comparison cannot overflow.\<close>

definition small_int :: "i32 \<Rightarrow> bool" where
  "small_int x \<longleftrightarrow> - (2 ^ 30) \<le> sint x \<and> sint x < 2 ^ 30"

lemma int_cmp_small: "small_int x \<Longrightarrow> small_int y \<Longrightarrow> int_cmp x y = sint y - sint x"
proof -
  assume s: "small_int x" "small_int y"
  have "sint (y - x) = signed_take_bit 31 (sint y - sint x)"
    by (simp add: sint_word_ariths)
  also have "\<dots> = sint y - sint x"
    by (rule signed_take_bit_int_eq_self) (use s in \<open>auto simp: small_int_def\<close>)
  finally show ?thesis by (simp add: int_cmp_def)
qed

interpretation small_ints: comparator int_cmp "Collect small_int"
  by unfold_locales (auto simp: int_cmp_small)

section \<open>Insertion sort\<close>

fun insert_ele :: "'a cmp_func_t \<Rightarrow> 'a \<Rightarrow> 'a list \<Rightarrow> 'a list" where
  "insert_ele cmp v [] = [v]"
| "insert_ele cmp v (y # ys) = (if cmp y v < 0 then v # y # ys else y # insert_ele cmp v ys)"

lemma right_shift_eq:
  "right_shift (ys @ w # zs) (length ys) = Some ((case ys of [] \<Rightarrow> w | y # _ \<Rightarrow> y) # ys @ zs)"
proof (induction ys arbitrary: w zs rule: rev_induct)
  case (snoc y ys)
  have "right_shift ((ys @ [y]) @ w # zs) (length (ys @ [y])) = right_shift (ys @ y # y # zs) (length ys)"
    by (simp add: nth_append list_update_append)
  then show ?case using snoc by (cases ys) simp_all
qed simp

text \<open>Moving bytes up by the size of an element moves the elements up by one place.\<close>

lemma move_up_ok:
  assumes "0 < sz" "n + sz \<le> length bs"
  shows "\<exists>res. move_up bs sz n = Some res \<and> length res = length bs \<and>
    (\<forall>k. res ! k = (if sz \<le> k \<and> k < n + sz then bs ! (k - sz) else bs ! k))"
  using assms(2)
proof (induction n arbitrary: bs)
  case (Suc n)
  define bs' where "bs' = bs[n + sz := bs ! n]"
  have "move_up bs sz (Suc n) = move_up bs' sz n" using Suc.prems by (simp add: bs'_def)
  moreover obtain res where "move_up bs' sz n = Some res" "length res = length bs"
    "\<forall>k. res ! k = (if sz \<le> k \<and> k < n + sz then bs' ! (k - sz) else bs' ! k)"
    using Suc.IH[of bs'] Suc.prems by (auto simp: bs'_def)
  moreover have "bs' ! (k - sz) = bs ! (k - sz)" if "sz \<le> k" "k < n + sz" for k
    using that assms(1) by (auto simp: bs'_def)
  moreover have "bs' ! k = (if k = n + sz then bs ! (k - sz) else bs ! k)" for k
    using Suc.prems by (auto simp: bs'_def)
  ultimately show ?case by auto
qed auto

definition element :: "'b list \<Rightarrow> nat \<Rightarrow> nat \<Rightarrow> 'b list" where
  "element bytes sz i = take sz (drop (i * sz) bytes)"

lemma right_shift_bytes_ok:
  assumes "0 < sz" "length bytes = cnt * sz" "n < cnt"
  shows "\<exists>res. right_shift_bytes bytes n sz = Some res \<and> length res = length bytes \<and>
    (\<forall>i < cnt. element res sz i = element bytes sz (if 1 \<le> i \<and> i \<le> n then i - 1 else i))"
proof -
  have up: "(j + 1) * sz \<le> length bytes" if "j < cnt" for j
    using that assms(2) by (metis Suc_eq_plus1 Suc_leI mult_le_mono1)
  obtain res where r: "move_up bytes sz (n * sz) = Some res" "length res = length bytes"
    "\<And>k. res ! k = (if sz \<le> k \<and> k < n * sz + sz then bytes ! (k - sz) else bytes ! k)"
    using move_up_ok[OF assms(1), of "n * sz" bytes] up[OF assms(3)] by auto
  have "element res sz i = element bytes sz (if 1 \<le> i \<and> i \<le> n then i - 1 else i)" if i: "i < cnt" for i
  proof (rule nth_equalityI)
    have l: "i * sz + sz \<le> length bytes" using up[OF i] by simp
    show "length (element res sz i) = length (element bytes sz (if 1 \<le> i \<and> i \<le> n then i - 1 else i))"
      using l r(2) by (cases i) (auto simp: element_def)
    show "element res sz i ! k = element bytes sz (if 1 \<le> i \<and> i \<le> n then i - 1 else i) ! k"
      if "k < length (element res sz i)" for k
    proof -
      have k: "k < sz" using that by (simp add: element_def)
      have e: "element res sz i ! k = res ! (i * sz + k)" using k l r(2) by (simp add: element_def)
      consider "i = 0" | j where "i = Suc j" "i \<le> n" | "n < i" by (metis not_less old.nat.exhaust)
      then show ?thesis
      proof cases
        case 1
        then show ?thesis using e k l r(3)[of k] by (simp add: element_def)
      next
        case 2
        have "j * sz + k < n * sz"
          using 2 k by (metis Suc_leI Suc_le_lessD add_less_cancel_left le_less_trans less_le_trans mult_Suc mult_le_mono1 add.commute)
        then have "res ! (i * sz + k) = bytes ! (j * sz + k)"
          using 2 r(3)[of "i * sz + k"] by simp
        then show ?thesis using e 2 k l by (simp add: element_def)
      next
        case 3
        then have "n * sz + sz \<le> i * sz" by (metis Suc_leI add.commute mult_Suc mult_le_mono1)
        then show ?thesis using e k l 3 r(3)[of "i * sz + k"] by (simp add: element_def)
      qed
    qed
  qed
  then show ?thesis using r(1,2) by (simp add: right_shift_bytes_def)
qed

text \<open>The loop puts the element behind the last one that is not greater.\<close>

lemma ungarded_loop_eq:
  assumes "as \<noteq> [] \<longrightarrow> 0 \<le> cmp (last as) v" "\<forall>b\<in>set bs. cmp b v < 0"
  shows "ungarded_loop cmp (as @ bs @ w # zs) v (length as + length bs) =
    (if as = [] then None else Some (as @ v # bs @ zs))"
  using assms(2)
proof (induction bs arbitrary: w zs rule: rev_induct)
  case Nil
  show ?case
  proof (cases as rule: rev_cases)
    case (snoc cs c)
    then show ?thesis using assms(1) by (simp add: nth_append list_update_append)
  qed simp
next
  case (snoc b bs)
  have "ungarded_loop cmp (as @ (bs @ [b]) @ w # zs) v (length as + length (bs @ [b]))
      = ungarded_loop cmp (as @ bs @ b # b # zs) v (length as + length bs)"
    using snoc.prems by (simp add: nth_append list_update_append)
  then show ?case using snoc by simp
qed

context comparator
begin

lemma insert_ele_split:
  assumes "ascending cmp ys" "set ys \<subseteq> S" "v \<in> S"
  obtains as bs where "ys = as @ bs" "insert_ele cmp v ys = as @ v # bs" "\<forall>a\<in>set as. 0 \<le> cmp a v"
    "\<forall>b\<in>set bs. cmp b v < 0"
  using assms
proof (induction ys arbitrary: thesis)
  case Nil
  show ?case by (rule Nil(1)[of "[]" "[]"]) auto
next
  case (Cons y ys)
  show ?case
  proof (cases "cmp y v < 0")
    case True
    have "cmp b v < 0" if "b \<in> set ys" for b
    proof (rule ccontr)
      assume "\<not> cmp b v < 0"
      then have "0 \<le> cmp y v"
        using Cons.prems that cmp_trans[of y b v] by (auto simp: ascending_def)
      then show False using True by simp
    qed
    then show ?thesis using True Cons.prems(1)[of "[]" "y # ys"] by simp
  next
    case False
    have y: "ascending cmp ys" "set ys \<subseteq> S" using Cons.prems by (auto simp: ascending_def)
    obtain as bs where "ys = as @ bs" "insert_ele cmp v ys = as @ v # bs" "\<forall>a\<in>set as. 0 \<le> cmp a v"
      "\<forall>b\<in>set bs. cmp b v < 0"
      using Cons.IH[OF _ y Cons.prems(4)] by blast
    then show ?thesis using False Cons.prems(1)[of "y # as" bs] by simp
  qed
qed

lemma insert_ele_ascending:
  assumes "ascending cmp ys" "set ys \<subseteq> S" "v \<in> S"
  shows "ascending cmp (insert_ele cmp v ys)"
proof -
  obtain as bs where s: "ys = as @ bs" "insert_ele cmp v ys = as @ v # bs" "\<forall>a\<in>set as. 0 \<le> cmp a v"
    "\<forall>b\<in>set bs. cmp b v < 0"
    using insert_ele_split[OF assms] .
  have "0 \<le> cmp v b" if "b \<in> set bs" for b
  proof (rule cmp_total)
    show "b \<in> S" "v \<in> S" using s(1) that assms by auto
    show "\<not> 0 \<le> cmp b v" using s(4) that by (simp add: not_le)
  qed
  then show ?thesis using assms(1) s by (auto simp: ascending_def sorted_wrt_append)
qed

lemma insert_sorted_arr_eq:
  assumes "ascending cmp ys" "set ys \<subseteq> S" "v \<in> S" "ys \<noteq> []"
  shows "insert_sorted_arr cmp (ys @ v # zs) (length ys) = Some (insert_ele cmp v ys @ zs)"
    "0 \<le> cmp (hd ys) v \<Longrightarrow>
       ungarded_insert_sorted_arr cmp (ys @ v # zs) (length ys) = Some (insert_ele cmp v ys @ zs)"
proof -
  obtain y ys' where ys: "ys = y # ys'" using assms(4) by (cases ys) auto
  have g: "get (ys @ v # zs) 0 = Some y" by (simp add: ys)
  show u: "ungarded_insert_sorted_arr cmp (ys @ v # zs) (length ys) = Some (insert_ele cmp v ys @ zs)"
    if "0 \<le> cmp (hd ys) v"
  proof -
    obtain as bs where s: "ys = as @ bs" "insert_ele cmp v ys = as @ v # bs" "\<forall>a\<in>set as. 0 \<le> cmp a v"
      "\<forall>b\<in>set bs. cmp b v < 0"
      using insert_ele_split[OF assms(1-3)] .
    have ne: "as \<noteq> []" using s(1,4) that ys by (cases as) auto
    have y: "assertion (0 \<le> cmp y v) = Some ()" using that ys by simp
    have l: "ungarded_loop cmp (ys @ v # zs) v (length ys) = Some (as @ v # bs @ zs)"
      using ungarded_loop_eq[of as cmp v bs v zs] s(1,3,4) ne by simp
    show ?thesis by (simp add: ungarded_insert_sorted_arr_def g y l s(2))
  qed
  show "insert_sorted_arr cmp (ys @ v # zs) (length ys) = Some (insert_ele cmp v ys @ zs)"
  proof (cases "cmp y v < 0")
    case True
    then show ?thesis
      using right_shift_eq[of ys v zs] g by (simp add: insert_sorted_arr_def ys)
  next
    case False
    then show ?thesis using u g by (simp add: insert_sorted_arr_def ys)
  qed
qed

lemma insert_ele_mset: "mset (insert_ele cmp v ys) = add_mset v (mset ys)"
  by (induction ys) auto

lemma insert_ele_set: "set (insert_ele cmp v ys) = insert v (set ys)"
  using arg_cong[OF insert_ele_mset, of set_mset] by simp

lemma insert_ele_length [simp]: "length (insert_ele cmp v ys) = Suc (length ys)"
  by (induction ys) auto

lemma insertion_loop_ok:
  assumes "ascending cmp ys" "ys \<noteq> []" "set ys \<subseteq> S" "set rest \<subseteq> S"
  shows "\<exists>zs. insertion_loop cmp (ys @ rest @ tail) (length ys + length rest) (length ys) = Some (zs @ tail) \<and>
    ascending cmp zs \<and> mset zs = mset (ys @ rest)"
  using assms
proof (induction rest arbitrary: ys)
  case (Cons v rest)
  have i: "insert_sorted_arr cmp (ys @ v # rest @ tail) (length ys) = Some (insert_ele cmp v ys @ rest @ tail)"
    using Cons.prems by (intro insert_sorted_arr_eq) auto
  have "insertion_loop cmp (ys @ (v # rest) @ tail) (length ys + length (v # rest)) (length ys)
      = insertion_loop cmp (insert_ele cmp v ys @ rest @ tail) (length (insert_ele cmp v ys) + length rest)
          (length (insert_ele cmp v ys))"
    by (subst insertion_loop.simps) (simp add: i)
  moreover have "ascending cmp (insert_ele cmp v ys)" using Cons.prems by (intro insert_ele_ascending) auto
  moreover have "insert_ele cmp v ys \<noteq> []" by (cases ys) auto
  ultimately show ?case
    using Cons.IH[of "insert_ele cmp v ys"] Cons.prems by (auto simp: insert_ele_set insert_ele_mset)
qed (auto simp: insertion_loop.simps)

lemma insertion_sort_ok:
  assumes "n \<le> length arr" "set (take n arr) \<subseteq> S"
  shows "\<exists>zs. insertion_sort cmp arr n = Some (zs @ drop n arr) \<and> ascending cmp zs \<and> mset zs = mset (take n arr)"
proof (cases "take n arr")
  case Nil
  then have "n = 0 \<or> arr = []" by auto
  then show ?thesis using assms(1) by (auto simp: insertion_sort_def insertion_loop.simps ascending_def)
next
  case (Cons v rest)
  then have "arr = [v] @ rest @ drop n arr" "n = length [v] + length rest"
    using append_take_drop_id[of n arr] assms(1) length_take[of n arr] by auto
  then show ?thesis
    using insertion_loop_ok[of "[v]" rest "drop n arr"] assms(2) Cons
    by (auto simp: insertion_sort_def ascending_def)
qed

lemma insert_ele_hd: "ys \<noteq> [] \<Longrightarrow> 0 \<le> cmp (hd ys) v \<Longrightarrow> hd (insert_ele cmp v ys) = hd ys"
  by (cases ys) auto

lemma intro_insert_loop_ok:
  assumes "ascending cmp ys" "ys \<noteq> []" "set ys \<subseteq> S" "set rest \<subseteq> S" "\<forall>r\<in>set rest. 0 \<le> cmp (hd ys) r"
  shows "\<exists>zs. intro_insert_loop cmp (ys @ rest @ tail) (length ys + length rest) (length ys) = Some (zs @ tail) \<and>
    ascending cmp zs \<and> mset zs = mset (ys @ rest)"
  using assms
proof (induction rest arbitrary: ys)
  case (Cons v rest)
  have i: "ungarded_insert_sorted_arr cmp (ys @ v # rest @ tail) (length ys) = Some (insert_ele cmp v ys @ rest @ tail)"
    using Cons.prems by (intro insert_sorted_arr_eq) auto
  have "intro_insert_loop cmp (ys @ (v # rest) @ tail) (length ys + length (v # rest)) (length ys)
      = intro_insert_loop cmp (insert_ele cmp v ys @ rest @ tail) (length (insert_ele cmp v ys) + length rest)
          (length (insert_ele cmp v ys))"
    by (subst intro_insert_loop.simps) (simp add: i)
  moreover have "ascending cmp (insert_ele cmp v ys)" using Cons.prems by (intro insert_ele_ascending) auto
  moreover have "insert_ele cmp v ys \<noteq> []" by (cases ys) auto
  moreover have "hd (insert_ele cmp v ys) = hd ys" using Cons.prems by (intro insert_ele_hd) auto
  ultimately show ?case
    using Cons.IH[of "insert_ele cmp v ys"] Cons.prems by (auto simp: insert_ele_set insert_ele_mset)
qed (auto simp: intro_insert_loop.simps)

end


section \<open>Rearranging part of an array\<close>

definition rearranged :: "nat \<Rightarrow> nat \<Rightarrow> 'a list \<Rightarrow> 'a list \<Rightarrow> bool" where
  "rearranged l h xs ys \<longleftrightarrow> mset ys = mset xs \<and> (\<forall>i < length xs. i < l \<or> h \<le> i \<longrightarrow> ys ! i = xs ! i)"

lemma rearranged_length: "rearranged l h xs ys \<Longrightarrow> length ys = length xs"
  unfolding rearranged_def by (metis size_mset)

lemma rearranged_set: "rearranged l h xs ys \<Longrightarrow> set ys = set xs"
  unfolding rearranged_def by (metis set_mset_mset)

lemma rearranged_refl [simp]: "rearranged l h xs xs"
  by (simp add: rearranged_def)

lemma rearranged_trans: "rearranged l h xs ys \<Longrightarrow> rearranged l h ys zs \<Longrightarrow> rearranged l h xs zs"
  using rearranged_length[of l h xs ys] by (simp add: rearranged_def)

lemma rearranged_mono: "rearranged l h xs ys \<Longrightarrow> l' \<le> l \<Longrightarrow> h \<le> h' \<Longrightarrow> rearranged l' h' xs ys"
  by (simp add: rearranged_def)

lemma rearranged_out: "rearranged l h xs ys \<Longrightarrow> i < length xs \<Longrightarrow> i < l \<or> h \<le> i \<Longrightarrow> ys ! i = xs ! i"
  by (auto simp: rearranged_def)

lemma split_range:
  "l \<le> h \<Longrightarrow> h \<le> length xs \<Longrightarrow> xs = take l xs @ take (h - l) (drop l xs) @ drop h xs"
  by (metis append_take_drop_id drop_drop le_add_diff_inverse2)

lemma rearranged_range:
  assumes r: "rearranged l h xs ys" and h: "h \<le> length xs"
  shows "mset (take (h - l) (drop l ys)) = mset (take (h - l) (drop l xs))"
proof (cases "l \<le> h")
  case True
  note len = rearranged_length[OF r]
  have "take l ys = take l xs" "drop h ys = drop h xs"
    using r len h True by (auto intro!: nth_equalityI simp: rearranged_def)
  moreover have "mset (take l ys @ take (h - l) (drop l ys) @ drop h ys)
      = mset (take l xs @ take (h - l) (drop l xs) @ drop h xs)"
    using split_range[OF True, of xs] split_range[OF True, of ys] r h len by (simp add: rearranged_def)
  ultimately show ?thesis by simp
qed simp

lemma rearranged_mem:
  assumes r: "rearranged l h xs ys" and h: "h \<le> length xs" and i: "l \<le> i" "i < h"
  obtains j where "l \<le> j" "j < h" "ys ! i = xs ! j"
proof -
  have "ys ! i \<in> set (take (h - l) (drop l ys))"
    using i h rearranged_length[OF r] by (auto simp: in_set_conv_nth intro!: exI[of _ "i - l"])
  then have "ys ! i \<in> set (take (h - l) (drop l xs))"
    using rearranged_range[OF r h] by (metis set_mset_mset)
  then obtain k where "k < h - l" "ys ! i = xs ! (l + k)"
    using h by (auto simp: in_set_conv_nth)
  then show thesis using that[of "l + k"] by simp
qed

lemma swap_ele_ok:
  assumes "i < length xs" "j < length xs" "l \<le> i" "i < h" "l \<le> j" "j < h"
  shows "\<exists>ys. swap_ele xs i j = Some ys \<and> rearranged l h xs ys \<and> ys ! i = xs ! j \<and> ys ! j = xs ! i \<and>
    (\<forall>k. k \<noteq> i \<longrightarrow> k \<noteq> j \<longrightarrow> ys ! k = xs ! k)"
proof -
  have "swap_ele xs i j = Some (xs[i := xs ! j, j := xs ! i])" using assms by (simp add: swap_ele_def)
  moreover have "rearranged l h xs (xs[i := xs ! j, j := xs ! i])"
    using assms mset_swap[of j xs i] by (auto simp: rearranged_def nth_list_update)
  ultimately show ?thesis using assms by (auto simp: nth_list_update)
qed

section \<open>The partition\<close>

definition parting :: "'a cmp_func_t \<Rightarrow> nat \<Rightarrow> nat \<Rightarrow> 'a \<Rightarrow> 'a list \<Rightarrow> nat \<Rightarrow> nat \<Rightarrow> nat \<Rightarrow> bool" where
  "parting cmp lo hi p xs lt eq gt \<longleftrightarrow> lo \<le> lt \<and> lt < eq \<and> eq \<le> Suc gt \<and> gt \<le> hi \<and> hi < length xs \<and>
     (\<forall>i. lo \<le> i \<and> i < lt \<longrightarrow> 0 < cmp (xs ! i) p) \<and>
     (\<forall>i. lt \<le> i \<and> i < eq \<longrightarrow> cmp (xs ! i) p = 0) \<and>
     (\<forall>i. gt < i \<and> i \<le> hi \<longrightarrow> cmp (xs ! i) p < 0)"

lemma sub64_le: "b \<le> a \<Longrightarrow> a < 2 ^ 64 \<Longrightarrow> sub64 a b = a - b"
  by (simp add: sub64_def mod_pos_pos_trivial nat_diff_distrib)

lemma sub64_1: "0 < n \<Longrightarrow> n < 2 ^ 64 \<Longrightarrow> sub64 n 1 = n - 1"
  by (rule sub64_le) auto

context comparator
begin

lemma cmp_0_swap: "x \<in> S \<Longrightarrow> y \<in> S \<Longrightarrow> cmp x y = 0 \<longleftrightarrow> cmp y x = 0"
  using cmp_swap[of x y] cmp_swap[of y x] by linarith

lemma cmp_le_swap: "x \<in> S \<Longrightarrow> y \<in> S \<Longrightarrow> cmp x y \<le> 0 \<longleftrightarrow> 0 \<le> cmp y x"
  using cmp_swap[of x y] cmp_swap[of y x] by linarith

lemma cmp_equal:
  assumes "q \<in> S" "p \<in> S" "a \<in> S" "cmp q p = 0"
  shows "cmp a q = 0 \<longleftrightarrow> cmp a p = 0" "cmp a q < 0 \<longleftrightarrow> cmp a p < 0" "0 < cmp a q \<longleftrightarrow> 0 < cmp a p"
proof -
  have "0 \<le> cmp a q \<longleftrightarrow> 0 \<le> cmp a p" "0 \<le> cmp q a \<longleftrightarrow> 0 \<le> cmp p a"
    using assms cmp_trans cmp_0_swap by (metis order_refl)+
  then show "cmp a q = 0 \<longleftrightarrow> cmp a p = 0" "cmp a q < 0 \<longleftrightarrow> cmp a p < 0" "0 < cmp a q \<longleftrightarrow> 0 < cmp a p"
    using cmp_le_swap[of a q] cmp_le_swap[of a p] assms by linarith+
qed

lemma partition_loop_ok:
  assumes "parting cmp lo hi p xs lt eq gt" "set xs \<subseteq> S" "p \<in> S" "hi < 2 ^ 64"
  shows "\<exists>ys l g. partition_loop cmp xs lt eq gt = Some (ys, l, g) \<and> rearranged lo (Suc hi) xs ys \<and>
    parting cmp lo hi p ys l (Suc g) g"
  using assms(1,2)
proof (induction "Suc gt - eq" arbitrary: xs lt eq gt rule: less_induct)
  case less
  note inv = less.prems(1)[unfolded parting_def]
  show ?case
  proof (cases "eq \<le> gt")
    case False
    then have "eq = Suc gt" using inv by simp
    then show ?thesis using less.prems(1) by (simp add: partition_loop.simps)
  next
    case True
    then have i: "eq < length xs" "lt < length xs" "gt < length xs" "0 < gt" "gt < 2 ^ 64"
      using inv assms(4) by linarith+
    define a q where "a = xs ! eq" and "q = xs ! lt"
    have S: "a \<in> S" "q \<in> S" using less.prems(2) i by (auto simp: a_def q_def)
    have q0: "cmp q p = 0" using inv by (simp add: q_def)
    note c = cmp_equal[OF S(2) assms(3) S(1) q0]
    have unf: "partition_loop cmp xs lt eq gt =
      (if cmp a q = 0 then partition_loop cmp xs lt (eq + 1) gt
       else if cmp a q < 0 then Option.bind (swap_ele xs eq gt) (\<lambda>arr. partition_loop cmp arr lt eq (sub64 gt 1))
       else Option.bind (swap_ele xs lt eq) (\<lambda>arr. partition_loop cmp arr (lt + 1) (eq + 1) gt))"
      using True i by (subst partition_loop.simps) (simp add: a_def q_def)
    consider "cmp a p = 0" | "cmp a p < 0" | "0 < cmp a p" by linarith
    then show ?thesis
    proof cases
      case 1
      have "parting cmp lo hi p xs lt (eq + 1) gt"
        using inv True 1 by (auto simp: parting_def a_def less_Suc_eq)
      from less.hyps[OF _ this less.prems(2)] True show ?thesis using unf 1 c by simp
    next
      case 2
      obtain ys where y: "swap_ele xs eq gt = Some ys" "rearranged lo (Suc hi) xs ys" "ys ! gt = a"
        "\<forall>k. k \<noteq> eq \<longrightarrow> k \<noteq> gt \<longrightarrow> ys ! k = xs ! k"
        using swap_ele_ok[of eq xs gt lo "Suc hi"] i inv True by (auto simp: a_def)
      have "parting cmp lo hi p ys lt eq (gt - 1)"
        unfolding parting_def
      proof (intro conjI allI impI)
        show "lo \<le> lt" "lt < eq" "eq \<le> Suc (gt - 1)" "gt - 1 \<le> hi" using inv True i by auto
        show "hi < length ys" using inv rearranged_length[OF y(2)] by simp
        show "0 < cmp (ys ! k) p" if "lo \<le> k \<and> k < lt" for k
          using that y(4) inv True by (metis less_trans less_le_not_le order_less_le_trans nat_less_le)
        show "cmp (ys ! k) p = 0" if "lt \<le> k \<and> k < eq" for k
          using that y(4) inv True by (metis less_le_not_le order_less_le_trans nat_less_le)
        show "cmp (ys ! k) p < 0" if "gt - 1 < k \<and> k \<le> hi" for k
        proof (cases "k = gt")
          case False
          then have "gt < k" "k \<noteq> eq" using that True by auto
          then show ?thesis using y(4) inv that by simp
        qed (use y(3) 2 in simp)
      qed
      moreover have "set ys \<subseteq> S" using rearranged_set[OF y(2)] less.prems(2) by simp
      moreover have "Suc (gt - 1) - eq < Suc gt - eq" using True i by linarith
      ultimately obtain zs l g where "partition_loop cmp ys lt eq (gt - 1) = Some (zs, l, g)"
        "rearranged lo (Suc hi) ys zs" "parting cmp lo hi p zs l (Suc g) g"
        using less.hyps[of "gt - 1" eq ys lt] by blast
      then show ?thesis
        using unf 2 c y(1) rearranged_trans[OF y(2)] sub64_1[OF i(4,5)] by simp
    next
      case 3
      obtain ys where y: "swap_ele xs lt eq = Some ys" "rearranged lo (Suc hi) xs ys" "ys ! lt = a" "ys ! eq = q"
        "\<forall>k. k \<noteq> lt \<longrightarrow> k \<noteq> eq \<longrightarrow> ys ! k = xs ! k"
        using swap_ele_ok[of lt xs eq lo "Suc hi"] i inv True by (auto simp: a_def q_def)
      have "parting cmp lo hi p ys (lt + 1) (eq + 1) gt"
        unfolding parting_def
      proof (intro conjI allI impI)
        show "lo \<le> lt + 1" "lt + 1 < eq + 1" "eq + 1 \<le> Suc gt" "gt \<le> hi" using inv True by auto
        show "hi < length ys" using inv rearranged_length[OF y(2)] by simp
        show "0 < cmp (ys ! k) p" if "lo \<le> k \<and> k < lt + 1" for k
        proof (cases "k = lt")
          case False
          then have "k < lt" "k \<noteq> eq" using that inv by auto
          then show ?thesis using y(5) inv that by simp
        qed (use y(3) 3 in simp)
        show "cmp (ys ! k) p = 0" if "lt + 1 \<le> k \<and> k < eq + 1" for k
        proof (cases "k = eq")
          case False
          then show ?thesis using y(5) inv that by simp
        qed (use y(4) q0 in simp)
        show "cmp (ys ! k) p < 0" if "gt < k \<and> k \<le> hi" for k
          using that y(5) inv True by simp
      qed
      moreover have "set ys \<subseteq> S" using rearranged_set[OF y(2)] less.prems(2) by simp
      moreover have "Suc gt - (eq + 1) < Suc gt - eq" using True by linarith
      ultimately obtain zs l g where "partition_loop cmp ys (lt + 1) (eq + 1) gt = Some (zs, l, g)"
        "rearranged lo (Suc hi) ys zs" "parting cmp lo hi p zs l (Suc g) g"
        using less.hyps[of gt "eq + 1" ys "lt + 1"] by blast
      then show ?thesis
        using unf 3 c y(1) rearranged_trans[OF y(2)] by simp
    qed
  qed
qed

lemma partition_ok:
  assumes "lo < hi" "hi < length xs" "hi < 2 ^ 64" "set xs \<subseteq> S"
  obtains ys l g p where "qsort_3_way_partition cmp xs lo hi = Some (ys, l, g)" "rearranged lo (Suc hi) xs ys"
    "parting cmp lo hi p ys l (Suc g) g" "p \<in> S"
proof -
  define mid where "mid = lo + (hi - lo) div 2"
  have mid: "lo \<le> mid" "mid \<le> hi" using assms(1) by (auto simp: mid_def)
  obtain k where k: "qsort_medianOf3 cmp xs lo mid hi = Some k" "lo \<le> k" "k \<le> hi"
    using assms(1,2) mid by (auto simp: qsort_medianOf3_def)
  obtain ys where y: "swap_ele xs k lo = Some ys" "rearranged lo (Suc hi) xs ys"
    using swap_ele_ok[of k xs lo lo "Suc hi"] assms(1,2) k by auto
  define p where "p = ys ! lo"
  have S: "set ys \<subseteq> S" "p \<in> S"
    using rearranged_set[OF y(2)] rearranged_length[OF y(2)] assms by (auto simp: p_def)
  have "parting cmp lo hi p ys lo (lo + 1) hi"
    using assms(1,2) rearranged_length[OF y(2)] S(2) by (auto simp: parting_def less_Suc_eq p_def cmp_refl)
  from partition_loop_ok[OF this S assms(3)] obtain zs l g where
    z: "partition_loop cmp ys lo (lo + 1) hi = Some (zs, l, g)" "rearranged lo (Suc hi) ys zs"
    "parting cmp lo hi p zs l (Suc g) g" by blast
  have "qsort_3_way_partition cmp xs lo hi = Some (zs, l, g)"
    using k(1) y(1) z(1) by (simp add: qsort_3_way_partition_def mid_def)
  then show thesis using that rearranged_trans[OF y(2) z(2)] z(3) S(2) by blast
qed

text \<open>Rearranging the smaller or the greater elements keeps the partition.\<close>

lemma parting_left:
  assumes "parting cmp lo hi p ys l (Suc g) g" "rearranged lo l ys zs"
  shows "parting cmp lo hi p zs l (Suc g) g"
proof -
  note pa = assms(1)[unfolded parting_def]
  have "0 < cmp (zs ! i) p" if i: "lo \<le> i \<and> i < l" for i
  proof -
    have "l \<le> length ys" using pa by linarith
    then obtain j where "lo \<le> j" "j < l" "zs ! i = ys ! j" using rearranged_mem[OF assms(2)] i by blast
    then show ?thesis using pa by simp
  qed
  then show ?thesis
    using pa rearranged_length[OF assms(2)] rearranged_out[OF assms(2)] by (auto simp: parting_def)
qed

lemma parting_right:
  assumes "parting cmp lo hi p ys l (Suc g) g" "rearranged (Suc g) (Suc hi) ys zs"
  shows "parting cmp lo hi p zs l (Suc g) g"
proof -
  note pa = assms(1)[unfolded parting_def]
  have "cmp (zs ! i) p < 0" if i: "g < i \<and> i \<le> hi" for i
  proof -
    have "Suc hi \<le> length ys" "Suc g \<le> i" "i < Suc hi" using pa i by linarith+
    then obtain j where "Suc g \<le> j" "j < Suc hi" "zs ! i = ys ! j" using rearranged_mem[OF assms(2)] by blast
    then show ?thesis using pa by simp
  qed
  then show ?thesis
    using pa rearranged_length[OF assms(2)] rearranged_out[OF assms(2)] by (auto simp: parting_def)
qed

lemma parting_order:
  assumes "parting cmp lo hi p ys l (Suc g) g" "p \<in> S" "set ys \<subseteq> S" "lo \<le> i" "i < j" "j \<le> hi" "i \<le> g" "l \<le> j"
  shows "0 \<le> cmp (ys ! i) (ys ! j)"
proof -
  note pa = assms(1)[unfolded parting_def]
  have S: "ys ! i \<in> S" "ys ! j \<in> S" using pa assms by auto
  have "0 \<le> cmp (ys ! i) p"
  proof (cases "i < l")
    case True
    then have "0 < cmp (ys ! i) p" using pa assms(4) by blast
    then show ?thesis by simp
  next
    case False
    then have "cmp (ys ! i) p = 0" using pa assms(7) by (meson less_Suc_eq_le not_less)
    then show ?thesis by simp
  qed
  moreover have "cmp (ys ! j) p \<le> 0"
  proof (cases "j \<le> g")
    case True
    then have "cmp (ys ! j) p = 0" using pa assms(8) by (meson less_Suc_eq_le)
    then show ?thesis by simp
  next
    case False
    then have "cmp (ys ! j) p < 0" using pa assms(6) by (meson not_less)
    then show ?thesis by simp
  qed
  ultimately show ?thesis using cmp_trans[OF S(1) assms(2) S(2)] cmp_le_swap[OF S(2) assms(2)] by simp
qed

lemma quick_sort_range_ok:
  assumes "hi < length xs" "hi < 2 ^ 64" "set xs \<subseteq> S"
  shows "\<exists>ys. quick_sort_range cmp xs lo hi = Some ys \<and> rearranged lo (Suc hi) xs ys \<and>
    (\<forall>i j. lo \<le> i \<and> i < j \<and> j \<le> hi \<longrightarrow> 0 \<le> cmp (ys ! i) (ys ! j))"
  using assms
proof (induction "hi - lo" arbitrary: xs lo hi rule: less_induct)
  case less
  show ?case
  proof (cases "hi \<le> lo")
    case True
    then show ?thesis by (auto simp: quick_sort_range.simps)
  next
    case False
    then have "lo < hi" by simp
    from partition_ok[OF this less.prems] obtain ys l g p where
      q: "qsort_3_way_partition cmp xs lo hi = Some (ys, l, g)" "rearranged lo (Suc hi) xs ys"
      "parting cmp lo hi p ys l (Suc g) g" "p \<in> S" .
    note pa = q(3)[unfolded parting_def]
    have ys: "set ys \<subseteq> S" "length ys = length xs"
      using rearranged_set[OF q(2)] rearranged_length[OF q(2)] less.prems(3) by simp_all
    have "\<exists>zs. (if l > 0 then quick_sort_range cmp ys lo (l - 1) else Some ys) = Some zs \<and> rearranged lo l ys zs \<and>
      (\<forall>i j. lo \<le> i \<and> i < j \<and> j < l \<longrightarrow> 0 \<le> cmp (zs ! i) (zs ! j))"
    proof (cases "l > 0")
      case True
      have "l - 1 - lo < hi - lo" "l - 1 < length ys" "l - 1 < 2 ^ 64" "Suc (l - 1) = l"
        using True pa \<open>lo < hi\<close> less.prems(2) ys(2) by linarith+
      then show ?thesis using True less.hyps[of "l - 1" lo ys] ys(1)
        by (metis Suc_leI Suc_le_mono less_Suc_eq_le)
    qed auto
    then obtain zs where z: "(if l > 0 then quick_sort_range cmp ys lo (l - 1) else Some ys) = Some zs"
      "rearranged lo l ys zs" "\<And>i j. lo \<le> i \<Longrightarrow> i < j \<Longrightarrow> j < l \<Longrightarrow> 0 \<le> cmp (zs ! i) (zs ! j)" by blast
    have zs: "set zs \<subseteq> S" "length zs = length xs" "parting cmp lo hi p zs l (Suc g) g"
      using rearranged_set[OF z(2)] rearranged_length[OF z(2)] ys parting_left[OF q(3) z(2)] by simp_all
    have "hi - (g + 1) < hi - lo" using pa \<open>lo < hi\<close> by linarith
    then obtain us where u: "quick_sort_range cmp zs (g + 1) hi = Some us" "rearranged (Suc g) (Suc hi) zs us"
      "\<And>i j. Suc g \<le> i \<Longrightarrow> i < j \<Longrightarrow> j \<le> hi \<Longrightarrow> 0 \<le> cmp (us ! i) (us ! j)"
      using less.hyps[of hi "g + 1" zs] less.prems zs by (metis Suc_eq_plus1)
    have us: "set us \<subseteq> S" "parting cmp lo hi p us l (Suc g) g"
      using rearranged_set[OF u(2)] zs parting_right[OF zs(3) u(2)] by simp_all
    have lg: "lo \<le> l" "l \<le> g" "g \<le> hi" using pa by auto
    have "quick_sort_range cmp xs lo hi = Some us"
      using False q(1) z(1) u(1) by (subst quick_sort_range.simps) simp
    moreover have "rearranged lo (Suc hi) xs us"
    proof -
      have "rearranged lo (Suc hi) ys zs" "rearranged lo (Suc hi) zs us"
        using rearranged_mono[OF z(2), of lo "Suc hi"] rearranged_mono[OF u(2), of lo "Suc hi"] lg by auto
      then show ?thesis using q(2) rearranged_trans by blast
    qed
    moreover have "0 \<le> cmp (us ! i) (us ! j)" if ij: "lo \<le> i" "i < j" "j \<le> hi" for i j
    proof -
      consider "j < l" | "l \<le> j" "i \<le> g" | "g < i" by linarith
      then show ?thesis
      proof cases
        case 1
        then have "us ! i = zs ! i" "us ! j = zs ! j"
          using rearranged_out[OF u(2)] lg ij zs(2) less.prems(1) by auto
        then show ?thesis using z(3)[OF ij(1,2) 1] by simp
      next
        case 2
        then show ?thesis using parting_order[OF us(2) q(4) us(1) ij(1,2,3)] by simp
      next
        case 3
        then show ?thesis using u(3) ij by simp
      qed
    qed
    ultimately show ?thesis by blast
  qed
qed

lemma rearranged_ascending:
  assumes "rearranged 0 n xs ys" "n \<le> length xs" "\<And>i j. i < j \<Longrightarrow> j < n \<Longrightarrow> 0 \<le> cmp (ys ! i) (ys ! j)"
  shows "\<exists>zs. ys = zs @ drop n xs \<and> ascending cmp zs \<and> mset zs = mset (take n xs)"
proof (intro exI conjI)
  note len = rearranged_length[OF assms(1)]
  have "drop n ys = drop n xs"
    using assms(1,2) len by (auto intro!: nth_equalityI simp: rearranged_def)
  then show "ys = take n ys @ drop n xs" by (metis append_take_drop_id)
  show "mset (take n ys) = mset (take n xs)" using rearranged_range[OF assms(1,2)] by simp
  show "ascending cmp (take n ys)"
    using assms(2,3) len by (auto simp: ascending_def sorted_wrt_iff_nth_less)
qed

lemma quick_sort_ok:
  assumes "0 < n" "n \<le> length xs" "n < 2 ^ 64" "set xs \<subseteq> S"
  shows "\<exists>zs. quick_sort cmp xs n = Some (zs @ drop n xs) \<and> ascending cmp zs \<and> mset zs = mset (take n xs)"
proof -
  have h: "n - 1 < length xs" "n - 1 < 2 ^ 64" "Suc (n - 1) = n" using assms by linarith+
  obtain ys where "quick_sort_range cmp xs 0 (n - 1) = Some ys" "rearranged 0 n xs ys"
    "\<And>i j. i < j \<Longrightarrow> j < n \<Longrightarrow> 0 \<le> cmp (ys ! i) (ys ! j)"
    using quick_sort_range_ok[OF h(1,2) assms(4), of 0] h(3) by (metis less_Suc_eq_le zero_le)
  then show ?thesis
    using rearranged_ascending assms(2) sub64_1[OF assms(1,3)] by (metis quick_sort_def)
qed

end

end
