(* ===== verification/Sort_Intro.thy ===== *)
theory Sort_Intro
  imports Sort_Quick
begin

text \<open>
  Heap sort and introsort: heap sort permutes and leaves the least element in front, which is all that
  introsort needs of it, since its last phase is an insertion sort whose guard is an element of the
  first 16.
\<close>

section \<open>Heap sort\<close>

lemma rearranged_sym: "rearranged l h xs ys \<Longrightarrow> rearranged l h ys xs"
  using rearranged_length[of l h xs ys] by (simp add: rearranged_def)

lemma rearranged_swap:
  "i < h \<Longrightarrow> j < h \<Longrightarrow> l \<le> i \<Longrightarrow> l \<le> j \<Longrightarrow> h \<le> length xs \<Longrightarrow> rearranged l h xs (xs[i := xs ! j, j := xs ! i])"
  using mset_swap[of j xs i] by (auto simp: rearranged_def nth_list_update)

text \<open>
  Sinking moves the element down a path of children: the range keeps its elements, and the positions
  that are not on or below the root stay.
\<close>

lemma greater_child_eq:
  assumes "2 * root + 1 < m" "m \<le> length arr"
  shows "greater_child cmp arr m root = Some (if 2 * root + 2 < m \<and> cmp (arr ! (2 * root + 1)) (arr ! (2 * root + 2)) > 0
    then 2 * root + 2 else 2 * root + 1)"
proof (cases "2 * root + 1 < m - 1")
  case True
  then have "2 * root + 2 < m" by linarith
  then show ?thesis using True assms by (simp add: greater_child_def get_def)
next
  case False
  then have "\<not> 2 * root + 2 < m" by linarith
  then show ?thesis using False by (simp add: greater_child_def)
qed

lemma sink_loop_ok:
  assumes "root < m" "m \<le> length arr"
  shows "\<exists>arr' r. sink_loop cmp arr m ele root = Some (arr', r) \<and> r < m \<and> length arr' = length arr \<and>
    rearranged 0 m (arr[root := ele]) (arr'[r := ele]) \<and> (r = root \<or> 2 * root + 1 \<le> r) \<and>
    (\<forall>k. k \<noteq> root \<longrightarrow> k < 2 * root + 1 \<longrightarrow> arr' ! k = arr ! k)"
  using assms
proof (induction "m - root" arbitrary: arr root rule: less_induct)
  case less
  show ?case
  proof (cases "2 * root + 1 < m")
    case False
    then show ?thesis using less.prems by (auto simp: sink_loop.simps)
  next
    case True
    obtain c where c: "greater_child cmp arr m root = Some c" "2 * root + 1 \<le> c" "c \<le> 2 * root + 2" "c < m"
      using greater_child_eq[OF True less.prems(2), of cmp] True by (auto split: if_splits)
    define v where "v = arr ! c"
    have g: "get arr c = Some v" using c less.prems by (simp add: v_def)
    show ?thesis
    proof (cases "cmp ele v < 0")
      case True
      then show ?thesis using \<open>2 * root + 1 < m\<close> c g less.prems by (auto simp: sink_loop.simps)
    next
      case nb: False
      have unf: "sink_loop cmp arr m ele root = sink_loop cmp (arr[root := v]) m ele c"
        using True c(1) g nb less.prems by (subst sink_loop.simps) simp
      have "m - c < m - root" using c by linarith
      then obtain arr' r where h: "sink_loop cmp (arr[root := v]) m ele c = Some (arr', r)" "r < m"
        "length arr' = length arr" "rearranged 0 m (arr[root := v, c := ele]) (arr'[r := ele])"
        "r = c \<or> 2 * c + 1 \<le> r" "\<forall>k. k \<noteq> c \<longrightarrow> k < 2 * c + 1 \<longrightarrow> arr' ! k = arr[root := v] ! k"
        using less.hyps[of c "arr[root := v]"] c(4) less.prems by auto
      have "rearranged 0 m (arr[root := ele]) (arr[root := v, c := ele])"
      proof -
        have "arr[root := v, c := ele]
            = (arr[root := ele])[root := (arr[root := ele]) ! c, c := (arr[root := ele]) ! root]"
          using c less.prems by (auto simp: v_def list_update_overwrite)
        then show ?thesis
          using rearranged_swap[of root m c 0 "arr[root := ele]"] c(4) less.prems by simp
      qed
      then have "rearranged 0 m (arr[root := ele]) (arr'[r := ele])" using h(4) rearranged_trans by blast
      moreover have "r = root \<or> 2 * root + 1 \<le> r" using h(5) c by linarith
      moreover have "arr' ! k = arr ! k" if "k \<noteq> root" "k < 2 * root + 1" for k
        using h(6) that c by auto
      ultimately show ?thesis using unf h(1,2,3) by auto
    qed
  qed
qed

lemma sink_with_ele_ok:
  assumes "root < m" "m \<le> length arr"
  shows "\<exists>res. sink_with_ele cmp arr m ele root = Some res \<and> rearranged 0 m (arr[root := ele]) res"
proof -
  obtain arr' r where "sink_loop cmp arr m ele root = Some (arr', r)" "r < m" "length arr' = length arr"
    "rearranged 0 m (arr[root := ele]) (arr'[r := ele])"
    using sink_loop_ok[OF assms] by blast
  then show ?thesis using assms by (auto simp: sink_with_ele_def)
qed

text \<open>The root of the heap is not the only least element: this is all that later steps rely on.\<close>

definition has_smaller :: "'a cmp_func_t \<Rightarrow> nat \<Rightarrow> 'a list \<Rightarrow> bool" where
  "has_smaller cmp n arr \<longleftrightarrow> (2 \<le> n \<longrightarrow> (\<exists>j. 1 \<le> j \<and> j < n \<and> 0 \<le> cmp (arr ! j) (arr ! 0)))"

context comparator
begin

lemma sink_with_ele_root:
  assumes m: "0 < m" "m \<le> length arr" and S: "set arr \<subseteq> S" "ele \<in> S"
    and res: "sink_with_ele cmp arr m ele 0 = Some res"
  shows "has_smaller cmp m res"
proof (cases "2 \<le> m")
  case True
  obtain c where c: "greater_child cmp arr m 0 = Some c" "c = 1 \<or> c = 2" "c < m"
    "c = 1 \<and> 2 < m \<Longrightarrow> cmp (arr ! 1) (arr ! 2) \<le> 0" "c = 2 \<Longrightarrow> 0 < cmp (arr ! 1) (arr ! 2)"
  proof -
    define b where "b \<longleftrightarrow> 2 < m \<and> 0 < cmp (arr ! 1) (arr ! 2)"
    have "greater_child cmp arr m 0 = Some (if b then 2 else 1)"
      using greater_child_eq[of 0 m arr cmp] True m(2) by (simp add: b_def numeral_2_eq_2)
    then show thesis
    proof (cases b)
      case b: True
      show thesis by (rule that[of 2]) (use \<open>greater_child cmp arr m 0 = _\<close> b in \<open>simp_all add: b_def\<close>)
    next
      case b: False
      show thesis by (rule that[of 1]) (use \<open>greater_child cmp arr m 0 = _\<close> b True in \<open>auto simp: b_def\<close>)
    qed
  qed
  define v where "v = arr ! c"
  have g: "get arr c = Some v" using c(3) m by (simp add: v_def)
  have nz: "c \<noteq> 0" using c(2) by auto
  have pos: "0 < length arr" using m by linarith
  have vS: "v \<in> S" using S c m by (auto simp: v_def)
  show ?thesis
  proof (cases "cmp ele v < 0")
    case le: True
    then have "sink_with_ele cmp arr m ele 0 = Some (arr[0 := ele])"
      using True c(1) g pos by (simp add: sink_with_ele_def sink_loop.simps[of cmp arr m ele 0])
    then have "res = arr[0 := ele]" using res by simp
    then have "res ! 0 = ele" "res ! c = v" using c(2,3) pos by (auto simp: v_def)
    moreover have "0 \<le> cmp v ele" using le cmp_swap[OF S(2) vS] by simp
    ultimately show ?thesis using c(2,3) by (auto simp: has_smaller_def intro!: exI[of _ c])
  next
    case nb: False
    obtain arr' r where h: "sink_loop cmp (arr[0 := v]) m ele c = Some (arr', r)" "r < m"
        "length arr' = length arr" "r = c \<or> 2 * c + 1 \<le> r"
        "\<forall>k. k \<noteq> c \<longrightarrow> k < 2 * c + 1 \<longrightarrow> arr' ! k = arr[0 := v] ! k"
      using sink_loop_ok[of c m "arr[0 := v]" cmp ele] c(3) m by auto
    have "sink_loop cmp arr m ele 0 = Some (arr', r)"
      using True c(1) g nb pos h(1) by (subst sink_loop.simps) simp
    then have res': "res = arr'[r := ele]" using res h(2,3) m by (simp add: sink_with_ele_def)
    have r0: "r \<noteq> 0" "0 < length arr" using h(4) nz m by auto
    have root: "res ! 0 = v" using h(5) nz r0 unfolding res' by simp
    consider "c = 2" | "c = 1" "2 < m" | "c = 1" "m = 2" using c(2) True by linarith
    then show ?thesis
    proof cases
      case 1
      have "r \<noteq> 1" using h(4) 1 by linarith
      then have "res ! 1 = arr ! 1" using h(5) 1 unfolding res' by simp
      moreover have "0 \<le> cmp (arr ! 1) v" using c(5) 1 by (simp add: v_def)
      ultimately show ?thesis using root True by (auto simp: has_smaller_def intro!: exI[of _ 1])
    next
      case 2
      have "r \<noteq> 2" using h(4) 2 by linarith
      then have "res ! 2 = arr ! 2" using h(5) 2 unfolding res' by simp
      moreover have "0 \<le> cmp (arr ! 2) v"
      proof -
        have "1 < length arr" "2 < length arr" using m 2 by linarith+
        then have "arr ! 1 \<in> S" "arr ! 2 \<in> S" using S(1) nth_mem by blast+
        then show ?thesis using c(4) 2 cmp_le_swap[of "arr ! 1" "arr ! 2"] by (simp add: v_def)
      qed
      ultimately show ?thesis using root 2 by (auto simp: has_smaller_def intro!: exI[of _ 2])
    next
      case 3
      have "r = 1" using h(2,4) 3 by linarith
      then have "res ! 1 = ele" using h(3) m True unfolding res' by simp
      then show ?thesis using root nb 3 by (auto simp: has_smaller_def intro!: exI[of _ 1])
    qed
  qed
qed (simp add: has_smaller_def)

lemma build_loop_ok:
  assumes "k < m" "m \<le> length arr" "set arr \<subseteq> S"
  shows "\<exists>ys. build_loop cmp arr m k = Some ys \<and> rearranged 0 m arr ys \<and> has_smaller cmp m ys"
  using assms
proof (induction k arbitrary: arr)
  case 0
  obtain ys where y: "sink_with_ele cmp arr m (arr ! 0) 0 = Some ys" "rearranged 0 m arr ys"
    using sink_with_ele_ok[of 0 m arr cmp "arr ! 0"] 0 by auto
  moreover have "0 < length arr" using 0 by linarith
  moreover have "arr ! 0 \<in> S" using \<open>0 < length arr\<close> 0 nth_mem by blast
  ultimately show ?case using sink_with_ele_root[of m arr "arr ! 0" ys] 0 by (simp add: sink_def)
next
  case (Suc k)
  obtain ys where y: "sink_with_ele cmp arr m (arr ! Suc k) (Suc k) = Some ys" "rearranged 0 m arr ys"
    using sink_with_ele_ok[of "Suc k" m arr cmp "arr ! Suc k"] Suc.prems by auto
  have "\<exists>zs. build_loop cmp ys m k = Some zs \<and> rearranged 0 m ys zs \<and> has_smaller cmp m zs"
    using Suc.IH[of ys] Suc.prems rearranged_set[OF y(2)] rearranged_length[OF y(2)] by simp
  then show ?case using y Suc.prems rearranged_trans[OF y(2)] by (auto simp: sink_def)
qed

lemma heap_loop_ok:
  assumes "n \<le> length arr" "set arr \<subseteq> S" "has_smaller cmp n arr"
  shows "\<exists>ys. heap_loop cmp arr n = Some ys \<and> rearranged 0 n arr ys \<and> (\<forall>i < n. 0 \<le> cmp (ys ! 0) (arr ! i))"
  using assms
proof (induction n arbitrary: arr)
  case 0
  then show ?case by simp
next
  case (Suc n)
  show ?case
  proof (cases n)
    case 0
    then have "arr ! 0 \<in> S" using Suc.prems by (cases arr) auto
    then show ?thesis using 0 Suc.prems by (simp add: cmp_refl)
  next
    case (Suc n')
    note n = Suc
    define ele root arr1 where "ele = arr ! n" and "root = arr ! 0" and "arr1 = arr[n := root]"
    have len: "n < length arr" "length arr1 = length arr" using Suc.prems by (simp_all add: arr1_def)
    have swap: "rearranged 0 (Suc n) arr (arr1[0 := ele])"
      using rearranged_swap[of n "Suc n" 0 0 arr] Suc.prems(1) by (simp add: arr1_def ele_def root_def)
    obtain res where r: "sink_with_ele cmp arr1 n ele 0 = Some res" "rearranged 0 n (arr1[0 := ele]) res"
      using sink_with_ele_ok[of 0 n arr1 cmp ele] len n by auto
    have "ele \<in> set arr" "root \<in> set arr"
      using len unfolding ele_def root_def by (intro nth_mem; linarith)+
    then have S: "set (arr1[0 := ele]) \<subseteq> S" "ele \<in> S" "root \<in> S" "set arr1 \<subseteq> S"
      using rearranged_set[OF swap] Suc.prems set_update_subset_insert[of arr n root]
      by (auto simp: arr1_def)
    have "set res \<subseteq> S" "length res = length arr"
      using rearranged_set[OF r(2)] rearranged_length[OF r(2)] S len by simp_all
    moreover have "has_smaller cmp n res" by (rule sink_with_ele_root[OF _ _ S(4,2) r(1)]) (use len n in auto)
    ultimately obtain ys where y: "heap_loop cmp res n = Some ys" "rearranged 0 n res ys"
      "\<forall>i < n. 0 \<le> cmp (ys ! 0) (res ! i)"
      using Suc.IH[of res] Suc.prems len by auto
    have run: "heap_loop cmp arr (Suc n) = Some ys"
    proof -
      have "get arr (Suc n') = Some ele" "get arr 0 = Some root" "set_ele arr (Suc n') root = Some arr1"
        using n len by (cases arr; simp add: get_def set_ele_def ele_def root_def arr1_def)+
      then show ?thesis using n r(1) y(1) by simp
    qed
    have all: "rearranged 0 (Suc n) arr ys"
      using swap rearranged_mono[OF r(2), of 0 "Suc n"] rearranged_mono[OF y(2), of 0 "Suc n"] rearranged_trans
      by (metis le_Suc_eq order_refl)
    have ySet: "ys ! 0 \<in> S"
    proof -
      have "0 < length ys" using rearranged_length[OF all] len by linarith
      then have "ys ! 0 \<in> set ys" by (rule nth_mem)
      then show ?thesis using rearranged_set[OF all] Suc.prems(2) by blast
    qed
    have rest: "0 \<le> cmp (ys ! 0) (arr ! i)" if i: "1 \<le> i" "i < Suc n" for i
    proof -
      define k where "k = (if i = n then 0 else i)"
      have k: "k < n" "arr ! i = arr1[0 := ele] ! k"
      proof -
        have "arr \<noteq> []" using len by auto
        then show "k < n" "arr ! i = arr1[0 := ele] ! k"
          using i n len by (auto simp: k_def arr1_def ele_def)
      qed
      obtain j where "j < n" "arr1[0 := ele] ! k = res ! j"
        using rearranged_mem[OF rearranged_sym[OF r(2)], of k] k len rearranged_length[OF r(2)] by auto
      then show ?thesis using y(3) k by simp
    qed
    have "0 \<le> cmp (ys ! 0) (arr ! 0)"
    proof -
      obtain j where j: "1 \<le> j" "j < Suc n" "0 \<le> cmp (arr ! j) (arr ! 0)"
        using Suc.prems(3) n by (auto simp: has_smaller_def)
      have "0 < length arr" "j < length arr" using j Suc.prems(1) by linarith+
      then have "arr ! j \<in> S" "arr ! 0 \<in> S" using Suc.prems(2) nth_mem by blast+
      then show ?thesis using cmp_trans[OF ySet _ _ rest[OF j(1,2)] j(3)] by simp
    qed
    then show ?thesis using run all rest by (metis less_one not_less)
  qed
qed

lemma heap_sort_ok:
  assumes "11 \<le> n" "n \<le> length arr" "set arr \<subseteq> S"
  shows "\<exists>ys. heap_sort cmp arr n = Some ys \<and> rearranged 0 n arr ys \<and> (\<forall>i < n. 0 \<le> cmp (ys ! 0) (arr ! i))"
proof -
  have k: "sub64 (sub64 11 1) 1 div 2 = 4" by (simp add: sub64_le)
  obtain hs where h: "build_heap cmp arr 11 = Some hs" "rearranged 0 11 arr hs" "has_smaller cmp 11 hs"
  proof -
    have "build_heap cmp arr 11 = build_loop cmp arr 11 4" by (simp only: build_heap_def k) simp
    then show thesis using build_loop_ok[of 4 11 arr] assms that by auto
  qed
  have "has_smaller cmp n hs" using h(3) assms(1) unfolding has_smaller_def by fastforce
  then obtain ys where y: "heap_loop cmp hs n = Some ys" "rearranged 0 n hs ys"
    "\<forall>i < n. 0 \<le> cmp (ys ! 0) (hs ! i)"
    using heap_loop_ok[of n hs] assms rearranged_set[OF h(2)] rearranged_length[OF h(2)] by auto
  have all: "rearranged 0 n arr hs" by (rule rearranged_mono[OF h(2)]) (use assms in auto)
  have "0 \<le> cmp (ys ! 0) (arr ! i)" if i: "i < n" for i
  proof -
    obtain j where "j < n" "arr ! i = hs ! j"
      using rearranged_mem[OF rearranged_sym[OF all], of i] i assms rearranged_length[OF all] by auto
    then show ?thesis using y(3) by simp
  qed
  then show ?thesis using h(1) y(1) rearranged_trans[OF all y(2)] by (auto simp: heap_sort_def)
qed

text \<open>Sorting the rest of an array from a position on.\<close>

lemma rearranged_drop:
  assumes "rearranged 0 n (drop lo arr) part" "lo + n \<le> length arr"
  shows "rearranged lo (lo + n) arr (take lo arr @ part)"
proof -
  have "mset (take lo arr @ part) = mset (take lo arr @ drop lo arr)"
    using assms(1) by (simp only: mset_append rearranged_def)
  moreover have "(take lo arr @ part) ! i = arr ! i" if "i < length arr" "i < lo \<or> lo + n \<le> i" for i
  proof (cases "i < lo")
    case True
    then show ?thesis using that assms(2) by (simp add: nth_append)
  next
    case False
    then have "part ! (i - lo) = drop lo arr ! (i - lo)"
      using that assms by (auto simp: rearranged_def)
    then show ?thesis using False that assms(2) by (simp add: nth_append)
  qed
  ultimately show ?thesis by (simp add: rearranged_def)
qed

lemma heap_sort_from_ok:
  assumes "11 \<le> n" "lo + n \<le> length arr" "set arr \<subseteq> S"
  shows "\<exists>ys. heap_sort_from cmp arr lo n = Some ys \<and> rearranged lo (lo + n) arr ys \<and>
    (\<forall>i. lo \<le> i \<and> i < lo + n \<longrightarrow> 0 \<le> cmp (ys ! lo) (ys ! i))"
proof -
  have S: "set (drop lo arr) \<subseteq> S" by (rule subset_trans[OF set_drop_subset assms(3)])
  obtain part where h: "heap_sort cmp (drop lo arr) n = Some part" "rearranged 0 n (drop lo arr) part"
    "\<forall>i < n. 0 \<le> cmp (part ! 0) (drop lo arr ! i)"
  proof -
    have "n \<le> length (drop lo arr)" using assms(2) by simp
    then show thesis using heap_sort_ok[OF assms(1) _ S] that by blast
  qed
  have r: "rearranged lo (lo + n) arr (take lo arr @ part)" by (rule rearranged_drop[OF h(2) assms(2)])
  have l: "lo \<le> length arr" using assms(2) by linarith
  have "0 \<le> cmp ((take lo arr @ part) ! lo) ((take lo arr @ part) ! i)" if i: "lo \<le> i" "i < lo + n" for i
  proof -
    have "i - lo < n" "n \<le> length (drop lo arr)" using i assms(2) by auto
    then obtain j where "j < n" "part ! (i - lo) = drop lo arr ! j"
      using rearranged_mem[OF h(2), of "i - lo"] by auto
    then show ?thesis using h(3) i l by (simp add: nth_append)
  qed
  then show ?thesis using r h(1) by (auto simp: heap_sort_from_def)
qed

section \<open>Introsort\<close>

lemma range_length: "lo \<le> Suc hi \<Longrightarrow> hi < 2 ^ 64 - 1 \<Longrightarrow> add64 (sub64 hi lo) 1 = Suc hi - lo"
proof -
  assume lo: "lo \<le> Suc hi" and hi: "hi < 2 ^ 64 - 1"
  show ?thesis
  proof (cases "lo \<le> hi")
    case True
    then have "sub64 hi lo = hi - lo" using hi by (intro sub64_le) auto
    moreover have "(int (hi - lo) + 1) mod 2 ^ 64 = int (Suc hi - lo)"
      using True hi by (subst mod_pos_pos_trivial) auto
    ultimately show ?thesis by (simp add: add64_def)
  next
    case False
    then have e: "lo = Suc hi" using lo by simp
    have "int hi - int lo = - 1" by (simp add: e)
    then have "sub64 hi lo = 2 ^ 64 - 1" by (simp add: sub64_def)
    then show ?thesis by (simp add: add64_def e)
  qed
qed

end

text \<open>
  What the insertion sort at the end needs of the quicksort phase: every element behind the first 16
  has one that is not greater among them. The part that reaches the depth limit has its least element
  in front although its heap was only built over 11 elements.
\<close>

definition front_small :: "'b cmp_func_t \<Rightarrow> nat \<Rightarrow> nat \<Rightarrow> 'b list \<Rightarrow> bool" where
  "front_small c lo hi ys \<longleftrightarrow> (\<forall>i. lo + 16 \<le> i \<and> i \<le> hi \<longrightarrow>
     (\<exists>j. lo \<le> j \<and> j < lo + 16 \<and> 0 \<le> c (ys ! j) (ys ! i)))"

context comparator
begin

lemma intro_qsort_ok:
  assumes "hi < length xs" "hi < 2 ^ 64 - 1" "lo \<le> Suc hi" "set xs \<subseteq> S"
  shows "\<exists>ys. intro_qsort cmp xs lo hi d = Some ys \<and> rearranged lo (Suc hi) xs ys \<and> front_small cmp lo hi ys"
  using assms
proof (induction d arbitrary: xs lo hi)
  case 0
  note len = range_length[OF 0(3,2)] range_length[OF 0(3,2), unfolded One_nat_def]
  show ?case
  proof (cases "Suc hi - lo \<le> 16")
    case True
    then show ?thesis
      by (auto simp: intro_qsort.simps[of cmp xs lo hi] len INTRO_LEN_THRESHOLD_def front_small_def)
  next
    case False
    then have n: "11 \<le> Suc hi - lo" "lo + (Suc hi - lo) = Suc hi" by linarith+
    obtain ys where y: "heap_sort_from cmp xs lo (Suc hi - lo) = Some ys" "rearranged lo (Suc hi) xs ys"
      "\<And>i. lo \<le> i \<Longrightarrow> i < Suc hi \<Longrightarrow> 0 \<le> cmp (ys ! lo) (ys ! i)"
      using heap_sort_from_ok[OF n(1), of lo xs] n(2) 0 by auto
    have "front_small cmp lo hi ys"
      unfolding front_small_def
    proof (intro allI impI)
      show "\<exists>j. lo \<le> j \<and> j < lo + 16 \<and> 0 \<le> cmp (ys ! j) (ys ! i)" if "lo + 16 \<le> i \<and> i \<le> hi" for i
        by (rule exI[of _ lo]) (use y(3)[of i] that in simp)
    qed
    then show ?thesis using False y(1,2)
      by (simp add: intro_qsort.simps[of cmp xs lo hi] len INTRO_LEN_THRESHOLD_def)
  qed
next
  case (Suc d)
  note len = range_length[OF Suc.prems(3,2)] range_length[OF Suc.prems(3,2), unfolded One_nat_def]
  show ?case
  proof (cases "Suc hi - lo \<le> 16")
    case True
    then show ?thesis
      by (auto simp: intro_qsort.simps[of cmp xs lo hi] len INTRO_LEN_THRESHOLD_def front_small_def)
  next
    case False
    then have lh: "lo < hi" by simp
    from Suc.prems(2) have "hi < 2 ^ 64" by simp
    from partition_ok[OF lh Suc.prems(1) this Suc.prems(4)] obtain ys l g p where
      q: "qsort_3_way_partition cmp xs lo hi = Some (ys, l, g)" "rearranged lo (Suc hi) xs ys"
      "parting cmp lo hi p ys l (Suc g) g" "p \<in> S" .
    note pa = q(3)[unfolded parting_def]
    have lg: "lo \<le> l" "l \<le> g" "g \<le> hi" using pa by auto
    have ys: "set ys \<subseteq> S" "length ys = length xs"
      using rearranged_set[OF q(2)] rearranged_length[OF q(2)] Suc.prems(4) by simp_all
    have "\<exists>zs. (if l > 0 then intro_qsort cmp ys lo (l - 1) d else Some ys) = Some zs \<and> rearranged lo l ys zs \<and>
      (\<forall>i. lo + 16 \<le> i \<and> i < l \<longrightarrow> (\<exists>j. lo \<le> j \<and> j < lo + 16 \<and> 0 \<le> cmp (zs ! j) (zs ! i)))"
    proof (cases "l > 0")
      case True
      have b: "l - 1 < length ys" "l - 1 < 2 ^ 64 - 1" "lo \<le> Suc (l - 1)" "Suc (l - 1) = l"
        using True lg Suc.prems(1,2) ys(2) by linarith+
      obtain zs where "intro_qsort cmp ys lo (l - 1) d = Some zs" "rearranged lo l ys zs" "front_small cmp lo (l - 1) zs"
        using Suc.IH[OF b(1-3) ys(1)] b(4) by auto
      moreover have "i \<le> l - 1 \<longleftrightarrow> i < l" for i using True by linarith
      ultimately show ?thesis using True by (simp add: front_small_def)
    qed auto
    then obtain zs where z: "(if l > 0 then intro_qsort cmp ys lo (l - 1) d else Some ys) = Some zs"
      "rearranged lo l ys zs"
      "\<And>i. lo + 16 \<le> i \<Longrightarrow> i < l \<Longrightarrow> \<exists>j. lo \<le> j \<and> j < lo + 16 \<and> 0 \<le> cmp (zs ! j) (zs ! i)" by blast
    have zs: "set zs \<subseteq> S" "length zs = length xs" "parting cmp lo hi p zs l (Suc g) g"
      using rearranged_set[OF z(2)] rearranged_length[OF z(2)] ys parting_left[OF q(3) z(2)] by simp_all
    obtain us where u: "intro_qsort cmp zs (g + 1) hi d = Some us" "rearranged (Suc g) (Suc hi) zs us"
      using Suc.IH[of hi zs "g + 1"] Suc.prems zs(1,2) lg by auto
    have us: "set us \<subseteq> S" "parting cmp lo hi p us l (Suc g) g"
      using rearranged_set[OF u(2)] zs parting_right[OF zs(3) u(2)] by simp_all
    have run: "intro_qsort cmp xs lo hi (Suc d) = Some us"
      using False q(1) z(1) u(1)
      by (subst intro_qsort.simps, cases "l > 0") (simp_all add: len INTRO_LEN_THRESHOLD_def)
    have all: "rearranged lo (Suc hi) xs us"
    proof -
      have "rearranged lo (Suc hi) ys zs" "rearranged lo (Suc hi) zs us"
        using rearranged_mono[OF z(2), of lo "Suc hi"] rearranged_mono[OF u(2), of lo "Suc hi"] lg by auto
      then show ?thesis using q(2) rearranged_trans by blast
    qed
    have "\<exists>j. lo \<le> j \<and> j < lo + 16 \<and> 0 \<le> cmp (us ! j) (us ! i)" if i: "lo + 16 \<le> i" "i \<le> hi" for i
    proof (cases "i < l")
      case True
      from z(3)[OF i(1) True] obtain j where j: "lo \<le> j" "j < lo + 16" "0 \<le> cmp (zs ! j) (zs ! i)" by blast
      have "us ! i = zs ! i" "us ! j = zs ! j"
        using rearranged_out[OF u(2)] lg i True j zs(2) Suc.prems(1) by auto
      then show ?thesis using j by auto
    next
      case False
      then have "0 \<le> cmp (us ! lo) (us ! i)"
        using parting_order[OF us(2) q(4) us(1) order_refl, of i] i lg by linarith
      then show ?thesis by (intro exI[of _ lo]) simp
    qed
    then have "front_small cmp lo hi us" by (simp add: front_small_def)
    then show ?thesis using run all by blast
  qed
qed

lemma front_head:
  assumes "front_small cmp 0 hi ys" "16 \<le> i" "i \<le> hi" "hi < length ys" "set ys \<subseteq> S"
    "ascending cmp zs" "mset zs = mset (take 16 ys)"
  shows "0 \<le> cmp (hd zs) (ys ! i)"
proof -
  obtain j where j: "j < 16" "0 \<le> cmp (ys ! j) (ys ! i)"
    using assms(1-3) by (auto simp: front_small_def)
  have "ys ! j \<in> set zs"
    using assms(2-4,7) j(1) by (metis in_set_conv_nth length_take min.absorb2 min_less_iff_conj nth_take
        order_less_le_trans order_less_trans set_mset_mset less_imp_le linorder_not_le)
  then obtain z zs' where z: "zs = z # zs'" by (cases zs) auto
  have sub: "set zs \<subseteq> S" using assms(5,7) set_take_subset[of 16 ys] by (metis order_trans set_mset_mset)
  then have S: "z \<in> S" "ys ! j \<in> S" "ys ! i \<in> S" using z \<open>ys ! j \<in> set zs\<close> assms by auto
  have "0 \<le> cmp z (ys ! j)"
    using \<open>ys ! j \<in> set zs\<close> assms(6) S z by (auto simp: ascending_def cmp_refl)
  then show ?thesis using cmp_trans[OF S] j(2) z by simp
qed

lemma intro_insert_sort_ok:
  assumes "front_small cmp 0 (n - 1) ys" "0 < n" "n \<le> length ys" "set ys \<subseteq> S"
  shows "\<exists>zs. intro_insert_sort cmp ys n = Some (zs @ drop n ys) \<and> ascending cmp zs \<and> mset zs = mset (take n ys)"
proof (cases "16 < n")
  case False
  then show ?thesis
    using insertion_sort_ok[OF assms(3)] assms(4) set_take_subset[of n ys]
    by (auto simp: intro_insert_sort_def INTRO_LEN_THRESHOLD_def)
next
  case True
  have 16: "16 \<le> length ys" "set (take 16 ys) \<subseteq> S"
    using True assms(3,4) set_take_subset[of 16 ys] by auto
  obtain zs where z: "insertion_sort cmp ys 16 = Some (zs @ drop 16 ys)" "ascending cmp zs" "mset zs = mset (take 16 ys)"
    using insertion_sort_ok[OF 16] by blast
  have zl: "length zs = 16" using arg_cong[OF z(3), of size] 16(1) by simp
  define rest where "rest = take (n - 16) (drop 16 ys)"
  have rl: "length rest = n - 16" using assms(3) by (simp add: rest_def)
  have split: "drop 16 ys = rest @ drop n ys"
    using True by (simp add: rest_def) (metis append_take_drop_id drop_drop le_add_diff_inverse2 less_imp_le)
  have "0 \<le> cmp (hd zs) r" if r: "r \<in> set rest" for r
  proof -
    obtain k where k: "k < n - 16" "r = ys ! (16 + k)"
      using r rl assms(3) by (auto simp: in_set_conv_nth rest_def)
    then show ?thesis
      using front_head[OF assms(1) _ _ _ assms(4) z(2,3), of "16 + k"] assms(2,3) by simp
  qed
  moreover have "zs \<noteq> []" "set zs \<subseteq> S" "set rest \<subseteq> S"
    using zl 16(2) z(3) assms(4) by (auto simp: rest_def dest!: in_set_takeD in_set_dropD mset_eq_setD)
  ultimately obtain us where u: "intro_insert_loop cmp (zs @ rest @ drop n ys) (length zs + length rest) (length zs)
      = Some (us @ drop n ys)" "ascending cmp us" "mset us = mset (zs @ rest)"
    using intro_insert_loop_ok[OF z(2), of rest "drop n ys"] by blast
  have "take n ys = take 16 ys @ rest"
    using True by (simp add: rest_def) (metis le_add_diff_inverse less_imp_le take_add)
  then have "mset us = mset (take n ys)" using u(3) z(3) by simp
  moreover have "intro_insert_sort cmp ys n = Some (us @ drop n ys)"
    using True z(1) u(1) zl rl split by (simp add: intro_insert_sort_def INTRO_LEN_THRESHOLD_def)
  ultimately show ?thesis using u(2) by blast
qed

lemma intro_sort_ok:
  assumes "n \<le> length xs" "n < 2 ^ 64" "set xs \<subseteq> S"
  shows "\<exists>zs. intro_sort cmp xs n = Some (zs @ drop n xs) \<and> ascending cmp zs \<and> mset zs = mset (take n xs)"
proof -
  consider "n = 0" | "n = 1" | "2 \<le> n" by linarith
  then show ?thesis
  proof cases
    case 1
    have "sub64 0 1 = 2 ^ 64 - 1" "add64 (sub64 (2 ^ 64 - 1) 0) 1 = 0"
      by (simp_all add: sub64_def add64_def)
    then have "intro_qsort cmp xs 0 (sub64 0 1) (DEPTH_LIMIT 0) = Some xs"
      by (simp add: intro_qsort.simps)
    then show ?thesis
      using 1 by (simp add: intro_sort_def intro_insert_sort_def insertion_sort_def insertion_loop.simps ascending_def)
  next
    case 2
    then have "xs = hd xs # drop n xs" "take n xs = [hd xs]" using assms(1) by (cases xs; simp)+
    then show ?thesis using 2 by (intro exI[of _ "[hd xs]"]) (auto simp: intro_sort_def ascending_def)
  next
    case 3
    have h: "n - 1 < length xs" "n - 1 < 2 ^ 64 - 1" "0 \<le> Suc (n - 1)" "Suc (n - 1) = n" "0 < n" "n \<noteq> 1"
      using 3 assms by linarith+
    obtain ys where y: "intro_qsort cmp xs 0 (n - 1) (DEPTH_LIMIT n) = Some ys" "rearranged 0 n xs ys"
      "front_small cmp 0 (n - 1) ys"
      using intro_qsort_ok[OF h(1,2,3) assms(3)] h(4) by metis
    have ys: "n \<le> length ys" "set ys \<subseteq> S"
      using rearranged_length[OF y(2)] rearranged_set[OF y(2)] assms by simp_all
    obtain zs where z: "intro_insert_sort cmp ys n = Some (zs @ drop n ys)" "ascending cmp zs" "mset zs = mset (take n ys)"
      using intro_insert_sort_ok[OF y(3) h(5) ys] by blast
    have "drop n ys = drop n xs"
      using y(2) rearranged_length[OF y(2)] assms(1) by (auto intro!: nth_equalityI simp: rearranged_def)
    moreover have "mset (take n ys) = mset (take n xs)" using rearranged_range[OF y(2) assms(1)] by simp
    moreover have "intro_sort cmp xs n = intro_insert_sort cmp ys n"
      using h y(1) sub64_1[OF h(5) assms(2)] by (simp add: intro_sort_def)
    ultimately show ?thesis using z by metis
  qed
qed

end

end
