(* ===== verification/Sort_Props.thy ===== *)
theory Sort_Props
  imports Sort_Intro
begin

text \<open>The properties of the sorting routines, for every comparison that orders the elements that occur.\<close>

section \<open>The routines\<close>

text \<open>
  Insertion sort returns for every array and count within it, with the first elements permuted
  into ascending order and the rest untouched.
\<close>

lemma insertion_sort_sorts:
  assumes "comparator cmp S" "n \<le> length arr" "set (take n arr) \<subseteq> S"
  shows "\<exists>zs. insertion_sort cmp arr n = Some (zs @ drop n arr) \<and> ascending cmp zs \<and> mset zs = mset (take n arr)"
  by (rule comparator.insertion_sort_ok[OF assms])

lemma insertion_sort_sorts_witness:
  "\<exists>zs. insertion_sort int_cmp [3, 1, 2, 1, 7] 4 = Some (zs @ [7]) \<and> ascending int_cmp zs \<and> mset zs = {#1, 1, 2, 3#}"
  using insertion_sort_sorts[OF small_ints.comparator_axioms, of 4 "[3, 1, 2, 1, 7]"]
  by (simp add: small_int_def add_mset_commute)

text \<open>
  C34: Quicksort returns for every non-empty count, with the first elements permuted into ascending
  order and the rest untouched; for a count of 0 it takes the range up to \<open>2 ^ 64 - 1\<close> and reads outside
  the array.
\<close>

theorem quick_sort_sorts:
  assumes "comparator cmp S" "n \<le> length arr" "length arr < 2 ^ 64 - 1" "set arr \<subseteq> S"
  shows "if n = 0 then quick_sort cmp arr n = None
    else \<exists>zs. quick_sort cmp arr n = Some (zs @ drop n arr) \<and> ascending cmp zs \<and> mset zs = mset (take n arr)"
proof (cases "n = 0")
  case True
  have s: "sub64 0 1 = 2 ^ 64 - 1" by (simp add: sub64_def)
  have "get arr (2 ^ 64 - 1) = None" using assms(3) by (simp add: get_def)
  then have "qsort_3_way_partition cmp arr 0 (2 ^ 64 - 1) = None"
    by (cases "get arr 0"; cases "get arr (0 + (2 ^ 64 - 1 - 0) div 2)")
      (simp_all add: qsort_3_way_partition_def qsort_medianOf3_def del: get_simps)
  then have "quick_sort_range cmp arr 0 (2 ^ 64 - 1) = None" by (subst quick_sort_range.simps) simp
  then show ?thesis using True unfolding quick_sort_def by (simp only: s simp_thms if_True)
next
  case False
  then show ?thesis using comparator.quick_sort_ok[OF assms(1) _ assms(2) _ assms(4)] assms(2,3) by simp
qed

lemma quick_sort_sorts_witness:
  "quick_sort int_cmp [3, 1] 0 = None \<and>
   (\<exists>zs. quick_sort int_cmp [3, 1, 2, 1, 7] 4 = Some (zs @ [7]) \<and> ascending int_cmp zs \<and> mset zs = {#1, 1, 2, 3#})"
  using quick_sort_sorts[OF small_ints.comparator_axioms, of 4 "[3, 1, 2, 1, 7]"]
    quick_sort_sorts[OF small_ints.comparator_axioms, of 0 "[3, 1]"]
  by (simp add: small_int_def add_mset_commute)

text \<open>
  C33: Introsort returns for every count, with the first elements permuted into ascending order, the
  assertion of its unguarded insertions holding throughout, also where the depth limit hands a part of
  the array to heap sort.
\<close>

theorem intro_sort_sorts:
  assumes "comparator cmp S" "n \<le> length arr" "n < 2 ^ 64" "set arr \<subseteq> S"
  shows "\<exists>zs. intro_sort cmp arr n = Some (zs @ drop n arr) \<and> ascending cmp zs \<and> mset zs = mset (take n arr)"
  by (rule comparator.intro_sort_ok[OF assms])

lemma intro_sort_sorts_witness:
  "\<exists>zs. intro_sort int_cmp [3, 1, 2, 1, 7] 4 = Some (zs @ [7]) \<and> ascending int_cmp zs \<and> mset zs = {#1, 1, 2, 3#}"
  using intro_sort_sorts[OF small_ints.comparator_axioms, of 4 "[3, 1, 2, 1, 7]"]
  by (simp add: small_int_def add_mset_commute)

text \<open>
  C35: Heap sort builds its heap over 11 elements whatever the count is: in a shorter array it reads
  outside the array, and the 12 numbers from 1 to 12 in order come out with the last two exchanged.
\<close>

theorem heap_sort_eleven:
  "(\<forall>arr. length arr < 11 \<longrightarrow> heap_sort cmp arr n = None) \<and>
   heap_sort int_cmp [1, 2, 3, 4, 5, 6, 7, 8, 9, 10, 11, 12] 12 =
     Some [1, 2, 3, 4, 5, 6, 7, 8, 9, 10, 12, 11]"
proof (intro conjI allI impI)
  fix arr :: "'a list"
  assume len: "length arr < 11"
  have k: "sub64 (sub64 11 1) 1 div 2 = Suc 3" by (simp add: sub64_le)
  have "get arr (2 * Suc 3 + 1 + 1) = None" using len by (simp add: get_def)
  then have "greater_child cmp arr 11 (Suc 3) = None"
    by (cases "get arr (2 * Suc 3 + 1)") (simp_all add: greater_child_def)
  then have "sink_loop cmp arr 11 ele (Suc 3) = None" for ele by (subst sink_loop.simps) simp
  then have "sink cmp arr 11 (Suc 3) = None"
    by (cases "get arr (Suc 3)") (simp_all add: sink_def sink_with_ele_def)
  then have "build_loop cmp arr 11 (Suc 3) = None" by (simp only: build_loop.simps Option.bind.simps)
  then have "build_heap cmp arr 11 = None" by (simp only: build_heap_def k) simp
  then show "heap_sort cmp arr n = None" by (simp add: heap_sort_def)
next
  show "heap_sort int_cmp [1, 2, 3, 4, 5, 6, 7, 8, 9, 10, 11, 12] 12 =
     Some [1, 2, 3, 4, 5, 6, 7, 8, 9, 10, 12, 11]" by code_simp
qed

lemma heap_sort_eleven_witness: "heap_sort int_cmp [3, 1, 2] 3 = None"
  using heap_sort_eleven[of int_cmp 3] by simp

end
