(* ===== verification/Srt_Seg.thy ===== *)
theory Srt_Seg
  imports Prelude
begin

text \<open>
  Segments of the simple reliable transport (\<^verbatim>\<open>Networks/DartNet/SRT/common\<close>): the header and the
  bytes of a segment, sending one between the marks \<^verbatim>\<open>!&\<close> and \<^verbatim>\<open>!#\<close>, and the state machine that finds
  segments in the received byte stream, with the simulated loss.
\<close>

section \<open>Segments\<close>

definition MAX_SEG_LEN :: nat where "MAX_SEG_LEN = 1500"

text \<open>\<^verbatim>\<open>enum seg_type_t\<close>; the header stores its number.\<close>

datatype seg_type_t = SYN | SYNACK | FIN | FINACK | DATA | DATAACK

fun seg_type_num :: "seg_type_t \<Rightarrow> u16" where
  "seg_type_num SYN = 0"
| "seg_type_num SYNACK = 1"
| "seg_type_num FIN = 2"
| "seg_type_num FINACK = 3"
| "seg_type_num DATA = 4"
| "seg_type_num DATAACK = 5"

record srt_hdr_t =
  src_port :: u32
  dest_port :: u32
  seq_num :: u32
  ack_num :: u32
  hdr_length :: u16
  hdr_type :: u16
  rcv_win :: u16
  checksum :: u16

record seg_t =
  header :: srt_hdr_t
  data :: "u8 list"

text \<open>The bytes of a segment in memory, the least significant byte of a field first.\<close>

definition le16 :: "u16 \<Rightarrow> u8 list" where "le16 w = [ucast w, ucast (drop_bit 8 w)]"

definition le32 :: "u32 \<Rightarrow> u8 list" where
  "le32 w = [ucast w, ucast (drop_bit 8 w), ucast (drop_bit 16 w), ucast (drop_bit 24 w)]"

definition hdr_bytes :: "srt_hdr_t \<Rightarrow> u8 list" where
  "hdr_bytes h = le32 (src_port h) @ le32 (dest_port h) @ le32 (seq_num h) @ le32 (ack_num h) @
     le16 (hdr_length h) @ le16 (hdr_type h) @ le16 (rcv_win h) @ le16 (checksum h)"

definition seg_bytes :: "seg_t \<Rightarrow> u8 list" where "seg_bytes s = hdr_bytes (header s) @ data s"

definition sizeof_seg :: nat where "sizeof_seg = 24 + MAX_SEG_LEN"

section \<open>Sending\<close>

text \<open>
  The outcomes of the calls of \<^verbatim>\<open>send\<close>: an error, or the number of bytes it took, which the code does
  not look at. The result is the return value and the bytes that went out.
\<close>

fun send :: "nat option \<Rightarrow> u8 list \<Rightarrow> u8 list option" where
  "send None bytes = None"
| "send (Some n) bytes = Some (take n bytes)"

fun sendseg :: "nat option \<times> nat option \<times> nat option \<Rightarrow> u8 list \<Rightarrow> int \<times> u8 list" where
  "sendseg (r1, r2, r3) segPtr =
     (case send r1 [33, 38] of None \<Rightarrow> (- 1, [])
      | Some a \<Rightarrow> (case send r2 segPtr of None \<Rightarrow> (- 1, a)
        | Some b \<Rightarrow> (case send r3 [33, 35] of None \<Rightarrow> (- 1, a @ b)
          | Some c \<Rightarrow> (1, a @ b @ c))))"

section \<open>Receiving\<close>

text \<open>
  \<^verbatim>\<open>seglost\<close> compares a random number modulo 100 with \<^verbatim>\<open>LOSS_RATE*100\<close>, which is 5; \<open>rnd k\<close> is the
  \<open>k\<close>-th value of \<^verbatim>\<open>rand()\<close>.
\<close>

definition seglost :: "nat \<Rightarrow> bool" where "seglost r \<longleftrightarrow> r mod 100 < 5"

text \<open>
  What \<^verbatim>\<open>recvseg\<close> does: return a segment (with what is left of the stream and the number of random values
  used), return -1 at the end of the stream, or write behind its buffer.
\<close>

datatype recv_result = Received "u8 list" "u8 list" nat | Closed | Overflow

definition buf_size :: nat where "buf_size = sizeof_seg + 2"

definition put_buf :: "u8 list \<Rightarrow> nat \<Rightarrow> u8 \<Rightarrow> u8 list option" where
  "put_buf buf idx c = (if idx < buf_size then Some (buf[idx := c]) else None)"

fun recv_loop :: "(nat \<Rightarrow> nat) \<Rightarrow> nat \<Rightarrow> nat \<Rightarrow> u8 list \<Rightarrow> nat \<Rightarrow> u8 list \<Rightarrow> recv_result" where
  "recv_loop rnd k state buf idx [] = Closed"
| "recv_loop rnd k state buf idx (c # stream) =
     (if state = 0 then recv_loop rnd k (if c = 33 then 1 else 0) buf idx stream
      else if state = 1 then recv_loop rnd k (if c = 38 then 2 else 0) buf idx stream
      else case put_buf buf idx c of None \<Rightarrow> Overflow
        | Some buf \<Rightarrow>
            if state = 2 then recv_loop rnd k (if c = 33 then 3 else 2) buf (idx + 1) stream
            else if c = 35 then
              (if seglost (rnd k) then recv_loop rnd (k + 1) 0 buf 0 stream
               else Received (take sizeof_seg buf) stream (k + 1))
            else if c = 33 then recv_loop rnd k 3 buf (idx + 1) stream
            else recv_loop rnd k 2 buf (idx + 1) stream)"

text \<open>The buffer is a local array: \<open>buf\<close> is what the stack holds at the start.\<close>

definition recvseg :: "(nat \<Rightarrow> nat) \<Rightarrow> nat \<Rightarrow> u8 list \<Rightarrow> u8 list \<Rightarrow> recv_result" where
  "recvseg rnd k buf stream = recv_loop rnd k 0 buf 0 stream"

section \<open>Frames come back\<close>

text \<open>A payload without the end mark inside.\<close>

fun no_mark :: "u8 list \<Rightarrow> bool" where
  "no_mark (x # y # xs) \<longleftrightarrow> \<not> (x = 33 \<and> y = 35) \<and> no_mark (y # xs)"
| "no_mark _ \<longleftrightarrow> True"

text \<open>
  While the payload arrives, the buffer fills up; the state is 3 exactly when the last byte was an
  exclamation mark.
\<close>

definition in_payload :: "u8 list \<Rightarrow> nat" where
  "in_payload p = (if p \<noteq> [] \<and> last p = 33 then 3 else 2)"

lemma no_mark_append: "no_mark (p @ q) \<longleftrightarrow> no_mark p \<and> no_mark q \<and> \<not> (p \<noteq> [] \<and> q \<noteq> [] \<and> last p = 33 \<and> hd q = 35)"
  by (induction p rule: no_mark.induct; cases q; auto)

lemma recv_bytes:
  assumes "length buf = buf_size" "length got + length p \<le> buf_size" "no_mark (got @ p)"
  shows "recv_loop rnd k (in_payload got) (got @ drop (length got) buf) (length got) (p @ stream) =
    recv_loop rnd k (in_payload (got @ p)) (got @ p @ drop (length got + length p) buf)
      (length got + length p) stream"
  using assms(2,3)
proof (induction p arbitrary: got)
  case (Cons c p)
  have lt: "length got < buf_size" using Cons.prems(1) by simp
  have put: "put_buf (got @ drop (length got) buf) (length got) c
      = Some ((got @ [c]) @ drop (length (got @ [c])) buf)"
    using lt assms(1) by (simp add: put_buf_def list_update_append Cons_nth_drop_Suc[symmetric])
  have n: "no_mark ((got @ [c]) @ p)" using Cons.prems(2) by simp
  then have "\<not> (got \<noteq> [] \<and> last got = 33 \<and> c = 35)"
    unfolding append_assoc no_mark_append[of got] by simp
  then have "recv_loop rnd k (in_payload got) (got @ drop (length got) buf) (length got) ((c # p) @ stream)
      = recv_loop rnd k (in_payload (got @ [c])) ((got @ [c]) @ drop (length (got @ [c])) buf)
          (length (got @ [c])) (p @ stream)"
    using put by (auto simp: in_payload_def)
  also have "\<dots> = recv_loop rnd k (in_payload ((got @ [c]) @ p)) ((got @ [c]) @ p @ drop (length (got @ [c]) + length p) buf)
      (length (got @ [c]) + length p) stream"
    by (rule Cons.IH) (use Cons.prems n in auto)
  finally show ?case by simp
qed simp

lemma recv_frame:
  assumes "length buf = buf_size" "length p \<le> sizeof_seg" "no_mark p"
  shows "recv_loop rnd k 0 buf 0 ([33, 38] @ p @ [33, 35] @ stream) =
    (let buf' = p @ [33, 35] @ drop (length p + 2) buf in
     if seglost (rnd k) then recv_loop rnd (k + 1) 0 buf' 0 stream
     else Received (take sizeof_seg buf') stream (k + 1))"
proof -
  have n: "no_mark (p @ [33])" using assms(3) by (simp add: no_mark_append)
  have b: "length p + 1 \<le> buf_size" using assms(2) by (simp add: buf_size_def)
  have "recv_loop rnd k 2 buf 0 ((p @ [33]) @ 35 # stream)
      = recv_loop rnd k 3 (p @ 33 # drop (length p + 1) buf) (length p + 1) (35 # stream)"
    using recv_bytes[of buf "[]" "p @ [33]" rnd k "35 # stream"] assms(1) b n by (simp add: in_payload_def)
  moreover have "put_buf (p @ 33 # drop (length p + 1) buf) (length p + 1) 35 = Some (p @ [33, 35] @ drop (length p + 2) buf)"
    using assms(1,2) by (simp add: put_buf_def buf_size_def list_update_append Cons_nth_drop_Suc[symmetric])
  ultimately show ?thesis by (simp add: Let_def)
qed


section \<open>The bytes of a segment as a segment\<close>

definition of_le16 :: "u8 list \<Rightarrow> u16" where
  "of_le16 bs = ucast (bs ! 0) OR push_bit 8 (ucast (bs ! 1))"

definition of_le32 :: "u8 list \<Rightarrow> u32" where
  "of_le32 bs = ucast (bs ! 0) OR push_bit 8 (ucast (bs ! 1)) OR push_bit 16 (ucast (bs ! 2))
     OR push_bit 24 (ucast (bs ! 3))"

definition seg_of_bytes :: "u8 list \<Rightarrow> seg_t" where
  "seg_of_bytes bs = \<lparr>header = \<lparr>src_port = of_le32 bs, dest_port = of_le32 (drop 4 bs),
     seq_num = of_le32 (drop 8 bs), ack_num = of_le32 (drop 12 bs), hdr_length = of_le16 (drop 16 bs),
     hdr_type = of_le16 (drop 18 bs), rcv_win = of_le16 (drop 20 bs), checksum = of_le16 (drop 22 bs)\<rparr>,
     data = drop 24 bs\<rparr>"

lemma of_le16: "of_le16 (le16 w @ bs) = w"
  unfolding of_le16_def le16_def
  by (rule bit_word_eqI) (auto simp: bit_simps bit_or_iff)

lemma of_le32: "of_le32 (le32 w @ bs) = w"
proof (rule bit_word_eqI)
  fix n assume "n < LENGTH(32)"
  then consider "n < 8" | "8 \<le> n" "n < 16" | "16 \<le> n" "n < 24" | "24 \<le> n" "n < 32" by fastforce
  then show "bit (of_le32 (le32 w @ bs)) n = bit w n"
    by cases (auto simp: of_le32_def le32_def bit_simps bit_or_iff)
qed

lemma le_lengths [simp]: "length (le16 w) = 2" "length (le32 v) = 4"
  by (simp_all add: le16_def le32_def)

lemma seg_of_seg_bytes: "seg_of_bytes (seg_bytes s) = s"
  by (cases s) (simp add: seg_of_bytes_def seg_bytes_def hdr_bytes_def of_le16 of_le32)


section \<open>Round trip\<close>

definition sent_whole :: "nat option \<times> nat option \<times> nat option" where
  "sent_whole = (Some 2, Some sizeof_seg, Some 2)"

definition frame :: "seg_t \<Rightarrow> u8 list" where "frame s = snd (sendseg sent_whole (seg_bytes s))"

lemma frame_eq: "length (seg_bytes s) = sizeof_seg \<Longrightarrow> frame s = [33, 38] @ seg_bytes s @ [33, 35]"
  by (simp add: frame_def sent_whole_def)

lemma recv_frames:
  assumes "\<forall>s\<in>set segs. length (data s) = MAX_SEG_LEN \<and> no_mark (seg_bytes s)"
    "n < length segs" "\<forall>i<n. seglost (rnd (k + i))" "\<not> seglost (rnd (k + n))" "length buf = buf_size"
  shows "recv_loop rnd k 0 buf 0 (concat (map frame segs) @ rest) =
    Received (seg_bytes (segs ! n)) (concat (map frame (drop (Suc n) segs)) @ rest) (Suc (k + n))"
  using assms
proof (induction n arbitrary: segs k buf)
  case 0
  then obtain s ss where s: "segs = s # ss" by (cases segs) auto
  have l: "length (seg_bytes s) = sizeof_seg"
    using 0 s by (simp add: seg_bytes_def hdr_bytes_def sizeof_seg_def)
  show ?case
    using recv_frame[OF 0(5), of "seg_bytes s" rnd k "concat (map frame ss) @ rest"] 0 s l
    by (simp add: frame_eq Let_def)
next
  case (Suc n)
  then obtain s ss where s: "segs = s # ss" by (cases segs) auto
  have l: "length (seg_bytes s) = sizeof_seg"
    using Suc.prems s by (simp add: seg_bytes_def hdr_bytes_def sizeof_seg_def)
  have lost: "seglost (rnd k)" using Suc.prems(3) by force
  have l1: "\<forall>i<n. seglost (rnd (Suc k + i))" using Suc.prems(3) by auto
  define buf' where "buf' = seg_bytes s @ [33, 35] @ drop (length (seg_bytes s) + 2) buf"
  have b: "length buf' = buf_size" using Suc.prems(5) l by (simp add: buf'_def buf_size_def)
  have "recv_loop rnd k 0 buf 0 (concat (map frame segs) @ rest) = recv_loop rnd (Suc k) 0 buf' 0 (concat (map frame ss) @ rest)"
    using recv_frame[OF Suc.prems(5), of "seg_bytes s" rnd k "concat (map frame ss) @ rest"] Suc.prems(1) s l lost
    by (simp add: frame_eq Let_def buf'_def)
  also have "\<dots> = Received (seg_bytes (ss ! n)) (concat (map frame (drop (Suc n) ss)) @ rest) (Suc (Suc k + n))"
    by (rule Suc.IH) (use Suc.prems s b l1 in auto)
  finally show ?case by (simp add: s)
qed

text \<open>
  C39: A sequence of segments none of which contains the end mark, each sent by \<^verbatim>\<open>sendseg\<close> without a
  send error, comes back: the receiver returns the bytes of the first segment that the simulated loss
  spares, they decode to that segment, and the stream goes on behind it.
\<close>

theorem segments_come_back:
  assumes "\<forall>s\<in>set segs. length (data s) = MAX_SEG_LEN \<and> no_mark (seg_bytes s)"
    "n < length segs" "\<forall>i<n. seglost (rnd (k + i))" "\<not> seglost (rnd (k + n))" "length buf = buf_size"
  shows "\<exists>bytes. recvseg rnd k buf (concat (map frame segs) @ rest) =
      Received bytes (concat (map frame (drop (Suc n) segs)) @ rest) (Suc (k + n))
    \<and> seg_of_bytes bytes = segs ! n"
  using recv_frames[OF assms] by (simp add: recvseg_def seg_of_seg_bytes)

definition blank_seg :: "seg_type_t \<Rightarrow> seg_t" where
  "blank_seg t = \<lparr>header = \<lparr>src_port = 5, dest_port = 7, seq_num = 0, ack_num = 0, hdr_length = 0,
     hdr_type = seg_type_num t, rcv_win = 0, checksum = 0\<rparr>, data = replicate MAX_SEG_LEN 0\<rparr>"

lemma no_mark_replicate: "no_mark (replicate n 0)"
proof (induction n)
  case (Suc n)
  then show ?case by (cases n) auto
qed simp

lemma no_mark_blank: "no_mark (seg_bytes (blank_seg t))"
proof -
  have "no_mark (hdr_bytes (header (blank_seg t))) \<and> last (hdr_bytes (header (blank_seg t))) \<noteq> 33"
    by (cases t) (simp_all add: blank_seg_def hdr_bytes_def le32_def le16_def)
  then show ?thesis unfolding seg_bytes_def no_mark_append by (simp add: blank_seg_def no_mark_replicate)
qed

lemma segments_come_back_witness:
  "\<exists>bytes rest. recvseg (\<lambda>k. 4 * k) 1 (replicate buf_size 9) (frame (blank_seg SYN) @ frame (blank_seg FIN)) =
      Received bytes rest 3 \<and> seg_of_bytes bytes = blank_seg FIN"
proof -
  have "length (data (blank_seg t)) = MAX_SEG_LEN" for t by (simp add: blank_seg_def)
  then have "\<exists>bytes. recvseg (\<lambda>k. 4 * k) 1 (replicate buf_size 9) (frame (blank_seg SYN) @ frame (blank_seg FIN)) =
      Received bytes [] 3 \<and> seg_of_bytes bytes = blank_seg FIN"
    using segments_come_back[of "[blank_seg SYN, blank_seg FIN]" 1 "\<lambda>k. 4 * k" 1 "replicate buf_size 9" "[]"]
    by (simp add: no_mark_blank seglost_def numeral_3_eq_3)
  then show ?thesis by blast
qed

text \<open>
  A segment whose bytes contain the end mark is cut there: the receiver returns the bytes up to
  the mark followed by whatever its buffer held before, and takes the rest of the segment for noise.
\<close>

lemma mark_cuts_segment:
  assumes "seg_bytes s = p @ [33, 35] @ r" "no_mark p" "length (data s) = MAX_SEG_LEN"
    "\<not> seglost (rnd k)" "length buf = buf_size"
  shows "recvseg rnd k buf (frame s @ rest) =
    Received (p @ [33, 35] @ take (length r) (drop (length p + 2) buf)) (r @ [33, 35] @ rest) (Suc k)"
proof -
  have l: "length (seg_bytes s) = sizeof_seg"
    using assms(3) by (simp add: seg_bytes_def hdr_bytes_def sizeof_seg_def)
  then have p: "length p + 2 + length r = sizeof_seg" by (simp add: assms(1))
  then have "length p \<le> sizeof_seg" by linarith
  from recv_frame[OF assms(5) this assms(2), of rnd k "r @ [33, 35] @ rest"] show ?thesis
    using assms(4) p by (simp add: recvseg_def frame_eq[OF l] assms(1) Let_def flip: p)
qed

lemma mark_cuts_segment_witness:
  "\<exists>s bytes r. recvseg (\<lambda>_. 50) 0 (replicate buf_size 9) (frame s) = Received bytes r 1 \<and> seg_of_bytes bytes \<noteq> s"
proof -
  define s where "s = blank_seg DATA\<lparr>data := [33, 35] @ replicate 1498 0\<rparr>"
  define p where "p = hdr_bytes (header s)"
  have b: "seg_bytes s = p @ [33, 35] @ replicate 1498 0" by (simp add: seg_bytes_def s_def p_def)
  have n: "no_mark p" by (simp add: p_def s_def blank_seg_def hdr_bytes_def le32_def le16_def)
  have r: "recvseg (\<lambda>_. 50) 0 (replicate buf_size 9) (frame s)
      = Received (p @ [33, 35] @ replicate 1498 9) (replicate 1498 0 @ [33, 35]) 1"
    using mark_cuts_segment[OF b n, of "\<lambda>_. 50" 0 "replicate buf_size 9" "[]"]
    by (simp add: s_def seglost_def MAX_SEG_LEN_def p_def buf_size_def sizeof_seg_def hdr_bytes_def)
  have "p @ [33, 35] @ replicate 1498 9 \<noteq> seg_bytes s" by (simp add: b)
  moreover have "seg_of_bytes (p @ [33, 35] @ replicate 1498 9) = s\<lparr>data := [33, 35] @ replicate 1498 9\<rparr>"
    using seg_of_seg_bytes[of "s\<lparr>data := [33, 35] @ replicate 1498 9\<rparr>"] by (simp add: seg_bytes_def p_def)
  moreover have "s\<lparr>data := [33, 35] @ replicate 1498 9\<rparr> \<noteq> s"
  proof
    assume "s\<lparr>data := [33, 35] @ replicate 1498 9\<rparr> = s"
    from arg_cong[OF this, of data] show False by (simp add: s_def)
  qed
  ultimately show ?thesis using r by metis
qed

end
