(* ===== verification/Srt.thy ===== *)
theory Srt
  imports Srt_Seg
begin

text \<open>
  The client and the server of the simple reliable transport (\<^verbatim>\<open>srt_client.c\<close>, \<^verbatim>\<open>srt_server.c\<close>, \<^verbatim>\<open>list.h\<close>):
  connection control blocks in two linked lists, the socket calls, and the state machines that handle
  the received segments. A control block is a heap cell, a pointer is its number or \<open>None\<close> for NULL;
  \<open>None\<close> as the result of an operation is a crash: an access through NULL or outside an array, or a
  failed assertion. The fields of the data transfer, which the code never uses, are left out.
\<close>

section \<open>Control blocks\<close>

definition MAX_PORT_NUM :: nat where "MAX_PORT_NUM = 65536"

text \<open>The states, with the numbers of the two header files.\<close>

definition CLOSED :: nat where "CLOSED = 1"
definition SYNSENT :: nat where "SYNSENT = 2"
definition CONNECTED :: nat where "CONNECTED = 3"
definition FINWAIT :: nat where "FINWAIT = 4"
definition LISTENING :: nat where "LISTENING = 2"
definition CLOSEWAIT :: nat where "CLOSEWAIT = 4"

record tcb =
  svr_portNum :: u32
  client_portNum :: u32
  state :: nat
  prev :: "nat option"
  nxt :: "nat option"
  isFree :: bool

text \<open>
  The globals: the cells, the memory \<^verbatim>\<open>malloc\<close> has left (\<open>fresh\<close> is what the next cells hold when they are
  handed out, \<open>room\<close> how many there are), the heads of the two lists and the table of ports.
\<close>

record srt =
  cells :: "nat \<Rightarrow> tcb option"
  next_cell :: nat
  room :: nat
  fresh :: "nat \<Rightarrow> tcb"
  tcbUsedList :: nat
  tcbFreeList :: nat
  port2sock :: "nat \<Rightarrow> nat option"

definition cell :: "srt \<Rightarrow> nat option \<Rightarrow> tcb option" where
  "cell s p = Option.bind p (cells s)"

definition put_cell :: "srt \<Rightarrow> nat \<Rightarrow> tcb \<Rightarrow> srt" where
  "put_cell s a t = s\<lparr>cells := (cells s)(a \<mapsto> t)\<rparr>"

definition upd_cell :: "srt \<Rightarrow> nat option \<Rightarrow> (tcb \<Rightarrow> tcb) \<Rightarrow> srt option" where
  "upd_cell s p f = (case p of None \<Rightarrow> None
     | Some a \<Rightarrow> (case cells s a of None \<Rightarrow> None | Some t \<Rightarrow> Some (put_cell s a (f t))))"

definition malloc_node :: "srt \<Rightarrow> srt \<times> nat option" where
  "malloc_node s =
     (if room s = 0 then (s, None)
      else (s\<lparr>cells := (cells s)(next_cell s \<mapsto> fresh s (next_cell s)),
              next_cell := next_cell s + 1, room := room s - 1\<rparr>, Some (next_cell s)))"

section \<open>Lists of control blocks\<close>

definition inserIntoList :: "srt \<Rightarrow> nat option \<Rightarrow> nat option \<Rightarrow> srt option" where
  "inserIntoList s lh newNode =
     Option.bind (cell s lh) (\<lambda>h. let tcbNode = nxt h in
       Option.bind (upd_cell s lh (nxt_update (\<lambda>_. newNode))) (\<lambda>s.
       Option.bind (upd_cell s newNode (nxt_update (\<lambda>_. tcbNode))) (\<lambda>s.
       Option.bind (upd_cell s newNode (prev_update (\<lambda>_. lh))) (\<lambda>s.
       if tcbNode \<noteq> None then upd_cell s tcbNode (prev_update (\<lambda>_. newNode)) else Some s))))"

fun alloc_loop :: "nat \<Rightarrow> srt \<Rightarrow> srt option" where
  "alloc_loop 0 s = Some s"
| "alloc_loop (Suc n) s =
     (case malloc_node s of (s, None) \<Rightarrow> Some s
      | (s, Some newNode) \<Rightarrow>
          Option.bind (upd_cell s (Some newNode) (isFree_update (\<lambda>_. True))) (\<lambda>s.
          Option.bind (inserIntoList s (Some (tcbFreeList s)) (Some newNode)) (alloc_loop n)))"

definition allocTCB :: "srt \<Rightarrow> srt option" where "allocTCB s = alloc_loop 10 s"

definition removeFromList :: "srt \<Rightarrow> nat option \<Rightarrow> srt option" where
  "removeFromList s node =
     Option.bind (cell s node) (\<lambda>t.
       Option.bind (upd_cell s (prev t) (nxt_update (\<lambda>_. nxt t))) (\<lambda>s.
       if nxt t \<noteq> None then upd_cell s (nxt t) (prev_update (\<lambda>_. prev t)) else Some s))"

definition takeFromListHead :: "srt \<Rightarrow> nat \<Rightarrow> (srt \<times> nat option) option" where
  "takeFromListHead s lh =
     Option.bind (cell s (Some lh)) (\<lambda>h.
       Option.bind (if lh = tcbFreeList s \<and> nxt h = None then allocTCB s else Some s) (\<lambda>s.
       Option.bind (cell s (Some lh)) (\<lambda>h.
       if nxt h = None then Some (s, None)
       else Option.bind (removeFromList s (nxt h)) (\<lambda>s. Some (s, nxt h)))))"

definition sock2TCB :: "nat option \<Rightarrow> nat option" where "sock2TCB sock = sock"

text \<open>The loop of \<^verbatim>\<open>destroyList\<close> runs while the pointer is NULL, and then reads through it.\<close>

definition destroyList :: "srt \<Rightarrow> nat option \<Rightarrow> srt option" where
  "destroyList s lh = (case lh of Some _ \<Rightarrow> Some s | None \<Rightarrow> None)"

definition exitDestroyList :: "srt \<Rightarrow> srt option" where
  "exitDestroyList s = Option.bind (destroyList s (Some (tcbUsedList s))) (\<lambda>s. destroyList s (Some (tcbFreeList s)))"

text \<open>Both sides start with two list heads and an empty table; a failed \<^verbatim>\<open>malloc\<close> is not checked.\<close>

definition srt_init :: "(nat \<Rightarrow> tcb) \<Rightarrow> nat \<Rightarrow> srt option" where
  "srt_init mem n =
     (let s = \<lparr>cells = (\<lambda>_. None), next_cell = 0, room = n, fresh = mem, tcbUsedList = 0, tcbFreeList = 0,
               port2sock = (\<lambda>_. None)\<rparr>;
          (s, u) = malloc_node s
      in Option.bind (upd_cell s u (\<lambda>t. t\<lparr>prev := None, nxt := None\<rparr>)) (\<lambda>s.
         let (s, f) = malloc_node s
         in Option.bind (upd_cell s f (\<lambda>t. t\<lparr>prev := None, nxt := None\<rparr>)) (\<lambda>s.
            Some (s\<lparr>tcbUsedList := the u, tcbFreeList := the f\<rparr>))))"

section \<open>Socket calls\<close>

definition bind_port :: "srt \<Rightarrow> u32 \<Rightarrow> nat \<Rightarrow> srt option" where
  "bind_port s port node =
     (if unat port < MAX_PORT_NUM then Some (s\<lparr>port2sock := (port2sock s)(unat port := Some node)\<rparr>) else None)"

definition new_sock :: "(tcb \<Rightarrow> tcb) \<Rightarrow> srt \<Rightarrow> u32 \<Rightarrow> (srt \<times> nat option) option" where
  "new_sock set_port s port =
     Option.bind (takeFromListHead s (tcbFreeList s)) (\<lambda>(s, node).
       case node of None \<Rightarrow> Some (s, None)
       | Some a \<Rightarrow>
           Option.bind (cell s node) (\<lambda>t.
             if \<not> isFree t then None
             else Option.bind (upd_cell s node (\<lambda>t. set_port (t\<lparr>state := CLOSED\<rparr>))) (\<lambda>s.
               Option.bind (inserIntoList s (Some (tcbUsedList s)) node) (\<lambda>s.
               Option.bind (upd_cell s node (isFree_update (\<lambda>_. False))) (\<lambda>s.
               Option.bind (bind_port s port a) (\<lambda>s. Some (s, node)))))))"

definition srt_client_sock :: "srt \<Rightarrow> u32 \<Rightarrow> (srt \<times> nat option) option" where
  "srt_client_sock s client_port = new_sock (client_portNum_update (\<lambda>_. client_port)) s client_port"

definition srt_server_sock :: "srt \<Rightarrow> u32 \<Rightarrow> (srt \<times> nat option) option" where
  "srt_server_sock s port = new_sock (svr_portNum_update (\<lambda>_. port)) s port"

definition freeNode :: "srt \<Rightarrow> nat option \<Rightarrow> srt option" where
  "freeNode s node =
     Option.bind (removeFromList s node) (\<lambda>s.
     Option.bind (inserIntoList s (Some (tcbFreeList s)) node) (\<lambda>s.
     upd_cell s node (isFree_update (\<lambda>_. True))))"

definition srt_server_close :: "srt \<Rightarrow> nat option \<Rightarrow> (srt \<times> int) option" where
  "srt_server_close s sockfd =
     (case sock2TCB sockfd of None \<Rightarrow> Some (s, - 1)
      | Some a \<Rightarrow> Option.bind (cells s a) (\<lambda>t.
          if isFree t then Some (s, - 1)
          else Option.bind (freeNode s (Some a)) (\<lambda>s.
            Some (s, if state t = CLOSEWAIT \<or> state t = CLOSED then 1 else - 1))))"

definition srt_client_close :: "srt \<Rightarrow> nat option \<Rightarrow> (srt \<times> int) option" where
  "srt_client_close s sockfd =
     (case sock2TCB sockfd of None \<Rightarrow> Some (s, - 1)
      | Some a \<Rightarrow> Option.bind (cells s a) (\<lambda>t.
          if isFree t then Some (s, - 1)
          else Option.bind (freeNode s (Some a)) (\<lambda>s.
            Some (s, if state t \<noteq> CLOSED then - 1 else 1))))"

section \<open>Handling a segment\<close>

text \<open>
  The handler threads run beside the threads of the application, so they are cut at their accesses to
  the control block. The handler of the server reads the ports and the state, sends a reply (a header
  with only ports and type set; \<open>junk\<close> stands for the fields that are never set), then changes the
  state and last, for a new connection, the port of the client; its reads come first and are one step,
  because nobody else writes the ports and a state other than \<^const>\<open>CLOSED\<close>. \<open>Replying\<close>, \<open>Updating\<close> and
  \<open>Naming\<close> hold what is still to be done; \<open>Receiving\<close> is the thread between two segments.
\<close>

datatype server_pc =
  Receiving
| Replying srt_hdr_t nat "u32 option"
| Updating nat "u32 option"
| Naming u32

definition reply :: "srt_hdr_t \<Rightarrow> tcb \<Rightarrow> seg_type_t \<Rightarrow> srt_hdr_t" where
  "reply junk node t =
     junk\<lparr>src_port := svr_portNum node, dest_port := client_portNum node, hdr_type := seg_type_num t\<rparr>"

definition server_seg :: "srt_hdr_t \<Rightarrow> tcb \<Rightarrow> srt_hdr_t \<Rightarrow> server_pc" where
  "server_seg junk node h =
     (let segType = hdr_type h in
      if state node = CLOSED then Receiving
      else if state node = LISTENING then
        (if segType = seg_type_num SYN
         then Replying (reply junk node SYNACK) CONNECTED (Some (src_port h)) else Receiving)
      else if state node = CONNECTED then
        (if segType = seg_type_num SYN then Replying (reply junk node SYNACK) CONNECTED None
         else if segType = seg_type_num FIN then Replying (reply junk node FINACK) CLOSEWAIT None
         else Receiving)
      else if state node = CLOSEWAIT then
        (if segType = seg_type_num FIN then Replying (reply junk node FINACK) CLOSEWAIT None else Receiving)
      else Receiving)"

fun server_next :: "server_pc \<Rightarrow> tcb \<Rightarrow> tcb \<times> server_pc \<times> srt_hdr_t list" where
  "server_next Receiving node = (node, Receiving, [])"
| "server_next (Replying r st port) node = (node, Updating st port, [r])"
| "server_next (Updating st port) node =
     (node\<lparr>state := st\<rparr>, case port of None \<Rightarrow> Receiving | Some cliPort \<Rightarrow> Naming cliPort, [])"
| "server_next (Naming cliPort) node = (node\<lparr>client_portNum := cliPort\<rparr>, Receiving, [])"

text \<open>The handler of the client reads the state and then writes it, if the segment is one it waits for.\<close>

definition client_seg :: "tcb \<Rightarrow> srt_hdr_t \<Rightarrow> nat option" where
  "client_seg node h =
     (let segType = hdr_type h in
      if state node = CLOSED then None
      else if state node = SYNSENT then (if segType = seg_type_num SYNACK then Some CONNECTED else None)
      else if state node = CONNECTED then None
      else if state node = FINWAIT then (if segType = seg_type_num FINACK then Some CLOSED else None)
      else None)"

definition client_next :: "nat option \<Rightarrow> tcb \<Rightarrow> tcb" where
  "client_next p node = (case p of None \<Rightarrow> node | Some st \<Rightarrow> node\<lparr>state := st\<rparr>)"

text \<open>A whole round of a handler, with nobody in between: three steps of the server are enough.\<close>

definition server_round :: "srt_hdr_t \<Rightarrow> tcb \<Rightarrow> srt_hdr_t \<Rightarrow> tcb \<times> srt_hdr_t list" where
  "server_round junk node h =
     (let (t1, p1, s1) = server_next (server_seg junk node h) node;
          (t2, p2, s2) = server_next p1 t1;
          (t3, p3, s3) = server_next p2 t2
      in (t3, s1 @ s2 @ s3))"

text \<open>One round of the handler threads: the port of the segment indexes the table.\<close>

definition lookup_sock :: "srt \<Rightarrow> u32 \<Rightarrow> nat option option" where
  "lookup_sock s port = (if unat port < MAX_PORT_NUM then Some (port2sock s (unat port)) else None)"

definition server_handle :: "srt_hdr_t \<Rightarrow> srt \<Rightarrow> srt_hdr_t \<Rightarrow> (srt \<times> srt_hdr_t list) option" where
  "server_handle junk s h =
     Option.bind (lookup_sock s (dest_port h)) (\<lambda>node.
       case sock2TCB node of None \<Rightarrow> Some (s, [])
       | Some a \<Rightarrow> Option.bind (cells s a) (\<lambda>t.
           if isFree t then Some (s, [])
           else let (t, sent) = server_round junk t h in Some (put_cell s a t, sent)))"

definition client_handle :: "srt \<Rightarrow> srt_hdr_t \<Rightarrow> srt option" where
  "client_handle s h =
     Option.bind (lookup_sock s (dest_port h)) (\<lambda>node.
       case sock2TCB node of None \<Rightarrow> Some s
       | Some a \<Rightarrow> Option.bind (cells s a) (\<lambda>t.
           if isFree t then Some s else Some (put_cell s a (client_next (client_seg t h) t))))"

section \<open>Connecting and disconnecting\<close>

text \<open>
  \<^verbatim>\<open>try_send\<close> runs beside the handler thread, so it is cut where it touches the shared state: the test
  of the loop with the sending, the change to the waiting state after the send, and the look at the
  state after the timeout.
\<close>

datatype client_pc =
  Idle
| Trying nat seg_type_t
| Sent nat seg_type_t
| Waiting nat seg_type_t
| Returned seg_type_t int

definition SYN_MAX_RETRY :: nat where "SYN_MAX_RETRY = 5"
definition FIN_MAX_RETRY :: nat where "FIN_MAX_RETRY = 5"

text \<open>The waiting state and the wanted state of the two uses of \<^verbatim>\<open>try_send\<close>.\<close>

definition midState :: "seg_type_t \<Rightarrow> nat" where "midState t = (if t = SYN then SYNSENT else FINWAIT)"
definition destState :: "seg_type_t \<Rightarrow> nat" where "destState t = (if t = SYN then CONNECTED else CLOSED)"

definition request :: "srt_hdr_t \<Rightarrow> tcb \<Rightarrow> seg_type_t \<Rightarrow> srt_hdr_t" where
  "request junk t ty = junk\<lparr>hdr_type := seg_type_num ty, src_port := client_portNum t, dest_port := svr_portNum t\<rparr>"

definition srt_client_connect :: "tcb option \<Rightarrow> u32 \<Rightarrow> tcb option \<times> client_pc" where
  "srt_client_connect tcb server_port =
     (case tcb of None \<Rightarrow> (None, Returned SYN (- 1))
      | Some t \<Rightarrow>
          if isFree t then (Some t, Returned SYN (- 1))
          else if state t \<noteq> CLOSED then (Some t, Returned SYN (- 1))
          else (Some (t\<lparr>svr_portNum := server_port\<rparr>), Trying SYN_MAX_RETRY SYN))"

definition srt_client_disconnect :: "tcb option \<Rightarrow> tcb option \<times> client_pc" where
  "srt_client_disconnect tcb =
     (case tcb of None \<Rightarrow> (None, Returned FIN (- 1))
      | Some t \<Rightarrow>
          if isFree t then (Some t, Returned FIN (- 1))
          else if state t \<noteq> CONNECTED then (Some t, Returned FIN (- 1))
          else (Some t, Trying FIN_MAX_RETRY FIN))"

fun try_send :: "srt_hdr_t \<Rightarrow> tcb \<Rightarrow> client_pc \<Rightarrow> tcb \<times> client_pc \<times> srt_hdr_t list" where
  "try_send junk t (Trying n ty) =
     (if n - 1 = 0 then (t\<lparr>state := CLOSED\<rparr>, Returned ty (- 1), [])
      else (t, Sent (n - 1) ty, [request junk t ty]))"
| "try_send junk t (Sent n ty) = (t\<lparr>state := midState ty\<rparr>, Waiting n ty, [])"
| "try_send junk t (Waiting n ty) =
     (if state t = destState ty then (t, Returned ty 0, []) else (t, Trying n ty, []))"
| "try_send junk t pc = (t, pc, [])"

text \<open>
  \<^verbatim>\<open>srt_server_accept\<close> listens and then spins until the handler thread has changed the state:
  \<open>accepted\<close> is what it returns in a state, if it returns there.
\<close>

definition srt_server_accept :: "tcb \<Rightarrow> tcb" where "srt_server_accept t = t\<lparr>state := LISTENING\<rparr>"

definition accepted :: "tcb \<Rightarrow> int option" where
  "accepted t = (if state t \<noteq> CONNECTED then None else Some 1)"

text \<open>The data transfer is a stub on both sides.\<close>

definition srt_server_recv :: "nat option \<Rightarrow> u8 list \<Rightarrow> u32 \<Rightarrow> int" where "srt_server_recv sockfd buf len = 1"
definition srt_client_send :: "nat option \<Rightarrow> u8 list \<Rightarrow> u32 \<Rightarrow> int" where "srt_client_send sockfd payload len = 1"

section \<open>The handler threads\<close>

text \<open>
  The threads run until the stream ends, here with nobody beside them; \<open>bufs k\<close> is what the receive buffer holds when the call that
  uses the \<open>k\<close>-th random number starts. A received segment leaves a shorter stream.
\<close>

lemma recv_loop_shorter:
  "recv_loop rnd k st buf idx stream = Received bytes rest k' \<Longrightarrow> length rest < length stream"
proof (induction rnd k st buf idx stream rule: recv_loop.induct)
  case (2 rnd k state buf idx c stream)
  then show ?case by (auto split: if_splits option.splits intro: less_SucI)
qed simp

function server_seghandler ::
  "srt_hdr_t \<Rightarrow> (nat \<Rightarrow> nat) \<Rightarrow> (nat \<Rightarrow> u8 list) \<Rightarrow> nat \<Rightarrow> srt \<Rightarrow> u8 list \<Rightarrow> (srt \<times> srt_hdr_t list) option" where
  "server_seghandler junk rnd bufs k s stream =
     (case recvseg rnd k (bufs k) stream of
        Closed \<Rightarrow> Some (s, [])
      | Overflow \<Rightarrow> None
      | Received bytes rest k' \<Rightarrow>
          Option.bind (server_handle junk s (header (seg_of_bytes bytes))) (\<lambda>(s, sent).
          Option.bind (server_seghandler junk rnd bufs k' s rest) (\<lambda>(s, more). Some (s, sent @ more))))"
  by auto
termination
  by (relation "measure (\<lambda>(_, _, _, _, _, stream). length stream)")
    (auto simp: recvseg_def dest: recv_loop_shorter)

function client_seghandler ::
  "(nat \<Rightarrow> nat) \<Rightarrow> (nat \<Rightarrow> u8 list) \<Rightarrow> nat \<Rightarrow> srt \<Rightarrow> u8 list \<Rightarrow> srt option" where
  "client_seghandler rnd bufs k s stream =
     (case recvseg rnd k (bufs k) stream of
        Closed \<Rightarrow> Some s
      | Overflow \<Rightarrow> None
      | Received bytes rest k' \<Rightarrow>
          Option.bind (client_handle s (header (seg_of_bytes bytes))) (\<lambda>s.
          client_seghandler rnd bufs k' s rest))"
  by auto
termination
  by (relation "measure (\<lambda>(_, _, _, _, stream). length stream)")
    (auto simp: recvseg_def dest: recv_loop_shorter)

declare server_seghandler.simps [simp del] client_seghandler.simps [simp del]

end
