(* ===== verification/Srt_Net.thy ===== *)
theory Srt_Net
  imports Srt
begin

text \<open>
  One connection: a client that connects and disconnects with \<^verbatim>\<open>try_send\<close>, the handler threads of both
  sides and the segments in flight, any of which can be lost. The steps are the accesses to the control
  blocks and the channels, and interleave freely; the server calls \<^verbatim>\<open>srt_server_accept\<close> on a closed
  socket, as \<^verbatim>\<open>app_server.c\<close> does. Each handler thread takes its next segment when it is done with the
  last one.
\<close>

section \<open>The steps of a connection\<close>





section \<open>Agreement\<close>

lemmas state_defs = CLOSED_def SYNSENT_def CONNECTED_def FINWAIT_def LISTENING_def CLOSEWAIT_def

definition is_up :: "nat \<Rightarrow> bool" where "is_up st \<longleftrightarrow> st = CONNECTED \<or> st = CLOSEWAIT"


fun pc_ok :: "client_pc \<Rightarrow> nat \<Rightarrow> nat \<Rightarrow> bool" where
  "pc_ok Idle c sv \<longleftrightarrow> c = CLOSED"
| "pc_ok (Trying k ty) c sv \<longleftrightarrow> ty = SYN \<or> ty = FIN \<and> is_up sv \<and> (c = CLOSED \<longrightarrow> sv = CLOSEWAIT)"
| "pc_ok (Sent k ty) c sv \<longleftrightarrow> ty = SYN \<or> ty = FIN \<and> is_up sv \<and> (c = CLOSED \<longrightarrow> sv = CLOSEWAIT)"
| "pc_ok (Waiting k ty) c sv \<longleftrightarrow> ty = SYN \<or> ty = FIN \<and> is_up sv \<and> (c = CLOSED \<longrightarrow> sv = CLOSEWAIT)"
| "pc_ok (Returned ty r) c sv \<longleftrightarrow>
     (ty = SYN \<and> r = 0 \<longrightarrow> is_up sv) \<and> (ty = FIN \<and> r = 0 \<longrightarrow> sv = CLOSEWAIT)"

text \<open>
  The invariant: over the state of the client, the settled state of the server, the control point, the
  replies in flight and what the client's handler is about to write; and over the server's handler and
  the state it found.
\<close>

definition pending_ok :: "client_pc \<Rightarrow> nat \<Rightarrow> nat option \<Rightarrow> bool" where
  "pending_ok p sv ch \<longleftrightarrow> (case ch of None \<Rightarrow> True
     | Some st \<Rightarrow> p \<noteq> Idle \<and> is_up sv \<and> (st = CONNECTED \<or> st = CLOSED \<and> sv = CLOSEWAIT))"




lemma is_up_simps [simp]: "is_up CONNECTED" "is_up CLOSEWAIT" "\<not> is_up CLOSED" "\<not> is_up LISTENING"
  by (simp_all add: is_up_def state_defs)

lemma state_neqs [simp]:
  "CONNECTED \<noteq> CLOSED" "SYNSENT \<noteq> CONNECTED" "SYNSENT \<noteq> FINWAIT" "SYNSENT \<noteq> CLOSED" "FINWAIT \<noteq> CONNECTED"
  "FINWAIT \<noteq> CLOSED" "CLOSED \<noteq> CONNECTED" "CLOSED \<noteq> FINWAIT" "CONNECTED \<noteq> FINWAIT" "LISTENING \<noteq> CONNECTED"
  "CLOSED \<noteq> CLOSEWAIT" "CLOSEWAIT \<noteq> CLOSED" "LISTENING \<noteq> CLOSEWAIT" "LISTENING \<noteq> CLOSED" "CONNECTED \<noteq> CLOSEWAIT"
  "CLOSEWAIT \<noteq> CONNECTED" "CLOSED \<noteq> LISTENING" "CONNECTED \<noteq> LISTENING" "CLOSEWAIT \<noteq> LISTENING"
  by (simp_all add: state_defs)

lemma pc_ok_closed: "pc_ok p CLOSED sv \<Longrightarrow> c \<noteq> CLOSED \<Longrightarrow> p \<noteq> Idle \<Longrightarrow> pc_ok p c sv"
  by (cases p) auto



lemma pending_ok_Some [simp]: "pending_ok p sv (Some st) \<longleftrightarrow>
    p \<noteq> Idle \<and> is_up sv \<and> (st = CONNECTED \<or> st = CLOSED \<and> sv = CLOSEWAIT)"
  and pending_ok_None [simp]: "pending_ok p sv None"
  by (simp_all add: pending_ok_def)






















definition blank_hdr :: srt_hdr_t where
  "blank_hdr = \<lparr>src_port = 0, dest_port = 0, seq_num = 0, ack_num = 0, hdr_length = 0, hdr_type = 0,
     rcv_win = 0, checksum = 0\<rparr>"

definition hdr_of :: "u32 \<Rightarrow> u32 \<Rightarrow> seg_type_t \<Rightarrow> srt_hdr_t" where
  "hdr_of sp dp t = blank_hdr\<lparr>src_port := sp, dest_port := dp, hdr_type := seg_type_num t\<rparr>"









section \<open>The first reply\<close>

text \<open>
  The reply to the request that opens a connection goes to the port the server's control block
  held before (what \<^verbatim>\<open>malloc\<close> or the previous connection left there): only the reply to a repeated
  request is addressed to the client.
\<close>

lemma first_reply_astray:
  assumes "lookup_sock s (dest_port h) = Some (Some a)" "cells s a = Some t" "\<not> isFree t"
    "state t = LISTENING" "hdr_type h = seg_type_num SYN"
  shows "\<exists>s' r r'. server_handle junk s h = Some (s', [r]) \<and> dest_port r = client_portNum t \<and>
    server_handle junk s' h = Some (s', [r']) \<and> dest_port r' = src_port h"
proof -
  define t' where "t' = t\<lparr>state := CONNECTED, client_portNum := src_port h\<rparr>"
  have l: "LISTENING \<noteq> CONNECTED" by (simp add: state_defs)
  define s' where "s' = put_cell s a t'"
  have step: "server_round junk t h = (t', [reply junk t SYNACK])" "server_round junk t' h = (t', [reply junk t' SYNACK])"
    using assms(4,5) l by (simp_all add: server_round_def server_seg_def Let_def t'_def)
  have "lookup_sock s' (dest_port h) = Some (Some a)" "cells s' a = Some t'" "\<not> isFree t'" "put_cell s' a t' = s'"
    using assms(1,3) by (simp_all add: lookup_sock_def s'_def put_cell_def t'_def split: if_splits)
  then have "server_handle junk s' h = Some (s', [reply junk t' SYNACK])"
    by (simp add: server_handle_def sock2TCB_def step)
  moreover have "server_handle junk s h = Some (s', [reply junk t SYNACK])"
    using assms(1-3) by (simp add: server_handle_def sock2TCB_def step s'_def)
  ultimately show ?thesis by (simp add: reply_def t'_def)
qed

lemma first_reply_astray_witness:
  "\<exists>s s' r r'. server_handle blank_hdr s (hdr_of 5 7 SYN) = Some (s', [r]) \<and> dest_port r = 9 \<and>
    server_handle blank_hdr s' (hdr_of 5 7 SYN) = Some (s', [r']) \<and> dest_port r' = 5"
proof -
  define t where "t = \<lparr>svr_portNum = 7, client_portNum = 9, state = LISTENING, prev = None, nxt = None, isFree = False\<rparr>"
  define s where "s = \<lparr>cells = [2 \<mapsto> t], next_cell = 3, room = 0, fresh = (\<lambda>_. t), tcbUsedList = 0,
    tcbFreeList = 1, port2sock = [7 \<mapsto> 2]\<rparr>"
  have "lookup_sock s (dest_port (hdr_of 5 7 SYN)) = Some (Some 2)" "cells s 2 = Some t"
    by (simp_all add: lookup_sock_def hdr_of_def s_def MAX_PORT_NUM_def)
  from first_reply_astray[OF this, of blank_hdr] show ?thesis
    by (simp add: t_def hdr_of_def) blast
qed

text \<open>A segment for a port of more than 16 bits makes both handlers read outside the table of ports.\<close>

lemma segment_port_unchecked:
  "unat (dest_port h) \<ge> MAX_PORT_NUM \<Longrightarrow> server_handle junk s h = None \<and> client_handle s h = None"
  by (simp add: server_handle_def client_handle_def lookup_sock_def)

end
