(* ===== verification/Memlib.thy ===== *)
theory Memlib
  imports Prelude
begin

text \<open>
  The simulated heap of the malloc lab (\<^verbatim>\<open>CSAPPLab/malloclab/memlib.c\<close>): the three private
  pointers, the bytes of the heap, and the operations an allocator and the driver use. The
  programs are built with \<^verbatim>\<open>-m32\<close>: pointers and \<^verbatim>\<open>size_t\<close> have 32 bits.
\<close>

section \<open>State\<close>

text \<open>
  \<^verbatim>\<open>static_vars\<close> stands for the static variables of the allocator under test, which
  \<^verbatim>\<open>memlib.c\<close> never touches.
\<close>

record 'h world =
  mem_start_brk :: u32
  mem_brk :: u32
  mem_max_addr :: u32
  heap_bytes :: memory
  errnum :: nat
  static_vars :: 'h

definition MAX_HEAP :: u32 where "MAX_HEAP = 20 * 2 ^ 20"

definition ENOMEM :: nat where "ENOMEM = 12"

section \<open>Operations\<close>

text \<open>
  \<^verbatim>\<open>mem_init\<close> gets its storage from \<^verbatim>\<open>malloc\<close>, whose result is the argument \<open>p\<close>; with no
  storage it exits.
\<close>

definition mem_init :: "u32 \<Rightarrow> 'h world \<Rightarrow> 'h world option" where
  "mem_init p w = (if p = 0 then None
     else Some (w\<lparr>mem_start_brk := p, mem_max_addr := p + MAX_HEAP, mem_brk := p\<rparr>))"

definition mem_reset_brk :: "'h world \<Rightarrow> 'h world" where
  "mem_reset_brk w = w\<lparr>mem_brk := mem_start_brk w\<rparr>"

definition mem_sbrk :: "i32 \<Rightarrow> 'h world \<Rightarrow> u32 \<times> 'h world" where
  "mem_sbrk incr w =
     (if sint incr < 0 \<or> mem_max_addr w < mem_brk w + incr
      then (- 1, w\<lparr>errnum := ENOMEM\<rparr>)
      else (mem_brk w, w\<lparr>mem_brk := mem_brk w + incr\<rparr>))"

definition mem_heap_lo :: "'h world \<Rightarrow> u32" where "mem_heap_lo w = mem_start_brk w"

definition mem_heap_hi :: "'h world \<Rightarrow> u32" where "mem_heap_hi w = mem_brk w - 1"

definition mem_heapsize :: "'h world \<Rightarrow> u32" where
  "mem_heapsize w = mem_brk w - mem_start_brk w"

section \<open>Well-formed heaps\<close>

definition heap_ok :: "'h world \<Rightarrow> bool" where
  "heap_ok w \<longleftrightarrow> mem_start_brk w \<noteq> 0 \<and> mem_start_brk w \<le> mem_brk w \<and> mem_brk w \<le> mem_max_addr w
     \<and> unat (mem_max_addr w) = unat (mem_start_brk w) + unat MAX_HEAP"

lemma MAX_HEAP_nat [simp]: "unat MAX_HEAP = 20971520"
  by (simp add: MAX_HEAP_def)

lemma heap_okD:
  assumes "heap_ok w"
  shows "unat (mem_start_brk w) \<le> unat (mem_brk w)"
    "unat (mem_brk w) \<le> unat (mem_start_brk w) + 20971520"
    "unat (mem_start_brk w) + 20971520 < 4294967296"
  using assms unat_u32_less[of "mem_max_addr w"] by (auto simp: heap_ok_def word_le_nat_alt)

lemma mem_init_ok:
  assumes "p \<noteq> 0" "unat p + 20971520 < 4294967296"
  shows "\<exists>w'. mem_init p w = Some w' \<and> heap_ok w' \<and> mem_heapsize w' = 0"
proof -
  have "unat (p + MAX_HEAP) = unat p + 20971520"
    using assms by (simp add: unat_plus_if')
  then show ?thesis
    using assms(1) by (simp add: mem_init_def heap_ok_def mem_heapsize_def word_le_nat_alt)
qed

lemma mem_reset_brk_ok: "heap_ok w \<Longrightarrow> heap_ok (mem_reset_brk w)"
  by (auto simp: heap_ok_def mem_reset_brk_def word_le_nat_alt)

lemma mem_reset_brk_simps [simp]:
  "mem_brk (mem_reset_brk w) = mem_start_brk w"
  "mem_start_brk (mem_reset_brk w) = mem_start_brk w"
  by (simp_all add: mem_reset_brk_def)

lemma heap_ok_bytes [simp]: "heap_ok (w\<lparr>heap_bytes := m\<rparr>) = heap_ok w"
  by (simp add: heap_ok_def)

text \<open>
  Growing the heap. The test compares addresses, so it does its work as long as
  \<^verbatim>\<open>mem_brk + incr\<close> stays in the address space.
\<close>

lemma mem_sbrk_no_wrap:
  assumes "heap_ok w" "0 \<le> sint incr" "unat (mem_brk w) + unat incr < 4294967296"
  shows "mem_sbrk incr w =
    (if unat (mem_heapsize w) + unat incr \<le> 20971520
     then (mem_brk w, w\<lparr>mem_brk := mem_brk w + incr\<rparr>) else (- 1, w\<lparr>errnum := ENOMEM\<rparr>))"
proof -
  have "unat (mem_brk w + incr) = unat (mem_brk w) + unat incr"
    using assms(3) by (simp add: unat_plus_if')
  moreover have "unat (mem_heapsize w) = unat (mem_brk w) - unat (mem_start_brk w)"
    using assms(1) by (auto simp: mem_heapsize_def heap_ok_def unat_sub)
  ultimately have "mem_max_addr w < mem_brk w + incr \<longleftrightarrow> \<not> unat (mem_heapsize w) + unat incr \<le> 20971520"
    using assms(1) heap_okD(1)[OF assms(1)] by (auto simp: heap_ok_def word_less_nat_alt)
  then show ?thesis using assms(2) by (simp add: mem_sbrk_def)
qed

lemma mem_sbrk_wrap:
  assumes "heap_ok w" "0 \<le> sint incr" "4294967296 \<le> unat (mem_brk w) + unat incr"
  shows "mem_sbrk incr w = (mem_brk w, w\<lparr>mem_brk := mem_brk w + incr\<rparr>)"
    "mem_brk w + incr < mem_brk w"
proof -
  have "incr < 2 ^ 31" using assms(2) by (simp add: sint_nonneg32 word_less_nat_alt)
  have *: "unat (mem_brk w + incr) = unat (mem_brk w) + unat incr - 4294967296"
    using assms(3) by (simp add: unat_plus_if')
  then show "mem_brk w + incr < mem_brk w"
    using assms(3) unat_u32_less[of incr] by (simp add: word_less_nat_alt del: unat_u32_less)
  then have "\<not> mem_max_addr w < mem_brk w + incr"
    using assms(1) by (auto simp: heap_ok_def)
  then show "mem_sbrk incr w = (mem_brk w, w\<lparr>mem_brk := mem_brk w + incr\<rparr>)"
    using assms(2) by (simp add: mem_sbrk_def)
qed

lemma mem_sbrk_cases:
  assumes "heap_ok w"
  shows "mem_sbrk incr w =
    (if 0 \<le> sint incr \<and> (unat (mem_heapsize w) + unat incr \<le> 20971520
                           \<or> 4294967296 \<le> unat (mem_brk w) + unat incr)
     then (mem_brk w, w\<lparr>mem_brk := mem_brk w + incr\<rparr>)
     else (- 1, w\<lparr>errnum := ENOMEM\<rparr>))"
proof (cases "0 \<le> sint incr")
  case False
  then show ?thesis by (simp add: mem_sbrk_def)
next
  case True
  then show ?thesis
    using mem_sbrk_no_wrap[OF assms True] mem_sbrk_wrap(1)[OF assms True]
    by (cases "4294967296 \<le> unat (mem_brk w) + unat incr") simp_all
qed

end
