(* ===== verification/Mdriver.thy ===== *)
theory Mdriver
  imports Memlib
begin

text \<open>
  The malloc lab driver (\<^verbatim>\<open>CSAPPLab/malloclab/mdriver.c\<close>): the list of payload ranges, the
  interpretation of a trace by an allocator, and the three evaluations of a trace. The
  allocator under test is a parameter: four functions on the simulated world, whatever they do.
\<close>

section \<open>Data\<close>

type_synonym range = "u32 \<times> u32"

datatype optype = ALLOC | FREE | REALLOC

record traceop =
  op_type :: optype
  op_index :: i32
  op_size :: i32

text \<open>The two sizes in the header of a trace file that nothing uses are kept.\<close>

record trace =
  sugg_heapsize :: i32
  num_ids :: i32
  num_ops :: i32
  weight :: i32
  trace_ops :: "traceop list"
  blocks :: "u32 list"
  block_sizes :: "u32 list"

record 'w allocator =
  a_init :: "'w \<Rightarrow> i32 \<times> 'w"
  a_malloc :: "u32 \<Rightarrow> 'w \<Rightarrow> u32 \<times> 'w"
  a_realloc :: "u32 \<Rightarrow> u32 \<Rightarrow> 'w \<Rightarrow> u32 \<times> 'w"
  a_free :: "u32 \<Rightarrow> 'w \<Rightarrow> 'w"

datatype complaint =
    Misaligned u32
  | Outside u32 u32 u32 u32
  | Overlaps u32 u32 u32 u32
  | Init_failed
  | Malloc_failed
  | Realloc_failed
  | Not_preserved

text \<open>
  What the driver's run depends on: the world the allocator works in, the range list, the
  two arrays of the trace it writes, and the errors it has reported, the last first, each
  with its trace and line number. The counter \<^verbatim>\<open>errors\<close> is the length of that list.
\<close>

record 'w driver =
  world :: 'w
  ranges :: "range list"
  trc_blocks :: "u32 list"
  trc_sizes :: "u32 list"
  reports :: "(int \<times> int \<times> complaint) list"

text \<open>
  Ways to stop: \<^verbatim>\<open>exit(1)\<close>, a failed assertion, or an access outside the arrays of the
  trace, where the behaviour of the program is undefined.
\<close>

datatype stop = Exit_1 | Assertion | Stray_access

definition LINENUM :: "int \<Rightarrow> int" where "LINENUM i = i + 5"

definition malloc_error :: "int \<Rightarrow> int \<Rightarrow> complaint \<Rightarrow> 'w driver \<Rightarrow> 'w driver" where
  "malloc_error tracenum opnum c d = d\<lparr>reports := (tracenum, LINENUM opnum, c) # reports d\<rparr>"

definition errors :: "'w driver \<Rightarrow> nat" where "errors d = length (reports d)"

definition ALIGNMENT :: u32 where "ALIGNMENT = 8"

definition IS_ALIGNED :: "u32 \<Rightarrow> bool" where "IS_ALIGNED p \<longleftrightarrow> p mod ALIGNMENT = 0"

section \<open>The range list\<close>

text \<open>
  The check for overlaps looks whether an end of the new payload lies in an old one.
\<close>

definition end_inside :: "u32 \<Rightarrow> u32 \<Rightarrow> range \<Rightarrow> bool" where
  "end_inside lo hi p \<longleftrightarrow> (fst p \<le> lo \<and> lo \<le> snd p) \<or> (fst p \<le> hi \<and> hi \<le> snd p)"

definition add_range :: "u32 \<Rightarrow> i32 \<Rightarrow> int \<Rightarrow> int \<Rightarrow> 'h world driver
    \<Rightarrow> stop + (bool \<times> 'h world driver)" where
  "add_range lo sz tracenum opnum d =
    (let hi = lo + sz - 1; w = world d in
     if sint sz \<le> 0 then Inl Assertion
     else if \<not> IS_ALIGNED lo then Inr (False, malloc_error tracenum opnum (Misaligned lo) d)
     else if lo < mem_heap_lo w \<or> mem_heap_hi w < lo \<or> hi < mem_heap_lo w \<or> mem_heap_hi w < hi
     then Inr (False, malloc_error tracenum opnum (Outside lo hi (mem_heap_lo w) (mem_heap_hi w)) d)
     else case find (end_inside lo hi) (ranges d) of
       Some p \<Rightarrow> Inr (False, malloc_error tracenum opnum (Overlaps lo hi (fst p) (snd p)) d)
     | None \<Rightarrow> Inr (True, d\<lparr>ranges := (lo, hi) # ranges d\<rparr>))"

fun remove_range :: "u32 \<Rightarrow> range list \<Rightarrow> range list" where
  "remove_range lo [] = []"
| "remove_range lo (p # ps) = (if fst p = lo then ps else p # remove_range lo ps)"

definition clear_ranges :: "'w driver \<Rightarrow> 'w driver" where
  "clear_ranges d = d\<lparr>ranges := []\<rparr>"

section \<open>The arrays of a trace\<close>

definition in_array :: "i32 \<Rightarrow> 'a list \<Rightarrow> bool" where
  "in_array i xs \<longleftrightarrow> 0 \<le> sint i \<and> sint i < int (length xs)"

definition remember :: "i32 \<Rightarrow> u32 \<Rightarrow> i32 \<Rightarrow> 'w driver \<Rightarrow> stop + (bool \<times> 'w driver)" where
  "remember i p sz d =
    (if in_array i (trc_blocks d) \<and> in_array i (trc_sizes d)
     then Inr (True, d\<lparr>trc_blocks := (trc_blocks d)[nat (sint i) := p],
                       trc_sizes := (trc_sizes d)[nat (sint i) := sz]\<rparr>)
     else Inl Stray_access)"

definition block_of :: "i32 \<Rightarrow> 'w driver \<Rightarrow> stop + u32" where
  "block_of i d = (if in_array i (trc_blocks d) then Inr (trc_blocks d ! nat (sint i)) else Inl Stray_access)"

definition size_of :: "i32 \<Rightarrow> 'w driver \<Rightarrow> stop + i32" where
  "size_of i d = (if in_array i (trc_sizes d) then Inr (trc_sizes d ! nat (sint i)) else Inl Stray_access)"

section \<open>Filling and checking blocks\<close>

text \<open>\<^verbatim>\<open>memset\<close> of the C library.\<close>

definition fill :: "u32 \<Rightarrow> u8 \<Rightarrow> u32 \<Rightarrow> memory \<Rightarrow> memory" where
  "fill p v n m = (\<lambda>a. if a - p < n then v else m a)"

text \<open>
  The loop that looks for a lost byte of a reallocated block. \<^verbatim>\<open>newp[j]\<close> is a \<^verbatim>\<open>char\<close>,
  which is signed with this compiler, and is compared as an \<^verbatim>\<open>int\<close>.
\<close>

definition preserved :: "u32 \<Rightarrow> i32 \<Rightarrow> i32 \<Rightarrow> memory \<Rightarrow> bool" where
  "preserved newp i oldsize m =
    list_all (\<lambda>j. (scast (m (newp + of_nat j)) :: i32) = i AND 0xFF) [0..<nat (sint oldsize)]"

section \<open>Correctness of the allocator\<close>

definition valid_alloc :: "'h world allocator \<Rightarrow> int \<Rightarrow> int \<Rightarrow> i32 \<Rightarrow> i32 \<Rightarrow> 'h world driver
    \<Rightarrow> stop + (bool \<times> 'h world driver)" where
  "valid_alloc A tracenum opnum i sz d =
    (let (p, w) = a_malloc A sz (world d); d1 = d\<lparr>world := w\<rparr> in
     if p = 0 then Inr (False, malloc_error tracenum opnum Malloc_failed d1)
     else case add_range p sz tracenum opnum d1 of
       Inl e \<Rightarrow> Inl e
     | Inr (ok, d2) \<Rightarrow>
         if \<not> ok then Inr (False, d2)
         else remember i p sz
           (d2\<lparr>world := (world d2)\<lparr>heap_bytes := fill p (ucast (i AND 0xFF)) sz (heap_bytes (world d2))\<rparr>\<rparr>))"

definition valid_realloc :: "'h world allocator \<Rightarrow> int \<Rightarrow> int \<Rightarrow> i32 \<Rightarrow> i32 \<Rightarrow> 'h world driver
    \<Rightarrow> stop + (bool \<times> 'h world driver)" where
  "valid_realloc A tracenum opnum i sz d =
    (case block_of i d of Inl e \<Rightarrow> Inl e | Inr oldp \<Rightarrow>
     let (newp, w) = a_realloc A oldp sz (world d); d1 = d\<lparr>world := w\<rparr> in
     if newp = 0 then Inr (False, malloc_error tracenum opnum Realloc_failed d1)
     else case add_range newp sz tracenum opnum (d1\<lparr>ranges := remove_range oldp (ranges d1)\<rparr>) of
       Inl e \<Rightarrow> Inl e
     | Inr (ok, d2) \<Rightarrow>
         if \<not> ok then Inr (False, d2)
         else case size_of i d2 of Inl e \<Rightarrow> Inl e | Inr oldsize \<Rightarrow>
           let n = (if sint sz < sint oldsize then sz else oldsize) in
           if \<not> preserved newp i n (heap_bytes (world d2))
           then Inr (False, malloc_error tracenum opnum Not_preserved d2)
           else remember i newp sz
             (d2\<lparr>world := (world d2)\<lparr>heap_bytes := fill newp (ucast (i AND 0xFF)) sz (heap_bytes (world d2))\<rparr>\<rparr>))"

definition valid_free :: "'h world allocator \<Rightarrow> i32 \<Rightarrow> 'h world driver
    \<Rightarrow> stop + (bool \<times> 'h world driver)" where
  "valid_free A i d =
    (case block_of i d of Inl e \<Rightarrow> Inl e | Inr p \<Rightarrow>
     Inr (True, d\<lparr>ranges := remove_range p (ranges d), world := a_free A p (world d)\<rparr>))"

definition valid_op :: "'h world allocator \<Rightarrow> int \<Rightarrow> int \<Rightarrow> traceop \<Rightarrow> 'h world driver
    \<Rightarrow> stop + (bool \<times> 'h world driver)" where
  "valid_op A tracenum opnum r d =
    (case op_type r of
       ALLOC \<Rightarrow> valid_alloc A tracenum opnum (op_index r) (op_size r) d
     | REALLOC \<Rightarrow> valid_realloc A tracenum opnum (op_index r) (op_size r) d
     | FREE \<Rightarrow> valid_free A (op_index r) d)"

text \<open>
  The loop over the requests; the array \<^verbatim>\<open>trace->ops\<close> has \<^verbatim>\<open>num_ops\<close> entries.
\<close>

fun valid_ops :: "'h world allocator \<Rightarrow> int \<Rightarrow> int \<Rightarrow> traceop list \<Rightarrow> 'h world driver
    \<Rightarrow> stop + (bool \<times> 'h world driver)" where
  "valid_ops A tracenum i [] d = Inr (True, d)"
| "valid_ops A tracenum i (r # rs) d =
    (case valid_op A tracenum i r d of
       Inl e \<Rightarrow> Inl e
     | Inr (ok, d1) \<Rightarrow> if ok then valid_ops A tracenum (i + 1) rs d1 else Inr (False, d1))"

definition eval_mm_valid :: "'h world allocator \<Rightarrow> int \<Rightarrow> traceop list \<Rightarrow> 'h world driver
    \<Rightarrow> stop + (bool \<times> 'h world driver)" where
  "eval_mm_valid A tracenum ops d =
    (let d1 = clear_ranges (d\<lparr>world := mem_reset_brk (world d)\<rparr>);
         (r, w) = a_init A (world d1); d2 = d1\<lparr>world := w\<rparr> in
     if sint r < 0 then Inr (False, malloc_error tracenum 0 Init_failed d2)
     else valid_ops A tracenum 0 ops d2)"

section \<open>Space utilization\<close>

text \<open>The two sums the loop keeps, as \<^verbatim>\<open>int\<close>s, with the driver's state.\<close>

record 'w usage =
  drv :: "'w driver"
  total_size :: i32
  max_total_size :: i32

definition count :: "i32 \<Rightarrow> 'w usage \<Rightarrow> 'w usage" where
  "count delta u = (let t = total_size u + delta in
     u\<lparr>total_size := t, max_total_size := (if sint (max_total_size u) < sint t then t else max_total_size u)\<rparr>)"

definition util_op :: "'w allocator \<Rightarrow> traceop \<Rightarrow> 'w usage \<Rightarrow> stop + 'w usage" where
  "util_op A r u = (let d = drv u; i = op_index r in
    case op_type r of
      ALLOC \<Rightarrow>
        (let sz = op_size r; (p, w) = a_malloc A sz (world d) in
         if p = 0 then Inl Exit_1
         else case remember i p sz (d\<lparr>world := w\<rparr>) of
           Inl e \<Rightarrow> Inl e
         | Inr (_, d1) \<Rightarrow> Inr (count sz (u\<lparr>drv := d1\<rparr>)))
    | REALLOC \<Rightarrow>
        (case size_of i d of Inl e \<Rightarrow> Inl e | Inr oldsize \<Rightarrow>
         case block_of i d of Inl e \<Rightarrow> Inl e | Inr oldp \<Rightarrow>
         let newsize = op_size r; (newp, w) = a_realloc A oldp newsize (world d) in
         if newp = 0 then Inl Exit_1
         else case remember i newp newsize (d\<lparr>world := w\<rparr>) of
           Inl e \<Rightarrow> Inl e
         | Inr (_, d1) \<Rightarrow> Inr (count (newsize - oldsize) (u\<lparr>drv := d1\<rparr>)))
    | FREE \<Rightarrow>
        (case size_of i d of Inl e \<Rightarrow> Inl e | Inr sz \<Rightarrow>
         case block_of i d of Inl e \<Rightarrow> Inl e | Inr p \<Rightarrow>
         Inr (u\<lparr>drv := d\<lparr>world := a_free A p (world d)\<rparr>, total_size := total_size u - sz\<rparr>)))"

fun util_ops :: "'w allocator \<Rightarrow> traceop list \<Rightarrow> 'w usage \<Rightarrow> stop + 'w usage" where
  "util_ops A [] u = Inr u"
| "util_ops A (r # rs) u = (case util_op A r u of Inl e \<Rightarrow> Inl e | Inr u1 \<Rightarrow> util_ops A rs u1)"

text \<open>
  The result is the quotient of the high water mark and the heap size; the model returns the
  two numbers, before the division in \<^verbatim>\<open>double\<close>.
\<close>

definition eval_mm_util :: "'h world allocator \<Rightarrow> traceop list \<Rightarrow> 'h world driver
    \<Rightarrow> stop + ((i32 \<times> u32) \<times> 'h world driver)" where
  "eval_mm_util A ops d =
    (let (r, w) = a_init A (mem_reset_brk (world d)) in
     if sint r < 0 then Inl Exit_1
     else case util_ops A ops \<lparr>drv = d\<lparr>world := w\<rparr>, total_size = 0, max_total_size = 0\<rparr> of
       Inl e \<Rightarrow> Inl e
     | Inr u \<Rightarrow> Inr ((max_total_size u, mem_heapsize (world (drv u))), drv u))"

section \<open>The requests alone\<close>

text \<open>
  \<^verbatim>\<open>eval_mm_speed\<close> and the two evaluations of the C library's allocator send the requests
  of the trace and keep the pointers; the sizes are not stored.
\<close>

definition put_block :: "i32 \<Rightarrow> u32 \<Rightarrow> 'w driver \<Rightarrow> stop + 'w driver" where
  "put_block i p d = (if in_array i (trc_blocks d)
     then Inr (d\<lparr>trc_blocks := (trc_blocks d)[nat (sint i) := p]\<rparr>) else Inl Stray_access)"

definition speed_op :: "'w allocator \<Rightarrow> traceop \<Rightarrow> 'w driver \<Rightarrow> stop + 'w driver" where
  "speed_op A r d = (let i = op_index r in
    case op_type r of
      ALLOC \<Rightarrow>
        (let (p, w) = a_malloc A (op_size r) (world d) in
         if p = 0 then Inl Exit_1 else put_block i p (d\<lparr>world := w\<rparr>))
    | REALLOC \<Rightarrow>
        (case block_of i d of Inl e \<Rightarrow> Inl e | Inr oldp \<Rightarrow>
         let (newp, w) = a_realloc A oldp (op_size r) (world d) in
         if newp = 0 then Inl Exit_1 else put_block i newp (d\<lparr>world := w\<rparr>))
    | FREE \<Rightarrow>
        (case block_of i d of Inl e \<Rightarrow> Inl e | Inr p \<Rightarrow> Inr (d\<lparr>world := a_free A p (world d)\<rparr>)))"

fun speed_ops :: "'w allocator \<Rightarrow> traceop list \<Rightarrow> 'w driver \<Rightarrow> stop + 'w driver" where
  "speed_ops A [] d = Inr d"
| "speed_ops A (r # rs) d = (case speed_op A r d of Inl e \<Rightarrow> Inl e | Inr d1 \<Rightarrow> speed_ops A rs d1)"

definition eval_mm_speed :: "'h world allocator \<Rightarrow> traceop list \<Rightarrow> 'h world driver
    \<Rightarrow> stop + 'h world driver" where
  "eval_mm_speed A ops d =
    (let (r, w) = a_init A (mem_reset_brk (world d)) in
     if sint r < 0 then Inl Exit_1 else speed_ops A ops (d\<lparr>world := w\<rparr>))"

text \<open>
  For the C library's allocator the world is the library's own; a failed call ends the
  program, after a report when it happens in the first of the two.
\<close>

definition eval_libc_valid :: "'w allocator \<Rightarrow> traceop list \<Rightarrow> 'w driver
    \<Rightarrow> stop + (bool \<times> 'w driver)" where
  "eval_libc_valid A ops d = (case speed_ops A ops d of Inl e \<Rightarrow> Inl e | Inr d1 \<Rightarrow> Inr (True, d1))"

definition eval_libc_speed :: "'w allocator \<Rightarrow> traceop list \<Rightarrow> 'w driver \<Rightarrow> stop + 'w driver" where
  "eval_libc_speed A ops d = speed_ops A ops d"

end
