(* ===== verification/Mdriver_Trace.thy ===== *)
theory Mdriver_Trace
  imports Mdriver C_Strings
begin

text \<open>
  Trace files of the malloc lab: the conversions of \<^verbatim>\<open>fscanf\<close> that \<^verbatim>\<open>read_trace\<close> uses, the
  reader itself with its assertions and its unchecked writes, and the proof that it reads
  back a trace written in the format of the files under \<^verbatim>\<open>traces/\<close>.
\<close>

section \<open>fscanf\<close>

text \<open>
  \<^verbatim>\<open>%d\<close> and \<^verbatim>\<open>%u\<close>: blanks, a sign, digits. Without a digit the conversion fails, the sign
  being lost, and the variable keeps its value. The standard leaves a number outside the
  type undefined; the model takes it modulo $2^{32}$.
\<close>

definition scan_sign :: "string \<Rightarrow> int \<times> string" where
  "scan_sign t = (case t of [] \<Rightarrow> (1, [])
     | c # u \<Rightarrow> if c = CHR ''-'' then (- 1, u) else if c = CHR ''+'' then (1, u) else (1, t))"

definition scan_int :: "string \<Rightarrow> i32 option \<times> string" where
  "scan_int s = (let (sg, u) = scan_sign (dropWhile is_space s); ds = takeWhile is_digit u in
     (if ds = [] then None else Some (word_of_int (sg * digits_val ds)), dropWhile is_digit u))"

definition default_to :: "'a \<Rightarrow> 'a option \<Rightarrow> 'a" where
  "default_to x v = (case v of None \<Rightarrow> x | Some y \<Rightarrow> y)"

text \<open>\<^verbatim>\<open>"%u %u"\<close> stops at the first conversion that fails.\<close>

definition scan_two :: "i32 \<Rightarrow> i32 \<Rightarrow> string \<Rightarrow> i32 \<times> i32 \<times> string" where
  "scan_two x y s = (case scan_int s of
     (None, t) \<Rightarrow> (x, y, t)
   | (Some x1, t) \<Rightarrow> (let (v, u) = scan_int t in (x1, default_to y v, u)))"

text \<open>
  \<^verbatim>\<open>"%ud"\<close> reads a number and then a letter \<^verbatim>\<open>d\<close>, which it consumes when it is there.
\<close>

definition scan_ud :: "i32 \<Rightarrow> string \<Rightarrow> i32 \<times> string" where
  "scan_ud x s = (case scan_int s of
     (None, t) \<Rightarrow> (x, t)
   | (Some x1, t) \<Rightarrow> (x1, (case t of [] \<Rightarrow> [] | c # u \<Rightarrow> if c = CHR ''d'' then u else t)))"

section \<open>Reading a trace\<close>

definition MAXLINE :: nat where "MAXLINE = 1024"

text \<open>The variables of the loop over the request lines.\<close>

record reading =
  r_index :: u32
  r_size :: u32
  r_max_index :: u32
  r_op_index :: nat
  r_ops :: "traceop list"

definition store_op :: "(traceop \<Rightarrow> traceop) \<Rightarrow> reading \<Rightarrow> stop + reading" where
  "store_op f r = (if r_op_index r < length (r_ops r)
     then Inr (r\<lparr>r_ops := upd_nth (r_op_index r) f (r_ops r), r_op_index := r_op_index r + 1\<rparr>)
     else Inl Stray_access)"

definition read_sized :: "optype \<Rightarrow> string \<Rightarrow> reading \<Rightarrow> stop + (string \<times> reading)" where
  "read_sized ty s r = (let (i, n, t) = scan_two (r_index r) (r_size r) s in
     case store_op (\<lambda>p. p\<lparr>op_type := ty, op_index := i, op_size := n\<rparr>)
       (r\<lparr>r_index := i, r_size := n,
          r_max_index := (if r_max_index r < i then i else r_max_index r)\<rparr>) of
       Inl e \<Rightarrow> Inl e | Inr r1 \<Rightarrow> Inr (t, r1))"

definition read_free :: "string \<Rightarrow> reading \<Rightarrow> stop + (string \<times> reading)" where
  "read_free s r = (let (i, t) = scan_ud (r_index r) s in
     case store_op (\<lambda>p. p\<lparr>op_type := FREE, op_index := i\<rparr>) (r\<lparr>r_index := i\<rparr>) of
       Inl e \<Rightarrow> Inl e | Inr r1 \<Rightarrow> Inr (t, r1))"

definition read_line :: "char \<Rightarrow> string \<Rightarrow> reading \<Rightarrow> stop + (string \<times> reading)" where
  "read_line c s r =
     (if c = CHR ''a'' then read_sized ALLOC s r
      else if c = CHR ''r'' then read_sized REALLOC s r
      else if c = CHR ''f'' then read_free s r
      else Inl Exit_1)"

lemma length_dropWhile_le': "length (dropWhile P xs) \<le> length xs"
  by (induction xs) auto

lemma scan_word_shorter:
  assumes "scan_word s = Some (w, t)"
  shows "length t < length s" "w \<noteq> []"
proof -
  obtain c u where cu: "dropWhile is_space s = c # u"
    using assms by (cases "dropWhile is_space s") (auto simp: scan_word_def Let_def)
  then have "\<not> is_space c" by (simp add: dropWhile_eq_Cons_conv)
  then have t: "t = dropWhile (\<lambda>c. \<not> is_space c) u" and w: "w = c # takeWhile (\<lambda>c. \<not> is_space c) u"
    using assms cu by (auto simp: scan_word_def Let_def)
  have "length t \<le> length u" unfolding t by (rule length_dropWhile_le')
  moreover have "Suc (length u) \<le> length s"
    using length_dropWhile_le'[of is_space s] cu by simp
  ultimately show "length t < length s" by simp
  show "w \<noteq> []" using w by simp
qed

lemma scan_int_le: "length (snd (scan_int s)) \<le> length s"
proof -
  have "length (snd (scan_sign (dropWhile is_space s))) \<le> length s"
    using length_dropWhile_le'[of is_space s]
    by (auto simp: scan_sign_def split: list.splits)
  then show ?thesis
    using length_dropWhile_le'[of is_digit "snd (scan_sign (dropWhile is_space s))"]
    by (auto simp: scan_int_def Let_def split: prod.splits)
qed

lemma scan_two_le: "scan_two x y s = (i, n, t) \<Longrightarrow> length t \<le> length s"
proof -
  assume a: "scan_two x y s = (i, n, t)"
  obtain v u where vu: "scan_int s = (v, u)" by fastforce
  have u: "length u \<le> length s" using scan_int_le[of s] vu by simp
  show ?thesis
    using a vu u scan_int_le[of u] by (auto simp: scan_two_def split: option.splits prod.splits)
qed

lemma scan_ud_le: "scan_ud x s = (i, t) \<Longrightarrow> length t \<le> length s"
proof -
  assume a: "scan_ud x s = (i, t)"
  obtain v u where vu: "scan_int s = (v, u)" by fastforce
  have u: "length u \<le> length s" using scan_int_le[of s] vu by simp
  show ?thesis
    using a vu u by (auto simp: scan_ud_def split: option.splits list.splits if_splits)
qed

lemma read_line_le: "read_line c s r = Inr (t, r') \<Longrightarrow> length t \<le> length s"
  by (auto simp: read_line_def read_sized_def read_free_def Let_def scan_two_le scan_ud_le
      split: if_splits prod.splits sum.splits)

function read_lines :: "string \<Rightarrow> reading \<Rightarrow> stop + reading" where
  "read_lines s r = (case scan_word s of
     None \<Rightarrow> Inr r
   | Some (w, t) \<Rightarrow>
       if MAXLINE \<le> length w then Inl Stray_access
       else case read_line (hd w) t r of
         Inl e \<Rightarrow> Inl e
       | Inr (u, r1) \<Rightarrow> read_lines u r1)"
  by pat_completeness auto
termination
  by (relation "measure (\<lambda>(s, r). length s)")
     (auto dest!: scan_word_shorter(1) read_line_le)

declare read_lines.simps [simp del]

text \<open>
  The whole function on the contents of the file, \<open>None\<close> when it cannot be opened. The four
  header variables and the three arrays start with whatever \<^verbatim>\<open>malloc\<close> returned: \<open>t0\<close>,
  \<open>junk_op\<close>, \<open>junk_b\<close>, \<open>junk_s\<close>. A negative count makes \<^verbatim>\<open>malloc\<close> fail.
\<close>

definition read_hdr :: "i32 \<Rightarrow> string \<Rightarrow> i32 \<times> string" where
  "read_hdr x s = (let (v, t) = scan_int s in (default_to x v, t))"

definition read_trace :: "trace \<Rightarrow> (nat \<Rightarrow> traceop) \<Rightarrow> (nat \<Rightarrow> u32) \<Rightarrow> (nat \<Rightarrow> u32)
    \<Rightarrow> string option \<Rightarrow> stop + trace" where
  "read_trace t0 junk_op junk_b junk_s file =
    (case file of None \<Rightarrow> Inl Exit_1 | Some s \<Rightarrow>
     let (sg, s1) = read_hdr (sugg_heapsize t0) s;
         (ids, s2) = read_hdr (num_ids t0) s1;
         (nops, s3) = read_hdr (num_ops t0) s2;
         (wt, s4) = read_hdr (weight t0) s3 in
     if sint nops < 0 \<or> sint ids < 0 then Inl Exit_1
     else let ops = map junk_op [0..<nat (sint nops)]; bs = map junk_b [0..<nat (sint ids)]; ss = map junk_s [0..<nat (sint ids)] in
       case read_lines s4 \<lparr>r_index = 0, r_size = 0, r_max_index = 0, r_op_index = 0, r_ops = ops\<rparr> of
         Inl e \<Rightarrow> Inl e
       | Inr r \<Rightarrow>
           if r_max_index r \<noteq> ids - 1 then Inl Assertion
           else if nops \<noteq> of_nat (r_op_index r) then Inl Assertion
           else Inr \<lparr>sugg_heapsize = sg, num_ids = ids, num_ops = nops, weight = wt,
                     trace_ops = r_ops r, blocks = bs, block_sizes = ss\<rparr>)"

section \<open>The main loop\<close>

text \<open>
  The part of \<^verbatim>\<open>main\<close> that tests the allocator under test: for each trace file, the trace is
  read, checked and, when it is valid, measured. \<^verbatim>\<open>fsecs\<close> calls \<^verbatim>\<open>eval_mm_speed\<close> some number
  of times, the parameter \<open>runs\<close>; the time it returns is left out. The result has, for each
  trace, the number of requests, the verdict and the utilization.
\<close>

fun fsecs_runs :: "nat \<Rightarrow> 'h world allocator \<Rightarrow> traceop list \<Rightarrow> 'h world driver
    \<Rightarrow> stop + 'h world driver" where
  "fsecs_runs 0 A ops d = Inr d"
| "fsecs_runs (Suc n) A ops d =
    (case eval_mm_speed A ops d of Inl e \<Rightarrow> Inl e | Inr d1 \<Rightarrow> fsecs_runs n A ops d1)"

type_synonym stats = "i32 \<times> bool \<times> (i32 \<times> u32) option"

definition main_trace :: "nat \<Rightarrow> 'h world allocator \<Rightarrow> int \<Rightarrow> trace \<Rightarrow> 'h world driver
    \<Rightarrow> stop + (stats \<times> 'h world driver)" where
  "main_trace runs A i t d0 =
    (let ops = trace_ops t; d = d0\<lparr>trc_blocks := blocks t, trc_sizes := block_sizes t\<rparr> in
     case eval_mm_valid A i ops d of Inl e \<Rightarrow> Inl e | Inr (ok, d1) \<Rightarrow>
     if \<not> ok then Inr ((num_ops t, False, None), d1)
     else case eval_mm_util A ops d1 of Inl e \<Rightarrow> Inl e | Inr (u, d2) \<Rightarrow>
     case fsecs_runs runs A ops d2 of Inl e \<Rightarrow> Inl e | Inr d3 \<Rightarrow>
     Inr ((num_ops t, True, Some u), d3))"

fun main_traces :: "nat \<Rightarrow> 'h world allocator \<Rightarrow> (string option \<Rightarrow> stop + trace) \<Rightarrow> int
    \<Rightarrow> string option list \<Rightarrow> 'h world driver \<Rightarrow> stop + (stats list \<times> 'h world driver)" where
  "main_traces runs A rd i [] d = Inr ([], d)"
| "main_traces runs A rd i (f # fs) d =
    (case rd f of Inl e \<Rightarrow> Inl e | Inr t \<Rightarrow>
     case main_trace runs A i t d of Inl e \<Rightarrow> Inl e | Inr (st, d1) \<Rightarrow>
     case main_traces runs A rd (i + 1) fs d1 of Inl e \<Rightarrow> Inl e | Inr (sts, d2) \<Rightarrow>
     Inr (st # sts, d2))"

definition numcorrect :: "stats list \<Rightarrow> nat" where
  "numcorrect sts = length (filter (\<lambda>(n, ok, u). ok) sts)"

section \<open>Writing a trace\<close>

text \<open>The format of the trace files: four header lines, then a line for each request.\<close>

abbreviation (input) newline :: char where "newline \<equiv> CHR 0x0A"

definition num :: "i32 \<Rightarrow> string" where "num i = dec_nat (unat i)"

definition op_line :: "traceop \<Rightarrow> string" where
  "op_line p = (case op_type p of
     ALLOC \<Rightarrow> ''a '' @ num (op_index p) @ '' '' @ num (op_size p) @ [newline]
   | REALLOC \<Rightarrow> ''r '' @ num (op_index p) @ '' '' @ num (op_size p) @ [newline]
   | FREE \<Rightarrow> ''f '' @ num (op_index p) @ [newline])"

definition trace_text :: "trace \<Rightarrow> string" where
  "trace_text t = num (sugg_heapsize t) @ [newline] @ num (num_ids t) @ [newline]
     @ num (num_ops t) @ [newline] @ num (weight t) @ [newline] @ concat (map op_line (trace_ops t))"

text \<open>What a line leaves in an entry of the array: a free keeps the old size.\<close>

definition stored :: "traceop \<Rightarrow> traceop \<Rightarrow> traceop" where
  "stored p old = (if op_type p = FREE then p\<lparr>op_size := op_size old\<rparr> else p)"

definition line_max :: "u32 \<Rightarrow> traceop \<Rightarrow> u32" where
  "line_max m p = (if op_type p = FREE then m else if m < op_index p then op_index p else m)"

lemma scan_int_num:
  assumes "list_all is_space sp" "rest = [] \<or> \<not> is_digit (hd rest)"
  shows "scan_int (sp @ num i @ rest) = (Some i, rest)"
proof -
  obtain c u where cu: "num i = c # u" by (cases "num i") (auto simp: num_def)
  have d: "list_all is_digit (num i)" by (simp add: num_def dec_nat_digits)
  have c: "\<not> is_space c" "c \<noteq> CHR ''-''" "c \<noteq> CHR ''+''" using d cu is_digit_facts[of c] by auto
  have "dropWhile is_space (sp @ num i @ rest) = num i @ rest"
    using assms(1) c(1) by (induction sp) (auto simp: cu)
  moreover have "scan_sign (num i @ rest) = (1, num i @ rest)"
    using c by (simp add: scan_sign_def cu)
  moreover have "takeWhile is_digit (num i @ rest) = num i" "dropWhile is_digit (num i @ rest) = rest"
    using d assms(2) by (cases rest; simp add: list_all_iff takeWhile_append2 dropWhile_append2)+
  moreover have "word_of_int (digits_val (num i)) = i"
    by (simp add: num_def dec_nat_val)
  ultimately show ?thesis by (simp add: scan_int_def cu)
qed

lemma blanks [simp]: "is_space newline" "is_space CHR '' ''" "\<not> is_digit newline" "\<not> is_digit CHR '' ''"
  by (simp_all add: is_space_def is_digit_def)

lemma scan_int_first: "scan_int (num i @ newline # rest) = (Some i, newline # rest)"
  using scan_int_num[of "[]" "newline # rest" i] by simp

lemma scan_int_later:
  "scan_int (newline # num i @ newline # rest) = (Some i, newline # rest)"
  using scan_int_num[of "[newline]" "newline # rest" i] by simp

lemma scan_int_blank:
  "scan_int (CHR '' '' # num i @ newline # rest) = (Some i, newline # rest)"
  "scan_int (CHR '' '' # num i @ CHR '' '' # rest) = (Some i, CHR '' '' # rest)"
  using scan_int_num[of "[CHR '' '']" "newline # rest" i]
    scan_int_num[of "[CHR '' '']" "CHR '' '' # rest" i] by simp_all

lemmas scan_num = scan_int_first scan_int_later scan_int_blank

text \<open>One line. The reader is behind the newline of the line before.\<close>

definition after_line :: "traceop \<Rightarrow> reading \<Rightarrow> reading" where
  "after_line p r = r\<lparr>r_index := op_index p,
     r_size := (if op_type p = FREE then r_size r else op_size p),
     r_max_index := line_max (r_max_index r) p,
     r_ops := upd_nth (r_op_index r) (stored p) (r_ops r), r_op_index := r_op_index r + 1\<rparr>"

lemma after_line_simps [simp]:
  "r_op_index (after_line p r) = Suc (r_op_index r)"
  "r_max_index (after_line p r) = line_max (r_max_index r) p"
  "r_ops (after_line p r) = upd_nth (r_op_index r) (stored p) (r_ops r)"
  by (simp_all add: after_line_def)

lemma stored_eqs:
  "op_type p = ALLOC \<Longrightarrow> (\<lambda>q. q\<lparr>op_type := ALLOC, op_index := op_index p, op_size := op_size p\<rparr>) = stored p"
  "op_type p = REALLOC \<Longrightarrow> (\<lambda>q. q\<lparr>op_type := REALLOC, op_index := op_index p, op_size := op_size p\<rparr>) = stored p"
  "op_type p = FREE \<Longrightarrow> (\<lambda>q. q\<lparr>op_type := FREE, op_index := op_index p\<rparr>) = stored p"
  by (auto simp: stored_def fun_eq_iff)

lemma read_lines_line:
  assumes "r_op_index r < length (r_ops r)"
  shows "read_lines (newline # op_line p @ rest) r = read_lines (newline # rest) (after_line p r)"
proof (cases "op_type p")
  case ALLOC
  have "scan_word (newline # op_line p @ rest)
      = Some (''a'', CHR '' '' # num (op_index p) @ CHR '' '' # num (op_size p) @ newline # rest)"
    by (simp add: scan_word_def op_line_def ALLOC is_space_def)
  then show ?thesis using assms ALLOC
    by (subst read_lines.simps)
       (simp add: MAXLINE_def read_line_def read_sized_def scan_two_def scan_num default_to_def
          store_op_def after_line_def stored_eqs line_max_def)
next
  case REALLOC
  have "scan_word (newline # op_line p @ rest)
      = Some (''r'', CHR '' '' # num (op_index p) @ CHR '' '' # num (op_size p) @ newline # rest)"
    by (simp add: scan_word_def op_line_def REALLOC is_space_def)
  then show ?thesis using assms REALLOC
    by (subst read_lines.simps)
       (simp add: MAXLINE_def read_line_def read_sized_def scan_two_def scan_num default_to_def
          store_op_def after_line_def stored_eqs line_max_def)
next
  case FREE
  have "scan_word (newline # op_line p @ rest) = Some (''f'', CHR '' '' # num (op_index p) @ newline # rest)"
    by (simp add: scan_word_def op_line_def FREE is_space_def)
  then show ?thesis using assms FREE
    by (subst read_lines.simps)
       (simp add: MAXLINE_def read_line_def read_free_def scan_ud_def scan_num
          store_op_def after_line_def stored_eqs line_max_def)
qed

lemma read_lines_end: "read_lines [newline] r = Inr r"
  by (subst read_lines.simps) (simp add: scan_word_def)

text \<open>All lines.\<close>

fun store_ops :: "nat \<Rightarrow> traceop list \<Rightarrow> traceop list \<Rightarrow> traceop list" where
  "store_ops k [] xs = xs"
| "store_ops k (p # ps) xs = store_ops (Suc k) ps (upd_nth k (stored p) xs)"

lemma store_ops_nth:
  "k + length ps \<le> length xs \<Longrightarrow> i < length xs \<Longrightarrow> store_ops k ps xs ! i =
    (if k \<le> i \<and> i < k + length ps then stored (ps ! (i - k)) (xs ! i) else xs ! i)"
  by (induction k ps xs arbitrary: i rule: store_ops.induct)
     (auto simp: nth_upd_nth nth_Cons' Suc_diff_le split: if_splits)

lemma length_store_ops [simp]: "length (store_ops k ps xs) = length xs"
  by (induction k ps xs rule: store_ops.induct) auto

lemma read_lines_all:
  "r_op_index r + length ps \<le> length (r_ops r) \<Longrightarrow>
   \<exists>r'. read_lines (newline # concat (map op_line ps)) r = Inr r' \<and>
     r_op_index r' = r_op_index r + length ps \<and> r_max_index r' = foldl line_max (r_max_index r) ps
     \<and> r_ops r' = store_ops (r_op_index r) ps (r_ops r)"
proof (induction ps arbitrary: r)
  case (Cons p ps)
  then show ?case
    using Cons.IH[of "after_line p r"] by (simp add: read_lines_line)
qed (simp add: read_lines_end)

lemma store_ops_fresh:
  "length ps = n \<Longrightarrow> store_ops 0 ps (map f [0..<n]) = map (\<lambda>i. stored (ps ! i) (f i)) [0..<n]"
  by (rule nth_equalityI) (auto simp: store_ops_nth)

lemma read_trace_text:
  assumes "0 \<le> sint (num_ids t)" "0 \<le> sint (num_ops t)"
    and len: "length (trace_ops t) = nat (sint (num_ops t))"
    and ids: "foldl line_max 0 (trace_ops t) = num_ids t - 1"
  shows "read_trace t0 junk_op junk_b junk_s (Some (trace_text t)) = Inr
    (t\<lparr>trace_ops := map (\<lambda>i. stored (trace_ops t ! i) (junk_op i)) [0..<length (trace_ops t)],
       blocks := map junk_b [0..<nat (sint (num_ids t))],
       block_sizes := map junk_s [0..<nat (sint (num_ids t))]\<rparr>)"
proof -
  let ?ops = "trace_ops t"
  have n: "of_nat (length ?ops) = num_ops t"
    using assms(2) by (simp add: len)
  let ?r = "\<lparr>r_index = 0, r_size = 0, r_max_index = 0, r_op_index = 0,
              r_ops = map junk_op [0..<nat (sint (num_ops t))]\<rparr>"
  obtain r' where r': "read_lines (newline # concat (map op_line ?ops)) ?r = Inr r'"
    "r_op_index r' = length ?ops" "r_max_index r' = num_ids t - 1"
    "r_ops r' = map (\<lambda>i. stored (?ops ! i) (junk_op i)) [0..<length ?ops]"
    using read_lines_all[of ?r ?ops] len ids store_ops_fresh[of ?ops "length ?ops" junk_op] by auto
  have h: "read_hdr x (num i @ newline # rest) = (i, newline # rest)"
    "read_hdr x (newline # num i @ newline # rest) = (i, newline # rest)" for x i rest
    by (simp_all add: read_hdr_def scan_num default_to_def)
  show ?thesis
    using assms(1,2) r' n
    by (simp add: read_trace_def trace_text_def h Let_def)
qed

end
