(* ===== verification/Mdriver_Props.thy ===== *)
theory Mdriver_Props
  imports Mdriver_Trace
begin

text \<open>
  What the driver's checks show, for every allocator: the errors it reports, the ranges of
  the payloads it has accepted, and the two defects of the checks.
\<close>

section \<open>Range lists\<close>

lemma add_range_True:
  assumes "add_range lo sz t k d = Inr (True, d')"
  shows "0 < sint sz" "IS_ALIGNED lo" "mem_heap_lo (world d) \<le> lo" "lo \<le> mem_heap_hi (world d)"
    "mem_heap_lo (world d) \<le> lo + sz - 1" "lo + sz - 1 \<le> mem_heap_hi (world d)"
    "list_all (\<lambda>p. \<not> end_inside lo (lo + sz - 1) p) (ranges d)"
    "d' = d\<lparr>ranges := (lo, lo + sz - 1) # ranges d\<rparr>"
  using assms
  by (auto simp: add_range_def Let_def find_None_iff list_all_iff not_less split: if_splits option.splits)

lemma add_range_False:
  assumes "add_range lo sz t k d = Inr (False, d')"
  shows "\<exists>c. d' = malloc_error t k c d"
  using assms by (auto simp: add_range_def Let_def split: if_splits option.splits)

lemma add_range_accepts:
  assumes "0 < sint sz" "IS_ALIGNED lo" "mem_heap_lo (world d) \<le> lo" "lo \<le> mem_heap_hi (world d)"
    "mem_heap_lo (world d) \<le> lo + sz - 1" "lo + sz - 1 \<le> mem_heap_hi (world d)"
    "list_all (\<lambda>p. \<not> end_inside lo (lo + sz - 1) p) (ranges d)"
  shows "add_range lo sz t k d = Inr (True, d\<lparr>ranges := (lo, lo + sz - 1) # ranges d\<rparr>)"
proof -
  have "find (end_inside lo (lo + sz - 1)) (ranges d) = None"
    using assms(7) by (auto simp: find_None_iff list_all_iff)
  then show ?thesis using assms(1-6) by (auto simp: add_range_def Let_def not_less)
qed

lemma set_remove_range: "set (remove_range lo ps) \<subseteq> set ps"
  by (induction ps) auto

lemma sorted_remove_range: "sorted_wrt P ps \<Longrightarrow> sorted_wrt P (remove_range lo ps)"
  by (induction ps) (use set_remove_range in fastforce)+

lemma remove_range_fst:
  "distinct (map fst ps) \<Longrightarrow> set (remove_range lo ps) = {p \<in> set ps. fst p \<noteq> lo}"
  by (induction ps) (auto simp: image_iff)

lemma distinct_remove_range:
  "distinct (map fst ps) \<Longrightarrow> distinct (map fst (remove_range lo ps))"
  by (induction ps) (use set_remove_range in fastforce)+

section \<open>Frames of the smaller operations\<close>

lemma malloc_error_simps [simp]:
  "world (malloc_error t k c d) = world d"
  "ranges (malloc_error t k c d) = ranges d"
  "trc_blocks (malloc_error t k c d) = trc_blocks d"
  "trc_sizes (malloc_error t k c d) = trc_sizes d"
  "reports (malloc_error t k c d) = (t, LINENUM k, c) # reports d"
  by (simp_all add: malloc_error_def)

lemma remember_Inr:
  "remember i p sz d = Inr (ok, d') \<Longrightarrow> ok \<and> ranges d' = ranges d \<and> reports d' = reports d \<and> world d' = world d"
  by (auto simp: remember_def split: if_splits)

lemma put_block_reports [simp]: "put_block i p d = Inr d' \<Longrightarrow> reports d' = reports d"
  by (auto simp: put_block_def split: if_splits)

section \<open>Errors are counted\<close>

text \<open>
  A request adds no report when it passes and exactly one when it does not.
\<close>

definition one_report :: "int \<Rightarrow> bool \<Rightarrow> 'w driver \<Rightarrow> 'w driver \<Rightarrow> bool" where
  "one_report t ok d d' \<longleftrightarrow>
     (if ok then reports d' = reports d else \<exists>k c. reports d' = (t, LINENUM k, c) # reports d)"

lemma one_report_valid_alloc: "valid_alloc A t k i sz d = Inr (ok, d') \<Longrightarrow> one_report t ok d d'"
  by (auto simp: valid_alloc_def one_report_def Let_def dest!: add_range_True(8) add_range_False remember_Inr
      split: prod.splits if_splits sum.splits)

lemma one_report_valid_realloc: "valid_realloc A t k i sz d = Inr (ok, d') \<Longrightarrow> one_report t ok d d'"
  by (auto simp: valid_realloc_def one_report_def Let_def dest!: add_range_True(8) add_range_False remember_Inr
      split: prod.splits if_splits sum.splits)

lemma one_report_valid_op: "valid_op A t k r d = Inr (ok, d') \<Longrightarrow> one_report t ok d d'"
  by (auto simp: valid_op_def one_report_valid_alloc one_report_valid_realloc split: optype.splits)
     (auto simp: valid_free_def one_report_def split: sum.splits)

lemma one_report_trans: "one_report t True d d1 \<Longrightarrow> one_report t ok d1 d' \<Longrightarrow> one_report t ok d d'"
  by (simp add: one_report_def split: if_splits)

lemma one_report_valid_ops: "valid_ops A t k rs d = Inr (ok, d') \<Longrightarrow> one_report t ok d d'"
proof (induction rs arbitrary: k d)
  case (Cons r rs)
  obtain ok1 d1 where 1: "valid_op A t k r d = Inr (ok1, d1)"
    using Cons.prems by (auto split: sum.splits)
  then have "one_report t ok1 d d1" by (rule one_report_valid_op)
  moreover have "if ok1 then valid_ops A t (k + 1) rs d1 = Inr (ok, d') else \<not> ok \<and> d' = d1"
    using Cons.prems 1 by (cases ok1) auto
  ultimately show ?case
    using Cons.IH[of "k + 1" d1] one_report_trans[of t d d1 ok d'] by (cases ok1) auto
qed (simp add: one_report_def)

lemma one_report_eval_mm_valid:
  assumes "eval_mm_valid A t ops d = Inr (ok, d')"
  shows "one_report t ok d d'"
proof -
  let ?d1 = "clear_ranges (d\<lparr>world := mem_reset_brk (world d)\<rparr>)"
  obtain r w where rw: "a_init A (world ?d1) = (r, w)" by fastforce
  show ?thesis
  proof (cases "sint r < 0")
    case True
    then show ?thesis using assms rw
      by (auto simp: eval_mm_valid_def one_report_def clear_ranges_def)
  next
    case False
    then have "one_report t ok (?d1\<lparr>world := w\<rparr>) d'"
      using assms rw one_report_valid_ops by (fastforce simp: eval_mm_valid_def Let_def)
    then show ?thesis by (auto simp: one_report_def clear_ranges_def split: if_splits)
  qed
qed

lemma speed_op_reports: "speed_op A r d = Inr d' \<Longrightarrow> reports d' = reports d"
  by (auto simp: speed_op_def Let_def dest!: put_block_reports
      split: sum.splits optype.splits prod.splits if_splits)

lemma speed_ops_reports: "speed_ops A rs d = Inr d' \<Longrightarrow> reports d' = reports d"
  by (induction A rs d rule: speed_ops.induct) (auto dest!: speed_op_reports split: sum.splits)

lemma fsecs_runs_reports: "fsecs_runs n A ops d = Inr d' \<Longrightarrow> reports d' = reports d"
proof (induction n A ops d rule: fsecs_runs.induct)
  case (2 n A ops d)
  then show ?case
    by (auto simp: eval_mm_speed_def Let_def dest!: speed_ops_reports split: sum.splits prod.splits if_splits)
qed simp

lemma util_op_reports: "util_op A r u = Inr u' \<Longrightarrow> reports (drv u') = reports (drv u)"
  by (auto simp: util_op_def count_def Let_def dest!: remember_Inr
      split: sum.splits optype.splits prod.splits if_splits)

lemma util_ops_reports: "util_ops A rs u = Inr u' \<Longrightarrow> reports (drv u') = reports (drv u)"
  by (induction A rs u rule: util_ops.induct) (auto dest!: util_op_reports split: sum.splits)

lemma eval_mm_util_reports: "eval_mm_util A ops d = Inr (u, d') \<Longrightarrow> reports d' = reports d"
  by (auto simp: eval_mm_util_def Let_def dest!: util_ops_reports split: sum.splits prod.splits if_splits)

lemma main_trace_reports:
  "main_trace n A i t d = Inr ((m, ok, u), d') \<Longrightarrow> errors d' = errors d + (if ok then 0 else 1)"
  by (auto simp: main_trace_def Let_def errors_def one_report_def
      dest!: one_report_eval_mm_valid eval_mm_util_reports fsecs_runs_reports
      split: sum.splits prod.splits if_splits)

lemma main_traces_errors:
  "main_traces n A rd i fs d = Inr (sts, d') \<Longrightarrow>
   length sts = length fs \<and> errors d' + numcorrect sts = errors d + length fs"
proof (induction fs arbitrary: i d sts d')
  case (Cons f fs)
  obtain t m ok u d1 sts1 where
    "main_trace n A i t d = Inr ((m, ok, u), d1)" "sts = (m, ok, u) # sts1"
    "main_traces n A rd (i + 1) fs d1 = Inr (sts1, d')"
    using Cons.prems by (auto split: sum.splits)
  then show ?case
    using Cons.IH[of "i + 1" d1 sts1 d'] main_trace_reports[of n A i t d m ok u d1]
    by (auto simp: numcorrect_def split: if_splits)
qed (simp add: numcorrect_def)

section \<open>What the ranges of a valid run satisfy\<close>

text \<open>
  The assumption on the allocator is that it only moves the break up inside the heap, as
  \<^verbatim>\<open>mem_sbrk\<close> does; what it returns is arbitrary.
\<close>

definition heap_grows :: "'h world \<Rightarrow> 'h world \<Rightarrow> bool" where
  "heap_grows w w' \<longleftrightarrow> heap_ok w' \<and> mem_start_brk w' = mem_start_brk w \<and> mem_brk w \<le> mem_brk w'"

definition only_grows :: "'h world allocator \<Rightarrow> bool" where
  "only_grows A \<longleftrightarrow> (\<forall>w. heap_ok w \<longrightarrow> heap_grows w (snd (a_init A w)) \<and> (\<forall>n. heap_grows w (snd (a_malloc A n w)))
     \<and> (\<forall>p n. heap_grows w (snd (a_realloc A p n w))) \<and> (\<forall>p. heap_grows w (a_free A p w)))"

definition inside_heap :: "'h world \<Rightarrow> range \<Rightarrow> bool" where
  "inside_heap w p \<longleftrightarrow> IS_ALIGNED (fst p) \<and> mem_start_brk w \<le> fst p \<and> fst p \<le> snd p \<and> snd p < mem_brk w"

definition apart :: "range \<Rightarrow> range \<Rightarrow> bool" where
  "apart p q \<longleftrightarrow> snd p < fst q \<or> snd q < fst p"

definition swallows :: "range \<Rightarrow> range \<Rightarrow> bool" where
  "swallows p q \<longleftrightarrow> fst p < fst q \<and> snd q < snd p"

definition ranges_ok :: "'h world driver \<Rightarrow> bool" where
  "ranges_ok d \<longleftrightarrow> heap_ok (world d) \<and> list_all (inside_heap (world d)) (ranges d)
     \<and> sorted_wrt (\<lambda>p q. apart p q \<or> swallows p q) (ranges d)"

lemma end_inside_cases:
  "lo \<le> hi \<Longrightarrow> \<not> end_inside lo hi q \<Longrightarrow> fst q \<le> snd q \<Longrightarrow> apart (lo, hi) q \<or> swallows (lo, hi) q"
  by (auto simp: end_inside_def apart_def swallows_def not_le)

lemma payload_no_wrap:
  assumes "heap_ok w" "0 < sint (sz :: i32)" "mem_heap_lo w \<le> lo" "lo \<le> mem_heap_hi w"
    "mem_heap_lo w \<le> lo + sz - 1" "lo + sz - 1 \<le> mem_heap_hi w"
  shows "lo \<le> lo + sz - 1" "lo + sz - 1 < mem_brk w" "mem_start_brk w < mem_brk w"
proof -
  define s b l z h where n: "s = unat (mem_start_brk w)" "b = unat (mem_brk w)" "l = unat lo"
    "z = unat sz" "h = unat (lo + sz - 1)"
  have "mem_start_brk w \<noteq> 0" "mem_brk w \<noteq> 0" using assms(1) by (auto simp: heap_ok_def)
  then have hi: "unat (mem_heap_hi w) = b - 1" and "0 < s"
    by (auto simp: mem_heap_hi_def unat_minus_one n unat_gt_0)
  have "s \<le> l" "l \<le> b - 1" "s \<le> h" "h \<le> b - 1"
    using assms(3-6) hi by (simp_all add: mem_heap_lo_def word_le_nat_alt n)
  moreover have "s \<le> b" "b \<le> s + 20971520" using heap_okD[OF assms(1)] by (simp_all add: n)
  moreover have z: "0 < z" "z < 2147483648"
    using assms(2) sint_nonneg32[of sz] by (auto simp: n unat_gt_0 intro: gr0I)
  moreover have "h = (if l + (z - 1) < 4294967296 then l + (z - 1) else l + (z - 1) - 4294967296)"
  proof -
    have "sz \<noteq> 0" using assms(2) by auto
    then have "unat (sz - 1) = z - 1" by (simp add: unat_minus_one n)
    then have "unat (lo + (sz - 1)) = (if l + (z - 1) < 4294967296 then l + (z - 1) else l + (z - 1) - 4294967296)"
      by (simp add: unat_plus_if' n)
    then show ?thesis by (simp add: n(5) add_diff_eq)
  qed
  ultimately have "l \<le> h" "h < b" "s < b" using \<open>0 < s\<close> by (auto split: if_splits)
  then show "lo \<le> lo + sz - 1" "lo + sz - 1 < mem_brk w" "mem_start_brk w < mem_brk w"
    unfolding n word_le_nat_alt word_less_nat_alt .
qed

lemma inside_heap_grows:
  "heap_grows w w' \<Longrightarrow> inside_heap w p \<Longrightarrow> inside_heap w' p"
  by (auto simp: inside_heap_def heap_grows_def)

lemma ranges_ok_grows:
  "ranges_ok d \<Longrightarrow> heap_grows (world d) w \<Longrightarrow> ranges_ok (d\<lparr>world := w\<rparr>)"
  by (auto simp: ranges_ok_def list_all_iff inside_heap_grows heap_grows_def)

lemma ranges_ok_cong:
  "ranges_ok d \<Longrightarrow> ranges d' = ranges d \<Longrightarrow> world d' = world d \<Longrightarrow> ranges_ok d'"
  by (simp add: ranges_ok_def)

lemma ranges_ok_bytes:
  "ranges_ok (d\<lparr>world := (world d)\<lparr>heap_bytes := m\<rparr>\<rparr>) = ranges_ok d"
  by (simp add: ranges_ok_def inside_heap_def cong: list_all_cong)

lemma ranges_ok_remove:
  "ranges_ok d \<Longrightarrow> ranges_ok (d\<lparr>ranges := remove_range p (ranges d)\<rparr>)"
  using set_remove_range[of p "ranges d"]
  by (auto simp: ranges_ok_def list_all_iff sorted_remove_range)

lemma ranges_ok_error: "ranges_ok (malloc_error t k c d) = ranges_ok d"
  by (simp add: ranges_ok_def)

lemma ranges_ok_add:
  assumes "ranges_ok d" "add_range lo sz t k d = Inr (ok, d')"
  shows "ranges_ok d'"
proof (cases ok)
  case False
  then show ?thesis using assms add_range_False by (fastforce simp: ranges_ok_error)
next
  case True
  have "add_range lo sz t k d = Inr (True, d')" using assms(2) True by simp
  note a = add_range_True[OF this]
  have ok: "heap_ok (world d)" using assms(1) by (simp add: ranges_ok_def)
  note n = payload_no_wrap[OF ok a(1) a(3-6)]
  have "\<forall>q \<in> set (ranges d). apart (lo, lo + sz - 1) q \<or> swallows (lo, lo + sz - 1) q"
    using a(7) n(1) assms(1) end_inside_cases[of lo "lo + sz - 1"]
    by (auto simp: list_all_iff ranges_ok_def inside_heap_def)
  then show ?thesis
    using assms(1) a(2,3,8) n by (simp add: ranges_ok_def inside_heap_def mem_heap_lo_def)
qed

lemma ranges_ok_remember:
  "ranges_ok d \<Longrightarrow> remember i p sz d = Inr (ok, d') \<Longrightarrow> ranges_ok d'"
  using remember_Inr ranges_ok_cong by blast

lemma only_growsD:
  assumes "only_grows A" "heap_ok w"
  shows "a_init A w = (r, w') \<Longrightarrow> heap_grows w w'" "a_malloc A n w = (p, w') \<Longrightarrow> heap_grows w w'"
    "a_realloc A p n w = (q, w') \<Longrightarrow> heap_grows w w'" "heap_grows w (a_free A p w)"
  using assms unfolding only_grows_def by (metis snd_conv)+

lemma ranges_ok_valid_op:
  assumes g: "only_grows A" and d: "ranges_ok d" and v: "valid_op A t k r d = Inr (ok, d')"
  shows "ranges_ok d'"
proof -
  have h: "heap_ok (world d)" using d by (simp add: ranges_ok_def)
  note G = only_growsD[OF g h]
  show ?thesis
  proof (cases "op_type r")
    case ALLOC
    obtain p w where pw: "a_malloc A (op_size r) (world d) = (p, w)" by fastforce
    then have d1: "ranges_ok (d\<lparr>world := w\<rparr>)" using d G(2) ranges_ok_grows by blast
    show ?thesis using v ALLOC pw d1
      by (auto simp: valid_op_def valid_alloc_def Let_def ranges_ok_error
          dest!: ranges_ok_add[OF d1] split: if_splits sum.splits)
         (metis ranges_ok_bytes ranges_ok_remember)
  next
    case REALLOC
    obtain oldp where b: "block_of (op_index r) d = Inr oldp"
      using v REALLOC by (auto simp: valid_op_def valid_realloc_def split: sum.splits)
    obtain p w where pw: "a_realloc A oldp (op_size r) (world d) = (p, w)" by fastforce
    then have d1: "ranges_ok (d\<lparr>world := w\<rparr>)" using d G(3) ranges_ok_grows by blast
    have d2: "ranges_ok (d\<lparr>world := w, ranges := remove_range oldp (ranges d)\<rparr>)"
      using ranges_ok_remove[OF d1] by simp
    show ?thesis using v REALLOC b pw d1
      by (auto simp: valid_op_def valid_realloc_def Let_def ranges_ok_error
          dest!: ranges_ok_add[OF d2] split: if_splits sum.splits)
         (metis ranges_ok_bytes ranges_ok_remember)+
  next
    case FREE
    obtain p where b: "block_of (op_index r) d = Inr p"
      using v FREE by (auto simp: valid_op_def valid_free_def split: sum.splits)
    have "ranges_ok (d\<lparr>ranges := remove_range p (ranges d), world := a_free A p (world d)\<rparr>)"
      using ranges_ok_grows[OF ranges_ok_remove[OF d]] G(4) by simp
    then show ?thesis using v FREE b by (auto simp: valid_op_def valid_free_def)
  qed
qed

lemma ranges_ok_valid_ops:
  "only_grows A \<Longrightarrow> ranges_ok d \<Longrightarrow> valid_ops A t k rs d = Inr (ok, d') \<Longrightarrow> ranges_ok d'"
proof (induction rs arbitrary: k d)
  case (Cons r rs)
  obtain ok1 d1 where 1: "valid_op A t k r d = Inr (ok1, d1)"
    using Cons.prems by (auto split: sum.splits)
  then have "ranges_ok d1" using Cons.prems ranges_ok_valid_op by blast
  then show ?case using Cons.IH[of d1 "k + 1"] Cons.prems 1 by (cases ok1) auto
qed simp

lemma ranges_ok_eval:
  assumes "only_grows A" "heap_ok (world d)" "eval_mm_valid A t ops d = Inr (ok, d')"
  shows "ranges_ok d'"
proof -
  let ?d1 = "clear_ranges (d\<lparr>world := mem_reset_brk (world d)\<rparr>)"
  obtain r w where rw: "a_init A (world ?d1) = (r, w)" by fastforce
  have h: "heap_ok (world ?d1)" using assms(2) by (simp add: clear_ranges_def mem_reset_brk_ok)
  have "heap_grows (world ?d1) w" using h by (rule only_growsD(1)[OF assms(1) _ rw])
  then have d2: "ranges_ok (?d1\<lparr>world := w\<rparr>)"
    by (auto simp: ranges_ok_def clear_ranges_def heap_grows_def)
  show ?thesis
    using assms(3) rw d2 ranges_ok_valid_ops[OF assms(1) d2]
    by (auto simp: eval_mm_valid_def Let_def ranges_ok_error split: if_splits)
qed

end
