(* ===== verification/Mdriver_Contract.thy ===== *)
theory Mdriver_Contract
  imports Mdriver_Props
begin

text \<open>
  The contract of an allocator, as an abstract specification on the map of live blocks, and
  the proof that the driver accepts every allocator that keeps it.
\<close>

section \<open>The contract\<close>

text \<open>The live blocks: the size of the payload at each address.\<close>

type_synonym live = "u32 \<rightharpoonup> nat"

definition in_block :: "u32 \<Rightarrow> nat \<Rightarrow> u32 \<Rightarrow> bool" where
  "in_block p n a \<longleftrightarrow> unat (a - p) < n"

definition payload :: "live \<Rightarrow> u32 \<Rightarrow> bool" where
  "payload L a \<longleftrightarrow> (\<exists>p n. L p = Some n \<and> in_block p n a)"

definition fits :: "live \<Rightarrow> 'h world \<Rightarrow> u32 \<Rightarrow> nat \<Rightarrow> bool" where
  "fits L w p n \<longleftrightarrow> IS_ALIGNED p \<and> mem_start_brk w \<le> p \<and> unat p + n \<le> unat (mem_brk w)
     \<and> (\<forall>q k. L q = Some k \<longrightarrow> unat q + k \<le> unat p \<or> unat p + n \<le> unat q)"

definition untouched :: "live \<Rightarrow> memory \<Rightarrow> memory \<Rightarrow> bool" where
  "untouched L m m' \<longleftrightarrow> (\<forall>a. payload L a \<longrightarrow> m' a = m a)"

definition good_size :: "nat \<Rightarrow> bool" where "good_size n \<longleftrightarrow> 0 < n \<and> n < 2147483648"

text \<open>
  \<open>I L w\<close> is the allocator's own invariant when the blocks of \<open>L\<close> are live: it holds after
  \<^verbatim>\<open>mm_init\<close> on an empty heap, the user may write to his payloads, and each call returns a
  block that fits, leaves the payloads alone and keeps the invariant; a call may fail.
\<close>

definition malloc_law :: "'h world allocator \<Rightarrow> (live \<Rightarrow> 'h world \<Rightarrow> bool) \<Rightarrow> bool" where
  "malloc_law A I \<longleftrightarrow> (\<forall>L w n p w'. I L w \<longrightarrow> good_size n \<longrightarrow> a_malloc A (of_nat n) w = (p, w') \<longrightarrow> p \<noteq> 0 \<longrightarrow>
     fits L w' p n \<and> untouched L (heap_bytes w) (heap_bytes w') \<and> I (L(p \<mapsto> n)) w')"

definition realloc_law :: "'h world allocator \<Rightarrow> (live \<Rightarrow> 'h world \<Rightarrow> bool) \<Rightarrow> bool" where
  "realloc_law A I \<longleftrightarrow> (\<forall>L w p k n q w'. I L w \<longrightarrow> L p = Some k \<longrightarrow> good_size n \<longrightarrow>
     a_realloc A p (of_nat n) w = (q, w') \<longrightarrow> q \<noteq> 0 \<longrightarrow>
     fits (L(p := None)) w' q n \<and> untouched (L(p := None)) (heap_bytes w) (heap_bytes w')
     \<and> (\<forall>j < min k n. heap_bytes w' (q + of_nat j) = heap_bytes w (p + of_nat j))
     \<and> I (L(p := None, q \<mapsto> n)) w')"

definition free_law :: "'h world allocator \<Rightarrow> (live \<Rightarrow> 'h world \<Rightarrow> bool) \<Rightarrow> bool" where
  "free_law A I \<longleftrightarrow> (\<forall>L w p k. I L w \<longrightarrow> L p = Some k \<longrightarrow>
     untouched (L(p := None)) (heap_bytes w) (heap_bytes (a_free A p w)) \<and> I (L(p := None)) (a_free A p w))"

definition user_law :: "(live \<Rightarrow> 'h world \<Rightarrow> bool) \<Rightarrow> bool" where
  "user_law I \<longleftrightarrow> (\<forall>L w m. I L w \<longrightarrow> (\<forall>a. m a \<noteq> heap_bytes w a \<longrightarrow> payload L a) \<longrightarrow> I L (w\<lparr>heap_bytes := m\<rparr>))"

definition init_law :: "'h world allocator \<Rightarrow> (live \<Rightarrow> 'h world \<Rightarrow> bool) \<Rightarrow> bool" where
  "init_law A I \<longleftrightarrow> (\<forall>w r w'. heap_ok w \<longrightarrow> mem_heapsize w = 0 \<longrightarrow> a_init A w = (r, w') \<longrightarrow> 0 \<le> sint r
     \<longrightarrow> I Map.empty w')"

definition contract :: "'h world allocator \<Rightarrow> (live \<Rightarrow> 'h world \<Rightarrow> bool) \<Rightarrow> bool" where
  "contract A I \<longleftrightarrow> init_law A I \<and> malloc_law A I \<and> realloc_law A I \<and> free_law A I \<and> user_law I"

section \<open>Sensible traces\<close>

text \<open>
  The requests name ids in range, allocate a dead id, reallocate and free a live one, and
  have a positive size. The last condition is the driver's: an id that is reallocated has a
  low byte below 128.
\<close>

definition good_op :: "nat \<Rightarrow> nat set \<Rightarrow> traceop \<Rightarrow> bool" where
  "good_op n S r \<longleftrightarrow> 0 \<le> sint (op_index r) \<and> sint (op_index r) < int n \<and>
     (case op_type r of
        ALLOC \<Rightarrow> nat (sint (op_index r)) \<notin> S \<and> 0 < sint (op_size r)
      | REALLOC \<Rightarrow> nat (sint (op_index r)) \<in> S \<and> 0 < sint (op_size r) \<and> op_index r AND 0xFF < 128
      | FREE \<Rightarrow> nat (sint (op_index r)) \<in> S)"

definition after_op :: "traceop \<Rightarrow> nat set \<Rightarrow> nat set" where
  "after_op r S = (case op_type r of
     ALLOC \<Rightarrow> insert (nat (sint (op_index r))) S | REALLOC \<Rightarrow> S | FREE \<Rightarrow> S - {nat (sint (op_index r))})"

fun good_trace :: "nat \<Rightarrow> nat set \<Rightarrow> traceop list \<Rightarrow> bool" where
  "good_trace n S [] = True"
| "good_trace n S (r # rs) = (good_op n S r \<and> good_trace n (after_op r S) rs)"

section \<open>The invariant of a run\<close>

text \<open>
  The ids in \<open>S\<close> are live: their blocks are the blocks of \<open>L\<close> and the ranges of the list,
  and each is filled with the low byte of its id.
\<close>

definition id_byte :: "nat \<Rightarrow> u8" where "id_byte i = of_nat i"

definition ids_ok :: "nat set \<Rightarrow> live \<Rightarrow> 'h world driver \<Rightarrow> bool" where
  "ids_ok S L d \<longleftrightarrow> length (trc_sizes d) = length (trc_blocks d)
     \<and> (\<forall>i\<in>S. i < length (trc_blocks d)) \<and> inj_on (\<lambda>i. trc_blocks d ! i) S
     \<and> (\<forall>p n. L p = Some n \<longleftrightarrow> (\<exists>i\<in>S. trc_blocks d ! i = p \<and> unat (trc_sizes d ! i) = n))
     \<and> (\<forall>p n. L p = Some n \<longrightarrow> good_size n \<and> unat p + n \<le> 4294967296)
     \<and> (\<forall>p n q k. L p = Some n \<longrightarrow> L q = Some k \<longrightarrow> p \<noteq> q \<longrightarrow> unat p + n \<le> unat q \<or> unat q + k \<le> unat p)"

definition ranges_of :: "live \<Rightarrow> range list \<Rightarrow> bool" where
  "ranges_of L rs \<longleftrightarrow> distinct (map fst rs)
     \<and> (\<forall>p h. (p, h) \<in> set rs \<longleftrightarrow> (\<exists>n. L p = Some n \<and> h = p + of_nat n - 1))"

definition filled :: "nat set \<Rightarrow> 'h world driver \<Rightarrow> bool" where
  "filled S d \<longleftrightarrow> (\<forall>i\<in>S. \<forall>j < unat (trc_sizes d ! i).
     heap_bytes (world d) (trc_blocks d ! i + of_nat j) = id_byte i)"

definition run_ok :: "(live \<Rightarrow> 'h world \<Rightarrow> bool) \<Rightarrow> nat set \<Rightarrow> 'h world driver \<Rightarrow> bool" where
  "run_ok I S d \<longleftrightarrow> (\<exists>L. I L (world d) \<and> ids_ok S L d \<and> ranges_of L (ranges d) \<and> filled S d)"

section \<open>Blocks and addresses\<close>

lemma good_sizeI: "0 < sint (sz :: i32) \<Longrightarrow> good_size (unat sz)"
  using sint_nonneg32[of sz] by (auto simp: good_size_def unat_gt_0 intro: gr0I)

lemma in_block_offset: "n \<le> 4294967296 \<Longrightarrow> j < n \<Longrightarrow> in_block p n (p + of_nat j)"
  by (simp add: in_block_def unat_of_nat)

lemma in_blockE:
  assumes "in_block p n a"
  obtains j where "j < n" "a = p + of_nat j"
proof (rule that)
  show "unat (a - p) < n" using assms by (simp add: in_block_def)
  show "a = p + of_nat (unat (a - p))" by simp
qed

lemma in_block_range:
  assumes "in_block p n a" "unat p + n \<le> 4294967296"
  shows "unat p \<le> unat a" "unat a < unat p + n"
proof -
  obtain j where j: "j < n" "a = p + of_nat j" using assms(1) by (rule in_blockE)
  then have "unat (of_nat j :: u32) = j" using assms(2) by (simp add: unat_of_nat)
  then have "unat a = unat p + j" using j assms(2) by (simp add: unat_plus_if')
  then show "unat p \<le> unat a" "unat a < unat p + n" using j by simp_all
qed

lemma blocks_disjoint:
  assumes "unat p + n \<le> unat q \<or> unat q + k \<le> unat p"
    "unat p + n \<le> 4294967296" "unat q + k \<le> 4294967296" "in_block p n a"
  shows "\<not> in_block q k a"
proof
  assume "in_block q k a"
  then show False using in_block_range[OF assms(4,2)] in_block_range[OF _ assms(3)] assms(1) by fastforce
qed

lemma fitsD:
  assumes "fits L w p n" "good_size n"
  shows "IS_ALIGNED p" "mem_start_brk w \<le> p" "unat p + n \<le> unat (mem_brk w)" "unat p + n \<le> 4294967296"
    "L q = Some k \<Longrightarrow> unat q + k \<le> unat p \<or> unat p + n \<le> unat q"
    "L q = Some k \<Longrightarrow> good_size k \<Longrightarrow> q \<noteq> p"
proof -
  note f = assms[unfolded fits_def good_size_def]
  show "IS_ALIGNED p" "mem_start_brk w \<le> p" "unat p + n \<le> unat (mem_brk w)"
    using f by simp_all
  then show "unat p + n \<le> 4294967296" using unat_u32_less[of "mem_brk w"] by linarith
  show c: "L q = Some k \<Longrightarrow> unat q + k \<le> unat p \<or> unat p + n \<le> unat q" using f by simp
  show "q \<noteq> p" if q: "L q = Some k" "good_size k"
    using c[OF q(1)] q(2) f by (auto simp: good_size_def)
qed

lemma unat_last:
  assumes "good_size n" "unat (p :: u32) + n \<le> 4294967296"
  shows "unat (p + of_nat n - 1) = unat p + n - 1"
proof -
  obtain m where m: "n = Suc m" using assms(1) by (cases n) (auto simp: good_size_def)
  then have "unat (of_nat m :: u32) = m" using assms(1) by (simp add: good_size_def unat_of_nat)
  moreover have "p + of_nat n - 1 = p + of_nat m" using m by simp
  ultimately show ?thesis using assms(2) m by (simp add: unat_plus_if')
qed

lemma fits_no_end_inside:
  assumes "fits L w p n" "good_size n" "ranges_of L rs"
    and sizes: "\<And>q k. L q = Some k \<Longrightarrow> good_size k \<and> unat q + k \<le> 4294967296"
  shows "list_all (\<lambda>r. \<not> end_inside p (p + of_nat n - 1) r) rs"
  unfolding list_all_iff
proof
  fix r assume "r \<in> set rs"
  then obtain q k where k: "L q = Some k" "r = (q, q + of_nat k - 1)"
    using assms(3) by (metis ranges_of_def surj_pair)
  have "unat q + k \<le> unat p \<or> unat p + n \<le> unat q" by (rule fitsD(5)[OF assms(1,2) k(1)])
  moreover have "0 < k" "0 < n" using sizes[OF k(1)] assms(2) by (auto simp: good_size_def)
  ultimately show "\<not> end_inside p (p + of_nat n - 1) r"
    using unat_last[of k q] unat_last[OF assms(2) fitsD(4)[OF assms(1,2)]] sizes[OF k(1)]
    by (auto simp: end_inside_def k(2) word_le_nat_alt)
qed

lemma add_range_fits:
  assumes "fits L (world d) p (unat sz)" "0 < sint sz" "ranges_of L (ranges d)"
    and sizes: "\<And>q k. L q = Some k \<Longrightarrow> good_size k \<and> unat q + k \<le> 4294967296"
  shows "add_range p sz t k d = Inr (True, d\<lparr>ranges := (p, p + sz - 1) # ranges d\<rparr>)"
proof -
  let ?w = "world d"
  note g = good_sizeI[OF assms(2)]
  note f = fitsD[OF assms(1) g]
  have b: "0 < unat (mem_brk ?w)" using f(3) g unfolding good_size_def by linarith
  then have "unat (mem_heap_hi ?w) = unat (mem_brk ?w) - 1"
    by (simp add: mem_heap_hi_def unat_minus_one unat_gt_0)
  note b = this b
  have u: "unat (p + sz - 1) = unat p + unat sz - 1" using unat_last[OF g f(4)] by simp
  have no: "list_all (\<lambda>r. \<not> end_inside p (p + sz - 1) r) (ranges d)"
    using fits_no_end_inside[OF assms(1) g assms(3) sizes] by simp
  show ?thesis
    by (rule add_range_accepts[OF assms(2) f(1)])
       (use f(2,3) b u no g in \<open>auto simp: mem_heap_lo_def word_le_nat_alt good_size_def\<close>)
qed

section \<open>The bytes of a block\<close>

lemma fill_apply: "fill p v sz m a = (if in_block p (unat sz) a then v else m a)"
  by (simp add: fill_def in_block_def word_less_nat_alt)

lemma low_byte:
  assumes "0 \<le> sint (i :: i32)"
  shows "ucast (i AND 0xFF) = id_byte (nat (sint i))"
proof -
  have "nat (sint i) = unat i" using assms sint_unat32[of i] sint_nonneg32[of i] by simp
  moreover have "ucast (i AND 0xFF) = (ucast i :: u8)"
  proof -
    have *: "(0xFF :: u32) = mask 8" by (simp add: mask_eq_exp_minus_1)
    show ?thesis unfolding * by (rule bit_word_eqI) (auto simp: bit_simps simp del: mask_numeral)
  qed
  ultimately show ?thesis by (simp add: id_byte_def)
qed

lemma scast_low_byte:
  assumes "(x :: u32) < 128"
  shows "scast (ucast x :: u8) = x"
proof -
  have "x AND mask 7 = x" by (rule less_mask_eq) (use assms in simp)
  then have b: "bit x n \<Longrightarrow> n < 7" for n
    by (metis bit_and_iff bit_mask_iff)
  show ?thesis
  proof (rule bit_word_eqI)
    fix n assume "n < LENGTH(32)"
    then show "bit (scast (ucast x :: u8) :: u32) n = bit x n"
      using b[of n] b[of 7] by (cases "n < 7") (auto simp: bit_simps min_def)
  qed
qed

section \<open>Adding and removing a block\<close>

lemma ids_okD:
  assumes "ids_ok S L d"
  shows "length (trc_sizes d) = length (trc_blocks d)"
    "i \<in> S \<Longrightarrow> i < length (trc_blocks d)"
    "i \<in> S \<Longrightarrow> L (trc_blocks d ! i) = Some (unat (trc_sizes d ! i))"
    "L p = Some n \<Longrightarrow> good_size n \<and> unat p + n \<le> 4294967296"
    "L p = Some n \<Longrightarrow> \<exists>i\<in>S. trc_blocks d ! i = p \<and> unat (trc_sizes d ! i) = n"
  using assms by (auto simp: ids_ok_def)

lemma ids_okI:
  assumes "length (trc_sizes d) = length (trc_blocks d)" "\<And>i. i \<in> S \<Longrightarrow> i < length (trc_blocks d)"
    "inj_on (\<lambda>i. trc_blocks d ! i) S"
    "\<And>p n. L p = Some n \<longleftrightarrow> (\<exists>i\<in>S. trc_blocks d ! i = p \<and> unat (trc_sizes d ! i) = n)"
    "\<And>p n. L p = Some n \<Longrightarrow> good_size n \<and> unat p + n \<le> 4294967296"
    "\<And>p n q k. L p = Some n \<Longrightarrow> L q = Some k \<Longrightarrow> p \<noteq> q \<Longrightarrow> unat p + n \<le> unat q \<or> unat q + k \<le> unat p"
  shows "ids_ok S L d"
  using assms unfolding ids_ok_def by meson

lemma ids_ok_apart:
  "ids_ok S L d \<Longrightarrow> L p = Some n \<Longrightarrow> L q = Some k \<Longrightarrow> p \<noteq> q \<Longrightarrow> unat p + n \<le> unat q \<or> unat q + k \<le> unat p"
  unfolding ids_ok_def by meson

lemma ids_ok_cong:
  "ids_ok S L d \<Longrightarrow> trc_blocks d' = trc_blocks d \<Longrightarrow> trc_sizes d' = trc_sizes d \<Longrightarrow> ids_ok S L d'"
  by (simp add: ids_ok_def)

lemma ids_ok_remove:
  assumes ok: "ids_ok S L d" and i: "i \<in> S"
  shows "ids_ok (S - {i}) (L(trc_blocks d ! i := None)) d"
proof -
  have inj: "inj_on (\<lambda>i. trc_blocks d ! i) S" using ok by (simp add: ids_ok_def)
  then have "inj_on (\<lambda>i. trc_blocks d ! i) (S - {i})" by (rule inj_on_subset) auto
  moreover have "(L(trc_blocks d ! i := None)) p = Some n \<longleftrightarrow>
      (\<exists>k\<in>S - {i}. trc_blocks d ! k = p \<and> unat (trc_sizes d ! k) = n)" for p n
    using ok i inj unfolding ids_ok_def inj_on_def by (auto split: if_splits)
  ultimately show ?thesis
  proof (rule ids_okI[rotated 2])
    fix p n q k
    let ?L = "L(trc_blocks d ! i := None)"
    assume "?L p = Some n"
    then have p: "L p = Some n" by (auto split: if_splits)
    show "good_size n \<and> unat p + n \<le> 4294967296" by (rule ids_okD(4)[OF ok p])
    assume "?L q = Some k" "p \<noteq> q"
    then show "unat p + n \<le> unat q \<or> unat q + k \<le> unat p"
      using ids_ok_apart[OF ok p] by (auto split: if_splits)
  qed (use ids_okD[OF ok] in auto)
qed

lemma ids_ok_insert:
  assumes ok: "ids_ok S L d" and i: "i \<notin> S" "i < length (trc_blocks d)"
    and f: "fits L w p n" "good_size n" "n = unat sz"
    and d': "trc_blocks d' = (trc_blocks d)[i := p]" "trc_sizes d' = (trc_sizes d)[i := sz]"
  shows "ids_ok (insert i S) (L(p \<mapsto> n)) d'"
proof -
  note D = ids_okD[OF ok]
  have new: "L q = Some k \<Longrightarrow> q \<noteq> p" for q k using fitsD(6)[OF f(1,2)] D(4) by blast
  have nth: "trc_blocks d' ! i = p" "trc_sizes d' ! i = sz"
    "k \<noteq> i \<Longrightarrow> trc_blocks d' ! k = trc_blocks d ! k \<and> trc_sizes d' ! k = trc_sizes d ! k" for k
    using i D(1) by (simp_all add: d')
  have S: "k \<in> S \<Longrightarrow> trc_blocks d' ! k = trc_blocks d ! k \<and> trc_sizes d' ! k = trc_sizes d ! k \<and> trc_blocks d ! k \<noteq> p" for k
    using nth(3) i D(3) new by metis
  have inj: "inj_on (\<lambda>i. trc_blocks d' ! i) (insert i S)"
    using ok S nth(1) i unfolding ids_ok_def inj_on_def by (metis insert_iff)
  have Leq: "(L(p \<mapsto> n)) q = Some k \<longleftrightarrow> (\<exists>k'\<in>insert i S. trc_blocks d' ! k' = q \<and> unat (trc_sizes d' ! k') = k)" for q k
  proof (cases "q = p")
    case True
    then show ?thesis using nth(1,2) S f(3) by auto
  next
    case False
    have "L q = Some k \<longleftrightarrow> (\<exists>k'\<in>S. trc_blocks d ! k' = q \<and> unat (trc_sizes d ! k') = k)"
      using ok by (simp add: ids_ok_def)
    then show ?thesis using False nth(1) S by auto
  qed
  have ap: "(L(p \<mapsto> n)) q = Some k \<Longrightarrow> (L(p \<mapsto> n)) q' = Some k' \<Longrightarrow> q \<noteq> q'
      \<Longrightarrow> unat q + k \<le> unat q' \<or> unat q' + k' \<le> unat q" for q k q' k'
    using ids_ok_apart[OF ok, of q k q' k'] fitsD(5)[OF f(1,2), of q k] fitsD(5)[OF f(1,2), of q' k']
    by (auto split: if_splits)
  show ?thesis
  proof (rule ids_okI[OF _ _ inj Leq _ ap])
    fix q k assume "(L(p \<mapsto> n)) q = Some k"
    then show "good_size k \<and> unat q + k \<le> 4294967296"
      using D(4) f(2) fitsD(4)[OF f(1,2)] by (auto split: if_splits)
  next
    show "length (trc_sizes d') = length (trc_blocks d')" using D(1) by (simp add: d')
    show "j < length (trc_blocks d')" if "j \<in> insert i S" for j using that D(2) i by (auto simp: d')
  qed
qed

lemma ranges_of_insert:
  assumes "ranges_of L rs" "\<And>q k. L q = Some k \<Longrightarrow> q \<noteq> p"
  shows "ranges_of (L(p \<mapsto> n)) ((p, p + of_nat n - 1) # rs)"
proof -
  have "p \<notin> fst ` set rs" using assms unfolding ranges_of_def by fastforce
  then show ?thesis using assms unfolding ranges_of_def by auto
qed

lemma ranges_of_remove:
  "ranges_of L rs \<Longrightarrow> ranges_of (L(p := None)) (remove_range p rs)"
  unfolding ranges_of_def by (auto simp: remove_range_fst distinct_remove_range)

lemma filled_untouched:
  assumes "filled S d" "ids_ok S L d" "untouched L (heap_bytes (world d)) m"
    "trc_blocks d' = trc_blocks d" "trc_sizes d' = trc_sizes d" "heap_bytes (world d') = m"
  shows "filled S d'"
  unfolding filled_def
proof (intro ballI allI impI)
  fix i j assume i: "i \<in> S" "j < unat (trc_sizes d' ! i)"
  have L: "L (trc_blocks d ! i) = Some (unat (trc_sizes d ! i))" by (rule ids_okD(3)[OF assms(2) i(1)])
  have "payload L (trc_blocks d ! i + of_nat j)"
    using L i(2) in_block_offset[of "unat (trc_sizes d ! i)" j] assms(5) by (auto simp: payload_def)
  then show "heap_bytes (world d') (trc_blocks d' ! i + of_nat j) = id_byte i"
    using assms i by (auto simp: untouched_def filled_def)
qed

lemma filled_subset: "filled S d \<Longrightarrow> T \<subseteq> S \<Longrightarrow> filled T d"
  by (auto simp: filled_def)

lemma filled_insert:
  assumes fi: "filled S d" and ok: "ids_ok S L d" and i: "i \<notin> S" "i < length (trc_blocks d)"
    and f: "fits L w p (unat sz)" "good_size (unat sz)"
    and d': "trc_blocks d' = (trc_blocks d)[i := p]" "trc_sizes d' = (trc_sizes d)[i := sz]"
      "heap_bytes (world d') = fill p (id_byte i) sz (heap_bytes (world d))"
  shows "filled (insert i S) d'"
  unfolding filled_def
proof (intro ballI allI impI)
  note D = ids_okD[OF ok]
  fix k j assume k: "k \<in> insert i S" and j: "j < unat (trc_sizes d' ! k)"
  show "heap_bytes (world d') (trc_blocks d' ! k + of_nat j) = id_byte k"
  proof (cases "k = i")
    case True
    then have "trc_blocks d' ! k = p" "trc_sizes d' ! k = sz" using i D(1) by (simp_all add: d')
    then show ?thesis using True j in_block_offset[of "unat sz" j p] by (simp add: d'(3) fill_apply)
  next
    case False
    then have S: "k \<in> S" "trc_blocks d' ! k = trc_blocks d ! k" "trc_sizes d' ! k = trc_sizes d ! k"
      using k by (simp_all add: d')
    let ?q = "trc_blocks d ! k" and ?n = "unat (trc_sizes d ! k)"
    have L: "L ?q = Some ?n" by (rule D(3)[OF S(1)])
    have q: "in_block ?q ?n (?q + of_nat j)" using j S(3) in_block_offset[of ?n j ?q] by simp
    have "\<not> in_block p (unat sz) (?q + of_nat j)"
      by (rule blocks_disjoint[OF fitsD(5)[OF f L] _ fitsD(4)[OF f] q]) (use D(4)[OF L] in simp)
    then show ?thesis using fi S j by (simp add: d'(3) fill_apply filled_def)
  qed
qed

section \<open>One request\<close>

lemma run_okI:
  "I L (world d) \<Longrightarrow> ids_ok S L d \<Longrightarrow> ranges_of L (ranges d) \<Longrightarrow> filled S d \<Longrightarrow> run_ok I S d"
  by (auto simp: run_ok_def)

text \<open>
  The common end of an allocation and a reallocation: the block that the allocator returned
  passes the check of ranges, is filled and entered into the arrays.
\<close>

definition filled_block :: "i32 \<Rightarrow> u32 \<Rightarrow> i32 \<Rightarrow> 'h world driver \<Rightarrow> 'h world driver" where
  "filled_block i p sz d = d\<lparr>world := (world d)\<lparr>heap_bytes := fill p (ucast (i AND 0xFF)) sz (heap_bytes (world d))\<rparr>\<rparr>"

lemma install:
  assumes ok: "ids_ok S L d" "ranges_of L (ranges d)" "filled S d"
    and i: "0 \<le> sint i" "sint i < int (length (trc_blocks d))" "nat (sint i) \<notin> S"
    and f: "fits L (world d) p (unat sz)" and sz: "0 < sint sz"
    and I: "user_law I" "I (L(p \<mapsto> unat sz)) (world d)"
  shows "\<exists>d'. remember i p sz (filled_block i p sz (d\<lparr>ranges := (p, p + sz - 1) # ranges d\<rparr>)) = Inr (True, d')
     \<and> run_ok I (insert (nat (sint i)) S) d' \<and> length (trc_blocks d') = length (trc_blocks d) \<and> reports d' = reports d"
proof -
  let ?k = "nat (sint i)" and ?n = "unat sz"
  note g = good_sizeI[OF sz]
  note D = ids_okD[OF ok(1)]
  let ?d1 = "filled_block i p sz (d\<lparr>ranges := (p, p + sz - 1) # ranges d\<rparr>)"
  let ?d' = "?d1\<lparr>trc_blocks := (trc_blocks ?d1)[?k := p], trc_sizes := (trc_sizes ?d1)[?k := sz]\<rparr>"
  have k: "?k < length (trc_blocks d)" using i by linarith
  have w: "heap_bytes (world ?d') = fill p (id_byte ?k) sz (heap_bytes (world d))"
    by (simp add: filled_block_def low_byte[OF i(1)])
  have arr: "trc_blocks ?d' = (trc_blocks d)[?k := p]" "trc_sizes ?d' = (trc_sizes d)[?k := sz]"
    by (simp_all add: filled_block_def)
  have "ranges_of (L(p \<mapsto> ?n)) (ranges ?d')"
    using ranges_of_insert[OF ok(2), of p ?n] fitsD(6)[OF f g] D(4)
    by (simp add: filled_block_def)
  moreover have "I (L(p \<mapsto> ?n)) (world ?d')"
  proof -
    have "payload (L(p \<mapsto> ?n)) a" if "fill p v sz m a \<noteq> m a" for v m a
      using that by (auto simp: fill_apply payload_def split: if_splits)
    then show ?thesis using I unfolding user_law_def by (simp add: filled_block_def)
  qed
  moreover have "ids_ok (insert ?k S) (L(p \<mapsto> ?n)) ?d'"
    by (rule ids_ok_insert[OF ok(1) i(3) k f g refl arr])
  moreover have "filled (insert ?k S) ?d'"
    by (rule filled_insert[OF ok(3,1) i(3) k f g arr w])
  ultimately have "run_ok I (insert ?k S) ?d'" by (intro run_okI)
  moreover have "remember i p sz ?d1 = Inr (True, ?d')"
    using i D(1) by (simp add: remember_def in_array_def filled_block_def)
  ultimately show ?thesis by (auto simp: filled_block_def)
qed

text \<open>
  A request either passes and keeps the invariant, or the allocator gave no block.
\<close>

definition passes :: "(live \<Rightarrow> 'h world \<Rightarrow> bool) \<Rightarrow> int \<Rightarrow> nat set \<Rightarrow> 'h world driver
    \<Rightarrow> stop + (bool \<times> 'h world driver) \<Rightarrow> bool" where
  "passes I t S d res \<longleftrightarrow> (\<exists>d'. length (trc_blocks d') = length (trc_blocks d) \<and>
     ((res = Inr (True, d') \<and> run_ok I S d' \<and> reports d' = reports d) \<or>
      (\<exists>k c. res = Inr (False, d') \<and> reports d' = (t, k, c) # reports d
             \<and> c \<in> {Init_failed, Malloc_failed, Realloc_failed})))"

lemma malloc_lawD:
  assumes "contract A I" "I L w" "good_size n" "a_malloc A (of_nat n) w = (p, w')" "p \<noteq> 0"
  shows "fits L w' p n" "untouched L (heap_bytes w) (heap_bytes w')" "I (L(p \<mapsto> n)) w'"
  using assms unfolding contract_def malloc_law_def by meson+

lemma realloc_lawD:
  assumes "contract A I" "I L w" "L p = Some k" "good_size n" "a_realloc A p (of_nat n) w = (q, w')" "q \<noteq> 0"
  shows "fits (L(p := None)) w' q n" "untouched (L(p := None)) (heap_bytes w) (heap_bytes w')"
    "j < min k n \<Longrightarrow> heap_bytes w' (q + of_nat j) = heap_bytes w (p + of_nat j)"
    "I (L(p := None, q \<mapsto> n)) w'"
  using assms unfolding contract_def realloc_law_def by meson+

lemma free_lawD:
  assumes "contract A I" "I L w" "L p = Some k"
  shows "untouched (L(p := None)) (heap_bytes w) (heap_bytes (a_free A p w))" "I (L(p := None)) (a_free A p w)"
  using assms unfolding contract_def free_law_def by meson+

lemma passes_alloc:
  assumes c: "contract A I" and run: "run_ok I S d"
    and r: "good_op (length (trc_blocks d)) S r" "op_type r = ALLOC"
  shows "passes I t (after_op r S) d (valid_alloc A t k (op_index r) (op_size r) d)"
proof -
  let ?i = "op_index r" and ?sz = "op_size r"
  obtain L where L: "I L (world d)" "ids_ok S L d" "ranges_of L (ranges d)" "filled S d"
    using run by (auto simp: run_ok_def)
  have r': "0 \<le> sint ?i" "sint ?i < int (length (trc_blocks d))" "nat (sint ?i) \<notin> S" "0 < sint ?sz"
    using r by (auto simp: good_op_def)
  obtain p w where pw: "a_malloc A ?sz (world d) = (p, w)" by fastforce
  let ?d1 = "d\<lparr>world := w\<rparr>"
  show ?thesis
  proof (cases "p = 0")
    case True
    then show ?thesis using pw
      by (auto simp: passes_def valid_alloc_def intro!: exI[of _ "malloc_error t k Malloc_failed ?d1"])
  next
    case False
    note g = good_sizeI[OF r'(4)]
    have law: "fits L w p (unat ?sz)" "untouched L (heap_bytes (world d)) (heap_bytes w)" "I (L(p \<mapsto> unat ?sz)) w"
      using malloc_lawD[OF c L(1) g _ False, of w] pw by (simp_all del: fun_upd_apply)
    have ok1: "ids_ok S L ?d1" by (rule ids_ok_cong[OF L(2)]) simp_all
    have fi: "filled S ?d1" by (rule filled_untouched[OF L(4,2) law(2)]) simp_all
    have ra: "add_range p ?sz t k ?d1 = Inr (True, ?d1\<lparr>ranges := (p, p + ?sz - 1) # ranges ?d1\<rparr>)"
      by (rule add_range_fits) (use law L(3) r'(4) ids_okD(4)[OF L(2)] in auto)
    obtain d' where "remember ?i p ?sz (filled_block ?i p ?sz (?d1\<lparr>ranges := (p, p + ?sz - 1) # ranges ?d1\<rparr>)) = Inr (True, d')"
      "run_ok I (insert (nat (sint ?i)) S) d'" "length (trc_blocks d') = length (trc_blocks ?d1)" "reports d' = reports ?d1"
      using install[of S L ?d1 ?i p ?sz I] ok1 fi L(3) r' law c by (auto simp: contract_def)
    then show ?thesis using pw False ra r(2)
      by (auto simp: passes_def valid_alloc_def filled_block_def after_op_def)
  qed
qed

lemma block_size_of:
  assumes "ids_ok S L d" "nat (sint i) \<in> S" "0 \<le> sint i"
  shows "block_of i d = Inr (trc_blocks d ! nat (sint i))" "size_of i d = Inr (trc_sizes d ! nat (sint i))"
  using ids_okD(1)[OF assms(1)] ids_okD(2)[OF assms(1,2)] assms(3)
  by (auto simp: block_of_def size_of_def in_array_def nat_less_iff)

lemma preserved_byte:
  assumes "0 \<le> sint i" "i AND 0xFF < 128"
    "\<And>j. j < nat (sint n) \<Longrightarrow> m (p + of_nat j) = id_byte (nat (sint i))"
  shows "preserved p i n m"
  using assms scast_low_byte[OF assms(2)] low_byte[OF assms(1)]
  by (simp add: preserved_def list_all_iff)

lemma min_size:
  assumes "0 < sint sz" "good_size (unat old)"
  shows "nat (sint (if sint sz < sint old then sz else old)) = min (unat old) (unat (sz :: i32))"
proof -
  have "nat (sint sz) = unat sz" "nat (sint old) = unat old" "0 \<le> sint old"
    using assms sint_unat32[of old] sint_unat32[of sz] sint_nonneg32[of sz]
    by (simp_all add: good_size_def)
  then show ?thesis using assms(1) by (auto simp: min_def not_less nat_le_eq_zle le_nat_iff; linarith)
qed

lemma passes_realloc:
  assumes c: "contract A I" and run: "run_ok I S d"
    and r: "good_op (length (trc_blocks d)) S r" "op_type r = REALLOC"
  shows "passes I t (after_op r S) d (valid_realloc A t k (op_index r) (op_size r) d)"
proof -
  let ?i = "op_index r" and ?sz = "op_size r"
  let ?k = "nat (sint ?i)"
  obtain L where L: "I L (world d)" "ids_ok S L d" "ranges_of L (ranges d)" "filled S d"
    using run by (auto simp: run_ok_def)
  have r': "0 \<le> sint ?i" "sint ?i < int (length (trc_blocks d))" "?k \<in> S" "0 < sint ?sz" "?i AND 0xFF < 128"
    using r by (auto simp: good_op_def)
  let ?o = "trc_blocks d ! ?k" and ?n = "trc_sizes d ! ?k"
  note bs = block_size_of[OF L(2) r'(3,1)]
  have Lo: "L ?o = Some (unat ?n)" by (rule ids_okD(3)[OF L(2) r'(3)])
  obtain q w where pw: "a_realloc A ?o ?sz (world d) = (q, w)" by fastforce
  let ?L = "L(?o := None)" and ?d1 = "d\<lparr>world := w, ranges := remove_range ?o (ranges d)\<rparr>"
  show ?thesis
  proof (cases "q = 0")
    case True
    then show ?thesis using pw bs(1)
      by (auto simp: passes_def valid_realloc_def intro!: exI[of _ "malloc_error t k Realloc_failed (d\<lparr>world := w\<rparr>)"])
  next
    case False
    note g = good_sizeI[OF r'(4)]
    have pw': "a_realloc A ?o (of_nat (unat ?sz)) (world d) = (q, w)" using pw by simp
    note law = realloc_lawD[OF c L(1) Lo g pw' False]
    have ok1: "ids_ok (S - {?k}) ?L ?d1"
      by (rule ids_ok_cong[OF ids_ok_remove[OF L(2) r'(3)]]) simp_all
    have fi: "filled (S - {?k}) ?d1"
      by (rule filled_untouched[OF filled_subset[OF L(4)] ids_ok_remove[OF L(2) r'(3)] law(2)]) auto
    have ro: "ranges_of ?L (ranges ?d1)" using ranges_of_remove[OF L(3)] by simp
    have sizes: "\<And>p n. ?L p = Some n \<Longrightarrow> good_size n \<and> unat p + n \<le> 4294967296"
      by (rule ids_okD(4)[OF ok1])
    have f1: "fits ?L (world ?d1) q (unat ?sz)" using law(1) by simp
    note ra = add_range_fits[OF f1 r'(4) ro sizes, of t k]
    have good: "good_size (unat ?n)" using ids_okD(4)[OF L(2) Lo] by simp
    have "preserved q ?i (if sint ?sz < sint ?n then ?sz else ?n) (heap_bytes w)"
    proof (rule preserved_byte[OF r'(1,5)])
      fix j assume "j < nat (sint (if sint ?sz < sint ?n then ?sz else ?n))"
      then have j: "j < min (unat ?n) (unat ?sz)" unfolding min_size[OF r'(4) good] .
      then have "heap_bytes w (q + of_nat j) = heap_bytes (world d) (?o + of_nat j)" by (rule law(3))
      also have "\<dots> = id_byte ?k" using L(4) r'(3) j by (simp add: filled_def)
      finally show "heap_bytes w (q + of_nat j) = id_byte ?k" .
    qed
    moreover obtain d' where "remember ?i q ?sz (filled_block ?i q ?sz (?d1\<lparr>ranges := (q, q + ?sz - 1) # ranges ?d1\<rparr>)) = Inr (True, d')"
      "run_ok I (insert ?k (S - {?k})) d'" "length (trc_blocks d') = length (trc_blocks ?d1)" "reports d' = reports ?d1"
      using install[OF ok1 ro fi r'(1) _ _ f1 r'(4), of I] r'(2) law(4) c by (auto simp: contract_def)
    moreover have "insert ?k (S - {?k}) = S" using r'(3) by auto
    moreover have sz1: "size_of ?i (?d1\<lparr>ranges := rs\<rparr>) = size_of ?i d" for rs
      by (simp add: size_of_def)
    ultimately show ?thesis using pw False bs ra r(2)
      by (auto simp: passes_def valid_realloc_def Let_def filled_block_def after_op_def sz1)
  qed
qed

lemma passes_free:
  assumes c: "contract A I" and run: "run_ok I S d"
    and r: "good_op (length (trc_blocks d)) S r" "op_type r = FREE"
  shows "passes I t (after_op r S) d (valid_free A (op_index r) d)"
proof -
  let ?i = "op_index r"
  let ?k = "nat (sint ?i)"
  obtain L where L: "I L (world d)" "ids_ok S L d" "ranges_of L (ranges d)" "filled S d"
    using run by (auto simp: run_ok_def)
  have r': "0 \<le> sint ?i" "?k \<in> S" using r by (auto simp: good_op_def)
  let ?o = "trc_blocks d ! ?k"
  let ?d1 = "d\<lparr>ranges := remove_range ?o (ranges d), world := a_free A ?o (world d)\<rparr>"
  note law = free_lawD[OF c L(1) ids_okD(3)[OF L(2) r'(2)]]
  have "run_ok I (S - {?k}) ?d1"
  proof (rule run_okI)
    show "I (L(?o := None)) (world ?d1)" using law(2) by (simp del: fun_upd_apply)
    show "ids_ok (S - {?k}) (L(?o := None)) ?d1"
      by (rule ids_ok_cong[OF ids_ok_remove[OF L(2) r'(2)]]) simp_all
    show "ranges_of (L(?o := None)) (ranges ?d1)" using ranges_of_remove[OF L(3)] by simp
    show "filled (S - {?k}) ?d1"
      by (rule filled_untouched[OF filled_subset[OF L(4)] ids_ok_remove[OF L(2) r'(2)] law(1)]) auto
  qed
  then show ?thesis using r(2) block_size_of(1)[OF L(2) r'(2,1)]
    by (auto simp: passes_def valid_free_def after_op_def)
qed

lemma passes_op:
  "contract A I \<Longrightarrow> run_ok I S d \<Longrightarrow> good_op (length (trc_blocks d)) S r
   \<Longrightarrow> passes I t (after_op r S) d (valid_op A t k r d)"
  by (cases "op_type r") (simp_all add: valid_op_def passes_alloc passes_realloc passes_free)

lemma passes_ops:
  "contract A I \<Longrightarrow> run_ok I S d \<Longrightarrow> good_trace (length (trc_blocks d)) S rs
   \<Longrightarrow> \<exists>T. passes I t T d (valid_ops A t k rs d)"
proof (induction rs arbitrary: S d k)
  case Nil
  then show ?case by (auto simp: passes_def)
next
  case (Cons r rs)
  then have "passes I t (after_op r S) d (valid_op A t k r d)" by (intro passes_op) simp_all
  then show ?case
    using Cons.IH[of "after_op r S" _ "k + 1"] Cons.prems
    unfolding passes_def by fastforce
qed

lemma run_ok_start:
  assumes "I Map.empty w" "length (trc_sizes d) = length (trc_blocks d)"
  shows "run_ok I {} (clear_ranges d\<lparr>world := w\<rparr>)"
  using assms
  by (intro run_okI[of I Map.empty]) (auto simp: ids_ok_def ranges_of_def filled_def clear_ranges_def)

lemma passes_eval:
  assumes c: "contract A I" and h: "heap_ok (world d)" and l: "length (trc_sizes d) = length (trc_blocks d)"
    and g: "good_trace (length (trc_blocks d)) {} ops"
  shows "\<exists>T. passes I t T d (eval_mm_valid A t ops d)"
proof -
  let ?d1 = "clear_ranges (d\<lparr>world := mem_reset_brk (world d)\<rparr>)"
  obtain r w where rw: "a_init A (world ?d1) = (r, w)" by fastforce
  show ?thesis
  proof (cases "sint r < 0")
    case True
    then have "eval_mm_valid A t ops d = Inr (False, malloc_error t 0 Init_failed (?d1\<lparr>world := w\<rparr>))"
      using rw by (simp add: eval_mm_valid_def Let_def)
    then show ?thesis by (fastforce simp: passes_def clear_ranges_def)
  next
    case False
    have "heap_ok (world ?d1)" "mem_heapsize (world ?d1) = 0"
      using h by (simp_all add: clear_ranges_def mem_reset_brk_ok mem_heapsize_def)
    then have "I Map.empty w"
      using c rw False unfolding contract_def init_law_def by (meson not_less)
    then have "run_ok I {} (clear_ranges (d\<lparr>world := mem_reset_brk (world d)\<rparr>)\<lparr>world := w\<rparr>)"
      by (rule run_ok_start) (simp add: l)
    then obtain T where "passes I t T (?d1\<lparr>world := w\<rparr>) (valid_ops A t 0 ops (?d1\<lparr>world := w\<rparr>))"
      using passes_ops[OF c] g by (fastforce simp: clear_ranges_def)
    moreover have "eval_mm_valid A t ops d = valid_ops A t 0 ops (?d1\<lparr>world := w\<rparr>)"
      using rw False by (simp add: eval_mm_valid_def Let_def)
    ultimately show ?thesis by (auto simp: passes_def clear_ranges_def)
  qed
qed

section \<open>An allocator that keeps the contract\<close>

text \<open>
  The comment at the head of \<^verbatim>\<open>mm.c\<close> describes the naive package: a block is pure payload and
  is taken by moving the break; nothing is reused. It shows that the contract can be met.
\<close>

definition naive_malloc :: "u32 \<Rightarrow> 'h world \<Rightarrow> u32 \<times> 'h world" where
  "naive_malloc n w =
    (let (p, w') = mem_sbrk ((n + 7) div 8 * 8) w in
     if 0x7FFFFFF0 < mem_max_addr w \<or> 0x7FFFFFF0 < n \<or> p = - 1 then (0, w) else (p, w'))"

definition naive_realloc :: "u32 \<Rightarrow> u32 \<Rightarrow> 'h world \<Rightarrow> u32 \<times> 'h world" where
  "naive_realloc p n w =
    (let (q, w') = naive_malloc n w in
     if q = 0 then (0, w)
     else (q, w'\<lparr>heap_bytes := (\<lambda>a. if a - q < n then heap_bytes w (p + (a - q)) else heap_bytes w a)\<rparr>))"

definition naive :: "'h world allocator" where
  "naive = \<lparr>a_init = (\<lambda>w. (if IS_ALIGNED (mem_start_brk w) then 0 else - 1, w)),
            a_malloc = naive_malloc, a_realloc = naive_realloc, a_free = (\<lambda>p w. w)\<rparr>"

definition naive_inv :: "live \<Rightarrow> 'h world \<Rightarrow> bool" where
  "naive_inv L w \<longleftrightarrow> heap_ok w \<and> IS_ALIGNED (mem_brk w)
     \<and> (\<forall>p n. L p = Some n \<longrightarrow> unat p + n \<le> unat (mem_brk w))"

lemma aligned_iff: "IS_ALIGNED p \<longleftrightarrow> unat p mod 8 = 0"
proof -
  have "unat (p mod 8) = unat p mod 8" by (simp add: unat_mod)
  then show ?thesis unfolding IS_ALIGNED_def ALIGNMENT_def by (metis unat_0 unat_eq_zero)
qed

lemma naive_malloc_cases:
  assumes "heap_ok w" "naive_malloc n w = (p, w')"
  shows "p = 0 \<and> w' = w \<or>
    (\<exists>s. p = mem_brk w \<and> w' = w\<lparr>mem_brk := mem_brk w + s\<rparr> \<and> unat n \<le> unat s \<and> unat s mod 8 = 0
         \<and> unat (mem_brk w + s) = unat (mem_brk w) + unat s \<and> heap_ok w')"
proof (cases "p = 0 \<and> w' = w")
  case False
  let ?s = "(n + 7) div 8 * 8"
  have n: "n \<le> 0x7FFFFFF0" "mem_max_addr w \<le> 0x7FFFFFF0" and sb: "mem_sbrk ?s w = (p, w')" and p: "p \<noteq> - 1"
    using assms(2) False by (auto simp: naive_malloc_def Let_def split: prod.splits if_splits)
  have "unat (n + 7) = unat n + 7" using n(1) by (simp add: unat_plus_if' word_le_nat_alt)
  then have s: "unat ?s = (unat n + 7) div 8 * 8"
    using n(1) by (simp add: unat_word_ariths unat_div word_le_nat_alt)
  then have s': "unat n \<le> unat ?s" "unat ?s mod 8 = 0" "unat ?s < 0x7FFFFFF8"
    using n(1) by (auto simp: word_le_nat_alt)
  have b: "unat (mem_brk w) + unat ?s < 4294967296"
    using s'(3) n(2) assms(1) by (auto simp: heap_ok_def word_le_nat_alt)
  have "0 \<le> sint ?s" using s'(3) by (simp add: sint_nonneg32)
  then have r: "p = mem_brk w" "w' = w\<lparr>mem_brk := mem_brk w + ?s\<rparr>" "unat (mem_heapsize w) + unat ?s \<le> 20971520"
    using sb p mem_sbrk_no_wrap[OF assms(1) _ b] by (auto split: if_splits)
  have u: "unat (mem_brk w + ?s) = unat (mem_brk w) + unat ?s" using b by (simp add: unat_plus_if')
  have "unat (mem_heapsize w) = unat (mem_brk w) - unat (mem_start_brk w)"
    using assms(1) by (auto simp: mem_heapsize_def heap_ok_def unat_sub)
  moreover have "unat (mem_max_addr w) = unat (mem_start_brk w) + 20971520" "mem_start_brk w \<noteq> 0"
    using assms(1) by (simp_all add: heap_ok_def)
  ultimately have "unat (mem_start_brk w) \<le> unat (mem_brk w + ?s)" "unat (mem_brk w + ?s) \<le> unat (mem_max_addr w)"
    using heap_okD(1)[OF assms(1)] r(3) unfolding u by linarith+
  then have "heap_ok w'"
    using assms(1) unfolding heap_ok_def r(2) word_le_nat_alt by simp
  then show ?thesis using r(1,2) s'(1,2) u by (intro disjI2 exI[of _ ?s] conjI)
qed simp

lemma naive_inv_malloc:
  assumes I: "naive_inv L w" and n: "good_size n" and m: "naive_malloc (of_nat n) w = (p, w')" and p: "p \<noteq> 0"
  shows "fits L w' p n" "heap_bytes w' = heap_bytes w" "naive_inv (L(p \<mapsto> n)) w'"
proof -
  have h: "heap_ok w" "unat (mem_brk w) mod 8 = 0" using I by (simp_all add: naive_inv_def aligned_iff)
  have n': "unat (of_nat n :: u32) = n" using n by (simp add: good_size_def unat_of_nat)
  obtain s where s: "p = mem_brk w" "w' = w\<lparr>mem_brk := mem_brk w + s\<rparr>" "n \<le> unat s" "unat s mod 8 = 0"
    "unat (mem_brk w + s) = unat (mem_brk w) + unat s" "heap_ok w'"
    using naive_malloc_cases[OF h(1) m] p n' by auto
  have L: "L q = Some k \<Longrightarrow> unat q + k \<le> unat (mem_brk w)" for q k using I by (simp add: naive_inv_def)
  show "fits L w' p n"
    using h L s(3,5) heap_okD(1)[OF h(1)] unfolding fits_def s(1,2) aligned_iff word_le_nat_alt by simp
  show "heap_bytes w' = heap_bytes w" by (simp add: s(2))
  have "(unat (mem_brk w) + unat s) mod 8 = 0" using h(2) s(4) by (metis mod_add_eq add_0 mod_0)
  moreover have "(L(p \<mapsto> n)) q = Some k \<Longrightarrow> unat q + k \<le> unat (mem_brk w) + unat s" for q k
    using L[of q k] s(1,3) by (auto split: if_splits)
  ultimately show "naive_inv (L(p \<mapsto> n)) w'"
    using s(5,6) unfolding naive_inv_def aligned_iff by (simp add: s(2) del: fun_upd_apply)
qed

lemma naive_inv_bytes: "naive_inv L (w\<lparr>heap_bytes := m\<rparr>) = naive_inv L w"
  by (simp add: naive_inv_def)

lemma naive_inv_subset: "naive_inv L w \<Longrightarrow> naive_inv (L(p := None)) w"
  by (auto simp: naive_inv_def)

lemma naive_realloc_law: "realloc_law naive naive_inv"
  unfolding realloc_law_def
proof (intro allI impI)
  fix L and w :: "'a world" and p k n q w'
  assume I: "naive_inv L w" and k: "L p = Some k" and n: "good_size n"
    and r: "a_realloc naive p (of_nat n) w = (q, w')" and q: "q \<noteq> 0"
  have n': "unat (of_nat n :: u32) = n" using n by (simp add: good_size_def unat_of_nat)
  obtain w1 where m: "naive_malloc (of_nat n) w = (q, w1)"
    and w': "w' = w1\<lparr>heap_bytes := (\<lambda>a. if a - q < of_nat n then heap_bytes w (p + (a - q)) else heap_bytes w a)\<rparr>"
    using r q by (auto simp: naive_def naive_realloc_def split: prod.splits if_splits)
  let ?L = "L(p := None)"
  note N = naive_inv_malloc[OF naive_inv_subset[OF I, of p] n m q]
  have new: "a - q < of_nat n \<longleftrightarrow> in_block q n a" for a
    by (simp add: in_block_def word_less_nat_alt n')
  have "fits ?L w' q n" using N(1) by (simp add: w' fits_def)
  moreover have "untouched ?L (heap_bytes w) (heap_bytes w')"
    unfolding untouched_def payload_def
  proof (intro allI impI)
    fix a assume "\<exists>p k. ?L p = Some k \<and> in_block p k a"
    then obtain o' k' where o: "?L o' = Some k'" "in_block o' k' a" by blast
    have "unat o' + k' \<le> unat (mem_brk w)" using I o(1) by (auto simp: naive_inv_def split: if_splits)
    then have "unat o' + k' \<le> 4294967296" using unat_u32_less[of "mem_brk w"] by linarith
    then have "\<not> in_block q n a"
      by (rule blocks_disjoint[OF fitsD(5)[OF N(1) n o(1)] _ fitsD(4)[OF N(1) n] o(2)])
    then show "heap_bytes w' a = heap_bytes w a" by (simp add: w' new)
  qed
  moreover have "heap_bytes w' (q + of_nat j) = heap_bytes w (p + of_nat j)" if "j < min k n" for j
    using that in_block_offset[of n j q] n by (simp add: w' new good_size_def)
  moreover have "naive_inv (L(p := None, q \<mapsto> n)) w'" using N(3) by (simp add: w' naive_inv_bytes)
  ultimately show "fits ?L w' q n \<and> untouched ?L (heap_bytes w) (heap_bytes w')
      \<and> (\<forall>j<min k n. heap_bytes w' (q + of_nat j) = heap_bytes w (p + of_nat j))
      \<and> naive_inv (L(p := None, q \<mapsto> n)) w'" by blast
qed

lemma naive_contract: "contract (naive :: 'a world allocator) naive_inv"
proof -
  have "init_law naive (naive_inv :: live \<Rightarrow> 'a world \<Rightarrow> bool)"
    unfolding init_law_def by (auto simp: naive_def naive_inv_def mem_heapsize_def split: if_splits)
  moreover have "malloc_law naive (naive_inv :: live \<Rightarrow> 'a world \<Rightarrow> bool)"
    unfolding malloc_law_def using naive_inv_malloc by (fastforce simp: naive_def untouched_def)
  moreover have "free_law naive (naive_inv :: live \<Rightarrow> 'a world \<Rightarrow> bool)"
    unfolding free_law_def by (auto simp: naive_def untouched_def naive_inv_subset simp del: fun_upd_apply)
  moreover have "user_law (naive_inv :: live \<Rightarrow> 'a world \<Rightarrow> bool)"
    by (simp add: user_law_def naive_inv_bytes)
  ultimately show ?thesis using naive_realloc_law by (simp add: contract_def)
qed

lemma naive_malloc_grows: "heap_ok w \<Longrightarrow> heap_grows w (snd (naive_malloc n w))"
  using naive_malloc_cases[of w n "fst (naive_malloc n w)" "snd (naive_malloc n w)"]
  by (auto simp: heap_grows_def word_le_nat_alt)

lemma naive_only_grows: "only_grows (naive :: 'a world allocator)"
proof -
  have "heap_grows w (snd (naive_realloc p n w))" if "heap_ok w" for p n and w :: "'a world"
    using naive_malloc_grows[OF that, of n] that
    by (auto simp: naive_realloc_def heap_grows_def split: prod.splits)
  then show ?thesis
    unfolding only_grows_def by (simp add: naive_def naive_malloc_grows) (simp add: heap_grows_def)
qed

end
