(* ===== verification/Malloc_Props.thy ===== *)
theory Malloc_Props
  imports Mdriver_Contract
begin

text \<open>
  The properties of the malloc lab: the simulated heap, the trace reader, and what the
  driver's verdict means.
\<close>

section \<open>The measurements replay the same requests\<close>

lemma block_of_blocks: "trc_blocks d' = trc_blocks d \<Longrightarrow> block_of i d' = block_of i d"
  by (simp add: block_of_def)

lemma remember_put:
  assumes "remember i p sz d = Inr (ok, d1)" "trc_blocks e = trc_blocks d" "world e = world d"
  shows "\<exists>e1. put_block i p e = Inr e1 \<and> trc_blocks e1 = trc_blocks d1 \<and> world e1 = world d1"
  using assms by (auto simp: remember_def put_block_def split: if_splits)

lemma count_drv [simp]: "drv (count x u) = drv u"
  by (simp add: count_def Let_def)

lemma util_speed_op:
  assumes u: "util_op A r u = Inr u'" and e: "world e = world (drv u)" "trc_blocks e = trc_blocks (drv u)"
  shows "\<exists>e'. speed_op A r e = Inr e' \<and> world e' = world (drv u') \<and> trc_blocks e' = trc_blocks (drv u')"
proof (cases "op_type r")
  case ALLOC
  obtain p w where pw: "a_malloc A (op_size r) (world (drv u)) = (p, w)" by fastforce
  obtain ok d1 where d1: "remember (op_index r) p (op_size r) (drv u\<lparr>world := w\<rparr>) = Inr (ok, d1)"
    and u': "p \<noteq> 0" "drv u' = d1"
    using u ALLOC pw by (auto simp: util_op_def Let_def split: if_splits sum.splits)
  show ?thesis using remember_put[OF d1, of "e\<lparr>world := w\<rparr>"] ALLOC e pw u' by (auto simp: speed_op_def)
next
  case REALLOC
  obtain oldp where b: "block_of (op_index r) (drv u) = Inr oldp"
    using u REALLOC by (auto simp: util_op_def Let_def split: sum.splits)
  obtain p w where pw: "a_realloc A oldp (op_size r) (world (drv u)) = (p, w)" by fastforce
  obtain ok d1 where d1: "remember (op_index r) p (op_size r) (drv u\<lparr>world := w\<rparr>) = Inr (ok, d1)"
    and u': "p \<noteq> 0" "drv u' = d1"
    using u REALLOC b pw by (auto simp: util_op_def Let_def split: if_splits sum.splits)
  show ?thesis using remember_put[OF d1, of "e\<lparr>world := w\<rparr>"] REALLOC e pw u' b block_of_blocks[OF e(2)]
    by (auto simp: speed_op_def)
next
  case FREE
  then show ?thesis using u e block_of_blocks[OF e(2)]
    by (auto simp: util_op_def speed_op_def Let_def split: sum.splits)
qed

lemma util_speed_ops:
  assumes "util_ops A rs u = Inr u'" "world e = world (drv u)" "trc_blocks e = trc_blocks (drv u)"
  shows "\<exists>e'. speed_ops A rs e = Inr e' \<and> world e' = world (drv u') \<and> trc_blocks e' = trc_blocks (drv u')"
  using assms
proof (induction rs arbitrary: u e)
  case (Cons r rs)
  obtain u1 where u1: "util_op A r u = Inr u1" "util_ops A rs u1 = Inr u'"
    using Cons.prems(1) by (auto split: sum.splits)
  obtain e1 where "speed_op A r e = Inr e1" "world e1 = world (drv u1)" "trc_blocks e1 = trc_blocks (drv u1)"
    using util_speed_op[OF u1(1) Cons.prems(2,3)] by auto
  then show ?case using Cons.IH[OF u1(2)] by simp
qed simp

section \<open>A small run\<close>

text \<open>The concrete input of the witnesses: a heap at address 8 and a trace of one id.\<close>

definition heap0 :: "unit world" where
  "heap0 = \<lparr>mem_start_brk = 8, mem_brk = 8, mem_max_addr = 20971528, heap_bytes = (\<lambda>a. 0),
            errnum = 0, static_vars = ()\<rparr>"

definition ops0 :: "traceop list" where
  "ops0 = [\<lparr>op_type = ALLOC, op_index = 0, op_size = 12\<rparr>,
           \<lparr>op_type = REALLOC, op_index = 0, op_size = 30\<rparr>, \<lparr>op_type = FREE, op_index = 0, op_size = 7\<rparr>]"

definition driver0 :: "unit world driver" where
  "driver0 = \<lparr>world = heap0, ranges = [], trc_blocks = [0], trc_sizes = [0], reports = []\<rparr>"

definition trace0 :: trace where
  "trace0 = \<lparr>sugg_heapsize = 20, num_ids = 1, num_ops = 3, weight = 1, trace_ops = ops0,
             blocks = [0], block_sizes = [0]\<rparr>"

lemma heap0_ok: "heap_ok (world driver0)" "heap_ok heap0"
  by (simp_all add: heap_ok_def heap0_def driver0_def)

lemma ops0_good: "good_trace (length (trc_blocks driver0)) {} ops0"
  by (simp add: ops0_def driver0_def good_op_def after_op_def)

definition accepted :: "stop + (bool \<times> 'w driver) \<Rightarrow> bool" where
  "accepted r = (case r of Inl e \<Rightarrow> False | Inr (ok, d) \<Rightarrow> ok)"

lemma run0: "accepted (eval_mm_valid naive 0 ops0 driver0)"
  by code_simp

definition two_allocs :: "traceop list" where
  "two_allocs = [\<lparr>op_type = ALLOC, op_index = 0, op_size = 12\<rparr>, \<lparr>op_type = ALLOC, op_index = 1, op_size = 30\<rparr>]"

definition driver2 :: "unit world driver" where
  "driver2 = driver0\<lparr>trc_blocks := [0, 0], trc_sizes := [0, 0]\<rparr>"

lemma run2: "case eval_mm_valid naive 0 two_allocs driver2 of Inl e \<Rightarrow> False | Inr (ok, d) \<Rightarrow> ok \<and> length (ranges d) = 2"
  by code_simp

lemma main0: "\<not> isl (main_traces 2 naive (\<lambda>f. Inr trace0) 0 [None] driver0)"
  by code_simp

lemma util0: "\<not> isl (eval_mm_util naive ops0 driver0)"
  by code_simp

lemma not_isl_pair: "\<not> isl r \<Longrightarrow> \<exists>a b. r = Inr (a, b)"
  by (cases r) auto

section \<open>Properties\<close>

text \<open>
  C9: the driver accepts correct allocators. On a trace whose requests make sense, an
  allocator that keeps the contract is judged valid without a report, or the trace ends with
  the one report that \<^verbatim>\<open>mm_init\<close>, \<^verbatim>\<open>mm_malloc\<close> or \<^verbatim>\<open>mm_realloc\<close> gave no memory. No run leaves the
  arrays of the trace or fails an assertion.
\<close>

theorem correct_allocator_passes:
  assumes "contract A I" "heap_ok (world d)" "length (trc_sizes d) = length (trc_blocks d)"
    and "good_trace (length (trc_blocks d)) {} ops"
  shows "\<exists>d'. (eval_mm_valid A t ops d = Inr (True, d') \<and> reports d' = reports d) \<or>
    (\<exists>k c. eval_mm_valid A t ops d = Inr (False, d') \<and> reports d' = (t, k, c) # reports d
           \<and> c \<in> {Init_failed, Malloc_failed, Realloc_failed})"
  using passes_eval[OF assms] unfolding passes_def by blast

theorem correct_allocator_passes_witness:
  "\<exists>d'. (eval_mm_valid naive 0 ops0 driver0 = Inr (True, d') \<and> reports d' = reports driver0) \<or>
    (\<exists>k c. eval_mm_valid naive 0 ops0 driver0 = Inr (False, d') \<and> reports d' = (0, k, c) # reports driver0
           \<and> c \<in> {Init_failed, Malloc_failed, Realloc_failed})"
  by (rule correct_allocator_passes[OF naive_contract heap0_ok(1) _ ops0_good]) (simp add: driver0_def)

text \<open>
  C10: the payloads in the range list. Whatever addresses an allocator returns, at the end
  of a run every recorded payload is aligned and lies in the heap, and two of them do not
  overlap unless the one allocated later encloses the other on both sides.
\<close>

theorem accepted_payloads:
  assumes "only_grows A" "heap_ok (world d)" "eval_mm_valid A t ops d = Inr (ok, d')"
  shows "list_all (inside_heap (world d')) (ranges d') \<and>
    sorted_wrt (\<lambda>p q. apart p q \<or> swallows p q) (ranges d')"
  using ranges_ok_eval[OF assms] by (simp add: ranges_ok_def)

theorem accepted_payloads_witness:
  "\<exists>d'. eval_mm_valid naive 0 two_allocs driver2 = Inr (True, d') \<and> length (ranges d') = 2 \<and>
    list_all (inside_heap (world d')) (ranges d') \<and>
    sorted_wrt (\<lambda>p q. apart p q \<or> swallows p q) (ranges d')"
proof -
  obtain d' where d': "eval_mm_valid naive 0 two_allocs driver2 = Inr (True, d')" "length (ranges d') = 2"
    using run2 by (auto split: sum.splits)
  have "heap_ok (world driver2)" using heap0_ok(1) by (simp add: driver2_def)
  then show ?thesis using d' accepted_payloads[OF naive_only_grows _ d'(1)] by blast
qed

text \<open>
  An overlap the driver misses. A payload that starts before a recorded one and ends
  behind it is recorded as if it were correct.
\<close>

lemma enclosing_payload_recorded:
  assumes "ranges d = [(a, b)]" "lo < a" "a \<le> b" "b < lo + sz - 1" "0 < sint sz" "IS_ALIGNED lo"
    "mem_heap_lo (world d) \<le> lo" "lo + sz - 1 \<le> mem_heap_hi (world d)"
  shows "add_range lo sz t k d = Inr (True, d\<lparr>ranges := [(lo, lo + sz - 1), (a, b)]\<rparr>)"
proof -
  have "add_range lo sz t k d = Inr (True, d\<lparr>ranges := (lo, lo + sz - 1) # ranges d\<rparr>)"
    by (rule add_range_accepts) (use assms in \<open>auto simp: end_inside_def\<close>)
  then show ?thesis using assms(1) by simp
qed

lemma enclosing_payload_recorded_witness:
  "add_range 16 64 0 1 (driver0\<lparr>world := heap0\<lparr>mem_brk := 108\<rparr>, ranges := [(24, 39)]\<rparr>)
   = Inr (True, driver0\<lparr>world := heap0\<lparr>mem_brk := 108\<rparr>, ranges := [(16, 79), (24, 39)]\<rparr>)"
  using enclosing_payload_recorded[of "driver0\<lparr>world := heap0\<lparr>mem_brk := 108\<rparr>, ranges := [(24, 39)]\<rparr>" 24 39 16 64 0 1]
  by (simp add: heap0_def driver0_def IS_ALIGNED_def ALIGNMENT_def mem_heap_lo_def mem_heap_hi_def)

lemma scast_not_high:
  assumes "128 \<le> (x :: u32)" "x < 256"
  shows "scast (b :: u8) \<noteq> x"
proof
  assume b: "scast b = x"
  have "x AND mask 8 = x" by (rule less_mask_eq) (use assms(2) in simp)
  then have hi: "bit x n \<Longrightarrow> n < 8" for n by (metis bit_and_iff bit_mask_iff)
  have "bit x 7 = bit x 8" unfolding b[symmetric] by (simp add: bit_simps)
  then have "\<not> bit x 7" using hi[of 8] by auto
  then have "bit x n \<Longrightarrow> n < 7" for n using hi[of n] by (cases "n = 7") auto
  then have "x = x AND mask 7" by (intro bit_word_eqI) (auto simp: bit_simps simp del: mask_numeral)
  also have "\<dots> \<le> mask 7" by (rule word_and_le1)
  finally show False using assms(1) by (simp add: mask_eq_exp_minus_1 word_le_nat_alt)
qed

lemma high_byte_not_preserved:
  assumes "128 \<le> i AND 0xFF" "0 < sint n"
  shows "\<not> preserved p i n m"
proof
  assume "preserved p i n m"
  then have "scast (m (p + of_nat 0)) = i AND 0xFF"
    unfolding preserved_def list_all_iff by (rule bspec) (use assms(2) in simp)
  moreover have "i AND 0xFF < 256" by (rule le_less_trans[OF word_and_le1]) simp
  ultimately show False using scast_not_high[OF assms(1)] by blast
qed

text \<open>
  The check of reallocated data is wrong for half of the ids. When the low byte of the id
  is at least 128, no allocator passes a reallocation of a block of positive size: the byte
  read back is sign extended and the id is not.
\<close>

lemma high_id_realloc_rejected:
  assumes "128 \<le> i AND 0xFF" "in_array i (trc_sizes d)" "0 < sint (trc_sizes d ! nat (sint i))"
    and "valid_realloc A t k i sz d = Inr (ok, d')"
  shows "\<not> ok \<and> (\<exists>l c. reports d' = (t, l, c) # reports d)"
proof -
  obtain oldp where b: "block_of i d = Inr oldp"
    using assms(4) by (auto simp: valid_realloc_def split: sum.splits)
  obtain q w where pw: "a_realloc A oldp sz (world d) = (q, w)" by fastforce
  let ?d1 = "d\<lparr>world := w, ranges := remove_range oldp (ranges d)\<rparr>"
  have "\<not> ok"
  proof
    assume ok
    then obtain d2 where d2: "add_range q sz t k ?d1 = Inr (True, d2)"
      using assms(4) b pw by (auto simp: valid_realloc_def Let_def split: if_splits sum.splits)
    note a = add_range_True[OF d2]
    have "size_of i d2 = Inr (trc_sizes d ! nat (sint i))"
      using assms(2) a(8) by (simp add: size_of_def)
    then show False
      using assms(3,4) b pw d2 \<open>ok\<close> a(1) high_byte_not_preserved[OF assms(1)]
      by (auto simp: valid_realloc_def Let_def split: if_splits)
  qed
  then show ?thesis using one_report_valid_realloc[OF assms(4)] by (auto simp: one_report_def)
qed

lemma high_id_realloc_rejected_witness:
  "let d = driver0\<lparr>trc_blocks := replicate 129 8, trc_sizes := replicate 129 4\<rparr>
   in \<exists>d'. valid_realloc naive 0 3 128 16 d = Inr (False, d')"
proof -
  let ?d = "driver0\<lparr>trc_blocks := replicate 129 8, trc_sizes := replicate 129 4\<rparr>"
  have "\<not> isl (valid_realloc naive 0 3 128 16 ?d)" by code_simp
  then obtain ok d' where r: "valid_realloc naive 0 3 128 16 ?d = Inr (ok, d')"
    using not_isl_pair by metis
  have "\<not> ok \<and> (\<exists>l c. reports d' = (0, l, c) # reports ?d)"
    by (rule high_id_realloc_rejected[OF _ _ _ r]) (code_simp+)
  then show ?thesis using r by auto
qed

text \<open>
  The number of errors. After the main loop the counter \<^verbatim>\<open>errors\<close> has grown by exactly
  the number of traces that were judged invalid: the measurements report nothing and an
  invalid trace is reported once.
\<close>

lemma errors_count_invalid_traces:
  assumes "main_traces n A rd i fs d = Inr (sts, d')"
  shows "length sts = length fs \<and> errors d' + numcorrect sts = errors d + length fs"
  by (rule main_traces_errors[OF assms])

lemma errors_count_invalid_traces_witness:
  "\<exists>sts d'. main_traces 2 naive (\<lambda>f. Inr trace0) 0 [None] driver0 = Inr (sts, d')
     \<and> length sts = 1 \<and> errors d' + numcorrect sts = 1"
proof -
  obtain sts d' where r: "main_traces 2 naive (\<lambda>f. Inr trace0) 0 [None] driver0 = Inr (sts, d')"
    using not_isl_pair[OF main0] by blast
  have "length sts = 1 \<and> errors d' + numcorrect sts = 1"
    using errors_count_invalid_traces[OF r] by (simp add: errors_def driver0_def)
  then show ?thesis using r by blast
qed

text \<open>
  The speed measurement sends the requests of the utilization measurement. When the
  latter ends, so does the former, from the same state to the same heap and pointers.
\<close>

lemma speed_replays_util:
  assumes "eval_mm_util A ops d = Inr (u, d')"
  shows "\<exists>d''. eval_mm_speed A ops d = Inr d'' \<and> world d'' = world d' \<and> trc_blocks d'' = trc_blocks d'"
proof -
  obtain r w where rw: "a_init A (mem_reset_brk (world d)) = (r, w)" by fastforce
  let ?u = "\<lparr>drv = d\<lparr>world := w\<rparr>, total_size = 0, max_total_size = 0\<rparr>"
  have r: "\<not> sint r < 0" using assms unfolding eval_mm_util_def rw by (simp split: if_splits)
  obtain u' where u': "util_ops A ops ?u = Inr u'" "d' = drv u'"
    using assms r unfolding eval_mm_util_def rw by (cases "util_ops A ops ?u") simp_all
  then show ?thesis
    using util_speed_ops[OF u'(1), of "d\<lparr>world := w\<rparr>"] rw r by (auto simp: eval_mm_speed_def)
qed

lemma speed_replays_util_witness:
  "\<exists>u d' d''. eval_mm_util naive ops0 driver0 = Inr (u, d') \<and> eval_mm_speed naive ops0 driver0 = Inr d'' \<and> world d'' = world d' \<and> trc_blocks d'' = trc_blocks d'"
proof -
  obtain u d' where r: "eval_mm_util naive ops0 driver0 = Inr (u, d')"
    using not_isl_pair[OF util0] by force
  show ?thesis using r speed_replays_util[OF r] by blast
qed

text \<open>
  C11: trace files. A trace written in the format of the files of \<^verbatim>\<open>traces/\<close> is read back:
  the header, and every request, except that a free keeps the size its entry happened to
  have; the ids start with what the memory of the arrays held.
\<close>

theorem traces_read_back:
  assumes "0 \<le> sint (num_ids t)" "0 \<le> sint (num_ops t)"
    and "length (trace_ops t) = nat (sint (num_ops t))"
    and "foldl line_max 0 (trace_ops t) = num_ids t - 1"
  shows "read_trace t0 junk_op junk_b junk_s (Some (trace_text t)) = Inr
    (t\<lparr>trace_ops := map (\<lambda>i. stored (trace_ops t ! i) (junk_op i)) [0..<length (trace_ops t)],
       blocks := map junk_b [0..<nat (sint (num_ids t))],
       block_sizes := map junk_s [0..<nat (sint (num_ids t))]\<rparr>)"
  by (rule read_trace_text[OF assms])

theorem traces_read_back_witness:
  "read_trace trace0 (\<lambda>i. ops0 ! i) (\<lambda>i. 0) (\<lambda>i. 0) (Some (trace_text trace0)) = Inr trace0"
proof -
  have "read_trace trace0 (\<lambda>i. ops0 ! i) (\<lambda>i. 0) (\<lambda>i. 0) (Some (trace_text trace0)) = Inr
    (trace0\<lparr>trace_ops := map (\<lambda>i. stored (trace_ops trace0 ! i) (ops0 ! i)) [0..<length (trace_ops trace0)],
       blocks := map (\<lambda>i. 0) [0..<nat (sint (num_ids trace0))],
       block_sizes := map (\<lambda>i. 0) [0..<nat (sint (num_ids trace0))]\<rparr>)"
    by (rule traces_read_back) (simp_all add: trace0_def ops0_def line_max_def)
  then show ?thesis by (simp add: trace0_def ops0_def stored_def upt_rec numeral_2_eq_2 numeral_3_eq_3)
qed

text \<open>
  Growing the simulated heap. \<^verbatim>\<open>mem_sbrk\<close> grants a non-negative increment that fits below
  the maximum and refuses the others, except one so large that the sum leaves the address
  space: then it is granted and the break moves down.
\<close>

lemma sbrk_grants:
  assumes "heap_ok w"
  shows "mem_sbrk incr w =
    (if 0 \<le> sint incr \<and> (unat (mem_heapsize w) + unat incr \<le> 20971520
                           \<or> 4294967296 \<le> unat (mem_brk w) + unat incr)
     then (mem_brk w, w\<lparr>mem_brk := mem_brk w + incr\<rparr>)
     else (- 1, w\<lparr>errnum := ENOMEM\<rparr>))"
  by (rule mem_sbrk_cases[OF assms])

lemma sbrk_grants_witness:
  "mem_sbrk 4096 heap0 = (8, heap0\<lparr>mem_brk := 4104\<rparr>) \<and>
   mem_sbrk 0x7F000000 (heap0\<lparr>mem_start_brk := 0xF0000000, mem_brk := 0xF0000000, mem_max_addr := 0xF1400000\<rparr>)
    = (0xF0000000, heap0\<lparr>mem_start_brk := 0xF0000000, mem_brk := 0x6F000000, mem_max_addr := 0xF1400000\<rparr>)"
proof
  show "mem_sbrk 4096 heap0 = (8, heap0\<lparr>mem_brk := 4104\<rparr>)"
    using sbrk_grants[OF heap0_ok(2), of 4096] by (simp add: heap0_def mem_heapsize_def)
  show "mem_sbrk 0x7F000000 (heap0\<lparr>mem_start_brk := 0xF0000000, mem_brk := 0xF0000000, mem_max_addr := 0xF1400000\<rparr>)
    = (0xF0000000, heap0\<lparr>mem_start_brk := 0xF0000000, mem_brk := 0x6F000000, mem_max_addr := 0xF1400000\<rparr>)"
    using sbrk_grants[where incr = "0x7F000000" and w = "heap0\<lparr>mem_start_brk := 0xF0000000, mem_brk := 0xF0000000, mem_max_addr := 0xF1400000\<rparr>"]
    by (simp add: heap0_def mem_heapsize_def heap_ok_def)
qed

end
