(* ===== verification/Rio.thy ===== *)
theory Rio
  imports C_Strings
begin

text \<open>
  The robust I/O package of the proxy lab (\<^verbatim>\<open>CSAPPLab/proxy/csapp.c\<close>), over descriptors whose
  calls may be short, interrupted or fail.
\<close>

section \<open>Descriptors\<close>

text \<open>
  \<^verbatim>\<open>read\<close> and \<^verbatim>\<open>write\<close> of the system. What a call does beyond the data is given by a script:
  \<open>Give k\<close> bounds the bytes of a call, \<open>Fail e\<close> makes it fail with \<^verbatim>\<open>errno\<close> set to \<open>e\<close>; when the
  script has ended, a call transfers all it can. A read returns 0 at the end of the data only.
\<close>

datatype call_outcome = Give nat | Fail nat

definition EINTR :: nat where "EINTR = 4"

record source =
  src_data :: string
  src_script :: "call_outcome list"
  src_errno :: nat

record outlet =
  snk_data :: string
  snk_script :: "call_outcome list"
  snk_errno :: nat

definition deliver :: "nat \<Rightarrow> source \<Rightarrow> int \<times> string \<times> source" where
  "deliver n s = (int (length (take n (src_data s))), take n (src_data s), s\<lparr>src_data := drop n (src_data s)\<rparr>)"

definition sys_read :: "nat \<Rightarrow> source \<Rightarrow> int \<times> string \<times> source" where
  "sys_read n s = (case src_script s of
     [] \<Rightarrow> deliver n s
   | Give k # sc \<Rightarrow> deliver (min n (max 1 k)) (s\<lparr>src_script := sc\<rparr>)
   | Fail e # sc \<Rightarrow> (- 1, [], s\<lparr>src_script := sc, src_errno := e\<rparr>))"

definition accept_bytes :: "string \<Rightarrow> outlet \<Rightarrow> int \<times> outlet" where
  "accept_bytes bs t = (int (length bs), t\<lparr>snk_data := snk_data t @ bs\<rparr>)"

definition sys_write :: "string \<Rightarrow> outlet \<Rightarrow> int \<times> outlet" where
  "sys_write bs t = (case snk_script t of
     [] \<Rightarrow> accept_bytes bs t
   | Give k # sc \<Rightarrow> accept_bytes (take k bs) (t\<lparr>snk_script := sc\<rparr>)
   | Fail e # sc \<Rightarrow> (- 1, t\<lparr>snk_script := sc, snk_errno := e\<rparr>))"

lemma sys_read_script:
  "sys_read n s = (r, bs, s') \<Longrightarrow> length (src_script s') \<le> length (src_script s)
     \<and> (r < 0 \<longrightarrow> length (src_script s') < length (src_script s))
     \<and> (0 \<le> r \<longrightarrow> r = int (length bs) \<and> length bs \<le> n)"
  by (auto simp: sys_read_def deliver_def split: list.splits call_outcome.splits)

lemma sys_write_script:
  "sys_write bs t = (r, t') \<Longrightarrow> length (snk_script t') \<le> length (snk_script t)
     \<and> (r \<le> 0 \<longrightarrow> bs \<noteq> [] \<longrightarrow> length (snk_script t') < length (snk_script t)) \<and> r \<le> int (length bs)"
  by (auto simp: sys_write_def accept_bytes_def split: list.splits call_outcome.splits)

section \<open>Unbuffered input and output\<close>

text \<open>
  \<^verbatim>\<open>rio_readn\<close>: the loop with \<open>nleft\<close> bytes to go and the bytes stored so far. The result is
  the return value, the bytes stored in the user's buffer, and the descriptor.
\<close>

function readn_loop :: "nat \<Rightarrow> nat \<Rightarrow> string \<Rightarrow> source \<Rightarrow> int \<times> string \<times> source" where
  "readn_loop n nleft acc s =
    (if nleft = 0 then (int n - int nleft, acc, s)
     else let (nread, bs, s1) = sys_read nleft s in
       if nread < 0 then
         if src_errno s1 = EINTR then readn_loop n nleft acc s1
         else (- 1, acc, s1)
       else if nread = 0 then (int n - int nleft, acc, s1)
       else readn_loop n (nleft - nat nread) (acc @ bs) s1)"
  by pat_completeness auto
termination
proof (relation "measure (\<lambda>(n, nleft, acc, s). nleft + length (src_script s))", goal_cases)
  case (2 n nleft acc s x nread y bs s1)
  then show ?case using sys_read_script[of nleft s nread bs s1] by simp
next
  case (3 n nleft acc s x nread y bs s1)
  then have "sys_read nleft s = (nread, bs, s1)" by simp
  then have "length (src_script s1) \<le> length (src_script s)" "nread = int (length bs)" "length bs \<le> nleft"
    using sys_read_script[of nleft s nread bs s1] 3 by simp_all
  moreover have "bs \<noteq> []" using 3 calculation by auto
  ultimately show ?case by (cases bs) auto
qed simp

declare readn_loop.simps [simp del]

definition rio_readn :: "nat \<Rightarrow> source \<Rightarrow> int \<times> string \<times> source" where
  "rio_readn n s = readn_loop n n [] s"

function writen_loop :: "string \<Rightarrow> outlet \<Rightarrow> bool \<times> outlet" where
  "writen_loop bs t =
    (if bs = [] then (True, t)
     else let (nwritten, t1) = sys_write bs t in
       if nwritten \<le> 0 then
         if snk_errno t1 = EINTR then writen_loop bs t1
         else (False, t1)
       else writen_loop (drop (nat nwritten) bs) t1)"
  by pat_completeness auto
termination
  by (relation "measure (\<lambda>(bs, t). length bs + length (snk_script t))")
     (auto dest!: sys_write_script[OF sym])

declare writen_loop.simps [simp del]

definition rio_writen :: "string \<Rightarrow> outlet \<Rightarrow> int \<times> outlet" where
  "rio_writen bs t = (let (ok, t1) = writen_loop bs t in (if ok then int (length bs) else - 1, t1))"

section \<open>Buffered input\<close>

definition RIO_BUFSIZE :: nat where "RIO_BUFSIZE = 8192"

text \<open>The buffer pointer is an offset into the buffer; the descriptor is kept beside the record.\<close>

record rio =
  rio_cnt :: int
  rio_bufptr :: nat
  rio_buf :: string

definition rio_readinitb :: "rio \<Rightarrow> rio" where
  "rio_readinitb rp = rp\<lparr>rio_cnt := 0, rio_bufptr := 0\<rparr>"

text \<open>
  The refill loop of \<^verbatim>\<open>rio_read\<close>: its result is - 1 for an error, 0 at the end of the data, and
  1 when the buffer has unread bytes.
\<close>

function rio_fill :: "rio \<Rightarrow> source \<Rightarrow> int \<times> rio \<times> source" where
  "rio_fill rp s =
    (if 0 < rio_cnt rp then (1, rp, s)
     else let (r, bs, s1) = sys_read RIO_BUFSIZE s;
              rp1 = rp\<lparr>rio_cnt := r, rio_buf := bs @ drop (length bs) (rio_buf rp)\<rparr> in
       if r < 0 then
         if src_errno s1 \<noteq> EINTR then (- 1, rp1, s1) else rio_fill rp1 s1
       else if r = 0 then (0, rp1, s1)
       else (1, rp1\<lparr>rio_bufptr := 0\<rparr>, s1))"
  by pat_completeness auto
termination
  by (relation "measure (\<lambda>(rp, s). length (src_script s))") (auto dest!: sys_read_script[OF sym])

declare rio_fill.simps [simp del]

definition rio_read :: "nat \<Rightarrow> rio \<Rightarrow> source \<Rightarrow> int \<times> string \<times> rio \<times> source" where
  "rio_read n rp s =
    (let (r, rp1, s1) = rio_fill rp s in
     if r \<noteq> 1 then (r, [], rp1, s1)
     else let cnt = (if rio_cnt rp1 < int n then nat (rio_cnt rp1) else n) in
       (int cnt, take cnt (drop (rio_bufptr rp1) (rio_buf rp1)),
        rp1\<lparr>rio_bufptr := rio_bufptr rp1 + cnt, rio_cnt := rio_cnt rp1 - int cnt\<rparr>, s1))"

lemma rio_fill_script:
  "rio_fill rp s = (r, rp', s') \<Longrightarrow> length (src_script s') \<le> length (src_script s)
     \<and> (r < 0 \<longrightarrow> length (src_script s') < length (src_script s))
     \<and> (r = 1 \<longrightarrow> 0 < rio_cnt rp') \<and> r \<in> {- 1, 0, 1}"
proof (induction rp s arbitrary: r rp' s' rule: rio_fill.induct)
  case (1 rp s)
  show ?case
  proof (cases "0 < rio_cnt rp")
    case True
    then show ?thesis using 1(2) by (subst (asm) rio_fill.simps) simp
  next
    case False
    obtain k bs s1 where k: "sys_read RIO_BUFSIZE s = (k, bs, s1)" by (cases "sys_read RIO_BUFSIZE s") auto
    note k' = sys_read_script[OF k]
    show ?thesis
    proof (cases "k < 0 \<and> src_errno s1 = EINTR")
      case True
      let ?rp1 = "rp\<lparr>rio_cnt := k, rio_buf := bs @ drop (length bs) (rio_buf rp)\<rparr>"
      have "rio_fill ?rp1 s1 = (r, rp', s')"
        using 1(2) False True k by (subst (asm) rio_fill.simps) simp
      then show ?thesis using 1(1)[OF False k[symmetric] refl refl] True k' by fastforce
    next
      case nt: False
      then show ?thesis
        using 1(2) False k k' by (subst (asm) rio_fill.simps) (auto simp: Let_def split: if_splits)
    qed
  qed
qed

lemma rio_read_script:
  assumes "rio_read n rp s = (r, bs, rp', s')" "0 < n"
  shows "length (src_script s') \<le> length (src_script s)" "r < 0 \<Longrightarrow> length (src_script s') < length (src_script s)"
    "r \<le> int n"
  using assms rio_fill_script[of rp s]
  by (fastforce simp: rio_read_def Let_def split: prod.splits if_splits)+

function readnb_loop :: "nat \<Rightarrow> nat \<Rightarrow> string \<Rightarrow> rio \<Rightarrow> source \<Rightarrow> int \<times> string \<times> rio \<times> source" where
  "readnb_loop n nleft acc rp s =
    (if nleft = 0 then (int n - int nleft, acc, rp, s)
     else let (nread, bs, rp1, s1) = rio_read nleft rp s in
       if nread < 0 then
         if src_errno s1 = EINTR then readnb_loop n nleft acc rp1 s1
         else (- 1, acc, rp1, s1)
       else if nread = 0 then (int n - int nleft, acc, rp1, s1)
       else readnb_loop n (nleft - nat nread) (acc @ bs) rp1 s1)"
  by pat_completeness auto
termination
proof (relation "measure (\<lambda>(n, nleft, acc, rp, s). nleft + length (src_script s))", goal_cases)
  case (2 n nleft acc rp s x nread y bs z rp1 s1)
  then show ?case using rio_read_script(2)[of nleft rp s nread bs rp1 s1] by auto
next
  case (3 n nleft acc rp s x nread y bs z rp1 s1)
  then show ?case using rio_read_script(1,3)[of nleft rp s nread bs rp1 s1] by auto
qed simp

declare readnb_loop.simps [simp del]

definition rio_readnb :: "nat \<Rightarrow> rio \<Rightarrow> source \<Rightarrow> int \<times> string \<times> rio \<times> source" where
  "rio_readnb n rp s = readnb_loop n n [] rp s"

text \<open>
  \<^verbatim>\<open>rio_readlineb\<close>, with the user's buffer: \<open>k\<close> iterations of the loop are left, \<open>n\<close> is the
  loop counter, so that the next character goes to offset \<open>n - 1\<close>. The buffer has at least
  \<^verbatim>\<open>maxlen\<close> bytes.
\<close>

abbreviation (input) line_end :: char where "line_end \<equiv> CHR 0x0A"
abbreviation (input) NUL :: char where "NUL \<equiv> CHR 0x00"

fun readline_loop :: "nat \<Rightarrow> nat \<Rightarrow> string \<Rightarrow> rio \<Rightarrow> source \<Rightarrow> int \<times> string \<times> rio \<times> source" where
  "readline_loop 0 n buf rp s = (int n, buf[n - 1 := NUL], rp, s)"
| "readline_loop (Suc k) n buf rp s =
    (let (rc, cs, rp1, s1) = rio_read 1 rp s in
     if rc = 1 then
       let c = hd cs; buf1 = buf[n - 1 := c] in
       if c = line_end then (int n, buf1[n := NUL], rp1, s1)
       else readline_loop k (n + 1) buf1 rp1 s1
     else if rc = 0 then
       if n = 1 then (0, buf, rp1, s1) else (int n, buf[n - 1 := NUL], rp1, s1)
     else (- 1, buf, rp1, s1))"

definition rio_readlineb :: "nat \<Rightarrow> string \<Rightarrow> rio \<Rightarrow> source \<Rightarrow> int \<times> string \<times> rio \<times> source" where
  "rio_readlineb maxlen buf rp s = readline_loop (maxlen - 1) 1 buf rp s"

text \<open>The wrappers end the program on an error, which is \<open>None\<close> here.\<close>

definition Rio_readn :: "nat \<Rightarrow> source \<Rightarrow> (int \<times> string \<times> source) option" where
  "Rio_readn n s = (let r = rio_readn n s in if fst r < 0 then None else Some r)"

definition Rio_writen :: "string \<Rightarrow> outlet \<Rightarrow> outlet option" where
  "Rio_writen bs t = (let (r, t1) = rio_writen bs t in if r \<noteq> int (length bs) then None else Some t1)"

definition Rio_readnb :: "nat \<Rightarrow> rio \<Rightarrow> source \<Rightarrow> (int \<times> string \<times> rio \<times> source) option" where
  "Rio_readnb n rp s = (let r = rio_readnb n rp s in if fst r < 0 then None else Some r)"

definition Rio_readlineb :: "nat \<Rightarrow> string \<Rightarrow> rio \<Rightarrow> source \<Rightarrow> (int \<times> string \<times> rio \<times> source) option" where
  "Rio_readlineb maxlen buf rp s = (let r = rio_readlineb maxlen buf rp s in if fst r < 0 then None else Some r)"

end
