(* ===== verification/Proxy.thy ===== *)
theory Proxy
  imports Rio
begin

text \<open>
  The web proxy of the proxy lab (\<^verbatim>\<open>CSAPPLab/proxy/proxy.c\<close>): the URI parser, the loops that
  forward a request and a reply, the log entry, and the thread that serves a connection.
\<close>

section \<open>Strings\<close>

definition MAXLINE_PROXY :: nat where "MAXLINE_PROXY = 8192"

text \<open>The C string at the start of a buffer.\<close>

definition cstr :: "string \<Rightarrow> string" where "cstr buf = takeWhile (\<lambda>c. c \<noteq> NUL) buf"

definition CRLF :: string where "CRLF = [CHR 0x0D, line_end]"

text \<open>\<^verbatim>\<open>strncasecmp(s, p, n) == 0\<close> for a prefix \<open>p\<close> of \<open>n\<close> lower-case characters.\<close>

definition lower :: "char \<Rightarrow> char" where
  "lower c = (let n = (of_char c :: nat) in if 65 \<le> n \<and> n \<le> 90 then char_of (n + 32) else c)"

definition starts_with :: "string \<Rightarrow> string \<Rightarrow> bool" where
  "starts_with s p \<longleftrightarrow> map lower (take (length p) s) = p"

section \<open>parse\_uri\<close>

definition host_delim :: "char \<Rightarrow> bool" where
  "host_delim c \<longleftrightarrow> c \<in> {CHR '' '', CHR '':'', CHR ''/'', CHR 0x0D, line_end}"

text \<open>
  The result is host name, path and port; \<open>None\<close> is a parser that has left its argument: when
  \<^verbatim>\<open>strpbrk\<close> finds no delimiter the length is the difference of \<^verbatim>\<open>NULL\<close> and a pointer and \<^verbatim>\<open>strncpy\<close>
  runs out of the buffer. The second scheme is compared in its first seven characters only, but
  eight are skipped; for the URI \<^verbatim>\<open>https:/\<close> that is behind the terminating NUL. A port outside \<^verbatim>\<open>int\<close>
  is what \<^verbatim>\<open>atoi\<close> leaves undefined.
\<close>

definition parse_uri :: "string \<Rightarrow> (string \<times> string \<times> int) option" where
  "parse_uri uri =
    (let hostbegin = (if starts_with uri ''http://'' then drop 7 uri
                      else if starts_with uri ''https:/'' then drop 8 uri else uri);
         hostend = dropWhile (\<lambda>c. \<not> host_delim c) hostbegin in
     if hostend = [] then None
     else let hostname = takeWhile (\<lambda>c. \<not> host_delim c) hostbegin;
              port = (if hd hostend = CHR '':'' then atoi (tl hostend) else 80);
              pathbegin = dropWhile (\<lambda>c. c \<noteq> CHR ''/'') hostbegin;
              pathname = (if pathbegin = [] then [] else tl pathbegin) in
          Some (hostname, pathname, port))"

section \<open>Forwarding the request\<close>

datatype proxy_stop = Exited | Crashed

text \<open>
  The loop over the header lines; \<open>None\<close> is a loop that never ends.
\<close>

partial_function (option) fwd_headers :: "string \<Rightarrow> rio \<Rightarrow> source \<Rightarrow> outlet
    \<Rightarrow> (proxy_stop + (string \<times> rio \<times> source \<times> outlet)) option" where
  [code]: "fwd_headers buf rp s t =
    (case Rio_readlineb MAXLINE_PROXY buf rp s of
       None \<Rightarrow> Some (Inl Exited)
     | Some (byte_read, buf1, rp1, s1) \<Rightarrow>
         if cstr buf1 = CRLF then Some (Inr (buf1, rp1, s1, t))
         else case Rio_writen (take (nat byte_read) buf1) t of
           None \<Rightarrow> Some (Inl Exited)
         | Some t1 \<Rightarrow> fwd_headers buf1 rp1 s1 t1)"

text \<open>
  \<^verbatim>\<open>sscanf(buf, "%s %s %s", _, uri, _)\<close> stores the second word, if there is one; \<open>uri0\<close> is what
  the array held.
\<close>

definition scan_uri :: "string \<Rightarrow> string \<Rightarrow> string" where
  "scan_uri uri0 s = (case scan_word s of None \<Rightarrow> uri0
     | Some (w, t) \<Rightarrow> (case scan_word t of None \<Rightarrow> uri0 | Some (u, t1) \<Rightarrow> u))"

text \<open>
  \<open>open_fd\<close> stands for \<^verbatim>\<open>Open_clientfd\<close>, which resolves the name and connects; without a
  connection it ends the program. \<open>buf0\<close>, \<open>uri0\<close> and \<open>rio0\<close> are the local arrays at entry.
\<close>

definition rcvd_forward_request :: "(string \<Rightarrow> int \<Rightarrow> (source \<times> outlet) option) \<Rightarrow> string \<Rightarrow> string \<Rightarrow> rio
    \<Rightarrow> source \<Rightarrow> (proxy_stop + (string \<times> source \<times> source \<times> outlet)) option" where
  "rcvd_forward_request open_fd buf0 uri0 rio0 server_fd =
    (case Rio_readlineb MAXLINE_PROXY buf0 (rio_readinitb rio0) server_fd of
       None \<Rightarrow> Some (Inl Exited)
     | Some (n, buf, rp, s) \<Rightarrow>
       let uri = scan_uri uri0 (cstr buf) in
       case parse_uri uri of None \<Rightarrow> Some (Inl Crashed) | Some (hostname, path, port) \<Rightarrow>
       case open_fd hostname port of None \<Rightarrow> Some (Inl Exited) | Some (c, t) \<Rightarrow>
       case Rio_writen (take MAXLINE_PROXY buf) t of None \<Rightarrow> Some (Inl Exited) | Some t1 \<Rightarrow>
       case fwd_headers buf rp s t1 of
         None \<Rightarrow> None
       | Some (Inl e) \<Rightarrow> Some (Inl e)
       | Some (Inr (buf2, rp2, s2, t2)) \<Rightarrow>
           (case Rio_writen CRLF t2 of None \<Rightarrow> Some (Inl Exited)
            | Some t3 \<Rightarrow> Some (Inr (uri, s2, c, t3))))"

section \<open>Forwarding the reply\<close>

partial_function (option) reply_loop :: "32 word \<Rightarrow> source \<Rightarrow> outlet
    \<Rightarrow> (proxy_stop + (32 word \<times> source \<times> outlet)) option" where
  [code]: "reply_loop total_bytes c t =
    (case rio_readn MAXLINE_PROXY c of (byte_read, bs, c1) \<Rightarrow>
     if 0 < byte_read then
       (case Rio_writen bs t of
          None \<Rightarrow> Some (Inl Exited)
        | Some t1 \<Rightarrow> reply_loop (total_bytes + of_int byte_read) c1 t1)
     else Some (Inr (total_bytes, c1, t)))"

text \<open>The closing line goes to \<^verbatim>\<open>client_fd\<close>, the connection to the origin server.\<close>

definition rcvd_forward_reply :: "source \<Rightarrow> outlet \<Rightarrow> outlet \<Rightarrow> (proxy_stop + (32 word \<times> outlet \<times> outlet)) option" where
  "rcvd_forward_reply client_fd client_out server_fd =
    (case reply_loop 0 client_fd server_fd of
       None \<Rightarrow> None
     | Some (Inl e) \<Rightarrow> Some (Inl e)
     | Some (Inr (total_bytes, c, t)) \<Rightarrow>
         (case Rio_writen CRLF client_out of None \<Rightarrow> Some (Inl Exited)
          | Some u \<Rightarrow> Some (Inr (total_bytes, u, t))))"

section \<open>The log\<close>

text \<open>\<^verbatim>\<open>ntohl\<close> on a little-endian machine.\<close>

definition ntohl :: "32 word \<Rightarrow> 32 word" where
  "ntohl x = push_bit 24 (x AND 0xFF) OR push_bit 8 (x AND 0xFF00) OR drop_bit 8 (x AND 0xFF0000) OR drop_bit 24 x"

definition byte_of :: "nat \<Rightarrow> 32 word \<Rightarrow> int" where
  "byte_of n host = uint (drop_bit n host AND 0xFF)"

text \<open>The text that \<^verbatim>\<open>sprintf\<close> writes; the array behind \<^verbatim>\<open>logstring\<close> has \<^verbatim>\<open>MAXLINE\<close> bytes, which is not tested.\<close>

definition log_text :: "string \<Rightarrow> 32 word \<Rightarrow> string \<Rightarrow> string" where
  "log_text time_str s_addr uri =
    (let host = ntohl s_addr in
     time_str @ '': '' @ dec (byte_of 24 host) @ ''.'' @ dec (byte_of 16 host) @ ''.''
       @ dec (byte_of 8 host) @ ''.'' @ dec (byte_of 0 host) @ '' '' @ uri)"

definition format_log_entry :: "string \<Rightarrow> 32 word \<Rightarrow> string \<Rightarrow> 32 word \<Rightarrow> string option" where
  "format_log_entry time_str s_addr uri sz =
    (let logstring = log_text time_str s_addr uri in
     if MAXLINE_PROXY \<le> length logstring then None else Some logstring)"

section \<open>A connection\<close>

text \<open>
  \<^verbatim>\<open>http_thread\<close>: the browser's connection is \<open>server_in\<close> and \<open>server_out\<close>. The result has what
  was sent to the origin server and to the browser, and the line added to the log; a log entry
  that does not fit into its array is a crash. The semaphores around the log and the locking are left out.
\<close>

definition http_thread :: "(string \<Rightarrow> int \<Rightarrow> (source \<times> outlet) option) \<Rightarrow> string \<Rightarrow> string \<Rightarrow> rio \<Rightarrow> string \<Rightarrow> 32 word
    \<Rightarrow> source \<Rightarrow> outlet \<Rightarrow> (proxy_stop + (outlet \<times> outlet \<times> string)) option" where
  "http_thread open_fd buf0 uri0 rio0 time_str s_addr server_in server_out =
    (case rcvd_forward_request open_fd buf0 uri0 rio0 server_in of
       None \<Rightarrow> None
     | Some (Inl e) \<Rightarrow> Some (Inl e)
     | Some (Inr (uri, s, c, u)) \<Rightarrow>
       (case rcvd_forward_reply c u server_out of
          None \<Rightarrow> None
        | Some (Inl e) \<Rightarrow> Some (Inl e)
        | Some (Inr (tb, u1, t)) \<Rightarrow>
            (case format_log_entry time_str s_addr uri tb of
               None \<Rightarrow> Some (Inl Crashed)
             | Some logstring \<Rightarrow> Some (Inr (u1, t, logstring @ [line_end])))))"

end
