(* ===== verification/Rio_Props.thy ===== *)
theory Rio_Props
  imports Rio
begin

text \<open>
  What the robust I/O routines transfer. The two reading loops share one contract, stated as a
  locale and interpreted on the system's \<^verbatim>\<open>read\<close> and on the buffered \<^verbatim>\<open>rio_read\<close>.
\<close>

section \<open>The reading loop\<close>

locale retrying_reader =
  fixes rd :: "nat \<Rightarrow> 's \<Rightarrow> int \<times> string \<times> 's"
    and retry :: "'s \<Rightarrow> bool"
    and rest :: "'s \<Rightarrow> string"
    and ok :: "'s \<Rightarrow> bool"
    and tries :: "'s \<Rightarrow> nat"
    and loop :: "nat \<Rightarrow> nat \<Rightarrow> string \<Rightarrow> 's \<Rightarrow> int \<times> string \<times> 's"
  assumes loop_eq: "loop n k acc s =
      (if k = 0 then (int n - int k, acc, s)
       else case rd k s of (r, bs, s1) \<Rightarrow>
         if r < 0 then if retry s1 then loop n k acc s1 else (- 1, acc, s1)
         else if r = 0 then (int n - int k, acc, s1)
         else loop n (k - nat r) (acc @ bs) s1)"
    and rd_ok: "ok s \<Longrightarrow> 0 < k \<Longrightarrow> rd k s = (r, bs, s1) \<Longrightarrow> ok s1"
    and rd_retry: "ok s \<Longrightarrow> 0 < k \<Longrightarrow> rd k s = (r, bs, s1) \<Longrightarrow> r < 0
      \<Longrightarrow> retry s1 \<and> rest s1 = rest s \<and> tries s1 < tries s"
    and rd_data: "ok s \<Longrightarrow> 0 < k \<Longrightarrow> rd k s = (r, bs, s1) \<Longrightarrow> 0 \<le> r
      \<Longrightarrow> r = int (length bs) \<and> length bs \<le> k \<and> rest s = bs @ rest s1 \<and> (bs = [] \<longrightarrow> rest s = [])
          \<and> tries s1 \<le> tries s"
begin

lemma loop_reads:
  assumes "ok s"
  shows "\<exists>s'. loop n k acc s = (int n - int (k - length (rest s)), acc @ take k (rest s), s')
     \<and> ok s' \<and> rest s' = drop k (rest s)"
  using assms
proof (induction "length (rest s) + tries s" arbitrary: k acc s rule: less_induct)
  case less
  show ?case
  proof (cases "k = 0")
    case True
    then show ?thesis using less(2) by (subst loop_eq) simp
  next
    case k: False
    obtain r bs s1 where rd: "rd k s = (r, bs, s1)" by (cases "rd k s") auto
    note ok1 = rd_ok[OF less(2) _ rd]
    consider "r < 0" | "r = 0" | "0 < r" by linarith
    then show ?thesis
    proof cases
      case 1
      then have r: "retry s1" "rest s1 = rest s" "tries s1 < tries s"
        using rd_retry[OF less(2) _ rd] k by simp_all
      moreover have "loop n k acc s = loop n k acc s1"
        using trans[OF loop_eq[of n k acc s]] rd k 1 r(1) by simp
      ultimately show ?thesis using less(1)[of s1 k acc] ok1 k by simp
    next
      case 2
      then have "rest s = []" "rest s1 = []" "bs = []"
        using rd_data[OF less(2) _ rd] k by auto
      moreover have "loop n k acc s = (int n - int k, acc, s1)" using trans[OF loop_eq[of n k acc s]] rd k 2 by simp
      ultimately show ?thesis using ok1 k by simp
    next
      case 3
      then have b: "r = int (length bs)" "length bs \<le> k" "rest s = bs @ rest s1" "bs \<noteq> []" "tries s1 \<le> tries s"
        using rd_data[OF less(2) _ rd] k by auto
      have "loop n k acc s = loop n (k - length bs) (acc @ bs) s1"
        using trans[OF loop_eq[of n k acc s]] rd k b 3 by simp
      moreover have "length (rest s1) + tries s1 < length (rest s) + tries s" using b by (cases bs) auto
      ultimately show ?thesis
        using less(1)[of s1 "k - length bs" "acc @ bs"] ok1 k b(2,3) by auto
    qed
  qed
qed

end

section \<open>Calm descriptors\<close>

text \<open>
  A descriptor is calm when its calls may be short and interrupted by signals but do not
  fail otherwise.
\<close>

definition calm :: "call_outcome \<Rightarrow> bool" where
  "calm x = (case x of Give k \<Rightarrow> True | Fail e \<Rightarrow> e = EINTR)"

definition calm_source :: "source \<Rightarrow> bool" where
  "calm_source s \<longleftrightarrow> list_all calm (src_script s)"

lemma sys_read_calm:
  assumes "calm_source s" "sys_read k s = (r, bs, s1)" "0 < k"
  shows "calm_source s1"
    "r < 0 \<Longrightarrow> src_errno s1 = EINTR \<and> src_data s1 = src_data s \<and> length (src_script s1) < length (src_script s)"
    "0 \<le> r \<Longrightarrow> r = int (length bs) \<and> length bs \<le> k \<and> src_data s = bs @ src_data s1
       \<and> (bs = [] \<longrightarrow> src_data s = []) \<and> length (src_script s1) \<le> length (src_script s)"
  using assms
  by (auto simp: calm_source_def calm_def sys_read_def deliver_def min_def
      split: list.splits call_outcome.splits if_splits)

interpretation unbuffered: retrying_reader sys_read "\<lambda>s. src_errno s = EINTR" src_data calm_source
  "\<lambda>s. length (src_script s)" readn_loop
proof
  show "readn_loop n k acc s =
      (if k = 0 then (int n - int k, acc, s)
       else case sys_read k s of (r, bs, s1) \<Rightarrow>
         if r < 0 then if src_errno s1 = EINTR then readn_loop n k acc s1 else (- 1, acc, s1)
         else if r = 0 then (int n - int k, acc, s1)
         else readn_loop n (k - nat r) (acc @ bs) s1)" for n k acc s
    by (subst readn_loop.simps) simp
qed (use sys_read_calm in blast)+

section \<open>The buffer\<close>

text \<open>
  The abstraction of a buffer with its descriptor: the bytes still to be read, in order.
\<close>

definition unread :: "rio \<Rightarrow> string" where
  "unread rp = (if rio_cnt rp \<le> 0 then [] else take (nat (rio_cnt rp)) (drop (rio_bufptr rp) (rio_buf rp)))"

definition incoming :: "rio \<times> source \<Rightarrow> string" where
  "incoming x = unread (fst x) @ src_data (snd x)"

definition rio_ok :: "rio \<times> source \<Rightarrow> bool" where
  "rio_ok x \<longleftrightarrow> calm_source (snd x) \<and> length (rio_buf (fst x)) = RIO_BUFSIZE
     \<and> (0 < rio_cnt (fst x) \<longrightarrow> rio_bufptr (fst x) + nat (rio_cnt (fst x)) \<le> RIO_BUFSIZE)"

lemma rio_fill_ok:
  "rio_ok (rp, s) \<Longrightarrow> rio_fill rp s = (r, rp', s') \<Longrightarrow>
   rio_ok (rp', s') \<and> incoming (rp', s') = incoming (rp, s) \<and> (r = 0 \<and> incoming (rp, s) = [] \<or> r = 1 \<and> 0 < rio_cnt rp')"
proof (induction rp s arbitrary: r rp' s' rule: rio_fill.induct)
  case (1 rp s)
  show ?case
  proof (cases "0 < rio_cnt rp")
    case True
    then show ?thesis using 1(2,3) by (subst (asm) rio_fill.simps) simp
  next
    case False
    obtain k bs s1 where k: "sys_read RIO_BUFSIZE s = (k, bs, s1)" by (cases "sys_read RIO_BUFSIZE s") auto
    have calm: "calm_source s" using 1(2) by (simp add: rio_ok_def)
    have n: "0 < RIO_BUFSIZE" by (simp add: RIO_BUFSIZE_def)
    note k' = sys_read_calm[OF calm k n]
    let ?rp1 = "rp\<lparr>rio_cnt := k, rio_buf := bs @ drop (length bs) (rio_buf rp)\<rparr>"
    show ?thesis
    proof (cases "k < 0")
      case True
      have "bs = []" using k True by (auto simp: sys_read_def deliver_def split: list.splits call_outcome.splits)
      then have "rio_ok (?rp1, s1)" "incoming (?rp1, s1) = incoming (rp, s)"
        using 1(2) False True k' by (auto simp: rio_ok_def incoming_def unread_def)
      moreover have "rio_fill ?rp1 s1 = (r, rp', s')"
        using trans[OF rio_fill.simps[of rp s, symmetric] 1(3)] False True k k'(2)[OF True] by (simp add: Let_def)
      ultimately show ?thesis using 1(1)[OF False refl k[symmetric] refl refl True] k'(2)[OF True]
        by simp
    next
      case nt: False
      then have d: "k = int (length bs)" "length bs \<le> RIO_BUFSIZE" "src_data s = bs @ src_data s1"
        "bs = [] \<longrightarrow> src_data s = []" using k'(3)[OF leI[OF nt]] by blast+
      have e: "rio_fill rp s = (if k = 0 then (0, ?rp1, s1) else (1, ?rp1\<lparr>rio_bufptr := 0\<rparr>, s1))"
        using False k nt by (subst rio_fill.simps) (simp add: Let_def)
      show ?thesis
      proof (cases "bs = []")
        case True
        then show ?thesis using 1(2,3) d e False k'(1) by (auto simp: rio_ok_def incoming_def unread_def)
      next
        case b: False
        then have "r = 1" "rp' = ?rp1\<lparr>rio_bufptr := 0\<rparr>" "s' = s1" using 1(3) d(1) e by simp_all
        then show ?thesis using 1(2) d b False k'(1) by (simp add: rio_ok_def incoming_def unread_def)
      qed
    qed
  qed
qed

lemma rio_read_ok:
  assumes "rio_ok (rp, s)" "0 < n" "rio_read n rp s = (r, bs, rp', s')"
  shows "rio_ok (rp', s')" "r = int (length bs)" "length bs \<le> n" "incoming (rp, s) = bs @ incoming (rp', s')"
    "bs = [] \<longrightarrow> incoming (rp, s) = []"
proof -
  obtain k rp1 s1 where f: "rio_fill rp s = (k, rp1, s1)" by (cases "rio_fill rp s") auto
  note F = rio_fill_ok[OF assms(1) f]
  have "rio_ok (rp', s') \<and> r = int (length bs) \<and> length bs \<le> n \<and> incoming (rp, s) = bs @ incoming (rp', s')
    \<and> (bs = [] \<longrightarrow> incoming (rp, s) = [])"
  proof (cases "k = 1")
    case False
    then show ?thesis using F assms(3) f by (auto simp: rio_read_def)
  next
    case True
    define c where "c = (if rio_cnt rp1 < int n then nat (rio_cnt rp1) else n)"
    have pos: "0 < rio_cnt rp1" and ok1: "rio_ok (rp1, s1)" and inc: "incoming (rp, s) = incoming (rp1, s1)"
      using F True by auto
    have c: "0 < c" "c \<le> n" "c \<le> nat (rio_cnt rp1)" using pos assms(2) by (auto simp: c_def)
    have r: "r = int c" "bs = take c (drop (rio_bufptr rp1) (rio_buf rp1))" "s' = s1"
      "rp' = rp1\<lparr>rio_bufptr := rio_bufptr rp1 + c, rio_cnt := rio_cnt rp1 - int c\<rparr>"
      using assms(3)[unfolded rio_read_def f Let_def prod.case, folded c_def] True by auto
    have l: "rio_bufptr rp1 + nat (rio_cnt rp1) \<le> length (rio_buf rp1)" using ok1 pos by (simp add: rio_ok_def)
    then have lb: "length bs = c" using c(3) r(2) by simp
    have "nat (rio_cnt rp1) = c + nat (rio_cnt rp1 - int c)" using c(3) by simp
    then have t: "take (nat (rio_cnt rp1)) X = take c X @ take (nat (rio_cnt rp1 - int c)) (drop c X)" for X :: string
      by (simp add: take_add)
    have "unread rp1 = bs @ unread rp'"
      unfolding unread_def r(2,4) using pos c t[of "drop (rio_bufptr rp1) (rio_buf rp1)"]
      by (auto simp: drop_drop add.commute[of c])
    then show ?thesis using inc ok1 lb r c l by (auto simp: incoming_def rio_ok_def)
  qed
  then show "rio_ok (rp', s')" "r = int (length bs)" "length bs \<le> n" "incoming (rp, s) = bs @ incoming (rp', s')"
    "bs = [] \<longrightarrow> incoming (rp, s) = []" by blast+
qed

interpretation buffered: retrying_reader "\<lambda>k (rp, s). rio_read k rp s" "\<lambda>(rp, s). src_errno s = EINTR"
  incoming rio_ok "\<lambda>(rp, s). length (src_script s)" "\<lambda>n k acc (rp, s). readnb_loop n k acc rp s"
proof
  fix n k acc and x :: "rio \<times> source" and r bs and y :: "rio \<times> source"
  obtain rp s where x: "x = (rp, s)" by fastforce
  obtain rp1 s1 where y: "y = (rp1, s1)" by fastforce
  show "(\<lambda>(rp, s). readnb_loop n k acc rp s) x =
      (if k = 0 then (int n - int k, acc, x)
       else case (\<lambda>(rp, s). rio_read k rp s) x of (r, bs, s1) \<Rightarrow>
         if r < 0 then if (\<lambda>(rp, s). src_errno s = EINTR) s1 then (\<lambda>(rp, s). readnb_loop n k acc rp s) s1
           else (- 1, acc, s1)
         else if r = 0 then (int n - int k, acc, s1)
         else (\<lambda>(rp, s). readnb_loop n (k - nat r) (acc @ bs) rp s) s1)"
    unfolding x prod.case by (subst readnb_loop.simps) (simp split: prod.splits)
  assume a: "rio_ok x" "0 < k" "(\<lambda>(rp, s). rio_read k rp s) x = (r, bs, y)"
  then have rd: "rio_read k rp s = (r, bs, rp1, s1)" and ok: "rio_ok (rp, s)" by (simp_all add: x y)
  note R = rio_read_ok[OF ok a(2) rd]
  show "rio_ok y" using R(1) by (simp add: y)
  show "(case y of (rp, s) \<Rightarrow> src_errno s = EINTR) \<and> incoming y = incoming x
      \<and> (case y of (rp, s) \<Rightarrow> length (src_script s)) < (case x of (rp, s) \<Rightarrow> length (src_script s))" if "r < 0"
    using R(2) that by simp
  show "r = int (length bs) \<and> length bs \<le> k \<and> incoming x = bs @ incoming y \<and> (bs = [] \<longrightarrow> incoming x = [])
      \<and> (case y of (rp, s) \<Rightarrow> length (src_script s)) \<le> (case x of (rp, s) \<Rightarrow> length (src_script s))" if "0 \<le> r"
    using R rio_read_script(1)[OF rd a(2)] by (simp add: x y)
qed

section \<open>Lines\<close>

text \<open>The first line of a text, with its newline when it has one.\<close>

fun first_line :: "string \<Rightarrow> string" where
  "first_line [] = []"
| "first_line (c # cs) = (if c = line_end then [c] else c # first_line cs)"

definition next_line :: "nat \<Rightarrow> string \<Rightarrow> string" where
  "next_line maxlen xs = take (maxlen - 1) (first_line xs)"

text \<open>
  The value \<^verbatim>\<open>rio_readlineb\<close> returns for a line: its length when it ends with a newline, one
  more when it was cut by the end of the data or by \<^verbatim>\<open>maxlen\<close>.
\<close>

definition line_result :: "string \<Rightarrow> int" where
  "line_result l = (if l \<noteq> [] \<and> last l = line_end then int (length l) else int (length l) + 1)"

text \<open>The user's buffer with a string stored from offset \<open>i\<close> on.\<close>

definition overwrite :: "nat \<Rightarrow> string \<Rightarrow> string \<Rightarrow> string" where
  "overwrite i xs buf = take i buf @ xs @ drop (i + length xs) buf"

lemma overwrite_Cons:
  "i < length buf \<Longrightarrow> overwrite i (c # xs) buf = overwrite (Suc i) xs (buf[i := c])"
  by (simp add: overwrite_def take_Suc_conv_app_nth)

lemma overwrite_Nil [simp]: "overwrite i [] buf = buf"
  by (simp add: overwrite_def)

lemma overwrite_one: "i < length buf \<Longrightarrow> overwrite i [c] buf = buf[i := c]"
  by (simp add: overwrite_def upd_conv_take_nth_drop)

lemma line_result_Cons: "c \<noteq> line_end \<Longrightarrow> line_result (c # l) = line_result l + 1"
  by (simp add: line_result_def)

lemma readline_loop_ok:
  assumes "rio_ok (rp, s)" "0 < n" "n + k \<le> length buf"
  shows "\<exists>rp' s'. rio_ok (rp', s') \<and>
    (let xs = incoming (rp, s); l = take k (first_line xs); eof = (n = 1 \<and> 0 < k \<and> xs = []) in
      incoming (rp', s') = drop (length l) xs \<and>
      readline_loop k n buf rp s =
        (if eof then 0 else int (n - 1) + line_result l,
         if eof then buf else overwrite (n - 1) (l @ [NUL]) buf, rp', s'))"
  using assms
proof (induction k arbitrary: n buf rp s)
  case 0
  then show ?case
    by (intro exI[of _ rp] exI[of _ s]) (auto simp: line_result_def overwrite_one)
next
  case (Suc k)
  let ?xs = "incoming (rp, s)"
  obtain r cs rp1 s1 where rd: "rio_read 1 rp s = (r, cs, rp1, s1)" by (cases "rio_read 1 rp s") auto
  note R = rio_read_ok[OF Suc.prems(1) _ rd]
  show ?case
  proof (cases ?xs)
    case Nil
    then have "r = 0" "incoming (rp1, s1) = []" using R by auto
    then show ?thesis using rd Nil R(1) Suc.prems
      by (intro exI[of _ rp1] exI[of _ s1]) (auto simp: line_result_def overwrite_one)
  next
    case (Cons c rest)
    then obtain "cs = [c]" "r = 1" and inc: "incoming (rp1, s1) = rest"
      using R by (cases cs) auto
    note cs = this(1,2)
    have i: "n - 1 < length buf" "n < length buf" "Suc (n - 1) = n" using Suc.prems by simp_all
    show ?thesis
    proof (cases "c = line_end")
      case True
      then show ?thesis using rd cs inc Cons R(1) i
        by (intro exI[of _ rp1] exI[of _ s1])
           (simp add: line_result_def overwrite_Cons overwrite_one)
    next
      case False
      obtain rp' s' where "rio_ok (rp', s')"
        "incoming (rp', s') = drop (length (take k (first_line rest))) rest"
        "readline_loop k (n + 1) (buf[n - 1 := c]) rp1 s1 =
          (int n + line_result (take k (first_line rest)),
           overwrite n (take k (first_line rest) @ [NUL]) (buf[n - 1 := c]), rp', s')"
        using Suc.IH[of rp1 s1 "n + 1" "buf[n - 1 := c]"] R(1) Suc.prems inc by (auto simp: Let_def)
      then show ?thesis using rd cs inc Cons False i
        by (intro exI[of _ rp'] exI[of _ s'])
           (simp add: line_result_Cons overwrite_Cons[of "n - Suc 0"])
    qed
  qed
qed

lemma rio_readlineb_ok:
  assumes "rio_ok (rp, s)" "1 < maxlen" "maxlen \<le> length buf" and l: "l = next_line maxlen (incoming (rp, s))"
  shows "\<exists>rp' s'. rio_ok (rp', s') \<and> incoming (rp', s') = drop (length l) (incoming (rp, s)) \<and>
    rio_readlineb maxlen buf rp s =
      (if incoming (rp, s) = [] then (0, buf, rp', s') else (line_result l, overwrite 0 (l @ [NUL]) buf, rp', s'))"
proof -
  obtain rp' s' where *: "rio_ok (rp', s')" "incoming (rp', s') = drop (length l) (incoming (rp, s))"
    "rio_readlineb maxlen buf rp s =
      (if incoming (rp, s) = [] then 0 else line_result l,
       if incoming (rp, s) = [] then buf else overwrite 0 (l @ [NUL]) buf, rp', s')"
    using readline_loop_ok[OF assms(1), of 1 "maxlen - 1" buf] assms(2,3)
    by (auto simp: rio_readlineb_def Let_def l next_line_def)
  show ?thesis by (intro exI[of _ rp'] exI[of _ s']) (simp add: *)
qed

section \<open>Writing\<close>

definition calm_write :: "call_outcome \<Rightarrow> bool" where
  "calm_write x = (case x of Give k \<Rightarrow> 0 < k | Fail e \<Rightarrow> e = EINTR)"

definition calm_sink :: "outlet \<Rightarrow> bool" where
  "calm_sink t \<longleftrightarrow> list_all calm_write (snk_script t)"

lemma writen_loop_ok:
  "calm_sink t \<Longrightarrow> \<exists>t'. writen_loop bs t = (True, t') \<and> calm_sink t' \<and> snk_data t' = snk_data t @ bs"
proof (induction bs t rule: writen_loop.induct)
  case (1 bs t)
  show ?case
  proof (cases "bs = []")
    case True
    then show ?thesis using 1(3) by (subst writen_loop.simps) simp
  next
    case b: False
    obtain k t1 where k: "sys_write bs t = (k, t1)" by fastforce
    have t1: "calm_sink t1" "k \<le> 0 \<Longrightarrow> snk_errno t1 = EINTR \<and> snk_data t1 = snk_data t"
      "0 < k \<Longrightarrow> snk_data t1 = snk_data t @ take (nat k) bs"
      using 1(3) k b
      by (auto simp: sys_write_def accept_bytes_def calm_sink_def calm_write_def min_def
          split: list.splits call_outcome.splits if_splits)
    show ?thesis
    proof (cases "k \<le> 0")
      case True
      have "writen_loop bs t = writen_loop bs t1"
        using trans[OF writen_loop.simps[of bs t]] b k True t1(2) by simp
      then show ?thesis using 1(1)[OF b k[symmetric] refl True] t1 True by simp
    next
      case False
      have "writen_loop bs t = writen_loop (drop (nat k) bs) t1"
        using trans[OF writen_loop.simps[of bs t]] b k False by simp
      then show ?thesis using 1(2)[OF b k[symmetric] refl False] t1 False by simp
    qed
  qed
qed

lemma Rio_writen_ok:
  "calm_sink t \<Longrightarrow> \<exists>t'. Rio_writen bs t = Some t' \<and> calm_sink t' \<and> snk_data t' = snk_data t @ bs"
  using writen_loop_ok[of t bs] by (auto simp: Rio_writen_def rio_writen_def)

end
