(* ===== verification/Proxy_Props.thy ===== *)
theory Proxy_Props
  imports Proxy Rio_Props
begin

text \<open>
  The proxy lab: what the I/O routines transfer, which loops of the proxy end, and what a
  connection sends where.
\<close>

section \<open>Lines of a request\<close>

definition proper_line :: "string \<Rightarrow> bool" where
  "proper_line h \<longleftrightarrow> h \<noteq> [] \<and> last h = line_end \<and> line_end \<notin> set (butlast h) \<and> NUL \<notin> set h
     \<and> length h < MAXLINE_PROXY"

lemma first_line_proper:
  "h \<noteq> [] \<Longrightarrow> last h = line_end \<Longrightarrow> line_end \<notin> set (butlast h) \<Longrightarrow> first_line (h @ xs) = h"
  by (induction h) (auto split: if_splits)

lemma next_line_proper: "proper_line h \<Longrightarrow> next_line MAXLINE_PROXY (h @ xs) = h"
  by (auto simp: next_line_def proper_line_def first_line_proper)

lemma takeWhile_NUL: "NUL \<notin> set h \<Longrightarrow> takeWhile (\<lambda>c. c \<noteq> NUL) (h @ NUL # xs) = h"
  by (induction h) auto

lemma cstr_overwrite: "NUL \<notin> set h \<Longrightarrow> cstr (overwrite 0 (h @ [NUL]) buf) = h"
  by (simp add: cstr_def overwrite_def takeWhile_NUL)

lemma length_overwrite: "i + length xs \<le> length buf \<Longrightarrow> length (overwrite i xs buf) = length buf"
  by (simp add: overwrite_def)

lemma read_proper_line:
  assumes "rio_ok (rp, s)" "incoming (rp, s) = h @ xs" "proper_line h" "length buf = MAXLINE_PROXY"
  shows "\<exists>rp' s'. rio_ok (rp', s') \<and> incoming (rp', s') = xs \<and>
    Rio_readlineb MAXLINE_PROXY buf rp s = Some (int (length h), overwrite 0 (h @ [NUL]) buf, rp', s')"
proof -
  have "1 < MAXLINE_PROXY" by (simp add: MAXLINE_PROXY_def)
  moreover have "line_result h = int (length h)" using assms(3) by (simp add: line_result_def proper_line_def)
  ultimately show ?thesis
    using rio_readlineb_ok[OF assms(1) _ _ refl, of MAXLINE_PROXY buf] next_line_proper[OF assms(3)] assms
    by (auto simp: Rio_readlineb_def proper_line_def)
qed

lemma proper_line_buffer:
  assumes "proper_line h" "length buf = MAXLINE_PROXY"
  shows "length (overwrite 0 (h @ [NUL]) buf) = MAXLINE_PROXY" "cstr (overwrite 0 (h @ [NUL]) buf) = h"
    "take (length h) (overwrite 0 (h @ [NUL]) buf) = h"
  using assms by (simp_all add: proper_line_def length_overwrite cstr_overwrite) (simp add: overwrite_def)

lemma CRLF_proper: "proper_line CRLF"
  by (simp add: proper_line_def CRLF_def MAXLINE_PROXY_def)

section \<open>The loop over the header lines\<close>

lemma fwd_headers_lines:
  "rio_ok (rp, s) \<Longrightarrow> calm_sink t \<Longrightarrow> length buf = MAXLINE_PROXY \<Longrightarrow> list_all proper_line hs \<Longrightarrow> CRLF \<notin> set hs
   \<Longrightarrow> incoming (rp, s) = concat hs @ xs \<Longrightarrow>
   \<exists>buf' rp' s' t'. fwd_headers buf rp s t = fwd_headers buf' rp' s' t' \<and> rio_ok (rp', s') \<and> calm_sink t'
     \<and> length buf' = MAXLINE_PROXY \<and> incoming (rp', s') = xs \<and> snk_data t' = snk_data t @ concat hs
     \<and> cstr buf' = (if hs = [] then cstr buf else last hs)"
proof (induction hs arbitrary: buf rp s t)
  case Nil
  then show ?case by (intro exI[of _ buf] exI[of _ rp] exI[of _ s] exI[of _ t]) simp
next
  case (Cons h hs)
  have h: "proper_line h" "h \<noteq> CRLF" using Cons.prems by auto
  let ?buf1 = "overwrite 0 (h @ [NUL]) buf"
  obtain rp1 s1 where 1: "rio_ok (rp1, s1)" "incoming (rp1, s1) = concat hs @ xs"
    "Rio_readlineb MAXLINE_PROXY buf rp s = Some (int (length h), ?buf1, rp1, s1)"
    using read_proper_line[OF Cons.prems(1) _ h(1) Cons.prems(3), of "concat hs @ xs"] Cons.prems(6) by auto
  note b = proper_line_buffer[OF h(1) Cons.prems(3)]
  obtain t1 where t1: "Rio_writen h t = Some t1" "calm_sink t1" "snk_data t1 = snk_data t @ h"
    using Rio_writen_ok[OF Cons.prems(2)] by blast
  have "fwd_headers buf rp s t = fwd_headers ?buf1 rp1 s1 t1"
    using 1(3) b(2,3) h(2) t1(1) by (subst fwd_headers.simps) simp
  then show ?case
    using Cons.IH[OF 1(1) t1(2) b(1) _ _ 1(2)] Cons.prems(4,5) b(2) t1(3) by fastforce
qed

lemma fwd_headers_blank:
  assumes "rio_ok (rp, s)" "length buf = MAXLINE_PROXY" "incoming (rp, s) = CRLF @ xs"
  shows "\<exists>buf' rp' s'. fwd_headers buf rp s t = Some (Inr (buf', rp', s', t))"
proof -
  obtain rp1 s1 where "Rio_readlineb MAXLINE_PROXY buf rp s = Some (int (length CRLF), overwrite 0 (CRLF @ [NUL]) buf, rp1, s1)"
    using read_proper_line[OF assms(1,3) CRLF_proper assms(2)] by auto
  then show ?thesis using proper_line_buffer(2)[OF CRLF_proper assms(2)] by (subst fwd_headers.simps) simp
qed

lemma fwd_headers_eof_step:
  assumes "rio_ok (rp, s)" "length buf = MAXLINE_PROXY" "incoming (rp, s) = []"
  shows "\<exists>rp' s'. Rio_readlineb MAXLINE_PROXY buf rp s = Some (0, buf, rp', s') \<and> rio_ok (rp', s') \<and> incoming (rp', s') = []"
  using rio_readlineb_ok[OF assms(1) _ _ refl, of MAXLINE_PROXY buf] assms
  by (auto simp: Rio_readlineb_def MAXLINE_PROXY_def)

lemma fwd_headers_eof:
  assumes "rio_ok (rp, s)" "length buf = MAXLINE_PROXY" "incoming (rp, s) = []" "cstr buf \<noteq> CRLF"
  shows "fwd_headers buf rp s t = None"
proof (rule ccontr)
  assume "fwd_headers buf rp s t \<noteq> None"
  then obtain y where y: "fwd_headers buf rp s t = Some y" by blast
  have "\<not> (rio_ok (rp, s) \<and> length buf = MAXLINE_PROXY \<and> incoming (rp, s) = [] \<and> cstr buf \<noteq> CRLF)"
  proof (rule fwd_headers.raw_induct[OF _ y])
    fix f buf rp s t y
    assume IH: "\<And>buf rp s t y. f buf rp s t = Some y \<Longrightarrow>
        \<not> (rio_ok (rp, s) \<and> length buf = MAXLINE_PROXY \<and> incoming (rp, s) = [] \<and> cstr buf \<noteq> CRLF)"
      and body: "(case Rio_readlineb MAXLINE_PROXY buf rp s of
         None \<Rightarrow> Some (Inl Exited)
       | Some (byte_read, buf1, rp1, s1) \<Rightarrow>
           if cstr buf1 = CRLF then Some (Inr (buf1, rp1, s1, t))
           else case Rio_writen (take (nat byte_read) buf1) t of
             None \<Rightarrow> Some (Inl Exited)
           | Some t1 \<Rightarrow> f buf1 rp1 s1 t1) = Some y"
    show "\<not> (rio_ok (rp, s) \<and> length buf = MAXLINE_PROXY \<and> incoming (rp, s) = [] \<and> cstr buf \<noteq> CRLF)"
    proof
      assume a: "rio_ok (rp, s) \<and> length buf = MAXLINE_PROXY \<and> incoming (rp, s) = [] \<and> cstr buf \<noteq> CRLF"
      then obtain rp1 s1 where r: "Rio_readlineb MAXLINE_PROXY buf rp s = Some (0, buf, rp1, s1)"
        "rio_ok (rp1, s1)" "incoming (rp1, s1) = []" using fwd_headers_eof_step by blast
      have "Rio_writen [] t = Some t"
        by (simp add: Rio_writen_def rio_writen_def writen_loop.simps)
      then have "f buf rp1 s1 t = Some y" using body a r(1) by simp
      then show False using IH[of buf rp1 s1 t y] a r by blast
    qed
  qed
  then show False using assms by blast
qed

section \<open>The reply\<close>

lemma rio_readn_ok:
  assumes "calm_source s"
  shows "\<exists>s'. rio_readn n s = (int (min n (length (src_data s))), take n (src_data s), s')
    \<and> calm_source s' \<and> src_data s' = drop n (src_data s)"
proof -
  have "int n - int (n - length (src_data s)) = int (min n (length (src_data s)))" by auto
  then show ?thesis
    using unbuffered.loop_reads[OF assms, of n n "[]"] by (simp add: rio_readn_def)
qed

lemma reply_loop_ok:
  "calm_source c \<Longrightarrow> calm_sink t \<Longrightarrow> \<exists>c' t'. reply_loop n c t =
     Some (Inr (n + of_nat (length (src_data c)), c', t')) \<and> calm_sink t' \<and> snk_data t' = snk_data t @ src_data c"
proof (induction "length (src_data c)" arbitrary: n c t rule: less_induct)
  case less
  let ?d = "src_data c" and ?m = "min MAXLINE_PROXY (length (src_data c))"
  obtain c1 where c1: "rio_readn MAXLINE_PROXY c = (int ?m, take MAXLINE_PROXY ?d, c1)"
    "calm_source c1" "src_data c1 = drop MAXLINE_PROXY ?d"
    using rio_readn_ok[OF less(2)] by blast
  have M: "0 < MAXLINE_PROXY" by (simp add: MAXLINE_PROXY_def)
  show ?case
  proof (cases "?d = []")
    case True
    then show ?thesis using c1(1) less(3) by (subst reply_loop.simps) simp
  next
    case False
    obtain t1 where t1: "Rio_writen (take MAXLINE_PROXY ?d) t = Some t1" "calm_sink t1"
      "snk_data t1 = snk_data t @ take MAXLINE_PROXY ?d"
      using Rio_writen_ok[OF less(3)] by blast
    have "reply_loop n c t = reply_loop (n + of_nat ?m) c1 t1"
      using c1(1) t1(1) M False by (subst reply_loop.simps) simp
    moreover have "length (src_data c1) < length ?d" using M False c1(3) by (cases ?d) auto
    moreover have "of_nat ?m + of_nat (length (src_data c1)) = (of_nat (length ?d) :: 32 word)"
      unfolding of_nat_add[symmetric] c1(3) by (rule arg_cong[of _ _ of_nat]) auto
    ultimately show ?thesis
      using less(1)[of c1 t1 "n + of_nat ?m"] c1(2,3) t1(2,3) by (auto simp: add.assoc)
  qed
qed

section \<open>URIs\<close>

lemma host_span:
  assumes "list_all (\<lambda>c. \<not> host_delim c) h" "host_delim d"
  shows "takeWhile (\<lambda>c. \<not> host_delim c) (h @ d # xs) = h" "dropWhile (\<lambda>c. \<not> host_delim c) (h @ d # xs) = d # xs"
  using assms by (induction h) auto

lemma path_span:
  assumes "CHR ''/'' \<notin> set h"
  shows "dropWhile (\<lambda>c. c \<noteq> CHR ''/'') (h @ CHR ''/'' # p) = CHR ''/'' # p"
  using assms by (induction h) auto

lemma no_slash: "list_all (\<lambda>c. \<not> host_delim c) h \<Longrightarrow> CHR ''/'' \<notin> set h"
  by (auto simp: list_all_iff host_delim_def)

lemma schemes [simp]:
  "starts_with (''http://'' @ u) ''http://''" "\<not> starts_with (''https://'' @ u) ''http://''"
  "starts_with (''https://'' @ u) ''https:/''"
  by (simp_all add: starts_with_def lower_def)

text \<open>
  The part of a URI behind the scheme, and what \<^verbatim>\<open>parse_uri\<close> makes of it. For \<^verbatim>\<open>https\<close> one slash is
  enough to be taken for a scheme of eight characters.
\<close>

definition uri_rest :: "string \<Rightarrow> string" where
  "uri_rest uri = (if starts_with uri ''http://'' then drop 7 uri
     else if starts_with uri ''https:/'' then drop 8 uri else uri)"

lemma parse_uri_rest:
  "uri_rest uri = h @ CHR ''/'' # p \<Longrightarrow> list_all (\<lambda>c. \<not> host_delim c) h \<Longrightarrow> parse_uri uri = Some (h, p, 80)"
  using host_span[of h "CHR ''/''" p] path_span[OF no_slash, of h p]
  by (simp add: parse_uri_def uri_rest_def[symmetric] host_delim_def)

lemma atoi_prefix:
  assumes "\<not> is_digit (hd xs)" "xs \<noteq> []"
  shows "atoi (dec_nat n @ xs) = int n"
proof -
  obtain c u where cu: "dec_nat n = c # u" by (cases "dec_nat n") auto
  have d: "list_all is_digit (dec_nat n)" by (rule dec_nat_digits)
  then have "takeWhile is_digit (dec_nat n @ xs) = dec_nat n"
    using assms by (cases xs) (simp_all add: list_all_iff takeWhile_append2)
  then show ?thesis
    using d dec_nat_val[of n] is_digit_facts[of c] by (simp add: atoi_def cu)
qed

lemma parse_uri_port:
  assumes "uri_rest uri = h @ '':'' @ dec_nat n @ CHR ''/'' # p" "list_all (\<lambda>c. \<not> host_delim c) h"
  shows "parse_uri uri = Some (h, p, int n)"
proof -
  have "\<not> is_digit CHR ''/''" by (simp add: is_digit_def)
  then have a: "atoi (dec_nat n @ CHR ''/'' # p) = int n" by (simp add: atoi_prefix)
  have "CHR ''/'' \<notin> set (h @ '':'' @ dec_nat n)"
    using no_slash[OF assms(2)] dec_nat_digits[of n] by (auto simp: list_all_iff is_digit_def)
  then have "dropWhile (\<lambda>c. c \<noteq> CHR ''/'') (uri_rest uri) = CHR ''/'' # p"
    using path_span[of "h @ '':'' @ dec_nat n" p] by (simp add: assms(1))
  moreover have "host_delim CHR '':''" by (simp add: host_delim_def)
  ultimately show ?thesis
    using host_span[OF assms(2), of "CHR '':''" "dec_nat n @ CHR ''/'' # p"] a assms(1)
    by (simp add: parse_uri_def uri_rest_def[symmetric])
qed

lemma parse_uri_None: "parse_uri uri = None \<longleftrightarrow> list_all (\<lambda>c. \<not> host_delim c) (uri_rest uri)"
  by (simp add: parse_uri_def uri_rest_def[symmetric] Let_def list_all_iff)

section \<open>A connection\<close>

text \<open>
  The circumstances of a connection: the local arrays have their sizes, the descriptors are
  calm, the request line names a URI that can be parsed, and its host accepts a connection.
\<close>

definition served :: "(string \<Rightarrow> int \<Rightarrow> (source \<times> outlet) option) \<Rightarrow> string \<Rightarrow> string \<Rightarrow> rio \<Rightarrow> source \<Rightarrow> outlet
    \<Rightarrow> string \<Rightarrow> string \<Rightarrow> source \<Rightarrow> outlet \<Rightarrow> bool" where
  "served open_fd buf0 uri0 rio0 server_in server_out l uri c u \<longleftrightarrow>
     length buf0 = MAXLINE_PROXY \<and> length (rio_buf rio0) = RIO_BUFSIZE \<and> calm_source server_in \<and> calm_sink server_out
     \<and> proper_line l \<and> scan_uri uri0 l = uri \<and> calm_source c \<and> calm_sink u
     \<and> (case parse_uri uri of None \<Rightarrow> False | Some (h, path, port) \<Rightarrow> open_fd h port = Some (c, u))"

lemma rio_init_ok:
  assumes "length (rio_buf rio0) = RIO_BUFSIZE" "calm_source s"
  shows "rio_ok (rio_readinitb rio0, s)" "incoming (rio_readinitb rio0, s) = src_data s"
  using assms by (simp_all add: rio_ok_def rio_readinitb_def incoming_def unread_def)

lemma request_line:
  assumes sv: "served open_fd buf0 uri0 rio0 si so l uri c u" and d: "src_data si = l @ xs"
  shows "\<exists>rp s u1. rio_ok (rp, s) \<and> incoming (rp, s) = xs \<and> calm_sink u1
    \<and> snk_data u1 = snk_data u @ overwrite 0 (l @ [NUL]) buf0 \<and>
    rcvd_forward_request open_fd buf0 uri0 rio0 si =
      (case fwd_headers (overwrite 0 (l @ [NUL]) buf0) rp s u1 of
         None \<Rightarrow> None
       | Some (Inl e) \<Rightarrow> Some (Inl e)
       | Some (Inr (buf2, rp2, s2, t2)) \<Rightarrow>
           (case Rio_writen CRLF t2 of None \<Rightarrow> Some (Inl Exited)
            | Some t3 \<Rightarrow> Some (Inr (uri, s2, c, t3))))"
proof -
  let ?buf = "overwrite 0 (l @ [NUL]) buf0"
  have v: "length buf0 = MAXLINE_PROXY" "length (rio_buf rio0) = RIO_BUFSIZE" "calm_source si"
    "proper_line l" "scan_uri uri0 l = uri" "calm_sink u" using sv by (simp_all add: served_def)
  obtain h path port where p: "parse_uri uri = Some (h, path, port)" "open_fd h port = Some (c, u)"
    using sv by (auto simp: served_def split: option.splits)
  note i = rio_init_ok[OF v(2,3)]
  obtain rp s where r: "rio_ok (rp, s)" "incoming (rp, s) = xs"
    "Rio_readlineb MAXLINE_PROXY buf0 (rio_readinitb rio0) si = Some (int (length l), ?buf, rp, s)"
    using read_proper_line[OF i(1) _ v(4,1)] i(2) d by auto
  note b = proper_line_buffer[OF v(4,1)]
  obtain u1 where u1: "Rio_writen ?buf u = Some u1" "calm_sink u1" "snk_data u1 = snk_data u @ ?buf"
    using Rio_writen_ok[OF v(6)] by blast
  show ?thesis
    using r u1 p b v(5) by (intro exI[of _ rp] exI[of _ s] exI[of _ u1]) (simp add: rcvd_forward_request_def)
qed

lemma request_forwarded:
  assumes sv: "served open_fd buf0 uri0 rio0 si so l uri c u" and hs: "list_all proper_line hs" "CRLF \<notin> set hs"
    and d: "src_data si = l @ concat hs @ CRLF @ xs"
  shows "\<exists>s u1. rcvd_forward_request open_fd buf0 uri0 rio0 si = Some (Inr (uri, s, c, u1)) \<and> calm_sink u1
    \<and> snk_data u1 = snk_data u @ overwrite 0 (l @ [NUL]) buf0 @ concat hs @ CRLF"
proof -
  have len: "length (overwrite 0 (l @ [NUL]) buf0) = MAXLINE_PROXY"
    using sv proper_line_buffer(1) by (simp add: served_def)
  obtain rp s u1 where 1: "rio_ok (rp, s)" "incoming (rp, s) = concat hs @ CRLF @ xs" "calm_sink u1"
    "snk_data u1 = snk_data u @ overwrite 0 (l @ [NUL]) buf0"
    and e: "rcvd_forward_request open_fd buf0 uri0 rio0 si =
      (case fwd_headers (overwrite 0 (l @ [NUL]) buf0) rp s u1 of
         None \<Rightarrow> None
       | Some (Inl e) \<Rightarrow> Some (Inl e)
       | Some (Inr (buf2, rp2, s2, t2)) \<Rightarrow>
           (case Rio_writen CRLF t2 of None \<Rightarrow> Some (Inl Exited)
            | Some t3 \<Rightarrow> Some (Inr (uri, s2, c, t3))))"
    using request_line[OF sv d] by blast
  obtain buf' rp' s' t' where 2: "fwd_headers (overwrite 0 (l @ [NUL]) buf0) rp s u1 = fwd_headers buf' rp' s' t'"
    "rio_ok (rp', s')" "calm_sink t'" "length buf' = MAXLINE_PROXY" "incoming (rp', s') = CRLF @ xs"
    "snk_data t' = snk_data u1 @ concat hs"
    using fwd_headers_lines[OF 1(1,3) len hs 1(2)] by blast
  obtain b r s2 where 3: "fwd_headers buf' rp' s' t' = Some (Inr (b, r, s2, t'))"
    using fwd_headers_blank[OF 2(2,4,5)] by blast
  obtain t3 where "Rio_writen CRLF t' = Some t3" "calm_sink t3" "snk_data t3 = snk_data t' @ CRLF"
    using Rio_writen_ok[OF 2(3)] by blast
  then show ?thesis using e 1(4) 2(1,6) 3 by simp
qed

lemma request_spins:
  assumes sv: "served open_fd buf0 uri0 rio0 si so l uri c u" and hs: "list_all proper_line hs" "CRLF \<notin> set (l # hs)"
    and d: "src_data si = l @ concat hs"
  shows "rcvd_forward_request open_fd buf0 uri0 rio0 si = None"
proof -
  have l: "length (overwrite 0 (l @ [NUL]) buf0) = MAXLINE_PROXY" "cstr (overwrite 0 (l @ [NUL]) buf0) = l"
    using sv proper_line_buffer(1,2) by (simp_all add: served_def)
  have d': "src_data si = l @ (concat hs @ [])" using d by simp
  have n: "CRLF \<notin> set hs" using hs(2) by simp
  obtain rp s u1 where 1: "rio_ok (rp, s)" "incoming (rp, s) = concat hs @ []" "calm_sink u1"
    and e: "rcvd_forward_request open_fd buf0 uri0 rio0 si =
      (case fwd_headers (overwrite 0 (l @ [NUL]) buf0) rp s u1 of
         None \<Rightarrow> None
       | Some (Inl e) \<Rightarrow> Some (Inl e)
       | Some (Inr (buf2, rp2, s2, t2)) \<Rightarrow>
           (case Rio_writen CRLF t2 of None \<Rightarrow> Some (Inl Exited)
            | Some t3 \<Rightarrow> Some (Inr (uri, s2, c, t3))))"
    using request_line[OF sv d'] by blast
  obtain buf' rp' s' t' where 2: "fwd_headers (overwrite 0 (l @ [NUL]) buf0) rp s u1 = fwd_headers buf' rp' s' t'"
    "rio_ok (rp', s')" "length buf' = MAXLINE_PROXY" "incoming (rp', s') = []"
    "cstr buf' = (if hs = [] then l else last hs)"
    using fwd_headers_lines[OF 1(1,3) l(1) hs(1) n 1(2)] l(2) by auto
  have "cstr buf' \<noteq> CRLF" using 2(5) hs(2) by (cases hs rule: rev_cases) auto
  then show ?thesis using e 2(1) fwd_headers_eof[OF 2(2-4)] by simp
qed

lemma thread_serves:
  assumes sv: "served open_fd buf0 uri0 rio0 si so l uri c u" and hs: "list_all proper_line hs" "CRLF \<notin> set hs"
    and d: "src_data si = l @ concat hs @ CRLF @ xs"
  shows "if length (log_text time_str addr uri) < MAXLINE_PROXY
    then \<exists>u' t'. http_thread open_fd buf0 uri0 rio0 time_str addr si so =
        Some (Inr (u', t', log_text time_str addr uri @ [line_end]))
      \<and> snk_data u' = snk_data u @ overwrite 0 (l @ [NUL]) buf0 @ concat hs @ CRLF @ CRLF
      \<and> snk_data t' = snk_data so @ src_data c
    else http_thread open_fd buf0 uri0 rio0 time_str addr si so = Some (Inl Crashed)"
proof -
  obtain s u1 where r: "rcvd_forward_request open_fd buf0 uri0 rio0 si = Some (Inr (uri, s, c, u1))" "calm_sink u1"
    "snk_data u1 = snk_data u @ overwrite 0 (l @ [NUL]) buf0 @ concat hs @ CRLF"
    using request_forwarded[OF sv hs d] by blast
  have "calm_source c" "calm_sink so" using sv by (simp_all add: served_def)
  then obtain c' t' where t: "reply_loop 0 c so = Some (Inr (of_nat (length (src_data c)), c', t'))"
    "snk_data t' = snk_data so @ src_data c"
    using reply_loop_ok[of c so 0] by auto
  obtain u2 where "Rio_writen CRLF u1 = Some u2" "snk_data u2 = snk_data u1 @ CRLF"
    using Rio_writen_ok[OF r(2)] by blast
  then show ?thesis using r t by (simp add: http_thread_def rcvd_forward_reply_def format_log_entry_def Let_def)
qed

section \<open>A small connection\<close>

text \<open>The concrete input of the witnesses; the reads are short and interrupted.\<close>

definition line0 :: string where "line0 = ''GET http://a:81/b HTTP/1.0'' @ [line_end]"

definition request0 :: source where
  "request0 = \<lparr>src_data = line0 @ concat [''Host: a'' @ [line_end]] @ CRLF @ [], src_script = [Give 3, Fail EINTR, Give 0],
               src_errno = 0\<rparr>"

definition answer0 :: source where
  "answer0 = \<lparr>src_data = ''hello'', src_script = [Fail EINTR], src_errno = 0\<rparr>"

definition sink0 :: outlet where
  "sink0 = \<lparr>snk_data = [], snk_script = [Give 2], snk_errno = 0\<rparr>"

definition open0 :: "string \<Rightarrow> int \<Rightarrow> (source \<times> outlet) option" where
  "open0 h port = (if h = ''a'' \<and> port = 81 then Some (answer0, sink0) else None)"

definition buf8k :: string where "buf8k = replicate 8192 NUL"

definition rio0 :: rio where "rio0 = \<lparr>rio_cnt = 0, rio_bufptr = 0, rio_buf = buf8k\<rparr>"

lemma uri0: "scan_uri [] line0 = ''http://a:81/b''" "parse_uri ''http://a:81/b'' = Some (''a'', ''b'', 81)"
  by code_simp+

lemma line0_proper: "proper_line line0" "proper_line (''Host: a'' @ [line_end])" "line0 \<noteq> CRLF"
    "''Host: a'' @ [line_end] \<noteq> CRLF"
  by (simp_all add: proper_line_def line0_def MAXLINE_PROXY_def CRLF_def)

lemma served0: "calm_source s \<Longrightarrow> served open0 buf8k [] rio0 s sink0 line0 ''http://a:81/b'' answer0 sink0"
  using line0_proper(1)
  by (simp add: served_def uri0 open0_def buf8k_def rio0_def MAXLINE_PROXY_def RIO_BUFSIZE_def
      calm_sink_def calm_write_def sink0_def answer0_def calm_source_def calm_def)

lemma request0_calm: "calm_source request0"
  by (simp add: request0_def calm_source_def calm_def)

section \<open>Properties\<close>

text \<open>
  C26: robust reading. For any splitting of the data into short reads and any finite number of
  interruptions, \<^verbatim>\<open>rio_readn\<close> and \<^verbatim>\<open>rio_readnb\<close> return: the next \<open>n\<close> bytes, or all there are, with
  their number, and the bytes behind them are still to be read.
\<close>

theorem reads_exactly:
  assumes "rio_ok (rp, s)"
  shows "(\<exists>s'. rio_readn n s = (int (min n (length (src_data s))), take n (src_data s), s')
           \<and> src_data s' = drop n (src_data s)) \<and>
    (\<exists>rp' s'. rio_readnb n rp s = (int (min n (length (incoming (rp, s)))), take n (incoming (rp, s)), rp', s')
           \<and> incoming (rp', s') = drop n (incoming (rp, s)))"
proof
  show "\<exists>s'. rio_readn n s = (int (min n (length (src_data s))), take n (src_data s), s')
           \<and> src_data s' = drop n (src_data s)"
    using rio_readn_ok[of s n] assms by (auto simp: rio_ok_def)
  have "int n - int (n - length (incoming (rp, s))) = int (min n (length (incoming (rp, s))))" by auto
  then show "\<exists>rp' s'. rio_readnb n rp s = (int (min n (length (incoming (rp, s)))), take n (incoming (rp, s)), rp', s')
           \<and> incoming (rp', s') = drop n (incoming (rp, s))"
    using buffered.loop_reads[OF assms, of n n "[]"] by (auto simp: rio_readnb_def)
qed

theorem reads_exactly_witness:
  "\<exists>s'. rio_readn 9 answer0 = (5, ''hello'', s') \<and> src_data s' = []"
proof -
  have "rio_ok (rio0, answer0)"
    by (simp add: rio_ok_def rio0_def buf8k_def RIO_BUFSIZE_def answer0_def calm_source_def calm_def)
  then show ?thesis using reads_exactly[of rio0 answer0 9] by (simp add: answer0_def)
qed

text \<open>
  C27: reading lines. The buffer and its descriptor implement a text of which
  \<^verbatim>\<open>rio_readlineb\<close> takes the next line, cut to \<^verbatim>\<open>maxlen - 1\<close> bytes, however the reads split it. The
  value returned is the length of the line when it ends with a newline; for a line cut by the
  end of the data or by \<^verbatim>\<open>maxlen\<close> it is one more than the bytes stored.
\<close>

theorem readline_takes_next_line:
  assumes "rio_ok (rp, s)" "1 < maxlen" "maxlen \<le> length buf" and "l = next_line maxlen (incoming (rp, s))"
  shows "\<exists>rp' s'. rio_ok (rp', s') \<and> incoming (rp', s') = drop (length l) (incoming (rp, s)) \<and>
    rio_readlineb maxlen buf rp s =
      (if incoming (rp, s) = [] then (0, buf, rp', s') else (line_result l, overwrite 0 (l @ [NUL]) buf, rp', s'))"
  by (rule rio_readlineb_ok[OF assms])

theorem readline_takes_next_line_witness:
  "\<exists>rp' s'. rio_readlineb 4 ''....'' rio0 answer0 = (4, ''hel'' @ [NUL], rp', s') \<and> incoming (rp', s') = ''lo''"
proof -
  have "rio_ok (rio0, answer0)" "incoming (rio0, answer0) = ''hello''"
    by (simp_all add: rio_ok_def rio0_def buf8k_def RIO_BUFSIZE_def answer0_def calm_source_def calm_def
        incoming_def unread_def)
  then show ?thesis
    using readline_takes_next_line[of rio0 answer0 4 "''....''" "''hel''"]
    by (auto simp: next_line_def line_result_def overwrite_def)
qed

text \<open>
  C29: when a connection ends. For a request of complete lines the thread stays in its loop for
  ever exactly if there is no empty line among its headers, as when the browser closes the
  connection early: the end of the data is not noticed. With an empty line the thread returns
  normally if the log entry fits into its array, and overflows the array otherwise.
\<close>

theorem thread_ends_iff:
  assumes "served open_fd buf0 uri0 rio0 si so l uri c u" "list_all proper_line hs" "l \<noteq> CRLF"
    and "src_data si = l @ concat hs"
  shows "(http_thread open_fd buf0 uri0 rio0 time_str addr si so = None \<longleftrightarrow> CRLF \<notin> set hs)
    \<and> ((\<exists>r. http_thread open_fd buf0 uri0 rio0 time_str addr si so = Some (Inr r))
        \<longleftrightarrow> CRLF \<in> set hs \<and> length (log_text time_str addr uri) < MAXLINE_PROXY)
    \<and> (http_thread open_fd buf0 uri0 rio0 time_str addr si so = Some (Inl Crashed)
        \<longleftrightarrow> CRLF \<in> set hs \<and> MAXLINE_PROXY \<le> length (log_text time_str addr uri))"
proof (cases "CRLF \<in> set hs")
  case True
  then obtain as bs where "hs = as @ CRLF # bs" "CRLF \<notin> set as" by (meson split_list_first)
  then show ?thesis
    using thread_serves[OF assms(1), of as "concat bs" time_str addr] assms(2,4)
    by (cases "length (log_text time_str addr uri) < MAXLINE_PROXY") (simp_all add: not_less, auto)
next
  case False
  then have "rcvd_forward_request open_fd buf0 uri0 rio0 si = None"
    using request_spins[OF assms(1,2) _ assms(4)] assms(3) by simp
  then show ?thesis using False by (simp add: http_thread_def)
qed

lemma log0: "length (log_text ''now'' 0 ''http://a:81/b'') < MAXLINE_PROXY"
  "log_text ''now'' 0x0100007F ''http://a:81/b'' = ''now: 127.0.0.1 http://a:81/b''"
  by code_simp+

theorem thread_ends_iff_witness:
  "(\<exists>r. http_thread open0 buf8k [] rio0 ''now'' 0 request0 sink0 = Some (Inr r)) \<and>
   http_thread open0 buf8k [] rio0 ''now'' 0 (request0\<lparr>src_data := line0 @ concat [''Host: a'' @ [line_end]]\<rparr>) sink0 = None"
proof
  show "\<exists>r. http_thread open0 buf8k [] rio0 ''now'' 0 request0 sink0 = Some (Inr r)"
    using thread_ends_iff[OF served0[OF request0_calm], of "[''Host: a'' @ [line_end], CRLF]" "''now''" 0]
      line0_proper CRLF_proper log0(1) by (simp add: request0_def)
  let ?s = "request0\<lparr>src_data := line0 @ concat [''Host: a'' @ [line_end]]\<rparr>"
  have "calm_source ?s" using request0_calm by (simp add: calm_source_def)
  then show "http_thread open0 buf8k [] rio0 ''now'' 0 ?s sink0 = None"
    using thread_ends_iff[OF served0, of ?s "[''Host: a'' @ [line_end]]" "''now''" 0] line0_proper by auto
qed

text \<open>
  C28: what a connection transfers. The browser gets the whole answer of the origin server,
  and the log the line for the client's address and the URI. The origin server gets the
  headers and the empty line, but before them the whole 8192 bytes of the buffer, of which the
  request line is only the start, and behind them a second empty line meant for the browser. A log
  entry that does not fit into its 8192 bytes, as a long URI makes it, ends in an overflow after
  the transfer.
\<close>

theorem thread_forwards:
  assumes "served open_fd buf0 uri0 rio0 si so l uri c u" "list_all proper_line hs" "CRLF \<notin> set hs"
    and "src_data si = l @ concat hs @ CRLF @ xs"
  shows "if length (log_text time_str addr uri) < MAXLINE_PROXY
    then \<exists>u' t'. http_thread open_fd buf0 uri0 rio0 time_str addr si so =
        Some (Inr (u', t', log_text time_str addr uri @ [line_end]))
      \<and> snk_data u' = snk_data u @ overwrite 0 (l @ [NUL]) buf0 @ concat hs @ CRLF @ CRLF
      \<and> snk_data t' = snk_data so @ src_data c
    else http_thread open_fd buf0 uri0 rio0 time_str addr si so = Some (Inl Crashed)"
  by (rule thread_serves[OF assms])

theorem thread_forwards_witness:
  "\<exists>u' t'. http_thread open0 buf8k [] rio0 ''now'' 0x0100007F request0 sink0 =
      Some (Inr (u', t', ''now: 127.0.0.1 http://a:81/b'' @ [line_end]))
    \<and> snk_data t' = ''hello''"
proof -
  have d: "src_data request0 = line0 @ concat [''Host: a'' @ [line_end]] @ CRLF @ []" by (simp add: request0_def)
  have "snk_data sink0 @ src_data answer0 = ''hello''" by (simp add: sink0_def answer0_def)
  then show ?thesis
    using thread_forwards[OF served0[OF request0_calm] _ _ d, of "''now''" "0x0100007F"] line0_proper log0(2) by (simp add: MAXLINE_PROXY_def) blast
qed

text \<open>
  C30: the URI parser. Behind the scheme, which may be missing, a host without delimiters, an
  optional port in the range of \<^verbatim>\<open>int\<close> and a path are given back; and it is exactly the URIs in which
  no delimiter follows the scheme, such as \<^verbatim>\<open>http://host\<close>, for which the parser leaves its argument: it
  follows a null pointer (for \<^verbatim>\<open>https:/\<close> it starts behind the end of the string). What it takes for a
  scheme is \<^verbatim>\<open>http://\<close>, or \<^verbatim>\<open>https:/\<close> with any one character behind it.
\<close>

theorem parse_uri_exact:
  "(uri_rest uri = h @ CHR ''/'' # p \<longrightarrow> list_all (\<lambda>c. \<not> host_delim c) h \<longrightarrow> parse_uri uri = Some (h, p, 80)) \<and>
   (uri_rest uri = h @ '':'' @ dec_nat n @ CHR ''/'' # p \<longrightarrow> list_all (\<lambda>c. \<not> host_delim c) h \<longrightarrow> n < 2 ^ 31
      \<longrightarrow> parse_uri uri = Some (h, p, int n)) \<and>
   (parse_uri uri = None \<longleftrightarrow> list_all (\<lambda>c. \<not> host_delim c) (uri_rest uri))"
  using parse_uri_rest parse_uri_port parse_uri_None by blast

theorem parse_uri_exact_witness:
  "parse_uri ''http://www.x.org/a/b'' = Some (''www.x.org'', ''a/b'', 80) \<and> parse_uri ''http://www.x.org'' = None"
proof -
  have "uri_rest ''http://www.x.org/a/b'' = ''www.x.org'' @ CHR ''/'' # ''a/b''"
    "list_all (\<lambda>c. \<not> host_delim c) ''www.x.org''" "list_all (\<lambda>c. \<not> host_delim c) (uri_rest ''http://www.x.org'')"
    by code_simp+
  then show ?thesis
    using parse_uri_exact[of "''http://www.x.org/a/b''" "''www.x.org''" "''a/b''" 0]
      parse_uri_exact[of "''http://www.x.org''" "[]" "[]" 0] by blast
qed

text \<open>One slash is taken for two: the first letter of the host is lost.\<close>

lemma one_slash_scheme: "parse_uri ''https:/host/p'' = Some (''ost'', ''p'', 80)" "parse_uri ''https:/x'' = None"
  by code_simp+

end
