(* ===== verification/Spec2Isabelle.thy ===== *)
theory Spec2Isabelle
  imports Miniproc_Props Memos_Props Memos_Boot_Props Memos_Keyboard Miniproc_Loader Macro_Numbers Kernel_Console Btest_Props Pointer_Lab Tsh_Props Csim_Props Transpose Bits_Float Sort_Props Srt_Net Malloc_Props Proxy_Props
begin

text \<open>
  A verification library for the C programs of this repository: two small operating systems, a
  shell, the malloc, cache, proxy and data labs, generic sorting, and a transport protocol. Each
  program is translated function by function into executable definitions, and the properties are
  theorems about these definitions. The programs do not call each other; what they share in the
  library is \<^verbatim>\<open>Prelude\<close> (machine integers, lists, bounded searches), \<^verbatim>\<open>C_Strings\<close> (C strings and
  the conversions of \<^verbatim>\<open>scanf\<close>), and, for the two kernels, \<^verbatim>\<open>Kernel_Lib\<close>, \<^verbatim>\<open>X86_Registers\<close> and the
  interfaces of \<^verbatim>\<open>Scheduling\<close>.

  \<^bold>\<open>Conventions.\<close> C integers are words (\<open>i8\<close>, \<open>u8\<close>, \<open>i32\<close>, \<open>u32\<close>, ...), whose operations wrap;
  \<^verbatim>\<open>unat\<close> and \<^verbatim>\<open>sint\<close> read them. Structures are records, tagged values are datatypes. A failed
  assertion, a null or bad pointer, a read outside an array and a call that exits are values
  (\<open>None\<close>, or a constructor of an outcome type), never excluded by a hypothesis. A loop that may
  run for ever is a \<^verbatim>\<open>partial_function (option)\<close> whose \<open>None\<close> means that it does not return; the
  properties then say when it does. All other loops are total functions, with a measure where the
  recursion is not structural; no definition takes fuel. Files, descriptors, the network and
  allocators under test are parameters: functions or lists of answers over which the properties
  quantify.

  \<^bold>\<open>MemOS\<close> (\<^verbatim>\<open>OS/WeensyOS/MemOS\<close>). \<^verbatim>\<open>Memos_Paging\<close>: two-level page tables in the bytes of
  physical memory, \<^verbatim>\<open>virtual_memory_map\<close> and \<^verbatim>\<open>_lookup\<close> of \<^verbatim>\<open>k-hardware.c\<close>, and the page allocator of
  \<^verbatim>\<open>kernel.c\<close> (\<open>memos\<close> is the kernel's global state: memory, page descriptors, processes).
  \<^verbatim>\<open>Memos_Kernel\<close>: \<^verbatim>\<open>fork\<close>, \<^verbatim>\<open>exception\<close> with every system call, \<^verbatim>\<open>schedule\<close>, \<^verbatim>\<open>run\<close>,
  \<^verbatim>\<open>virtual_memory_check\<close> and the memory display. \<^verbatim>\<open>Memos_Isolation\<close>: the page-table invariant
  \<open>wf_memos\<close> and its preservation, by an ownership argument: a step for one process changes only
  pages that process owns or that were free. \<^verbatim>\<open>Memos_Props\<close>: isolation, what fork copies and when it
  succeeds, and its failure when memory runs out. \<^verbatim>\<open>Memos_Boot\<close>: the way from \<^verbatim>\<open>kernel\<close> to the first
  process (page tables of the kernel, page descriptors, the program loader of \<^verbatim>\<open>k-loader.c\<close> with its
  writes through the page table in use, the start of the selected programs). \<^verbatim>\<open>Memos_Boot_Tables\<close>,
  \<^verbatim>\<open>Memos_Boot_Load\<close>, \<^verbatim>\<open>Memos_Boot_Setup\<close> build up \<^verbatim>\<open>Memos_Boot_Props\<close>: for sound images the boot ends in
  process 1 in a state that satisfies \<open>wf_memos\<close>, so isolation holds from then on, and every segment is
  loaded with its permissions and its bytes (shifted, if its address is not that of a page). \<^verbatim>\<open>Memos_Keyboard\<close>: the keyboard driver, by which every printable
  text can be typed and is read back; the kernel steps take the keyboard as silent.

  \<^bold>\<open>MiniprocOS\<close> (\<^verbatim>\<open>OS/WeensyOS/MiniprocOS\<close>). \<^verbatim>\<open>Miniproc_Kernel\<close>: the process table with the wait
  queues, every system call of \<^verbatim>\<open>kernel.c\<close>, \<^verbatim>\<open>schedule\<close> and the table set-up of \<^verbatim>\<open>start\<close>.
  There is no memory protection; the table is a record of its own, so what is proved of the reachable
  states assumes that no process writes into the memory of the kernel, and a write of the kernel itself
  (by a fork with a wild stack pointer) is the outcome \<open>Overwritten\<close>.
  \<^verbatim>\<open>Miniproc_Props\<close>: the table invariant over these states, round robin, fork, the handshake of wait and
  exit over whole runs, and what kill does to waiters. \<^verbatim>\<open>Scheduling\<close> holds the round-robin search and the process table as
  locales, interpreted for both kernels. \<^verbatim>\<open>Kernel_Lib\<close> models the memory and string routines of both
  \<^verbatim>\<open>lib.c\<close> over a flat byte memory whose addresses wrap. \<^verbatim>\<open>Kernel_Printf\<close> models their formatted output:
  one loop over the format, the conversions of each kernel, the console, \<^verbatim>\<open>vsnprintf\<close>, and \<^verbatim>\<open>panic\<close> of
  \<^verbatim>\<open>process.c\<close>. \<^verbatim>\<open>Kernel_Printf_Text\<close> reduces every printer (locale \<open>printer\<close>) to the text it is sent;
  \<^verbatim>\<open>Kernel_Printf_Props\<close>, \<^verbatim>\<open>Kernel_Console\<close>: decimal fields, the precision of the two kernels, the buffer of
  a panic, and the console as a ring of cells. \<^verbatim>\<open>Miniproc_Loader\<close>: the program loader of MiniprocOS, and where
  it puts the bytes of a segment.

  \<^bold>\<open>Shell\<close> (\<^verbatim>\<open>C/CSAPPLab/shell/tsh.c\<close>). \<^verbatim>\<open>Tsh\<close>: the job list, \<^verbatim>\<open>parseline\<close>, the built-in commands and
  \<^verbatim>\<open>eval\<close>, and the three signal handlers; the main thread and the handlers interleave as a step
  relation. \<^verbatim>\<open>Tsh_Jobs\<close>: the job list refines a partial map from pids (locale \<open>pid_table\<close>).
  \<^verbatim>\<open>Tsh_Props\<close>: one foreground job, the end of \<^verbatim>\<open>waitfg\<close>, and the round trip of the parser with its two
  array bounds; the command line kept in a job has no bound in the model (it comes from \<^verbatim>\<open>fgets\<close> with the
  size of its array).

  \<^bold>\<open>Malloc lab\<close> (\<^verbatim>\<open>C/CSAPPLab/malloclab\<close>). \<^verbatim>\<open>Memlib\<close>: the simulated heap of \<^verbatim>\<open>memlib.c\<close>. \<^verbatim>\<open>Mdriver\<close>,
  \<^verbatim>\<open>Mdriver_Trace\<close>: range list, validity, utilization and speed runs, the trace reader and the main
  loop of \<^verbatim>\<open>mdriver.c\<close>, with the allocator as a parameter. \<^verbatim>\<open>Mdriver_Props\<close>, \<^verbatim>\<open>Mdriver_Contract\<close>,
  \<^verbatim>\<open>Malloc_Props\<close>: what the checks establish for any allocator, the contract of an allocator as an
  abstract specification, and that the driver accepts whatever keeps it.

  \<^bold>\<open>Cache lab\<close> (\<^verbatim>\<open>C/CSAPPLab/cache\<close>). \<^verbatim>\<open>Csim\<close>: the simulator of \<^verbatim>\<open>csim.c\<close>, whose lines are heap cells
  in doubly linked lists. \<^verbatim>\<open>Csim_Lists\<close>, \<^verbatim>\<open>Csim_Sets\<close>, \<^verbatim>\<open>Csim_Props\<close>: the cells as sequences, one set as
  a list in LRU order, and the whole run against an LRU reference whose counts the \<^verbatim>\<open>int\<close> counters hold up
  to wrap-around; \<open>csim_process\<close> adds the other blocks of the heap, the open files and the results file. \<^verbatim>\<open>Transpose\<close>: \<^verbatim>\<open>trans.c\<close>.

  \<^bold>\<open>Proxy lab\<close> (\<^verbatim>\<open>C/CSAPPLab/proxy\<close>). \<^verbatim>\<open>Rio\<close>: the robust I/O routines of \<^verbatim>\<open>csapp.c\<close> over descriptors with
  short counts, interruptions and errors. \<^verbatim>\<open>Rio_Props\<close>: the contract of the retrying loops, as a
  locale interpreted for the unbuffered and the buffered reader. \<^verbatim>\<open>Proxy\<close>, \<^verbatim>\<open>Proxy_Props\<close>: the URI
  parser and the thread of one connection, what it sends where, and when it ends, spins or overflows the
  array of the log entry.

  \<^bold>\<open>Data lab\<close> (\<^verbatim>\<open>C/CSAPPLab/bits\<close>, repeated under \<^verbatim>\<open>pointer\<close>). \<^verbatim>\<open>Bits\<close>: every puzzle of \<^verbatim>\<open>bits.c\<close> and the
  references of \<^verbatim>\<open>tests.c\<close>. \<^verbatim>\<open>Bits_Ref\<close>, \<^verbatim>\<open>Bits_Float\<close>: equality with the references, and the values
  of the floating-point puzzles. \<^verbatim>\<open>Btest\<close>, \<^verbatim>\<open>Btest_Props\<close>: the test driver \<^verbatim>\<open>btest.c\<close> with the table of
  \<^verbatim>\<open>decl.c\<close>, what it decides and which floats it never tests. \<^verbatim>\<open>Pointer_Lab\<close>: \<^verbatim>\<open>pointer.c\<close> and \<^verbatim>\<open>ptest.c\<close>.

  \<^bold>\<open>Sorting\<close> (\<^verbatim>\<open>Algorithm/Sort\<close>). \<^verbatim>\<open>Sort\<close>: the macros of \<^verbatim>\<open>sort.h\<close> on arrays as lists, reads and writes
  out of range being failures. \<^verbatim>\<open>Sort_Quick\<close>, \<^verbatim>\<open>Sort_Intro\<close>, \<^verbatim>\<open>Sort_Props\<close>: three-way quick sort, heap
  sort and introsort for every comparison of the locale \<open>comparator\<close>.

  \<^bold>\<open>Transport protocol\<close> (\<^verbatim>\<open>Networks/DartNet/SRT\<close>). \<^verbatim>\<open>Srt_Seg\<close>: segments, their framing and the simulated
  loss of \<^verbatim>\<open>common/seg.c\<close>. \<^verbatim>\<open>Srt\<close>: client and server with their control blocks, \<^verbatim>\<open>try_send\<close> and the handler
  threads cut at their accesses to shared state: the server replies first and changes its state in later
  steps. \<^verbatim>\<open>Srt_Net\<close>: one connection over lossy channels with every interleaving of these steps, as a step
  relation; what a connected client may conclude of the server, and a run that connects too early.

  \<^bold>\<open>Preprocessor arithmetic\<close> (\<^verbatim>\<open>C/NumberSystemMacro.c\<close>). \<^verbatim>\<open>Macro_Numbers\<close>: the macros as partial functions on
  small numbers.

  \<^bold>\<open>Not modelled.\<close> The loaders in the boot sectors, port and interrupt controller access, segment and
  interrupt descriptors; the forked child of the shell up to \<^verbatim>\<open>execve\<close> and the installation of handlers; the
  malloc package \<^verbatim>\<open>mm.c\<close>, which does not compile (it holds unresolved merge conflicts); timing and
  performance measurement (\<^verbatim>\<open>clock.c\<close>, \<^verbatim>\<open>fcyc.c\<close>, \<^verbatim>\<open>fsecs.c\<close>, \<^verbatim>\<open>ftimer.c\<close>), which depends on the clock;
  the messages of the drivers and the options of \<^verbatim>\<open>mdriver\<close>; the wrappers of system calls in \<^verbatim>\<open>csapp.c\<close> that
  only test a return value; host tools of the builds; the programs in C++, Python, Scheme and shell.
\<close>

end
